(* ===== verification/Apta_Prelude.thy ===== *)
theory Apta_Prelude
  imports Main "HOL-Library.Word"
begin

text \<open>
  Shared vocabulary of the development: the fixed-width integer types of the C sources
  (LP64: \<open>size_t\<close> has 64 bits), the status codes of \<^verbatim>\<open>include/apta/apta_errors.h\<close>, the
  public constants the components share, and the outcome type in which fallible C code is
  modelled.  An outcome is a returned value, a failing status, or \<open>Fault\<close>, which stands
  for an access outside the memory the code was given (undefined behaviour in C); the small
  weakest-precondition calculus at the end of the theory is what the memory-safety proofs of
  the parser and of the writer run on.
\<close>

unbundle bit_operations_syntax

named_theorems wp
  \<open>weakest-precondition rules of the outcome monad\<close>

named_theorems apta_consts
  \<open>unfolding rules of the numeric constants of the public headers\<close>

section \<open>Machine integers\<close>

type_synonym u8 = "8 word"
type_synonym u16 = "16 word"
type_synonym u32 = "32 word"
type_synonym u64 = "64 word"
type_synonym usize = "64 word"
type_synonym bytes = "u8 list"

definition UINT32_MAX :: u32 where [apta_consts]: "UINT32_MAX = 0xFFFFFFFF"
definition UINT64_MAX :: u64 where [apta_consts]: "UINT64_MAX = 0xFFFFFFFFFFFFFFFF"
definition SIZE_MAX :: usize where [apta_consts]: "SIZE_MAX = 0xFFFFFFFFFFFFFFFF"

lemma unat_UINT32_MAX [simp]: "unat UINT32_MAX = 4294967295"
  by (simp add: UINT32_MAX_def)

lemma unat_UINT64_MAX [simp]: "unat UINT64_MAX = 18446744073709551615"
  by (simp add: UINT64_MAX_def)

lemma unat_SIZE_MAX [simp]: "unat SIZE_MAX = 18446744073709551615"
  by (simp add: SIZE_MAX_def)

lemma unat_u16_bound: "unat (x :: u16) < 65536"
  by (rule order_less_le_trans [OF unsigned_less]) simp

lemma unat_u32_bound: "unat (x :: u32) < 4294967296"
  by (rule order_less_le_trans [OF unsigned_less]) simp

lemma unat_u64_bound: "unat (x :: u64) < 18446744073709551616"
  by (rule order_less_le_trans [OF unsigned_less]) simp

lemma unat_u8_bound: "unat (x :: u8) < 256"
  by (rule order_less_le_trans [OF unsigned_less]) simp

lemma le_UINT64_MAX [simp]: "x \<le> UINT64_MAX"
  using unat_u64_bound [of x] by (simp add: word_le_nat_alt)

lemma le_SIZE_MAX [simp]: "x \<le> SIZE_MAX"
  using unat_u64_bound [of x] by (simp add: word_le_nat_alt)

lemma unat_ucast_u32_u64 [simp]: "unat (ucast (x :: u32) :: u64) = unat x"
  using unat_u32_bound [of x] by (simp add: unsigned_ucast_eq take_bit_nat_eq_self)

lemma unat_ucast_u16_u64 [simp]: "unat (ucast (x :: u16) :: u64) = unat x"
  using unat_u16_bound [of x] by (simp add: unsigned_ucast_eq take_bit_nat_eq_self)

lemma unat_ucast_u16_u32 [simp]: "unat (ucast (x :: u16) :: u32) = unat x"
  using unat_u16_bound [of x] by (simp add: unsigned_ucast_eq take_bit_nat_eq_self)

lemma unat_plus_u64:
  "unat (a :: u64) + unat b < 18446744073709551616 \<Longrightarrow> unat (a + b) = unat a + unat b"
  by (simp add: unat_word_ariths)

lemma unat_times_u64:
  "unat (a :: u64) * unat b < 18446744073709551616 \<Longrightarrow> unat (a * b) = unat a * unat b"
  by (simp add: unat_word_ariths)

lemma unat_plus_u32:
  "unat (a :: u32) + unat b < 4294967296 \<Longrightarrow> unat (a + b) = unat a + unat b"
  by (simp add: unat_word_ariths)

text \<open>The overflow guard the sources use before an addition: \<open>b \<le> MAX - a\<close>.\<close>

lemma u64_add_guard:
  "a \<le> UINT64_MAX - b \<longleftrightarrow> unat a + unat b < 18446744073709551616"
proof -
  have "unat (UINT64_MAX - b) = unat UINT64_MAX - unat b"
    by (rule unat_sub) simp
  then show ?thesis using unat_u64_bound [of b]
    by (simp add: word_le_nat_alt) arith
qed

lemma size_add_guard:
  "a \<le> SIZE_MAX - b \<longleftrightarrow> unat a + unat b < 18446744073709551616"
  using u64_add_guard [of a b] by (simp add: SIZE_MAX_def UINT64_MAX_def)

lemma u32_times_u32_fits:
  "unat (a :: u32) * unat (b :: u32) < 18446744073709551616"
proof -
  have "unat a * unat b \<le> 4294967295 * 4294967295"
    using unat_u32_bound [of a] unat_u32_bound [of b] by (intro mult_le_mono) auto
  then show ?thesis by simp
qed

lemma unat_ucast_times [simp]:
  "unat (ucast (a :: u32) * ucast (b :: u32) :: u64) = unat a * unat b"
  using u32_times_u32_fits [of a b] by (simp add: unat_times_u64)

section \<open>Status codes\<close>

datatype apta_status =
    STATUS_OK | STATUS_MORE_WORK | STATUS_WOULD_BLOCK | STATUS_END_OF_INPUT
  | STATUS_NOT_AVAILABLE
  | ERROR_INVALID_ARGUMENT | ERROR_OUT_OF_MEMORY | ERROR_UNSUPPORTED
  | ERROR_INCOMPATIBLE_VERSION | ERROR_SOURCE | ERROR_CORRUPT_DATA | ERROR_CANCELLED
  | ERROR_INTERNAL | ERROR_BUSY | ERROR_CONFLICT | ERROR_LIMIT_EXCEEDED
  | ERROR_INVALID_STATE | ERROR_BUFFER_TOO_SMALL | ERROR_RESULT_SLOTS_EXHAUSTED

fun status_code :: "apta_status \<Rightarrow> int" where
  "status_code STATUS_OK = 0"
| "status_code STATUS_MORE_WORK = 1"
| "status_code STATUS_WOULD_BLOCK = 2"
| "status_code STATUS_END_OF_INPUT = 3"
| "status_code STATUS_NOT_AVAILABLE = 4"
| "status_code ERROR_INVALID_ARGUMENT = -1"
| "status_code ERROR_OUT_OF_MEMORY = -2"
| "status_code ERROR_UNSUPPORTED = -3"
| "status_code ERROR_INCOMPATIBLE_VERSION = -4"
| "status_code ERROR_SOURCE = -5"
| "status_code ERROR_CORRUPT_DATA = -6"
| "status_code ERROR_CANCELLED = -7"
| "status_code ERROR_INTERNAL = -8"
| "status_code ERROR_BUSY = -9"
| "status_code ERROR_CONFLICT = -10"
| "status_code ERROR_LIMIT_EXCEEDED = -11"
| "status_code ERROR_INVALID_STATE = -12"
| "status_code ERROR_BUFFER_TOO_SMALL = -13"
| "status_code ERROR_RESULT_SLOTS_EXHAUSTED = -14"

definition failed :: "apta_status \<Rightarrow> bool" where
  "failed s \<longleftrightarrow> status_code s < 0"

lemma failed_simps [simp]:
  "\<not> failed STATUS_OK" "\<not> failed STATUS_MORE_WORK" "\<not> failed STATUS_WOULD_BLOCK"
  "\<not> failed STATUS_END_OF_INPUT" "\<not> failed STATUS_NOT_AVAILABLE"
  "failed ERROR_INVALID_ARGUMENT" "failed ERROR_OUT_OF_MEMORY" "failed ERROR_UNSUPPORTED"
  "failed ERROR_INCOMPATIBLE_VERSION" "failed ERROR_SOURCE" "failed ERROR_CORRUPT_DATA"
  "failed ERROR_CANCELLED" "failed ERROR_INTERNAL" "failed ERROR_BUSY"
  "failed ERROR_CONFLICT" "failed ERROR_LIMIT_EXCEEDED" "failed ERROR_INVALID_STATE"
  "failed ERROR_BUFFER_TOO_SMALL" "failed ERROR_RESULT_SLOTS_EXHAUSTED"
  by (simp_all add: failed_def)

lemma status_code_inj: "inj status_code"
proof (rule injI)
  fix s t assume "status_code s = status_code t"
  then show "s = t" by (cases s; cases t) simp_all
qed

section \<open>Outcomes\<close>

datatype 'a outcome = Ret 'a | Fail apta_status | Fault

fun obind :: "'a outcome \<Rightarrow> ('a \<Rightarrow> 'b outcome) \<Rightarrow> 'b outcome" where
  "obind (Ret a) f = f a"
| "obind (Fail s) f = Fail s"
| "obind Fault f = Fault"

lemma obind_assoc [simp]: "obind (obind m f) g = obind m (\<lambda>x. obind (f x) g)"
  by (cases m) simp_all

lemma obind_eq_Ret: "obind m f = Ret b \<longleftrightarrow> (\<exists>a. m = Ret a \<and> f a = Ret b)"
  by (cases m) simp_all

text \<open>A guard of the source: \<open>if (c) return e;\<close>.\<close>

definition check :: "bool \<Rightarrow> apta_status \<Rightarrow> unit outcome" where
  "check c e = (if c then Fail e else Ret ())"

lemma check_simps [simp]: "check True e = Fail e" "check False e = Ret ()"
  by (simp_all add: check_def)

lemma check_eq_Ret [simp]: "check c e = Ret u \<longleftrightarrow> \<not> c"
  by (simp add: check_def)

text \<open>A \<open>for\<close> loop whose body may leave the function early: the body is run on each index in
  turn with the loop's variables as its state.\<close>

fun ofor :: "'i list \<Rightarrow> ('i \<Rightarrow> 's \<Rightarrow> 's outcome) \<Rightarrow> 's \<Rightarrow> 's outcome" where
  "ofor [] body s = Ret s"
| "ofor (i # is) body s = obind (body i s) (ofor is body)"

lemma ofor_append: "ofor (xs @ ys) body s = obind (ofor xs body s) (ofor ys body)"
proof (induction xs arbitrary: s)
  case (Cons x xs)
  then have "ofor (xs @ ys) body = (\<lambda>t. obind (ofor xs body t) (ofor ys body))"
    by (simp add: fun_eq_iff)
  then show ?case by simp
qed simp

lemma ofor_cong_Ret:
  assumes "\<And>k. k \<le> length xs \<Longrightarrow> k < length xs \<Longrightarrow> body (xs ! k) (st k) = Ret (st (Suc k))"
  shows "ofor xs body (st 0) = Ret (st (length xs))"
  using assms
proof (induction xs arbitrary: st)
  case (Cons x xs)
  have "body x (st 0) = Ret (st (Suc 0))" using Cons.prems [of 0] by simp
  moreover have "ofor xs body (st (Suc 0)) = Ret (st (Suc (length xs)))"
    using Cons.IH [of "\<lambda>k. st (Suc k)"] Cons.prems [of "Suc _"] by simp
  ultimately show ?case by simp
qed simp

lemma ofor_unit_Ret: "(\<And>x. x \<in> set xs \<Longrightarrow> body x () = Ret ()) \<Longrightarrow> ofor xs body () = Ret ()"
  by (induction xs) simp_all

section \<open>Weakest preconditions\<close>

text \<open>\<open>owp m Q\<close>: running \<open>m\<close> accesses no memory out of bounds, and if it returns normally its
  result satisfies \<open>Q\<close>.\<close>

fun owp :: "'a outcome \<Rightarrow> ('a \<Rightarrow> bool) \<Rightarrow> bool" where
  "owp (Ret a) Q = Q a"
| "owp (Fail s) Q = True"
| "owp Fault Q = False"

lemma owp_obind [wp, simp]: "owp (obind m f) Q = owp m (\<lambda>a. owp (f a) Q)"
  by (cases m) simp_all

lemma owp_check [wp, simp]: "owp (check c e) Q = (\<not> c \<longrightarrow> Q ())"
  by (simp add: check_def)

lemma owp_if [wp]: "owp (if b then m else m') Q = ((b \<longrightarrow> owp m Q) \<and> (\<not> b \<longrightarrow> owp m' Q))"
  by simp

lemma owp_mono: "owp m Q \<Longrightarrow> (\<And>a. Q a \<Longrightarrow> R a) \<Longrightarrow> owp m R"
  by (cases m) simp_all

lemma owp_conj: "owp m Q \<Longrightarrow> owp m R \<Longrightarrow> owp m (\<lambda>a. Q a \<and> R a)"
  by (cases m) simp_all

lemma owp_not_Fault: "owp m Q \<Longrightarrow> m \<noteq> Fault"
  by (cases m) simp_all

lemma owp_Ret: "owp m Q \<Longrightarrow> m = Ret a \<Longrightarrow> Q a"
  by simp

lemma owp_trivial_iff: "owp m (\<lambda>_. True) \<longleftrightarrow> m \<noteq> Fault"
  by (cases m) simp_all

lemma owpI: "m \<noteq> Fault \<Longrightarrow> (\<And>a. m = Ret a \<Longrightarrow> Q a) \<Longrightarrow> owp m Q"
  by (cases m) simp_all

text \<open>A loop that fills an array: the elements computed for each index, in order.\<close>

fun omap :: "('i \<Rightarrow> 'a outcome) \<Rightarrow> 'i list \<Rightarrow> 'a list outcome" where
  "omap f [] = Ret []"
| "omap f (i # is) = obind (f i) (\<lambda>a. obind (omap f is) (\<lambda>as. Ret (a # as)))"

lemma omap_eq_Ret: "omap f is = Ret as \<longleftrightarrow> map f is = map Ret as"
  by (induction "is" arbitrary: as) (auto simp: obind_eq_Ret Cons_eq_map_conv)

lemma omap_not_Fault: "(\<And>i. i \<in> set is \<Longrightarrow> f i \<noteq> Fault) \<Longrightarrow> omap f is \<noteq> Fault"
proof (induction "is")
  case (Cons i "is")
  then have "f i \<noteq> Fault" "omap f is \<noteq> Fault" by simp_all
  then show ?case by (cases "f i"; cases "omap f is") simp_all
qed simp

lemma omap_owp:
  assumes "\<And>i. i \<in> set is \<Longrightarrow> owp (f i) (P i)"
  shows "owp (omap f is) (list_all2 P is)"
  using assms
proof (induction "is")
  case (Cons i "is")
  then have "owp (f i) (P i)" "owp (omap f is) (list_all2 P is)" by simp_all
  then show ?case by (auto elim!: owp_mono)
qed simp

lemma ofor_owp:
  assumes init: "I 0 s"
    and step: "\<And>k s. k < length xs \<Longrightarrow> I k s \<Longrightarrow> owp (body (xs ! k) s) (I (Suc k))"
  shows "owp (ofor xs body s) (I (length xs))"
  using assms
proof (induction xs arbitrary: s I)
  case (Cons x xs)
  have "owp (body x s) (I (Suc 0))" using Cons.prems(2) [of 0 s] Cons.prems(1) by simp
  moreover have "owp (ofor xs body t) (I (Suc (length xs)))" if "I (Suc 0) t" for t
    using Cons.IH [of "\<lambda>k. I (Suc k)" t] Cons.prems(2) [of "Suc _"] that by simp
  ultimately show ?case by (auto elim: owp_mono)
qed simp

lemma ofor_upt_owp:
  assumes "I 0 s"
    and "\<And>i s. i < n \<Longrightarrow> I i s \<Longrightarrow> owp (body i s) (I (Suc i))"
  shows "owp (ofor [0..<n] body s) (I n)"
  using ofor_owp [of I s "[0..<n]" body] assms by simp

end
