(* ===== verification/Apta_Bytes.thy ===== *)
theory Apta_Bytes
  imports Apta_Prelude
begin

text \<open>
  Byte buffers and the little-endian codecs of \<^verbatim>\<open>src/serialization\<close>: the \<open>apta_get_u16/u32/u64\<close>
  readers and the \<open>apta_put_u16/u32/u64\<close> writers that every container section is read and
  written with, the range arithmetic of the parser, and block writes into a buffer.  Every
  read and write is bounds-checked by the model: an access outside the buffer is \<open>Fault\<close>.
  The locale \<open>le_codec\<close> states what the sections rely on; it is interpreted for the three
  widths.
\<close>

section \<open>Reads\<close>

definition get_u8 :: "bytes \<Rightarrow> nat \<Rightarrow> u8 outcome" where
  "get_u8 bs off = (if off < length bs then Ret (bs ! off) else Fault)"

definition apta_get_u16 :: "bytes \<Rightarrow> nat \<Rightarrow> u16 outcome" where
  "apta_get_u16 bs off =
     obind (get_u8 bs off) (\<lambda>b0.
     obind (get_u8 bs (off + 1)) (\<lambda>b1.
     Ret (ucast b0 OR push_bit 8 (ucast b1))))"

definition apta_get_u32 :: "bytes \<Rightarrow> nat \<Rightarrow> u32 outcome" where
  "apta_get_u32 bs off =
     obind (get_u8 bs off) (\<lambda>b0.
     obind (get_u8 bs (off + 1)) (\<lambda>b1.
     obind (get_u8 bs (off + 2)) (\<lambda>b2.
     obind (get_u8 bs (off + 3)) (\<lambda>b3.
     Ret (ucast b0 OR push_bit 8 (ucast b1) OR push_bit 16 (ucast b2) OR
          push_bit 24 (ucast b3))))))"

definition apta_get_u64 :: "bytes \<Rightarrow> nat \<Rightarrow> u64 outcome" where
  "apta_get_u64 bs off =
     obind (apta_get_u32 bs off) (\<lambda>lo.
     obind (apta_get_u32 bs (off + 4)) (\<lambda>hi.
     Ret (ucast lo OR push_bit 32 (ucast hi))))"

text \<open>\<open>apta_get_i16\<close> is the same two bytes converted to \<open>int16_t\<close>; the model keeps the 16-bit
  pattern and reads its sign with \<open>sint\<close>.\<close>

definition apta_get_i16 :: "bytes \<Rightarrow> nat \<Rightarrow> u16 outcome" where
  "apta_get_i16 bs off = apta_get_u16 bs off"

section \<open>Writes\<close>

definition apta_put_u16 :: "u16 \<Rightarrow> bytes" where
  "apta_put_u16 v = [ucast (v AND 0xFF), ucast (drop_bit 8 v AND 0xFF)]"

definition apta_put_u32 :: "u32 \<Rightarrow> bytes" where
  "apta_put_u32 v =
     [ucast (v AND 0xFF), ucast (drop_bit 8 v AND 0xFF),
      ucast (drop_bit 16 v AND 0xFF), ucast (drop_bit 24 v AND 0xFF)]"

definition apta_put_u64 :: "u64 \<Rightarrow> bytes" where
  "apta_put_u64 v =
     apta_put_u32 (ucast (v AND ucast UINT32_MAX)) @ apta_put_u32 (ucast (drop_bit 32 v))"

lemma length_put [simp]:
  "length (apta_put_u16 a) = 2" "length (apta_put_u32 b) = 4" "length (apta_put_u64 c) = 8"
  by (simp_all add: apta_put_u16_def apta_put_u32_def apta_put_u64_def)

text \<open>One store of a run of bytes at an offset of a buffer, and a sequence of such stores.\<close>

definition put_bytes :: "bytes \<Rightarrow> nat \<Rightarrow> bytes \<Rightarrow> bytes outcome" where
  "put_bytes buf off d =
     (if off + length d \<le> length buf
      then Ret (take off buf @ d @ drop (off + length d) buf) else Fault)"

fun exec_writes :: "(nat \<times> bytes) list \<Rightarrow> bytes \<Rightarrow> bytes outcome" where
  "exec_writes [] buf = Ret buf"
| "exec_writes ((off, d) # ws) buf = obind (put_bytes buf off d) (exec_writes ws)"

section \<open>The codec contract\<close>

locale le_codec =
  fixes enc :: "'a \<Rightarrow> bytes"
    and dec :: "bytes \<Rightarrow> nat \<Rightarrow> 'a outcome"
    and width :: nat
  assumes enc_length: "length (enc v) = width"
    and dec_slice: "off + width \<le> length bs \<Longrightarrow> dec bs off = dec (take width (drop off bs)) 0"
    and dec_enc: "dec (enc v) 0 = Ret v"
    and dec_total: "length bs = width \<Longrightarrow> \<exists>v. dec bs 0 = Ret v \<and> enc v = bs"
    and dec_oob: "length bs < off + width \<Longrightarrow> dec bs off = Fault"
begin

lemma dec_at: "dec (pre @ enc v @ post) (length pre) = Ret v"
  using dec_slice [of "length pre" "pre @ enc v @ post"] by (simp add: enc_length dec_enc)

lemma dec_at_off: "length pre = off \<Longrightarrow> dec (pre @ enc v @ post) off = Ret v"
  using dec_at by blast

lemma dec_in_bounds:
  assumes "off + width \<le> length bs"
  shows "\<exists>v. dec bs off = Ret v \<and> take width (drop off bs) = enc v"
  using dec_total [of "take width (drop off bs)"] dec_slice [OF assms] assms by auto

lemma dec_cases:
  "(\<exists>v. dec bs off = Ret v \<and> off + width \<le> length bs) \<or>
   (dec bs off = Fault \<and> length bs < off + width)"
  using dec_in_bounds [of off bs] dec_oob [of bs off] by fastforce

lemma dec_owp: "off + width \<le> length bs \<Longrightarrow> (\<And>v. dec bs off = Ret v \<Longrightarrow> Q v) \<Longrightarrow> owp (dec bs off) Q"
  using dec_in_bounds [of off bs] by auto

lemma dec_Ret_bound: "dec bs off = Ret v \<Longrightarrow> off + width \<le> length bs"
  using dec_cases [of bs off] by auto

lemma dec_inject:
  assumes "off + width \<le> length bs" and "off' + width \<le> length bs'"
    and "dec bs off = dec bs' off'"
  shows "take width (drop off bs) = take width (drop off' bs')"
  using dec_in_bounds [OF assms(1)] dec_in_bounds [OF assms(2)] assms(3) by auto

lemma dec_agree:
  assumes "take width (drop off bs) = take width (drop off' bs')"
    and "off + width \<le> length bs" and "off' + width \<le> length bs'"
  shows "dec bs off = dec bs' off'"
  using dec_slice [OF assms(2)] dec_slice [OF assms(3)] assms(1) by simp

lemma dec_sub:
  "k + width \<le> n \<Longrightarrow> off + n \<le> length bs \<Longrightarrow> dec (take n (drop off bs)) k = dec bs (off + k)"
  by (rule dec_agree) (auto simp: drop_take min_def add.commute)

lemma dec_skip: "length pre \<le> off \<Longrightarrow> dec (pre @ rest) off = dec rest (off - length pre)"
proof (cases "off + width \<le> length (pre @ rest)")
  case True
  assume "length pre \<le> off"
  then show ?thesis using True by (intro dec_agree) simp_all
next
  case False
  assume "length pre \<le> off"
  then show ?thesis using False by (simp add: dec_oob)
qed

lemma dec_enc_append: "dec (enc v @ rest) 0 = Ret v"
  using dec_at [of "[]" v rest] by simp

lemma dec_cong:
  assumes "length bs = length bs'"
    and "\<And>i. off \<le> i \<Longrightarrow> i < off + width \<Longrightarrow> i < length bs \<Longrightarrow> bs ! i = bs' ! i"
  shows "dec bs off = dec bs' off"
proof (cases "off + width \<le> length bs")
  case True
  moreover from this have "take width (drop off bs) = take width (drop off bs')"
    using assms by (intro nth_equalityI) auto
  ultimately show ?thesis using assms(1) by (intro dec_agree) simp_all
qed (use assms(1) dec_oob in auto)

end

subsection \<open>The three widths\<close>

lemma get_u8_slice:
  "i < n \<Longrightarrow> off + n \<le> length bs \<Longrightarrow> get_u8 bs (off + i) = get_u8 (take n (drop off bs)) i"
  by (simp add: get_u8_def)

lemma get_u8_owp: "off < length bs \<Longrightarrow> (\<And>v. get_u8 bs off = Ret v \<Longrightarrow> Q v) \<Longrightarrow> owp (get_u8 bs off) Q"
  by (simp add: get_u8_def)

lemma mask8_u16: "(0xFF :: u16) = mask 8"
  by (simp add: mask_eq_exp_minus_1)

lemma mask8_u32: "(0xFF :: u32) = mask 8"
  by (simp add: mask_eq_exp_minus_1)

lemma mask32_u64: "(ucast UINT32_MAX :: u64) = mask 32"
  by (simp add: mask_eq_exp_minus_1 UINT32_MAX_def)

lemma ucast_low8_u16: "ucast (v AND 0xFF :: u16) = (ucast v :: u8)"
  by (rule bit_word_eqI) (auto simp: mask8_u16 bit_simps)

lemma ucast_low8_u32: "ucast (v AND 0xFF :: u32) = (ucast v :: u8)"
  by (rule bit_word_eqI) (auto simp: mask8_u32 bit_simps)

lemma ucast_low32_u64: "ucast (v AND ucast UINT32_MAX :: u64) = (ucast v :: u32)"
  by (rule bit_word_eqI) (auto simp: mask32_u64 bit_simps)

lemmas put_defs = apta_put_u16_def apta_put_u32_def apta_put_u64_def
  ucast_low8_u16 ucast_low8_u32 ucast_low32_u64

lemma join_u16: "ucast (ucast (v :: u16) :: u8) OR push_bit 8 (ucast (ucast (drop_bit 8 v) :: u8)) = (v :: u16)"
  by (rule bit_word_eqI) (auto simp: bit_simps)

lemma join_u32:
  "ucast (ucast (v :: u32) :: u8) OR push_bit 8 (ucast (ucast (drop_bit 8 v) :: u8)) OR
   push_bit 16 (ucast (ucast (drop_bit 16 v) :: u8)) OR
   push_bit 24 (ucast (ucast (drop_bit 24 v) :: u8)) = (v :: u32)" (is "?l = v")
proof (rule bit_word_eqI)
  fix n assume "n < LENGTH(32)"
  then consider "n < 8" | "8 \<le> n" "n < 16" | "16 \<le> n" "n < 24" | "24 \<le> n" "n < 32"
    by fastforce
  then show "bit ?l n = bit v n"
    by cases (auto simp: bit_simps)
qed

lemma join_u64:
  "ucast (ucast (v :: u64) :: u32) OR push_bit 32 (ucast (ucast (drop_bit 32 v) :: u32)) = (v :: u64)"
  by (rule bit_word_eqI) (auto simp: bit_simps)

lemma split_u16:
  fixes a b :: u8
  defines "v \<equiv> ucast a OR push_bit 8 (ucast b) :: u16"
  shows "ucast v = a" and "ucast (drop_bit 8 v) = b"
  unfolding v_def by (rule bit_word_eqI; auto simp: bit_simps dest: bit_imp_le_length)+

lemma split_u32:
  fixes a b c d :: u8
  defines "v \<equiv> ucast a OR push_bit 8 (ucast b) OR push_bit 16 (ucast c) OR push_bit 24 (ucast d) :: u32"
  shows "ucast v = a" and "ucast (drop_bit 8 v) = b"
    and "ucast (drop_bit 16 v) = c" and "ucast (drop_bit 24 v) = d"
  unfolding v_def by (rule bit_word_eqI; auto simp: bit_simps dest: bit_imp_le_length)+

lemma split_u64:
  fixes a b :: u32
  defines "v \<equiv> ucast a OR push_bit 32 (ucast b) :: u64"
  shows "ucast v = a" and "ucast (drop_bit 32 v) = b"
  unfolding v_def by (rule bit_word_eqI; auto simp: bit_simps dest: bit_imp_le_length)+

lemma list_length_2: "length xs = 2 \<longleftrightarrow> (\<exists>a b. xs = [a, b])"
  by (auto simp: numeral_eq_Suc length_Suc_conv)

lemma list_length_4: "length xs = 4 \<longleftrightarrow> (\<exists>a b c d. xs = [a, b, c, d])"
  by (auto simp: numeral_eq_Suc length_Suc_conv)

lemma get_u16_slice:
  "off + 2 \<le> length bs \<Longrightarrow> apta_get_u16 bs off = apta_get_u16 (take 2 (drop off bs)) 0"
  by (simp add: apta_get_u16_def get_u8_def)

lemma get_u32_slice:
  "off + 4 \<le> length bs \<Longrightarrow> apta_get_u32 bs off = apta_get_u32 (take 4 (drop off bs)) 0"
  by (simp add: apta_get_u32_def get_u8_def)

interpretation u16c: le_codec apta_put_u16 apta_get_u16 2
proof
  show "length (apta_put_u16 v) = 2" for v by simp
  show "apta_get_u16 bs off = apta_get_u16 (take 2 (drop off bs)) 0"
    if "off + 2 \<le> length bs" for bs off using that by (rule get_u16_slice)
  show "apta_get_u16 (apta_put_u16 v) 0 = Ret v" for v
    by (simp add: apta_get_u16_def put_defs get_u8_def join_u16)
  show "\<exists>v. apta_get_u16 bs 0 = Ret v \<and> apta_put_u16 v = bs" if "length bs = 2" for bs
    using that by (auto simp: list_length_2 apta_get_u16_def get_u8_def put_defs split_u16 simp del: drop_bit_or)
  show "apta_get_u16 bs off = Fault" if "length bs < off + 2" for bs off
    using that by (auto simp: apta_get_u16_def get_u8_def)
qed

interpretation u32c: le_codec apta_put_u32 apta_get_u32 4
proof
  show "length (apta_put_u32 v) = 4" for v by simp
  show "apta_get_u32 bs off = apta_get_u32 (take 4 (drop off bs)) 0"
    if "off + 4 \<le> length bs" for bs off using that by (rule get_u32_slice)
  show "apta_get_u32 (apta_put_u32 v) 0 = Ret v" for v
    by (simp add: apta_get_u32_def put_defs get_u8_def join_u32)
  show "\<exists>v. apta_get_u32 bs 0 = Ret v \<and> apta_put_u32 v = bs" if "length bs = 4" for bs
    using that by (auto simp: list_length_4 apta_get_u32_def get_u8_def put_defs split_u32 simp del: drop_bit_or)
  show "apta_get_u32 bs off = Fault" if "length bs < off + 4" for bs off
    using that by (auto simp: apta_get_u32_def get_u8_def)
qed

interpretation u64c: le_codec apta_put_u64 apta_get_u64 8
proof
  show "length (apta_put_u64 v) = 8" for v by simp
  show "apta_get_u64 bs off = apta_get_u64 (take 8 (drop off bs)) 0"
    if "off + 8 \<le> length bs" for bs off
    using that by (simp add: apta_get_u64_def apta_get_u32_def get_u8_def ac_simps)
  show "apta_get_u64 (apta_put_u64 v) 0 = Ret v" for v
    using u32c.dec_at [of "[]" "ucast v :: u32" "apta_put_u32 (ucast (drop_bit 32 v))"]
      u32c.dec_at [of "apta_put_u32 (ucast v)" "ucast (drop_bit 32 v) :: u32" "[]"]
    by (simp add: apta_get_u64_def apta_put_u64_def ucast_low32_u64 join_u64)
  show "\<exists>v. apta_get_u64 bs 0 = Ret v \<and> apta_put_u64 v = bs" if "length bs = 8" for bs
  proof -
    obtain a where a: "apta_get_u32 bs 0 = Ret a" "take 4 bs = apta_put_u32 a"
      using u32c.dec_in_bounds [of 0 bs] \<open>length bs = 8\<close> by auto
    obtain b where b: "apta_get_u32 bs 4 = Ret b" "take 4 (drop 4 bs) = apta_put_u32 b"
      using u32c.dec_in_bounds [of 4 bs] \<open>length bs = 8\<close> by auto
    have "apta_put_u32 a @ apta_put_u32 b = bs"
      using a(2) b(2) \<open>length bs = 8\<close> append_take_drop_id [of 4 bs] by simp
    then show ?thesis
      by (simp add: apta_get_u64_def a b apta_put_u64_def ucast_low32_u64 split_u64 del: drop_bit_or)
  qed
  show "apta_get_u64 bs off = Fault" if "length bs < off + 8" for bs off
    using that u32c.dec_cases [of bs off] u32c.dec_oob [of bs "off + 4"]
    by (auto simp: apta_get_u64_def)
qed

text \<open>Reads in bounds, as weakest-precondition rules.\<close>

lemmas get_owp = u16c.dec_owp u32c.dec_owp u64c.dec_owp get_u8_owp

lemmas get_sub = u16c.dec_sub u32c.dec_sub u64c.dec_sub

lemma get_u8_skip: "length pre \<le> off \<Longrightarrow> get_u8 (pre @ rest) off = get_u8 rest (off - length pre)"
  by (auto simp: get_u8_def nth_append)

text \<open>Rules that evaluate reads from a concatenation of encoded fields.\<close>

lemmas get_concat = u16c.dec_skip u32c.dec_skip u64c.dec_skip get_u8_skip
  u16c.dec_enc_append u32c.dec_enc_append u64c.dec_enc_append u16c.dec_enc u32c.dec_enc u64c.dec_enc

lemmas get_cong = u16c.dec_cong u32c.dec_cong u64c.dec_cong

lemma get_i16_owp:
  "off + 2 \<le> length bs \<Longrightarrow> (\<And>v. apta_get_i16 bs off = Ret v \<Longrightarrow> Q v) \<Longrightarrow> owp (apta_get_i16 bs off) Q"
  unfolding apta_get_i16_def by (rule u16c.dec_owp)

section \<open>Range arithmetic\<close>

definition apta_range_fits :: "u64 \<Rightarrow> u64 \<Rightarrow> u64 \<Rightarrow> bool" where
  "apta_range_fits offset sz tot \<longleftrightarrow> offset \<le> tot \<and> sz \<le> tot - offset"

definition apta_ranges_overlap :: "u64 \<Rightarrow> u64 \<Rightarrow> u64 \<Rightarrow> u64 \<Rightarrow> bool" where
  "apta_ranges_overlap first_offset first_size second_offset second_size =
     (if first_size = 0 \<or> second_size = 0 then False
      else let first_end = first_offset + first_size;
               second_end = second_offset + second_size
           in first_offset < second_end \<and> second_offset < first_end)"

fun apta_bytes_are_zero :: "bytes \<Rightarrow> nat \<Rightarrow> nat \<Rightarrow> bool outcome" where
  "apta_bytes_are_zero bs off 0 = Ret True"
| "apta_bytes_are_zero bs off (Suc n) =
     obind (get_u8 bs off) (\<lambda>b.
       if b \<noteq> 0 then Ret False else apta_bytes_are_zero bs (off + 1) n)"

lemma apta_range_fits_iff:
  "apta_range_fits offset sz tot \<longleftrightarrow> unat offset + unat sz \<le> unat tot"
proof (cases "offset \<le> tot")
  case True
  then have "unat (tot - offset) = unat tot - unat offset" by (rule unat_sub)
  with True show ?thesis by (auto simp: apta_range_fits_def word_le_nat_alt)
next
  case False
  then show ?thesis by (auto simp: apta_range_fits_def word_le_nat_alt)
qed

text \<open>On ranges that do not wrap, the overlap test is exact: it decides whether the two byte
  intervals share an offset.\<close>

lemma apta_ranges_overlap_iff:
  assumes "unat o1 + unat s1 < 18446744073709551616" "unat o2 + unat s2 < 18446744073709551616"
  shows "apta_ranges_overlap o1 s1 o2 s2 \<longleftrightarrow>
    {unat o1..<unat o1 + unat s1} \<inter> {unat o2..<unat o2 + unat s2} \<noteq> {}"
proof -
  have z: "s1 \<noteq> 0 \<longleftrightarrow> 0 < unat s1" "s2 \<noteq> 0 \<longleftrightarrow> 0 < unat s2" by (auto simp: unat_gt_0)
  have e: "unat (o1 + s1) = unat o1 + unat s1" "unat (o2 + s2) = unat o2 + unat s2"
    using assms by (simp_all add: unat_plus_u64)
  have "apta_ranges_overlap o1 s1 o2 s2 \<longleftrightarrow> 0 < unat s1 \<and> 0 < unat s2 \<and>
      unat o1 < unat o2 + unat s2 \<and> unat o2 < unat o1 + unat s1"
    using z e by (auto simp: apta_ranges_overlap_def Let_def word_less_nat_alt)
  also have "\<dots> \<longleftrightarrow> max (unat o1) (unat o2) < min (unat o1 + unat s1) (unat o2 + unat s2)"
    by auto
  also have "\<dots> \<longleftrightarrow> {unat o1..<unat o1 + unat s1} \<inter> {unat o2..<unat o2 + unat s2} \<noteq> {}"
    by (auto simp: Int_atLeastLessThan not_le)
  finally show ?thesis .
qed

lemma apta_bytes_are_zero_eq:
  "off + n \<le> length bs \<Longrightarrow>
   apta_bytes_are_zero bs off n = Ret (take n (drop off bs) = replicate n 0)"
proof (induction n arbitrary: off)
  case (Suc n)
  then have "take (Suc n) (drop off bs) = bs ! off # take n (drop (Suc off) bs)"
    by (simp add: Cons_nth_drop_Suc [symmetric])
  with Suc show ?case by (simp add: get_u8_def)
qed simp

section \<open>Buffers as concatenations\<close>

lemma put_bytes_append:
  assumes "length pre = off" "length old = length d"
  shows "put_bytes (pre @ old @ post) off d = Ret (pre @ d @ post)"
  using assms by (simp add: put_bytes_def)

lemma put_bytes_shift:
  "put_bytes (pre @ buf) (length pre + k) d = obind (put_bytes buf k d) (\<lambda>b. Ret (pre @ b))"
  by (auto simp: put_bytes_def)

lemma put_bytes_left:
  "k + length d \<le> length buf \<Longrightarrow>
   put_bytes (buf @ post) k d = obind (put_bytes buf k d) (\<lambda>b. Ret (b @ post))"
  by (simp add: put_bytes_def)

lemma put_bytes_length: "put_bytes buf off d = Ret buf' \<Longrightarrow> length buf' = length buf"
  by (auto simp: put_bytes_def split: if_splits)

lemma exec_writes_append:
  "exec_writes (ws @ vs) buf = obind (exec_writes ws buf) (exec_writes vs)"
proof (induction ws arbitrary: buf)
  case (Cons w ws)
  obtain off d where "w = (off, d)" by fastforce
  moreover have "exec_writes (ws @ vs) = (\<lambda>b. obind (exec_writes ws b) (exec_writes vs))"
    using Cons.IH by (simp add: fun_eq_iff)
  ultimately show ?case by simp
qed simp

text \<open>Stores that follow one another without a gap: the buffer becomes the concatenation.\<close>

fun consecutive :: "nat \<Rightarrow> bytes list \<Rightarrow> (nat \<times> bytes) list" where
  "consecutive off [] = []"
| "consecutive off (d # ds) = (off, d) # consecutive (off + length d) ds"

lemma exec_consecutive:
  assumes "length pre = off" "length old = length (concat ds)"
  shows "exec_writes (consecutive off ds) (pre @ old @ post) = Ret (pre @ concat ds @ post)"
  using assms
proof (induction ds arbitrary: off pre old)
  case (Cons d ds)
  define o1 o2 where "o1 = take (length d) old" and "o2 = drop (length d) old"
  have old: "old = o1 @ o2" and l1: "length o1 = length d"
    and l2: "length o2 = length (concat ds)"
    using Cons.prems(2) by (simp_all add: o1_def o2_def)
  have "put_bytes (pre @ o1 @ (o2 @ post)) off d = Ret (pre @ d @ o2 @ post)"
    using Cons.prems(1) l1 by (rule put_bytes_append)
  moreover have "exec_writes (consecutive (off + length d) ds) ((pre @ d) @ o2 @ post) =
      Ret ((pre @ d) @ concat ds @ post)"
    using Cons.prems(1) l2 by (intro Cons.IH) simp_all
  ultimately show ?case by (simp add: old)
qed simp

text \<open>A bit of a word is a bit of one of its bytes.\<close>

lemma get_u32_bit:
  assumes "apta_get_u32 bs off = Ret v" "n < 32"
  shows "bit v n \<longleftrightarrow> bit (bs ! (off + n div 8)) (n mod 8)"
proof -
  have v: "v = ucast (bs ! off) OR push_bit 8 (ucast (bs ! (off + 1))) OR push_bit 16 (ucast (bs ! (off + 2))) OR
      push_bit 24 (ucast (bs ! (off + 3)))"
    using assms(1) by (auto simp: apta_get_u32_def get_u8_def obind_eq_Ret split: if_splits)
  have b: "\<not> bit (b :: u8) i" if "8 \<le> i" for b i using that bit_imp_le_length [of b i] by auto
  define q r where "q = n div 8" and "r = n mod 8"
  have n: "n = 8 * q + r" "r < 8" "q < 4" using assms(2) by (simp_all add: q_def r_def)
  have "q \<in> {0, 1, 2, 3}" using n(3) by auto
  then have "bit v n \<longleftrightarrow> bit (bs ! (off + q)) r"
    unfolding v n(1) using n(2) b by (auto simp: bit_simps)
  then show ?thesis by (simp add: q_def r_def)
qed

end
