(* ===== verification/Apta_Crc32c.thy ===== *)
theory Apta_Crc32c
  imports Apta_Bytes
begin

text \<open>
  The CRC-32C of \<^verbatim>\<open>src/serialization/apta_crc32c.c\<close>, bit by bit as the loop computes it, and
  what the container format relies on it for.  The register update is linear over exclusive
  or and injective, so that consecutive bytes fold into one 32-bit word; hence a change that is
  confined to four consecutive bytes of a message always changes its checksum.
\<close>

section \<open>The algorithm\<close>

text \<open>One round of the inner loop: the mask is all ones exactly when the low bit is set.\<close>

definition crc_bit :: "u32 \<Rightarrow> u32" where
  "crc_bit crc = (let m = - (crc AND 1) in drop_bit 1 crc XOR (0x82F63B78 AND m))"

definition crc_byte :: "u32 \<Rightarrow> u8 \<Rightarrow> u32" where
  "crc_byte crc b = (crc_bit ^^ 8) (crc XOR ucast b)"

text \<open>The data pointer is \<open>None\<close> for a null pointer; otherwise it holds at least \<open>n\<close> bytes.\<close>

definition apta_internal_crc32c :: "bytes option \<Rightarrow> nat \<Rightarrow> u32" where
  "apta_internal_crc32c data n =
     (if data = None \<and> n \<noteq> 0 then 0
      else foldl crc_byte 0xFFFFFFFF (case data of None \<Rightarrow> [] | Some bs \<Rightarrow> take n bs)
             XOR 0xFFFFFFFF)"

text \<open>The checksum of a whole byte string, as the serializers call it.\<close>

definition crc_of :: "bytes \<Rightarrow> u32" where
  "crc_of bs = apta_internal_crc32c (Some bs) (length bs)"

lemma crc_of_eq: "crc_of bs = foldl crc_byte 0xFFFFFFFF bs XOR 0xFFFFFFFF"
  by (simp add: crc_of_def apta_internal_crc32c_def)

lemma crc_byte_unfold:
  "crc_byte c b =
     crc_bit (crc_bit (crc_bit (crc_bit (crc_bit (crc_bit (crc_bit (crc_bit (c XOR ucast b))))))))"
  by (simp add: crc_byte_def numeral_eq_Suc)

section \<open>The register update\<close>

lemma xor_cancel_right: "a XOR c = b XOR c \<longleftrightarrow> a = (b :: 'a::len word)"
  by (auto simp: bit_eq_iff bit_xor_iff)

lemma xor_cancel_left: "c XOR a = c XOR b \<longleftrightarrow> a = (b :: 'a::len word)"
  by (auto simp: bit_eq_iff bit_xor_iff)

lemma crc_bit_alt: "crc_bit x = drop_bit 1 x XOR (if bit x 0 then 0x82F63B78 else 0)"
proof -
  have "x AND 1 = (if bit x 0 then 1 else 0)"
    by (simp add: and_one_eq bit_0 odd_iff_mod_2_eq_one [symmetric] mod2_eq_if)
  moreover have "(0x82F63B78 :: u32) AND - 1 = 0x82F63B78" by simp
  ultimately show ?thesis by (simp add: crc_bit_def Let_def)
qed

lemma crc_bit_linear: "crc_bit (x XOR y) = crc_bit x XOR crc_bit y"
  by (simp add: crc_bit_alt bit_xor_iff xor.assoc xor.left_commute drop_bit_xor)

lemma crc_bits_linear: "(crc_bit ^^ n) (x XOR y) = (crc_bit ^^ n) x XOR (crc_bit ^^ n) y"
  by (induction n) (simp_all add: crc_bit_linear)

lemma crc_bit_top: "bit (crc_bit x) 31 \<longleftrightarrow> bit x 0"
  using bit_imp_le_length [of x 32] by (auto simp: crc_bit_alt bit_simps)

lemma crc_bit_eq_0: "crc_bit x = 0 \<Longrightarrow> x = 0"
proof -
  assume z: "crc_bit x = 0"
  then have "\<not> bit x 0" using crc_bit_top [of x] by simp
  with z have d: "drop_bit 1 x = 0" by (simp add: crc_bit_alt)
  show "x = 0"
  proof (rule bit_word_eqI)
    fix n assume "n < LENGTH(32)"
    show "bit x n = bit 0 n"
    proof (cases n)
      case 0 with \<open>\<not> bit x 0\<close> show ?thesis by simp
    next
      case (Suc k)
      have "bit (drop_bit 1 x) k = bit x n" by (simp add: bit_drop_bit_eq Suc)
      with d show ?thesis by simp
    qed
  qed
qed

lemma crc_bits_eq_0: "(crc_bit ^^ n) x = 0 \<Longrightarrow> x = 0"
  by (induction n) (auto dest: crc_bit_eq_0)

lemma crc_bits_inj: "(crc_bit ^^ n) x = (crc_bit ^^ n) y \<longleftrightarrow> x = y"
proof
  assume "(crc_bit ^^ n) x = (crc_bit ^^ n) y"
  then have "(crc_bit ^^ n) (x XOR y) = 0" by (simp add: crc_bits_linear)
  then have "x XOR y = 0" by (rule crc_bits_eq_0)
  then show "x = y" using xor_cancel_right [of x y y] by simp
qed simp

lemma crc_bits_shift:
  "n \<le> k \<Longrightarrow> k \<le> 24 \<Longrightarrow> (crc_bit ^^ n) (push_bit k (ucast (b :: u8))) = push_bit (k - n) (ucast b)"
proof (induction n)
  case (Suc n)
  have "(crc_bit ^^ Suc n) (push_bit k (ucast b)) = crc_bit (push_bit (k - n) (ucast b))"
    using Suc by simp
  also have "\<dots> = drop_bit 1 (push_bit (k - n) (ucast b))"
    using Suc.prems by (simp add: crc_bit_alt bit_simps)
  also have "\<dots> = push_bit (k - Suc n) (ucast b)"
    using Suc.prems
    by (intro bit_word_eqI) (auto simp: bit_simps dest: bit_imp_le_length)
  finally show ?case .
qed simp

section \<open>Runs of up to four bytes\<close>

fun le_word :: "bytes \<Rightarrow> u32" where
  "le_word [] = 0"
| "le_word (b # bs) = ucast b XOR push_bit 8 (le_word bs)"

lemma le_word_snoc: "le_word (bs @ [b]) = le_word bs XOR push_bit (8 * length bs) (ucast b)"
  by (induction bs) (simp_all add: push_bit_xor push_bit_push_bit xor.assoc)

lemma crc_byte_shift:
  assumes "n \<le> 3"
  shows "(crc_bit ^^ (8 * n)) x XOR ucast (b :: u8) =
    (crc_bit ^^ (8 * n)) (x XOR push_bit (8 * n) (ucast b))"
  using crc_bits_shift [of "8 * n" "8 * n" b] assms by (simp add: crc_bits_linear)

lemma foldl_crc_run:
  "length bs \<le> 4 \<Longrightarrow> foldl crc_byte c bs = (crc_bit ^^ (8 * length bs)) (c XOR le_word bs)"
proof (induction bs rule: rev_induct)
  case (snoc b bs)
  have "foldl crc_byte c (bs @ [b]) = crc_byte ((crc_bit ^^ (8 * length bs)) (c XOR le_word bs)) b"
    using snoc by simp
  also have "\<dots> = (crc_bit ^^ 8) ((crc_bit ^^ (8 * length bs)) (c XOR le_word bs) XOR ucast b)"
    by (rule crc_byte_def)
  also have "\<dots> = (crc_bit ^^ 8) ((crc_bit ^^ (8 * length bs))
      (c XOR le_word bs XOR push_bit (8 * length bs) (ucast b)))"
    using snoc.prems by (simp add: crc_byte_shift xor.assoc)
  also have "\<dots> = (crc_bit ^^ (8 + 8 * length bs)) (c XOR le_word (bs @ [b]))"
    by (simp add: funpow_add le_word_snoc xor.assoc)
  finally show ?case by simp
qed simp

lemma le_word_bit_bound: "bit (le_word bs) n \<Longrightarrow> n < 8 * length bs"
proof (induction bs arbitrary: n)
  case (Cons b bs)
  show ?case
  proof (cases "bit (ucast b :: u32) n")
    case True
    then have "n < 8" using bit_imp_le_length [of b n] by (simp add: bit_simps)
    then show ?thesis by simp
  next
    case False
    with Cons.prems have "8 \<le> n" "bit (le_word bs) (n - 8)" by (auto simp: bit_simps)
    with Cons.IH [of "n - 8"] show ?thesis by simp
  qed
qed simp

lemma le_word_inj:
  assumes "length bs = length cs" "length bs \<le> 4" "le_word bs = le_word cs"
  shows "bs = cs"
  using assms
proof (induction bs cs rule: list_induct2)
  case (Cons b bs c cs)
  have eq: "bit (ucast b XOR push_bit 8 (le_word bs)) n = bit (ucast c XOR push_bit 8 (le_word cs)) n"
    for n using Cons.prems(2) by simp
  have "b = c"
  proof (rule bit_word_eqI)
    fix n assume "n < LENGTH(8)"
    then show "bit b n = bit c n" using eq [of n] by (simp add: bit_simps)
  qed
  moreover have "le_word bs = le_word cs"
  proof (rule bit_word_eqI)
    fix n assume "n < LENGTH(32)"
    show "bit (le_word bs) n = bit (le_word cs) n"
    proof (cases "n + 8 < 32")
      case True
      then show ?thesis using eq [of "n + 8"] \<open>b = c\<close> by (auto simp: bit_simps)
    next
      case False
      then show ?thesis
        using le_word_bit_bound [of bs n] le_word_bit_bound [of cs n] Cons.prems(1) Cons.hyps
        by auto
    qed
  qed
  ultimately show ?case using Cons by simp
qed simp

lemma crc_byte_inj_left: "crc_byte c b = crc_byte c' b \<longleftrightarrow> c = c'"
  by (simp add: crc_byte_def crc_bits_inj xor_cancel_right)

lemma foldl_crc_inj_left: "foldl crc_byte c bs = foldl crc_byte c' bs \<longleftrightarrow> c = c'"
  by (induction bs arbitrary: c c') (simp_all add: crc_byte_inj_left)

lemma foldl_crc_run_inj:
  assumes "length w = length w'" "length w \<le> 4"
  shows "foldl crc_byte c w = foldl crc_byte c w' \<longleftrightarrow> w = w'"
proof
  assume "foldl crc_byte c w = foldl crc_byte c w'"
  then have "c XOR le_word w = c XOR le_word w'"
    using assms by (simp add: foldl_crc_run crc_bits_inj)
  then have "le_word w = le_word w'" by (simp add: xor_cancel_left)
  with assms show "w = w'" by (intro le_word_inj)
qed simp

text \<open>Two messages that differ only in a run of at most four bytes have the same checksum only
  if they are equal.\<close>

lemma crc_bits_high:
  "n \<le> 32 \<Longrightarrow> (\<And>i. 32 - n \<le> i \<Longrightarrow> \<not> bit ((crc_bit ^^ n) x) i) \<Longrightarrow> x = push_bit n ((crc_bit ^^ n) x)"
proof (induction n)
  case (Suc n)
  let ?e = "(crc_bit ^^ n) x"
  have hi: "\<not> bit (crc_bit ?e) i" if "31 - n \<le> i" for i using Suc.prems(2) [of i] that by simp
  have "\<not> bit ?e 0" using hi [of 31] crc_bit_top [of ?e] Suc.prems(1) by simp
  then have d: "crc_bit ?e = drop_bit 1 ?e" by (simp add: crc_bit_alt)
  have p: "?e = push_bit 1 (crc_bit ?e)"
  proof (rule bit_word_eqI)
    fix i assume "i < LENGTH(32)"
    then show "bit ?e i = bit (push_bit 1 (crc_bit ?e)) i"
      unfolding d bit_push_bit_iff bit_drop_bit_eq using \<open>\<not> bit ?e 0\<close> by (cases i) simp_all
  qed
  have "\<not> bit ?e i" if "32 - n \<le> i" for i
  proof (cases i)
    case 0
    then show ?thesis using \<open>\<not> bit ?e 0\<close> by simp
  next
    case (Suc j)
    then have "\<not> bit (crc_bit ?e) j" using that by (intro hi) simp
    then show ?thesis using Suc by (simp add: d bit_simps)
  qed
  then have "x = push_bit n ?e" using Suc by simp
  also have "\<dots> = push_bit (Suc n) (crc_bit ?e)" by (subst p) (simp add: push_bit_push_bit)
  finally show ?case by simp
qed simp

text \<open>A change of the last bytes of a message always reaches the bytes of its checksum that lie more
  than four bytes behind the first changed one.\<close>

lemma crc_of_tail_inj:
  assumes len: "length w = length w'" "length w \<le> 4"
    and high: "\<And>i. 32 - 8 * length w \<le> i \<Longrightarrow> bit (crc_of (pre @ w)) i = bit (crc_of (pre @ w')) i"
  shows "w = w'"
proof -
  let ?c = "foldl crc_byte 0xFFFFFFFF pre" and ?n = "8 * length w"
  define x where "x = le_word w XOR le_word w'"
  have "crc_of (pre @ w) XOR crc_of (pre @ w') = foldl crc_byte ?c w XOR foldl crc_byte ?c w'"
    by (simp add: crc_of_eq xor.assoc xor.commute xor.left_commute)
  also have "\<dots> = (crc_bit ^^ ?n) (?c XOR le_word w) XOR (crc_bit ^^ ?n) (?c XOR le_word w')"
    using len by (simp add: foldl_crc_run)
  also have "\<dots> = (crc_bit ^^ ?n) x"
    unfolding crc_bits_linear [symmetric] x_def by (simp add: xor.assoc xor.left_commute)
  finally have d: "crc_of (pre @ w) XOR crc_of (pre @ w') = (crc_bit ^^ ?n) x" .
  have "\<not> bit ((crc_bit ^^ ?n) x) i" if "32 - ?n \<le> i" for i
    unfolding d [symmetric] using high [OF that] by (simp add: bit_simps)
  then have p: "x = push_bit ?n ((crc_bit ^^ ?n) x)" using len by (intro crc_bits_high) simp_all
  have "\<not> bit x i" for i
  proof (cases "i < ?n")
    case True
    then show ?thesis by (subst p) (simp add: bit_simps)
  next
    case False
    then show ?thesis using le_word_bit_bound [of w i] le_word_bit_bound [of w' i] len(1) by (auto simp: x_def bit_simps)
  qed
  then have "x = 0" by (intro bit_word_eqI) simp
  then have "le_word w = le_word w'" using xor_cancel_right [of "le_word w" "le_word w'" "le_word w'"] by (simp add: x_def)
  then show ?thesis by (rule le_word_inj [OF len])
qed

lemma crc_of_run_inj:
  assumes "length w = length w'" "length w \<le> 4"
  shows "crc_of (pre @ w @ post) = crc_of (pre @ w' @ post) \<longleftrightarrow> w = w'"
proof
  assume "crc_of (pre @ w @ post) = crc_of (pre @ w' @ post)"
  then have "foldl crc_byte 0xFFFFFFFF (pre @ w @ post) = foldl crc_byte 0xFFFFFFFF (pre @ w' @ post)"
    by (simp only: crc_of_eq xor_cancel_right)
  then show "w = w'" by (simp add: foldl_crc_inj_left foldl_crc_run_inj [OF assms])
qed simp

section \<open>Properties\<close>

text \<open>
  C25: a message in which at most four consecutive bytes were changed (a burst of up to 32 bits
  at byte positions) has the same CRC-32C as the original only if nothing was changed: every
  such corruption is detected by the checksum the loop computes.
\<close>
theorem crc32c_detects_burst:
  assumes "length w = length w'" "length w \<le> 4" "w \<noteq> w'"
  shows "apta_internal_crc32c (Some (pre @ w @ post)) (length (pre @ w @ post)) \<noteq>
         apta_internal_crc32c (Some (pre @ w' @ post)) (length (pre @ w' @ post))"
  using crc_of_run_inj [OF assms(1,2), of pre post] assms(3) by (simp add: crc_of_def)

theorem crc32c_detects_burst_witness:
  "apta_internal_crc32c (Some [1, 2, 3, 4, 5, 6]) 6 \<noteq> apta_internal_crc32c (Some [1, 9, 9, 9, 9, 6]) 6"
  using crc32c_detects_burst [of "[2, 3, 4, 5]" "[9, 9, 9, 9]" "[1]" "[6]"]
  by (simp flip: One_nat_def)

text \<open>
  The function is CRC-32C (Castagnoli): on the nine ASCII digits 1 to 9 it returns the
  published check value, and a null pointer with a non-zero size yields 0.
\<close>
theorem crc32c_check_value:
  "apta_internal_crc32c (Some [0x31, 0x32, 0x33, 0x34, 0x35, 0x36, 0x37, 0x38, 0x39]) 9 = 0xE3069283 \<and>
   apta_internal_crc32c (Some []) 0 = 0 \<and> apta_internal_crc32c None 7 = 0"
  by (simp add: apta_internal_crc32c_def crc_byte_unfold crc_bit_def)

end
