(* ===== verification/Apta_Memory.thy ===== *)
theory Apta_Memory
  imports Apta_Prelude
begin

text \<open>
  \<^verbatim>\<open>src/core/apta_memory.c\<close>: structure and version validation, the source-fingerprint rule, the
  power-of-two test, and the context allocator with its byte accounting.  The host's allocator
  (\<open>malloc\<close>, or the callback of \<open>apta_allocator_t\<close>) is a parameter: \<open>host n sz\<close> is its answer
  to the \<open>n\<close>-th request, for \<open>sz\<close> bytes.  What the code relies on from it is the predicate
  \<open>host_sound\<close>.
\<close>

section \<open>Versions, structures and fingerprints\<close>

definition APTA_API_VERSION :: u32 where [apta_consts]: "APTA_API_VERSION = 0x00400000"

definition api_version_get_major :: "u32 \<Rightarrow> u32" where
  "api_version_get_major version = drop_bit 22 version AND 0x3ff"

definition api_version_get_minor :: "u32 \<Rightarrow> u32" where
  "api_version_get_minor version = drop_bit 12 version AND 0x3ff"

definition apta_internal_api_version_is_compatible :: "u32 \<Rightarrow> bool" where
  "apta_internal_api_version_is_compatible api_version \<longleftrightarrow>
     api_version_get_major api_version = 1 \<and> api_version_get_minor api_version \<le> 0"

text \<open>The structure pointer is a flag that says whether it is non-null.\<close>

definition apta_internal_validate_struct :: "bool \<Rightarrow> u64 \<Rightarrow> u32 \<Rightarrow> u32 \<Rightarrow> bool" where
  "apta_internal_validate_struct present minimum_size structure_size api_version \<longleftrightarrow>
     present \<and> minimum_size \<le> ucast structure_size \<and>
     apta_internal_api_version_is_compatible api_version"

definition FINGERPRINT_NONE :: u32 where [apta_consts]: "FINGERPRINT_NONE = 0"
definition FINGERPRINT_APPLICATION_OPAQUE_256 :: u32 where
  [apta_consts]: "FINGERPRINT_APPLICATION_OPAQUE_256 = 1"
definition FINGERPRINT_SHA256_SOURCE_OBJECT_BYTES :: u32 where
  [apta_consts]: "FINGERPRINT_SHA256_SOURCE_OBJECT_BYTES = 2"

definition apta_internal_source_fingerprint_is_valid :: "u32 \<Rightarrow> bytes option \<Rightarrow> bool" where
  "apta_internal_source_fingerprint_is_valid kind fingerprint =
     (case fingerprint of
        None \<Rightarrow> False
      | Some fp \<Rightarrow>
          (if kind = FINGERPRINT_NONE then list_all (\<lambda>b. b = 0) (take 32 fp)
           else kind = FINGERPRINT_APPLICATION_OPAQUE_256 \<or>
                kind = FINGERPRINT_SHA256_SOURCE_OBJECT_BYTES))"

section \<open>Powers of two and alignment\<close>

definition apta_internal_is_power_of_two :: "u64 \<Rightarrow> bool" where
  "apta_internal_is_power_of_two v \<longleftrightarrow> v \<noteq> 0 \<and> v AND (v - 1) = 0"

lemma ex_highest_bit: "0 < (n::nat) \<Longrightarrow> \<exists>k. 2 ^ k \<le> n \<and> n < 2 * 2 ^ k"
proof (induction n rule: less_induct)
  case (less n)
  show ?case
  proof (cases "n = 1")
    case True then show ?thesis by (intro exI [of _ 0]) simp
  next
    case False
    with less.prems have "0 < n div 2" "n div 2 < n" by auto
    then obtain k where "2 ^ k \<le> n div 2" "n div 2 < 2 * 2 ^ k" using less.IH by blast
    then show ?thesis by (intro exI [of _ "Suc k"]) auto
  qed
qed

lemma bit_highest: "2 ^ k \<le> (n::nat) \<Longrightarrow> n < 2 * 2 ^ k \<Longrightarrow> bit n k"
proof -
  assume a: "2 ^ k \<le> n" "n < 2 * 2 ^ k"
  then have "n div 2 ^ k = 1"
    by (metis One_nat_def div_less_iff_less_mult div_greater_zero_iff less_2_cases mult.commute not_gr0 order_less_le zero_less_numeral zero_less_power less_numeral_extra(3))
  then show "bit n k" by (simp add: bit_iff_odd)
qed

lemma power_of_two_ex: assumes "apta_internal_is_power_of_two v" shows "\<exists>k < 64. unat v = 2 ^ k"
proof -
  have v0: "v \<noteq> 0" and z: "v AND (v - 1) = 0" using assms by (simp_all add: apta_internal_is_power_of_two_def)
  have pos: "0 < unat v" using v0 by (simp add: unat_gt_0)
  obtain k where k: "2 ^ k \<le> unat v" "unat v < 2 * 2 ^ k" using ex_highest_bit [OF pos] by blast
  have "(2::nat) ^ k < 2 ^ 64" using k(1) unat_u64_bound [of v] by simp
  then have k64: "k < 64" by (rule power_less_imp_less_exp [rotated]) simp
  have m1: "unat (v - 1) = unat v - 1" by (rule unat_minus_one [OF v0])
  have "unat v = 2 ^ k"
  proof (rule ccontr)
    assume ne: "unat v \<noteq> 2 ^ k"
    have "bit (unat v) k" by (rule bit_highest [OF k])
    moreover have "bit (unat (v - 1)) k"
      unfolding m1 using k ne by (intro bit_highest) auto
    ultimately have "bit (v AND (v - 1)) k" using k64 by (simp add: bit_and_iff bit_unsigned_iff)
    with z show False by simp
  qed
  with k64 show ?thesis by blast
qed


lemma unat_eq_exp: "k < 64 \<Longrightarrow> unat (a :: u64) = 2 ^ k \<Longrightarrow> a = 2 ^ k"
  by (metis unat_of_nat of_nat_power of_nat_numeral of_nat_unat ucast_id)

lemma unat_and_not_low:
  assumes "k < 64" "unat (a :: u64) = 2 ^ k"
  shows "unat (x AND NOT (a - 1)) = (unat x div 2 ^ k) * 2 ^ k"
proof -
  have "a - 1 = mask k"
    using unat_eq_exp [OF assms] by (simp add: mask_eq_exp_minus_1)
  then have "unat (x AND NOT (a - 1)) = push_bit k (drop_bit k (unat x))"
    by (intro bit_eqI) (auto simp: bit_simps dest: bit_imp_le_length)
  then show ?thesis by (simp add: push_bit_eq_mult drop_bit_eq_div)
qed

lemma unat_align_up:
  assumes "k < 64" "unat (a :: u64) = 2 ^ k" "unat v + (2 ^ k - 1) < 18446744073709551616"
  shows "unat ((v + a - 1) AND NOT (a - 1)) = (unat v + (2 ^ k - 1)) div 2 ^ k * 2 ^ k"
proof -
  have "a \<noteq> 0" using assms(2) by (metis power_not_zero unat_0 zero_neq_numeral)
  then have "unat (a - 1) = 2 ^ k - 1" using unat_minus_one [of a] assms(2) by simp
  then have "unat (v + (a - 1)) = unat v + (2 ^ k - 1)"
    using assms(3) by (simp add: unat_plus_u64)
  then show ?thesis using unat_and_not_low [OF assms(1,2)] by (simp add: algebra_simps)
qed

lemma align_up_bounds:
  fixes n m :: nat assumes "0 < m"
  shows "n \<le> (n + (m - 1)) div m * m" "(n + (m - 1)) div m * m < n + m" "m dvd (n + (m - 1)) div m * m"
proof -
  have e: "(n + (m - 1)) div m * m = (n + (m - 1)) - (n + (m - 1)) mod m"
    by (simp add: minus_mod_eq_div_mult)
  have "(n + (m - 1)) mod m < m" "(n + (m - 1)) mod m \<le> n + (m - 1)" using assms by simp_all
  then show "n \<le> (n + (m - 1)) div m * m" "(n + (m - 1)) div m * m < n + m"
    unfolding e using assms by linarith+
  show "m dvd (n + (m - 1)) div m * m" by simp
qed

lemma power_of_two_exp:
  assumes "k < 64" shows "apta_internal_is_power_of_two (2 ^ k)"
proof -
  have "(2 :: nat) ^ k < 2 ^ 64" using assms by (rule power_strict_increasing) simp
  then have u: "unat (2 ^ k :: u64) = 2 ^ k"
    using unat_of_nat [where 'a = 64, of "2 ^ k"] by simp
  have "unat ((2 ^ k) AND NOT ((2 ^ k :: u64) - 1)) = unat (2 ^ k :: u64)"
    using unat_and_not_low [OF assms u] u by simp
  then have "(2 ^ k :: u64) AND NOT (2 ^ k - 1) = 2 ^ k" by (rule unsigned_word_eqI)
  then have "(2 ^ k :: u64) AND (2 ^ k - 1) = (2 ^ k AND NOT (2 ^ k - 1)) AND (2 ^ k - 1)" by simp
  also have "\<dots> = 0" by (rule bit_word_eqI) (simp add: bit_simps)
  finally have "(2 ^ k :: u64) AND (2 ^ k - 1) = 0" .
  moreover have "(2 ^ k :: u64) \<noteq> 0" using u by (metis power_not_zero unat_0 zero_neq_numeral)
  ultimately show ?thesis by (simp add: apta_internal_is_power_of_two_def)
qed

lemma power_of_two_iff: "apta_internal_is_power_of_two v \<longleftrightarrow> (\<exists>k<64. v = 2 ^ k)"
  using power_of_two_ex unat_eq_exp power_of_two_exp by blast

section \<open>The context allocator\<close>

text \<open>Removing the first entry of an address: the header is gone once its block is freed.\<close>

fun AList_remove :: "'k \<Rightarrow> ('k \<times> 'v) list \<Rightarrow> ('k \<times> 'v) list" where
  "AList_remove k [] = []"
| "AList_remove k ((k', v) # kvs) = (if k' = k then kvs else (k', v) # AList_remove k kvs)"

record alloc_header =
  raw_memory :: u64
  allocated_size :: u64
  requested_size :: u64

text \<open>The counters of \<open>apta_context\<close>.  \<open>host_calls\<close> counts the requests made to the host
  allocator and \<open>headers\<close> holds the allocation header that precedes each live payload address:
  together they stand for the host's heap.\<close>

record apta_context =
  capabilities :: u64
  memory_limit_bytes :: u64
  allocated_bytes :: u64
  session_count :: u32
  result_count :: u32
  lineage_counter :: u64
  host_calls :: nat
  headers :: "(u64 \<times> alloc_header) list"

type_synonym host_allocator = "nat \<Rightarrow> u64 \<Rightarrow> u64 option"

definition sizeof_allocation_header :: u64 where
  [apta_consts]: "sizeof_allocation_header = 24"

text \<open>The compare-and-exchange loop of \<open>apta_internal_reserve_bytes\<close> as the atomic update it
  performs: \<open>None\<close> when the reservation is refused.\<close>

definition apta_internal_reserve_bytes :: "apta_context \<Rightarrow> u64 \<Rightarrow> apta_context option" where
  "apta_internal_reserve_bytes ctx requested =
     (if memory_limit_bytes ctx = 0
      then Some (ctx\<lparr>allocated_bytes := allocated_bytes ctx + requested\<rparr>)
      else if memory_limit_bytes ctx < requested then None
      else if memory_limit_bytes ctx - requested < allocated_bytes ctx then None
      else Some (ctx\<lparr>allocated_bytes := allocated_bytes ctx + requested\<rparr>))"

definition apta_internal_context_allocate ::
    "host_allocator \<Rightarrow> apta_context \<Rightarrow> u64 \<Rightarrow> u64 \<Rightarrow> u64 option \<times> apta_context" where
  "apta_internal_context_allocate host ctx size0 alignment0 =
     (let sz = (if size0 = 0 then 1 else size0);
          alignment = (if alignment0 < 8 then 8 else alignment0)
      in if \<not> apta_internal_is_power_of_two alignment then (None, ctx)
         else if SIZE_MAX - sizeof_allocation_header - (alignment - 1) < sz then (None, ctx)
         else let total_size = sz + sizeof_allocation_header + alignment - 1
              in case apta_internal_reserve_bytes ctx sz of
                   None \<Rightarrow> (None, ctx)
                 | Some ctx1 \<Rightarrow>
                     let ctx2 = ctx1\<lparr>host_calls := host_calls ctx1 + 1\<rparr>
                     in case host (host_calls ctx1) total_size of
                          None \<Rightarrow> (None, ctx2\<lparr>allocated_bytes := allocated_bytes ctx2 - sz\<rparr>)
                        | Some raw \<Rightarrow>
                            let start = raw + sizeof_allocation_header;
                                aligned = (start + alignment - 1) AND NOT (alignment - 1)
                            in (Some aligned,
                                ctx2\<lparr>headers := (aligned, \<lparr>raw_memory = raw,
                                       allocated_size = total_size,
                                       requested_size = sz\<rparr>) # headers ctx2\<rparr>))"

text \<open>Freeing a payload address (\<open>None\<close> is the null pointer).  An address with no live header is
  outside the contract of the C function; the model leaves the context as it is.\<close>

definition apta_internal_context_deallocate :: "apta_context \<Rightarrow> u64 option \<Rightarrow> apta_context" where
  "apta_internal_context_deallocate ctx memory =
     (case memory of
        None \<Rightarrow> ctx
      | Some a \<Rightarrow>
          (case map_of (headers ctx) a of
             None \<Rightarrow> ctx
           | Some h \<Rightarrow>
               ctx\<lparr>headers := AList_remove a (headers ctx),
                   allocated_bytes := allocated_bytes ctx - requested_size h\<rparr>))"

section \<open>What the allocator guarantees\<close>

text \<open>The documented behaviour of the host allocator: a block it hands out does not run past the
  end of the address space.\<close>

definition host_sound :: "host_allocator \<Rightarrow> bool" where
  "host_sound host \<longleftrightarrow>
     (\<forall>n sz raw. host n sz = Some raw \<longrightarrow> unat raw + unat sz < 18446744073709551616)"

text \<open>The accounting invariant: the counter is the sum of the requested sizes of the live
  blocks, and it respects the configured limit.\<close>

definition live_bytes :: "apta_context \<Rightarrow> u64" where
  "live_bytes ctx = sum_list (map (requested_size \<circ> snd) (headers ctx))"

definition live_total :: "apta_context \<Rightarrow> nat" where
  "live_total ctx = sum_list (map (unat \<circ> requested_size \<circ> snd) (headers ctx))"

definition mem_inv :: "apta_context \<Rightarrow> bool" where
  "mem_inv ctx \<longleftrightarrow> allocated_bytes ctx = live_bytes ctx \<and>
     (memory_limit_bytes ctx \<noteq> 0 \<longrightarrow> live_total ctx \<le> unat (memory_limit_bytes ctx))"

lemma sum_list_of_nat_unat: "of_nat (sum_list (map (unat \<circ> f) xs)) = sum_list (map f xs)"
  for f :: "'x \<Rightarrow> u64"
  by (induction xs) simp_all

text \<open>Under a limit the counter is the exact number of live bytes: it has not wrapped.\<close>

lemma mem_inv_exact:
  assumes "mem_inv ctx" "memory_limit_bytes ctx \<noteq> 0"
  shows "unat (allocated_bytes ctx) = live_total ctx"
proof -
  have "live_total ctx < 2 ^ 64"
    using assms unat_u64_bound [of "memory_limit_bytes ctx"] by (auto simp: mem_inv_def)
  moreover have "allocated_bytes ctx = of_nat (live_total ctx)"
    using assms(1) sum_list_of_nat_unat [of "requested_size \<circ> snd" "headers ctx"]
    by (simp add: mem_inv_def live_bytes_def live_total_def comp_assoc)
  ultimately show ?thesis using unat_of_nat [where 'a = 64, of "live_total ctx"] by simp
qed

lemma reserve_bytes_Some:
  assumes "apta_internal_reserve_bytes ctx n = Some ctx'"
  shows "ctx' = ctx\<lparr>allocated_bytes := allocated_bytes ctx + n\<rparr>"
    and "memory_limit_bytes ctx \<noteq> 0 \<Longrightarrow>
         unat (allocated_bytes ctx) + unat n \<le> unat (memory_limit_bytes ctx) \<and>
         allocated_bytes ctx + n \<le> memory_limit_bytes ctx"
proof -
  show eq: "ctx' = ctx\<lparr>allocated_bytes := allocated_bytes ctx + n\<rparr>"
    using assms by (auto simp: apta_internal_reserve_bytes_def split: if_splits)
  assume "memory_limit_bytes ctx \<noteq> 0"
  then have "n \<le> memory_limit_bytes ctx" "allocated_bytes ctx \<le> memory_limit_bytes ctx - n"
    using assms by (auto simp: apta_internal_reserve_bytes_def split: if_splits)
  then have le: "unat (allocated_bytes ctx) + unat n \<le> unat (memory_limit_bytes ctx)"
    using unat_sub [of n "memory_limit_bytes ctx"] by (simp add: word_le_nat_alt)
  moreover have "unat (allocated_bytes ctx + n) = unat (allocated_bytes ctx) + unat n"
    using le unat_u64_bound [of "memory_limit_bytes ctx"] by (intro unat_plus_u64) simp
  ultimately show "unat (allocated_bytes ctx) + unat n \<le> unat (memory_limit_bytes ctx) \<and>
      allocated_bytes ctx + n \<le> memory_limit_bytes ctx"
    by (simp add: word_le_nat_alt)
qed

lemma live_bytes_remove:
  "map_of kvs a = Some h \<Longrightarrow>
   sum_list (map (requested_size \<circ> snd) (AList_remove a kvs)) + requested_size h =
   sum_list (map (requested_size \<circ> snd) kvs)"
  by (induction a kvs rule: AList_remove.induct) (auto simp: algebra_simps)

text \<open>The possible results of an allocation.\<close>

lemma context_allocate_cases:
  obtains (refused) "apta_internal_context_allocate host ctx size0 alignment0 = (None, ctx)"
  | (host_failed) "apta_internal_context_allocate host ctx size0 alignment0 =
      (None, ctx\<lparr>host_calls := host_calls ctx + 1\<rparr>)"
  | (allocated) raw sz align where
      "sz = (if size0 = 0 then 1 else size0)" "align = (if alignment0 < 8 then 8 else alignment0)"
      "apta_internal_is_power_of_two align"
      "sz \<le> SIZE_MAX - sizeof_allocation_header - (align - 1)"
      "host (host_calls ctx) (sz + sizeof_allocation_header + align - 1) = Some raw"
      "apta_internal_reserve_bytes ctx sz = Some (ctx\<lparr>allocated_bytes := allocated_bytes ctx + sz\<rparr>)"
      "apta_internal_context_allocate host ctx size0 alignment0 =
        (Some ((raw + sizeof_allocation_header + align - 1) AND NOT (align - 1)),
         ctx\<lparr>allocated_bytes := allocated_bytes ctx + sz, host_calls := host_calls ctx + 1,
             headers := ((raw + sizeof_allocation_header + align - 1) AND NOT (align - 1),
               \<lparr>raw_memory = raw, allocated_size = sz + sizeof_allocation_header + align - 1,
                requested_size = sz\<rparr>) # headers ctx\<rparr>)"
proof -
  define sz align where "sz = (if size0 = 0 then 1 else size0)"
    and "align = (if alignment0 < 8 then 8 else alignment0)"
  note defs = apta_internal_context_allocate_def Let_def sz_def [symmetric] align_def [symmetric]
  show ?thesis
  proof (cases "apta_internal_is_power_of_two align \<and>
      sz \<le> SIZE_MAX - sizeof_allocation_header - (align - 1)")
    case False
    then show ?thesis by (intro refused) (auto simp: defs not_le)
  next
    case True
    show ?thesis
    proof (cases "apta_internal_reserve_bytes ctx sz")
      case None
      with True show ?thesis by (intro refused) (auto simp: defs not_le)
    next
      case (Some ctx1)
      note c1 = reserve_bytes_Some(1) [OF Some]
      show ?thesis
      proof (cases "host (host_calls ctx) (sz + sizeof_allocation_header + align - 1)")
        case None
        with True Some c1 show ?thesis by (intro host_failed) (auto simp: defs)
      next
        case (Some raw)
        with True \<open>apta_internal_reserve_bytes ctx sz = Some ctx1\<close> c1 show ?thesis
          by (intro allocated [OF sz_def align_def]) (auto simp: defs)
      qed
    qed
  qed
qed

lemma context_allocate_mem_inv:
  assumes "mem_inv ctx" "apta_internal_context_allocate host ctx n a = (p, ctx')"
  shows "mem_inv ctx'"
proof (rule context_allocate_cases [of host ctx n a])
  fix raw sz align
  assume r: "apta_internal_reserve_bytes ctx sz = Some (ctx\<lparr>allocated_bytes := allocated_bytes ctx + sz\<rparr>)"
    and eq: "apta_internal_context_allocate host ctx n a =
        (Some ((raw + sizeof_allocation_header + align - 1) AND NOT (align - 1)),
         ctx\<lparr>allocated_bytes := allocated_bytes ctx + sz, host_calls := host_calls ctx + 1,
             headers := ((raw + sizeof_allocation_header + align - 1) AND NOT (align - 1),
               \<lparr>raw_memory = raw, allocated_size = sz + sizeof_allocation_header + align - 1,
                requested_size = sz\<rparr>) # headers ctx\<rparr>)"
  then show ?thesis
    using assms reserve_bytes_Some(2) [OF r] mem_inv_exact [OF assms(1)]
    by (auto simp: mem_inv_def live_bytes_def live_total_def algebra_simps)
qed (use assms in \<open>auto simp: mem_inv_def live_bytes_def live_total_def\<close>)

lemma live_total_remove:
  "map_of kvs a = Some h \<Longrightarrow>
   sum_list (map (unat \<circ> requested_size \<circ> snd) (AList_remove a kvs)) + unat (requested_size h) =
   sum_list (map (unat \<circ> requested_size \<circ> snd) kvs)"
  by (induction a kvs rule: AList_remove.induct) auto

lemma context_deallocate_mem_inv:
  assumes "mem_inv ctx"
  shows "mem_inv (apta_internal_context_deallocate ctx p)"
proof (cases "p \<noteq> None \<and> map_of (headers ctx) (the p) \<noteq> None")
  case True
  then obtain a h where "p = Some a" and h: "map_of (headers ctx) a = Some h" by auto
  then show ?thesis
    using assms live_bytes_remove [OF h] live_total_remove [OF h]
    by (auto simp: apta_internal_context_deallocate_def mem_inv_def live_bytes_def live_total_def
        algebra_simps)
next
  case False
  then show ?thesis using assms
    by (auto simp: apta_internal_context_deallocate_def split: option.splits)
qed

section \<open>Sequences of calls\<close>

datatype mem_op = Alloc u64 u64 | Free "u64 option"

fun mem_run :: "host_allocator \<Rightarrow> mem_op list \<Rightarrow> apta_context \<Rightarrow> apta_context" where
  "mem_run host [] ctx = ctx"
| "mem_run host (Alloc n a # ops) ctx =
     mem_run host ops (snd (apta_internal_context_allocate host ctx n a))"
| "mem_run host (Free p # ops) ctx =
     mem_run host ops (apta_internal_context_deallocate ctx p)"

lemma mem_run_inv: "mem_inv ctx \<Longrightarrow> mem_inv (mem_run host ops ctx)"
proof (induction host ops ctx rule: mem_run.induct)
  case (2 host n a ops ctx)
  then show ?case
    using context_allocate_mem_inv [OF 2(2), of host n a]
    by (metis mem_run.simps(2) prod.collapse)
qed (auto intro: context_deallocate_mem_inv)

lemma mem_run_limit: "memory_limit_bytes (mem_run host ops ctx) = memory_limit_bytes ctx"
proof (induction host ops ctx rule: mem_run.induct)
  case (2 host n a ops ctx)
  have "memory_limit_bytes (snd (apta_internal_context_allocate host ctx n a)) = memory_limit_bytes ctx"
    by (rule context_allocate_cases [of host ctx n a]) simp_all
  with 2 show ?case by simp
qed (simp_all add: apta_internal_context_deallocate_def split: option.splits)

lemma context_allocate_layout_aux:
  assumes "k < 64" "unat align = 2 ^ k" "8 \<le> unat align"
    and fits: "sz \<le> SIZE_MAX - sizeof_allocation_header - (align - 1)"
    and raw: "unat raw + unat (sz + sizeof_allocation_header + align - 1) < 18446744073709551616"
  defines "p \<equiv> (raw + sizeof_allocation_header + align - 1) AND NOT (align - 1)"
  shows "unat (sz + sizeof_allocation_header + align - 1) = unat sz + 24 + (unat align - 1)"
    and "unat raw + 24 \<le> unat p"
    and "unat p + unat sz \<le> unat raw + unat (sz + sizeof_allocation_header + align - 1)"
    and "unat align dvd unat p"
proof -
  have a0: "align \<noteq> 0" using assms(3) by auto
  have m1: "unat (align - 1) = unat align - 1" by (rule unat_minus_one [OF a0])
  have h: "unat (SIZE_MAX - sizeof_allocation_header) = 18446744073709551591"
    by (simp add: SIZE_MAX_def sizeof_allocation_header_def)
  have ge: "align - 1 \<le> SIZE_MAX - sizeof_allocation_header"
  proof -
    have "k \<le> 63" using assms(1) by simp
    then have "(2::nat) ^ k \<le> 2 ^ 63" by (rule power_increasing) simp
    then show ?thesis using assms(2) m1 h by (simp add: word_le_nat_alt)
  qed
  have "unat (SIZE_MAX - sizeof_allocation_header - (align - 1)) = 18446744073709551591 - (unat align - 1)"
    using unat_sub [OF ge] h m1 by simp
  then have sum: "unat sz + 24 + (unat align - 1) < 18446744073709551616"
    using fits ge h m1 by (simp add: word_le_nat_alt)
  have t1: "unat (sz + sizeof_allocation_header) = unat sz + 24"
    using sum by (simp add: unat_plus_u64 sizeof_allocation_header_def)
  have t: "unat (sz + sizeof_allocation_header + (align - 1)) = unat sz + 24 + (unat align - 1)"
    using sum t1 m1 by (simp add: unat_plus_u64)
  then show total: "unat (sz + sizeof_allocation_header + align - 1) = unat sz + 24 + (unat align - 1)"
    by (simp add: algebra_simps)
  have r: "unat (raw + sizeof_allocation_header) = unat raw + 24"
    using raw total by (simp add: unat_plus_u64 sizeof_allocation_header_def)
  have p: "unat p = (unat raw + 24 + (2 ^ k - 1)) div 2 ^ k * 2 ^ k"
    using unat_align_up [OF assms(1,2), of "raw + sizeof_allocation_header"] raw total r assms(2)
    by (simp add: p_def)
  note b = align_up_bounds [of "2 ^ k" "unat raw + 24"]
  show "unat raw + 24 \<le> unat p" "unat align dvd unat p" using b p assms(2) by auto
  show "unat p + unat sz \<le> unat raw + unat (sz + sizeof_allocation_header + align - 1)"
    using b(2) p total assms(2) by simp
qed

section \<open>Effects of one call\<close>

text \<open>Nothing allocated, freed or counted: only the host allocator may have been asked.\<close>

definition same_memory :: "apta_context \<Rightarrow> apta_context \<Rightarrow> bool" where
  "same_memory ctx ctx' \<longleftrightarrow> ctx' = ctx\<lparr>host_calls := host_calls ctx'\<rparr>"

lemma same_memory_refl [simp]: "same_memory ctx ctx" by (simp add: same_memory_def)

lemma context_allocate_None:
  "apta_internal_context_allocate host ctx n a = (None, ctx') \<Longrightarrow> same_memory ctx ctx'"
  by (rule context_allocate_cases [of host ctx n a]) (auto simp: same_memory_def)

definition block_added :: "u64 \<Rightarrow> alloc_header \<Rightarrow> apta_context \<Rightarrow> apta_context \<Rightarrow> bool" where
  "block_added a h ctx ctx' \<longleftrightarrow>
     ctx' = ctx\<lparr>allocated_bytes := allocated_bytes ctx + requested_size h,
              host_calls := host_calls ctx', headers := (a, h) # headers ctx\<rparr>"

lemma context_allocate_Some:
  assumes "apta_internal_context_allocate host ctx n a = (Some p, ctx')"
  shows "\<exists>h. block_added p h ctx ctx'"
proof (rule context_allocate_cases [of host ctx n a])
  fix raw sz align
  assume "apta_internal_context_allocate host ctx n a =
        (Some ((raw + sizeof_allocation_header + align - 1) AND NOT (align - 1)),
         ctx\<lparr>allocated_bytes := allocated_bytes ctx + sz, host_calls := host_calls ctx + 1,
             headers := ((raw + sizeof_allocation_header + align - 1) AND NOT (align - 1),
               \<lparr>raw_memory = raw, allocated_size = sz + sizeof_allocation_header + align - 1,
                requested_size = sz\<rparr>) # headers ctx\<rparr>)"
  then show ?thesis
    using assms by (intro exI [of _ "\<lparr>raw_memory = raw,
      allocated_size = sz + sizeof_allocation_header + align - 1, requested_size = sz\<rparr>"])
      (auto simp: block_added_def)
qed (use assms in auto)

lemma same_memory_trans: "same_memory a b \<Longrightarrow> same_memory b c \<Longrightarrow> same_memory a c"
  unfolding same_memory_def by (metis apta_context.surjective apta_context.update_convs(7))

lemma same_memory_free:
  "block_added a h ctx ctx1 \<Longrightarrow> same_memory ctx1 ctx2 \<Longrightarrow>
   same_memory ctx (apta_internal_context_deallocate ctx2 (Some a))"
  unfolding same_memory_def block_added_def
  by (cases ctx; cases ctx1; cases ctx2) (auto simp: apta_internal_context_deallocate_def)

lemma same_memory_free_added:
  "block_added a h ctx ctx1 \<Longrightarrow> same_memory ctx1 ctx2 \<Longrightarrow> block_added b k ctx2 ctx3 \<Longrightarrow>
   same_memory ctx3 ctx4 \<Longrightarrow>
   same_memory ctx (apta_internal_context_deallocate
     (apta_internal_context_deallocate ctx4 (Some b)) (Some a))"
  by (meson same_memory_free same_memory_trans)

section \<open>Properties\<close>

text \<open>
  C26: whatever sequence of allocations and frees a context serves, its byte counter stays the
  sum of the requested sizes of the live blocks, and under a configured limit the counter is the
  exact number of live bytes and never exceeds the limit.
\<close>
theorem context_memory_accounting:
  assumes "mem_inv ctx"
  shows "allocated_bytes (mem_run host ops ctx) = live_bytes (mem_run host ops ctx) \<and>
    (memory_limit_bytes ctx \<noteq> 0 \<longrightarrow>
       unat (allocated_bytes (mem_run host ops ctx)) = live_total (mem_run host ops ctx) \<and>
       allocated_bytes (mem_run host ops ctx) \<le> memory_limit_bytes ctx)"
proof -
  have inv: "mem_inv (mem_run host ops ctx)" by (rule mem_run_inv [OF assms])
  show ?thesis
    using inv mem_inv_exact [OF inv] mem_run_limit [of host ops ctx]
    by (auto simp: mem_inv_def word_le_nat_alt)
qed

definition demo_context :: apta_context where
  "demo_context = \<lparr>capabilities = 1, memory_limit_bytes = 100, allocated_bytes = 0,
     session_count = 0, result_count = 0, lineage_counter = 0, host_calls = 0, headers = []\<rparr>"

lemma demo_context_mem_inv: "mem_inv demo_context"
  by (simp add: demo_context_def mem_inv_def live_bytes_def live_total_def)

theorem context_memory_accounting_witness:
  "allocated_bytes (mem_run (\<lambda>n sz. Some 4096) [Alloc 60 8, Alloc 50 8, Alloc 40 8] demo_context) = 100 \<and>
   live_total (mem_run (\<lambda>n sz. Some 4096) [Alloc 60 8, Alloc 50 8, Alloc 40 8] demo_context) = 100"
proof -
  let ?c = "mem_run (\<lambda>n sz. Some 4096) [Alloc 60 8, Alloc 50 8, Alloc 40 8] demo_context"
  have a: "allocated_bytes ?c = 100" by code_simp
  have lim: "memory_limit_bytes demo_context \<noteq> 0" by (simp add: demo_context_def)
  have "unat (allocated_bytes ?c) = live_total ?c"
    using context_memory_accounting [OF demo_context_mem_inv, of "\<lambda>n sz. Some 4096"
      "[Alloc 60 8, Alloc 50 8, Alloc 40 8]"] lim by blast
  with a show ?thesis by simp
qed

text \<open>
  A successful allocation returns a payload that is aligned as requested and lies, with its
  whole requested size and the allocation header in front of it, inside the block the host
  allocator was asked for; the host block is recorded in the header that a later free reads.
\<close>
theorem context_allocate_layout:
  assumes "host_sound host" "apta_internal_context_allocate host ctx n a = (Some p, ctx')"
  shows "\<exists>h. headers ctx' = (p, h) # headers ctx \<and>
    host (host_calls ctx) (allocated_size h) = Some (raw_memory h) \<and>
    n \<le> requested_size h \<and> unat (raw_memory h) + 24 \<le> unat p \<and>
    unat p + unat (requested_size h) \<le> unat (raw_memory h) + unat (allocated_size h) \<and>
    unat (max a 8) dvd unat p"
proof (rule context_allocate_cases [of host ctx n a])
  fix raw sz align
  assume sz: "sz = (if n = 0 then 1 else n)" and al: "align = (if a < 8 then 8 else a)"
    and pow: "apta_internal_is_power_of_two align"
    and fits: "sz \<le> SIZE_MAX - sizeof_allocation_header - (align - 1)"
    and hraw: "host (host_calls ctx) (sz + sizeof_allocation_header + align - 1) = Some raw"
    and eq: "apta_internal_context_allocate host ctx n a =
        (Some ((raw + sizeof_allocation_header + align - 1) AND NOT (align - 1)),
         ctx\<lparr>allocated_bytes := allocated_bytes ctx + sz, host_calls := host_calls ctx + 1,
             headers := ((raw + sizeof_allocation_header + align - 1) AND NOT (align - 1),
               \<lparr>raw_memory = raw, allocated_size = sz + sizeof_allocation_header + align - 1,
                requested_size = sz\<rparr>) # headers ctx\<rparr>)"
  obtain k where k: "k < 64" "unat align = 2 ^ k" using power_of_two_ex [OF pow] by blast
  have "8 \<le> unat align" using al by (auto simp: word_less_nat_alt)
  moreover have "unat raw + unat (sz + sizeof_allocation_header + align - 1) < 18446744073709551616"
    using assms(1) hraw unfolding host_sound_def by blast
  ultimately have lay: "unat raw + 24 \<le> unat p"
      "unat p + unat sz \<le> unat raw + unat (sz + sizeof_allocation_header + align - 1)"
      "unat align dvd unat p"
    using context_allocate_layout_aux(2-4) [OF k _ fits, of raw] assms(2) eq by simp_all
  have "align = max a 8" "n \<le> sz" using al sz by (auto simp: max_def)
  then show ?thesis using lay assms(2) eq hraw by auto
qed (use assms in auto)

definition demo_host :: host_allocator where
  "demo_host n sz = (if sz \<le> 4096 then Some (0x10001 + 8192 * of_nat (min n 1000)) else None)"

lemma demo_host_sound: "host_sound demo_host"
proof -
  have "unat (0x10001 + 8192 * of_nat (min n 1000) :: u64) \<le> 0x10001 + 8192 * 1000" for n
  proof -
    have "unat (of_nat (min n 1000) :: u64) = min n 1000"
      using unat_of_nat [where 'a = 64, of "min n 1000"] by simp
    then have "unat (8192 * of_nat (min n 1000) :: u64) = 8192 * min n 1000"
      by (simp add: unat_times_u64)
    then show ?thesis by (simp add: unat_plus_u64)
  qed
  then show ?thesis
    by (fastforce simp: host_sound_def demo_host_def word_le_nat_alt split: if_splits
        intro: order_le_less_trans [OF add_mono])
qed

theorem context_allocate_layout_witness:
  "\<exists>h. headers (snd (apta_internal_context_allocate demo_host demo_context 10 16)) = [(0x10020, h)] \<and>
     unat (raw_memory h) + 24 \<le> 0x10020 \<and>
     0x10020 + unat (requested_size h) \<le> unat (raw_memory h) + unat (allocated_size h)"
proof -
  have eq: "apta_internal_context_allocate demo_host demo_context 10 16 =
      (Some 0x10020, snd (apta_internal_context_allocate demo_host demo_context 10 16))"
    by (rule prod_eqI) (code_simp, simp)
  show ?thesis using context_allocate_layout [OF demo_host_sound eq] by (auto simp: demo_context_def)
qed

end
