(* ===== verification/Apta_Result.thy ===== *)
theory Apta_Result
  imports Apta_Memory
begin

text \<open>
  The data the serializers exchange with the rest of the library: waveform columns and spans
  and the overview view of \<^verbatim>\<open>include/apta/apta_result.h\<close>, and the part of \<open>struct apta_result\<close>
  (\<^verbatim>\<open>src/core/apta_internal.h\<close>) that the overview section is built from.  Pointers to arrays
  are optional lists, \<open>None\<close> being the null pointer; the \<open>struct_size\<close>/\<open>api_version\<close> words that
  open every public view are constants of the build and are left out.
\<close>

section \<open>Public constants\<close>

definition APTA_TOTAL_FRAMES_UNKNOWN :: u64 where
  [apta_consts]: "APTA_TOTAL_FRAMES_UNKNOWN = UINT64_MAX"

definition FEATURE_WAVEFORM_OVERVIEW :: u64 where [apta_consts]: "FEATURE_WAVEFORM_OVERVIEW = 1"
definition FEATURE_WAVEFORM_DETAIL :: u64 where [apta_consts]: "FEATURE_WAVEFORM_DETAIL = 2"
definition FEATURE_WAVEFORM_3BAND :: u64 where [apta_consts]: "FEATURE_WAVEFORM_3BAND = 4"

definition SESSION_CREATED :: u32 where [apta_consts]: "SESSION_CREATED = 0"
definition SESSION_ACTIVE :: u32 where [apta_consts]: "SESSION_ACTIVE = 1"
definition SESSION_DRAINING :: u32 where [apta_consts]: "SESSION_DRAINING = 2"
definition SESSION_COMPLETED :: u32 where [apta_consts]: "SESSION_COMPLETED = 3"
definition SESSION_CANCELLED :: u32 where [apta_consts]: "SESSION_CANCELLED = 4"
definition SESSION_FAILED :: u32 where [apta_consts]: "SESSION_FAILED = 5"

definition FEATURE_STATE_PARTIAL :: u32 where [apta_consts]: "FEATURE_STATE_PARTIAL = 1"
definition FEATURE_STATE_FINAL :: u32 where [apta_consts]: "FEATURE_STATE_FINAL = 4"

definition COLUMN_VALID :: u8 where [apta_consts]: "COLUMN_VALID = 1"
definition COLUMN_CLIPPED :: u8 where [apta_consts]: "COLUMN_CLIPPED = 4"
definition COLUMN_HAS_3BAND :: u8 where [apta_consts]: "COLUMN_HAS_3BAND = 8"
definition COLUMN_FLAG_MASK :: u8 where [apta_consts]: "COLUMN_FLAG_MASK = 0x1F"

definition CONFIDENCE_UNKNOWN :: u8 where [apta_consts]: "CONFIDENCE_UNKNOWN = 255"

section \<open>Waveform data\<close>

text \<open>\<open>minimum\<close> and \<open>maximum\<close> are \<open>int16_t\<close>: the 16-bit pattern, read with \<open>sint\<close>.\<close>

record column =
  minimum :: u16
  maximum :: u16
  rms :: u16
  low :: u8
  mid :: u8
  high :: u8
  flags :: u8

record span =
  first_frame :: u64
  end_frame :: u64
  first_column_index :: u32
  column_count :: u32
  columns :: "column list option"

record overview =
  level_id :: u32
  frames_per_column :: u32
  origin_frame :: u64
  state :: u32
  confidence :: u8
  span_count :: u32
  spans :: "span list option"

section \<open>Results\<close>

record apta_result =
  specification_major :: u32
  specification_minor :: u32
  producer_api_version :: u32
  container_version :: u32
  generation :: u64
  available_features :: u64
  changed_features :: u64
  session_state :: u32
  total_source_frames :: u64
  source_sample_rate :: u32
  source_channel_count :: u32
  source_channel_layout :: u32
  fingerprint_kind :: u32
  fingerprint :: bytes
  overview :: overview

text \<open>Element access to an array of the model: out of range is a memory fault.\<close>

definition nth_o :: "'a list \<Rightarrow> nat \<Rightarrow> 'a outcome" where
  "nth_o xs i = (if i < length xs then Ret (xs ! i) else Fault)"

definition deref :: "'a option \<Rightarrow> 'a outcome" where
  "deref p = (case p of None \<Rightarrow> Fault | Some a \<Rightarrow> Ret a)"

lemma nth_o_owp: "i < length xs \<Longrightarrow> Q (xs ! i) \<Longrightarrow> owp (nth_o xs i) Q"
  by (simp add: nth_o_def)

lemma deref_simps [simp]: "deref (Some a) = Ret a" "deref None = Fault"
  by (simp_all add: deref_def)

end
