(* ===== verification/Apta_Container.thy ===== *)
theory Apta_Container
  imports Apta_Crc32c Apta_Result
begin

text \<open>
  The container parser of \<^verbatim>\<open>src/serialization/apta_wovr_reader.c\<close>, first half: the parse options
  and \<open>apta_validate_container\<close>, which checks the fixed header, the section directory and the
  checksums of an untrusted buffer and locates the waveform-overview payload.  The main result
  is that no input makes it read outside the buffer.
\<close>

section \<open>Parse options\<close>

definition APTA_PARSE_STRICT :: u32 where [apta_consts]: "APTA_PARSE_STRICT = 1"

record parse_options =
  po_struct_size :: u32
  po_api_version :: u32
  po_flags :: u32
  po_maximum_section_count :: u32
  po_maximum_overview_spans :: u32
  po_maximum_waveform_columns :: u32
  po_maximum_file_bytes :: u64
  po_maximum_allocation_bytes :: u64
  po_reserved64 :: "u64 list"

record effective_options =
  eo_flags :: u32
  maximum_section_count :: u32
  maximum_overview_spans :: u32
  maximum_waveform_columns :: u32
  maximum_file_bytes :: u64
  maximum_allocation_bytes :: u64

definition sizeof_parse_options :: u64 where [apta_consts]: "sizeof_parse_options = 72"

definition apta_parse_options_init :: parse_options where
  "apta_parse_options_init =
     \<lparr>po_struct_size = 72, po_api_version = APTA_API_VERSION, po_flags = APTA_PARSE_STRICT,
      po_maximum_section_count = 64, po_maximum_overview_spans = 65536,
      po_maximum_waveform_columns = 16777216, po_maximum_file_bytes = 268435456,
      po_maximum_allocation_bytes = 268435456, po_reserved64 = [0, 0, 0, 0]\<rparr>"

definition default_options :: effective_options where
  "default_options =
     \<lparr>eo_flags = APTA_PARSE_STRICT, maximum_section_count = 64, maximum_overview_spans = 65536,
      maximum_waveform_columns = 16777216, maximum_file_bytes = 268435456,
      maximum_allocation_bytes = 268435456\<rparr>"

definition apta_resolve_parse_options :: "parse_options option \<Rightarrow> effective_options outcome" where
  "apta_resolve_parse_options options =
     (case options of
        None \<Rightarrow> Ret default_options
      | Some o1 \<Rightarrow>
          obind (check (\<not> apta_internal_validate_struct True sizeof_parse_options
                            (po_struct_size o1) (po_api_version o1) \<or>
                        po_flags o1 AND NOT APTA_PARSE_STRICT \<noteq> 0) ERROR_INVALID_ARGUMENT) (\<lambda>_.
          obind (check (list_ex (\<lambda>r. r \<noteq> 0) (po_reserved64 o1)) ERROR_INVALID_ARGUMENT) (\<lambda>_.
          Ret \<lparr>eo_flags = po_flags o1,
               maximum_section_count =
                 (if po_maximum_section_count o1 \<noteq> 0 then po_maximum_section_count o1 else 64),
               maximum_overview_spans =
                 (if po_maximum_overview_spans o1 \<noteq> 0 then po_maximum_overview_spans o1
                  else 65536),
               maximum_waveform_columns =
                 (if po_maximum_waveform_columns o1 \<noteq> 0 then po_maximum_waveform_columns o1
                  else 16777216),
               maximum_file_bytes =
                 (if po_maximum_file_bytes o1 \<noteq> 0 then po_maximum_file_bytes o1
                  else 268435456),
               maximum_allocation_bytes =
                 (if po_maximum_allocation_bytes o1 \<noteq> 0 then po_maximum_allocation_bytes o1
                  else 268435456)\<rparr>)))"

section \<open>Section identifiers\<close>

definition tag_APTA :: bytes where [apta_consts]: "tag_APTA = [0x41, 0x50, 0x54, 0x41]"
definition tag_META :: bytes where [apta_consts]: "tag_META = [0x4D, 0x45, 0x54, 0x41]"
definition tag_WOVR :: bytes where [apta_consts]: "tag_WOVR = [0x57, 0x4F, 0x56, 0x52]"
definition tag_WDTL :: bytes where [apta_consts]: "tag_WDTL = [0x57, 0x44, 0x54, 0x4C]"
definition tag_TEMP :: bytes where [apta_consts]: "tag_TEMP = [0x54, 0x45, 0x4D, 0x50]"
definition tag_LGRD :: bytes where [apta_consts]: "tag_LGRD = [0x4C, 0x47, 0x52, 0x44]"
definition tag_GGRD :: bytes where [apta_consts]: "tag_GGRD = [0x47, 0x47, 0x52, 0x44]"
definition tag_REVN :: bytes where [apta_consts]: "tag_REVN = [0x52, 0x45, 0x56, 0x4E]"

text \<open>A run of \<open>n\<close> bytes of the buffer, as \<open>memcmp\<close>, \<open>memcpy\<close> and the checksum read it.\<close>

definition get_range :: "bytes \<Rightarrow> nat \<Rightarrow> nat \<Rightarrow> bytes outcome" where
  "get_range bs off n = (if off + n \<le> length bs then Ret (take n (drop off bs)) else Fault)"

lemma get_range_owp:
  "off + n \<le> length bs \<Longrightarrow> Q (take n (drop off bs)) \<Longrightarrow> owp (get_range bs off n) Q"
  by (simp add: get_range_def)

definition apta_is_standard_section :: "bytes \<Rightarrow> bool" where
  "apta_is_standard_section t \<longleftrightarrow>
     t = tag_META \<or> t = tag_WOVR \<or> t = tag_WDTL \<or> t = tag_TEMP \<or> t = tag_LGRD \<or>
     t = tag_GGRD \<or> t = tag_REVN"

section \<open>The fixed header\<close>

definition CONTAINER_FLAG_PARTIAL_RESULT :: u32 where
  [apta_consts]: "CONTAINER_FLAG_PARTIAL_RESULT = 1"
definition CONTAINER_FLAG_SOURCE_DURATION_UNKNOWN :: u32 where
  [apta_consts]: "CONTAINER_FLAG_SOURCE_DURATION_UNKNOWN = 2"
definition CONTAINER_FLAG_MASK :: u32 where [apta_consts]: "CONTAINER_FLAG_MASK = 7"

definition SECTION_FLAG_REQUIRED :: u16 where [apta_consts]: "SECTION_FLAG_REQUIRED = 1"
definition SECTION_FLAG_COMPRESSED :: u16 where [apta_consts]: "SECTION_FLAG_COMPRESSED = 2"
definition SECTION_FLAG_ENCRYPTED :: u16 where [apta_consts]: "SECTION_FLAG_ENCRYPTED = 4"
definition SECTION_FLAG_MASK :: u16 where [apta_consts]: "SECTION_FLAG_MASK = 7"

record header =
  h_header_size :: u16
  h_container_version :: u16
  h_specification_major :: u16
  h_specification_minor :: u16
  h_producer_api_version :: u32
  h_container_flags :: u32
  h_section_count :: u32
  h_directory_offset :: u64
  h_total_file_size :: u64
  h_total_source_frames :: u64
  h_source_sample_rate :: u32
  h_source_channel_count :: u16
  h_source_channel_layout :: u16
  h_fingerprint_kind :: u32
  h_fingerprint :: bytes

definition read_header :: "bytes \<Rightarrow> header outcome" where
  "read_header bs =
     obind (apta_get_u16 bs 4) (\<lambda>header_size.
     obind (apta_get_u16 bs 6) (\<lambda>version.
     obind (apta_get_u16 bs 8) (\<lambda>major.
     obind (apta_get_u16 bs 10) (\<lambda>minor.
     obind (apta_get_u32 bs 12) (\<lambda>producer.
     obind (apta_get_u32 bs 16) (\<lambda>cflags.
     obind (apta_get_u32 bs 20) (\<lambda>section_count.
     obind (apta_get_u64 bs 24) (\<lambda>directory_offset.
     obind (apta_get_u64 bs 32) (\<lambda>file_size.
     obind (apta_get_u64 bs 40) (\<lambda>frames.
     obind (apta_get_u32 bs 48) (\<lambda>rate.
     obind (apta_get_u16 bs 52) (\<lambda>channels.
     obind (apta_get_u16 bs 54) (\<lambda>layout.
     obind (apta_get_u32 bs 88) (\<lambda>kind.
     obind (get_range bs 56 32) (\<lambda>fp.
     Ret \<lparr>h_header_size = header_size, h_container_version = version,
          h_specification_major = major, h_specification_minor = minor,
          h_producer_api_version = producer, h_container_flags = cflags,
          h_section_count = section_count, h_directory_offset = directory_offset,
          h_total_file_size = file_size, h_total_source_frames = frames,
          h_source_sample_rate = rate, h_source_channel_count = channels,
          h_source_channel_layout = layout, h_fingerprint_kind = kind,
          h_fingerprint = fp\<rparr>)))))))))))))))"

text \<open>The checks on the header, in the order of the source.\<close>

definition check_header :: "bytes \<Rightarrow> effective_options \<Rightarrow> header \<Rightarrow> unit outcome" where
  "check_header bs opt h =
     (let buffer_size = of_nat (length bs) :: u64;
          directory_size = ucast (h_section_count h) * 40 :: u64
      in
      obind (check (h_header_size h < 96 \<or> buffer_size < ucast (h_header_size h) \<or>
                    h_container_version h \<noteq> 1 \<or> h_specification_major h \<noteq> 1 \<or>
                    0 < h_specification_minor h) ERROR_UNSUPPORTED) (\<lambda>_.
      obind (check (h_container_flags h AND NOT CONTAINER_FLAG_MASK \<noteq> 0)
               ERROR_CORRUPT_DATA) (\<lambda>_.
      obind (check (h_section_count h = 0) ERROR_CORRUPT_DATA) (\<lambda>_.
      obind (check (maximum_section_count opt < h_section_count h)
               ERROR_LIMIT_EXCEEDED) (\<lambda>_.
      obind (check (h_directory_offset h < ucast (h_header_size h) \<or>
                    h_directory_offset h AND 7 \<noteq> 0) ERROR_CORRUPT_DATA) (\<lambda>_.
      obind (check (\<not> apta_range_fits (h_directory_offset h) directory_size buffer_size)
               ERROR_CORRUPT_DATA) (\<lambda>_.
      obind (check (h_total_file_size h \<noteq> buffer_size \<or> h_source_sample_rate h = 0 \<or>
                    h_source_channel_count h = 0) ERROR_CORRUPT_DATA) (\<lambda>_.
      obind (get_range bs 0 92) (\<lambda>prefix.
      obind (apta_get_u32 bs 92) (\<lambda>header_crc.
      obind (check (crc_of prefix \<noteq> header_crc) ERROR_CORRUPT_DATA) (\<lambda>_.
      obind (check (h_fingerprint_kind h \<noteq> FINGERPRINT_NONE \<and>
                    h_fingerprint_kind h \<noteq> FINGERPRINT_APPLICATION_OPAQUE_256 \<and>
                    h_fingerprint_kind h \<noteq> FINGERPRINT_SHA256_SOURCE_OBJECT_BYTES)
               ERROR_UNSUPPORTED) (\<lambda>_.
      obind (if h_fingerprint_kind h = FINGERPRINT_NONE
             then obind (apta_bytes_are_zero bs 56 32) (\<lambda>z. check (\<not> z) ERROR_CORRUPT_DATA)
             else Ret ()) (\<lambda>_.
      if h_total_source_frames h = APTA_TOTAL_FRAMES_UNKNOWN
      then check (h_container_flags h AND CONTAINER_FLAG_SOURCE_DURATION_UNKNOWN = 0 \<or>
                  h_container_flags h AND CONTAINER_FLAG_PARTIAL_RESULT = 0) ERROR_CORRUPT_DATA
      else check (h_container_flags h AND CONTAINER_FLAG_SOURCE_DURATION_UNKNOWN \<noteq> 0)
             ERROR_CORRUPT_DATA)))))))))))))"

section \<open>The section directory\<close>

record dir_entry =
  e_tag :: bytes
  e_version :: u16
  e_flags :: u16
  e_offset :: u64
  e_stored_size :: u64
  e_logical_size :: u64
  e_crc :: u32
  e_reserved :: u32

definition entry_at :: "header \<Rightarrow> nat \<Rightarrow> nat" where
  "entry_at h index = unat (h_directory_offset h) + index * 40"

definition read_entry :: "bytes \<Rightarrow> nat \<Rightarrow> dir_entry outcome" where
  "read_entry bs at =
     obind (apta_get_u16 bs (at + 4)) (\<lambda>version.
     obind (apta_get_u16 bs (at + 6)) (\<lambda>eflags.
     obind (apta_get_u64 bs (at + 8)) (\<lambda>offset.
     obind (apta_get_u64 bs (at + 16)) (\<lambda>stored.
     obind (apta_get_u64 bs (at + 24)) (\<lambda>logical.
     obind (apta_get_u32 bs (at + 32)) (\<lambda>crc.
     obind (apta_get_u32 bs (at + 36)) (\<lambda>reserved.
     obind (get_range bs at 4) (\<lambda>t.
     Ret \<lparr>e_tag = t, e_version = version, e_flags = eflags, e_offset = offset,
          e_stored_size = stored, e_logical_size = logical, e_crc = crc,
          e_reserved = reserved\<rparr>))))))))"

text \<open>The inner loop: the payload must not overlap the payload of an earlier entry.\<close>

definition check_earlier :: "bytes \<Rightarrow> header \<Rightarrow> dir_entry \<Rightarrow> nat \<Rightarrow> unit outcome" where
  "check_earlier bs h e index =
     ofor [0..<index] (\<lambda>earlier _.
       obind (apta_get_u64 bs (entry_at h earlier + 8)) (\<lambda>prior_offset.
       obind (apta_get_u64 bs (entry_at h earlier + 16)) (\<lambda>prior_size.
       check (apta_ranges_overlap (e_offset e) (e_stored_size e) prior_offset prior_size)
         ERROR_CORRUPT_DATA))) ()"

text \<open>One iteration of the section loop.  The loop variable is the located overview payload
  (offset and size), \<open>None\<close> before it is found.\<close>

definition check_entry ::
    "bytes \<Rightarrow> effective_options \<Rightarrow> header \<Rightarrow> nat \<Rightarrow> (u64 \<times> u64) option \<Rightarrow>
     dir_entry \<Rightarrow> (u64 \<times> u64) option outcome" where
  "check_entry bs opt h index found e =
     (let buffer_size = of_nat (length bs) :: u64;
         strict = eo_flags opt AND APTA_PARSE_STRICT \<noteq> 0;
         is_wovr = e_tag e = tag_WOVR;
         is_standard = apta_is_standard_section (e_tag e);
         directory_size = ucast (h_section_count h) * 40 :: u64
     in
     obind (check (e_flags e AND (SECTION_FLAG_COMPRESSED OR SECTION_FLAG_ENCRYPTED) \<noteq> 0)
              ERROR_UNSUPPORTED) (\<lambda>_.
     obind (check (e_flags e AND NOT SECTION_FLAG_MASK \<noteq> 0 \<or> strict \<and> e_reserved e \<noteq> 0)
              ERROR_CORRUPT_DATA) (\<lambda>_.
     obind (check (is_standard \<and> e_version e \<noteq> 1) ERROR_UNSUPPORTED) (\<lambda>_.
     obind (check (is_wovr \<and> e_flags e AND SECTION_FLAG_REQUIRED = 0 \<or>
                   \<not> is_wovr \<and> is_standard \<and> e_flags e AND SECTION_FLAG_REQUIRED \<noteq> 0)
              ERROR_CORRUPT_DATA) (\<lambda>_.
     obind (check (e_offset e AND 7 \<noteq> 0 \<or> e_stored_size e \<noteq> e_logical_size e \<or>
                   \<not> apta_range_fits (e_offset e) (e_stored_size e) buffer_size)
              ERROR_CORRUPT_DATA) (\<lambda>_.
     obind (check (apta_ranges_overlap (e_offset e) (e_stored_size e) 0 (ucast (h_header_size h)) \<or>
                   apta_ranges_overlap (e_offset e) (e_stored_size e)
                     (h_directory_offset h) directory_size) ERROR_CORRUPT_DATA) (\<lambda>_.
     obind (check_earlier bs h e index) (\<lambda>_.
     obind (check (SIZE_MAX < e_stored_size e) ERROR_CORRUPT_DATA) (\<lambda>_.
     obind (get_range bs (unat (e_offset e)) (unat (e_stored_size e))) (\<lambda>stored.
     obind (check (crc_of stored \<noteq> e_crc e) ERROR_CORRUPT_DATA) (\<lambda>_.
     if is_wovr
     then obind (check (found \<noteq> None) ERROR_CORRUPT_DATA) (\<lambda>_.
          Ret (Some (e_offset e, e_stored_size e)))
     else obind (check (\<not> is_standard \<and> e_flags e AND SECTION_FLAG_REQUIRED \<noteq> 0)
                   ERROR_UNSUPPORTED) (\<lambda>_. Ret found))))))))))))"

definition check_section ::
    "bytes \<Rightarrow> effective_options \<Rightarrow> header \<Rightarrow> nat \<Rightarrow> (u64 \<times> u64) option \<Rightarrow>
     (u64 \<times> u64) option outcome" where
  "check_section bs opt h index found =
     obind (read_entry bs (entry_at h index)) (check_entry bs opt h index found)"

section \<open>Validation of the container\<close>

record wovr_input =
  payload_offset :: u64
  payload_size :: u64
  wi_header :: header

definition apta_validate_container ::
    "bytes \<Rightarrow> effective_options \<Rightarrow> wovr_input outcome" where
  "apta_validate_container bs opt =
     (let buffer_size = of_nat (length bs) :: u64 in
      obind (check (buffer_size < 96) ERROR_CORRUPT_DATA) (\<lambda>_.
      obind (check (maximum_file_bytes opt < buffer_size) ERROR_LIMIT_EXCEEDED) (\<lambda>_.
      obind (get_range bs 0 4) (\<lambda>magic.
      obind (check (magic \<noteq> tag_APTA) ERROR_CORRUPT_DATA) (\<lambda>_.
      obind (read_header bs) (\<lambda>h.
      obind (check_header bs opt h) (\<lambda>_.
      obind (ofor [0..<unat (h_section_count h)] (check_section bs opt h) None) (\<lambda>found.
      obind (check (found = None \<or>
                    buffer_size < h_directory_offset h + ucast (h_section_count h) * 40)
               ERROR_CORRUPT_DATA) (\<lambda>_.
      Ret \<lparr>payload_offset = fst (the found), payload_size = snd (the found),
           wi_header = h\<rparr>)))))))))"

section \<open>Memory safety\<close>

lemma read_header_owp:
  assumes "96 \<le> length bs" and "\<And>h. read_header bs = Ret h \<Longrightarrow> Q h"
  shows "owp (read_header bs) Q"
proof (rule owpI)
  show "read_header bs \<noteq> Fault"
    unfolding read_header_def owp_trivial_iff [symmetric] using assms(1)
    by (auto intro!: get_owp get_range_owp)
qed (rule assms(2))

lemma read_header_fields:
  "read_header bs = Ret h \<Longrightarrow>
     h_fingerprint h = take 32 (drop 56 bs) \<and> length (h_fingerprint h) = 32 \<and>
     apta_get_u32 bs 20 = Ret (h_section_count h) \<and>
     apta_get_u64 bs 24 = Ret (h_directory_offset h) \<and>
     apta_get_u64 bs 40 = Ret (h_total_source_frames h)"
  by (auto simp: read_header_def obind_eq_Ret get_range_def split: if_splits)

lemma read_entry_not_Fault: "at + 40 \<le> length bs \<Longrightarrow> read_entry bs at \<noteq> Fault"
  unfolding read_entry_def owp_trivial_iff [symmetric]
  by (auto intro!: get_owp get_range_owp)

lemma read_entry_owp:
  "at + 40 \<le> length bs \<Longrightarrow> (\<And>e. read_entry bs at = Ret e \<Longrightarrow> Q e) \<Longrightarrow> owp (read_entry bs at) Q"
  by (intro owpI read_entry_not_Fault)

lemma read_entry_fields:
  "read_entry bs at = Ret e \<Longrightarrow>
     get_range bs at 4 = Ret (e_tag e) \<and>
     apta_get_u64 bs (at + 8) = Ret (e_offset e) \<and>
     apta_get_u64 bs (at + 16) = Ret (e_stored_size e)"
  by (auto simp: read_entry_def obind_eq_Ret get_range_def split: if_splits)

text \<open>What the header checks establish.\<close>

definition header_ok :: "bytes \<Rightarrow> effective_options \<Rightarrow> header \<Rightarrow> bool" where
  "header_ok bs opt h \<longleftrightarrow>
     96 \<le> unat (h_header_size h) \<and> unat (h_header_size h) \<le> unat (h_directory_offset h) \<and>
     unat (h_directory_offset h) + unat (h_section_count h) * 40 \<le> length bs \<and>
     h_section_count h \<noteq> 0 \<and> h_section_count h \<le> maximum_section_count opt \<and>
     h_source_sample_rate h \<noteq> 0 \<and> h_source_channel_count h \<noteq> 0 \<and>
     unat (h_total_file_size h) = length bs \<and>
     apta_get_u32 bs 92 = Ret (crc_of (take 92 bs)) \<and>
     (h_total_source_frames h = APTA_TOTAL_FRAMES_UNKNOWN \<longleftrightarrow>
        h_container_flags h AND CONTAINER_FLAG_SOURCE_DURATION_UNKNOWN \<noteq> 0) \<and>
     (h_total_source_frames h = APTA_TOTAL_FRAMES_UNKNOWN \<longrightarrow>
        h_container_flags h AND CONTAINER_FLAG_PARTIAL_RESULT \<noteq> 0)"

lemma unat_buffer_size:
  "length bs < 18446744073709551616 \<Longrightarrow> unat (of_nat (length bs) :: u64) = length bs"
  using unat_of_nat [where 'a = 64, of "length bs"] by simp

lemma unat_directory_size: "unat (ucast (n :: u32) * 40 :: u64) = unat n * 40"
  using unat_u32_bound [of n] by (simp add: unat_times_u64)

lemma check_header_owp:
  assumes "96 \<le> length bs" "length bs < 18446744073709551616"
  shows "owp (check_header bs opt h) (\<lambda>_. header_ok bs opt h)"
  unfolding check_header_def Let_def using assms
  by (auto intro!: get_owp get_range_owp
      simp: header_ok_def apta_bytes_are_zero_eq apta_range_fits_iff unat_buffer_size
        unat_directory_size word_less_nat_alt word_le_nat_alt not_less)

text \<open>A located payload lies inside the buffer and overlaps neither the header nor the
  directory.\<close>

definition payload_ok :: "bytes \<Rightarrow> header \<Rightarrow> u64 \<times> u64 \<Rightarrow> bool" where
  "payload_ok bs h p \<longleftrightarrow>
     unat (fst p) + unat (snd p) \<le> length bs \<and>
     {unat (fst p)..<unat (fst p) + unat (snd p)} \<inter> {0..<unat (h_header_size h)} = {} \<and>
     {unat (fst p)..<unat (fst p) + unat (snd p)} \<inter>
       {unat (h_directory_offset h)..<unat (h_directory_offset h) + unat (h_section_count h) * 40} = {}"

lemma entry_at_bound:
  "header_ok bs opt h \<Longrightarrow> i < unat (h_section_count h) \<Longrightarrow> entry_at h i + 40 \<le> length bs"
proof -
  assume h: "header_ok bs opt h" and i: "i < unat (h_section_count h)"
  then have "(i + 1) * 40 \<le> unat (h_section_count h) * 40" by (intro mult_le_mono1) simp
  with h show ?thesis by (simp add: header_ok_def entry_at_def)
qed

text \<open>What the parser has established about one directory entry: its payload lies in the
  buffer clear of header and directory, carries the checksum the entry states, and the entry's
  flags and version are those the format allows.\<close>

definition entry_ok :: "bytes \<Rightarrow> effective_options \<Rightarrow> header \<Rightarrow> dir_entry \<Rightarrow> bool" where
  "entry_ok bs opt h e \<longleftrightarrow>
     payload_ok bs h (e_offset e, e_stored_size e) \<and>
     e_offset e AND 7 = 0 \<and> e_logical_size e = e_stored_size e \<and>
     crc_of (take (unat (e_stored_size e)) (drop (unat (e_offset e)) bs)) = e_crc e \<and>
     e_flags e AND (SECTION_FLAG_COMPRESSED OR SECTION_FLAG_ENCRYPTED) = 0 \<and>
     (apta_is_standard_section (e_tag e) \<longrightarrow> e_version e = 1) \<and>
     (e_flags e AND SECTION_FLAG_REQUIRED \<noteq> 0 \<longleftrightarrow> e_tag e = tag_WOVR)"

definition sections_disjoint :: "dir_entry \<Rightarrow> dir_entry \<Rightarrow> bool" where
  "sections_disjoint e e' \<longleftrightarrow>
     {unat (e_offset e)..<unat (e_offset e) + unat (e_stored_size e)} \<inter>
     {unat (e_offset e')..<unat (e_offset e') + unat (e_stored_size e')} = {}"

lemma sections_disjointI:
  assumes "\<not> apta_ranges_overlap (e_offset e) (e_stored_size e) (e_offset e') (e_stored_size e')"
    and "length bs < 18446744073709551616" "payload_ok bs h (e_offset e, e_stored_size e)"
    and "payload_ok bs h (e_offset e', e_stored_size e')"
  shows "sections_disjoint e e'"
  using assms apta_ranges_overlap_iff [of "e_offset e" "e_stored_size e" "e_offset e'" "e_stored_size e'"]
  by (simp add: sections_disjoint_def payload_ok_def)

lemma check_earlier_owp:
  assumes "header_ok bs opt h" "index < unat (h_section_count h)"
    and "(\<And>j e'. j < index \<Longrightarrow> read_entry bs (entry_at h j) = Ret e' \<Longrightarrow>
            \<not> apta_ranges_overlap (e_offset e) (e_stored_size e) (e_offset e') (e_stored_size e')) \<Longrightarrow> Q ()"
  shows "owp (check_earlier bs h e index) Q"
proof -
  let ?I = "\<lambda>k (_::unit). \<forall>j<k. \<forall>e'. read_entry bs (entry_at h j) = Ret e' \<longrightarrow>
      \<not> apta_ranges_overlap (e_offset e) (e_stored_size e) (e_offset e') (e_stored_size e')"
  have "owp (check_earlier bs h e index) (?I index)"
    unfolding check_earlier_def
  proof (rule ofor_upt_owp)
    fix i s assume i: "i < index" and I: "?I i s"
    then have "entry_at h i + 40 \<le> length bs"
      using entry_at_bound [OF assms(1), of i] assms(2) by simp
    then show "owp (obind (apta_get_u64 bs (entry_at h i + 8))
        (\<lambda>prior_offset. obind (apta_get_u64 bs (entry_at h i + 16))
          (\<lambda>prior_size. check (apta_ranges_overlap (e_offset e) (e_stored_size e) prior_offset prior_size)
             ERROR_CORRUPT_DATA))) (?I (Suc i))"
      using I by (auto intro!: get_owp simp: less_Suc_eq dest!: read_entry_fields)
  qed simp
  then show ?thesis
  proof (rule owp_mono)
    fix a assume "?I index a"
    then show "Q a" using assms(3) by (cases a) blast
  qed
qed

text \<open>The first \<open>n\<close> entries of the directory, and the invariant of the section loop after
  \<open>n\<close> iterations: every entry is in order, no two payloads overlap, and the located payload is
  that of the only overview entry met so far.\<close>

definition dir_entries :: "bytes \<Rightarrow> header \<Rightarrow> nat \<Rightarrow> dir_entry list \<Rightarrow> bool" where
  "dir_entries bs h n es \<longleftrightarrow> map Ret es = map (\<lambda>j. read_entry bs (entry_at h j)) [0..<n]"

definition payload_of :: "dir_entry \<Rightarrow> u64 \<times> u64" where
  "payload_of e = (e_offset e, e_stored_size e)"

definition sections_inv ::
    "bytes \<Rightarrow> effective_options \<Rightarrow> header \<Rightarrow> nat \<Rightarrow> (u64 \<times> u64) option \<Rightarrow> bool" where
  "sections_inv bs opt h n found \<longleftrightarrow>
     (\<exists>es. dir_entries bs h n es \<and> list_all (entry_ok bs opt h) es \<and>
        sorted_wrt sections_disjoint es \<and>
        map payload_of (filter (\<lambda>e. e_tag e = tag_WOVR) es) =
          (case found of None \<Rightarrow> [] | Some p \<Rightarrow> [p]))"

lemma dir_entries_length: "dir_entries bs h n es \<Longrightarrow> length es = n"
  by (drule arg_cong [where f = length, OF iffD1 [OF dir_entries_def]]) simp

lemma dir_entries_nth:
  assumes "dir_entries bs h n es" "j < n"
  shows "read_entry bs (entry_at h j) = Ret (es ! j)"
proof -
  have "map Ret es ! j = map (\<lambda>j. read_entry bs (entry_at h j)) [0..<n] ! j"
    using assms(1) by (simp only: dir_entries_def)
  then show ?thesis using assms(2) dir_entries_length [OF assms(1)] by simp
qed

lemma dir_entries_snoc:
  "dir_entries bs h n es \<Longrightarrow> read_entry bs (entry_at h n) = Ret e \<Longrightarrow>
   dir_entries bs h (Suc n) (es @ [e])"
  by (simp add: dir_entries_def)

lemma sections_disjoint_sym: "sections_disjoint e e' \<longleftrightarrow> sections_disjoint e' e"
  by (auto simp: sections_disjoint_def)

definition no_overlap_before :: "bytes \<Rightarrow> header \<Rightarrow> nat \<Rightarrow> dir_entry \<Rightarrow> bool" where
  "no_overlap_before bs h index e \<longleftrightarrow>
     (\<forall>j<index. \<forall>e'. read_entry bs (entry_at h j) = Ret e' \<longrightarrow>
        \<not> apta_ranges_overlap (e_offset e) (e_stored_size e) (e_offset e') (e_stored_size e'))"

definition section_step ::
    "bytes \<Rightarrow> effective_options \<Rightarrow> header \<Rightarrow> nat \<Rightarrow> (u64 \<times> u64) option \<Rightarrow> dir_entry \<Rightarrow>
     (u64 \<times> u64) option \<Rightarrow> bool" where
  "section_step bs opt h index found e f \<longleftrightarrow>
     entry_ok bs opt h e \<and> no_overlap_before bs h index e \<and>
     (if e_tag e = tag_WOVR then found = None \<and> f = Some (e_offset e, e_stored_size e)
      else f = found)"

lemma payload_ok_overlap:
  assumes "length bs < 18446744073709551616" "header_ok bs opt h"
    and "apta_range_fits o1 s1 (of_nat (length bs))"
    and "\<not> apta_ranges_overlap o1 s1 0 (ucast (h_header_size h))"
    and "\<not> apta_ranges_overlap o1 s1 (h_directory_offset h) (ucast (h_section_count h) * 40)"
  shows "payload_ok bs h (o1, s1)"
proof -
  have "unat o1 + unat s1 \<le> length bs"
    using assms(1,3) by (simp add: apta_range_fits_iff unat_buffer_size)
  moreover have "unat (h_directory_offset h) + unat (h_section_count h) * 40 \<le> length bs"
    using assms(2) by (simp add: header_ok_def)
  ultimately show ?thesis
    using assms(1,4,5) apta_ranges_overlap_iff [of o1 s1 0 "ucast (h_header_size h)"]
      apta_ranges_overlap_iff [of o1 s1 "h_directory_offset h" "ucast (h_section_count h) * 40"]
      unat_u16_bound [of "h_header_size h"]
    by (simp add: payload_ok_def unat_directory_size)
qed

lemma check_entry_owp:
  assumes "length bs < 18446744073709551616" "header_ok bs opt h"
    and "index < unat (h_section_count h)"
  shows "owp (check_entry bs opt h index found e) (section_step bs opt h index found e)"
proof -
  have fits: "unat (e_offset e) + unat (e_stored_size e) \<le> length bs"
    if "apta_range_fits (e_offset e) (e_stored_size e) (of_nat (length bs))"
    using that assms(1) by (simp add: apta_range_fits_iff unat_buffer_size)
  have std: "apta_is_standard_section tag_WOVR" by (simp add: apta_is_standard_section_def)
  show ?thesis
    unfolding check_entry_def Let_def owp_obind owp_check
    apply (intro impI check_earlier_owp [OF assms(2,3)] get_range_owp fits)
     apply simp
    apply (cases found)
     apply (auto simp: section_step_def entry_ok_def no_overlap_before_def std
        intro: payload_ok_overlap [OF assms(1,2)])
    done
qed

lemma check_section_owp:
  assumes "length bs < 18446744073709551616" "header_ok bs opt h"
    and "index < unat (h_section_count h)"
  shows "owp (check_section bs opt h index found)
    (\<lambda>f. \<exists>e. read_entry bs (entry_at h index) = Ret e \<and> section_step bs opt h index found e f)"
  unfolding check_section_def owp_obind
proof (rule read_entry_owp)
  show "entry_at h index + 40 \<le> length bs" by (rule entry_at_bound [OF assms(2,3)])
  fix e assume "read_entry bs (entry_at h index) = Ret e"
  then show "owp (check_entry bs opt h index found e)
      (\<lambda>f. \<exists>e. read_entry bs (entry_at h index) = Ret e \<and> section_step bs opt h index found e f)"
    using check_entry_owp [OF assms, of found e] by (auto elim: owp_mono)
qed

lemma sections_inv_step:
  assumes "length bs < 18446744073709551616" and I: "sections_inv bs opt h i found"
    and e: "read_entry bs (entry_at h i) = Ret e" and st: "section_step bs opt h i found e f"
  shows "sections_inv bs opt h (Suc i) f"
proof -
  obtain es where es: "dir_entries bs h i es" "list_all (entry_ok bs opt h) es"
      "sorted_wrt sections_disjoint es"
      "map payload_of (filter (\<lambda>e. e_tag e = tag_WOVR) es) =
        (case found of None \<Rightarrow> [] | Some p \<Rightarrow> [p])"
    using I by (auto simp: sections_inv_def)
  have ok: "entry_ok bs opt h e" using st by (simp add: section_step_def)
  have dis: "sections_disjoint e' e" if "e' \<in> set es" for e'
  proof -
    obtain j where j: "j < i" "e' = es ! j"
      using \<open>e' \<in> set es\<close> dir_entries_length [OF es(1)] unfolding in_set_conv_nth by blast
    have "payload_ok bs h (e_offset e', e_stored_size e')"
      using es(2) that by (auto simp: list_all_iff entry_ok_def)
    then have "sections_disjoint e e'"
      using ok st dir_entries_nth [OF es(1) j(1)] j assms(1)
      by (intro sections_disjointI) (auto simp: section_step_def no_overlap_before_def entry_ok_def)
    then show ?thesis by (simp add: sections_disjoint_sym)
  qed
  have "map payload_of (filter (\<lambda>e. e_tag e = tag_WOVR) (es @ [e])) =
      (case f of None \<Rightarrow> [] | Some p \<Rightarrow> [p])"
    using es(4) st by (simp add: section_step_def payload_of_def split: if_splits)
  then show ?thesis
    unfolding sections_inv_def using es ok dis dir_entries_snoc [OF es(1) e]
    by (intro exI [of _ "es @ [e]"]) (simp add: sorted_wrt_append)
qed

lemma sections_loop_owp:
  assumes "length bs < 18446744073709551616" "header_ok bs opt h"
  shows "owp (ofor [0..<unat (h_section_count h)] (check_section bs opt h) None)
    (sections_inv bs opt h (unat (h_section_count h)))"
proof (rule ofor_upt_owp)
  show "sections_inv bs opt h 0 None"
    unfolding sections_inv_def by (intro exI [of _ "[]"]) (simp add: dir_entries_def)
  fix i found assume i: "i < unat (h_section_count h)" and I: "sections_inv bs opt h i found"
  show "owp (check_section bs opt h i found) (sections_inv bs opt h (Suc i))"
    using check_section_owp [OF assms i]
  proof (rule owp_mono)
    fix f assume "\<exists>e. read_entry bs (entry_at h i) = Ret e \<and> section_step bs opt h i found e f"
    then obtain e where "read_entry bs (entry_at h i) = Ret e" "section_step bs opt h i found e f"
      by blast
    then show "sections_inv bs opt h (Suc i) f"
      by (rule sections_inv_step [OF assms(1) I])
  qed
qed

text \<open>What acceptance of a container means.\<close>

definition container_ok :: "bytes \<Rightarrow> effective_options \<Rightarrow> wovr_input \<Rightarrow> bool" where
  "container_ok bs opt i \<longleftrightarrow>
     96 \<le> length bs \<and> length bs \<le> unat (maximum_file_bytes opt) \<and> take 4 bs = tag_APTA \<and>
     read_header bs = Ret (wi_header i) \<and> header_ok bs opt (wi_header i) \<and>
     sections_inv bs opt (wi_header i) (unat (h_section_count (wi_header i)))
       (Some (payload_offset i, payload_size i))"

lemma validate_container_owp:
  assumes "length bs < 18446744073709551616"
  shows "owp (apta_validate_container bs opt) (container_ok bs opt)"
proof (cases "96 \<le> length bs")
  case True
  show ?thesis
    unfolding apta_validate_container_def Let_def owp_obind owp_check
    using True assms
    apply (intro impI get_range_owp read_header_owp owp_mono [OF check_header_owp]
        owp_mono [OF sections_loop_owp])
          apply (auto simp: container_ok_def word_less_nat_alt not_less unat_buffer_size)
    done
next
  case False
  then show ?thesis
    using assms by (simp add: apta_validate_container_def word_less_nat_alt unat_buffer_size)
qed

section \<open>Corruption\<close>

text \<open>Overwriting a run of bytes, as a storage fault does.\<close>

definition patch :: "nat \<Rightarrow> bytes \<Rightarrow> bytes \<Rightarrow> bytes" where
  "patch k w bs = take k bs @ w @ drop (k + length w) bs"

lemma length_patch [simp]: "k + length w \<le> length bs \<Longrightarrow> length (patch k w bs) = length bs"
  by (simp add: patch_def)

lemma nth_patch_outside:
  "k + length w \<le> length bs \<Longrightarrow> i < length bs \<Longrightarrow> i < k \<or> k + length w \<le> i \<Longrightarrow>
   patch k w bs ! i = bs ! i"
  by (auto simp: patch_def nth_append)

lemma get_range_cong:
  assumes "length bs = length bs'" "\<And>i. off \<le> i \<Longrightarrow> i < off + n \<Longrightarrow> i < length bs \<Longrightarrow> bs ! i = bs' ! i"
  shows "get_range bs off n = get_range bs' off n"
  using assms by (auto simp: get_range_def intro!: nth_equalityI)

lemma read_entry_cong:
  assumes len: "length bs = length bs'"
    and eq: "\<And>i. at \<le> i \<Longrightarrow> i < at + 40 \<Longrightarrow> i < length bs \<Longrightarrow> bs ! i = bs' ! i"
  shows "read_entry bs at = read_entry bs' at"
proof -
  have "apta_get_u16 bs (at + k) = apta_get_u16 bs' (at + k)" if "k \<le> 38" for k
    using that by (intro get_cong len eq) auto
  moreover have "apta_get_u32 bs (at + k) = apta_get_u32 bs' (at + k)" if "k \<le> 36" for k
    using that by (intro get_cong len eq) auto
  moreover have "apta_get_u64 bs (at + k) = apta_get_u64 bs' (at + k)" if "k \<le> 32" for k
    using that by (intro get_cong len eq) auto
  moreover have "get_range bs at 4 = get_range bs' at 4"
    by (intro get_range_cong len eq) auto
  ultimately show ?thesis by (simp add: read_entry_def)
qed

lemma read_header_cong:
  assumes len: "length bs = length bs'" and eq: "\<And>i. i < 96 \<Longrightarrow> i < length bs \<Longrightarrow> bs ! i = bs' ! i"
  shows "read_header bs = read_header bs'"
proof -
  have "apta_get_u16 bs k = apta_get_u16 bs' k" if "k \<le> 94" for k
    using that by (intro get_cong len eq) auto
  moreover have "apta_get_u32 bs k = apta_get_u32 bs' k" if "k \<le> 92" for k
    using that by (intro get_cong len eq) auto
  moreover have "apta_get_u64 bs k = apta_get_u64 bs' k" if "k \<le> 88" for k
    using that by (intro get_cong len eq) auto
  moreover have "get_range bs 56 32 = get_range bs' 56 32"
    by (intro get_range_cong len eq) auto
  ultimately show ?thesis by (simp add: read_header_def)
qed

text \<open>A patch inside a checksummed run that keeps the checksum changes nothing.\<close>

lemma patch_slice:
  assumes "off \<le> k" "k + length w \<le> off + n" "off + n \<le> length bs"
  shows "take n (drop off (patch k w bs)) =
    take (k - off) (drop off bs) @ w @ take (off + n - (k + length w)) (drop (k + length w) bs)"
    and "take n (drop off bs) =
    take (k - off) (drop off bs) @ take (length w) (drop k bs) @
      take (off + n - (k + length w)) (drop (k + length w) bs)"
proof -
  have "n = (k - off) + (length w + (off + n - (k + length w)))" using assms by simp
  then show "take n (drop off (patch k w bs)) =
    take (k - off) (drop off bs) @ w @ take (off + n - (k + length w)) (drop (k + length w) bs)"
    using assms by (intro nth_equalityI) (auto simp: patch_def nth_append)
  show "take n (drop off bs) =
    take (k - off) (drop off bs) @ take (length w) (drop k bs) @
      take (off + n - (k + length w)) (drop (k + length w) bs)"
    using assms by (intro nth_equalityI) (auto simp: nth_append add.commute)
qed

lemma patch_same_crc:
  assumes "off \<le> k" "k + length w \<le> off + n" "off + n \<le> length bs" "length w \<le> 4"
    and "crc_of (take n (drop off (patch k w bs))) = crc_of (take n (drop off bs))"
  shows "take (length w) (drop k bs) = w"
proof -
  have "length (take (length w) (drop k bs)) = length w" using assms by simp
  then show ?thesis
    using assms(5) crc_of_run_inj [of w "take (length w) (drop k bs)"] assms(4)
    unfolding patch_slice [OF assms(1-3)] by (metis)
qed

lemma container_okD:
  "length bs < 18446744073709551616 \<Longrightarrow> apta_validate_container bs opt = Ret i \<Longrightarrow> container_ok bs opt i"
  using validate_container_owp by (rule owp_Ret)

lemma dir_entries_unique: "dir_entries bs h n es \<Longrightarrow> dir_entries bs h n es' \<Longrightarrow> es = es'"
  unfolding dir_entries_def by (rule map_injective [of Ret]) (auto intro: injI)

lemma container_entry_ok:
  assumes "container_ok bs opt i"
    and "dir_entries bs (wi_header i) (unat (h_section_count (wi_header i))) es" "e \<in> set es"
  shows "entry_ok bs opt (wi_header i) e"
  using assms dir_entries_unique unfolding container_ok_def sections_inv_def list_all_iff by blast

lemma header_patch_crc:
  assumes "container_ok bs opt i" "container_ok (patch k w bs) opt' i'"
    and "k + length w \<le> 92" "length w \<le> 4"
  shows "take (length w) (drop k bs) = w"
proof -
  have "92 \<le> length bs" using assms(1) by (simp add: container_ok_def)
  moreover have "apta_get_u32 (patch k w bs) 92 = apta_get_u32 bs 92"
    using assms(1,3) by (intro get_cong nth_patch_outside) (auto simp: container_ok_def)
  ultimately show ?thesis
    using assms patch_same_crc [of 0 k w 92 bs] by (simp add: container_ok_def header_ok_def)
qed

text \<open>A patch that reaches into the checksum word of the header.\<close>

lemma header_word_patch:
  assumes "container_ok bs opt i" "container_ok (patch k w bs) opt' i'"
    and k: "92 < k + length w" "k + length w \<le> 96" "length w \<le> 4"
  shows "take (length w) (drop k bs) = w"
proof -
  let ?bs = "patch k w bs"
  define m where "m = 92 - k"
  have L: "96 \<le> length bs" using assms(1) by (simp add: container_ok_def)
  have m: "m \<le> 3" "k + length w \<le> 96" using k by (simp_all add: m_def)
  have out: "?bs ! j = bs ! j" if "j < length bs" "j < k \<or> k + length w \<le> j" for j
    using that k L by (intro nth_patch_outside) simp_all
  have len: "length ?bs = length bs" using k L by simp
  have pre: "take (92 - m) ?bs = take (92 - m) bs"
    using len L by (intro nth_equalityI) (auto intro!: out simp: m_def)
  have s: "take 92 cs = take (92 - m) cs @ take m (drop (92 - m) cs)" for cs :: bytes
    using take_add [of "92 - m" m cs] m(1) by simp
  have v: "apta_get_u32 bs 92 = Ret (crc_of (take 92 bs))" "apta_get_u32 ?bs 92 = Ret (crc_of (take 92 ?bs))"
    using assms(1,2) by (simp_all add: container_ok_def header_ok_def)
  have "take m (drop (92 - m) bs) = take m (drop (92 - m) ?bs)"
  proof (rule crc_of_tail_inj)
    fix i assume i: "32 - 8 * length (take m (drop (92 - m) bs)) \<le> i"
    show "bit (crc_of (take (92 - m) bs @ take m (drop (92 - m) bs))) i =
        bit (crc_of (take (92 - m) bs @ take m (drop (92 - m) ?bs))) i"
    proof (cases "i < 32")
      case True
      have "32 - 8 * m \<le> i" using i L m(1) by simp
      then have "4 - m \<le> i div 8" using m(1) by linarith
      then have "k + length w \<le> 92 + i div 8" "92 + i div 8 < 96" using k True by (auto simp: m_def)
      then have "?bs ! (92 + i div 8) = bs ! (92 + i div 8)" using L by (intro out) simp_all
      then show ?thesis
        using get_u32_bit [OF v(1) True] get_u32_bit [OF v(2) True] s [of bs] s [of ?bs] pre by simp
    qed (use bit_imp_le_length in fastforce)
  qed (use len m in simp_all)
  then have "take 92 ?bs = take 92 bs" using s [of bs] s [of ?bs] pre by simp
  then have "apta_get_u32 ?bs 92 = apta_get_u32 bs 92" using v by simp
  then have w4: "take 4 (drop 92 ?bs) = take 4 (drop 92 bs)"
    using u32c.dec_inject [of 92 ?bs 92 bs] L len by simp
  have "take 96 ?bs = take 96 bs"
    using \<open>take 92 ?bs = take 92 bs\<close> w4 take_add [of 92 4 bs] take_add [of 92 4 ?bs] by simp
  then have same: "?bs ! j = bs ! j" if "j < 96" for j using that by (metis nth_take)
  have "bs ! (k + i) = w ! i" if "i < length w" for i
    using same [of "k + i"] that k L by (simp add: patch_def nth_append)
  then show ?thesis using k L by (intro nth_equalityI) simp_all
qed

lemma payload_patch_crc:
  assumes ok: "container_ok bs opt i" and ok': "container_ok (patch k w bs) opt' i'"
    and es: "dir_entries bs (wi_header i) (unat (h_section_count (wi_header i))) es" "e \<in> set es"
    and k: "unat (e_offset e) \<le> k" "k + length w \<le> unat (e_offset e) + unat (e_stored_size e)"
    and w: "length w \<le> 4"
  shows "take (length w) (drop k bs) = w"
proof (cases "w = []")
  case False
  let ?bs = "patch k w bs" and ?h = "wi_header i"
  have eok: "entry_ok bs opt ?h e" using ok es by (rule container_entry_ok)
  then have pok: "payload_ok bs ?h (e_offset e, e_stored_size e)"
    by (simp add: entry_ok_def)
  have off: "unat (e_offset e) + unat (e_stored_size e) \<le> length bs"
    using pok by (simp add: payload_ok_def)
  have len: "length ?bs = length bs" using k off by simp
  have same: "?bs ! j = bs ! j"
    if "j < length bs" "j < unat (h_header_size ?h) \<or>
      unat (h_directory_offset ?h) \<le> j \<and>
      j < unat (h_directory_offset ?h) + unat (h_section_count ?h) * 40" for j
  proof (rule nth_patch_outside)
    have "j \<notin> {unat (e_offset e)..<unat (e_offset e) + unat (e_stored_size e)}"
      using pok that(2) by (auto simp: payload_ok_def disjoint_iff)
    then show "j < k \<or> k + length w \<le> j" using k by auto
  qed (use that k off in auto)
  have h96: "96 \<le> unat (h_header_size ?h)" using ok by (simp add: container_ok_def header_ok_def)
  have "read_header ?bs = read_header bs"
    using h96 len by (intro read_header_cong same) simp_all
  then have hdr: "wi_header i' = ?h" using ok ok' by (simp add: container_ok_def)
  have "read_entry ?bs (entry_at ?h j) = read_entry bs (entry_at ?h j)"
    if "j < unat (h_section_count ?h)" for j
  proof -
    have "(j + 1) * 40 \<le> unat (h_section_count ?h) * 40" using that by (intro mult_le_mono1) simp
    then show ?thesis using len by (intro read_entry_cong same) (auto simp: entry_at_def)
  qed
  then have "dir_entries ?bs ?h (unat (h_section_count ?h)) es"
    using es(1) by (simp add: dir_entries_def cong: map_cong)
  then have "entry_ok ?bs opt' ?h e"
    using container_entry_ok [OF ok', of es e] hdr es(2) by simp
  then show ?thesis
    using eok k w off patch_same_crc [of "unat (e_offset e)" k w "unat (e_stored_size e)" bs]
    by (simp add: entry_ok_def)
qed simp

section \<open>A sample container\<close>

text \<open>The container of a finished one-column overview, as the writer produces it.\<close>

definition sample_container :: bytes where
  "sample_container =
     [65, 80, 84, 65, 96, 0, 1, 0, 1, 0, 0, 0, 0, 0, 64, 0, 0, 0, 0, 0, 1, 0, 0, 0, 96, 0,
      0, 0, 0, 0, 0, 0, 226, 0, 0, 0, 0, 0, 0, 0, 232, 3, 0, 0, 0, 0, 0, 0, 68, 172, 0, 0,
      1, 0, 1, 0, 0, 0, 0, 0, 0, 0, 0, 0, 0, 0, 0, 0, 0, 0, 0, 0, 0, 0, 0, 0, 0, 0, 0, 0,
      0, 0, 0, 0, 0, 0, 0, 0, 0, 0, 0, 0, 164, 62, 61, 83, 87, 79, 86, 82, 1, 0, 1, 0, 136,
      0, 0, 0, 0, 0, 0, 0, 90, 0, 0, 0, 0, 0, 0, 0, 90, 0, 0, 0, 0, 0, 0, 0, 17, 46, 117,
      196, 0, 0, 0, 0, 1, 0, 0, 0, 0, 4, 0, 0, 0, 0, 0, 0, 0, 0, 0, 0, 1, 0, 0, 0, 1, 0, 0,
      0, 48, 0, 0, 0, 0, 0, 0, 0, 80, 0, 0, 0, 0, 0, 0, 0, 4, 0, 0, 0, 0, 0, 0, 0, 0, 0, 0,
      0, 0, 0, 0, 0, 232, 3, 0, 0, 0, 0, 0, 0, 0, 0, 0, 0, 1, 0, 0, 0, 0, 0, 0, 0, 0, 0, 0,
      0, 156, 255, 200, 0, 150, 0, 0, 0, 0, 1]"

definition sample_header :: header where
  "sample_header =
     \<lparr>h_header_size = 96, h_container_version = 1, h_specification_major = 1,
      h_specification_minor = 0, h_producer_api_version = 0x400000, h_container_flags = 0,
      h_section_count = 1, h_directory_offset = 96, h_total_file_size = 226,
      h_total_source_frames = 1000, h_source_sample_rate = 44100, h_source_channel_count = 1,
      h_source_channel_layout = 1, h_fingerprint_kind = 0, h_fingerprint = replicate 32 0\<rparr>"

definition sample_entry :: dir_entry where
  "sample_entry =
     \<lparr>e_tag = tag_WOVR, e_version = 1, e_flags = 1, e_offset = 136, e_stored_size = 90,
      e_logical_size = 90, e_crc = 0xC4752E11, e_reserved = 0\<rparr>"

lemma replicate_32:
  "replicate 32 x = [x, x, x, x, x, x, x, x, x, x, x, x, x, x, x, x,
                     x, x, x, x, x, x, x, x, x, x, x, x, x, x, x, x]"
  by (simp add: numeral_eq_Suc)

lemmas eval_reads = apta_get_u16_def apta_get_u32_def apta_get_u64_def get_u8_def get_range_def
  replicate_32
lemmas eval_crc = crc_of_def apta_internal_crc32c_def crc_byte_unfold crc_bit_def

lemma sample_length: "length sample_container = 226" by (simp add: sample_container_def)

lemma sample_read_header: "read_header sample_container = Ret sample_header"
  by (simp add: read_header_def sample_header_def eval_reads sample_container_def)

lemma sample_check_header: "check_header sample_container default_options sample_header = Ret ()"
  by (simp add: check_header_def sample_header_def sample_container_def default_options_def
      apta_range_fits_def eval_reads eval_crc apta_bytes_are_zero_eq apta_consts)

lemma sample_read_entry: "read_entry sample_container 96 = Ret sample_entry"
  by (simp add: read_entry_def sample_entry_def eval_reads sample_container_def apta_consts)

lemma sample_check_entry:
  "check_entry sample_container default_options sample_header 0 None sample_entry = Ret (Some (136, 90))"
  by (simp add: check_entry_def check_earlier_def sample_header_def sample_entry_def
      sample_container_def default_options_def apta_range_fits_def apta_ranges_overlap_def
      apta_is_standard_section_def eval_reads eval_crc apta_consts)

lemma sample_accepted:
  "apta_validate_container sample_container default_options =
   Ret \<lparr>payload_offset = 136, payload_size = 90, wi_header = sample_header\<rparr>"
proof -
  have "get_range sample_container 0 4 = Ret tag_APTA"
    by (simp add: get_range_def sample_container_def tag_APTA_def)
  moreover have "entry_at sample_header 0 = 96" "unat (h_section_count sample_header) = 1"
    by (simp_all add: entry_at_def sample_header_def)
  ultimately show ?thesis
    using sample_check_header sample_check_entry
    by (simp add: apta_validate_container_def check_section_def sample_length sample_read_header
        sample_read_entry) (simp add: default_options_def sample_header_def)
qed
section \<open>Properties\<close>

text \<open>
  C28: a container that the parser accepts is rejected once at most four consecutive bytes of its
  fixed 96-byte header (the checksum word included) or of the payload of one of its sections are changed.
  Bytes outside both (the section directory, an extension of the header, padding) are not covered.
\<close>
theorem container_burst_rejected:
  assumes acc: "apta_validate_container bs opt = Ret i" and len: "length bs < 18446744073709551616"
    and es: "dir_entries bs (wi_header i) (unat (h_section_count (wi_header i))) es" "e \<in> set es"
    and w: "length w \<le> 4" "take (length w) (drop k bs) \<noteq> w"
    and inside: "k + length w \<le> 96 \<or>
      unat (e_offset e) \<le> k \<and> k + length w \<le> unat (e_offset e) + unat (e_stored_size e)"
  shows "\<exists>s. apta_validate_container (patch k w bs) opt' = Fail s"
proof -
  let ?bs = "patch k w bs" and ?h = "wi_header i"
  have ok: "container_ok bs opt i" using len acc by (rule container_okD)
  have eok: "entry_ok bs opt ?h e" using ok es by (rule container_entry_ok)
  then have off: "unat (e_offset e) + unat (e_stored_size e) \<le> length bs"
    by (simp add: entry_ok_def payload_ok_def)
  have kl: "k + length w \<le> length bs" using inside off ok by (auto simp: container_ok_def)
  have "False" if "apta_validate_container ?bs opt' = Ret i'" for i'
  proof -
    have ok': "container_ok ?bs opt' i'" using kl len that by (intro container_okD) simp_all
    from inside show False
    proof
      assume k: "k + length w \<le> 96"
      then have "take (length w) (drop k bs) = w"
        using header_patch_crc [OF ok ok'] header_word_patch [OF ok ok'] w(1) by (cases "k + length w \<le> 92") simp_all
      with w(2) show False ..
    next
      assume k: "unat (e_offset e) \<le> k \<and> k + length w \<le> unat (e_offset e) + unat (e_stored_size e)"
      then have "take (length w) (drop k bs) = w"
        using payload_patch_crc [OF ok ok' es] w by simp
      with w(2) show False ..
    qed
  qed
  moreover have "apta_validate_container ?bs opt' \<noteq> Fault"
    using validate_container_owp [of ?bs opt'] kl len by (intro owp_not_Fault) simp
  ultimately show ?thesis by (cases "apta_validate_container ?bs opt'") auto
qed

theorem container_burst_rejected_witness:
  "\<exists>s. apta_validate_container (patch 150 [7, 7, 7] sample_container) default_options = Fail s"
proof (rule container_burst_rejected [OF sample_accepted, where e = sample_entry])
  show "dir_entries sample_container
      (wi_header \<lparr>payload_offset = 136, payload_size = 90, wi_header = sample_header\<rparr>)
      (unat (h_section_count
        (wi_header \<lparr>payload_offset = 136, payload_size = 90, wi_header = sample_header\<rparr>)))
      [sample_entry]"
    by (simp add: dir_entries_def sample_read_entry entry_at_def sample_header_def)
  show "take (length [7, 7, 7]) (drop 150 sample_container) \<noteq> [7, 7, 7]"
    by (simp add: sample_container_def)
qed (simp_all add: sample_length sample_entry_def)

end
