(* ===== verification/Apta_Wovr_Reader.thy ===== *)
theory Apta_Wovr_Reader
  imports Apta_Container
begin

text \<open>
  The container parser, second half (\<^verbatim>\<open>src/serialization/apta_wovr_reader.c\<close>): the geometry checks
  on the waveform-overview payload, the construction of the parsed result in context memory,
  and the entry point \<open>apta_result_parse\<close> of this layer.  Acceptance is characterised by
  \<open>geometry_ok\<close>, a statement about the spans and columns themselves, and the allocation
  behaviour by \<open>same_memory\<close>: a failing parse leaves no block behind.
\<close>

section \<open>The overview header\<close>

definition WOVR_STATE_MASK :: u32 where [apta_consts]: "WOVR_STATE_MASK = 7"

record wovr_header =
  w_level_id :: u32
  w_frames_per_column :: u32
  w_origin_frame :: u64
  w_logical_column_count :: u32
  w_span_count :: u32
  w_span_directory_offset :: u64
  w_column_data_offset :: u64
  w_flags :: u32
  w_reserved :: u32

definition read_wovr_header :: "bytes \<Rightarrow> wovr_header outcome" where
  "read_wovr_header pay =
     obind (apta_get_u32 pay 0) (\<lambda>level.
     obind (apta_get_u32 pay 4) (\<lambda>fpc.
     obind (apta_get_u64 pay 8) (\<lambda>origin.
     obind (apta_get_u32 pay 16) (\<lambda>logical.
     obind (apta_get_u32 pay 20) (\<lambda>spans.
     obind (apta_get_u64 pay 24) (\<lambda>span_dir.
     obind (apta_get_u64 pay 32) (\<lambda>col_data.
     obind (apta_get_u32 pay 40) (\<lambda>wflags.
     obind (apta_get_u32 pay 44) (\<lambda>reserved.
     Ret \<lparr>w_level_id = level, w_frames_per_column = fpc, w_origin_frame = origin,
          w_logical_column_count = logical, w_span_count = spans,
          w_span_directory_offset = span_dir, w_column_data_offset = col_data,
          w_flags = wflags, w_reserved = reserved\<rparr>)))))))))"

abbreviation w_state :: "wovr_header \<Rightarrow> u32" where
  "w_state w \<equiv> w_flags w AND WOVR_STATE_MASK"

definition is_strict :: "effective_options \<Rightarrow> bool" where
  "is_strict opt \<longleftrightarrow> eo_flags opt AND APTA_PARSE_STRICT \<noteq> 0"

text \<open>The number of columns that cover \<open>frames\<close> frames: a division rounded up.\<close>

definition required_columns :: "u64 \<Rightarrow> u32 \<Rightarrow> u64" where
  "required_columns frames fpc =
     (let q = frames div ucast fpc
      in if frames mod ucast fpc \<noteq> 0 then q + 1 else q)"

definition check_wovr_header ::
    "bytes \<Rightarrow> effective_options \<Rightarrow> header \<Rightarrow> wovr_header \<Rightarrow> unit outcome" where
  "check_wovr_header pay opt h w =
     obind (check (w_frames_per_column w = 0 \<or> w_logical_column_count w = 0 \<or>
                   w_span_count w = 0) ERROR_CORRUPT_DATA) (\<lambda>_.
     obind (check (maximum_overview_spans opt < w_span_count w \<or>
                   maximum_waveform_columns opt < w_logical_column_count w)
              ERROR_LIMIT_EXCEEDED) (\<lambda>_.
     obind (check (w_flags w AND NOT WOVR_STATE_MASK \<noteq> 0 \<or>
                   w_state w < FEATURE_STATE_PARTIAL \<or> FEATURE_STATE_FINAL < w_state w \<or>
                   is_strict opt \<and> w_reserved w \<noteq> 0) ERROR_CORRUPT_DATA) (\<lambda>_.
     obind (if w_state w = FEATURE_STATE_FINAL
            then check (h_total_source_frames h = APTA_TOTAL_FRAMES_UNKNOWN) ERROR_CORRUPT_DATA
            else check (h_container_flags h AND CONTAINER_FLAG_PARTIAL_RESULT = 0)
                   ERROR_CORRUPT_DATA) (\<lambda>_.
     obind (check (w_span_directory_offset w < 48 \<or> w_column_data_offset w < 48 \<or>
                   \<not> apta_range_fits (w_span_directory_offset w) (ucast (w_span_count w) * 32)
                       (of_nat (length pay))) ERROR_CORRUPT_DATA) (\<lambda>_.
     if h_total_source_frames h \<noteq> APTA_TOTAL_FRAMES_UNKNOWN
     then obind (check (h_total_source_frames h < w_origin_frame w) ERROR_CORRUPT_DATA) (\<lambda>_.
          check (required_columns (h_total_source_frames h - w_origin_frame w)
                   (w_frames_per_column w) \<noteq> ucast (w_logical_column_count w))
            ERROR_CORRUPT_DATA)
     else Ret ())))))"

section \<open>Spans\<close>

record span_entry =
  s_first_frame :: u64
  s_end_frame :: u64
  s_first_column :: u32
  s_column_count :: u32
  s_data_column_offset :: u32
  s_reserved :: u32

definition span_at :: "wovr_header \<Rightarrow> nat \<Rightarrow> nat" where
  "span_at w index = unat (w_span_directory_offset w) + index * 32"

definition read_span_entry :: "bytes \<Rightarrow> nat \<Rightarrow> span_entry outcome" where
  "read_span_entry pay at =
     obind (apta_get_u64 pay at) (\<lambda>first.
     obind (apta_get_u64 pay (at + 8)) (\<lambda>last.
     obind (apta_get_u32 pay (at + 16)) (\<lambda>column.
     obind (apta_get_u32 pay (at + 20)) (\<lambda>count.
     obind (apta_get_u32 pay (at + 24)) (\<lambda>data.
     obind (apta_get_u32 pay (at + 28)) (\<lambda>reserved.
     Ret \<lparr>s_first_frame = first, s_end_frame = last, s_first_column = column,
          s_column_count = count, s_data_column_offset = data, s_reserved = reserved\<rparr>))))))"

definition end_column :: "span_entry \<Rightarrow> u64" where
  "end_column s = ucast (s_first_column s) + ucast (s_column_count s)"

definition data_first :: "wovr_header \<Rightarrow> span_entry \<Rightarrow> u64" where
  "data_first w s = w_column_data_offset w + ucast (s_data_column_offset s) * 10"

text \<open>One packed column.  \<open>minimum > maximum\<close> compares \<open>int16_t\<close> values.\<close>

definition check_column :: "bytes \<Rightarrow> effective_options \<Rightarrow> nat \<Rightarrow> unit outcome" where
  "check_column pay opt at =
     obind (apta_get_i16 pay at) (\<lambda>mn.
     obind (apta_get_i16 pay (at + 2)) (\<lambda>mx.
     obind (get_u8 pay (at + 9)) (\<lambda>fl.
     obind (get_u8 pay (at + 6)) (\<lambda>b6.
     obind (get_u8 pay (at + 7)) (\<lambda>b7.
     obind (get_u8 pay (at + 8)) (\<lambda>b8.
     check (fl AND COLUMN_VALID = 0 \<or> sint mx < sint mn \<or>
            is_strict opt \<and> fl AND NOT COLUMN_FLAG_MASK \<noteq> 0 \<or>
            is_strict opt \<and> fl AND COLUMN_HAS_3BAND = 0 \<and> (b6 \<noteq> 0 \<or> b7 \<noteq> 0 \<or> b8 \<noteq> 0))
       ERROR_CORRUPT_DATA))))))"

text \<open>The loop variables of the span loop.\<close>

record span_state =
  packed_columns :: u64
  previous_end_frame :: u64
  previous_end_column :: u64

text \<open>The body of the span loop up to the column loop, then the whole body.\<close>

definition check_span_frames ::
    "effective_options \<Rightarrow> header \<Rightarrow> wovr_header \<Rightarrow> nat \<Rightarrow> span_state \<Rightarrow> span_entry \<Rightarrow>
     unit outcome" where
  "check_span_frames opt h w index st s =
     (let tot = h_total_source_frames h;
          first_offset = ucast (s_first_column s) * ucast (w_frames_per_column w) :: u64;
          end_offset = end_column s * ucast (w_frames_per_column w)
      in
      obind (check (s_end_frame s \<le> s_first_frame s \<or> s_column_count s = 0 \<or>
                    is_strict opt \<and> s_reserved s \<noteq> 0) ERROR_CORRUPT_DATA) (\<lambda>_.
      obind (check (ucast (w_logical_column_count w) < end_column s \<or>
                    index \<noteq> 0 \<and> (s_first_frame s < previous_end_frame st \<or>
                                 ucast (s_first_column s) < previous_end_column st))
               ERROR_CORRUPT_DATA) (\<lambda>_.
      obind (check (UINT64_MAX - first_offset < w_origin_frame w \<or>
                    UINT64_MAX - end_offset < w_origin_frame w) ERROR_LIMIT_EXCEEDED) (\<lambda>_.
      let expected_first = w_origin_frame w + first_offset;
          expected_end = w_origin_frame w + end_offset
      in
      obind (check (s_first_frame s \<noteq> expected_first) ERROR_CORRUPT_DATA) (\<lambda>_.
      obind (check (s_end_frame s \<noteq> expected_end \<and>
                    (tot = APTA_TOTAL_FRAMES_UNKNOWN \<or> s_end_frame s \<noteq> tot \<or>
                     end_column s \<noteq> ucast (w_logical_column_count w) \<or> expected_end \<le> tot))
               ERROR_CORRUPT_DATA) (\<lambda>_.
      check (tot \<noteq> APTA_TOTAL_FRAMES_UNKNOWN \<and> tot < s_end_frame s) ERROR_CORRUPT_DATA))))))"

definition check_span_data ::
    "bytes \<Rightarrow> wovr_header \<Rightarrow> span_entry \<Rightarrow> unit outcome" where
  "check_span_data pay w s =
     (let first = data_first w s;
          data_bytes = ucast (s_column_count s) * 10 :: u64
      in check (first < w_column_data_offset w \<or>
                \<not> apta_range_fits first data_bytes (of_nat (length pay)) \<or>
                apta_ranges_overlap first data_bytes 0 48 \<or>
                apta_ranges_overlap first data_bytes (w_span_directory_offset w)
                  (ucast (w_span_count w) * 32)) ERROR_CORRUPT_DATA)"

definition column_at :: "wovr_header \<Rightarrow> span_entry \<Rightarrow> nat \<Rightarrow> nat" where
  "column_at w s index = unat (data_first w s) + index * 10"

definition check_span ::
    "bytes \<Rightarrow> effective_options \<Rightarrow> header \<Rightarrow> wovr_header \<Rightarrow> nat \<Rightarrow> span_state \<Rightarrow>
     span_state outcome" where
  "check_span pay opt h w index st =
     obind (read_span_entry pay (span_at w index)) (\<lambda>s.
     obind (check_span_frames opt h w index st s) (\<lambda>_.
     obind (check_span_data pay w s) (\<lambda>_.
     obind (ofor [0..<unat (s_column_count s)]
              (\<lambda>c _. check_column pay opt (column_at w s c)) ()) (\<lambda>_.
     obind (check (ucast (UINT32_MAX - s_column_count s) < packed_columns st)
              ERROR_LIMIT_EXCEEDED) (\<lambda>_.
     let packed = packed_columns st + ucast (s_column_count s)
     in obind (check (ucast (maximum_waveform_columns opt) < packed) ERROR_LIMIT_EXCEEDED) (\<lambda>_.
        Ret \<lparr>packed_columns = packed, previous_end_frame = s_end_frame s,
             previous_end_column = end_column s\<rparr>))))))"

definition apta_validate_wovr_geometry ::
    "bytes \<Rightarrow> effective_options \<Rightarrow> header \<Rightarrow> u32 outcome" where
  "apta_validate_wovr_geometry pay opt h =
     obind (check (of_nat (length pay) < (48 :: u64)) ERROR_CORRUPT_DATA) (\<lambda>_.
     obind (read_wovr_header pay) (\<lambda>w.
     obind (check_wovr_header pay opt h w) (\<lambda>_.
     obind (ofor [0..<unat (w_span_count w)] (check_span pay opt h w)
              \<lparr>packed_columns = 0, previous_end_frame = 0, previous_end_column = 0\<rparr>) (\<lambda>st.
     obind (if w_state w = FEATURE_STATE_FINAL
            then obind (check (previous_end_column st \<noteq> ucast (w_logical_column_count w))
                          ERROR_CORRUPT_DATA) (\<lambda>_.
                 obind (apta_get_u32 pay (unat (w_span_directory_offset w) + 16)) (\<lambda>first.
                 check (first \<noteq> 0) ERROR_CORRUPT_DATA))
            else Ret ()) (\<lambda>_.
     Ret (ucast (packed_columns st)))))))"

section \<open>The parsed result\<close>

definition read_column :: "bytes \<Rightarrow> nat \<Rightarrow> column outcome" where
  "read_column pay at =
     obind (apta_get_i16 pay at) (\<lambda>mn.
     obind (apta_get_i16 pay (at + 2)) (\<lambda>mx.
     obind (apta_get_u16 pay (at + 4)) (\<lambda>r.
     obind (get_u8 pay (at + 6)) (\<lambda>lo.
     obind (get_u8 pay (at + 7)) (\<lambda>mi.
     obind (get_u8 pay (at + 8)) (\<lambda>hi.
     obind (get_u8 pay (at + 9)) (\<lambda>fl.
     Ret \<lparr>minimum = mn, maximum = mx, rms = r, low = lo, mid = mi, high = hi, flags = fl\<rparr>)))))))"

definition build_span :: "bytes \<Rightarrow> wovr_header \<Rightarrow> nat \<Rightarrow> span outcome" where
  "build_span pay w index =
     obind (read_span_entry pay (span_at w index)) (\<lambda>s.
     obind (omap (\<lambda>c. read_column pay (column_at w s c)) [0..<unat (s_column_count s)]) (\<lambda>cols.
     Ret \<lparr>first_frame = s_first_frame s, end_frame = s_end_frame s,
          first_column_index = s_first_column s, column_count = s_column_count s,
          columns = Some cols\<rparr>))"

definition has_3band :: "span \<Rightarrow> bool" where
  "has_3band s = list_ex (\<lambda>c. flags c AND COLUMN_HAS_3BAND \<noteq> 0)
     (case columns s of None \<Rightarrow> [] | Some cs \<Rightarrow> cs)"

text \<open>The fields of the result, filled from the container header and the payload.\<close>

definition fill_result :: "bytes \<Rightarrow> header \<Rightarrow> apta_result outcome" where
  "fill_result pay h =
     obind (read_wovr_header pay) (\<lambda>w.
     obind (omap (build_span pay w) [0..<unat (w_span_count w)]) (\<lambda>ss.
     Ret \<lparr>specification_major = ucast (h_specification_major h),
          specification_minor = ucast (h_specification_minor h),
          producer_api_version = h_producer_api_version h, container_version = 1,
          generation = 1,
          available_features =
            (if list_ex has_3band ss then FEATURE_WAVEFORM_OVERVIEW OR FEATURE_WAVEFORM_3BAND
             else FEATURE_WAVEFORM_OVERVIEW),
          changed_features = FEATURE_WAVEFORM_OVERVIEW,
          session_state =
            (if h_container_flags h AND CONTAINER_FLAG_PARTIAL_RESULT \<noteq> 0 then SESSION_ACTIVE
             else SESSION_COMPLETED),
          total_source_frames = h_total_source_frames h,
          source_sample_rate = h_source_sample_rate h,
          source_channel_count = ucast (h_source_channel_count h),
          source_channel_layout = ucast (h_source_channel_layout h),
          fingerprint_kind = h_fingerprint_kind h, fingerprint = h_fingerprint h,
          overview = \<lparr>level_id = w_level_id w, frames_per_column = w_frames_per_column w,
            origin_frame = w_origin_frame w, state = w_state w,
            confidence = CONFIDENCE_UNKNOWN, span_count = w_span_count w,
            spans = Some ss\<rparr>\<rparr>))"

text \<open>A parsed result and the three blocks it owns.\<close>

record parsed =
  pr_result :: apta_result
  pr_block :: u64
  pr_spans_block :: u64
  pr_columns_block :: u64

definition sizeof_result :: u64 where [apta_consts]: "sizeof_result = 832"
definition sizeof_span :: u64 where [apta_consts]: "sizeof_span = 40"
definition sizeof_column :: u64 where [apta_consts]: "sizeof_column = 10"

definition apta_build_parsed_result ::
    "host_allocator \<Rightarrow> apta_context \<Rightarrow> bytes \<Rightarrow> header \<Rightarrow> effective_options \<Rightarrow> u32 \<Rightarrow>
     parsed outcome \<times> apta_context" where
  "apta_build_parsed_result host ctx pay h opt packed =
     (case apta_get_u32 pay 20 of
        Fault \<Rightarrow> (Fault, ctx) | Fail e \<Rightarrow> (Fail e, ctx)
      | Ret spans_n \<Rightarrow>
          if maximum_allocation_bytes opt <
             sizeof_result + ucast spans_n * sizeof_span + ucast packed * sizeof_column
          then (Fail ERROR_LIMIT_EXCEEDED, ctx)
          else (case apta_internal_context_allocate host ctx sizeof_result 8 of
            (None, ctx1) \<Rightarrow> (Fail ERROR_OUT_OF_MEMORY, ctx1)
          | (Some r, ctx1) \<Rightarrow>
              (case apta_internal_context_allocate host ctx1 (ucast spans_n * sizeof_span) 8 of
                 (None, ctx2) \<Rightarrow>
                   (Fail ERROR_OUT_OF_MEMORY, apta_internal_context_deallocate ctx2 (Some r))
               | (Some sp, ctx2) \<Rightarrow>
                   (case apta_internal_context_allocate host ctx2 (ucast packed * sizeof_column) 2 of
                      (None, ctx3) \<Rightarrow>
                        (Fail ERROR_OUT_OF_MEMORY,
                         apta_internal_context_deallocate
                           (apta_internal_context_deallocate ctx3 (Some sp)) (Some r))
                    | (Some co, ctx3) \<Rightarrow>
                        (obind (fill_result pay h) (\<lambda>res.
                           Ret \<lparr>pr_result = res, pr_block = r, pr_spans_block = sp,
                                pr_columns_block = co\<rparr>),
                         ctx3\<lparr>result_count := result_count ctx3 + 1\<rparr>)))))"

definition wovr_payload :: "bytes \<Rightarrow> wovr_input \<Rightarrow> bytes" where
  "wovr_payload bs i = take (unat (payload_size i)) (drop (unat (payload_offset i)) bs)"

text \<open>The entry point of this layer.  \<open>buffer\<close> is \<open>None\<close> for a null pointer; a null context and
  a null result pointer return before anything else happens and are not represented.\<close>

definition validate_input ::
    "parse_options option \<Rightarrow> bytes option \<Rightarrow> (effective_options \<times> bytes \<times> wovr_input \<times> u32) outcome" where
  "validate_input options buffer =
     (case buffer of
        None \<Rightarrow> Fail ERROR_INVALID_ARGUMENT
      | Some bs \<Rightarrow>
          obind (apta_resolve_parse_options options) (\<lambda>opt.
          obind (apta_validate_container bs opt) (\<lambda>i.
          obind (apta_validate_wovr_geometry (wovr_payload bs i) opt (wi_header i)) (\<lambda>packed.
          Ret (opt, bs, i, packed)))))"

definition apta_result_parse_base ::
    "host_allocator \<Rightarrow> apta_context \<Rightarrow> parse_options option \<Rightarrow> bytes option \<Rightarrow>
     parsed outcome \<times> apta_context" where
  "apta_result_parse_base host ctx options buffer =
     (case validate_input options buffer of
        Fault \<Rightarrow> (Fault, ctx) | Fail e \<Rightarrow> (Fail e, ctx)
      | Ret (opt, bs, i, packed) \<Rightarrow>
          apta_build_parsed_result host ctx (wovr_payload bs i) (wi_header i) opt packed)"

section \<open>What the geometry checks establish\<close>

definition column_ok :: "effective_options \<Rightarrow> column \<Rightarrow> bool" where
  "column_ok opt c \<longleftrightarrow>
     flags c AND COLUMN_VALID \<noteq> 0 \<and> sint (minimum c) \<le> sint (maximum c) \<and>
     (is_strict opt \<longrightarrow> flags c AND NOT COLUMN_FLAG_MASK = 0 \<and>
        (flags c AND COLUMN_HAS_3BAND = 0 \<longrightarrow> low c = 0 \<and> mid c = 0 \<and> high c = 0))"

text \<open>The exact frame interval of a span, computed without wrap-around: the frames of its
  columns, cut off at the end of the source when that is known.\<close>

definition span_end :: "header \<Rightarrow> wovr_header \<Rightarrow> span_entry \<Rightarrow> nat" where
  "span_end h w s =
     (let full = unat (w_origin_frame w) +
            (unat (s_first_column s) + unat (s_column_count s)) * unat (w_frames_per_column w)
      in if h_total_source_frames h = APTA_TOTAL_FRAMES_UNKNOWN then full
         else min full (unat (h_total_source_frames h)))"

definition span_frames_ok :: "header \<Rightarrow> wovr_header \<Rightarrow> span_entry \<Rightarrow> bool" where
  "span_frames_ok h w s \<longleftrightarrow>
     0 < unat (s_column_count s) \<and>
     unat (s_first_column s) + unat (s_column_count s) \<le> unat (w_logical_column_count w) \<and>
     s_first_frame s < s_end_frame s \<and>
     unat (s_first_frame s) =
       unat (w_origin_frame w) + unat (s_first_column s) * unat (w_frames_per_column w) \<and>
     unat (s_end_frame s) = span_end h w s"

definition span_data_ok :: "bytes \<Rightarrow> wovr_header \<Rightarrow> span_entry \<Rightarrow> bool" where
  "span_data_ok pay w s \<longleftrightarrow>
     unat (data_first w s) =
       unat (w_column_data_offset w) + unat (s_data_column_offset s) * 10 \<and>
     48 \<le> unat (data_first w s) \<and>
     unat (data_first w s) + unat (s_column_count s) * 10 \<le> length pay"

definition span_columns_ok ::
    "bytes \<Rightarrow> effective_options \<Rightarrow> wovr_header \<Rightarrow> span_entry \<Rightarrow> bool" where
  "span_columns_ok pay opt w s \<longleftrightarrow>
     (\<forall>k<unat (s_column_count s). \<exists>c. read_column pay (column_at w s k) = Ret c \<and> column_ok opt c)"

definition span_before :: "span_entry \<Rightarrow> span_entry \<Rightarrow> bool" where
  "span_before s s' \<longleftrightarrow>
     s_end_frame s \<le> s_first_frame s' \<and>
     unat (s_first_column s) + unat (s_column_count s) \<le> unat (s_first_column s')"

lemma unat_end_column: "unat (end_column s) = unat (s_first_column s) + unat (s_column_count s)"
  using unat_u32_bound [of "s_first_column s"] unat_u32_bound [of "s_column_count s"]
  by (simp add: end_column_def unat_plus_u64)

lemma unat_times_10 [simp]: "unat (ucast (n :: u32) * 10 :: u64) = unat n * 10"
  using unat_u32_bound [of n] by (simp add: unat_times_u64)

lemma unat_times_32 [simp]: "unat (ucast (n :: u32) * 32 :: u64) = unat n * 32"
  using unat_u32_bound [of n] by (simp add: unat_times_u64)

lemma check_span_frames_owp:
  "owp (check_span_frames opt h w index st s)
     (\<lambda>_. span_frames_ok h w s \<and>
        (index \<noteq> 0 \<longrightarrow> previous_end_frame st \<le> s_first_frame s \<and>
           unat (previous_end_column st) \<le> unat (s_first_column s)))"
proof -
  let ?f = "ucast (w_frames_per_column w) :: u64"
  have f1: "unat (ucast (s_first_column s) * ?f) = unat (s_first_column s) * unat (w_frames_per_column w)"
    by simp
  have f2: "unat (end_column s * ?f) =
      (unat (s_first_column s) + unat (s_column_count s)) * unat (w_frames_per_column w)"
    if "unat (s_first_column s) + unat (s_column_count s) \<le> unat (w_logical_column_count w)"
  proof -
    have "unat (end_column s) * unat ?f \<le>
        unat (w_logical_column_count w) * unat (w_frames_per_column w)"
      using that by (simp add: unat_end_column)
    then have "unat (end_column s) * unat ?f < 18446744073709551616"
      using u32_times_u32_fits by (rule order_le_less_trans)
    then show ?thesis using unat_times_u64 [of "end_column s" ?f] by (simp add: unat_end_column)
  qed
  show ?thesis
    unfolding check_span_frames_def Let_def owp_obind owp_check
  proof (intro impI)
    assume a: "\<not> (s_end_frame s \<le> s_first_frame s \<or> s_column_count s = 0 \<or> is_strict opt \<and> s_reserved s \<noteq> 0)"
      and b: "\<not> (ucast (w_logical_column_count w) < end_column s \<or>
          index \<noteq> 0 \<and> (s_first_frame s < previous_end_frame st \<or>
            ucast (s_first_column s) < previous_end_column st))"
      and c: "\<not> (UINT64_MAX - ucast (s_first_column s) * ?f < w_origin_frame w \<or>
          UINT64_MAX - end_column s * ?f < w_origin_frame w)"
      and d: "\<not> s_first_frame s \<noteq> w_origin_frame w + ucast (s_first_column s) * ?f"
      and e: "\<not> (s_end_frame s \<noteq> w_origin_frame w + end_column s * ?f \<and>
          (h_total_source_frames h = APTA_TOTAL_FRAMES_UNKNOWN \<or>
           s_end_frame s \<noteq> h_total_source_frames h \<or>
           end_column s \<noteq> ucast (w_logical_column_count w) \<or>
           w_origin_frame w + end_column s * ?f \<le> h_total_source_frames h))"
      and g: "\<not> (h_total_source_frames h \<noteq> APTA_TOTAL_FRAMES_UNKNOWN \<and>
          h_total_source_frames h < s_end_frame s)"
    have le: "unat (s_first_column s) + unat (s_column_count s) \<le> unat (w_logical_column_count w)"
      using b by (simp add: word_less_nat_alt unat_end_column)
    have p: "0 < unat (s_column_count s)" using a by (simp add: unat_gt_0)
    have o1: "unat (w_origin_frame w + ucast (s_first_column s) * ?f) =
        unat (w_origin_frame w) + unat (s_first_column s) * unat (w_frames_per_column w)"
      using c unfolding not_less u64_add_guard de_Morgan_disj by (simp add: unat_plus_u64)
    have o2: "unat (w_origin_frame w + end_column s * ?f) = unat (w_origin_frame w) +
        (unat (s_first_column s) + unat (s_column_count s)) * unat (w_frames_per_column w)"
      using c f2 [OF le] unfolding not_less u64_add_guard de_Morgan_disj by (simp add: unat_plus_u64)
    have "unat (s_end_frame s) = span_end h w s"
      using e g o2 by (auto simp: span_end_def Let_def word_less_nat_alt word_le_nat_alt min_def)
    then show "span_frames_ok h w s \<and>
        (index \<noteq> 0 \<longrightarrow> previous_end_frame st \<le> s_first_frame s \<and>
           unat (previous_end_column st) \<le> unat (s_first_column s))"
      using a b d o1 le p by (auto simp: span_frames_ok_def word_less_nat_alt word_le_nat_alt)
  qed
qed

lemma check_span_data_owp:
  assumes "length pay < 18446744073709551616" "48 \<le> unat (w_column_data_offset w)"
  shows "owp (check_span_data pay w s) (\<lambda>_. span_data_ok pay w s)"
proof -
  have guard: "unat (data_first w s) = unat (w_column_data_offset w) + unat (s_data_column_offset s) * 10"
    if "\<not> data_first w s < w_column_data_offset w"
  proof -
    have "unat (w_column_data_offset w) \<le> unat (data_first w s)"
      using that by (simp add: word_less_nat_alt)
    then show ?thesis using unat_u64_bound [of "w_column_data_offset w"]
      unat_u32_bound [of "s_data_column_offset s"]
      by (simp add: data_first_def unat_word_ariths mod_if split: if_splits)
  qed
  show ?thesis
    using assms guard
    by (auto simp: check_span_data_def Let_def span_data_ok_def apta_range_fits_iff unat_buffer_size)
qed

lemma read_column_total:
  assumes "at + 10 \<le> length pay"
  shows "\<exists>c. read_column pay at = Ret c"
  using u16c.dec_in_bounds [of at pay] u16c.dec_in_bounds [of "at + 2" pay]
    u16c.dec_in_bounds [of "at + 4" pay] assms
  by (auto simp: read_column_def apta_get_i16_def get_u8_def)

lemma check_column_eq:
  assumes "read_column pay at = Ret c"
  shows "check_column pay opt at = check (\<not> column_ok opt c) ERROR_CORRUPT_DATA"
  using assms
  by (auto simp: read_column_def check_column_def obind_eq_Ret column_ok_def check_def not_le)

lemma check_column_owp:
  assumes "at + 10 \<le> length pay"
  shows "owp (check_column pay opt at) (\<lambda>_. \<exists>c. read_column pay at = Ret c \<and> column_ok opt c)"
proof -
  obtain c where "read_column pay at = Ret c" using read_column_total [OF assms] ..
  then show ?thesis by (simp add: check_column_eq)
qed

lemma columns_loop_owp:
  assumes "span_data_ok pay w s"
  shows "owp (ofor [0..<unat (s_column_count s)] (\<lambda>c _. check_column pay opt (column_at w s c)) ())
    (\<lambda>_. span_columns_ok pay opt w s)"
proof -
  let ?P = "\<lambda>k. \<exists>c. read_column pay (column_at w s k) = Ret c \<and> column_ok opt c"
  have "owp (ofor [0..<unat (s_column_count s)] (\<lambda>c _. check_column pay opt (column_at w s c)) ())
      ((\<lambda>n _. \<forall>k<n. ?P k) (unat (s_column_count s)))"
  proof (rule ofor_upt_owp)
    fix i u assume i: "i < unat (s_column_count s)" and I: "\<forall>k<i. ?P k"
    have "(i + 1) * 10 \<le> unat (s_column_count s) * 10" using i by (intro mult_le_mono1) simp
    then have "column_at w s i + 10 \<le> length pay"
      using assms by (simp add: span_data_ok_def column_at_def)
    from check_column_owp [OF this, of opt]
    show "owp (check_column pay opt (column_at w s i)) (\<lambda>_. \<forall>k<Suc i. ?P k)"
      using I by (auto elim!: owp_mono simp: less_Suc_eq)
  qed simp
  then show ?thesis by (simp add: span_columns_ok_def)
qed

definition span_list :: "bytes \<Rightarrow> wovr_header \<Rightarrow> nat \<Rightarrow> span_entry list \<Rightarrow> bool" where
  "span_list pay w n ss \<longleftrightarrow> map Ret ss = map (\<lambda>j. read_span_entry pay (span_at w j)) [0..<n]"

definition span_ok ::
    "bytes \<Rightarrow> effective_options \<Rightarrow> header \<Rightarrow> wovr_header \<Rightarrow> span_entry \<Rightarrow> bool" where
  "span_ok pay opt h w s \<longleftrightarrow>
     span_frames_ok h w s \<and> span_data_ok pay w s \<and> span_columns_ok pay opt w s"

text \<open>The invariant of the span loop.\<close>

definition spans_inv ::
    "bytes \<Rightarrow> effective_options \<Rightarrow> header \<Rightarrow> wovr_header \<Rightarrow> nat \<Rightarrow> span_state \<Rightarrow> bool" where
  "spans_inv pay opt h w n st \<longleftrightarrow>
     (\<exists>ss. span_list pay w n ss \<and> list_all (span_ok pay opt h w) ss \<and> sorted_wrt span_before ss \<and>
        unat (packed_columns st) = sum_list (map (unat \<circ> s_column_count) ss) \<and>
        packed_columns st \<le> ucast (maximum_waveform_columns opt) \<and>
        list_all (\<lambda>s. s_end_frame s \<le> previous_end_frame st \<and>
           end_column s \<le> previous_end_column st) ss \<and>
        (ss \<noteq> [] \<longrightarrow> previous_end_column st = end_column (last ss)))"

lemma span_list_length: "span_list pay w n ss \<Longrightarrow> length ss = n"
  by (drule arg_cong [where f = length, OF iffD1 [OF span_list_def]]) simp

lemma span_list_nth:
  assumes "span_list pay w n ss" "j < n"
  shows "read_span_entry pay (span_at w j) = Ret (ss ! j)"
proof -
  have "map Ret ss ! j = map (\<lambda>j. read_span_entry pay (span_at w j)) [0..<n] ! j"
    using assms(1) by (simp only: span_list_def)
  then show ?thesis using assms(2) span_list_length [OF assms(1)] by simp
qed

lemma span_list_snoc:
  "span_list pay w n ss \<Longrightarrow> read_span_entry pay (span_at w n) = Ret s \<Longrightarrow>
   span_list pay w (Suc n) (ss @ [s])"
  by (simp add: span_list_def)

lemma read_span_total:
  assumes "at + 32 \<le> length pay" shows "\<exists>s. read_span_entry pay at = Ret s"
  using u64c.dec_in_bounds [of at pay] u64c.dec_in_bounds [of "at + 8" pay]
    u32c.dec_in_bounds [of "at + 16" pay] u32c.dec_in_bounds [of "at + 20" pay]
    u32c.dec_in_bounds [of "at + 24" pay] u32c.dec_in_bounds [of "at + 28" pay] assms
  by (auto simp: read_span_entry_def)

lemma read_span_fields:
  "read_span_entry pay at = Ret s \<Longrightarrow>
     apta_get_u64 pay at = Ret (s_first_frame s) \<and> apta_get_u64 pay (at + 8) = Ret (s_end_frame s) \<and>
     apta_get_u32 pay (at + 16) = Ret (s_first_column s) \<and>
     apta_get_u32 pay (at + 20) = Ret (s_column_count s) \<and>
     apta_get_u32 pay (at + 24) = Ret (s_data_column_offset s)"
  by (auto simp: read_span_entry_def obind_eq_Ret)

lemma spans_inv_step:
  assumes I: "spans_inv pay opt h w n st" and r: "read_span_entry pay (span_at w n) = Ret s"
    and ok: "span_ok pay opt h w s"
    and prev: "n \<noteq> 0 \<longrightarrow> previous_end_frame st \<le> s_first_frame s \<and>
           unat (previous_end_column st) \<le> unat (s_first_column s)"
    and fit: "\<not> ucast (maximum_waveform_columns opt) < packed_columns st + ucast (s_column_count s)"
    and guard: "\<not> ucast (UINT32_MAX - s_column_count s) < packed_columns st"
  shows "spans_inv pay opt h w (Suc n)
    \<lparr>packed_columns = packed_columns st + ucast (s_column_count s),
     previous_end_frame = s_end_frame s, previous_end_column = end_column s\<rparr>"
proof -
  obtain ss where ss: "span_list pay w n ss" "list_all (span_ok pay opt h w) ss"
      "sorted_wrt span_before ss"
      "unat (packed_columns st) = sum_list (map (unat \<circ> s_column_count) ss)"
      "list_all (\<lambda>s. s_end_frame s \<le> previous_end_frame st \<and>
           end_column s \<le> previous_end_column st) ss"
    using I by (auto simp: spans_inv_def)
  have n: "ss \<noteq> [] \<longrightarrow> n \<noteq> 0" using span_list_length [OF ss(1)] by auto
  have "unat (packed_columns st) \<le> unat (UINT32_MAX - s_column_count s)"
    using guard by (simp add: word_less_nat_alt)
  then have pk: "unat (packed_columns st + ucast (s_column_count s)) =
      unat (packed_columns st) + unat (s_column_count s)"
    using unat_u32_bound [of "UINT32_MAX - s_column_count s"] unat_u32_bound [of "s_column_count s"]
    by (intro trans [OF unat_plus_u64]) simp_all
  have before: "span_before t s \<and> s_end_frame t \<le> s_end_frame s \<and> end_column t \<le> end_column s"
    if "t \<in> set ss" for t
  proof -
    have t: "s_end_frame t \<le> previous_end_frame st" "end_column t \<le> previous_end_column st" "n \<noteq> 0"
      using ss(5) that n by (auto simp: list_all_iff)
    moreover have "s_first_frame s < s_end_frame s"
      using ok by (simp add: span_ok_def span_frames_ok_def)
    ultimately show ?thesis
      using prev by (auto simp: span_before_def word_le_nat_alt word_less_nat_alt unat_end_column)
  qed
  show ?thesis
    unfolding spans_inv_def
    using ss ok before pk fit span_list_snoc [OF ss(1) r]
    by (intro exI [of _ "ss @ [s]"]) (auto simp: list_all_iff sorted_wrt_append not_less)
qed

lemma check_span_owp:
  assumes len: "length pay < 18446744073709551616" and cd: "48 \<le> unat (w_column_data_offset w)"
    and at: "span_at w n + 32 \<le> length pay" and I: "spans_inv pay opt h w n st"
  shows "owp (check_span pay opt h w n st) (spans_inv pay opt h w (Suc n))"
proof -
  obtain s where s: "read_span_entry pay (span_at w n) = Ret s" using read_span_total [OF at] ..
  show ?thesis
    unfolding check_span_def Let_def owp_obind owp_check s owp.simps
  proof (rule owp_mono [OF check_span_frames_owp], rule owp_mono [OF check_span_data_owp [OF len cd]])
    fix u v
    assume f: "span_frames_ok h w s \<and> (n \<noteq> 0 \<longrightarrow> previous_end_frame st \<le> s_first_frame s \<and>
           unat (previous_end_column st) \<le> unat (s_first_column s))"
      and d: "span_data_ok pay w s"
    show "owp (ofor [0..<unat (s_column_count s)]
           (\<lambda>c _. check_column pay opt (column_at w s c)) ())
       (\<lambda>_. \<not> ucast (UINT32_MAX - s_column_count s) < packed_columns st \<longrightarrow>
           \<not> ucast (maximum_waveform_columns opt) < packed_columns st + ucast (s_column_count s) \<longrightarrow>
           spans_inv pay opt h w (Suc n)
            \<lparr>packed_columns = packed_columns st + ucast (s_column_count s),
               previous_end_frame = s_end_frame s, previous_end_column = end_column s\<rparr>)"
      using columns_loop_owp [OF d, of opt]
      by (rule owp_mono) (use f d s I in \<open>auto intro!: spans_inv_step simp: span_ok_def\<close>)
  qed
qed

definition wovr_header_ok :: "bytes \<Rightarrow> effective_options \<Rightarrow> header \<Rightarrow> wovr_header \<Rightarrow> bool" where
  "wovr_header_ok pay opt h w \<longleftrightarrow>
     w_frames_per_column w \<noteq> 0 \<and> w_logical_column_count w \<noteq> 0 \<and> w_span_count w \<noteq> 0 \<and>
     w_span_count w \<le> maximum_overview_spans opt \<and>
     w_logical_column_count w \<le> maximum_waveform_columns opt \<and>
     FEATURE_STATE_PARTIAL \<le> w_state w \<and> w_state w \<le> FEATURE_STATE_FINAL \<and>
     (w_state w = FEATURE_STATE_FINAL \<longrightarrow> h_total_source_frames h \<noteq> APTA_TOTAL_FRAMES_UNKNOWN) \<and>
     48 \<le> unat (w_span_directory_offset w) \<and> 48 \<le> unat (w_column_data_offset w) \<and>
     unat (w_span_directory_offset w) + unat (w_span_count w) * 32 \<le> length pay \<and>
     (h_total_source_frames h \<noteq> APTA_TOTAL_FRAMES_UNKNOWN \<longrightarrow>
        w_origin_frame w \<le> h_total_source_frames h \<and>
        required_columns (h_total_source_frames h - w_origin_frame w) (w_frames_per_column w) =
          ucast (w_logical_column_count w))"

lemma check_wovr_header_owp:
  "length pay < 18446744073709551616 \<Longrightarrow>
   owp (check_wovr_header pay opt h w) (\<lambda>_. wovr_header_ok pay opt h w)"
  unfolding check_wovr_header_def
  by (auto simp: wovr_header_ok_def apta_range_fits_iff unat_buffer_size not_less word_le_nat_alt
      word_less_nat_alt)

lemma read_wovr_header_total:
  assumes "48 \<le> length pay" shows "\<exists>w. read_wovr_header pay = Ret w"
  using u32c.dec_in_bounds [of 0 pay] u32c.dec_in_bounds [of 4 pay] u64c.dec_in_bounds [of 8 pay]
    u32c.dec_in_bounds [of 16 pay] u32c.dec_in_bounds [of 20 pay] u64c.dec_in_bounds [of 24 pay]
    u64c.dec_in_bounds [of 32 pay] u32c.dec_in_bounds [of 40 pay] u32c.dec_in_bounds [of 44 pay]
    assms
  by (auto simp: read_wovr_header_def)

text \<open>What acceptance of the overview payload means.\<close>

definition geometry_ok ::
    "bytes \<Rightarrow> effective_options \<Rightarrow> header \<Rightarrow> wovr_header \<Rightarrow> span_entry list \<Rightarrow> u32 \<Rightarrow> bool" where
  "geometry_ok pay opt h w ss packed \<longleftrightarrow>
     read_wovr_header pay = Ret w \<and> wovr_header_ok pay opt h w \<and>
     span_list pay w (unat (w_span_count w)) ss \<and>
     list_all (span_ok pay opt h w) ss \<and> sorted_wrt span_before ss \<and>
     unat packed = sum_list (map (unat \<circ> s_column_count) ss) \<and>
     packed \<le> maximum_waveform_columns opt \<and>
     (w_state w = FEATURE_STATE_FINAL \<longrightarrow>
        s_first_column (hd ss) = 0 \<and> end_column (last ss) = ucast (w_logical_column_count w))"

lemma span_loop_owp:
  assumes "length pay < 18446744073709551616" and ok: "wovr_header_ok pay opt h w"
  shows "owp (ofor [0..<unat (w_span_count w)] (check_span pay opt h w)
              \<lparr>packed_columns = 0, previous_end_frame = 0, previous_end_column = 0\<rparr>)
    (spans_inv pay opt h w (unat (w_span_count w)))"
proof (rule ofor_upt_owp)
  show "spans_inv pay opt h w 0
      \<lparr>packed_columns = 0, previous_end_frame = 0, previous_end_column = 0\<rparr>"
    unfolding spans_inv_def by (intro exI [of _ "[]"]) (simp add: span_list_def)
  fix i st assume i: "i < unat (w_span_count w)" and I: "spans_inv pay opt h w i st"
  have "(i + 1) * 32 \<le> unat (w_span_count w) * 32" using i by (intro mult_le_mono1) simp
  then show "owp (check_span pay opt h w i st) (spans_inv pay opt h w (Suc i))"
    using ok assms(1) I by (intro check_span_owp) (auto simp: wovr_header_ok_def span_at_def)
qed

lemma validate_geometry_owp:
  assumes len: "length pay < 18446744073709551616"
  shows "owp (apta_validate_wovr_geometry pay opt h) (\<lambda>packed. \<exists>w ss. geometry_ok pay opt h w ss packed)"
proof (cases "48 \<le> length pay")
  case True
  obtain w where w: "read_wovr_header pay = Ret w" using read_wovr_header_total [OF True] ..
  let ?n = "unat (w_span_count w)"
  have fin: "\<exists>w ss. geometry_ok pay opt h w ss (ucast (packed_columns st))"
    if ok: "wovr_header_ok pay opt h w" and I: "spans_inv pay opt h w ?n st"
      and f: "w_state w = FEATURE_STATE_FINAL \<longrightarrow> previous_end_column st = ucast (w_logical_column_count w) \<and>
        apta_get_u32 pay (unat (w_span_directory_offset w) + 16) = Ret 0" for st
  proof -
    obtain ss where ss: "span_list pay w ?n ss" "list_all (span_ok pay opt h w) ss"
      "sorted_wrt span_before ss"
      "unat (packed_columns st) = sum_list (map (unat \<circ> s_column_count) ss)"
      "packed_columns st \<le> ucast (maximum_waveform_columns opt)"
      "ss \<noteq> [] \<longrightarrow> previous_end_column st = end_column (last ss)"
      using I by (auto simp: spans_inv_def)
    have n: "0 < ?n" using ok by (simp add: wovr_header_ok_def unat_gt_0)
    then have ne: "ss \<noteq> []" using span_list_length [OF ss(1)] by auto
    have le: "unat (packed_columns st) \<le> unat (maximum_waveform_columns opt)"
      using ss(5) by (simp add: word_le_nat_alt)
    then have pk: "unat (ucast (packed_columns st) :: u32) = unat (packed_columns st)"
      using unat_u32_bound [of "maximum_waveform_columns opt"]
      by (simp add: unsigned_ucast_eq take_bit_nat_eq_self)
    have "read_span_entry pay (unat (w_span_directory_offset w)) = Ret (hd ss)"
      using span_list_nth [OF ss(1) n] ne by (simp add: span_at_def hd_conv_nth)
    then have "apta_get_u32 pay (unat (w_span_directory_offset w) + 16) = Ret (s_first_column (hd ss))"
      by (simp add: read_span_fields)
    then show ?thesis
      using w ok ss le pk f ne 
      by (intro exI [of _ w] exI [of _ ss]) (auto simp: geometry_ok_def word_le_nat_alt)
  qed
  have at: "unat (w_span_directory_offset w) + 16 + 4 \<le> length pay" if "wovr_header_ok pay opt h w"
  proof -
    have "0 < ?n" using that by (simp add: wovr_header_ok_def unat_gt_0)
    then have "1 * 32 \<le> ?n * 32" by (intro mult_le_mono1) (simp add: Suc_le_eq)
    then show ?thesis using that by (simp add: wovr_header_ok_def)
  qed
  show ?thesis
    unfolding apta_validate_wovr_geometry_def owp_obind owp_check w owp.simps owp_if
    apply (intro impI owp_mono [OF check_wovr_header_owp [OF len]] owp_mono [OF span_loop_owp [OF len]]
        conjI u32c.dec_owp at)
    using fin by (auto simp: w)
next
  case False
  then show ?thesis
    using len by (simp add: apta_validate_wovr_geometry_def word_less_nat_alt unat_buffer_size)
qed

section \<open>The parsed overview\<close>

text \<open>Well-formedness of an overview, stated on the result a caller sees.\<close>

definition span_wf :: "effective_options \<Rightarrow> apta_result \<Rightarrow> span \<Rightarrow> bool" where
  "span_wf opt r s \<longleftrightarrow>
     (\<exists>cs. columns s = Some cs \<and> length cs = unat (column_count s) \<and> cs \<noteq> [] \<and>
        list_all (column_ok opt) cs) \<and>
     first_frame s < end_frame s \<and>
     unat (first_frame s) = unat (origin_frame (overview r)) +
       unat (first_column_index s) * unat (frames_per_column (overview r)) \<and>
     unat (end_frame s) =
       (let full = unat (origin_frame (overview r)) +
              (unat (first_column_index s) + unat (column_count s)) *
                unat (frames_per_column (overview r))
        in if total_source_frames r = APTA_TOTAL_FRAMES_UNKNOWN then full
           else min full (unat (total_source_frames r)))"

definition span_precedes :: "span \<Rightarrow> span \<Rightarrow> bool" where
  "span_precedes s s' \<longleftrightarrow>
     end_frame s \<le> first_frame s' \<and>
     unat (first_column_index s) + unat (column_count s) \<le> unat (first_column_index s')"

definition overview_wf :: "effective_options \<Rightarrow> apta_result \<Rightarrow> bool" where
  "overview_wf opt r \<longleftrightarrow>
     frames_per_column (overview r) \<noteq> 0 \<and>
     FEATURE_STATE_PARTIAL \<le> state (overview r) \<and> state (overview r) \<le> FEATURE_STATE_FINAL \<and>
     (\<exists>ss. spans (overview r) = Some ss \<and> ss \<noteq> [] \<and> length ss = unat (span_count (overview r)) \<and>
        list_all (span_wf opt r) ss \<and> sorted_wrt span_precedes ss)"

text \<open>A span of the result beside the directory entry it was built from.\<close>

definition span_of :: "effective_options \<Rightarrow> span_entry \<Rightarrow> span \<Rightarrow> bool" where
  "span_of opt s sp \<longleftrightarrow>
     first_frame sp = s_first_frame s \<and> end_frame sp = s_end_frame s \<and>
     first_column_index sp = s_first_column s \<and> column_count sp = s_column_count s \<and>
     (\<exists>cs. columns sp = Some cs \<and> length cs = unat (s_column_count s) \<and> list_all (column_ok opt) cs)"

lemma build_span_owp:
  assumes r: "read_span_entry pay (span_at w j) = Ret s" and ok: "span_ok pay opt h w s"
  shows "\<exists>sp. build_span pay w j = Ret sp \<and> span_of opt s sp"
proof -
  let ?n = "unat (s_column_count s)"
  define cs where "cs = map (\<lambda>k. SOME c. read_column pay (column_at w s k) = Ret c \<and> column_ok opt c) [0..<?n]"
  have c: "read_column pay (column_at w s k) = Ret (cs ! k) \<and> column_ok opt (cs ! k)" if "k < ?n" for k
  proof -
    have "\<exists>c. read_column pay (column_at w s k) = Ret c \<and> column_ok opt c"
      using ok that by (simp add: span_ok_def span_columns_ok_def)
    from someI_ex [OF this] show ?thesis using that by (simp add: cs_def)
  qed
  have len: "length cs = ?n" by (simp add: cs_def)
  have "omap (\<lambda>c. read_column pay (column_at w s c)) [0..<?n] = Ret cs"
    unfolding omap_eq_Ret using c len by (intro nth_equalityI) simp_all
  moreover have "list_all (column_ok opt) cs" using c len by (simp add: list_all_length)
  ultimately show ?thesis using len by (simp add: build_span_def r span_of_def)
qed

lemma build_spans:
  assumes "span_list pay w n ss" "list_all (span_ok pay opt h w) ss"
  shows "\<exists>sps. omap (build_span pay w) [0..<n] = Ret sps \<and> list_all2 (span_of opt) ss sps"
proof -
  have len: "length ss = n" by (rule span_list_length [OF assms(1)])
  have "\<exists>sp. build_span pay w j = Ret sp \<and> span_of opt (ss ! j) sp" if "j < n" for j
    using span_list_nth [OF assms(1) that] assms(2) that len
    by (intro build_span_owp) (auto simp: list_all_length)
  then obtain f where f: "\<And>j. j < n \<Longrightarrow> build_span pay w j = Ret (f j) \<and> span_of opt (ss ! j) (f j)"
    by metis
  then have "omap (build_span pay w) [0..<n] = Ret (map f [0..<n])"
    by (simp add: omap_eq_Ret)
  then show ?thesis using f len by (intro exI [of _ "map f [0..<n]"]) (simp add: list_all2_conv_all_nth)
qed

lemma fill_result_wf:
  assumes g: "geometry_ok pay opt h w ss packed"
  shows "\<exists>r sps. fill_result pay h = Ret r \<and> spans (overview r) = Some sps \<and>
    list_all2 (span_of opt) ss sps \<and> overview_wf opt r \<and>
    total_source_frames r = h_total_source_frames h \<and> state (overview r) = w_state w \<and>
    origin_frame (overview r) = w_origin_frame w"
proof -
  have sl: "span_list pay w (unat (w_span_count w)) ss" and ok: "list_all (span_ok pay opt h w) ss"
    and w: "read_wovr_header pay = Ret w" and wok: "wovr_header_ok pay opt h w"
    and srt: "sorted_wrt span_before ss"
    using g by (simp_all add: geometry_ok_def)
  obtain sps where sps: "omap (build_span pay w) [0..<unat (w_span_count w)] = Ret sps"
      "list_all2 (span_of opt) ss sps"
    using build_spans [OF sl ok] by blast
  obtain r where r: "fill_result pay h = Ret r" "spans (overview r) = Some sps"
      "total_source_frames r = h_total_source_frames h" "state (overview r) = w_state w"
      "origin_frame (overview r) = w_origin_frame w"
      "frames_per_column (overview r) = w_frames_per_column w"
      "span_count (overview r) = w_span_count w"
    by (simp add: fill_result_def w sps(1))
  have len: "length sps = unat (w_span_count w)" "length ss = length sps"
    using span_list_length [OF sl] list_all2_lengthD [OF sps(2)] by simp_all
  have "span_wf opt r (sps ! k)" if "k < length sps" for k
  proof -
    have "span_of opt (ss ! k) (sps ! k)" using sps(2) that by (simp add: list_all2_conv_all_nth)
    moreover have "span_frames_ok h w (ss ! k)"
      using ok that len by (simp add: list_all_length span_ok_def)
    ultimately show ?thesis
      using r by (auto simp: span_wf_def span_of_def span_frames_ok_def span_end_def Let_def)
  qed
  moreover have "sorted_wrt span_precedes sps"
    using srt sps(2) len
    by (auto simp: sorted_wrt_iff_nth_less list_all2_conv_all_nth span_before_def span_precedes_def
        span_of_def)
  moreover have "sps \<noteq> []" using len wok by (auto simp: wovr_header_ok_def unat_eq_0)
  ultimately have "overview_wf opt r"
    using r len wok by (auto simp: overview_wf_def list_all_length wovr_header_ok_def)
  then show ?thesis using r sps by blast
qed
section \<open>Memory of a parse\<close>

text \<open>The memory after a successful parse: three more blocks and one more live result.\<close>

definition parsed_memory :: "apta_context \<Rightarrow> parsed \<Rightarrow> apta_context \<Rightarrow> bool" where
  "parsed_memory ctx p ctx' \<longleftrightarrow>
     (\<exists>hr hs hc. ctx' = ctx\<lparr>
        allocated_bytes := allocated_bytes ctx + requested_size hr + requested_size hs + requested_size hc,
        host_calls := host_calls ctx', result_count := result_count ctx + 1,
        headers := [(pr_columns_block p, hc), (pr_spans_block p, hs), (pr_block p, hr)] @ headers ctx\<rparr>)"

lemma build_parsed_result_cases:
  assumes f: "fill_result pay h = Ret r"
    and w: "apta_get_u32 pay 20 = Ret n"
  shows "case apta_build_parsed_result host ctx pay h opt packed of
     (Ret p, ctx') \<Rightarrow> pr_result p = r \<and> parsed_memory ctx p ctx'
   | (Fail e, ctx') \<Rightarrow> e \<in> {ERROR_LIMIT_EXCEEDED, ERROR_OUT_OF_MEMORY} \<and> same_memory ctx ctx'
   | (Fault, ctx') \<Rightarrow> False"
proof -
  consider (limit) "maximum_allocation_bytes opt <
             sizeof_result + ucast n * sizeof_span + ucast packed * sizeof_column"
    | (a0) c1 where "\<not> maximum_allocation_bytes opt <
             sizeof_result + ucast n * sizeof_span + ucast packed * sizeof_column"
        "apta_internal_context_allocate host ctx sizeof_result 8 = (None, c1)"
    | (a1) r1 c1 c2 where "\<not> maximum_allocation_bytes opt <
             sizeof_result + ucast n * sizeof_span + ucast packed * sizeof_column"
        "apta_internal_context_allocate host ctx sizeof_result 8 = (Some r1, c1)"
        "apta_internal_context_allocate host c1 (ucast n * sizeof_span) 8 = (None, c2)"
    | (a2) r1 c1 s1 c2 x3 c3 where "\<not> maximum_allocation_bytes opt <
             sizeof_result + ucast n * sizeof_span + ucast packed * sizeof_column"
        "apta_internal_context_allocate host ctx sizeof_result 8 = (Some r1, c1)"
        "apta_internal_context_allocate host c1 (ucast n * sizeof_span) 8 = (Some s1, c2)"
        "apta_internal_context_allocate host c2 (ucast packed * sizeof_column) 2 = (x3, c3)"
    by (metis not_None_eq surj_pair)
  then show ?thesis
  proof cases
    case limit
    then show ?thesis by (simp add: apta_build_parsed_result_def w)
  next
    case a0
    then show ?thesis
      using context_allocate_None [OF a0(2)] by (simp add: apta_build_parsed_result_def w)
  next
    case a1
    obtain hr where "block_added r1 hr ctx c1" using context_allocate_Some [OF a1(2)] ..
    from same_memory_free [OF this context_allocate_None [OF a1(3)]]
    show ?thesis using a1 by (simp add: apta_build_parsed_result_def w)
  next
    case a2
    obtain hr where hr: "block_added r1 hr ctx c1" using context_allocate_Some [OF a2(2)] ..
    obtain hs where hs: "block_added s1 hs c1 c2" using context_allocate_Some [OF a2(3)] ..
    show ?thesis
    proof (cases x3)
      case None
      with a2(4) have "same_memory c2 c3" by (intro context_allocate_None) simp
      from same_memory_free_added [OF hr same_memory_refl hs this]
      show ?thesis using a2 None by (simp add: apta_build_parsed_result_def w)
    next
      case (Some co)
      with a2(4) obtain hc where "block_added co hc c2 c3" using context_allocate_Some by blast
      with hr hs have "parsed_memory ctx \<lparr>pr_result = r, pr_block = r1, pr_spans_block = s1,
          pr_columns_block = co\<rparr> (c3\<lparr>result_count := result_count c3 + 1\<rparr>)"
        unfolding block_added_def parsed_memory_def
        by (intro exI [of _ hr] exI [of _ hs] exI [of _ hc]) (cases ctx; cases c1; cases c2; cases c3; auto)
      then show ?thesis using a2 Some f by (simp add: apta_build_parsed_result_def w)
    qed
  qed
qed

text \<open>The whole layer: no access outside the buffer, a well-formed result or an error that
  leaves nothing behind.\<close>

lemma validate_input_owp:
  assumes "length bs < 18446744073709551616"
  shows "owp (validate_input options (Some bs)) (\<lambda>(opt, bs', i, packed). bs' = bs \<and>
     apta_resolve_parse_options options = Ret opt \<and> container_ok bs opt i \<and>
     (\<exists>w ss. geometry_ok (wovr_payload bs i) opt (wi_header i) w ss packed))"
proof -
  have res: "apta_resolve_parse_options options \<noteq> Fault"
    unfolding owp_trivial_iff [symmetric]
    by (auto simp: apta_resolve_parse_options_def split: option.split)
  have len: "length (wovr_payload bs i) < 18446744073709551616" for i
    using assms by (simp add: wovr_payload_def)
  show ?thesis
    unfolding validate_input_def option.case owp_obind
    apply (rule owpI [OF res])
    apply (rule owp_mono [OF validate_container_owp [OF assms]])
    apply (rule owp_mono [OF validate_geometry_owp [OF len]])
    apply simp
    done
qed
end
