(* ===== verification/Apta_Wovr_Hardening.thy ===== *)
theory Apta_Wovr_Hardening
  imports Apta_Wovr_Reader "HOL-Library.Multiset"
begin

text \<open>
  The second parser layer (\<^verbatim>\<open>src/serialization/apta_wovr_reader_hardening.c\<close>).  It runs after the
  base parser has accepted the buffer: a final overview must cover the source without a gap, and
  the packed column data of the spans must not overlap, whatever the order of the spans.  On a
  violation the parsed result is released again.
\<close>

section \<open>Sorting the packed intervals\<close>

type_synonym interval = "u64 \<times> u64"

definition apta_compare_packed_intervals :: "interval \<Rightarrow> interval \<Rightarrow> int" where
  "apta_compare_packed_intervals l r =
     (if fst l < fst r then -1 else if fst r < fst l then 1
      else if snd l < snd r then -1 else if snd r < snd l then 1 else 0)"

text \<open>\<open>qsort\<close> of the C library, as an insertion sort by the caller's comparison function.  A
  comparison function that is a linear order determines the result, so the choice of algorithm
  is immaterial (\<open>qsort_unique\<close>).\<close>

fun insert_by :: "('a \<Rightarrow> 'a \<Rightarrow> int) \<Rightarrow> 'a \<Rightarrow> 'a list \<Rightarrow> 'a list" where
  "insert_by cmp x [] = [x]"
| "insert_by cmp x (y # ys) = (if cmp x y \<le> 0 then x # y # ys else y # insert_by cmp x ys)"

definition qsort :: "('a \<Rightarrow> 'a \<Rightarrow> int) \<Rightarrow> 'a list \<Rightarrow> 'a list" where
  "qsort cmp xs = foldr (insert_by cmp) xs []"

locale comparison =
  fixes cmp :: "'a \<Rightarrow> 'a \<Rightarrow> int"
  assumes cmp_total: "cmp x y \<le> 0 \<or> cmp y x \<le> 0"
    and cmp_trans: "cmp x y \<le> 0 \<Longrightarrow> cmp y z \<le> 0 \<Longrightarrow> cmp x z \<le> 0"
    and cmp_antisym: "cmp x y \<le> 0 \<Longrightarrow> cmp y x \<le> 0 \<Longrightarrow> x = y"
begin

lemma mset_insert_by: "mset (insert_by cmp x ys) = add_mset x (mset ys)"
  by (induction ys) simp_all

lemma sorted_insert_by:
  "sorted_wrt (\<lambda>x y. cmp x y \<le> 0) ys \<Longrightarrow> sorted_wrt (\<lambda>x y. cmp x y \<le> 0) (insert_by cmp x ys)"
proof (induction ys)
  case (Cons y ys)
  have set: "set (insert_by cmp x ys) = insert x (set ys)"
    using mset_insert_by [of x ys] by (metis set_mset_add_mset_insert set_mset_mset)
  show ?case
  proof (cases "cmp x y \<le> 0")
    case True
    then show ?thesis using Cons.prems cmp_trans by auto
  next
    case False
    then have "cmp y x \<le> 0" using cmp_total by blast
    then show ?thesis using Cons False set by auto
  qed
qed simp

lemma mset_qsort: "mset (qsort cmp xs) = mset xs"
  by (induction xs) (simp_all add: qsort_def mset_insert_by)

lemma sorted_qsort: "sorted_wrt (\<lambda>x y. cmp x y \<le> 0) (qsort cmp xs)"
  by (induction xs) (simp_all add: qsort_def sorted_insert_by)

lemma sorted_unique:
  assumes "mset ys = mset zs" "sorted_wrt (\<lambda>x y. cmp x y \<le> 0) ys" "sorted_wrt (\<lambda>x y. cmp x y \<le> 0) zs"
  shows "ys = zs"
  using assms
proof (induction ys arbitrary: zs)
  case (Cons y ys)
  then obtain z zs' where z: "zs = z # zs'" by (cases zs) auto
  have "z = y"
  proof (rule ccontr)
    assume ne: "z \<noteq> y"
    have "z \<in> set (y # ys)" "y \<in> set zs"
      using Cons.prems(1) z by (metis list.set_intros(1) mset_eq_setD)+
    then have "cmp y z \<le> 0" "cmp z y \<le> 0"
      using ne Cons.prems(2,3) z by auto
    then show False using cmp_antisym ne by blast
  qed
  then show ?case using Cons z by simp
qed simp

lemma qsort_unique:
  "mset ys = mset xs \<Longrightarrow> sorted_wrt (\<lambda>x y. cmp x y \<le> 0) ys \<Longrightarrow> ys = qsort cmp xs"
  by (rule sorted_unique) (simp_all add: mset_qsort sorted_qsort)

end

interpretation packed: comparison apta_compare_packed_intervals
  by unfold_locales (auto simp: apta_compare_packed_intervals_def prod_eq_iff split: if_splits)

section \<open>The hardening pass\<close>

fun find_wovr :: "bytes \<Rightarrow> nat \<Rightarrow> nat list \<Rightarrow> u64 option outcome" where
  "find_wovr bs directory [] = Ret None"
| "find_wovr bs directory (index # rest) =
     obind (get_range bs (directory + index * 40) 4) (\<lambda>t.
       if t = tag_WOVR
       then obind (apta_get_u64 bs (directory + index * 40 + 8)) (\<lambda>off. Ret (Some off))
       else find_wovr bs directory rest)"

definition apta_find_wovr_payload :: "bytes \<Rightarrow> u64 option outcome" where
  "apta_find_wovr_payload bs =
     obind (apta_get_u32 bs 20) (\<lambda>section_count.
     obind (apta_get_u64 bs 24) (\<lambda>directory_offset.
     find_wovr bs (unat directory_offset) [0..<unat section_count]))"

definition apta_internal_size_array_fits :: "usize \<Rightarrow> usize \<Rightarrow> usize \<Rightarrow> bool" where
  "apta_internal_size_array_fits base_size element_count element_size \<longleftrightarrow>
     element_size = 0 \<or> element_count \<le> (SIZE_MAX - base_size) div element_size"

text \<open>The loop over the spans: the intervals filled so far and the end of the previous span.\<close>

record harden_state =
  intervals :: "interval list"
  hs_end_frame :: u64
  hs_end_column :: u64

definition harden_span :: "bytes \<Rightarrow> nat \<Rightarrow> bool \<Rightarrow> nat \<Rightarrow> harden_state \<Rightarrow> harden_state outcome" where
  "harden_span bs directory final index st =
     (let at = directory + index * 32 in
      obind (apta_get_u64 bs at) (\<lambda>first.
      obind (apta_get_u64 bs (at + 8)) (\<lambda>last.
      obind (apta_get_u32 bs (at + 16)) (\<lambda>column.
      obind (apta_get_u32 bs (at + 20)) (\<lambda>count.
      obind (apta_get_u32 bs (at + 24)) (\<lambda>data.
      obind (check (final \<and> (first \<noteq> hs_end_frame st \<or> ucast column \<noteq> hs_end_column st))
               ERROR_CORRUPT_DATA) (\<lambda>_.
      Ret \<lparr>intervals = intervals st @ [(ucast data, ucast data + ucast count)],
           hs_end_frame = last, hs_end_column = ucast column + ucast count\<rparr>)))))))"

definition intervals_disjoint :: "interval list \<Rightarrow> unit outcome" where
  "intervals_disjoint ivs =
     ofor [1..<length ivs] (\<lambda>index _.
       check (fst (ivs ! index) < snd (ivs ! (index - 1))) ERROR_CORRUPT_DATA) ()"

text \<open>Everything between the allocation and the release of the interval array.\<close>

definition harden_body ::
    "bytes \<Rightarrow> nat \<Rightarrow> u64 \<Rightarrow> u64 \<Rightarrow> u32 \<Rightarrow> u32 \<Rightarrow> u64 \<Rightarrow> u32 \<Rightarrow> unit outcome" where
  "harden_body bs pay frames origin logical spans_n span_dir st =
     (let final = st = FEATURE_STATE_FINAL in
      obind (ofor [0..<unat spans_n] (harden_span bs (pay + unat span_dir) final)
               \<lparr>intervals = [], hs_end_frame = origin, hs_end_column = 0\<rparr>) (\<lambda>s.
      obind (check (final \<and> (hs_end_column s \<noteq> ucast logical \<or> hs_end_frame s \<noteq> frames))
               ERROR_CORRUPT_DATA) (\<lambda>_.
      intervals_disjoint (qsort apta_compare_packed_intervals (intervals s)))))"

definition apta_harden_validated_wovr ::
    "host_allocator \<Rightarrow> apta_context \<Rightarrow> bytes \<Rightarrow> unit outcome \<times> apta_context" where
  "apta_harden_validated_wovr host ctx bs =
     (case obind (apta_find_wovr_payload bs) (\<lambda>payload.
           obind (apta_get_u64 bs 40) (\<lambda>frames.
           obind (check (payload = None) ERROR_CORRUPT_DATA) (\<lambda>_.
           let pay = unat (the payload) in
           obind (apta_get_u64 bs (pay + 8)) (\<lambda>origin.
           obind (apta_get_u32 bs (pay + 16)) (\<lambda>logical.
           obind (apta_get_u32 bs (pay + 20)) (\<lambda>spans_n.
           obind (apta_get_u64 bs (pay + 24)) (\<lambda>span_dir.
           obind (apta_get_u32 bs (pay + 40)) (\<lambda>wflags.
           obind (check (\<not> apta_internal_size_array_fits 0 (ucast spans_n) 16)
                    ERROR_LIMIT_EXCEEDED) (\<lambda>_.
           Ret (pay, frames, origin, logical, spans_n, span_dir, wflags AND WOVR_STATE_MASK)))))))))) of
        Fault \<Rightarrow> (Fault, ctx) | Fail e \<Rightarrow> (Fail e, ctx)
      | Ret (pay, frames, origin, logical, spans_n, span_dir, st) \<Rightarrow>
          (case apta_internal_context_allocate host ctx (ucast spans_n * 16) 8 of
             (None, ctx1) \<Rightarrow> (Fail ERROR_OUT_OF_MEMORY, ctx1)
           | (Some ivs, ctx1) \<Rightarrow>
               (harden_body bs pay frames origin logical spans_n span_dir st,
                apta_internal_context_deallocate ctx1 (Some ivs))))"

text \<open>Releasing the only reference to a parsed result (\<open>apta_internal_result_release\<close>): a parsed
  result has no metadata, detail or pool slot, so the blocks of its overview and its own block
  are what is freed.\<close>

definition release_parsed :: "apta_context \<Rightarrow> parsed \<Rightarrow> apta_context" where
  "release_parsed ctx p =
     (let ctx1 = apta_internal_context_deallocate ctx (Some (pr_spans_block p));
          ctx2 = apta_internal_context_deallocate ctx1 (Some (pr_columns_block p));
          ctx3 = ctx2\<lparr>result_count := result_count ctx2 - 1\<rparr>
      in apta_internal_context_deallocate ctx3 (Some (pr_block p)))"

definition apta_result_parse ::
    "host_allocator \<Rightarrow> apta_context \<Rightarrow> parse_options option \<Rightarrow> bytes option \<Rightarrow>
     parsed outcome \<times> apta_context" where
  "apta_result_parse host ctx options buffer =
     (case apta_result_parse_base host ctx options buffer of
        (Ret p, ctx1) \<Rightarrow>
          (case apta_harden_validated_wovr host ctx1 (the buffer) of
             (Ret _, ctx2) \<Rightarrow> (Ret p, ctx2)
           | (Fail e, ctx2) \<Rightarrow> (Fail e, release_parsed ctx2 p)
           | (Fault, ctx2) \<Rightarrow> (Fault, ctx2))
      | other \<Rightarrow> other)"

section \<open>What the pass establishes\<close>

text \<open>A list of extents (first frame, end frame, first column, column count) that covers the
  frames from \<open>f\<close> to \<open>f'\<close> and the columns from \<open>c\<close> to \<open>c'\<close>, in order and without a gap.\<close>

type_synonym extent = "u64 \<times> u64 \<times> u32 \<times> u32"

fun tiles :: "u64 \<Rightarrow> nat \<Rightarrow> extent list \<Rightarrow> u64 \<Rightarrow> nat \<Rightarrow> bool" where
  "tiles f c [] f' c' \<longleftrightarrow> f = f' \<and> c = c'"
| "tiles f c ((ff, ef, fc, cc) # xs) f' c' \<longleftrightarrow>
     ff = f \<and> unat fc = c \<and> tiles ef (c + unat cc) xs f' c'"

lemma tiles_snoc:
  "tiles f c (xs @ [(ff, ef, fc, cc)]) f' c' \<longleftrightarrow>
   tiles f c xs ff (unat fc) \<and> f' = ef \<and> c' = unat fc + unat cc"
  by (induction f c xs ff "unat fc" rule: tiles.induct) auto

definition entry_extent :: "span_entry \<Rightarrow> extent" where
  "entry_extent s = (s_first_frame s, s_end_frame s, s_first_column s, s_column_count s)"

definition span_extent :: "span \<Rightarrow> extent" where
  "span_extent s = (first_frame s, end_frame s, first_column_index s, column_count s)"

lemma span_of_extent: "list_all2 (span_of opt) ss sps \<Longrightarrow> map span_extent sps = map entry_extent ss"
  by (induction rule: list_all2_induct) (simp_all add: span_of_def span_extent_def entry_extent_def)

definition data_interval :: "span_entry \<Rightarrow> interval" where
  "data_interval s = (ucast (s_data_column_offset s),
     ucast (s_data_column_offset s) + ucast (s_column_count s))"

definition apart :: "interval \<Rightarrow> interval \<Rightarrow> bool" where
  "apart x y \<longleftrightarrow> snd x \<le> fst y \<or> snd y \<le> fst x"

lemma sorted_wrt_perm:
  assumes "mset xs = mset ys" "sorted_wrt R xs" "\<And>x y. R x y \<Longrightarrow> R y x"
  shows "sorted_wrt R ys"
  using assms(1,2)
proof (induction ys arbitrary: xs)
  case (Cons y ys)
  have "y \<in> set xs" using Cons.prems(1) by (metis list.set_intros(1) mset_eq_setD)
  then obtain a b where xs: "xs = a @ y # b" using split_list by metis
  have "mset (a @ b) = mset ys" using Cons.prems(1) xs by simp
  moreover have "sorted_wrt R (a @ b)" using Cons.prems(2) xs by (simp add: sorted_wrt_append)
  ultimately have "sorted_wrt R ys" by (rule Cons.IH)
  moreover have "R y z" if "z \<in> set ys" for z
  proof -
    have "z \<in> set (a @ b)" using \<open>mset (a @ b) = mset ys\<close> that by (metis mset_eq_setD)
    then show ?thesis using Cons.prems(2) xs assms(3) by (auto simp: sorted_wrt_append)
  qed
  ultimately show ?case by simp
qed simp

lemma intervals_disjoint_owp:
  assumes "\<And>x. x \<in> set ivs \<Longrightarrow> fst x \<le> snd x"
  shows "owp (intervals_disjoint ivs) (\<lambda>_. sorted_wrt (\<lambda>x y. snd x \<le> fst y) ivs)"
proof -
  have "owp (intervals_disjoint ivs)
      ((\<lambda>n _. \<forall>k<n. Suc k < length ivs \<longrightarrow> snd (ivs ! k) \<le> fst (ivs ! Suc k)) (length [1..<length ivs]))"
    unfolding intervals_disjoint_def
    by (rule ofor_owp) (auto simp: less_Suc_eq not_less)
  then show ?thesis
  proof (rule owp_mono)
    fix u assume adj: "\<forall>k<length [1..<length ivs]. Suc k < length ivs \<longrightarrow>
        snd (ivs ! k) \<le> fst (ivs ! Suc k)"
    have step: "snd (ivs ! k) \<le> fst (ivs ! Suc k)" if "Suc k < length ivs" for k
      using adj that by auto
    have "snd (ivs ! i) \<le> fst (ivs ! j)" if "i < j" "j < length ivs" for i j
      using that
    proof (induction j)
      case (Suc j)
      show ?case
      proof (cases "i = j")
        case False
        then have "snd (ivs ! i) \<le> fst (ivs ! j)" using Suc by simp
        also have "\<dots> \<le> snd (ivs ! j)" using Suc.prems by (intro assms) simp
        also have "\<dots> \<le> fst (ivs ! Suc j)" using step Suc.prems by simp
        finally show ?thesis .
      qed (use step Suc.prems in simp)
    qed simp
    then show "sorted_wrt (\<lambda>x y. snd x \<le> fst y) ivs" by (simp add: sorted_wrt_iff_nth_less)
  qed
qed

lemma intervals_apart_owp:
  assumes "\<And>x. x \<in> set ivs \<Longrightarrow> fst x \<le> snd x"
  shows "owp (intervals_disjoint (qsort apta_compare_packed_intervals ivs)) (\<lambda>_. sorted_wrt apart ivs)"
proof -
  let ?q = "qsort apta_compare_packed_intervals ivs"
  have m: "mset ?q = mset ivs" by (rule packed.mset_qsort)
  have "owp (intervals_disjoint ?q) (\<lambda>_. sorted_wrt (\<lambda>x y. snd x \<le> fst y) ?q)"
    using assms mset_eq_setD [OF m] by (intro intervals_disjoint_owp) auto
  then show ?thesis
  proof (rule owp_mono)
    fix u assume "sorted_wrt (\<lambda>x y. snd x \<le> fst y) ?q"
    then have "sorted_wrt apart ?q" by (rule sorted_wrt_mono_rel [rotated]) (simp add: apart_def)
    then show "sorted_wrt apart ivs" by (rule sorted_wrt_perm [OF m]) (auto simp: apart_def)
  qed
qed

lemma data_interval_le: "fst (data_interval s) \<le> snd (data_interval s)"
  using unat_u32_bound [of "s_data_column_offset s"] unat_u32_bound [of "s_column_count s"]
  by (simp add: data_interval_def word_le_nat_alt unat_plus_u64)

text \<open>The loop over the spans.\<close>

definition harden_inv :: "bool \<Rightarrow> u64 \<Rightarrow> span_entry list \<Rightarrow> nat \<Rightarrow> harden_state \<Rightarrow> bool" where
  "harden_inv final origin ss n st \<longleftrightarrow>
     intervals st = map data_interval (take n ss) \<and>
     (final \<longrightarrow> tiles origin 0 (map entry_extent (take n ss)) (hs_end_frame st)
        (unat (hs_end_column st)))"

lemma harden_span_owp:
  assumes s: "read_span_entry bs (directory + n * 32) = Ret (ss ! n)" "n < length ss"
    and I: "harden_inv final origin ss n st"
  shows "owp (harden_span bs directory final n st) (harden_inv final origin ss (Suc n))"
proof -
  have "take (Suc n) ss = take n ss @ [ss ! n]" using s(2) by (simp add: take_Suc_conv_app_nth)
  then show ?thesis
    using I read_span_fields [OF s(1)] unat_end_column [of "ss ! n"]
    by (auto simp: harden_span_def Let_def harden_inv_def data_interval_def entry_extent_def tiles_snoc
        end_column_def simp flip: unat_ucast_u32_u64)
qed

lemma harden_body_owp:
  assumes "length ss = unat spans_n"
    and s: "\<And>j. j < length ss \<Longrightarrow> read_span_entry bs (pay + unat span_dir + j * 32) = Ret (ss ! j)"
  shows "owp (harden_body bs pay frames origin logical spans_n span_dir st) (\<lambda>_.
     (st = FEATURE_STATE_FINAL \<longrightarrow> tiles origin 0 (map entry_extent ss) frames (unat logical)) \<and>
     sorted_wrt apart (map data_interval ss))"
proof -
  let ?f = "st = FEATURE_STATE_FINAL"
  have "owp (ofor [0..<unat spans_n] (harden_span bs (pay + unat span_dir) ?f)
               \<lparr>intervals = [], hs_end_frame = origin, hs_end_column = 0\<rparr>)
      (harden_inv ?f origin ss (unat spans_n))"
    using assms by (intro ofor_upt_owp harden_span_owp) (auto simp: harden_inv_def)
  then show ?thesis
    unfolding harden_body_def Let_def owp_obind owp_check
  proof (rule owp_mono, intro impI)
    fix a assume I: "harden_inv ?f origin ss (unat spans_n) a"
      and c: "\<not> (?f \<and> (hs_end_column a \<noteq> ucast logical \<or> hs_end_frame a \<noteq> frames))"
    have iv: "intervals a = map data_interval ss" using I assms(1) by (simp add: harden_inv_def)
    have "owp (intervals_disjoint (qsort apta_compare_packed_intervals (intervals a)))
       (\<lambda>_. sorted_wrt apart (intervals a))"
      using data_interval_le iv by (intro intervals_apart_owp) auto
    then show "owp (intervals_disjoint (qsort apta_compare_packed_intervals (intervals a)))
          (\<lambda>_. (?f \<longrightarrow> tiles origin 0 (map entry_extent ss) frames (unat logical)) \<and>
            sorted_wrt apart (map data_interval ss))"
      by (rule owp_mono) (use I c iv assms(1) in \<open>auto simp: harden_inv_def\<close>)
  qed
qed
section \<open>The two layers together\<close>

lemma find_wovr_eq:
  "(\<And>j. j \<in> set is \<Longrightarrow> read_entry bs (directory + j * 40) = Ret (f j)) \<Longrightarrow>
   find_wovr bs directory is =
     Ret (case filter (\<lambda>e. e_tag e = tag_WOVR) (map f is) of [] \<Rightarrow> None | e # _ \<Rightarrow> Some (e_offset e))"
proof (induction "is")
  case (Cons j "is")
  have r: "read_entry bs (directory + j * 40) = Ret (f j)" using Cons.prems by simp
  have "get_range bs (directory + j * 40) 4 = Ret (e_tag (f j))"
    using read_entry_fields [OF r] by simp
  moreover have "apta_get_u64 bs (directory + j * 40 + 8) = Ret (e_offset (f j))"
    using read_entry_fields [OF r] by simp
  moreover have "find_wovr bs directory is =
     Ret (case filter (\<lambda>e. e_tag e = tag_WOVR) (map f is) of [] \<Rightarrow> None | e # _ \<Rightarrow> Some (e_offset e))"
    using Cons by simp
  ultimately show ?case by simp
qed simp

lemma find_payload:
  assumes "container_ok bs opt i"
  shows "apta_find_wovr_payload bs = Ret (Some (payload_offset i)) \<and>
    unat (payload_offset i) + unat (payload_size i) \<le> length bs"
proof -
  let ?h = "wi_header i" and ?n = "unat (h_section_count (wi_header i))"
  obtain es where es: "dir_entries bs ?h ?n es" "list_all (entry_ok bs opt ?h) es"
      "map payload_of (filter (\<lambda>e. e_tag e = tag_WOVR) es) = [(payload_offset i, payload_size i)]"
    using assms by (auto simp: container_ok_def sections_inv_def)
  then obtain e where e: "filter (\<lambda>e. e_tag e = tag_WOVR) es = [e]"
      "e_offset e = payload_offset i" "e_stored_size e = payload_size i"
    by (auto simp: map_eq_Cons_conv payload_of_def)
  have "e \<in> set es" using e(1) by (metis filter_is_subset list.set_intros(1) subsetD)
  then have fits: "unat (payload_offset i) + unat (payload_size i) \<le> length bs"
    using es(2) e by (auto simp: list_all_iff entry_ok_def payload_ok_def)
  have "find_wovr bs (unat (h_directory_offset ?h)) [0..<?n] =
     Ret (case filter (\<lambda>e. e_tag e = tag_WOVR) (map ((!) es) [0..<?n]) of
       [] \<Rightarrow> None | e # _ \<Rightarrow> Some (e_offset e))"
    using dir_entries_nth [OF es(1)] by (intro find_wovr_eq) (simp add: entry_at_def)
  also have "map ((!) es) [0..<?n] = es" using dir_entries_length [OF es(1)] by (metis map_nth)
  finally show ?thesis
    using e fits assms read_header_fields [of bs ?h]
    by (simp add: apta_find_wovr_payload_def container_ok_def)
qed

lemma size_array_fits_16: "apta_internal_size_array_fits 0 (ucast (n :: u32)) 16"
proof -
  have "unat (SIZE_MAX div 16 :: u64) = 1152921504606846975" by (simp add: SIZE_MAX_def)
  then show ?thesis
    using unat_u32_bound [of n]
    by (simp add: apta_internal_size_array_fits_def word_le_nat_alt)
qed

text \<open>The guarantees of the hardening pass on an input the base parser accepted.\<close>

definition hardened :: "header \<Rightarrow> wovr_header \<Rightarrow> span_entry list \<Rightarrow> bool" where
  "hardened h w ss \<longleftrightarrow>
     (w_state w = FEATURE_STATE_FINAL \<longrightarrow>
        tiles (w_origin_frame w) 0 (map entry_extent ss) (h_total_source_frames h)
          (unat (w_logical_column_count w))) \<and>
     sorted_wrt apart (map data_interval ss)"

lemma harden_unfold:
  assumes c: "container_ok bs opt i" and g: "geometry_ok (wovr_payload bs i) opt (wi_header i) w ss packed"
  shows "j < length ss \<Longrightarrow> read_span_entry bs
      (unat (payload_offset i) + unat (w_span_directory_offset w) + j * 32) = Ret (ss ! j)"
    and "apta_harden_validated_wovr host ctx bs =
      (case apta_internal_context_allocate host ctx (ucast (w_span_count w) * 16) 8 of
         (None, ctx1) \<Rightarrow> (Fail ERROR_OUT_OF_MEMORY, ctx1)
       | (Some ivs, ctx1) \<Rightarrow>
           (harden_body bs (unat (payload_offset i)) (h_total_source_frames (wi_header i))
              (w_origin_frame w) (w_logical_column_count w) (w_span_count w)
              (w_span_directory_offset w) (w_state w),
            apta_internal_context_deallocate ctx1 (Some ivs)))"
proof -
  let ?p = "unat (payload_offset i)" and ?n = "unat (payload_size i)" and ?pay = "wovr_payload bs i"
  have find: "apta_find_wovr_payload bs = Ret (Some (payload_offset i))" and fit: "?p + ?n \<le> length bs"
    using find_payload [OF c] by simp_all
  have len: "length ?pay = ?n" using fit by (simp add: wovr_payload_def)
  have w: "read_wovr_header ?pay = Ret w" and wok: "wovr_header_ok ?pay opt (wi_header i) w"
    and sl: "span_list ?pay w (unat (w_span_count w)) ss"
    using g by (simp_all add: geometry_ok_def)
  have "48 \<le> ?n" using wok len by (simp add: wovr_header_ok_def)
  then have reads: "apta_get_u64 bs (?p + 8) = Ret (w_origin_frame w)"
      "apta_get_u32 bs (?p + 16) = Ret (w_logical_column_count w)"
      "apta_get_u32 bs (?p + 20) = Ret (w_span_count w)"
      "apta_get_u64 bs (?p + 24) = Ret (w_span_directory_offset w)"
      "apta_get_u32 bs (?p + 40) = Ret (w_flags w)"
    using w fit get_sub [of _ ?n ?p bs]
    by (auto simp: read_wovr_header_def obind_eq_Ret wovr_payload_def)
  have frames: "apta_get_u64 bs 40 = Ret (h_total_source_frames (wi_header i))"
    using c read_header_fields by (simp add: container_ok_def)
  show "read_span_entry bs (?p + unat (w_span_directory_offset w) + j * 32) = Ret (ss ! j)"
    if "j < length ss"
  proof -
    have ss: "length ss = unat (w_span_count w)" by (rule span_list_length [OF sl])
    have "(j + 1) * 32 \<le> unat (w_span_count w) * 32" using that ss by (intro mult_le_mono1) simp
    then have b: "span_at w j + 32 \<le> ?n" using wok len by (simp add: wovr_header_ok_def span_at_def)
    have "read_span_entry ?pay (span_at w j) = Ret (ss ! j)" using span_list_nth [OF sl] that ss by simp
    moreover have "read_span_entry ?pay (span_at w j) = read_span_entry bs (?p + span_at w j)"
      using b fit get_sub [of _ ?n ?p bs] by (simp add: read_span_entry_def wovr_payload_def add.assoc)
    ultimately show ?thesis by (simp add: span_at_def add.assoc)
  qed
  show "apta_harden_validated_wovr host ctx bs =
      (case apta_internal_context_allocate host ctx (ucast (w_span_count w) * 16) 8 of
         (None, ctx1) \<Rightarrow> (Fail ERROR_OUT_OF_MEMORY, ctx1)
       | (Some ivs, ctx1) \<Rightarrow>
           (harden_body bs ?p (h_total_source_frames (wi_header i)) (w_origin_frame w)
              (w_logical_column_count w) (w_span_count w) (w_span_directory_offset w) (w_state w),
            apta_internal_context_deallocate ctx1 (Some ivs)))"
    by (simp add: apta_harden_validated_wovr_def find frames reads size_array_fits_16)
qed

lemma harden_cases:
  assumes c: "container_ok bs opt i" and g: "geometry_ok (wovr_payload bs i) opt (wi_header i) w ss packed"
  shows "case apta_harden_validated_wovr host ctx bs of
      (Ret u, ctx') \<Rightarrow> hardened (wi_header i) w ss \<and> same_memory ctx ctx'
    | (Fail e, ctx') \<Rightarrow> same_memory ctx ctx'
    | (Fault, ctx') \<Rightarrow> False"
proof -
  let ?b = "harden_body bs (unat (payload_offset i)) (h_total_source_frames (wi_header i)) (w_origin_frame w)
      (w_logical_column_count w) (w_span_count w) (w_span_directory_offset w) (w_state w)"
  have ss: "length ss = unat (w_span_count w)" using g by (auto simp: geometry_ok_def intro: span_list_length)
  have body: "owp ?b (\<lambda>_. hardened (wi_header i) w ss)"
    using harden_body_owp [OF ss harden_unfold(1) [OF c g]] by (simp add: hardened_def)
  obtain x ctx1 where al: "apta_internal_context_allocate host ctx (ucast (w_span_count w) * 16) 8 = (x, ctx1)"
    by fastforce
  show ?thesis
  proof (cases x)
    case None
    then show ?thesis using al context_allocate_None by (simp add: harden_unfold(2) [OF c g])
  next
    case (Some ivs)
    then obtain hd where "block_added ivs hd ctx ctx1" using al context_allocate_Some by blast
    from same_memory_free [OF this same_memory_refl]
    have "same_memory ctx (apta_internal_context_deallocate ctx1 (Some ivs))" .
    then show ?thesis using al Some body by (cases ?b) (auto simp: harden_unfold(2) [OF c g])
  qed
qed

lemma parsed_memory_same: "parsed_memory ctx p c1 \<Longrightarrow> same_memory c1 c2 \<Longrightarrow> parsed_memory ctx p c2"
  unfolding parsed_memory_def same_memory_def
  by (cases ctx; cases c1; cases c2) auto

lemma release_parsed_memory: "parsed_memory ctx p ctx' \<Longrightarrow> same_memory ctx (release_parsed ctx' p)"
  unfolding parsed_memory_def same_memory_def release_parsed_def
  by (cases ctx; cases ctx') (auto simp: apta_internal_context_deallocate_def Let_def)

lemma read_wovr_spans: "read_wovr_header pay = Ret w \<Longrightarrow> apta_get_u32 pay 20 = Ret (w_span_count w)"
  by (auto simp: read_wovr_header_def obind_eq_Ret)

definition parse_accepts :: "parse_options option \<Rightarrow> bytes \<Rightarrow> apta_result \<Rightarrow> bool" where
  "parse_accepts options bs r \<longleftrightarrow>
     (\<exists>opt i w ss packed. apta_resolve_parse_options options = Ret opt \<and> container_ok bs opt i \<and>
        geometry_ok (wovr_payload bs i) opt (wi_header i) w ss packed \<and>
        hardened (wi_header i) w ss \<and> fill_result (wovr_payload bs i) (wi_header i) = Ret r)"

lemma parse_base_cases:
  assumes v: "validate_input options (Some bs) = Ret (opt, bs, i, packed)"
    and g: "geometry_ok (wovr_payload bs i) opt (wi_header i) w ss packed"
  shows "case apta_result_parse_base host ctx options (Some bs) of
      (Ret p, ctx') \<Rightarrow> fill_result (wovr_payload bs i) (wi_header i) = Ret (pr_result p) \<and> parsed_memory ctx p ctx'
    | (Fail e, ctx') \<Rightarrow> same_memory ctx ctx'
    | (Fault, ctx') \<Rightarrow> False"
proof -
  obtain r where f: "fill_result (wovr_payload bs i) (wi_header i) = Ret r"
    using fill_result_wf [OF g] by blast
  have n: "apta_get_u32 (wovr_payload bs i) 20 = Ret (w_span_count w)"
    using g by (intro read_wovr_spans) (simp add: geometry_ok_def)
  show ?thesis
    using build_parsed_result_cases [OF f n, where host = host and ctx = ctx and opt = opt and packed = packed] f
    by (auto simp: apta_result_parse_base_def v split: outcome.splits prod.splits)
qed

lemma parse_cases:
  assumes "length bs < 18446744073709551616"
  shows "case apta_result_parse host ctx options (Some bs) of
      (Ret p, ctx') \<Rightarrow> parse_accepts options bs (pr_result p) \<and> parsed_memory ctx p ctx'
    | (Fail e, ctx') \<Rightarrow> same_memory ctx ctx'
    | (Fault, ctx') \<Rightarrow> False"
proof (cases "validate_input options (Some bs)")
  case (Ret x)
  obtain opt bs' i packed where x: "x = (opt, bs', i, packed)" by (cases x)
  obtain w ss where ok: "bs' = bs" "apta_resolve_parse_options options = Ret opt" "container_ok bs opt i"
      "geometry_ok (wovr_payload bs i) opt (wi_header i) w ss packed"
    using validate_input_owp [OF assms, of options] Ret x by auto
  obtain b c1 where b: "apta_result_parse_base host ctx options (Some bs) = (b, c1)" by fastforce
  note base = parse_base_cases [OF Ret [unfolded x ok(1)] ok(4), where host = host and ctx = ctx, unfolded b]
  show ?thesis
  proof (cases b)
    case (Ret p)
    obtain u c2 where h: "apta_harden_validated_wovr host c1 bs = (u, c2)" by fastforce
    show ?thesis
      using harden_cases [OF ok(3,4), where host = host and ctx = c1] base Ret ok
        parsed_memory_same [of ctx p c1 c2] release_parsed_memory [of ctx p c2]
      by (cases u) (auto simp: apta_result_parse_def b h parse_accepts_def)
  qed (use base in \<open>simp_all add: apta_result_parse_def b\<close>)
next
  case (Fail e)
  then show ?thesis by (simp add: apta_result_parse_def apta_result_parse_base_def)
next
  case Fault
  then show ?thesis using validate_input_owp [OF assms, of options] by simp
qed

text \<open>A final overview covers the whole source.\<close>

definition overview_complete :: "apta_result \<Rightarrow> bool" where
  "overview_complete r \<longleftrightarrow>
     (state (overview r) = FEATURE_STATE_FINAL \<longrightarrow>
        (\<exists>ss. spans (overview r) = Some ss \<and>
           tiles (origin_frame (overview r)) 0 (map span_extent ss) (total_source_frames r)
             (unat (required_columns (total_source_frames r - origin_frame (overview r))
                (frames_per_column (overview r))))))"

lemma parse_accepts_wf:
  assumes "parse_accepts options bs r"
  shows "\<exists>opt. apta_resolve_parse_options options = Ret opt \<and> overview_wf opt r \<and> overview_complete r"
proof -
  obtain opt i w ss packed where a: "apta_resolve_parse_options options = Ret opt"
      "geometry_ok (wovr_payload bs i) opt (wi_header i) w ss packed" "hardened (wi_header i) w ss"
      "fill_result (wovr_payload bs i) (wi_header i) = Ret r"
    using assms by (auto simp: parse_accepts_def)
  obtain sps where s: "spans (overview r) = Some sps" "list_all2 (span_of opt) ss sps" "overview_wf opt r"
      "total_source_frames r = h_total_source_frames (wi_header i)" "state (overview r) = w_state w"
      "origin_frame (overview r) = w_origin_frame w"
    using fill_result_wf [OF a(2)] a(4) by auto
  have f: "frames_per_column (overview r) = w_frames_per_column w"
    using a(2,4) by (auto simp: fill_result_def geometry_ok_def obind_eq_Ret)
  have "overview_complete r"
    using a(2,3) s f span_of_extent [OF s(2)]
    by (auto simp: overview_complete_def hardened_def geometry_ok_def wovr_header_ok_def)
  then show ?thesis using a s by blast
qed
section \<open>The sample container, parsed\<close>

definition sample_input :: wovr_input where
  "sample_input = \<lparr>payload_offset = 136, payload_size = 90, wi_header = sample_header\<rparr>"

definition sample_payload :: bytes where
  "sample_payload =
     [1, 0, 0, 0, 0, 4, 0, 0, 0, 0, 0, 0, 0, 0, 0, 0, 1, 0, 0, 0, 1, 0, 0, 0, 48, 0, 0, 0,
      0, 0, 0, 0, 80, 0, 0, 0, 0, 0, 0, 0, 4, 0, 0, 0, 0, 0, 0, 0, 0, 0, 0, 0, 0, 0, 0, 0,
      232, 3, 0, 0, 0, 0, 0, 0, 0, 0, 0, 0, 1, 0, 0, 0, 0, 0, 0, 0, 0, 0, 0, 0, 156, 255,
      200, 0, 150, 0, 0, 0, 0, 1]"

definition sample_wovr :: wovr_header where
  "sample_wovr =
     \<lparr>w_level_id = 1, w_frames_per_column = 1024, w_origin_frame = 0, w_logical_column_count = 1,
      w_span_count = 1, w_span_directory_offset = 48, w_column_data_offset = 80, w_flags = 4,
      w_reserved = 0\<rparr>"

definition sample_span :: span_entry where
  "sample_span =
     \<lparr>s_first_frame = 0, s_end_frame = 1000, s_first_column = 0, s_column_count = 1,
      s_data_column_offset = 0, s_reserved = 0\<rparr>"

definition sample_column :: column where
  "sample_column =
     \<lparr>minimum = 0xFF9C, maximum = 200, rms = 150, low = 0, mid = 0, high = 0, flags = 1\<rparr>"

lemma sample_payload_eq: "wovr_payload sample_container sample_input = sample_payload"
  by (simp add: wovr_payload_def sample_input_def sample_container_def sample_payload_def)

lemma sample_read_wovr: "read_wovr_header sample_payload = Ret sample_wovr"
  by (simp add: read_wovr_header_def sample_wovr_def sample_payload_def eval_reads)

lemma sample_read_span: "read_span_entry sample_payload 48 = Ret sample_span"
  by (simp add: read_span_entry_def sample_span_def sample_payload_def eval_reads)

lemma sample_read_column: "read_column sample_payload 80 = Ret sample_column"
  by (simp add: read_column_def sample_column_def sample_payload_def eval_reads apta_get_i16_def)

lemma sample_column_ok: "column_ok default_options sample_column"
  by (simp add: column_ok_def sample_column_def apta_consts)

lemma sample_geometry:
  "apta_validate_wovr_geometry sample_payload default_options sample_header = Ret 1"
proof -
  have len: "length sample_payload = 90" by (simp add: sample_payload_def)
  have h: "check_wovr_header sample_payload default_options sample_header sample_wovr = Ret ()"
    by (simp add: check_wovr_header_def sample_wovr_def sample_header_def default_options_def len
        is_strict_def apta_consts apta_range_fits_def required_columns_def)
  have f: "check_span_frames default_options sample_header sample_wovr 0
      \<lparr>packed_columns = 0, previous_end_frame = 0, previous_end_column = 0\<rparr> sample_span = Ret ()"
    by (simp add: check_span_frames_def sample_span_def sample_wovr_def sample_header_def
        end_column_def default_options_def is_strict_def apta_consts)
  have d: "check_span_data sample_payload sample_wovr sample_span = Ret ()"
    by (simp add: check_span_data_def sample_span_def sample_wovr_def data_first_def len
        apta_range_fits_def apta_ranges_overlap_def)
  have at: "span_at sample_wovr 0 = 48" "column_at sample_wovr sample_span 0 = 80"
      "unat (s_column_count sample_span) = 1" "unat (w_span_count sample_wovr) = 1"
    by (simp_all add: span_at_def column_at_def sample_wovr_def sample_span_def data_first_def)
  have "apta_get_u32 sample_payload (unat (w_span_directory_offset sample_wovr) + 16) = Ret 0"
    using read_span_fields [OF sample_read_span] by (simp add: sample_wovr_def sample_span_def)
  then show ?thesis
    using check_column_eq [OF sample_read_column] sample_column_ok
    by (simp add: apta_validate_wovr_geometry_def check_span_def len h f d at sample_read_wovr
        sample_read_span) (simp add: sample_span_def sample_wovr_def end_column_def default_options_def apta_consts)
qed

lemma sample_validated:
  "validate_input None (Some sample_container) =
   Ret (default_options, sample_container, sample_input, 1)"
  using sample_accepted sample_geometry sample_payload_eq
  by (simp add: validate_input_def apta_resolve_parse_options_def sample_input_def)

definition sample_result :: apta_result where
  "sample_result =
     \<lparr>specification_major = 1, specification_minor = 0, producer_api_version = 0x400000,
      container_version = 1, generation = 1, available_features = 1, changed_features = 1,
      session_state = 3, total_source_frames = 1000, source_sample_rate = 44100,
      source_channel_count = 1, source_channel_layout = 1, fingerprint_kind = 0,
      fingerprint = replicate 32 0,
      overview = \<lparr>level_id = 1, frames_per_column = 1024, origin_frame = 0, state = 4,
        confidence = 255, span_count = 1,
        spans = Some [\<lparr>first_frame = 0, end_frame = 1000, first_column_index = 0,
          column_count = 1, columns = Some [sample_column]\<rparr>]\<rparr>\<rparr>"

lemma sample_fill: "fill_result sample_payload sample_header = Ret sample_result"
proof -
  have "build_span sample_payload sample_wovr 0 =
      Ret \<lparr>first_frame = 0, end_frame = 1000, first_column_index = 0, column_count = 1,
           columns = Some [sample_column]\<rparr>"
    using sample_read_span sample_read_column
    by (simp add: build_span_def span_at_def column_at_def sample_wovr_def sample_span_def data_first_def)
  then show ?thesis
    using sample_read_wovr
    by (simp add: fill_result_def sample_wovr_def has_3band_def sample_column_def
        sample_result_def sample_header_def apta_consts)
qed

definition roomy_context :: apta_context where
  "roomy_context = demo_context\<lparr>memory_limit_bytes := 0\<rparr>"

lemma sample_built:
  "apta_result_parse_base demo_host roomy_context None (Some sample_container) =
   (Ret \<lparr>pr_result = sample_result, pr_block = 0x10020, pr_spans_block = 0x12020, pr_columns_block = 0x14020\<rparr>,
    snd (apta_result_parse_base demo_host roomy_context None (Some sample_container)))"
proof -
  have n: "apta_get_u32 sample_payload 20 = Ret 1"
    using read_wovr_spans [OF sample_read_wovr] by (simp add: sample_wovr_def)
  have h: "wi_header sample_input = sample_header" by (simp add: sample_input_def)
  have "fst (apta_build_parsed_result demo_host roomy_context sample_payload sample_header default_options 1) =
    Ret \<lparr>pr_result = sample_result, pr_block = 0x10020, pr_spans_block = 0x12020, pr_columns_block = 0x14020\<rparr>"
    by (simp add: apta_build_parsed_result_def n sample_fill apta_internal_context_allocate_def
        roomy_context_def demo_context_def demo_host_def apta_consts default_options_def
        apta_internal_is_power_of_two_def apta_internal_reserve_bytes_def)
  then show ?thesis
    by (simp add: apta_result_parse_base_def sample_validated sample_payload_eq h prod_eq_iff)
qed

lemma parsed_memory_limit: "parsed_memory ctx p ctx' \<Longrightarrow> memory_limit_bytes ctx' = memory_limit_bytes ctx"
  unfolding parsed_memory_def by (cases ctx; cases ctx') auto

lemma demo_allocates:
  "memory_limit_bytes c = 0 \<Longrightarrow> \<exists>x c'. apta_internal_context_allocate demo_host c 16 8 = (Some x, c')"
  by (simp add: apta_internal_context_allocate_def demo_host_def apta_consts
      apta_internal_is_power_of_two_def apta_internal_reserve_bytes_def Let_def)

lemma sample_hardened:
  assumes "memory_limit_bytes c = 0"
  shows "\<exists>c'. apta_harden_validated_wovr demo_host c sample_container = (Ret (), c')"
proof -
  obtain x c' where "apta_internal_context_allocate demo_host c 16 8 = (Some x, c')"
    using demo_allocates [OF assms] by blast
  moreover have "apta_find_wovr_payload sample_container = Ret (Some 136)"
    by (simp add: apta_find_wovr_payload_def sample_container_def eval_reads apta_consts)
  moreover have "apta_get_u64 sample_container 40 = Ret 1000" "apta_get_u64 sample_container 144 = Ret 0"
      "apta_get_u32 sample_container 152 = Ret 1" "apta_get_u32 sample_container 156 = Ret 1"
      "apta_get_u64 sample_container 160 = Ret 48" "apta_get_u32 sample_container 176 = Ret 4"
    by (simp_all add: sample_container_def eval_reads)
  moreover have "harden_body sample_container 136 1000 0 1 1 48 4 = Ret ()"
    by (simp add: harden_body_def harden_span_def sample_container_def eval_reads
        intervals_disjoint_def qsort_def apta_consts)
  ultimately show ?thesis
    using size_array_fits_16 [of 1]
    by (simp add: apta_harden_validated_wovr_def WOVR_STATE_MASK_def)
qed

lemma sample_parsed:
  "\<exists>ctx'. apta_result_parse demo_host roomy_context None (Some sample_container) =
     (Ret \<lparr>pr_result = sample_result, pr_block = 0x10020, pr_spans_block = 0x12020,
           pr_columns_block = 0x14020\<rparr>, ctx')"
proof -
  let ?c = "snd (apta_result_parse_base demo_host roomy_context None (Some sample_container))"
  have "length sample_container < 18446744073709551616" by (simp add: sample_length)
  from validate_input_owp [OF this, of None] obtain w ss where
    "geometry_ok (wovr_payload sample_container sample_input) default_options
       (wi_header sample_input) w ss 1" by (auto simp: sample_validated)
  from parse_base_cases [OF sample_validated this, where host = demo_host and ctx = roomy_context]
  have "parsed_memory roomy_context \<lparr>pr_result = sample_result, pr_block = 0x10020,
      pr_spans_block = 0x12020, pr_columns_block = 0x14020\<rparr> ?c"
    by (subst (asm) sample_built) simp
  then have "memory_limit_bytes ?c = 0" by (simp add: parsed_memory_limit roomy_context_def)
  from sample_hardened [OF this] show ?thesis
    by (auto simp: apta_result_parse_def, subst sample_built, auto)
qed
section \<open>Properties\<close>

text \<open>
  C2: whatever bytes the parser is given, of any length a \<open>size_t\<close> can express, it returns a
  result or an error; it never reads outside the buffer, and every loop of it terminates.
\<close>
theorem parse_memory_safe:
  assumes "length bs < 18446744073709551616"
  shows "fst (apta_result_parse host ctx options (Some bs)) \<noteq> Fault"
  using parse_cases [OF assms, where host = host and ctx = ctx and options = options] by (auto split: prod.splits)

theorem parse_memory_safe_witness:
  "fst (apta_result_parse demo_host demo_context None (Some [65, 80, 84, 65])) \<noteq> Fault"
  using parse_memory_safe [of "[65, 80, 84, 65]" demo_host demo_context None] by simp

text \<open>
  C10: a parse that fails, for whatever reason and at whatever point, leaves the context's memory
  as it was: no block stays allocated, the byte counter and the result counter are unchanged.
\<close>
theorem parse_failure_leaks_nothing:
  assumes "length bs < 18446744073709551616"
    and "apta_result_parse host ctx options (Some bs) = (Fail e, ctx')"
  shows "headers ctx' = headers ctx \<and> allocated_bytes ctx' = allocated_bytes ctx \<and>
    result_count ctx' = result_count ctx"
proof -
  have "same_memory ctx ctx'"
    using parse_cases [OF assms(1), where host = host and ctx = ctx and options = options] assms(2) by simp
  then have "ctx' = ctx\<lparr>host_calls := host_calls ctx'\<rparr>" by (simp add: same_memory_def)
  then show ?thesis by (metis apta_context.ext_inject apta_context.surjective apta_context.update_convs(7))
qed

lemma sample_refused:
  "apta_result_parse demo_host demo_context None (Some sample_container) =
   (Fail ERROR_OUT_OF_MEMORY, demo_context)"
proof -
  have n: "apta_get_u32 sample_payload 20 = Ret 1"
    using read_wovr_spans [OF sample_read_wovr] by (simp add: sample_wovr_def)
  have h: "wi_header sample_input = sample_header" by (simp add: sample_input_def)
  have "apta_build_parsed_result demo_host demo_context sample_payload sample_header default_options 1 =
      (Fail ERROR_OUT_OF_MEMORY, demo_context)"
    by (simp add: apta_build_parsed_result_def n apta_internal_context_allocate_def
        demo_context_def demo_host_def apta_consts default_options_def
        apta_internal_is_power_of_two_def apta_internal_reserve_bytes_def)
  then show ?thesis
    by (simp add: apta_result_parse_def apta_result_parse_base_def sample_validated sample_payload_eq h)
qed

theorem parse_failure_leaks_nothing_witness:
  "result_count (snd (apta_result_parse demo_host demo_context None (Some sample_container))) =
     result_count demo_context \<and>
   fst (apta_result_parse demo_host demo_context None (Some sample_container)) = Fail ERROR_OUT_OF_MEMORY"
  using parse_failure_leaks_nothing [OF _ sample_refused] sample_refused
  by (simp add: sample_length)

text \<open>
  C1: a parsed result is well formed.  Every span carries as many columns as it states, each
  column is valid with its minimum at most its maximum, the frame interval of a span is exactly
  the one of its columns (cut off at the end of the source), the spans are in order and do not
  overlap; and a final overview covers the source from its origin to its last frame, and every
  logical column, without a gap.
\<close>
theorem parse_result_wf:
  assumes "length bs < 18446744073709551616"
    and "apta_result_parse host ctx options (Some bs) = (Ret p, ctx')"
  shows "\<exists>opt. apta_resolve_parse_options options = Ret opt \<and>
    overview_wf opt (pr_result p) \<and> overview_complete (pr_result p)"
  using parse_cases [OF assms(1), where host = host and ctx = ctx and options = options] assms(2)
  by (intro parse_accepts_wf [of _ bs]) simp

theorem parse_result_wf_witness:
  "overview_wf default_options sample_result \<and> overview_complete sample_result"
proof -
  obtain ctx' where "apta_result_parse demo_host roomy_context None (Some sample_container) =
     (Ret \<lparr>pr_result = sample_result, pr_block = 0x10020, pr_spans_block = 0x12020,
           pr_columns_block = 0x14020\<rparr>, ctx')"
    using sample_parsed by blast
  from parse_result_wf [OF _ this] show ?thesis
    by (simp add: sample_length apta_resolve_parse_options_def)
qed

text \<open>
  C27: a successful parse adds exactly one live result, owned by three blocks, and releasing it
  gives the context's memory back as it was before the parse.
\<close>
theorem parse_release_roundtrip:
  assumes "length bs < 18446744073709551616"
    and "apta_result_parse host ctx options (Some bs) = (Ret p, ctx')"
  shows "result_count ctx' = result_count ctx + 1 \<and>
    map fst (headers ctx') = [pr_columns_block p, pr_spans_block p, pr_block p] @ map fst (headers ctx) \<and>
    (let freed = release_parsed ctx' p
     in headers freed = headers ctx \<and> allocated_bytes freed = allocated_bytes ctx \<and>
        result_count freed = result_count ctx)"
proof -
  have m: "parsed_memory ctx p ctx'"
    using parse_cases [OF assms(1), where host = host and ctx = ctx and options = options] assms(2) by simp
  have "same_memory ctx (release_parsed ctx' p)" by (rule release_parsed_memory [OF m])
  then have "release_parsed ctx' p = ctx\<lparr>host_calls := host_calls (release_parsed ctx' p)\<rparr>"
    by (simp add: same_memory_def)
  then obtain n where "release_parsed ctx' p = ctx\<lparr>host_calls := n\<rparr>" by blast
  then show ?thesis using m by (cases ctx; cases ctx') (auto simp: parsed_memory_def)
qed

theorem parse_release_roundtrip_witness:
  "\<exists>ctx'. snd (apta_result_parse demo_host roomy_context None (Some sample_container)) = ctx' \<and>
     result_count ctx' = 1 \<and> map fst (headers ctx') = [0x14020, 0x12020, 0x10020]"
proof -
  obtain ctx' where "apta_result_parse demo_host roomy_context None (Some sample_container) =
     (Ret \<lparr>pr_result = sample_result, pr_block = 0x10020, pr_spans_block = 0x12020,
           pr_columns_block = 0x14020\<rparr>, ctx')"
    using sample_parsed by blast
  note r = this
  from parse_release_roundtrip [OF _ this]
  have "result_count ctx' = 1" "map fst (headers ctx') = [0x14020, 0x12020, 0x10020]"
    by (simp_all add: sample_length roomy_context_def demo_context_def)
  then show ?thesis using r by simp
qed
end
