(* ===== verification/Apta_Wovr_Writer.thy ===== *)
theory Apta_Wovr_Writer
  imports Apta_Wovr_Hardening
begin

text \<open>
  The container writer (\<^verbatim>\<open>src/serialization/apta_wovr_writer.c\<close>): the layout calculation, the size
  query and \<open>apta_result_serialize\<close>, as stores into the caller's buffer in the order of the
  code.  \<open>container_bytes\<close> is the abstract format, a concatenation of fields; the writer is
  shown to produce exactly it.
\<close>

section \<open>Options and layout\<close>

record serialize_options =
  so_struct_size :: u32
  so_api_version :: u32
  so_flags :: u32
  so_reserved32 :: "u32 list"
  so_maximum_output_bytes :: u64
  so_reserved64 :: "u64 list"

definition APTA_SERIALIZE_CANONICAL :: u32 where [apta_consts]: "APTA_SERIALIZE_CANONICAL = 1"
definition sizeof_serialize_options :: u64 where [apta_consts]: "sizeof_serialize_options = 64"

definition apta_serialize_options_init :: serialize_options where
  "apta_serialize_options_init =
     \<lparr>so_struct_size = 64, so_api_version = APTA_API_VERSION, so_flags = APTA_SERIALIZE_CANONICAL,
      so_reserved32 = [0, 0, 0, 0, 0], so_maximum_output_bytes = 0, so_reserved64 = [0, 0, 0]\<rparr>"

definition apta_serialization_options_are_valid :: "serialize_options option \<Rightarrow> bool" where
  "apta_serialization_options_are_valid options =
     (case options of
        None \<Rightarrow> True
      | Some o1 \<Rightarrow>
          apta_internal_validate_struct True sizeof_serialize_options
            (so_struct_size o1) (so_api_version o1) \<and>
          so_flags o1 AND NOT APTA_SERIALIZE_CANONICAL = 0 \<and>
          list_all (\<lambda>x. x = 0) (so_reserved32 o1) \<and> list_all (\<lambda>x. x = 0) (so_reserved64 o1))"

record serialization_layout =
  lay_total_size :: u64
  lay_payload_size :: u64
  lay_packed_column_count :: u32
  lay_logical_column_count :: u32
  lay_container_flags :: u32
  lay_wovr_flags :: u32

record layout_state =
  ls_packed_columns :: u64
  ls_logical_columns :: u64
  ls_previous_end :: u64

definition layout_column :: "column list \<Rightarrow> nat \<Rightarrow> unit outcome" where
  "layout_column cs index =
     obind (nth_o cs index) (\<lambda>c.
     check (flags c AND COLUMN_VALID \<noteq> 0 \<and> sint (maximum c) < sint (minimum c)) ERROR_INTERNAL)"

definition layout_span :: "span list \<Rightarrow> nat \<Rightarrow> layout_state \<Rightarrow> layout_state outcome" where
  "layout_span ss index st =
     obind (nth_o ss index) (\<lambda>s.
     obind (check (end_frame s \<le> first_frame s \<or> column_count s = 0 \<or> columns s = None \<or>
                   index \<noteq> 0 \<and> first_frame s < ls_previous_end st \<or>
                   UINT32_MAX - first_column_index s < column_count s) ERROR_INTERNAL) (\<lambda>_.
     let logical_end = ucast (first_column_index s) + ucast (column_count s) :: u64;
         logical = (if ls_logical_columns st < logical_end then logical_end
                    else ls_logical_columns st)
     in
     obind (check (ucast UINT32_MAX - ls_packed_columns st < ucast (column_count s))
              ERROR_LIMIT_EXCEEDED) (\<lambda>_.
     obind (deref (columns s)) (\<lambda>cs.
     obind (ofor [0..<unat (column_count s)] (\<lambda>c _. layout_column cs c) ()) (\<lambda>_.
     Ret \<lparr>ls_packed_columns = ls_packed_columns st + ucast (column_count s),
          ls_logical_columns = logical, ls_previous_end = end_frame s\<rparr>)))))"

text \<open>The number of logical columns: all columns of the source when its length is known.\<close>

definition layout_logical :: "apta_result \<Rightarrow> u64 \<Rightarrow> u64 outcome" where
  "layout_logical r logical =
     (let ov = overview r in
      if total_source_frames r \<noteq> APTA_TOTAL_FRAMES_UNKNOWN
      then obind (check (total_source_frames r < origin_frame ov) ERROR_INTERNAL) (\<lambda>_.
           let required = required_columns (total_source_frames r - origin_frame ov)
                            (frames_per_column ov)
           in obind (check (ucast UINT32_MAX < required \<or> required < logical)
                       ERROR_LIMIT_EXCEEDED) (\<lambda>_. Ret required))
      else Ret logical)"

definition layout_container_flags :: "apta_result \<Rightarrow> u32" where
  "layout_container_flags r =
     (let f1 = (if state (overview r) \<noteq> FEATURE_STATE_FINAL \<or> session_state r \<noteq> SESSION_COMPLETED
                then CONTAINER_FLAG_PARTIAL_RESULT else 0)
      in if total_source_frames r = APTA_TOTAL_FRAMES_UNKNOWN
         then f1 OR (CONTAINER_FLAG_PARTIAL_RESULT OR CONTAINER_FLAG_SOURCE_DURATION_UNKNOWN)
         else f1)"

definition apta_serialization_calculate_layout ::
    "apta_result \<Rightarrow> serialize_options option \<Rightarrow> serialization_layout outcome" where
  "apta_serialization_calculate_layout r options =
     (let ov = overview r in
      obind (check (\<not> apta_serialization_options_are_valid options) ERROR_INVALID_ARGUMENT) (\<lambda>_.
      obind (check (available_features r AND FEATURE_WAVEFORM_OVERVIEW = 0)
               STATUS_NOT_AVAILABLE) (\<lambda>_.
      obind (check (frames_per_column ov = 0 \<or> span_count ov = 0 \<or> spans ov = None \<or>
                    state ov < FEATURE_STATE_PARTIAL \<or> FEATURE_STATE_FINAL < state ov \<or>
                    source_sample_rate r = 0 \<or> source_channel_count r = 0 \<or>
                    65535 < source_channel_count r \<or> 65535 < source_channel_layout r \<or>
                    \<not> apta_internal_source_fingerprint_is_valid (fingerprint_kind r)
                        (Some (fingerprint r))) ERROR_INTERNAL) (\<lambda>_.
      obind (deref (spans ov)) (\<lambda>ss.
      obind (ofor [0..<unat (span_count ov)] (layout_span ss)
               \<lparr>ls_packed_columns = 0, ls_logical_columns = 0, ls_previous_end = 0\<rparr>) (\<lambda>st.
      obind (layout_logical r (ls_logical_columns st)) (\<lambda>logical.
      obind (check (logical = 0 \<or> ucast UINT32_MAX < logical) ERROR_INTERNAL) (\<lambda>_.
      let span_bytes = ucast (span_count ov) * 32 :: u64;
          column_bytes = ls_packed_columns st * 10
      in
      obind (check (UINT64_MAX - 48 < span_bytes \<or> UINT64_MAX - (48 + span_bytes) < column_bytes)
               ERROR_LIMIT_EXCEEDED) (\<lambda>_.
      let psize = 48 + span_bytes + column_bytes in
      obind (check (UINT64_MAX - 136 < psize) ERROR_LIMIT_EXCEEDED) (\<lambda>_.
      let tsize = 136 + psize in
      obind (check (case options of None \<Rightarrow> False
                    | Some o1 \<Rightarrow> so_maximum_output_bytes o1 \<noteq> 0 \<and> so_maximum_output_bytes o1 < tsize)
               ERROR_LIMIT_EXCEEDED) (\<lambda>_.
      Ret \<lparr>lay_total_size = tsize, lay_payload_size = psize,
           lay_packed_column_count = ucast (ls_packed_columns st),
           lay_logical_column_count = ucast logical,
           lay_container_flags = layout_container_flags r,
           lay_wovr_flags = state ov AND WOVR_STATE_MASK\<rparr>)))))))))))"

definition apta_result_query_serialized_size ::
    "apta_result \<Rightarrow> serialize_options option \<Rightarrow> u64 outcome" where
  "apta_result_query_serialized_size r options =
     obind (apta_serialization_calculate_layout r options) (\<lambda>lay. Ret (lay_total_size lay))"

section \<open>The stores\<close>

definition header_writes :: "apta_result \<Rightarrow> serialization_layout \<Rightarrow> (nat \<times> bytes) list" where
  "header_writes r lay =
     [(0, tag_APTA), (4, apta_put_u16 96), (6, apta_put_u16 1), (8, apta_put_u16 1),
      (10, apta_put_u16 0), (12, apta_put_u32 APTA_API_VERSION),
      (16, apta_put_u32 (lay_container_flags lay)), (20, apta_put_u32 1), (24, apta_put_u64 96),
      (32, apta_put_u64 (lay_total_size lay)), (40, apta_put_u64 (total_source_frames r)),
      (48, apta_put_u32 (source_sample_rate r)),
      (52, apta_put_u16 (ucast (source_channel_count r))),
      (54, apta_put_u16 (ucast (source_channel_layout r))),
      (56, fingerprint r), (88, apta_put_u32 (fingerprint_kind r))]"

definition directory_writes :: "serialization_layout \<Rightarrow> (nat \<times> bytes) list" where
  "directory_writes lay =
     [(96, tag_WOVR), (100, apta_put_u16 1), (102, apta_put_u16 SECTION_FLAG_REQUIRED),
      (104, apta_put_u64 136), (112, apta_put_u64 (lay_payload_size lay)),
      (120, apta_put_u64 (lay_payload_size lay))]"

definition column_data_offset :: "overview \<Rightarrow> u64" where
  "column_data_offset ov = 48 + ucast (span_count ov) * 32"

definition payload_writes :: "overview \<Rightarrow> serialization_layout \<Rightarrow> (nat \<times> bytes) list" where
  "payload_writes ov lay =
     [(136, apta_put_u32 (level_id ov)), (140, apta_put_u32 (frames_per_column ov)),
      (144, apta_put_u64 (origin_frame ov)), (152, apta_put_u32 (lay_logical_column_count lay)),
      (156, apta_put_u32 (span_count ov)), (160, apta_put_u64 48),
      (168, apta_put_u64 (column_data_offset ov)), (176, apta_put_u32 (lay_wovr_flags lay))]"

definition span_writes :: "nat \<Rightarrow> span \<Rightarrow> u32 \<Rightarrow> (nat \<times> bytes) list" where
  "span_writes at s packed_offset =
     [(at, apta_put_u64 (first_frame s)), (at + 8, apta_put_u64 (end_frame s)),
      (at + 16, apta_put_u32 (first_column_index s)), (at + 20, apta_put_u32 (column_count s)),
      (at + 24, apta_put_u32 packed_offset)]"

definition column_writes :: "nat \<Rightarrow> column \<Rightarrow> (nat \<times> bytes) list" where
  "column_writes at c =
     [(at, apta_put_u16 (minimum c)), (at + 2, apta_put_u16 (maximum c)),
      (at + 4, apta_put_u16 (rms c)), (at + 6, [low c]), (at + 7, [mid c]), (at + 8, [high c]),
      (at + 9, [flags c])]"

definition write_column :: "nat \<Rightarrow> u32 \<Rightarrow> column list \<Rightarrow> nat \<Rightarrow> bytes \<Rightarrow> bytes outcome" where
  "write_column cdata packed_offset cs index buf =
     obind (nth_o cs index) (\<lambda>c.
     exec_writes (column_writes (136 + cdata + unat (packed_offset + of_nat index) * 10) c) buf)"

definition write_span :: "span list \<Rightarrow> nat \<Rightarrow> nat \<Rightarrow> bytes \<times> u32 \<Rightarrow> (bytes \<times> u32) outcome" where
  "write_span ss cdata index st =
     (case st of (buf, packed_offset) \<Rightarrow>
      obind (nth_o ss index) (\<lambda>s.
      obind (exec_writes (span_writes (136 + 48 + index * 32) s packed_offset) buf) (\<lambda>buf1.
      obind (if column_count s = 0 then Ret [] else deref (columns s)) (\<lambda>cs.
      obind (ofor [0..<unat (column_count s)] (write_column cdata packed_offset cs) buf1) (\<lambda>buf2.
      Ret (buf2, packed_offset + column_count s))))))"

text \<open>\<open>buffer\<close> is the caller's memory, \<open>None\<close> for a null pointer; the outcome holds its contents
  afterwards and the number of bytes written.\<close>

definition apta_result_serialize ::
    "apta_result \<Rightarrow> serialize_options option \<Rightarrow> bytes option \<Rightarrow> (bytes \<times> usize) outcome" where
  "apta_result_serialize r options buffer =
     obind (apta_serialization_calculate_layout r options) (\<lambda>lay.
     obind (check (SIZE_MAX < lay_total_size lay) ERROR_LIMIT_EXCEEDED) (\<lambda>_.
     case buffer of
       None \<Rightarrow> Fail ERROR_INVALID_ARGUMENT
     | Some mem \<Rightarrow>
         let ov = overview r; tot = unat (lay_total_size lay) in
         obind (check ((of_nat (length mem) :: u64) < lay_total_size lay)
                  ERROR_BUFFER_TOO_SMALL) (\<lambda>_.
         obind (put_bytes mem 0 (replicate tot 0)) (\<lambda>b0.
         obind (exec_writes (header_writes r lay @ directory_writes lay @ payload_writes ov lay)
                  b0) (\<lambda>b1.
         obind (deref (spans ov)) (\<lambda>ss.
         obind (ofor [0..<unat (span_count ov)]
                  (write_span ss (unat (column_data_offset ov))) (b1, 0)) (\<lambda>(b2, _).
         obind (get_range b2 136 (unat (lay_payload_size lay))) (\<lambda>pay.
         obind (put_bytes b2 128 (apta_put_u32 (crc_of pay))) (\<lambda>b3.
         obind (get_range b3 0 92) (\<lambda>prefix.
         obind (put_bytes b3 92 (apta_put_u32 (crc_of prefix))) (\<lambda>b4.
         Ret (b4, lay_total_size lay))))))))))))"

section \<open>The format\<close>

definition column_bytes :: "column \<Rightarrow> bytes" where
  "column_bytes c = apta_put_u16 (minimum c) @ apta_put_u16 (maximum c) @ apta_put_u16 (rms c) @
     [low c, mid c, high c, flags c]"

definition span_bytes :: "span \<Rightarrow> u32 \<Rightarrow> bytes" where
  "span_bytes s packed_offset =
     apta_put_u64 (first_frame s) @ apta_put_u64 (end_frame s) @
     apta_put_u32 (first_column_index s) @ apta_put_u32 (column_count s) @
     apta_put_u32 packed_offset @ replicate 4 0"

definition span_columns :: "span \<Rightarrow> column list" where
  "span_columns s = (case columns s of None \<Rightarrow> [] | Some cs \<Rightarrow> cs)"

text \<open>The packed position of the columns of each span: the columns of the spans before it.\<close>

definition packed_before :: "span list \<Rightarrow> nat \<Rightarrow> nat" where
  "packed_before ss i = sum_list (map (length \<circ> span_columns) (take i ss))"

definition spans_bytes :: "span list \<Rightarrow> nat \<Rightarrow> bytes" where
  "spans_bytes ss n = concat (map (\<lambda>i. span_bytes (ss ! i) (of_nat (packed_before ss i))) [0..<n])"

definition columns_bytes :: "span list \<Rightarrow> bytes" where
  "columns_bytes ss = concat (map column_bytes (concat (map span_columns ss)))"

definition wovr_head_bytes :: "overview \<Rightarrow> serialization_layout \<Rightarrow> bytes" where
  "wovr_head_bytes ov lay =
     apta_put_u32 (level_id ov) @ apta_put_u32 (frames_per_column ov) @
     apta_put_u64 (origin_frame ov) @ apta_put_u32 (lay_logical_column_count lay) @
     apta_put_u32 (span_count ov) @ apta_put_u64 48 @ apta_put_u64 (column_data_offset ov) @
     apta_put_u32 (lay_wovr_flags lay) @ replicate 4 0"

definition wovr_bytes :: "overview \<Rightarrow> serialization_layout \<Rightarrow> span list \<Rightarrow> bytes" where
  "wovr_bytes ov lay ss = wovr_head_bytes ov lay @ spans_bytes ss (length ss) @ columns_bytes ss"

definition header_bytes :: "apta_result \<Rightarrow> serialization_layout \<Rightarrow> bytes" where
  "header_bytes r lay =
     tag_APTA @ apta_put_u16 96 @ apta_put_u16 1 @ apta_put_u16 1 @ apta_put_u16 0 @
     apta_put_u32 APTA_API_VERSION @ apta_put_u32 (lay_container_flags lay) @ apta_put_u32 1 @
     apta_put_u64 96 @ apta_put_u64 (lay_total_size lay) @ apta_put_u64 (total_source_frames r) @
     apta_put_u32 (source_sample_rate r) @ apta_put_u16 (ucast (source_channel_count r)) @
     apta_put_u16 (ucast (source_channel_layout r)) @ fingerprint r @
     apta_put_u32 (fingerprint_kind r)"

definition directory_bytes :: "serialization_layout \<Rightarrow> u32 \<Rightarrow> bytes" where
  "directory_bytes lay crc =
     tag_WOVR @ apta_put_u16 1 @ apta_put_u16 SECTION_FLAG_REQUIRED @ apta_put_u64 136 @
     apta_put_u64 (lay_payload_size lay) @ apta_put_u64 (lay_payload_size lay) @
     apta_put_u32 crc @ replicate 4 0"

definition container_bytes :: "apta_result \<Rightarrow> serialization_layout \<Rightarrow> span list \<Rightarrow> bytes" where
  "container_bytes r lay ss =
     (let pay = wovr_bytes (overview r) lay ss; hdr = header_bytes r lay
      in hdr @ apta_put_u32 (crc_of hdr) @ directory_bytes lay (crc_of pay) @ pay)"

text \<open>The arrays of the result have the lengths their counts state.\<close>

definition arrays_ok :: "apta_result \<Rightarrow> span list \<Rightarrow> bool" where
  "arrays_ok r ss \<longleftrightarrow>
     spans (overview r) = Some ss \<and> length ss = unat (span_count (overview r)) \<and>
     list_all (\<lambda>s. \<exists>cs. columns s = Some cs \<and> length cs = unat (column_count s)) ss \<and>
     length (fingerprint r) = 32"

lemma length_tags [simp]: "length tag_APTA = 4" "length tag_WOVR = 4"
  by (simp_all add: apta_consts)

lemma length_column_bytes [simp]: "length (column_bytes c) = 10"
  by (simp add: column_bytes_def)

lemma length_span_bytes [simp]: "length (span_bytes s p) = 32"
  by (simp add: span_bytes_def)

lemma length_wovr_head [simp]: "length (wovr_head_bytes ov lay) = 48"
  by (simp add: wovr_head_bytes_def)

lemma length_directory_bytes [simp]: "length (directory_bytes lay crc) = 40"
  by (simp add: directory_bytes_def)

lemma length_concat_const: "(\<And>x. x \<in> set xs \<Longrightarrow> length (f x) = k) \<Longrightarrow> length (concat (map f xs)) = k * length xs"
  by (induction xs) simp_all

lemma length_spans_bytes [simp]: "length (spans_bytes ss n) = 32 * n"
  unfolding spans_bytes_def by (subst length_concat_const [where k = 32]) simp_all

lemma length_concat_columns: "length (concat (map span_columns (take i ss))) = packed_before ss i"
  by (simp add: packed_before_def length_concat comp_def)

lemma length_columns_bytes [simp]: "length (columns_bytes (take i ss)) = 10 * packed_before ss i"
  unfolding columns_bytes_def
  by (subst length_concat_const [where k = 10]) (simp_all add: length_concat_columns)

lemma length_columns_all: "length (columns_bytes ss) = 10 * packed_before ss (length ss)"
  using length_columns_bytes [of "length ss" ss] by simp

lemma packed_before_Suc: "i < length ss \<Longrightarrow> packed_before ss (Suc i) = packed_before ss i + length (span_columns (ss ! i))"
  by (simp add: packed_before_def take_Suc_conv_app_nth)

lemma packed_before_mono: "i \<le> j \<Longrightarrow> packed_before ss i \<le> packed_before ss j"
proof (induction rule: inc_induct)
  case (step n)
  have "packed_before ss n \<le> packed_before ss (Suc n)"
    by (cases "n < length ss") (simp_all add: packed_before_Suc, simp add: packed_before_def)
  then show ?case using step by simp
qed simp

lemma columns_bytes_Suc:
  "i < length ss \<Longrightarrow> columns_bytes (take (Suc i) ss) =
     columns_bytes (take i ss) @ concat (map column_bytes (span_columns (ss ! i)))"
  by (simp add: columns_bytes_def take_Suc_conv_app_nth)

section \<open>The writer produces the format\<close>

lemma exec_column_writes:
  assumes "length pre = at" "length old = 10"
  shows "exec_writes (column_writes at c) (pre @ old @ post) = Ret (pre @ column_bytes c @ post)"
proof -
  have "column_writes at c = consecutive at [apta_put_u16 (minimum c), apta_put_u16 (maximum c),
      apta_put_u16 (rms c), [low c], [mid c], [high c], [flags c]]"
    by (simp add: column_writes_def)
  then show ?thesis
    using assms by (simp add: exec_consecutive column_bytes_def del: consecutive.simps)
qed

lemma exec_span_writes:
  assumes "length pre = at" "length old = 28"
  shows "exec_writes (span_writes at s p) (pre @ old @ replicate 4 0 @ post) = Ret (pre @ span_bytes s p @ post)"
proof -
  have "span_writes at s p = consecutive at [apta_put_u64 (first_frame s), apta_put_u64 (end_frame s),
      apta_put_u32 (first_column_index s), apta_put_u32 (column_count s), apta_put_u32 p]"
    by (simp add: span_writes_def)
  then show ?thesis
    using assms by (simp add: exec_consecutive span_bytes_def del: consecutive.simps)
qed

lemma write_columns:
  assumes "length P = 136 + cdata + unat packed * 10" "unat packed + length cs < 4294967296"
  shows "ofor [0..<length cs] (write_column cdata packed cs) (P @ replicate (10 * length cs) 0 @ Q) =
    Ret (P @ concat (map column_bytes cs) @ Q)"
proof -
  define st where "st k = P @ concat (map column_bytes (take k cs)) @ replicate (10 * (length cs - k)) 0 @ Q" for k
  have "write_column cdata packed cs k (st k) = Ret (st (Suc k))" if k: "k < length cs" for k
  proof -
    let ?at = "136 + cdata + unat (packed + of_nat k) * 10"
    have "unat (of_nat k :: u32) = k" using unat_of_nat [where 'a = 32, of k] k assms(2) by simp
    then have at: "unat (packed + of_nat k) = unat packed + k"
      using k assms(2) by (subst unat_plus_u32) simp_all
    have pre: "length (P @ concat (map column_bytes (take k cs))) = ?at"
      using k assms(1) at by (subst length_append, subst length_concat_const [where k = 10]) simp_all
    have "10 * (length cs - k) = 10 + 10 * (length cs - Suc k)" using k by simp
    then have "st k = (P @ concat (map column_bytes (take k cs))) @ replicate 10 0 @
        (replicate (10 * (length cs - Suc k)) 0 @ Q)"
      by (simp add: st_def replicate_add)
    then show ?thesis
      using k exec_column_writes [OF pre, of "replicate 10 0" "cs ! k"]
      by (simp add: write_column_def nth_o_def st_def take_Suc_conv_app_nth)
  qed
  then have "ofor [0..<length cs] (write_column cdata packed cs) (st 0) = Ret (st (length [0..<length cs]))"
    by (intro ofor_cong_Ret) simp
  then show ?thesis by (simp add: st_def)
qed

lemma spans_bytes_Suc:
  "spans_bytes ss (Suc i) = spans_bytes ss i @ span_bytes (ss ! i) (of_nat (packed_before ss i))"
  by (simp add: spans_bytes_def)

lemma write_spans:
  assumes arr: "list_all (\<lambda>s. \<exists>cs. columns s = Some cs \<and> length cs = unat (column_count s)) ss"
    and A: "length A = 184" and cd: "cdata = 48 + 32 * length ss"
    and fit: "packed_before ss (length ss) < 4294967296"
  shows "\<exists>p. ofor [0..<length ss] (write_span ss cdata)
      (A @ replicate (32 * length ss) 0 @ replicate (10 * packed_before ss (length ss)) 0 @ R, 0) =
    Ret (A @ spans_bytes ss (length ss) @ columns_bytes ss @ R, p)"
proof -
  let ?n = "length ss" and ?P = "packed_before ss"
  define st where "st i = (A @ spans_bytes ss i @ replicate (32 * (?n - i)) 0 @ columns_bytes (take i ss) @
      replicate (10 * (?P ?n - ?P i)) 0 @ R, of_nat (?P i) :: u32)" for i
  have "write_span ss cdata i (st i) = Ret (st (Suc i))" if i: "i < ?n" for i
  proof -
    let ?s = "ss ! i" and ?p = "of_nat (?P i) :: u32"
    obtain cs where cs: "columns ?s = Some cs" "length cs = unat (column_count ?s)" "span_columns ?s = cs"
      using arr i by (auto simp: list_all_length span_columns_def)
    have P1: "?P (Suc i) = ?P i + length cs" using i cs by (simp add: packed_before_Suc)
    have le: "?P (Suc i) \<le> ?P ?n" using i by (intro packed_before_mono) simp
    then have up: "unat ?p = ?P i"
      using P1 fit unat_of_nat [where 'a = 32, of "?P i"] by simp
    define Q where "Q = replicate (32 * (?n - Suc i)) (0 :: u8) @ columns_bytes (take i ss)"
    define Z where "Z = replicate (10 * (?P ?n - ?P (Suc i))) (0 :: u8) @ R"
    have z1: "32 * (?n - i) = 28 + (4 + 32 * (?n - Suc i))" using i by simp
    have z2: "10 * (?P ?n - ?P i) = 10 * length cs + 10 * (?P ?n - ?P (Suc i))" using P1 le by simp
    have r32: "replicate 32 (0 :: u8) = replicate 28 0 @ replicate 4 0"
      by (simp flip: replicate_add)
    have b0: "fst (st i) = (A @ spans_bytes ss i) @ replicate 28 0 @ replicate 4 0 @
        (Q @ replicate (10 * length cs) 0 @ Z)"
      by (simp add: st_def z1 z2 replicate_add r32 Q_def Z_def)
    have l1: "length (A @ spans_bytes ss i) = 136 + 48 + i * 32" using A by simp
    have w1: "exec_writes (span_writes (136 + 48 + i * 32) ?s ?p) (fst (st i)) =
        Ret ((A @ spans_bytes ss (Suc i) @ Q) @ replicate (10 * length cs) 0 @ Z)"
      unfolding b0 using exec_span_writes [OF l1, of "replicate 28 0"]
      by (simp add: spans_bytes_Suc)
    have l2: "length (A @ spans_bytes ss (Suc i) @ Q) = 136 + cdata + unat ?p * 10"
      using A i cd up by (simp add: Q_def)
    have w2: "ofor [0..<length cs] (write_column cdata ?p cs)
        ((A @ spans_bytes ss (Suc i) @ Q) @ replicate (10 * length cs) 0 @ Z) =
        Ret ((A @ spans_bytes ss (Suc i) @ Q) @ concat (map column_bytes cs) @ Z)"
      using l2 up P1 le fit by (intro write_columns) simp_all
    have "column_count ?s = of_nat (length cs)" using cs(2) by simp
    then have p1: "?p + column_count ?s = of_nat (?P (Suc i))" using P1 by simp
    have "st (Suc i) = ((A @ spans_bytes ss (Suc i) @ Q) @ concat (map column_bytes cs) @ Z, of_nat (?P (Suc i)))"
      using i cs(3) by (simp add: st_def Q_def Z_def columns_bytes_Suc)
    moreover have "(if column_count ?s = 0 then Ret [] else deref (columns ?s)) = Ret cs"
      using cs by auto
    ultimately show ?thesis
      using i w1 w2 p1 cs(2)
      by (simp add: write_span_def nth_o_def split_def) (simp add: st_def)
  qed
  then have "ofor [0..<?n] (write_span ss cdata) (st 0) = Ret (st (length [0..<?n]))"
    by (intro ofor_cong_Ret) simp
  moreover have "spans_bytes ss 0 = []" "columns_bytes [] = []" "?P 0 = 0"
    by (simp_all add: spans_bytes_def columns_bytes_def packed_before_def)
  ultimately show ?thesis by (simp add: st_def)
qed

section \<open>The layout\<close>

lemma layout_columns_owp:
  assumes "n \<le> length cs"
  shows "owp (ofor [0..<n] (\<lambda>c _. layout_column cs c) ()) (\<lambda>_. True)"
proof (rule ofor_upt_owp [where I = "\<lambda>_ _. True"])
  fix i assume "i < n"
  then show "owp (layout_column cs i) (\<lambda>_. True)"
    using assms by (simp add: layout_column_def nth_o_def)
qed simp

definition layout_inv :: "span list \<Rightarrow> nat \<Rightarrow> layout_state \<Rightarrow> bool" where
  "layout_inv ss i st \<longleftrightarrow>
     unat (ls_packed_columns st) = packed_before ss i \<and> packed_before ss i < 4294967296 \<and>
     list_all (\<lambda>s. unat (first_column_index s) + unat (column_count s) \<le> unat (ls_logical_columns st))
       (take i ss)"

lemma layout_span_owp:
  assumes arr: "list_all (\<lambda>s. \<exists>cs. columns s = Some cs \<and> length cs = unat (column_count s)) ss"
    and i: "i < length ss" and I: "layout_inv ss i st"
  shows "owp (layout_span ss i st) (layout_inv ss (Suc i))"
proof -
  let ?s = "ss ! i"
  obtain cs where cs: "columns ?s = Some cs" "length cs = unat (column_count ?s)"
      "span_columns ?s = cs"
    using arr i by (auto simp: list_all_length span_columns_def)
  have p: "unat (ls_packed_columns st) = packed_before ss i" "packed_before ss i < 4294967296"
    using I by (simp_all add: layout_inv_def)
  define lend where "lend = (ucast (first_column_index ?s) + ucast (column_count ?s) :: u64)"
  have le: "unat lend = unat (first_column_index ?s) + unat (column_count ?s)"
    using unat_u32_bound [of "column_count ?s"] unat_u32_bound [of "first_column_index ?s"]
    by (simp add: lend_def unat_plus_u64)
  have g: "unat (ucast UINT32_MAX - ls_packed_columns st :: u64) = 4294967295 - packed_before ss i"
    using p unat_sub [of "ls_packed_columns st" "ucast UINT32_MAX"] by (simp add: word_le_nat_alt)
  have a: "unat (ls_packed_columns st + ucast (column_count ?s)) =
      packed_before ss i + unat (column_count ?s)"
    using p unat_u32_bound [of "column_count ?s"] by (simp add: unat_plus_u64)
  have "layout_inv ss (Suc i)
      \<lparr>ls_packed_columns = ls_packed_columns st + ucast (column_count ?s),
       ls_logical_columns = (if ls_logical_columns st < lend then lend else ls_logical_columns st),
       ls_previous_end = end_frame ?s\<rparr>"
    if "\<not> ucast UINT32_MAX - ls_packed_columns st < ucast (column_count ?s)"
    using that I i cs g a le p
    by (auto simp: layout_inv_def packed_before_Suc word_less_nat_alt not_less take_Suc_conv_app_nth
        list_all_iff intro: order_trans)
  then show ?thesis
    unfolding layout_span_def Let_def owp_obind owp_check lend_def
    using i cs by (auto intro!: nth_o_owp owp_mono [OF layout_columns_owp])
qed

text \<open>What a calculated layout says about the result.\<close>

definition layout_ok :: "apta_result \<Rightarrow> span list \<Rightarrow> serialization_layout \<Rightarrow> bool" where
  "layout_ok r ss lay \<longleftrightarrow>
     packed_before ss (length ss) < 4294967296 \<and>
     unat (lay_payload_size lay) = 48 + 32 * length ss + 10 * packed_before ss (length ss) \<and>
     unat (lay_total_size lay) = 136 + unat (lay_payload_size lay) \<and>
     lay_container_flags lay = layout_container_flags r \<and>
     lay_wovr_flags lay = state (overview r) AND WOVR_STATE_MASK \<and>
     lay_logical_column_count lay \<noteq> 0 \<and>
     list_all (\<lambda>s. unat (first_column_index s) + unat (column_count s) \<le>
       unat (lay_logical_column_count lay)) ss \<and>
     (total_source_frames r \<noteq> APTA_TOTAL_FRAMES_UNKNOWN \<longrightarrow>
        origin_frame (overview r) \<le> total_source_frames r \<and>
        ucast (lay_logical_column_count lay) =
          required_columns (total_source_frames r - origin_frame (overview r))
            (frames_per_column (overview r)))"

definition result_ok :: "apta_result \<Rightarrow> bool" where
  "result_ok r \<longleftrightarrow>
     frames_per_column (overview r) \<noteq> 0 \<and> span_count (overview r) \<noteq> 0 \<and>
     FEATURE_STATE_PARTIAL \<le> state (overview r) \<and> state (overview r) \<le> FEATURE_STATE_FINAL \<and>
     source_sample_rate r \<noteq> 0 \<and> source_channel_count r \<noteq> 0 \<and>
     source_channel_count r \<le> 65535 \<and> source_channel_layout r \<le> 65535 \<and>
     apta_internal_source_fingerprint_is_valid (fingerprint_kind r) (Some (fingerprint r))"

lemma layout_sizes:
  assumes "unat p = k" "k < 4294967296" "unat (n :: u32) = m"
  shows "unat (48 + ucast n * 32 + p * 10 :: u64) = 48 + 32 * m + 10 * k"
    and "unat (184 + (ucast n * 32 + p * 10) :: u64) = 184 + (32 * m + 10 * k)"
proof -
  have m: "m < 4294967296" using assms(3) unat_u32_bound [of n] by simp
  have "unat (p * 10) = 10 * k" using assms by (simp add: unat_times_u64)
  then have s: "unat (ucast n * 32 + p * 10 :: u64) = 32 * m + 10 * k"
    using assms m by (simp add: unat_plus_u64)
  have "unat (48 + (ucast n * 32 + p * 10) :: u64) = 48 + (32 * m + 10 * k)"
    using s assms(2) m by (subst unat_plus_u64) simp_all
  then show "unat (48 + ucast n * 32 + p * 10 :: u64) = 48 + 32 * m + 10 * k"
    by (simp add: add.assoc)
  show "unat (184 + (ucast n * 32 + p * 10) :: u64) = 184 + (32 * m + 10 * k)"
    using s assms(2) m by (subst unat_plus_u64) simp_all
qed

lemma ucast_u64_u32: "x \<le> ucast UINT32_MAX \<Longrightarrow> ucast (ucast (x :: u64) :: u32) = x"
  by (rule word_unat_eq_iff [THEN iffD2])
    (simp add: word_le_nat_alt unsigned_ucast_eq unsigned_take_bit_eq take_bit_nat_eq_self)

lemma layout_logical_owp:
  assumes "layout_inv ss (length ss) st"
  shows "owp (layout_logical r (ls_logical_columns st)) (\<lambda>l.
     (\<forall>s\<in>set ss. unat (first_column_index s) + unat (column_count s) \<le> unat l) \<and>
     (total_source_frames r \<noteq> APTA_TOTAL_FRAMES_UNKNOWN \<longrightarrow>
        origin_frame (overview r) \<le> total_source_frames r \<and>
        l = required_columns (total_source_frames r - origin_frame (overview r))
            (frames_per_column (overview r))))"
  using assms
  by (auto simp: layout_logical_def Let_def layout_inv_def list_all_iff not_less word_le_nat_alt
      dest!: bspec intro: order_trans)

lemma layout_owp:
  assumes arr: "arrays_ok r ss"
  shows "owp (apta_serialization_calculate_layout r options) (\<lambda>lay. layout_ok r ss lay \<and> result_ok r)"
proof -
  let ?n = "unat (span_count (overview r))"
  have ss: "spans (overview r) = Some ss" "length ss = ?n"
      "list_all (\<lambda>s. \<exists>cs. columns s = Some cs \<and> length cs = unat (column_count s)) ss"
    using arr by (auto simp: arrays_ok_def)
  have loop: "owp (ofor [0..<?n] (layout_span ss)
      \<lparr>ls_packed_columns = 0, ls_logical_columns = 0, ls_previous_end = 0\<rparr>) (layout_inv ss (length ss))"
    unfolding ss(2) [symmetric] using ss(3)
    by (intro ofor_upt_owp layout_span_owp) (auto simp: layout_inv_def packed_before_def)
  have fin: "layout_ok r ss
      \<lparr>lay_total_size = 184 + (ucast (span_count (overview r)) * 32 + ls_packed_columns st * 10),
       lay_payload_size = 48 + ucast (span_count (overview r)) * 32 + ls_packed_columns st * 10,
       lay_packed_column_count = ucast (ls_packed_columns st),
       lay_logical_column_count = ucast l, lay_container_flags = layout_container_flags r,
       lay_wovr_flags = state (overview r) AND WOVR_STATE_MASK\<rparr>"
    if I: "layout_inv ss (length ss) st" and l: "\<not> (l = 0 \<or> ucast UINT32_MAX < l)"
      "\<forall>s\<in>set ss. unat (first_column_index s) + unat (column_count s) \<le> unat l"
      "total_source_frames r \<noteq> APTA_TOTAL_FRAMES_UNKNOWN \<longrightarrow>
        origin_frame (overview r) \<le> total_source_frames r \<and>
        l = required_columns (total_source_frames r - origin_frame (overview r))
            (frames_per_column (overview r))" for st l
  proof -
    have c: "ucast (ucast l :: u32) = l" using l(1) by (intro ucast_u64_u32) (simp add: not_less)
    have u: "unat (ucast l :: u32) = unat l" using c by (metis unat_ucast_u32_u64)
    have p: "unat (ls_packed_columns st) = packed_before ss (length ss)"
        "packed_before ss (length ss) < 4294967296"
      using I by (simp_all add: layout_inv_def)
    have "ucast l \<noteq> (0 :: u32)" using l(1) c by auto
    then show ?thesis
      using l p ss(2) c u layout_sizes [OF p, of "span_count (overview r)" ?n]
      by (auto simp: layout_ok_def list_all_iff)
  qed
  show ?thesis
    unfolding apta_serialization_calculate_layout_def Let_def owp_obind owp_check ss deref_simps owp.simps
    by (intro impI owp_mono [OF loop] owp_mono [OF layout_logical_owp])
      (auto simp: result_ok_def not_less intro: fin)
qed
section \<open>The whole container\<close>

lemma exec_header_writes:
  assumes "length (fingerprint r) = 32" "length old = 92"
  shows "exec_writes (header_writes r lay) (old @ post) = Ret (header_bytes r lay @ post)"
proof -
  have "header_writes r lay = consecutive 0 [tag_APTA, apta_put_u16 96, apta_put_u16 1, apta_put_u16 1,
      apta_put_u16 0, apta_put_u32 APTA_API_VERSION, apta_put_u32 (lay_container_flags lay),
      apta_put_u32 1, apta_put_u64 96, apta_put_u64 (lay_total_size lay),
      apta_put_u64 (total_source_frames r), apta_put_u32 (source_sample_rate r),
      apta_put_u16 (ucast (source_channel_count r)), apta_put_u16 (ucast (source_channel_layout r)),
      fingerprint r, apta_put_u32 (fingerprint_kind r)]"
    using assms(1) by (simp add: header_writes_def)
  moreover have "exec_writes (consecutive 0 ds) ([] @ old @ post) = Ret ([] @ concat ds @ post)"
    if "length (concat ds) = 92" for ds
    using that assms(2) by (intro exec_consecutive) simp_all
  ultimately show ?thesis
    using assms(1) by (simp add: header_bytes_def del: consecutive.simps)
qed

definition directory_front :: "serialization_layout \<Rightarrow> bytes" where
  "directory_front lay =
     tag_WOVR @ apta_put_u16 1 @ apta_put_u16 SECTION_FLAG_REQUIRED @ apta_put_u64 136 @
     apta_put_u64 (lay_payload_size lay) @ apta_put_u64 (lay_payload_size lay)"

lemma exec_directory_writes:
  assumes "length pre = 96" "length old = 32"
  shows "exec_writes (directory_writes lay) (pre @ old @ post) = Ret (pre @ directory_front lay @ post)"
proof -
  have "directory_writes lay = consecutive 96 [tag_WOVR, apta_put_u16 1,
      apta_put_u16 SECTION_FLAG_REQUIRED, apta_put_u64 136, apta_put_u64 (lay_payload_size lay),
      apta_put_u64 (lay_payload_size lay)]"
    by (simp add: directory_writes_def)
  then show ?thesis
    using assms by (simp add: exec_consecutive directory_front_def del: consecutive.simps)
qed

lemma exec_payload_writes:
  assumes "length pre = 136" "length old = 44"
  shows "exec_writes (payload_writes ov lay) (pre @ old @ replicate 4 0 @ post) =
    Ret (pre @ wovr_head_bytes ov lay @ post)"
proof -
  have "payload_writes ov lay = consecutive 136 [apta_put_u32 (level_id ov),
      apta_put_u32 (frames_per_column ov), apta_put_u64 (origin_frame ov),
      apta_put_u32 (lay_logical_column_count lay), apta_put_u32 (span_count ov), apta_put_u64 48,
      apta_put_u64 (column_data_offset ov), apta_put_u32 (lay_wovr_flags lay)]"
    by (simp add: payload_writes_def)
  then show ?thesis
    using assms by (simp add: exec_consecutive wovr_head_bytes_def del: consecutive.simps)
qed

lemma length_header_bytes: "length (fingerprint r) = 32 \<Longrightarrow> length (header_bytes r lay) = 92"
  by (simp add: header_bytes_def)

lemma length_directory_front: "length (directory_front lay) = 32"
  by (simp add: directory_front_def)

lemma unat_column_data_offset: "unat (column_data_offset ov) = 48 + 32 * unat (span_count ov)"
  using unat_u32_bound [of "span_count ov"]
  by (simp add: column_data_offset_def unat_plus_u64)

lemma length_wovr_bytes: "length (wovr_bytes ov lay ss) = 48 + 32 * length ss + 10 * packed_before ss (length ss)"
  by (simp add: wovr_bytes_def length_columns_all)

lemma zero_split:
  "replicate (136 + (48 + 32 * n + 10 * k)) (0 :: u8) =
   replicate 92 0 @ replicate 4 0 @ replicate 32 0 @ replicate 4 0 @ replicate 4 0 @ replicate 44 0 @
   replicate 4 0 @ replicate (32 * n) 0 @ replicate (10 * k) 0"
  by (simp flip: replicate_add)

lemma serialize_eq:
  assumes arr: "arrays_ok r ss" and lay: "apta_serialization_calculate_layout r options = Ret lay"
    and mem: "length mem < 18446744073709551616" "unat (lay_total_size lay) \<le> length mem"
  shows "apta_result_serialize r options (Some mem) =
    Ret (container_bytes r lay ss @ drop (unat (lay_total_size lay)) mem, lay_total_size lay)"
proof -
  let ?ov = "overview r" and ?n = "length ss" and ?k = "packed_before ss (length ss)"
  let ?R = "drop (unat (lay_total_size lay)) mem"
  have ok: "layout_ok r ss lay" using layout_owp [OF arr, of options] lay by simp
  have ss: "spans ?ov = Some ss" "?n = unat (span_count ?ov)" "length (fingerprint r) = 32"
      "list_all (\<lambda>s. \<exists>cs. columns s = Some cs \<and> length cs = unat (column_count s)) ss"
    using arr by (auto simp: arrays_ok_def)
  have sz: "unat (lay_payload_size lay) = 48 + 32 * ?n + 10 * ?k" "?k < 4294967296"
      "unat (lay_total_size lay) = 136 + (48 + 32 * ?n + 10 * ?k)"
    using ok by (simp_all add: layout_ok_def)
  have h: "length (header_bytes r lay) = 92" by (rule length_header_bytes [OF ss(3)])
  let ?pay = "wovr_bytes ?ov lay ss" and ?hdr = "header_bytes r lay"
  have b0: "put_bytes mem 0 (replicate (unat (lay_total_size lay)) 0) =
      Ret (replicate (unat (lay_total_size lay)) 0 @ ?R)"
    using mem(2) by (simp add: put_bytes_def)
  have b1: "exec_writes (header_writes r lay @ directory_writes lay @ payload_writes ?ov lay)
      (replicate (unat (lay_total_size lay)) 0 @ ?R) =
    Ret ((?hdr @ replicate 4 0 @ directory_front lay @ replicate 4 0 @ replicate 4 0 @
      wovr_head_bytes ?ov lay) @ replicate (32 * ?n) 0 @ replicate (10 * ?k) 0 @ ?R)"
    unfolding sz(3) zero_split exec_writes_append append_assoc
    using exec_header_writes [OF ss(3), of "replicate 92 0"]
      exec_directory_writes [of "?hdr @ replicate 4 0" "replicate 32 0"]
      exec_payload_writes [of "?hdr @ replicate 4 0 @ directory_front lay @ replicate 4 0 @ replicate 4 0" "replicate 44 0"]
    by (simp add: h length_directory_front)
  obtain p where b2: "ofor [0..<?n] (write_span ss (unat (column_data_offset ?ov)))
      ((?hdr @ replicate 4 0 @ directory_front lay @ replicate 4 0 @ replicate 4 0 @
      wovr_head_bytes ?ov lay) @ replicate (32 * ?n) 0 @ replicate (10 * ?k) 0 @ ?R, 0) =
    Ret ((?hdr @ replicate 4 0 @ directory_front lay @ replicate 4 0 @ replicate 4 0 @
      wovr_head_bytes ?ov lay) @ spans_bytes ss ?n @ columns_bytes ss @ ?R, p)"
    using write_spans [OF ss(4) _ _ sz(2), of
        "?hdr @ replicate 4 0 @ directory_front lay @ replicate 4 0 @ replicate 4 0 @ wovr_head_bytes ?ov lay"
        "unat (column_data_offset ?ov)" ?R] ss(2) h
    by (auto simp: unat_column_data_offset length_directory_front)
  define B2 where "B2 = (?hdr @ replicate 4 0 @ directory_front lay) @ replicate 4 0 @ (replicate 4 0 @ ?pay @ ?R)"
  have B2: "(?hdr @ replicate 4 0 @ directory_front lay @ replicate 4 0 @ replicate 4 0 @
      wovr_head_bytes ?ov lay) @ spans_bytes ss ?n @ columns_bytes ss @ ?R = B2"
    by (simp add: B2_def wovr_bytes_def)
  have g1: "get_range B2 136 (unat (lay_payload_size lay)) = Ret ?pay"
    using h length_wovr_bytes [of ?ov lay ss] sz(1)
    by (simp add: get_range_def B2_def length_directory_front)
  have b3: "put_bytes B2 128 (apta_put_u32 (crc_of ?pay)) =
      Ret (?hdr @ replicate 4 0 @ directory_bytes lay (crc_of ?pay) @ ?pay @ ?R)"
    unfolding B2_def using h
    by (subst put_bytes_append) (simp_all add: length_directory_front directory_bytes_def directory_front_def)
  have b4: "put_bytes (?hdr @ replicate 4 0 @ directory_bytes lay (crc_of ?pay) @ ?pay @ ?R) 92
      (apta_put_u32 (crc_of ?hdr)) =
      Ret (?hdr @ apta_put_u32 (crc_of ?hdr) @ directory_bytes lay (crc_of ?pay) @ ?pay @ ?R)"
    using h by (subst put_bytes_append) simp_all
  have g2: "get_range (?hdr @ replicate 4 0 @ directory_bytes lay (crc_of ?pay) @ ?pay @ ?R) 0 92 = Ret ?hdr"
    using h by (simp add: get_range_def)
  have chk: "\<not> (of_nat (length mem) :: u64) < lay_total_size lay"
    using mem by (simp add: word_less_nat_alt unat_buffer_size)
  have "\<not> SIZE_MAX < lay_total_size lay" by (simp add: not_less)
  then show ?thesis
    using ss(1,2) b0 b1 b2 B2 g1 b3 b4 g2 chk
    by (simp add: apta_result_serialize_def lay container_bytes_def Let_def)
qed
end
