(* ===== verification/Apta_Wovr_Roundtrip.thy ===== *)
theory Apta_Wovr_Roundtrip
  imports Apta_Wovr_Writer
begin

text \<open>
  The writer against the reader: reading the fields of a written container gives back what was
  stored, every check of the parser accepts it under the conditions of \<open>readable\<close>, and the parsed
  result carries the same overview.
\<close>

section \<open>Reading the format\<close>

lemma get_range_skip:
  "length pre \<le> off \<Longrightarrow> get_range (pre @ rest) off n = get_range rest (off - length pre) n"
  by (auto simp: get_range_def)

lemma get_range_front: "length xs = n \<Longrightarrow> get_range (xs @ rest) 0 n = Ret xs"
  by (auto simp: get_range_def)

definition header_of :: "apta_result \<Rightarrow> serialization_layout \<Rightarrow> header" where
  "header_of r lay =
     \<lparr>h_header_size = 96, h_container_version = 1, h_specification_major = 1,
      h_specification_minor = 0, h_producer_api_version = APTA_API_VERSION,
      h_container_flags = lay_container_flags lay, h_section_count = 1, h_directory_offset = 96,
      h_total_file_size = lay_total_size lay, h_total_source_frames = total_source_frames r,
      h_source_sample_rate = source_sample_rate r,
      h_source_channel_count = ucast (source_channel_count r),
      h_source_channel_layout = ucast (source_channel_layout r),
      h_fingerprint_kind = fingerprint_kind r, h_fingerprint = fingerprint r\<rparr>"

lemma read_header_container:
  assumes "length (fingerprint r) = 32"
  shows "read_header (container_bytes r lay ss) = Ret (header_of r lay)"
  using assms
  by (simp add: read_header_def container_bytes_def header_bytes_def Let_def header_of_def get_concat
      get_range_skip get_range_front)

definition entry_of :: "serialization_layout \<Rightarrow> u32 \<Rightarrow> dir_entry" where
  "entry_of lay crc =
     \<lparr>e_tag = tag_WOVR, e_version = 1, e_flags = SECTION_FLAG_REQUIRED, e_offset = 136,
      e_stored_size = lay_payload_size lay, e_logical_size = lay_payload_size lay, e_crc = crc,
      e_reserved = 0\<rparr>"

lemma get_u32_zeros: "apta_get_u32 (replicate 4 0) 0 = Ret 0" "apta_get_u32 (replicate 4 0 @ rest) 0 = Ret 0"
  by (simp_all add: apta_get_u32_def get_u8_def nth_append)

lemma read_entry_container:
  assumes "length (fingerprint r) = 32"
  shows "read_entry (container_bytes r lay ss) 96 =
    Ret (entry_of lay (crc_of (wovr_bytes (overview r) lay ss)))"
  using assms
  by (simp add: read_entry_def container_bytes_def directory_bytes_def Let_def entry_of_def get_concat
      get_range_skip get_range_front get_u32_zeros length_header_bytes)

definition wovr_of :: "overview \<Rightarrow> serialization_layout \<Rightarrow> wovr_header" where
  "wovr_of ov lay =
     \<lparr>w_level_id = level_id ov, w_frames_per_column = frames_per_column ov,
      w_origin_frame = origin_frame ov, w_logical_column_count = lay_logical_column_count lay,
      w_span_count = span_count ov, w_span_directory_offset = 48,
      w_column_data_offset = column_data_offset ov, w_flags = lay_wovr_flags lay, w_reserved = 0\<rparr>"

lemma read_wovr_header_bytes: "read_wovr_header (wovr_bytes ov lay ss) = Ret (wovr_of ov lay)"
  by (simp add: read_wovr_header_def wovr_bytes_def wovr_head_bytes_def wovr_of_def get_concat get_u32_zeros)

definition span_entry_of :: "span list \<Rightarrow> nat \<Rightarrow> span_entry" where
  "span_entry_of ss i =
     \<lparr>s_first_frame = first_frame (ss ! i), s_end_frame = end_frame (ss ! i),
      s_first_column = first_column_index (ss ! i), s_column_count = column_count (ss ! i),
      s_data_column_offset = of_nat (packed_before ss i), s_reserved = 0\<rparr>"

lemma span_entry_of_simps [simp]:
  "s_first_frame (span_entry_of ss i) = first_frame (ss ! i)"
  "s_end_frame (span_entry_of ss i) = end_frame (ss ! i)"
  "s_first_column (span_entry_of ss i) = first_column_index (ss ! i)"
  "s_column_count (span_entry_of ss i) = column_count (ss ! i)"
  "s_data_column_offset (span_entry_of ss i) = of_nat (packed_before ss i)"
  "s_reserved (span_entry_of ss i) = 0"
  by (simp_all add: span_entry_of_def)

lemma spans_bytes_split:
  assumes "i < n"
  shows "spans_bytes ss n = spans_bytes ss i @ span_bytes (ss ! i) (of_nat (packed_before ss i)) @
    concat (map (\<lambda>i. span_bytes (ss ! i) (of_nat (packed_before ss i))) [Suc i..<n])"
proof -
  have "[0..<n] = [0..<i] @ i # [Suc i..<n]"
    using assms by (metis less_imp_add_positive upt_add_eq_append upt_conv_Cons zero_le)
  then show ?thesis by (simp add: spans_bytes_def)
qed

lemma read_span_bytes:
  assumes "i < length ss"
  shows "read_span_entry (wovr_bytes ov lay ss) (48 + i * 32) = Ret (span_entry_of ss i)"
  using assms
  by (simp add: read_span_entry_def wovr_bytes_def spans_bytes_split [OF assms] span_bytes_def
      span_entry_of_def get_concat get_u32_zeros)

lemma read_column_bytes: "read_column (column_bytes c @ rest) 0 = Ret c"
  by (simp add: read_column_def column_bytes_def apta_get_i16_def get_concat)
     (simp add: get_u8_def)

lemma read_column_skip:
  "length pre \<le> off \<Longrightarrow> read_column (pre @ rest) off = read_column rest (off - length pre)"
  by (simp add: read_column_def apta_get_i16_def get_concat Nat.add_diff_assoc2 Suc_diff_le)

lemma read_column_all:
  assumes "j < length (concat (map span_columns ss))"
  shows "read_column (wovr_bytes ov lay ss) (48 + 32 * length ss + j * 10) =
    Ret (concat (map span_columns ss) ! j)"
proof -
  let ?a = "concat (map span_columns ss)"
  have sp: "?a = take j ?a @ ?a ! j # drop (Suc j) ?a" using assms by (rule id_take_nth_drop)
  have cb: "columns_bytes ss = concat (map column_bytes (take j ?a)) @ column_bytes (?a ! j) @
      concat (map column_bytes (drop (Suc j) ?a))"
    unfolding columns_bytes_def by (subst sp) simp
  have "length (concat (map column_bytes (take j ?a))) = 10 * j"
    using assms by (subst length_concat_const [where k = 10]) simp_all
  then show ?thesis
    unfolding wovr_bytes_def cb by (simp add: read_column_skip read_column_bytes)
qed

lemma nth_concat_columns:
  assumes "i < length ss" "k < length (span_columns (ss ! i))"
  shows "concat (map span_columns ss) ! (packed_before ss i + k) = span_columns (ss ! i) ! k"
    and "packed_before ss i + k < length (concat (map span_columns ss))"
proof -
  have "ss = take i ss @ ss ! i # drop (Suc i) ss" using assms(1) by (rule id_take_nth_drop)
  then have sp: "concat (map span_columns ss) =
      concat (map span_columns (take i ss)) @ span_columns (ss ! i) @ concat (map span_columns (drop (Suc i) ss))"
    by (metis concat.simps(2) concat_append list.simps(9) map_append)
  show "concat (map span_columns ss) ! (packed_before ss i + k) = span_columns (ss ! i) ! k"
    unfolding sp using assms(2) length_concat_columns [of i ss] by (simp add: nth_append)
  show "packed_before ss i + k < length (concat (map span_columns ss))"
    unfolding sp using assms(2) length_concat_columns [of i ss] by simp
qed

section \<open>Acceptance of what is written\<close>

text \<open>The conditions under which the reader must accept a written result: it is well formed, it
  stays within the limits of the parse options, and the frame positions of its columns do not
  exceed the range of a frame number.\<close>

definition readable :: "effective_options \<Rightarrow> apta_result \<Rightarrow> span list \<Rightarrow> serialization_layout \<Rightarrow> bool" where
  "readable opt r ss lay \<longleftrightarrow>
     overview_wf opt r \<and> overview_complete r \<and>
     (state (overview r) = FEATURE_STATE_FINAL \<longrightarrow> total_source_frames r \<noteq> APTA_TOTAL_FRAMES_UNKNOWN) \<and>
     span_count (overview r) \<le> maximum_overview_spans opt \<and>
     lay_logical_column_count lay \<le> maximum_waveform_columns opt \<and>
     packed_before ss (length ss) \<le> unat (maximum_waveform_columns opt) \<and>
     lay_total_size lay \<le> maximum_file_bytes opt \<and> maximum_section_count opt \<noteq> 0 \<and>
     unat (origin_frame (overview r)) +
       unat (lay_logical_column_count lay) * unat (frames_per_column (overview r)) < 18446744073709551616"

lemma length_container_bytes:
  "arrays_ok r ss \<Longrightarrow> layout_ok r ss lay \<Longrightarrow> length (container_bytes r lay ss) = unat (lay_total_size lay)"
  by (simp add: container_bytes_def Let_def length_header_bytes length_wovr_bytes arrays_ok_def layout_ok_def)

lemma of_nat_length_container:
  "arrays_ok r ss \<Longrightarrow> layout_ok r ss lay \<Longrightarrow> of_nat (length (container_bytes r lay ss)) = lay_total_size lay"
  by (simp add: length_container_bytes)

lemma container_flags_cases:
  "layout_container_flags r \<in> {0, 1, 3} \<and>
   (total_source_frames r = APTA_TOTAL_FRAMES_UNKNOWN \<longleftrightarrow> layout_container_flags r = 3) \<and>
   (state (overview r) \<noteq> FEATURE_STATE_FINAL \<longrightarrow> layout_container_flags r \<noteq> 0) \<and>
   (layout_container_flags r = 0 \<longleftrightarrow> state (overview r) = FEATURE_STATE_FINAL \<and>
      session_state r = SESSION_COMPLETED \<and> total_source_frames r \<noteq> APTA_TOTAL_FRAMES_UNKNOWN)"
  by (simp add: layout_container_flags_def CONTAINER_FLAG_PARTIAL_RESULT_def
      CONTAINER_FLAG_SOURCE_DURATION_UNKNOWN_def)

lemma ucast_u32_u16_eq_0: "x \<le> 65535 \<Longrightarrow> (ucast (x :: u32) :: u16) = 0 \<longleftrightarrow> x = 0"
proof -
  assume "x \<le> 65535"
  then have "unat (ucast x :: u16) = unat x"
    by (simp add: word_le_nat_alt unsigned_ucast_eq take_bit_nat_eq_self)
  then show ?thesis by (metis unat_0 unsigned_0 word_unat_eq_iff)
qed

lemma fingerprint_valid_cases:
  assumes "apta_internal_source_fingerprint_is_valid kind (Some fp)" "length fp = 32"
  shows "kind = FINGERPRINT_NONE \<and> fp = replicate 32 0 \<or>
    kind = FINGERPRINT_APPLICATION_OPAQUE_256 \<or> kind = FINGERPRINT_SHA256_SOURCE_OBJECT_BYTES"
proof -
  have "list_all (\<lambda>b. b = 0) fp \<Longrightarrow> fp = replicate 32 0"
    using assms(2) by (intro replicate_eqI) (auto simp: list_all_iff)
  then show ?thesis
    using assms by (auto simp: apta_internal_source_fingerprint_is_valid_def split: if_splits)
qed

lemma check_header_container:
  assumes arr: "arrays_ok r ss" and lay: "layout_ok r ss lay" and ok: "result_ok r"
    and rd: "readable opt r ss lay"
  shows "check_header (container_bytes r lay ss) opt (header_of r lay) = Ret ()"
proof -
  let ?bs = "container_bytes r lay ss"
  have fp: "length (fingerprint r) = 32" using arr by (simp add: arrays_ok_def)
  have len: "length ?bs = unat (lay_total_size lay)" by (rule length_container_bytes [OF arr lay])
  have big: "226 \<le> unat (lay_total_size lay) + 50" "136 + 48 \<le> unat (lay_total_size lay)"
    using lay by (simp_all add: layout_ok_def)
  have pre: "get_range ?bs 0 92 = Ret (header_bytes r lay)"
    using fp by (simp add: container_bytes_def Let_def get_range_front length_header_bytes)
  have crc: "apta_get_u32 ?bs 92 = Ret (crc_of (header_bytes r lay))"
    using fp by (simp add: container_bytes_def Let_def get_concat length_header_bytes)
  have fpr: "take 32 (drop 56 ?bs) = fingerprint r"
    using fp by (simp add: container_bytes_def Let_def header_bytes_def)
  have z: "apta_bytes_are_zero ?bs 56 32 = Ret (fingerprint r = replicate 32 0)"
    using len big fpr by (simp add: apta_bytes_are_zero_eq)
  have fits: "apta_range_fits 96 40 (lay_total_size lay)"
    using big by (simp add: apta_range_fits_iff)
  have ge: "\<not> lay_total_size lay < 96" using big by (simp add: word_less_nat_alt)
  have fl: "lay_container_flags lay = layout_container_flags r" using lay by (simp add: layout_ok_def)
  have sec: "maximum_section_count opt \<noteq> 0" using rd by (simp add: readable_def)
  have kind: "fingerprint_kind r = FINGERPRINT_NONE \<and> fingerprint r = replicate 32 0 \<or>
    fingerprint_kind r = FINGERPRINT_APPLICATION_OPAQUE_256 \<or>
    fingerprint_kind r = FINGERPRINT_SHA256_SOURCE_OBJECT_BYTES"
    using ok fp by (intro fingerprint_valid_cases) (simp_all add: result_ok_def)
  have src: "source_sample_rate r \<noteq> 0" "(ucast (source_channel_count r) :: u16) \<noteq> 0"
    using ok by (simp_all add: result_ok_def ucast_u32_u16_eq_0)
  show ?thesis
    using container_flags_cases [of r] kind
    apply (simp add: check_header_def Let_def header_of_def pre crc z of_nat_length_container [OF arr lay]
      fits ge sec src fl)
    apply (auto simp: apta_consts)
    done
qed

lemma container_payload:
  assumes "arrays_ok r ss" "layout_ok r ss lay"
  shows "drop 136 (container_bytes r lay ss) = wovr_bytes (overview r) lay ss"
    and "length (wovr_bytes (overview r) lay ss) = unat (lay_payload_size lay)"
  using assms
  by (simp_all add: container_bytes_def Let_def length_header_bytes arrays_ok_def layout_ok_def
      length_wovr_bytes)

lemma check_entry_container:
  assumes arr: "arrays_ok r ss" and lay: "layout_ok r ss lay"
  shows "check_entry (container_bytes r lay ss) opt (header_of r lay) 0 None
      (entry_of lay (crc_of (wovr_bytes (overview r) lay ss))) = Ret (Some (136, lay_payload_size lay))"
proof -
  let ?bs = "container_bytes r lay ss"
  have len: "length ?bs = 136 + unat (lay_payload_size lay)"
    using length_container_bytes [OF arr lay] lay by (simp add: layout_ok_def)
  have tot: "unat (lay_total_size lay) = 136 + unat (lay_payload_size lay)"
    using lay by (simp add: layout_ok_def)
  have pay: "get_range ?bs 136 (unat (lay_payload_size lay)) = Ret (wovr_bytes (overview r) lay ss)"
    using container_payload [OF arr lay] len by (simp add: get_range_def)
  have b: "136 + unat (lay_payload_size lay) < 18446744073709551616"
    using tot unat_u64_bound [of "lay_total_size lay"] by simp
  have fits: "apta_range_fits 136 (lay_payload_size lay) (lay_total_size lay)"
    using tot by (simp add: apta_range_fits_iff)
  have o1: "\<not> apta_ranges_overlap 136 (lay_payload_size lay) 0 96"
    using b by (subst apta_ranges_overlap_iff) auto
  have o2: "\<not> apta_ranges_overlap 136 (lay_payload_size lay) 96 40"
    using b by (subst apta_ranges_overlap_iff) auto
  have "\<not> SIZE_MAX < lay_payload_size lay" by (simp add: not_less)
  then show ?thesis
    using fits o1 o2 pay
    by (simp add: check_entry_def check_earlier_def header_of_def entry_of_def
        of_nat_length_container [OF arr lay] apta_is_standard_section_def)
      (simp add: apta_consts)
qed

lemma validate_container_written:
  assumes arr: "arrays_ok r ss" and lay: "layout_ok r ss lay" and ok: "result_ok r"
    and rd: "readable opt r ss lay"
  shows "apta_validate_container (container_bytes r lay ss) opt =
    Ret \<lparr>payload_offset = 136, payload_size = lay_payload_size lay, wi_header = header_of r lay\<rparr>"
proof -
  let ?bs = "container_bytes r lay ss"
  have fp: "length (fingerprint r) = 32" using arr by (simp add: arrays_ok_def)
  have big: "136 + 48 \<le> unat (lay_total_size lay)" using lay by (simp add: layout_ok_def)
  have mg: "get_range ?bs 0 4 = Ret tag_APTA"
    by (simp add: container_bytes_def Let_def header_bytes_def get_range_front)
  have sizes: "\<not> lay_total_size lay < 96" "\<not> maximum_file_bytes opt < lay_total_size lay"
      "\<not> lay_total_size lay < 136"
    using big rd by (simp_all add: word_less_nat_alt readable_def word_le_nat_alt)
  have at: "entry_at (header_of r lay) 0 = 96" "h_section_count (header_of r lay) = 1"
      "h_directory_offset (header_of r lay) = 96"
    by (simp_all add: entry_at_def header_of_def)
  show ?thesis
    using sizes
    by (simp add: apta_validate_container_def Let_def of_nat_length_container [OF arr lay] mg
        read_header_container [OF fp] check_header_container [OF assms] at check_section_def
        read_entry_container [OF fp] check_entry_container [OF arr lay])
qed

text \<open>The overview header.\<close>

lemma wovr_state_of:
  assumes "layout_ok r ss lay" "result_ok r"
  shows "w_state (wovr_of (overview r) lay) = state (overview r)" "lay_wovr_flags lay = state (overview r)"
proof -
  have "unat (state (overview r)) \<le> 4"
    using assms(2) by (simp add: result_ok_def word_le_nat_alt apta_consts)
  then have "unat (state (overview r)) \<in> {0, 1, 2, 3, 4}" by auto
  then have "state (overview r) \<in> {0, 1, 2, 3, 4}" by (simp add: word_unat_eq_iff)
  then have "state (overview r) AND WOVR_STATE_MASK = state (overview r)"
    by (auto simp: WOVR_STATE_MASK_def)
  then show "lay_wovr_flags lay = state (overview r)" "w_state (wovr_of (overview r) lay) = state (overview r)"
    using assms(1) by (simp_all add: layout_ok_def wovr_of_def)
qed

lemma check_wovr_header_written:
  assumes arr: "arrays_ok r ss" and lay: "layout_ok r ss lay" and ok: "result_ok r"
    and rd: "readable opt r ss lay"
  shows "check_wovr_header (wovr_bytes (overview r) lay ss) opt (header_of r lay)
    (wovr_of (overview r) lay) = Ret ()"
proof -
  note st = wovr_state_of [OF lay ok]
  have len: "of_nat (length (wovr_bytes (overview r) lay ss)) = lay_payload_size lay"
    by (simp add: container_payload(2) [OF arr lay])
  have fits: "apta_range_fits 48 (ucast (span_count (overview r)) * 32) (lay_payload_size lay)"
    using lay arr by (simp add: apta_range_fits_iff layout_ok_def arrays_ok_def)
  have cdo: "\<not> column_data_offset (overview r) < 48"
    by (simp add: word_less_nat_alt unat_column_data_offset)
  have nz: "w_flags (wovr_of (overview r) lay) AND NOT WOVR_STATE_MASK = 0"
    using lay by (simp add: wovr_of_def layout_ok_def and.assoc)
  have fin: "state (overview r) = FEATURE_STATE_FINAL \<longrightarrow> total_source_frames r \<noteq> APTA_TOTAL_FRAMES_UNKNOWN"
    using rd by (simp add: readable_def)
  have part: "state (overview r) \<noteq> FEATURE_STATE_FINAL \<longrightarrow>
      lay_container_flags lay AND CONTAINER_FLAG_PARTIAL_RESULT \<noteq> 0"
    using container_flags_cases [of r] lay
    by (auto simp: layout_ok_def CONTAINER_FLAG_PARTIAL_RESULT_def)
  have geo: "total_source_frames r \<noteq> APTA_TOTAL_FRAMES_UNKNOWN \<longrightarrow>
      \<not> total_source_frames r < origin_frame (overview r) \<and>
      required_columns (total_source_frames r - origin_frame (overview r)) (frames_per_column (overview r)) =
        ucast (lay_logical_column_count lay)"
    using lay by (auto simp: layout_ok_def not_less)
  have lims: "frames_per_column (overview r) \<noteq> 0" "lay_logical_column_count lay \<noteq> 0"
      "span_count (overview r) \<noteq> 0" "\<not> maximum_overview_spans opt < span_count (overview r)"
      "\<not> maximum_waveform_columns opt < lay_logical_column_count lay"
      "\<not> state (overview r) < FEATURE_STATE_PARTIAL" "\<not> FEATURE_STATE_FINAL < state (overview r)"
    using lay ok rd by (simp_all add: layout_ok_def result_ok_def readable_def not_less)
  show ?thesis
    unfolding check_wovr_header_def st(1) nz
    using lims fin part geo fits cdo
    by (simp add: wovr_of_def header_of_def len)
qed

text \<open>The division rounded up, exactly.\<close>

lemma unat_required_columns:
  assumes "fpc \<noteq> 0"
  shows "unat (required_columns f fpc) =
    unat f div unat fpc + (if unat f mod unat fpc = 0 then 0 else 1)"
proof -
  let ?q = "unat f div unat fpc" and ?m = "unat f mod unat fpc"
  have q: "unat (f div ucast fpc) = ?q" and m: "f mod ucast fpc = 0 \<longleftrightarrow> ?m = 0"
    by (simp_all add: unat_div word_unat_eq_iff unat_mod)
  show ?thesis
  proof (cases "?m = 0")
    case False
    then have "unat fpc \<noteq> 1" by auto
    then have "2 \<le> unat fpc" using assms by (metis One_nat_def Suc_leI le_neq_implies_less numeral_2_eq_2 unat_gt_0)
    then have "?q \<le> unat f div 2" by (intro div_le_mono2) simp_all
    then have "?q < 18446744073709551615" using unat_u64_bound [of f] by simp
    then show ?thesis
      using False q m by (simp add: required_columns_def Let_def unat_plus_u64)
  qed (simp add: required_columns_def q m)
qed

lemma required_columns_exact:
  assumes "fpc \<noteq> 0" "unat (required_columns f fpc) = L" "0 < L"
  shows "(L - 1) * unat fpc < unat f"
proof -
  let ?q = "unat f div unat fpc" and ?m = "unat f mod unat fpc"
  have p: "0 < unat fpc" using assms(1) by (simp add: unat_gt_0)
  have f: "unat f = ?q * unat fpc + ?m" by simp
  have L: "L = ?q + (if ?m = 0 then 0 else 1)"
    using unat_required_columns [OF assms(1), of f] assms(2) by simp
  show "(L - 1) * unat fpc < unat f"
  proof (cases "?m = 0")
    case True
    then have "L = ?q" "0 < ?q" using L assms(3) by simp_all
    then have "(L - 1) * unat fpc + unat fpc = ?q * unat fpc"
      by (metis Suc_pred' add.commute diff_Suc_1 mult_Suc)
    then show ?thesis using True f p by linarith
  next
    case False
    then have "(L - 1) * unat fpc = ?q * unat fpc" using L by simp
    then show ?thesis using f False by linarith
  qed
qed

text \<open>One span.\<close>

definition span_state_at :: "span list \<Rightarrow> nat \<Rightarrow> span_state" where
  "span_state_at ss i =
     \<lparr>packed_columns = of_nat (packed_before ss i),
      previous_end_frame = (if i = 0 then 0 else end_frame (ss ! (i - 1))),
      previous_end_column = (if i = 0 then 0 else end_column (span_entry_of ss (i - 1)))\<rparr>"

lemma readable_span:
  assumes rd: "readable opt r ss lay" and lay: "layout_ok r ss lay" and arr: "arrays_ok r ss" and i: "i < length ss"
  shows "span_wf opt r (ss ! i)"
    and "unat (first_column_index (ss ! i)) + unat (column_count (ss ! i)) \<le> unat (lay_logical_column_count lay)"
    and "0 < i \<Longrightarrow> span_precedes (ss ! (i - 1)) (ss ! i)"
proof -
  have s: "spans (overview r) = Some ss" using arr by (simp add: arrays_ok_def)
  show "span_wf opt r (ss ! i)"
    using rd s i by (auto simp: readable_def overview_wf_def list_all_length)
  show "unat (first_column_index (ss ! i)) + unat (column_count (ss ! i)) \<le> unat (lay_logical_column_count lay)"
    using lay i by (simp add: layout_ok_def list_all_length)
  show "span_precedes (ss ! (i - 1)) (ss ! i)" if "0 < i"
    using rd s i that by (auto simp: readable_def overview_wf_def sorted_wrt_iff_nth_less)
qed

lemma span_columns_wf:
  "span_wf opt r s \<Longrightarrow> length (span_columns s) = unat (column_count s) \<and> span_columns s \<noteq> [] \<and>
     list_all (column_ok opt) (span_columns s)"
  by (auto simp: span_wf_def span_columns_def)

lemma cut_off_is_last:
  assumes rd: "readable opt r ss lay" and lay: "layout_ok r ss lay"
    and tot: "total_source_frames r \<noteq> APTA_TOTAL_FRAMES_UNKNOWN"
    and e: "e \<le> unat (lay_logical_column_count lay)"
    and cut: "unat (total_source_frames r) <
      unat (origin_frame (overview r)) + e * unat (frames_per_column (overview r))"
  shows "e = unat (lay_logical_column_count lay)"
proof (rule ccontr)
  let ?L = "unat (lay_logical_column_count lay)" and ?f = "frames_per_column (overview r)"
  let ?d = "total_source_frames r - origin_frame (overview r)"
  assume "e \<noteq> ?L"
  with e have "e \<le> ?L - 1" "0 < ?L" by simp_all
  have o1: "origin_frame (overview r) \<le> total_source_frames r"
    and c: "unat (required_columns ?d ?f) = ?L"
    using lay tot unat_ucast_u32_u64 [of "lay_logical_column_count lay"] by (auto simp: layout_ok_def)
  have f0: "?f \<noteq> 0" using rd by (simp add: readable_def overview_wf_def)
  have "e * unat ?f \<le> (?L - 1) * unat ?f" using \<open>e \<le> ?L - 1\<close> by (rule mult_le_mono1)
  also have "\<dots> < unat ?d" by (rule required_columns_exact [OF f0 c \<open>0 < ?L\<close>])
  also have "\<dots> = unat (total_source_frames r) - unat (origin_frame (overview r))"
    using o1 by (rule unat_sub)
  finally show False using cut o1 by (simp add: word_le_nat_alt)
qed

lemma check_span_frames_written:
  assumes rd: "readable opt r ss lay" and lay: "layout_ok r ss lay" and arr: "arrays_ok r ss"
    and i: "i < length ss"
  shows "check_span_frames opt (header_of r lay) (wovr_of (overview r) lay) i (span_state_at ss i)
    (span_entry_of ss i) = Ret ()"
proof -
  let ?s = "ss ! i" and ?o = "origin_frame (overview r)" and ?f = "frames_per_column (overview r)"
  let ?E = "end_column (span_entry_of ss i)" and ?tot = "total_source_frames r"
  let ?L = "lay_logical_column_count lay"
  note sp = readable_span [OF rd lay arr i]
  have E: "unat ?E = unat (first_column_index ?s) + unat (column_count ?s)"
    by (simp add: unat_end_column)
  have E_le: "unat ?E \<le> unat ?L" using sp(2) E by simp
  have nov: "unat ?o + unat ?E * unat ?f < 18446744073709551616"
  proof -
    have "unat ?E * unat ?f \<le> unat ?L * unat ?f" using E_le by (rule mult_le_mono1)
    moreover have "unat ?o + unat ?L * unat ?f < 18446744073709551616"
      using rd by (simp add: readable_def)
    ultimately show ?thesis by linarith
  qed
  have "unat (first_column_index ?s) * unat ?f \<le> unat ?E * unat ?f" using E by simp
  then have fb: "unat ?o + unat (first_column_index ?s) * unat ?f < 18446744073709551616"
    using nov by linarith
  have eo: "unat (?E * ucast ?f) = unat ?E * unat ?f"
    using nov by (subst unat_times_u64) simp_all
  have ee: "unat (?o + ?E * ucast ?f) = unat ?o + unat ?E * unat ?f"
    using nov eo by (simp add: unat_plus_u64)
  have ef: "unat (?o + ucast (first_column_index ?s) * ucast ?f) =
      unat ?o + unat (first_column_index ?s) * unat ?f"
    using fb by (simp add: unat_plus_u64)
  have g: "\<not> UINT64_MAX - ucast (first_column_index ?s) * ucast ?f < ?o" "\<not> UINT64_MAX - ?E * ucast ?f < ?o"
    unfolding not_less u64_add_guard using nov fb eo by simp_all
  have ff: "first_frame ?s = ?o + ucast (first_column_index ?s) * ucast ?f"
    using sp(1) ef by (simp add: span_wf_def word_unat_eq_iff)
  have fr: "unat (end_frame ?s) = (if ?tot = APTA_TOTAL_FRAMES_UNKNOWN then unat ?o + unat ?E * unat ?f
      else min (unat ?o + unat ?E * unat ?f) (unat ?tot))" "first_frame ?s < end_frame ?s"
    using sp(1) E by (simp_all add: span_wf_def Let_def)
  have fe: "\<not> end_frame ?s \<le> first_frame ?s" using fr(2) by simp
  have cc: "column_count ?s \<noteq> 0" using span_columns_wf [OF sp(1)] by auto
  have last: "?E = ucast ?L" if "?tot \<noteq> APTA_TOTAL_FRAMES_UNKNOWN" "unat ?tot < unat ?o + unat ?E * unat ?f"
    using cut_off_is_last [OF rd lay that(1) E_le that(2)] by (simp add: word_unat_eq_iff)
  have endf: "end_frame ?s = ?o + ?E * ucast ?f \<or>
      ?tot \<noteq> APTA_TOTAL_FRAMES_UNKNOWN \<and> end_frame ?s = ?tot \<and> ?E = ucast ?L \<and> \<not> ?o + ?E * ucast ?f \<le> ?tot"
    using fr(1) ee last by (auto simp: word_unat_eq_iff word_le_nat_alt min_def split: if_splits)
  have bnd: "?tot \<noteq> APTA_TOTAL_FRAMES_UNKNOWN \<longrightarrow> \<not> ?tot < end_frame ?s"
    using fr(1) by (auto simp: word_less_nat_alt)
  have ord: "i \<noteq> 0 \<longrightarrow> \<not> first_frame ?s < previous_end_frame (span_state_at ss i) \<and>
      \<not> ucast (first_column_index ?s) < previous_end_column (span_state_at ss i)"
    using sp(3) by (auto simp: span_state_at_def span_precedes_def not_less word_le_nat_alt unat_end_column)
  have le: "\<not> ucast ?L < ?E" using E_le by (simp add: word_less_nat_alt)
  show ?thesis
    unfolding check_span_frames_def
    using g ff endf bnd ord le cc fe
    by (auto simp: Let_def header_of_def wovr_of_def)
qed
lemma unat_packed:
  assumes "layout_ok r ss lay" "i \<le> length ss"
  shows "unat (of_nat (packed_before ss i) :: u32) = packed_before ss i"
    and "unat (of_nat (packed_before ss i) :: u64) = packed_before ss i"
proof -
  have "packed_before ss i \<le> packed_before ss (length ss)" using assms(2) by (rule packed_before_mono)
  then have "packed_before ss i < 4294967296" using assms(1) by (simp add: layout_ok_def)
  then show "unat (of_nat (packed_before ss i) :: u32) = packed_before ss i"
      "unat (of_nat (packed_before ss i) :: u64) = packed_before ss i"
    using unat_of_nat [where 'a = 32, of "packed_before ss i"]
      unat_of_nat [where 'a = 64, of "packed_before ss i"] by simp_all
qed

lemma packed_step:
  assumes rd: "readable opt r ss lay" and lay: "layout_ok r ss lay" and arr: "arrays_ok r ss"
    and i: "i < length ss"
  shows "packed_before ss (Suc i) = packed_before ss i + unat (column_count (ss ! i))"
    and "packed_before ss (Suc i) \<le> packed_before ss (length ss)"
  using span_columns_wf [OF readable_span(1) [OF assms]] i packed_before_Suc [OF i]
    packed_before_mono [of "Suc i" "length ss" ss] by simp_all

lemma unat_data_first:
  assumes lay: "layout_ok r ss lay" and arr: "arrays_ok r ss" and i: "i < length ss"
  shows "unat (data_first (wovr_of (overview r) lay) (span_entry_of ss i)) =
    48 + 32 * length ss + packed_before ss i * 10"
proof -
  have p: "unat (of_nat (packed_before ss i) :: u32) = packed_before ss i"
    using unat_packed(1) [OF lay] i by simp
  have n: "length ss = unat (span_count (overview r))" using arr by (simp add: arrays_ok_def)
  have "unat (ucast (of_nat (packed_before ss i) :: u32) * 10 :: u64) = packed_before ss i * 10"
    by (simp only: unat_times_10 p)
  moreover have "packed_before ss i < 4294967296"
    using p unat_u32_bound [of "of_nat (packed_before ss i) :: u32"] by simp
  ultimately show ?thesis
    using n unat_u32_bound [of "span_count (overview r)"]
    by (simp add: data_first_def wovr_of_def unat_plus_u64 unat_column_data_offset)
qed

lemma check_span_data_written:
  assumes rd: "readable opt r ss lay" and lay: "layout_ok r ss lay" and arr: "arrays_ok r ss"
    and i: "i < length ss"
  shows "check_span_data (wovr_bytes (overview r) lay ss) (wovr_of (overview r) lay) (span_entry_of ss i) = Ret ()"
proof -
  let ?d = "data_first (wovr_of (overview r) lay) (span_entry_of ss i)" and ?c = "column_count (ss ! i)"
  have d: "unat ?d = 48 + 32 * length ss + packed_before ss i * 10"
    by (rule unat_data_first [OF lay arr i])
  have n: "length ss = unat (span_count (overview r))" using arr by (simp add: arrays_ok_def)
  have sz: "unat (lay_payload_size lay) = 48 + 32 * length ss + 10 * packed_before ss (length ss)"
      "unat (lay_payload_size lay) < 18446744073709551616"
    using lay unat_u64_bound [of "lay_payload_size lay"] by (simp_all add: layout_ok_def)
  have len: "of_nat (length (wovr_bytes (overview r) lay ss)) = lay_payload_size lay"
    by (simp add: container_payload(2) [OF arr lay])
  have e: "unat ?d + unat ?c * 10 \<le> unat (lay_payload_size lay)"
    using d sz packed_step [OF assms] by simp
  have "\<not> ?d < w_column_data_offset (wovr_of (overview r) lay)"
    using d n by (simp add: word_less_nat_alt wovr_of_def unat_column_data_offset)
  moreover have "apta_range_fits ?d (ucast ?c * 10) (lay_payload_size lay)"
    using e by (simp add: apta_range_fits_iff)
  moreover have "\<not> apta_ranges_overlap ?d (ucast ?c * 10) 0 48"
    using e sz d by (subst apta_ranges_overlap_iff) auto
  moreover have "\<not> apta_ranges_overlap ?d (ucast ?c * 10) 48 (ucast (span_count (overview r)) * 32)"
    using e sz d n unat_u32_bound [of "span_count (overview r)"]
    by (subst apta_ranges_overlap_iff) auto
  ultimately show ?thesis
    by (simp add: check_span_data_def len) (simp add: wovr_of_def)
qed

lemma read_column_written:
  assumes rd: "readable opt r ss lay" and lay: "layout_ok r ss lay" and arr: "arrays_ok r ss"
    and i: "i < length ss" and k: "k < unat (column_count (ss ! i))"
  shows "read_column (wovr_bytes (overview r) lay ss)
      (column_at (wovr_of (overview r) lay) (span_entry_of ss i) k) = Ret (span_columns (ss ! i) ! k)"
proof -
  have k': "k < length (span_columns (ss ! i))"
    using k span_columns_wf [OF readable_span(1) [OF rd lay arr i]] by simp
  have "column_at (wovr_of (overview r) lay) (span_entry_of ss i) k =
      48 + 32 * length ss + (packed_before ss i + k) * 10"
    by (simp add: column_at_def unat_data_first [OF lay arr i])
  then show ?thesis
    using read_column_all [OF nth_concat_columns(2) [OF i k'], of "overview r" lay]
      nth_concat_columns(1) [OF i k'] by simp
qed

lemma check_columns_written:
  assumes rd: "readable opt r ss lay" and lay: "layout_ok r ss lay" and arr: "arrays_ok r ss"
    and i: "i < length ss"
  shows "ofor [0..<unat (column_count (ss ! i))] (\<lambda>c _. check_column (wovr_bytes (overview r) lay ss) opt
      (column_at (wovr_of (overview r) lay) (span_entry_of ss i) c)) () = Ret ()"
proof -
  note wf = span_columns_wf [OF readable_span(1) [OF assms]]
  have "check_column (wovr_bytes (overview r) lay ss) opt
      (column_at (wovr_of (overview r) lay) (span_entry_of ss i) c) = Ret ()"
    if "c < unat (column_count (ss ! i))" for c
    using check_column_eq [OF read_column_written [OF assms that]] wf that
    by (simp add: list_all_length)
  then show ?thesis
    using ofor_cong_Ret [where st = "\<lambda>_. ()" and xs = "[0..<unat (column_count (ss ! i))]"] by simp
qed

lemma check_span_written:
  assumes rd: "readable opt r ss lay" and lay: "layout_ok r ss lay" and arr: "arrays_ok r ss"
    and i: "i < length ss"
  shows "check_span (wovr_bytes (overview r) lay ss) opt (header_of r lay) (wovr_of (overview r) lay) i
    (span_state_at ss i) = Ret (span_state_at ss (Suc i))"
proof -
  let ?c = "column_count (ss ! i)"
  have at: "span_at (wovr_of (overview r) lay) i = 48 + i * 32" by (simp add: span_at_def wovr_of_def)
  have p: "packed_columns (span_state_at ss i) = of_nat (packed_before ss i)" by (simp add: span_state_at_def)
  note st = packed_step [OF assms]
  have fit: "packed_before ss (length ss) < 4294967296" using lay by (simp add: layout_ok_def)
  have u: "unat (UINT32_MAX - ?c) = 4294967295 - unat ?c"
    using unat_u32_bound [of ?c] by (subst unat_sub) (simp_all add: word_le_nat_alt)
  have g1: "\<not> ucast (UINT32_MAX - ?c) < packed_columns (span_state_at ss i)"
    using u p st fit unat_packed(2) [OF lay, of i] i by (simp add: word_less_nat_alt)
  have c: "ucast ?c = (of_nat (unat ?c) :: u64)" by simp
  have s: "packed_columns (span_state_at ss i) + ucast ?c = of_nat (packed_before ss (Suc i))"
    using p st(1) c by simp
  have g2: "\<not> ucast (maximum_waveform_columns opt) < packed_columns (span_state_at ss i) + ucast ?c"
    unfolding s using rd st(2) unat_packed(2) [OF lay, of "Suc i"] i
    by (simp add: word_less_nat_alt readable_def del: of_nat_Suc)
  show ?thesis
    using g1 g2 s check_columns_written [OF assms] i
    by (simp add: check_span_def at read_span_bytes check_span_frames_written [OF assms]
        check_span_data_written [OF assms] Let_def) (simp add: span_state_at_def)
qed

lemma tiles_first: "tiles f c (x # xs) f' c' \<Longrightarrow> unat (fst (snd (snd x))) = c"
  by (cases x) simp

lemma final_spans:
  assumes rd: "readable opt r ss lay" and lay: "layout_ok r ss lay" and arr: "arrays_ok r ss"
    and fin: "state (overview r) = FEATURE_STATE_FINAL"
  shows "tiles (origin_frame (overview r)) 0 (map span_extent ss) (total_source_frames r)
      (unat (lay_logical_column_count lay))" "ss \<noteq> []"
proof -
  have s: "spans (overview r) = Some ss" using arr by (simp add: arrays_ok_def)
  show "ss \<noteq> []" using rd s by (auto simp: readable_def overview_wf_def)
  have "ucast (lay_logical_column_count lay) =
      required_columns (total_source_frames r - origin_frame (overview r)) (frames_per_column (overview r))"
    using rd lay fin by (auto simp: readable_def layout_ok_def)
  then have "unat (required_columns (total_source_frames r - origin_frame (overview r))
      (frames_per_column (overview r))) = unat (lay_logical_column_count lay)"
    by (metis unat_ucast_u32_u64)
  then show "tiles (origin_frame (overview r)) 0 (map span_extent ss) (total_source_frames r)
      (unat (lay_logical_column_count lay))"
    using rd s fin by (auto simp: readable_def overview_complete_def)
qed

lemma final_spans_ends:
  assumes rd: "readable opt r ss lay" and lay: "layout_ok r ss lay" and arr: "arrays_ok r ss"
    and fin: "state (overview r) = FEATURE_STATE_FINAL"
  shows "first_column_index (ss ! 0) = 0"
    and "previous_end_column (span_state_at ss (length ss)) = ucast (lay_logical_column_count lay)"
proof -
  note t = final_spans [OF assms]
  obtain s ss' where ss: "ss = s # ss'" using t(2) by (cases ss) auto
  then have "unat (first_column_index s) = 0" using t(1) by (auto simp: span_extent_def)
  then show "first_column_index (ss ! 0) = 0" by (simp add: ss unat_eq_0)
  obtain tt l where ts: "ss = tt @ [l]" using t(2) by (cases ss rule: rev_cases) auto
  have "unat (lay_logical_column_count lay) = unat (first_column_index l) + unat (column_count l)"
    using t(1) unfolding ts by (simp add: span_extent_def tiles_snoc)
  then show "previous_end_column (span_state_at ss (length ss)) = ucast (lay_logical_column_count lay)"
    using t(2) by (simp add: span_state_at_def word_unat_eq_iff unat_end_column) (simp add: ts)
qed

lemma geometry_written:
  assumes arr: "arrays_ok r ss" and lay: "layout_ok r ss lay" and ok: "result_ok r"
    and rd: "readable opt r ss lay"
  shows "apta_validate_wovr_geometry (wovr_bytes (overview r) lay ss) opt (header_of r lay) =
    Ret (of_nat (packed_before ss (length ss)))"
proof -
  let ?pay = "wovr_bytes (overview r) lay ss" and ?w = "wovr_of (overview r) lay"
  have n: "unat (w_span_count ?w) = length ss" using arr by (simp add: arrays_ok_def wovr_of_def)
  have len: "\<not> (of_nat (length ?pay) :: u64) < 48"
  proof -
    have "of_nat (length ?pay) = lay_payload_size lay" by (simp add: container_payload(2) [OF arr lay])
    then show ?thesis using lay by (simp add: word_less_nat_alt layout_ok_def)
  qed
  have st0: "span_state_at ss 0 = \<lparr>packed_columns = 0, previous_end_frame = 0, previous_end_column = 0\<rparr>"
    by (simp add: span_state_at_def packed_before_def)
  have loop: "ofor [0..<length ss] (check_span ?pay opt (header_of r lay) ?w)
      \<lparr>packed_columns = 0, previous_end_frame = 0, previous_end_column = 0\<rparr> = Ret (span_state_at ss (length ss))"
    using ofor_cong_Ret [where st = "span_state_at ss" and xs = "[0..<length ss]"
        and body = "check_span ?pay opt (header_of r lay) ?w"] check_span_written [OF rd lay arr]
    by (simp add: st0)
  have pk: "ucast (packed_columns (span_state_at ss (length ss))) = (of_nat (packed_before ss (length ss)) :: u32)"
    using unat_packed [OF lay, of "length ss"] lay
    by (simp add: span_state_at_def word_unat_eq_iff unsigned_ucast_eq unsigned_take_bit_eq
        layout_ok_def take_bit_nat_eq_self)
  show ?thesis
  proof (cases "state (overview r) = FEATURE_STATE_FINAL")
    case False
    then show ?thesis
      using loop pk len n
      by (simp add: apta_validate_wovr_geometry_def read_wovr_header_bytes
          check_wovr_header_written [OF assms] wovr_state_of(1) [OF lay ok])
  next
    case True
    have ne: "0 < length ss" using final_spans(2) [OF rd lay arr True] by simp
    have "apta_get_u32 ?pay (48 + 16) = Ret (first_column_index (ss ! 0))"
      using read_span_fields [OF read_span_bytes [OF ne, of "overview r" lay]] by simp
    then have "apta_get_u32 ?pay (unat (w_span_directory_offset ?w) + 16) = Ret 0"
      using final_spans_ends(1) [OF rd lay arr True] by (simp add: wovr_of_def)
    moreover have "w_logical_column_count ?w = lay_logical_column_count lay" by (simp add: wovr_of_def)
    ultimately show ?thesis
      using loop pk len n True final_spans_ends(2) [OF rd lay arr True]
      by (simp add: apta_validate_wovr_geometry_def read_wovr_header_bytes
          check_wovr_header_written [OF assms] wovr_state_of(1) [OF lay ok])
  qed
qed

text \<open>What the parser makes of a written result: the overview, the source description and the
  completeness of the session survive; the generation, the confidence and the feature masks are
  those of a parsed result.\<close>

definition parsed_form :: "apta_result \<Rightarrow> span list \<Rightarrow> apta_result" where
  "parsed_form r ss = r\<lparr>
     specification_major := 1, specification_minor := 0, producer_api_version := APTA_API_VERSION,
     container_version := 1, generation := 1,
     available_features :=
       (if list_ex has_3band ss then FEATURE_WAVEFORM_OVERVIEW OR FEATURE_WAVEFORM_3BAND
        else FEATURE_WAVEFORM_OVERVIEW),
     changed_features := FEATURE_WAVEFORM_OVERVIEW,
     session_state :=
       (if state (overview r) = FEATURE_STATE_FINAL \<and> session_state r = SESSION_COMPLETED
        then SESSION_COMPLETED else SESSION_ACTIVE),
     overview := (overview r)\<lparr>confidence := CONFIDENCE_UNKNOWN\<rparr>\<rparr>"

lemma build_span_written:
  assumes rd: "readable opt r ss lay" and lay: "layout_ok r ss lay" and arr: "arrays_ok r ss"
    and i: "i < length ss"
  shows "build_span (wovr_bytes (overview r) lay ss) (wovr_of (overview r) lay) i = Ret (ss ! i)"
proof -
  have at: "span_at (wovr_of (overview r) lay) i = 48 + i * 32" by (simp add: span_at_def wovr_of_def)
  obtain cs where cs: "columns (ss ! i) = Some cs" "length cs = unat (column_count (ss ! i))"
      "span_columns (ss ! i) = cs"
    using readable_span(1) [OF assms] by (auto simp: span_wf_def span_columns_def)
  have "omap (\<lambda>c. read_column (wovr_bytes (overview r) lay ss)
      (column_at (wovr_of (overview r) lay) (span_entry_of ss i) c)) [0..<unat (column_count (ss ! i))] = Ret cs"
    unfolding omap_eq_Ret using read_column_written [OF assms] cs
    by (intro nth_equalityI) simp_all
  then show ?thesis
    using cs(1) i by (simp add: build_span_def at read_span_bytes)
qed

lemma fill_result_written:
  assumes arr: "arrays_ok r ss" and lay: "layout_ok r ss lay" and ok: "result_ok r"
    and rd: "readable opt r ss lay"
  shows "fill_result (wovr_bytes (overview r) lay ss) (header_of r lay) = Ret (parsed_form r ss)"
proof -
  let ?w = "wovr_of (overview r) lay"
  have n: "unat (w_span_count ?w) = length ss" and s: "spans (overview r) = Some ss"
    using arr by (simp_all add: arrays_ok_def wovr_of_def)
  have sp: "omap (build_span (wovr_bytes (overview r) lay ss) ?w) [0..<length ss] = Ret ss"
    unfolding omap_eq_Ret using build_span_written [OF rd lay arr] by (intro nth_equalityI) simp_all
  have c16: "ucast (ucast x :: u16) = x" if "x \<le> 65535" for x :: u32
    using that by (simp add: word_unat_eq_iff word_le_nat_alt unsigned_ucast_eq unsigned_take_bit_eq
        take_bit_nat_eq_self)
  have ch: "source_channel_count r \<le> 65535" "source_channel_layout r \<le> 65535"
    using ok by (simp_all add: result_ok_def)
  have ses: "lay_container_flags lay AND CONTAINER_FLAG_PARTIAL_RESULT \<noteq> 0 \<longleftrightarrow>
      \<not> (state (overview r) = FEATURE_STATE_FINAL \<and> session_state r = SESSION_COMPLETED)"
    using container_flags_cases [of r] lay rd
    by (auto simp: layout_ok_def readable_def CONTAINER_FLAG_PARTIAL_RESULT_def)
  have ov: "\<lparr>level_id = w_level_id ?w, frames_per_column = w_frames_per_column ?w,
      origin_frame = w_origin_frame ?w, state = w_state ?w, confidence = CONFIDENCE_UNKNOWN,
      span_count = w_span_count ?w, spans = Some ss\<rparr> = (overview r)\<lparr>confidence := CONFIDENCE_UNKNOWN\<rparr>"
    unfolding wovr_state_of(1) [OF lay ok] using s by (cases "overview r") (simp add: wovr_of_def)
  show ?thesis
    unfolding fill_result_def read_wovr_header_bytes obind.simps n sp ov
    by (rule arg_cong [of _ _ Ret], rule apta_result.equality)
      (use ses c16 [OF ch(1)] c16 [OF ch(2)] in \<open>simp_all add: parsed_form_def header_of_def\<close>)
qed

section \<open>The hardening pass accepts it too\<close>

definition harden_state_at :: "u64 \<Rightarrow> span list \<Rightarrow> nat \<Rightarrow> harden_state" where
  "harden_state_at origin ss i =
     \<lparr>intervals = map (\<lambda>j. data_interval (span_entry_of ss j)) [0..<i],
      hs_end_frame = (if i = 0 then origin else end_frame (ss ! (i - 1))),
      hs_end_column = (if i = 0 then 0 else end_column (span_entry_of ss (i - 1)))\<rparr>"

lemma tiles_nth:
  "tiles f c (map span_extent ss) f' c' \<Longrightarrow> i < length ss \<Longrightarrow>
   first_frame (ss ! i) = (if i = 0 then f else end_frame (ss ! (i - 1))) \<and>
   unat (first_column_index (ss ! i)) =
     (if i = 0 then c else unat (first_column_index (ss ! (i - 1))) + unat (column_count (ss ! (i - 1))))"
proof (induction ss arbitrary: f c i)
  case (Cons s ss)
  show ?case
  proof (cases i)
    case (Suc k)
    then show ?thesis
      using Cons.IH [of "end_frame s" "c + unat (column_count s)" k] Cons.prems
      by (cases k) (auto simp: span_extent_def)
  qed (use Cons.prems in \<open>simp add: span_extent_def\<close>)
qed simp

lemma tiles_end:
  "tiles f c (map span_extent ss) f' c' \<Longrightarrow> ss \<noteq> [] \<Longrightarrow> end_frame (ss ! (length ss - 1)) = f'"
proof (induction ss arbitrary: f c)
  case (Cons s ss)
  then show ?case by (cases ss) (auto simp: span_extent_def)
qed simp

lemma harden_span_written:
  assumes rd: "readable opt r ss lay" and lay: "layout_ok r ss lay" and arr: "arrays_ok r ss"
    and i: "i < length ss" and r: "read_span_entry bs (directory + i * 32) = Ret (span_entry_of ss i)"
  shows "harden_span bs directory (state (overview r) = FEATURE_STATE_FINAL) i
      (harden_state_at (origin_frame (overview r)) ss i) =
    Ret (harden_state_at (origin_frame (overview r)) ss (Suc i))"
proof -
  let ?st = "harden_state_at (origin_frame (overview r)) ss i"
  have "first_frame (ss ! i) = hs_end_frame ?st \<and> ucast (first_column_index (ss ! i)) = hs_end_column ?st"
    if fin: "state (overview r) = FEATURE_STATE_FINAL"
    using tiles_nth [OF final_spans(1) [OF rd lay arr fin] i]
    by (auto simp: harden_state_at_def word_unat_eq_iff unat_end_column)
  then have "harden_span bs directory (state (overview r) = FEATURE_STATE_FINAL) i ?st =
      Ret \<lparr>intervals = intervals ?st @ [data_interval (span_entry_of ss i)],
           hs_end_frame = end_frame (ss ! i), hs_end_column = end_column (span_entry_of ss i)\<rparr>"
    using read_span_fields [OF r]
    by (cases "state (overview r) = FEATURE_STATE_FINAL")
      (simp_all add: harden_span_def data_interval_def end_column_def)
  then show ?thesis by (simp add: harden_state_at_def)
qed

lemma packed_intervals:
  assumes rd: "readable opt r ss lay" and lay: "layout_ok r ss lay" and arr: "arrays_ok r ss"
    and i: "i < length ss"
  shows "unat (fst (data_interval (span_entry_of ss i))) = packed_before ss i"
    and "unat (snd (data_interval (span_entry_of ss i))) = packed_before ss (Suc i)"
proof -
  have p: "unat (of_nat (packed_before ss i) :: u32) = packed_before ss i"
    using unat_packed(1) [OF lay] i by simp
  then show "unat (fst (data_interval (span_entry_of ss i))) = packed_before ss i"
    by (simp only: data_interval_def fst_conv span_entry_of_simps unat_ucast_u32_u64)
  have "unat (ucast (of_nat (packed_before ss i) :: u32) :: u64) = packed_before ss i"
    using p by (simp only: unat_ucast_u32_u64)
  then have "unat (ucast (of_nat (packed_before ss i) :: u32) + ucast (column_count (ss ! i)) :: u64) =
      packed_before ss i + unat (column_count (ss ! i))"
    using p unat_u32_bound [of "column_count (ss ! i)"]
      unat_u32_bound [of "of_nat (packed_before ss i) :: u32"]
    by (subst unat_plus_u64) simp_all
  then show "unat (snd (data_interval (span_entry_of ss i))) = packed_before ss (Suc i)"
    using packed_step(1) [OF assms] by (simp only: data_interval_def snd_conv span_entry_of_simps)
qed

lemma intervals_written:
  assumes rd: "readable opt r ss lay" and lay: "layout_ok r ss lay" and arr: "arrays_ok r ss"
  shows "intervals_disjoint (qsort apta_compare_packed_intervals
    (map (\<lambda>j. data_interval (span_entry_of ss j)) [0..<length ss])) = Ret ()"
proof -
  let ?iv = "map (\<lambda>j. data_interval (span_entry_of ss j)) [0..<length ss]"
  note p = packed_intervals [OF assms]
  have "apta_compare_packed_intervals (data_interval (span_entry_of ss i)) (data_interval (span_entry_of ss j)) \<le> 0"
    if "i < j" "j < length ss" for i j
    using that p [of i] p [of j] packed_before_mono [of i j ss] packed_before_mono [of "Suc i" "Suc j" ss]
    by (auto simp: apta_compare_packed_intervals_def word_less_nat_alt)
  then have "sorted_wrt (\<lambda>x y. apta_compare_packed_intervals x y \<le> 0) ?iv"
    by (simp add: sorted_wrt_iff_nth_less)
  then have "qsort apta_compare_packed_intervals ?iv = ?iv"
    using packed.qsort_unique [of ?iv ?iv] by simp
  moreover have "\<not> fst (?iv ! j) < snd (?iv ! (j - 1))" if "1 \<le> j" "j < length ss" for j
    using that p [of j] p [of "j - 1"] by (auto simp: word_less_nat_alt)
  ultimately show ?thesis
    unfolding intervals_disjoint_def
    by (intro ofor_unit_Ret) (auto simp del: nth_map)
qed

lemma harden_body_written:
  assumes rd: "readable opt r ss lay" and lay: "layout_ok r ss lay" and arr: "arrays_ok r ss"
    and rs: "\<And>j. j < length ss \<Longrightarrow> read_span_entry bs (pay + unat span_dir + j * 32) = Ret (span_entry_of ss j)"
  shows "harden_body bs pay (total_source_frames r) (origin_frame (overview r))
    (lay_logical_column_count lay) (span_count (overview r)) span_dir (state (overview r)) = Ret ()"
proof -
  let ?o = "origin_frame (overview r)" and ?f = "state (overview r) = FEATURE_STATE_FINAL"
  have n: "unat (span_count (overview r)) = length ss" using arr by (simp add: arrays_ok_def)
  have z: "harden_state_at ?o ss 0 = \<lparr>intervals = [], hs_end_frame = ?o, hs_end_column = 0\<rparr>"
    by (simp add: harden_state_at_def)
  have loop: "ofor [0..<length ss] (harden_span bs (pay + unat span_dir) ?f)
      \<lparr>intervals = [], hs_end_frame = ?o, hs_end_column = 0\<rparr> = Ret (harden_state_at ?o ss (length ss))"
    using ofor_cong_Ret [where st = "harden_state_at ?o ss" and xs = "[0..<length ss]" and
        body = "harden_span bs (pay + unat span_dir) ?f"] harden_span_written [OF rd lay arr _ rs]
    by (simp add: z)
  have fin: "hs_end_column (harden_state_at ?o ss (length ss)) = ucast (lay_logical_column_count lay) \<and>
      hs_end_frame (harden_state_at ?o ss (length ss)) = total_source_frames r" if ?f
    using final_spans_ends(2) [OF rd lay arr that] final_spans [OF rd lay arr that]
      tiles_end [OF final_spans(1) [OF rd lay arr that]]
    by (auto simp: harden_state_at_def span_state_at_def)
  have iv: "intervals (harden_state_at ?o ss (length ss)) =
      map (\<lambda>j. data_interval (span_entry_of ss j)) [0..<length ss]"
    by (simp add: harden_state_at_def)
  show ?thesis
    using fin loop intervals_written [OF rd lay arr] n iv
    by (cases ?f) (simp_all add: harden_body_def)
qed
lemma parse_written:
  assumes arr: "arrays_ok r ss" and lay: "layout_ok r ss lay" and ok: "result_ok r"
    and rd: "readable opt r ss lay" and res: "apta_resolve_parse_options popts = Ret opt"
  shows "case apta_result_parse host ctx popts (Some (container_bytes r lay ss)) of
      (Ret p, ctx') \<Rightarrow> pr_result p = parsed_form r ss
    | (Fail e, ctx') \<Rightarrow> e \<in> {ERROR_OUT_OF_MEMORY, ERROR_LIMIT_EXCEEDED}
    | (Fault, ctx') \<Rightarrow> False"
proof -
  let ?bs = "container_bytes r lay ss" and ?w = "wovr_of (overview r) lay"
  define i where "i = \<lparr>payload_offset = 136, payload_size = lay_payload_size lay, wi_header = header_of r lay\<rparr>"
  have isel: "payload_offset i = 136" "wi_header i = header_of r lay" by (simp_all add: i_def)
  have len: "length ?bs < 18446744073709551616"
    using length_container_bytes [OF arr lay] unat_u64_bound [of "lay_total_size lay"] by simp
  have pay: "wovr_payload ?bs i = wovr_bytes (overview r) lay ss"
    using container_payload [OF arr lay] by (simp add: wovr_payload_def i_def)
  have v: "validate_input popts (Some ?bs) = Ret (opt, ?bs, i, of_nat (packed_before ss (length ss)))"
    using validate_container_written [OF arr lay ok rd] geometry_written [OF arr lay ok rd] pay
    by (simp add: validate_input_def res i_def)
  obtain w es where g: "container_ok ?bs opt i"
      "geometry_ok (wovr_payload ?bs i) opt (wi_header i) w es (of_nat (packed_before ss (length ss)))"
    using validate_input_owp [OF len, of popts] v by auto
  have w: "w = ?w" using g(2) pay by (simp add: geometry_ok_def read_wovr_header_bytes)
  have sl: "span_list (wovr_bytes (overview r) lay ss) ?w (length ss) es"
    using g(2) pay w arr by (simp add: geometry_ok_def wovr_of_def arrays_ok_def)
  have es: "es ! j = span_entry_of ss j" "length es = length ss" if "j < length ss" for j
    using span_list_nth [OF sl that] span_list_length [OF sl] read_span_bytes [OF that, of "overview r" lay]
    by (simp_all add: span_at_def wovr_of_def)
  have rs: "read_span_entry ?bs (136 + unat (w_span_directory_offset ?w) + j * 32) = Ret (span_entry_of ss j)"
    if "j < length ss" for j
    using harden_unfold(1) [OF g, of j] es [OF that] that w isel by simp
  have body: "harden_body ?bs 136 (total_source_frames r) (origin_frame (overview r))
      (lay_logical_column_count lay) (span_count (overview r)) (w_span_directory_offset ?w)
      (state (overview r)) = Ret ()"
    by (rule harden_body_written [OF rd lay arr rs])
  have sel: "w_origin_frame ?w = origin_frame (overview r)" "w_span_count ?w = span_count (overview r)"
      "w_logical_column_count ?w = lay_logical_column_count lay"
      "h_total_source_frames (header_of r lay) = total_source_frames r"
    by (simp_all add: wovr_of_def header_of_def)
  have hard: "fst (apta_harden_validated_wovr host c ?bs) \<in> {Ret (), Fail ERROR_OUT_OF_MEMORY}" for c
    using body wovr_state_of(1) [OF lay ok]
    by (simp add: harden_unfold(2) [OF g] w isel sel split: prod.split option.split)
  have n: "apta_get_u32 (wovr_bytes (overview r) lay ss) 20 = Ret (span_count (overview r))"
    using read_wovr_spans [OF read_wovr_header_bytes [of "overview r" lay ss]] by (simp add: sel)
  have base: "case apta_result_parse_base host ctx popts (Some ?bs) of
      (Ret p, ctx') \<Rightarrow> pr_result p = parsed_form r ss \<and> parsed_memory ctx p ctx'
    | (Fail e, ctx') \<Rightarrow> e \<in> {ERROR_LIMIT_EXCEEDED, ERROR_OUT_OF_MEMORY} \<and> same_memory ctx ctx'
    | (Fault, ctx') \<Rightarrow> False"
    unfolding apta_result_parse_base_def v outcome.case prod.case pay isel
    by (rule build_parsed_result_cases [OF fill_result_written [OF arr lay ok rd] n])
  obtain b c1 where b: "apta_result_parse_base host ctx popts (Some ?bs) = (b, c1)" by fastforce
  obtain u c2 where h: "apta_harden_validated_wovr host c1 ?bs = (u, c2)" by fastforce
  show ?thesis
    using base hard [of c1] by (cases b; cases u) (auto simp: apta_result_parse_def b h)
qed

lemma serialize_RetE:
  assumes arr: "arrays_ok r ss" and mem: "length mem < 18446744073709551616"
    and ser: "apta_result_serialize r options (Some mem) = Ret (out, n)"
  obtains lay where "apta_serialization_calculate_layout r options = Ret lay" "layout_ok r ss lay"
    "result_ok r" "n = lay_total_size lay" "length (container_bytes r lay ss) = unat n"
    "out = container_bytes r lay ss @ drop (unat n) mem"
proof -
  obtain lay where lay: "apta_serialization_calculate_layout r options = Ret lay"
    using ser by (auto simp: apta_result_serialize_def obind_eq_Ret)
  have ok: "layout_ok r ss lay" "result_ok r" using layout_owp [OF arr, of options] lay by simp_all
  have "\<not> (of_nat (length mem) :: u64) < lay_total_size lay"
    using ser by (auto simp: apta_result_serialize_def lay Let_def obind_eq_Ret)
  then have "unat (lay_total_size lay) \<le> length mem"
    using mem by (simp add: word_less_nat_alt unat_buffer_size)
  then show thesis
    using serialize_eq [OF arr lay mem] ser length_container_bytes [OF arr ok(1)]
    by (intro that [OF lay ok]) auto
qed

section \<open>The sample result, written\<close>

definition sample_spans :: "span list" where
  "sample_spans = [\<lparr>first_frame = 0, end_frame = 1000, first_column_index = 0, column_count = 1,
     columns = Some [sample_column]\<rparr>]"

definition sample_layout :: serialization_layout where
  "sample_layout = \<lparr>lay_total_size = 226, lay_payload_size = 90, lay_packed_column_count = 1,
     lay_logical_column_count = 1, lay_container_flags = 0, lay_wovr_flags = 4\<rparr>"

lemma sample_arrays: "arrays_ok sample_result sample_spans"
  by (simp add: arrays_ok_def sample_result_def sample_spans_def)

lemma sample_layout: "apta_serialization_calculate_layout sample_result None = Ret sample_layout"
  by (simp add: apta_serialization_calculate_layout_def apta_serialization_options_are_valid_def
      sample_result_def sample_column_def sample_layout_def layout_span_def layout_column_def nth_o_def
      layout_logical_def layout_container_flags_def required_columns_def
      apta_internal_source_fingerprint_is_valid_def apta_consts replicate_32)

lemma sample_readable: "readable default_options sample_result sample_spans sample_layout"
proof -
  have "overview_wf default_options sample_result" "overview_complete sample_result"
    using sample_column_ok
    by (simp_all add: overview_wf_def overview_complete_def span_wf_def sample_result_def
        span_extent_def required_columns_def apta_consts)
  then show ?thesis
    by (simp add: readable_def sample_layout_def default_options_def)
      (simp add: sample_result_def sample_spans_def packed_before_def span_columns_def apta_consts)
qed

lemma sample_serialized:
  "\<exists>out. apta_result_serialize sample_result None (Some (replicate 300 7)) = Ret (out, 226)"
  using serialize_eq [OF sample_arrays sample_layout, of "replicate 300 7"] by (simp add: sample_layout_def)

section \<open>Properties\<close>

text \<open>
  C29: the writer refines the format.  Given a result whose arrays have the lengths it states,
  a successful serialization stores exactly the container of the format specification at the
  front of the buffer, leaves the rest of the buffer alone, and reports the container's length.
\<close>
theorem serialize_refines_format:
  assumes arr: "arrays_ok r ss" and mem: "length mem < 18446744073709551616"
    and ser: "apta_result_serialize r options (Some mem) = Ret (out, n)"
  shows "\<exists>lay. apta_serialization_calculate_layout r options = Ret lay \<and>
    n = lay_total_size lay \<and> length (container_bytes r lay ss) = unat n \<and>
    out = container_bytes r lay ss @ drop (unat n) mem"
  by (rule serialize_RetE [OF assms]) blast

theorem serialize_refines_format_witness:
  "\<exists>out. apta_result_serialize sample_result None (Some (replicate 300 7)) = Ret (out, 226) \<and>
     take 226 out = container_bytes sample_result sample_layout sample_spans"
proof -
  obtain out where o1: "apta_result_serialize sample_result None (Some (replicate 300 7)) = Ret (out, 226)"
    using sample_serialized by blast
  from serialize_refines_format [OF sample_arrays _ o1]
  have "length (container_bytes sample_result sample_layout sample_spans) = 226 \<and>
      out = container_bytes sample_result sample_layout sample_spans @ drop 226 (replicate 300 7)"
    using sample_layout by auto
  then show ?thesis using o1 by (metis append_eq_conv_conj)
qed

text \<open>
  The size query and the serialization agree.  The writer never touches memory outside the
  buffer; with a buffer of at least the queried size it succeeds and writes exactly that many
  bytes, with a smaller one it reports that the buffer is too small, and when the query fails
  the serialization fails in the same way.
\<close>
theorem serialize_query_size:
  assumes arr: "arrays_ok r ss" and mem: "length mem < 18446744073709551616"
  shows "case apta_result_query_serialized_size r options of
      Ret sz \<Rightarrow>
        if unat sz \<le> length mem
        then \<exists>out. apta_result_serialize r options (Some mem) = Ret (out, sz) \<and> length out = length mem
        else apta_result_serialize r options (Some mem) = Fail ERROR_BUFFER_TOO_SMALL
    | Fail e \<Rightarrow> apta_result_serialize r options (Some mem) = Fail e
    | Fault \<Rightarrow> False"
proof (cases "apta_serialization_calculate_layout r options")
  case (Ret lay)
  have ok: "layout_ok r ss lay" using layout_owp [OF arr, of options] Ret by simp
  have "length (container_bytes r lay ss) = unat (lay_total_size lay)"
    by (rule length_container_bytes [OF arr ok])
  moreover have "\<not> SIZE_MAX < lay_total_size lay" by (simp add: not_less)
  ultimately show ?thesis
    using Ret serialize_eq [OF arr Ret mem]
    by (auto simp: apta_result_query_serialized_size_def apta_result_serialize_def Let_def
        word_less_nat_alt unat_buffer_size [OF mem])
next
  case (Fail e)
  then show ?thesis by (simp add: apta_result_query_serialized_size_def apta_result_serialize_def)
next
  case Fault
  then show ?thesis using layout_owp [OF arr, of options] by simp
qed

theorem serialize_query_size_witness:
  "apta_result_query_serialized_size sample_result None = Ret 226 \<and>
   (\<exists>out. apta_result_serialize sample_result None (Some (replicate 300 7)) = Ret (out, 226) \<and>
      length out = 300) \<and>
   apta_result_serialize sample_result None (Some (replicate 200 7)) = Fail ERROR_BUFFER_TOO_SMALL"
proof -
  have q: "apta_result_query_serialized_size sample_result None = Ret 226"
    by (simp add: apta_result_query_serialized_size_def sample_layout) (simp add: sample_layout_def)
  show ?thesis
    using serialize_query_size [OF sample_arrays, of "replicate 300 7" None]
      serialize_query_size [OF sample_arrays, of "replicate 200 7" None] q by simp
qed

text \<open>
  C3: serialize and parse are a round trip for a readable result: if the arrays of the result are as long as
  their counts, its overview is well formed, a final overview covers its source and has a known length, no column's
  frame position exceeds the range of a frame number, and the valid parse options admit its spans,
  columns and size, then parsing the bytes a serialization wrote gives back the same overview, span
  for span and column for column, with the same source description; generation, feature masks and
  confidence are those of a freshly parsed result.  The only way the parse can then fail is with the
  status for exhausted memory or for an exceeded limit (of the allocation).
\<close>
theorem serialize_parse_roundtrip:
  assumes arr: "arrays_ok r ss" and mem: "length mem < 18446744073709551616"
    and ser: "apta_result_serialize r options (Some mem) = Ret (out, n)"
    and res: "apta_resolve_parse_options popts = Ret opt"
    and rd: "\<And>lay. apta_serialization_calculate_layout r options = Ret lay \<Longrightarrow> readable opt r ss lay"
  shows "case apta_result_parse host ctx popts (Some (take (unat n) out)) of
      (Ret p, ctx') \<Rightarrow> pr_result p = parsed_form r ss
    | (Fail e, ctx') \<Rightarrow> e \<in> {ERROR_OUT_OF_MEMORY, ERROR_LIMIT_EXCEEDED}
    | (Fault, ctx') \<Rightarrow> False"
proof -
  obtain lay where lay: "apta_serialization_calculate_layout r options = Ret lay" "layout_ok r ss lay"
      "result_ok r" "length (container_bytes r lay ss) = unat n"
      "out = container_bytes r lay ss @ drop (unat n) mem"
    using serialize_RetE [OF arr mem ser] by blast
  then show ?thesis
    using parse_written [OF arr lay(2,3) rd [OF lay(1)] res] by simp
qed

theorem serialize_parse_roundtrip_witness:
  "\<exists>out. apta_result_serialize sample_result None (Some (replicate 300 7)) = Ret (out, 226) \<and>
     (case apta_result_parse demo_host roomy_context None (Some (take 226 out)) of
        (Ret p, ctx') \<Rightarrow> spans (overview (pr_result p)) = Some sample_spans
      | (Fail e, ctx') \<Rightarrow> e \<in> {ERROR_OUT_OF_MEMORY, ERROR_LIMIT_EXCEEDED}
      | (Fault, ctx') \<Rightarrow> False)"
proof -
  obtain out where o1: "apta_result_serialize sample_result None (Some (replicate 300 7)) = Ret (out, 226)"
    using sample_serialized by blast
  have "spans (overview (parsed_form sample_result sample_spans)) = Some sample_spans"
    by (simp add: parsed_form_def sample_result_def sample_spans_def)
  moreover have "case apta_result_parse demo_host roomy_context None (Some (take (unat (226 :: u64)) out)) of
      (Ret p, ctx') \<Rightarrow> pr_result p = parsed_form sample_result sample_spans
    | (Fail e, ctx') \<Rightarrow> e \<in> {ERROR_OUT_OF_MEMORY, ERROR_LIMIT_EXCEEDED}
    | (Fault, ctx') \<Rightarrow> False"
    by (rule serialize_parse_roundtrip [OF sample_arrays _ o1])
      (use sample_layout sample_readable in \<open>auto simp: apta_resolve_parse_options_def\<close>)
  ultimately show ?thesis using o1 by (auto split: prod.splits outcome.splits)
qed
end
