(* ===== verification/Apta_Workspace.thy ===== *)
theory Apta_Workspace
  imports Apta_Memory "HOL-Library.Multiset"
begin

text \<open>
  The session workspace (\<^verbatim>\<open>src/core/apta_session_workspace.c\<close>): a first-fit block allocator inside
  the caller's static memory, with splitting and coalescing, and the calculation of the memory a
  configuration needs.  The linked list of block headers is a list of blocks with their
  addresses.  The invariant says that the blocks tile the workspace without gap or overlap and
  that no two neighbours are free; the locale \<open>block_store\<close> states what the clients of the
  allocator rely on and is interpreted on it.  Struct sizes are those of the LP64 build: the block
  header has 32 bytes and the strictest alignment is 16; \<open>sizeof(apta_session_t)\<close> is a parameter.
\<close>

section \<open>Blocks\<close>

record wblock =
  wb_addr :: u64
  wb_capacity :: usize
  wb_requested_size :: usize
  wb_free :: bool

definition MAX_ALIGNMENT :: usize where [apta_consts]: "MAX_ALIGNMENT = 16"
definition sizeof_workspace_block :: usize where [apta_consts]: "sizeof_workspace_block = 32"

definition apta_workspace_align_up :: "usize \<Rightarrow> usize \<Rightarrow> usize" where
  "apta_workspace_align_up v alignment =
     (if SIZE_MAX - (alignment - 1) < v then SIZE_MAX
      else (v + alignment - 1) AND NOT (alignment - 1))"

definition apta_workspace_payload_prefix_size :: usize where
  "apta_workspace_payload_prefix_size =
     (let payload_offset = apta_workspace_align_up
            (sizeof_workspace_block + sizeof_allocation_header) MAX_ALIGNMENT
      in if payload_offset = SIZE_MAX then SIZE_MAX else payload_offset - sizeof_workspace_block)"

definition apta_workspace_block_payload :: "wblock \<Rightarrow> u64 option" where
  "apta_workspace_block_payload b =
     (if apta_workspace_payload_prefix_size = SIZE_MAX then None
      else Some (wb_addr b + sizeof_workspace_block + apta_workspace_payload_prefix_size))"

definition apta_workspace_first_block :: "usize \<Rightarrow> u64 \<Rightarrow> u64 option" where
  "apta_workspace_first_block session_size base =
     (let offset = apta_workspace_align_up session_size MAX_ALIGNMENT
      in if offset = SIZE_MAX then None else Some (base + offset))"

definition apta_internal_session_workspace_minimum_size :: "usize \<Rightarrow> usize" where
  "apta_internal_session_workspace_minimum_size session_size =
     (let offset = apta_workspace_align_up session_size MAX_ALIGNMENT;
          prefix_size = apta_workspace_payload_prefix_size
      in if offset = SIZE_MAX \<or> prefix_size = SIZE_MAX \<or>
            SIZE_MAX - sizeof_workspace_block - prefix_size - MAX_ALIGNMENT < offset
         then SIZE_MAX
         else offset + sizeof_workspace_block + prefix_size + MAX_ALIGNMENT)"

section \<open>The calculated requirement\<close>

definition apta_workspace_allocation_cost :: "usize \<Rightarrow> usize" where
  "apta_workspace_allocation_cost size0 =
     (let sz = (if size0 = 0 then 1 else size0);
          padded = apta_workspace_align_up sz MAX_ALIGNMENT;
          prefix = apta_workspace_payload_prefix_size
      in if padded = SIZE_MAX \<or> prefix = SIZE_MAX then SIZE_MAX
         else sizeof_workspace_block + prefix + padded)"

definition apta_workspace_add :: "usize \<Rightarrow> usize \<Rightarrow> usize" where
  "apta_workspace_add tot addend =
     (if tot = SIZE_MAX \<or> addend = SIZE_MAX \<or> SIZE_MAX - addend < tot then SIZE_MAX
      else tot + addend)"

section \<open>Allocation\<close>

definition apta_internal_session_workspace_initialize ::
    "usize \<Rightarrow> u64 \<Rightarrow> usize \<Rightarrow> wblock list outcome" where
  "apta_internal_session_workspace_initialize session_size base wsize =
     (let minimum_size = apta_internal_session_workspace_minimum_size session_size;
          offset = apta_workspace_align_up session_size MAX_ALIGNMENT
      in
      obind (check (minimum_size = SIZE_MAX \<or> wsize < minimum_size) ERROR_OUT_OF_MEMORY) (\<lambda>_.
      obind (check (base AND (MAX_ALIGNMENT - 1) \<noteq> 0) ERROR_INVALID_ARGUMENT) (\<lambda>_.
      case apta_workspace_first_block session_size base of
        None \<Rightarrow> Fail ERROR_LIMIT_EXCEEDED
      | Some first \<Rightarrow>
          Ret [\<lparr>wb_addr = first, wb_capacity = wsize - offset - sizeof_workspace_block,
                wb_requested_size = 0, wb_free = True\<rparr>])))"

text \<open>The first-fit walk: \<open>required\<close> is the prefix and the padded size.\<close>

fun first_fit :: "usize \<Rightarrow> usize \<Rightarrow> wblock list \<Rightarrow> u64 option \<times> wblock list" where
  "first_fit sz required [] = (None, [])"
| "first_fit sz required (b # bs) =
     (if \<not> wb_free b \<or> wb_capacity b < required
      then (case first_fit sz required bs of (p, bs') \<Rightarrow> (p, b # bs'))
      else
        let remaining = wb_capacity b - required;
            taken = b\<lparr>wb_requested_size := sz, wb_free := False\<rparr>
        in (apta_workspace_block_payload b,
            if sizeof_workspace_block + apta_workspace_payload_prefix_size + MAX_ALIGNMENT \<le> remaining
            then taken\<lparr>wb_capacity := required\<rparr> #
                 \<lparr>wb_addr = wb_addr b + sizeof_workspace_block + required,
                  wb_capacity = remaining - sizeof_workspace_block,
                  wb_requested_size = 0, wb_free = True\<rparr> # bs
            else taken # bs))"

definition workspace_allocate ::
    "wblock list \<Rightarrow> usize \<Rightarrow> usize \<Rightarrow> u64 option \<times> wblock list" where
  "workspace_allocate ws size0 alignment0 =
     (let sz = (if size0 = 0 then 1 else size0);
          alignment = (if alignment0 < 8 then 8 else alignment0);
          padded_size = apta_workspace_align_up sz MAX_ALIGNMENT;
          prefix_size = apta_workspace_payload_prefix_size
      in if \<not> apta_internal_is_power_of_two alignment \<or> MAX_ALIGNMENT < alignment then (None, ws)
         else if padded_size = SIZE_MAX \<or> prefix_size = SIZE_MAX \<or>
                 SIZE_MAX - padded_size < prefix_size then (None, ws)
         else first_fit sz (prefix_size + padded_size) ws)"

text \<open>Freeing: find the block of the payload, mark it free, absorb a free successor, and be
  absorbed by a free predecessor.\<close>

definition absorb_next :: "wblock \<Rightarrow> wblock list \<Rightarrow> wblock list" where
  "absorb_next b bs =
     (case bs of
        n # rest \<Rightarrow>
          if wb_free n
          then b\<lparr>wb_capacity := wb_capacity b + (sizeof_workspace_block + wb_capacity n)\<rparr> # rest
          else b # bs
      | [] \<Rightarrow> [b])"

fun release_block :: "u64 \<Rightarrow> wblock option \<Rightarrow> wblock list \<Rightarrow> wblock list" where
  "release_block memory previous [] = (case previous of None \<Rightarrow> [] | Some p \<Rightarrow> [p])"
| "release_block memory previous (b # bs) =
     (if apta_workspace_block_payload b = Some memory
      then if wb_free b then (case previous of None \<Rightarrow> [] | Some p \<Rightarrow> [p]) @ b # bs
           else
             (let merged = absorb_next (b\<lparr>wb_requested_size := 0, wb_free := True\<rparr>) bs
              in case previous of
                   None \<Rightarrow> merged
                 | Some p \<Rightarrow> if wb_free p then absorb_next p merged else p # merged)
      else (case previous of None \<Rightarrow> [] | Some p \<Rightarrow> [p]) @ release_block memory (Some b) bs)"

definition workspace_deallocate :: "wblock list \<Rightarrow> u64 \<Rightarrow> wblock list" where
  "workspace_deallocate ws memory = release_block memory None ws"

text \<open>A session allocates from its workspace when it lives in one, from the context otherwise.\<close>

record session_memory =
  sm_context :: apta_context
  sm_workspace :: "wblock list option"

definition apta_internal_session_allocate ::
    "host_allocator \<Rightarrow> session_memory \<Rightarrow> usize \<Rightarrow> usize \<Rightarrow> u64 option \<times> session_memory" where
  "apta_internal_session_allocate host sm sz alignment =
     (case sm_workspace sm of
        None \<Rightarrow>
          (case apta_internal_context_allocate host (sm_context sm) sz alignment of
             (p, ctx) \<Rightarrow> (p, sm\<lparr>sm_context := ctx\<rparr>))
      | Some ws \<Rightarrow>
          (case workspace_allocate ws sz alignment of
             (p, ws') \<Rightarrow> (p, sm\<lparr>sm_workspace := Some ws'\<rparr>)))"

definition apta_internal_session_deallocate :: "session_memory \<Rightarrow> u64 option \<Rightarrow> session_memory" where
  "apta_internal_session_deallocate sm memory =
     (case memory of
        None \<Rightarrow> sm
      | Some a \<Rightarrow>
          (case sm_workspace sm of
             None \<Rightarrow> sm\<lparr>sm_context := apta_internal_context_deallocate (sm_context sm) (Some a)\<rparr>
           | Some ws \<Rightarrow> sm\<lparr>sm_workspace := Some (workspace_deallocate ws a)\<rparr>))"

section \<open>The block list\<close>

lemma payload_prefix_size [simp]: "apta_workspace_payload_prefix_size = 32"
  by (simp add: apta_workspace_payload_prefix_size_def apta_workspace_align_up_def apta_consts
      sizeof_allocation_header_def)

lemma block_payload: "apta_workspace_block_payload b = Some (wb_addr b + 64)"
  by (simp add: apta_workspace_block_payload_def apta_consts)

text \<open>A block holds a 16-byte payload or more behind its prefix, and its requested size fits.\<close>

definition block_ok :: "wblock \<Rightarrow> bool" where
  "block_ok b \<longleftrightarrow> 48 \<le> unat (wb_capacity b) \<and>
     (if wb_free b then wb_requested_size b = 0
      else wb_requested_size b \<noteq> 0 \<and> 32 + unat (wb_requested_size b) \<le> unat (wb_capacity b))"

definition block_end :: "nat \<Rightarrow> wblock \<Rightarrow> nat" where
  "block_end a b = a + 32 + unat (wb_capacity b)"

fun tiled :: "nat \<Rightarrow> nat \<Rightarrow> wblock list \<Rightarrow> bool" where
  "tiled a e [] \<longleftrightarrow> a = e"
| "tiled a e (b # bs) \<longleftrightarrow>
     unat (wb_addr b) = a \<and> 16 dvd a \<and> block_ok b \<and> tiled (block_end a b) e bs"

fun coalesced :: "wblock list \<Rightarrow> bool" where
  "coalesced (b # c # bs) \<longleftrightarrow> \<not> (wb_free b \<and> wb_free c) \<and> coalesced (c # bs)"
| "coalesced _ \<longleftrightarrow> True"

definition ws_inv :: "nat \<Rightarrow> nat \<Rightarrow> wblock list \<Rightarrow> bool" where
  "ws_inv a e ws \<longleftrightarrow> tiled a e ws \<and> coalesced ws \<and> a < e \<and> e < 18446744073709551616"

text \<open>The payload addresses and requested sizes of the blocks in use.\<close>

definition live_blocks :: "wblock list \<Rightarrow> (nat \<times> nat) list" where
  "live_blocks ws = map (\<lambda>b. (unat (wb_addr b) + 64, unat (wb_requested_size b)))
                        (filter (\<lambda>b. \<not> wb_free b) ws)"

lemma live_blocks_simps [simp]:
  "live_blocks [] = []"
  "live_blocks (b # bs) = (if wb_free b then live_blocks bs
     else (unat (wb_addr b) + 64, unat (wb_requested_size b)) # live_blocks bs)"
  "live_blocks (xs @ ys) = live_blocks xs @ live_blocks ys"
  by (simp_all add: live_blocks_def)

lemma tiled_le: "tiled a e ws \<Longrightarrow> a \<le> e"
  by (induction a e ws rule: tiled.induct) (auto simp: block_end_def)

lemma tiled_append: "tiled a e (xs @ ys) \<longleftrightarrow> (\<exists>m. tiled a m xs \<and> tiled m e ys)"
  by (induction xs arbitrary: a) auto

lemma tiled_addr_bounds:
  assumes "tiled a e ws" "b \<in> set ws"
  shows "a \<le> unat (wb_addr b)" "block_end (unat (wb_addr b)) b \<le> e" "16 dvd unat (wb_addr b)"
    "block_ok b"
  using assms by (induction a e ws rule: tiled.induct)
    (auto simp: block_end_def dest: tiled_le)

lemma coalesced_append:
  "coalesced (xs @ ys) \<longleftrightarrow> coalesced xs \<and> coalesced ys \<and>
     \<not> (xs \<noteq> [] \<and> ys \<noteq> [] \<and> wb_free (last xs) \<and> wb_free (hd ys))"
  by (induction xs rule: coalesced.induct; cases ys) auto

text \<open>Blocks in use are 16-byte aligned, inside the workspace and pairwise disjoint.\<close>

definition separated :: "nat \<Rightarrow> nat \<Rightarrow> (nat \<times> nat) list \<Rightarrow> bool" where
  "separated a e ps \<longleftrightarrow> sorted_wrt (\<lambda>(p, n) (q, m). p + n \<le> q) ps \<and>
     (\<forall>(p, n) \<in> set ps. a \<le> p \<and> p + n \<le> e \<and> 16 dvd p \<and> 0 < n)"

lemma tiled_separated: "tiled a e ws \<Longrightarrow> separated (a + 64) e (live_blocks ws)"
proof (induction a e ws rule: tiled.induct)
  case (2 a e b bs)
  from 2 have b: "unat (wb_addr b) = a" "16 dvd a" "block_ok b" "tiled (block_end a b) e bs"
    and IH: "separated (block_end a b + 64) e (live_blocks bs)" by auto
  have le: "a + 64 \<le> block_end a b + 64" by (simp add: block_end_def)
  have wide: "separated (a + 64) e (live_blocks bs)"
    using IH le unfolding separated_def by force
  show ?case
  proof (cases "wb_free b")
    case False
    then have "32 + unat (wb_requested_size b) \<le> unat (wb_capacity b)" "0 < unat (wb_requested_size b)"
      using b(3) by (auto simp: block_ok_def word_less_nat_alt unat_gt_0)
    then have "a + 64 + unat (wb_requested_size b) \<le> block_end a b" by (simp add: block_end_def)
    moreover have "\<forall>(q, m) \<in> set (live_blocks bs). block_end a b + 64 \<le> q"
      using IH by (auto simp: separated_def)
    moreover have "16 dvd a + 64" using b(2) by (simp add: dvd_add)
    ultimately show ?thesis
      using wide b False tiled_le [OF b(4)] \<open>0 < unat (wb_requested_size b)\<close>
      by (auto simp: separated_def)
  qed (use wide in simp)
qed (simp add: separated_def)

section \<open>Allocation preserves the tiling\<close>

definition place :: "usize \<Rightarrow> usize \<Rightarrow> wblock \<Rightarrow> wblock list" where
  "place sz required b =
     (let remaining = wb_capacity b - required; taken = b\<lparr>wb_requested_size := sz, wb_free := False\<rparr>
      in if 80 \<le> remaining
         then [taken\<lparr>wb_capacity := required\<rparr>,
               \<lparr>wb_addr = wb_addr b + 32 + required, wb_capacity = remaining - 32,
                wb_requested_size = 0, wb_free = True\<rparr>]
         else [taken])"

definition fits :: "usize \<Rightarrow> wblock \<Rightarrow> bool" where
  "fits required b \<longleftrightarrow> wb_free b \<and> required \<le> wb_capacity b"

lemma first_fit_cases:
  "(\<forall>b\<in>set ws. \<not> fits required b) \<and> first_fit sz required ws = (None, ws) \<or>
   (\<exists>pre b post. ws = pre @ b # post \<and> (\<forall>c\<in>set pre. \<not> fits required c) \<and> fits required b \<and>
      first_fit sz required ws = (Some (wb_addr b + 64), pre @ place sz required b @ post))"
proof (induction ws)
  case (Cons b bs)
  show ?case
  proof (cases "fits required b")
    case True
    then have "first_fit sz required (b # bs) = (Some (wb_addr b + 64), [] @ place sz required b @ bs)"
      by (auto simp: fits_def place_def Let_def block_payload apta_consts dest: leD)
    then show ?thesis using True by (intro disjI2 exI [of _ "[]"]) auto
  next
    case False
    then have step: "first_fit sz required (b # bs) =
        (case first_fit sz required bs of (p, bs') \<Rightarrow> (p, b # bs'))"
      by (auto simp: fits_def not_le)
    from Cons show ?thesis
    proof
      assume "\<exists>pre c post. bs = pre @ c # post \<and> (\<forall>c\<in>set pre. \<not> fits required c) \<and> fits required c \<and>
        first_fit sz required bs = (Some (wb_addr c + 64), pre @ place sz required c @ post)"
      then obtain pre c post where "bs = pre @ c # post" "\<forall>c\<in>set pre. \<not> fits required c"
        "fits required c"
        "first_fit sz required bs = (Some (wb_addr c + 64), pre @ place sz required c @ post)" by blast
      then show ?thesis using False step
        by (intro disjI2 exI [of _ "b # pre"] exI [of _ c] exI [of _ post]) simp
    qed (use False step in simp)
  qed
qed simp

lemma place_tiled:
  assumes b: "unat (wb_addr b) = a" "16 dvd a" "block_ok b" "fits required b"
    and e: "block_end a b < 18446744073709551616"
    and r: "16 dvd unat required" "48 \<le> unat required" "sz \<noteq> 0" "32 + unat sz \<le> unat required"
  shows "tiled a (block_end a b) (place sz required b)"
    and "live_blocks (place sz required b) = [(a + 64, unat sz)]"
    and "\<not> wb_free (hd (place sz required b))"
proof -
  have le: "required \<le> wb_capacity b" using b(4) by (simp add: fits_def)
  have rem: "unat (wb_capacity b - required) = unat (wb_capacity b) - unat required"
    "unat required \<le> unat (wb_capacity b)"
    using unat_sub [OF le] le by (simp_all add: word_le_nat_alt)
  have u32: "unat (wb_addr b + 32) = a + 32"
    using e b(1) by (simp add: unat_plus_u64 block_end_def)
  have nxt: "unat (wb_addr b + 32 + required) = a + 32 + unat required"
    using e rem(2) u32 by (simp add: unat_plus_u64 block_end_def)
  have "80 \<le> wb_capacity b - required \<Longrightarrow>
      unat (wb_capacity b - required - 32) = unat (wb_capacity b) - unat required - 32"
    using unat_sub [of 32 "wb_capacity b - required"] rem(1) by (simp add: word_le_nat_alt)
  moreover have "16 dvd a + 32 + unat required" using b(2) r(1) by (simp add: dvd_add)
  ultimately show "tiled a (block_end a b) (place sz required b)"
    using b r rem nxt
    by (auto simp: place_def Let_def block_ok_def block_end_def word_le_nat_alt)
  show "live_blocks (place sz required b) = [(a + 64, unat sz)]" "\<not> wb_free (hd (place sz required b))"
    using b by (simp_all add: place_def Let_def)
qed


lemma workspace_align_up:
  assumes "apta_workspace_align_up v MAX_ALIGNMENT \<noteq> SIZE_MAX"
  shows "unat v \<le> unat (apta_workspace_align_up v MAX_ALIGNMENT)"
    "unat (apta_workspace_align_up v MAX_ALIGNMENT) < unat v + 16"
    "16 dvd unat (apta_workspace_align_up v MAX_ALIGNMENT)"
proof -
  have le: "v \<le> SIZE_MAX - (MAX_ALIGNMENT - 1)"
    using assms by (auto simp: apta_workspace_align_up_def not_less split: if_splits)
  then have "unat v + 15 < 18446744073709551616" unfolding size_add_guard by (simp add: apta_consts)
  then have "unat (apta_workspace_align_up v MAX_ALIGNMENT) = (unat v + (2 ^ 4 - 1)) div 2 ^ 4 * 2 ^ 4"
    using unat_align_up [of 4 "MAX_ALIGNMENT" v] le
    by (simp add: apta_workspace_align_up_def apta_consts not_less [symmetric])
  then show "unat v \<le> unat (apta_workspace_align_up v MAX_ALIGNMENT)"
    "unat (apta_workspace_align_up v MAX_ALIGNMENT) < unat v + 16"
    "16 dvd unat (apta_workspace_align_up v MAX_ALIGNMENT)"
    using align_up_bounds [of 16 "unat v"] by simp_all
qed

text \<open>What one request asks of a block: the padded size and the prefix.\<close>

definition request :: "usize \<Rightarrow> usize" where
  "request n = 32 + apta_workspace_align_up (if n = 0 then 1 else n) MAX_ALIGNMENT"

definition request_ok :: "usize \<Rightarrow> usize \<Rightarrow> bool" where
  "request_ok n alignment \<longleftrightarrow>
     alignment \<le> 16 \<and> (alignment < 8 \<or> apta_internal_is_power_of_two alignment) \<and>
     unat n \<le> 18446744073709551568"


lemma unat_request:
  assumes "unat n \<le> 18446744073709551568"
  defines "sz \<equiv> if n = 0 then 1 else n"
  shows "unat (request n) = 32 + unat (apta_workspace_align_up sz MAX_ALIGNMENT)"
    "16 dvd unat (request n)" "48 \<le> unat (request n)" "32 + unat sz \<le> unat (request n)"
    "apta_workspace_align_up sz MAX_ALIGNMENT \<noteq> SIZE_MAX"
    "apta_workspace_payload_prefix_size \<le> SIZE_MAX - apta_workspace_align_up sz MAX_ALIGNMENT"
proof -
  have sz: "unat sz \<le> 18446744073709551568" "sz \<noteq> 0" using assms by auto
  have "unat sz + 15 < 18446744073709551616" using sz by simp
  then have le: "\<not> SIZE_MAX - (MAX_ALIGNMENT - 1) < sz"
    unfolding not_less size_add_guard by (simp add: apta_consts)
  have "unat (apta_workspace_align_up sz MAX_ALIGNMENT) = (unat sz + 15) div 16 * 16"
    using unat_align_up [of 4 "MAX_ALIGNMENT" sz] le \<open>unat sz + 15 < 18446744073709551616\<close>
    by (simp add: apta_workspace_align_up_def apta_consts)
  moreover have "(unat sz + 15) div 16 * 16 \<le> (18446744073709551568 + 15) div 16 * 16"
    using sz(1) by (intro mult_le_mono1 div_le_mono) simp
  ultimately have ub: "unat (apta_workspace_align_up sz MAX_ALIGNMENT) \<le> 18446744073709551568" by simp
  then show ns: "apta_workspace_align_up sz MAX_ALIGNMENT \<noteq> SIZE_MAX" by (auto simp: apta_consts)
  show "apta_workspace_payload_prefix_size \<le> SIZE_MAX - apta_workspace_align_up sz MAX_ALIGNMENT"
    unfolding size_add_guard using ub by simp
  note al = workspace_align_up [OF ns]
  show u: "unat (request n) = 32 + unat (apta_workspace_align_up sz MAX_ALIGNMENT)"
    using ub by (simp add: request_def sz_def [symmetric] unat_plus_u64)
  show "16 dvd unat (request n)" using al(3) u by (simp add: dvd_add)
  have "0 < unat sz" using sz(2) by (simp add: unat_gt_0)
  then have "16 \<le> unat (apta_workspace_align_up sz MAX_ALIGNMENT)"
    using al(1,3) by (intro dvd_imp_le) auto
  then show "48 \<le> unat (request n)" "32 + unat sz \<le> unat (request n)" using u al(1) by simp_all
qed

lemma request_refused:
  assumes "\<not> unat n \<le> 18446744073709551568"
  defines "sz \<equiv> if n = 0 then 1 else n"
  shows "apta_workspace_align_up sz MAX_ALIGNMENT = SIZE_MAX \<or>
    SIZE_MAX - apta_workspace_align_up sz MAX_ALIGNMENT < apta_workspace_payload_prefix_size"
proof (rule disjCI)
  have "sz = n" using assms by auto
  assume small: "\<not> SIZE_MAX - apta_workspace_align_up sz MAX_ALIGNMENT < apta_workspace_payload_prefix_size"
  then have lt: "32 + unat (apta_workspace_align_up sz MAX_ALIGNMENT) < 18446744073709551616"
    unfolding not_less size_add_guard by simp
  show "apta_workspace_align_up sz MAX_ALIGNMENT = SIZE_MAX"
  proof (rule ccontr)
    assume ns: "apta_workspace_align_up sz MAX_ALIGNMENT \<noteq> SIZE_MAX"
    from workspace_align_up(3) [OF ns] obtain k where
      k: "unat (apta_workspace_align_up sz MAX_ALIGNMENT) = 16 * k" by (rule dvdE)
    then show False using workspace_align_up(1) [OF ns] lt assms(1) \<open>sz = n\<close> by simp
  qed
qed

lemma workspace_allocate_eq:
  "workspace_allocate ws n al =
     (if request_ok n al then first_fit (if n = 0 then 1 else n) (request n) ws else (None, ws))"
proof (cases "unat n \<le> 18446744073709551568")
  case True
  note u = unat_request [OF True]
  have "al < 8 \<Longrightarrow> \<not> 16 < al" by (simp add: word_less_nat_alt)
  moreover have "apta_internal_is_power_of_two 8" by (simp add: apta_internal_is_power_of_two_def)
  moreover have "\<not> SIZE_MAX - apta_workspace_align_up (if n = 0 then 1 else n) MAX_ALIGNMENT
      < apta_workspace_payload_prefix_size"
    using u(6) by (simp only: not_less)
  ultimately show ?thesis
    using True u(5)
    by (auto simp: workspace_allocate_def Let_def request_ok_def request_def MAX_ALIGNMENT_def
        not_le not_less SIZE_MAX_def)
next
  case False
  then show ?thesis using request_refused [OF False]
    by (auto simp: workspace_allocate_def Let_def request_ok_def)
qed


text \<open>The cases of one allocation: refused, no block large enough, or a block taken.\<close>

lemma workspace_allocate_cases:
  assumes inv: "ws_inv a e ws"
  obtains (refused) "\<not> request_ok n al" "workspace_allocate ws n al = (None, ws)"
  | (full) "request_ok n al" "\<forall>b\<in>set ws. \<not> fits (request n) b" "workspace_allocate ws n al = (None, ws)"
  | (taken) pre b post where "request_ok n al" "ws = pre @ b # post" "fits (request n) b"
      "\<forall>c\<in>set pre. \<not> fits (request n) c"
      "workspace_allocate ws n al =
         (Some (wb_addr b + 64), pre @ place (if n = 0 then 1 else n) (request n) b @ post)"
      "unat (wb_addr b + 64) = unat (wb_addr b) + 64"
      "tiled (unat (wb_addr b)) (block_end (unat (wb_addr b)) b)
         (place (if n = 0 then 1 else n) (request n) b)"
      "live_blocks (place (if n = 0 then 1 else n) (request n) b) =
         [(unat (wb_addr b) + 64, unat (if n = 0 then 1 else n))]"
      "\<not> wb_free (hd (place (if n = 0 then 1 else n) (request n) b))"
proof (cases "request_ok n al")
  case True
  let ?sz = "if n = 0 then 1 else n"
  from first_fit_cases [of ws "request n" ?sz] show ?thesis
  proof
    assume "\<exists>pre b post. ws = pre @ b # post \<and> (\<forall>c\<in>set pre. \<not> fits (request n) c) \<and> fits (request n) b \<and>
      first_fit ?sz (request n) ws = (Some (wb_addr b + 64), pre @ place ?sz (request n) b @ post)"
    then obtain pre b post where ws: "ws = pre @ b # post" "\<forall>c\<in>set pre. \<not> fits (request n) c"
      and b: "fits (request n) b"
      and eq: "first_fit ?sz (request n) ws = (Some (wb_addr b + 64), pre @ place ?sz (request n) b @ post)"
      by blast
    have n: "unat n \<le> 18446744073709551568" using True by (simp add: request_ok_def)
    note r = unat_request [OF n]
    have "b \<in> set ws" using ws by simp
    note bounds = tiled_addr_bounds [OF _ this, of a e]
    have t: "tiled a e ws" "e < 18446744073709551616" using inv by (simp_all add: ws_inv_def)
    have ends: "block_end (unat (wb_addr b)) b < 18446744073709551616"
      using bounds(2) [OF t(1)] t(2) by simp
    have "unat (wb_addr b) + 64 < 18446744073709551616"
      using ends bounds(4) [OF t(1)] by (simp add: block_end_def block_ok_def)
    then have "unat (wb_addr b + 64) = unat (wb_addr b) + 64" by (simp add: unat_plus_u64)
    moreover have "?sz \<noteq> 0" by simp
    ultimately show ?thesis
      using taken [OF True ws(1) b ws(2)] eq True
        place_tiled [OF refl bounds(3) [OF t(1)] bounds(4) [OF t(1)] b ends r(2,3) _ r(4)]
      by (simp add: workspace_allocate_eq)
  qed (use full True in \<open>simp add: workspace_allocate_eq\<close>)
qed (use refused in \<open>simp add: workspace_allocate_eq\<close>)

lemma place_nonempty [simp]: "place sz r b \<noteq> []" by (simp add: place_def Let_def)

lemma tiled_replace:
  assumes "tiled a e (pre @ b # post)" "tiled (unat (wb_addr b)) (block_end (unat (wb_addr b)) b) xs"
  shows "tiled a e (pre @ xs @ post)"
  using assms unfolding tiled_append by (metis tiled.simps(2))

lemma workspace_allocate_inv:
  assumes inv: "ws_inv a e ws" and eq: "workspace_allocate ws n al = (p, ws')"
  shows "ws_inv a e ws'"
proof (rule workspace_allocate_cases [OF inv, of n al])
  fix pre b post
  let ?pl = "place (if n = 0 then 1 else n) (request n) b"
  assume ws: "ws = pre @ b # post" "fits (request n) b"
    and r: "workspace_allocate ws n al = (Some (wb_addr b + 64), pre @ ?pl @ post)"
    and pl: "tiled (unat (wb_addr b)) (block_end (unat (wb_addr b)) b) ?pl" "\<not> wb_free (hd ?pl)"
  have "tiled a e ws'"
    using inv ws r eq tiled_replace [OF _ pl(1)] by (auto simp: ws_inv_def)
  moreover have "coalesced (pre @ ?pl @ post)"
  proof -
    have c: "coalesced pre" "coalesced (b # post)" "wb_free b"
      using inv ws by (auto simp: ws_inv_def coalesced_append fits_def)
    then have "post \<noteq> [] \<Longrightarrow> \<not> wb_free (hd post)" by (cases post) auto
    then have "coalesced (?pl @ post)"
      using c(2) pl(2) by (cases post) (auto simp: place_def Let_def)
    then show ?thesis using c(1) pl(2) by (auto simp: coalesced_append)
  qed
  ultimately show ?thesis using inv r eq by (simp add: ws_inv_def)
qed (use assms in auto)

section \<open>Freeing preserves the tiling\<close>

definition join :: "wblock list \<Rightarrow> wblock list \<Rightarrow> wblock list" where
  "join pre bs = (if pre \<noteq> [] \<and> wb_free (last pre)
     then butlast pre @ absorb_next (last pre) bs else pre @ bs)"

definition opt_list :: "'a option \<Rightarrow> 'a list" where
  "opt_list p = (case p of None \<Rightarrow> [] | Some x \<Rightarrow> [x])"

lemma join_append: "pre \<noteq> [] \<Longrightarrow> join (xs @ pre) bs = xs @ join pre bs"
  by (simp add: join_def butlast_append)

lemma absorb_next_cons: "\<exists>c cs. absorb_next b bs = c # cs"
  by (simp add: absorb_next_def split: list.splits)

lemma release_block_cases:
  "release_block m previous ws = opt_list previous @ ws \<and>
     (\<forall>b\<in>set ws. wb_addr b + 64 = m \<longrightarrow> wb_free b \<or> (\<exists>c\<in>set ws. wb_addr c + 64 = m \<and> wb_free c)) \<or>
   (\<exists>pre b post. ws = pre @ b # post \<and> wb_addr b + 64 = m \<and> \<not> wb_free b \<and>
      (\<forall>c\<in>set pre. wb_addr c + 64 \<noteq> m) \<and>
      release_block m previous ws =
        join (opt_list previous @ pre) (absorb_next (b\<lparr>wb_requested_size := 0, wb_free := True\<rparr>) post))"
proof (induction m previous ws rule: release_block.induct)
  case (2 m previous b bs)
  show ?case
  proof (cases "wb_addr b + 64 = m")
    case True
    then show ?thesis
    proof (cases "wb_free b")
      case False
      obtain c cs where
        "absorb_next (b\<lparr>wb_requested_size := 0, wb_free := True\<rparr>) bs = c # cs"
        using absorb_next_cons by blast
      then show ?thesis using True False
        by (intro disjI2 exI [of _ "[]"] exI [of _ b] exI [of _ bs])
          (auto simp: block_payload join_def opt_list_def split: option.splits)
    qed (use True in \<open>auto simp: block_payload opt_list_def split: option.splits\<close>)
  next
    case False
    then have step: "release_block m previous (b # bs) =
        opt_list previous @ release_block m (Some b) bs"
      by (simp add: block_payload opt_list_def split: option.splits)
    have "apta_workspace_block_payload b \<noteq> Some m" using False by (simp add: block_payload)
    from 2 [OF this] show ?thesis
    proof
      assume "\<exists>pre c post. bs = pre @ c # post \<and> wb_addr c + 64 = m \<and> \<not> wb_free c \<and>
        (\<forall>c\<in>set pre. wb_addr c + 64 \<noteq> m) \<and> release_block m (Some b) bs =
          join (opt_list (Some b) @ pre) (absorb_next (c\<lparr>wb_requested_size := 0, wb_free := True\<rparr>) post)"
      then obtain pre c post where "bs = pre @ c # post" "wb_addr c + 64 = m" "\<not> wb_free c"
        "\<forall>c\<in>set pre. wb_addr c + 64 \<noteq> m" "release_block m (Some b) bs =
          join (opt_list (Some b) @ pre) (absorb_next (c\<lparr>wb_requested_size := 0, wb_free := True\<rparr>) post)"
        by blast
      then show ?thesis using False step
        by (intro disjI2 exI [of _ "b # pre"] exI [of _ c] exI [of _ post])
          (simp add: join_append opt_list_def)
    qed (use False step in \<open>auto simp: opt_list_def\<close>)
  qed
qed (simp add: opt_list_def)


definition freed :: "wblock \<Rightarrow> wblock" where
  "freed b = b\<lparr>wb_requested_size := 0, wb_free := True\<rparr>"

lemma absorb_next_props:
  assumes "wb_free b" "tiled a e (b # bs)" "coalesced bs" "e < 18446744073709551616"
  shows "tiled a e (absorb_next b bs)" "live_blocks (absorb_next b bs) = live_blocks bs"
    "coalesced (absorb_next b bs)" "wb_free (hd (absorb_next b bs))"
    "wb_addr (hd (absorb_next b bs)) = wb_addr b"
proof -
  have merged: "unat (wb_capacity b + (32 + wb_capacity c)) = unat (wb_capacity b) + 32 + unat (wb_capacity c)"
    if "bs = c # cs" for c cs
  proof -
    have "unat (wb_capacity b) + 32 + unat (wb_capacity c) < 18446744073709551616"
      using assms(2,4) that by (auto simp: block_end_def dest: tiled_le)
    then show ?thesis by (simp add: unat_plus_u64)
  qed
  show "tiled a e (absorb_next b bs)"
  proof (cases bs)
    case (Cons c cs)
    then have "block_end (block_end a b) c = a + 32 + (unat (wb_capacity b) + 32 + unat (wb_capacity c))"
      by (simp add: block_end_def)
    then show ?thesis using assms merged [OF Cons] Cons
      by (auto simp: absorb_next_def block_ok_def sizeof_workspace_block_def block_end_def add.assoc)
  qed (use assms in \<open>simp add: absorb_next_def\<close>)
  show "live_blocks (absorb_next b bs) = live_blocks bs" "coalesced (absorb_next b bs)"
    "wb_free (hd (absorb_next b bs))" "wb_addr (hd (absorb_next b bs)) = wb_addr b"
    using assms(1,3) by (cases bs; cases "tl bs"; force simp: absorb_next_def)+
qed

lemma join_props:
  assumes "bs \<noteq> []" "wb_free (hd bs)" "tiled a e (pre @ bs)" "coalesced pre" "coalesced bs"
    "e < 18446744073709551616"
  shows "tiled a e (join pre bs)" "live_blocks (join pre bs) = live_blocks pre @ live_blocks bs"
    "coalesced (join pre bs)"
proof -
  consider (keep) "join pre bs = pre @ bs" "pre = [] \<or> \<not> wb_free (last pre)"
    | (merge) xs p where "pre = xs @ [p]" "wb_free p" "join pre bs = xs @ absorb_next p bs"
    by (cases pre rule: rev_cases) (auto simp: join_def)
  then have "tiled a e (join pre bs) \<and> live_blocks (join pre bs) = live_blocks pre @ live_blocks bs \<and>
    coalesced (join pre bs)"
  proof cases
    case keep
    then show ?thesis using assms by (auto simp: coalesced_append)
  next
    case merge
    from assms(3) merge(1) obtain m where t: "tiled a m xs" "tiled m e (p # bs)"
      by (auto simp: tiled_append)
    note ab = absorb_next_props [OF merge(2) t(2) assms(5,6)]
    have "coalesced xs" "xs \<noteq> [] \<Longrightarrow> \<not> wb_free (last xs)"
      using assms(4) merge by (auto simp: coalesced_append)
    then show ?thesis using ab t(1) merge by (auto simp: tiled_append coalesced_append)
  qed
  then show "tiled a e (join pre bs)" "live_blocks (join pre bs) = live_blocks pre @ live_blocks bs"
    "coalesced (join pre bs)" by simp_all
qed

lemma tiled_distinct: "tiled a e ws \<Longrightarrow> distinct (map wb_addr ws)"
proof (induction a e ws rule: tiled.induct)
  case (2 a e b bs)
  have "unat (wb_addr c) \<noteq> a" if "c \<in> set bs" for c
    using tiled_addr_bounds(1) [of "block_end a b" e bs c] 2(2) that by (auto simp: block_end_def)
  with 2 show ?case by (auto dest: arg_cong [of _ _ unat])
qed simp

text \<open>The cases of one free: the address is not that of a block in use, or the block is released
  and merged with its free neighbours.\<close>

lemma workspace_deallocate_cases:
  assumes inv: "ws_inv a e ws"
  obtains (unknown) "workspace_deallocate ws m = ws" "unat m \<notin> fst ` set (live_blocks ws)"
  | (released) pre b post where "ws = pre @ b # post" "\<not> wb_free b" "unat m = unat (wb_addr b) + 64"
      "workspace_deallocate ws m = join pre (absorb_next (freed b) post)"
      "ws_inv a e (workspace_deallocate ws m)"
      "live_blocks (workspace_deallocate ws m) = live_blocks pre @ live_blocks post"
proof -
  have t: "tiled a e ws" "e < 18446744073709551616" "coalesced ws"
    using inv by (simp_all add: ws_inv_def)
  have u: "unat (wb_addr b + 64) = unat (wb_addr b) + 64" if "b \<in> set ws" for b
    using tiled_addr_bounds(2,4) [OF t(1) that] t(2)
    by (simp add: unat_plus_u64 block_end_def block_ok_def)
  from release_block_cases [of m None ws] show ?thesis
  proof (elim disjE conjE exE)
    assume eq: "release_block m None ws = opt_list None @ ws"
      and used: "\<forall>b\<in>set ws. wb_addr b + 64 = m \<longrightarrow> wb_free b \<or> (\<exists>c\<in>set ws. wb_addr c + 64 = m \<and> wb_free c)"
    have "wb_free b" if "b \<in> set ws" "unat m = unat (wb_addr b) + 64" for b
      using used that u tiled_distinct [OF t(1)]
      by (metis add_right_cancel distinct_map inj_onD word_eq_iff_unsigned [where ?'a = nat])
    then have "unat m \<notin> fst ` set (live_blocks ws)" by (auto simp: live_blocks_def)
    then show ?thesis using unknown eq by (simp add: workspace_deallocate_def opt_list_def)
  next
    fix pre b post
    assume ws: "ws = pre @ b # post" "wb_addr b + 64 = m" "\<not> wb_free b"
      and eq: "release_block m None ws = join (opt_list None @ pre)
        (absorb_next (b\<lparr>wb_requested_size := 0, wb_free := True\<rparr>) post)"
    from t(1) ws(1) obtain k where k: "tiled a k pre" "tiled k e (b # post)"
      by (auto simp: tiled_append)
    then have "tiled k e (freed b # post)" by (auto simp: freed_def block_ok_def block_end_def)
    moreover have "coalesced pre" "coalesced post"
      using t(3) ws(1) by (cases post; simp add: coalesced_append)+
    ultimately have ab: "tiled k e (absorb_next (freed b) post)"
      "live_blocks (absorb_next (freed b) post) = live_blocks post"
      "coalesced (absorb_next (freed b) post)" "wb_free (hd (absorb_next (freed b) post))"
      using absorb_next_props [of "freed b" k e post] t(2) by (simp_all add: freed_def)
    have ne: "absorb_next (freed b) post \<noteq> []" using absorb_next_cons [of "freed b" post] by auto
    have "tiled a e (pre @ absorb_next (freed b) post)" using k(1) ab(1) by (auto simp: tiled_append)
    note j = join_props [OF ne ab(4) this \<open>coalesced pre\<close> ab(3) t(2)]
    have d: "workspace_deallocate ws m = join pre (absorb_next (freed b) post)"
      using eq by (simp add: workspace_deallocate_def opt_list_def freed_def)
    show ?thesis using released [OF ws(1,3) _ d] u [of b] ws(1,2) d j ab(2) inv
      by (auto simp: ws_inv_def)
  qed
qed

section \<open>The interface of a block store\<close>

fun store_run :: "('w \<Rightarrow> usize \<Rightarrow> usize \<Rightarrow> u64 option \<times> 'w) \<Rightarrow> ('w \<Rightarrow> u64 \<Rightarrow> 'w) \<Rightarrow> mem_op list \<Rightarrow> 'w \<Rightarrow> 'w"
  where
  "store_run alloc free [] w = w"
| "store_run alloc free (Alloc n al # ops) w = store_run alloc free ops (snd (alloc w n al))"
| "store_run alloc free (Free None # ops) w = store_run alloc free ops w"
| "store_run alloc free (Free (Some p) # ops) w = store_run alloc free ops (free w p)"

locale block_store =
  fixes inv :: "'w \<Rightarrow> bool"
    and alloc :: "'w \<Rightarrow> usize \<Rightarrow> usize \<Rightarrow> u64 option \<times> 'w"
    and free :: "'w \<Rightarrow> u64 \<Rightarrow> 'w"
    and live :: "'w \<Rightarrow> (nat \<times> nat) list"
    and lo hi :: nat
  assumes alloc_inv: "inv w \<Longrightarrow> alloc w n al = (r, w') \<Longrightarrow> inv w'"
    and alloc_None: "inv w \<Longrightarrow> alloc w n al = (None, w') \<Longrightarrow> w' = w"
    and alloc_live: "inv w \<Longrightarrow> alloc w n al = (Some p, w') \<Longrightarrow>
      mset (live w') = add_mset (unat p, max 1 (unat n)) (mset (live w))"
    and free_inv: "inv w \<Longrightarrow> inv (free w p)"
    and free_live: "inv w \<Longrightarrow>
      mset (live (free w p)) = filter_mset (\<lambda>(q, n). q \<noteq> unat p) (mset (live w))"
    and live_separated: "inv w \<Longrightarrow> separated lo hi (live w)"
begin

lemma run_inv: "inv w \<Longrightarrow> inv (store_run alloc free ops w)"
proof (induction ops arbitrary: w)
  case (Cons op ops)
  show ?case
  proof (cases op)
    case (Alloc n al)
    then show ?thesis using Cons.IH alloc_inv [OF Cons.prems, of n al] by (metis prod.collapse store_run.simps(2))
  next
    case (Free p)
    then show ?thesis using Cons free_inv by (cases p) simp_all
  qed
qed simp

lemma run_separated: "inv w \<Longrightarrow> separated lo hi (live (store_run alloc free ops w))"
  by (intro live_separated run_inv)

text \<open>A new block does not overlap a block that is already in use.\<close>

lemma alloc_fresh:
  assumes "inv w" "alloc w n al = (Some p, w')" "(q, m) \<in> set (live w)"
  shows "unat p + max 1 (unat n) \<le> q \<or> q + m \<le> unat p"
proof -
  have sep: "separated lo hi (live w')" using assms alloc_inv live_separated by blast
  have ms: "mset (live w') = add_mset (unat p, max 1 (unat n)) (mset (live w))"
    using alloc_live [OF assms(1,2)] .
  then have "(unat p, max 1 (unat n)) \<in> set (live w')" by (metis set_mset_mset union_single_eq_member)
  then obtain xs ys where l: "live w' = xs @ (unat p, max 1 (unat n)) # ys" by (meson split_list)
  then have "mset (xs @ ys) = mset (live w)" using ms by simp
  then have "(q, m) \<in> set xs \<union> set ys" using assms(3) by (metis set_append set_mset_mset)
  then show ?thesis using sep l by (auto simp: separated_def sorted_wrt_append)
qed

text \<open>Freeing a new block restores the set of blocks in use.\<close>

lemma free_alloc:
  assumes "inv w" "alloc w n al = (Some p, w')"
  shows "mset (live (free w' p)) = mset (live w)"
proof -
  have "q \<noteq> unat p" if "(q, m) \<in> set (live w)" for q m
    using alloc_fresh [OF assms that] live_separated [OF assms(1)] that
    by (auto simp: separated_def)
  then have "filter_mset (\<lambda>(q, n). q \<noteq> unat p) (mset (live w)) = mset (live w)"
    by (intro filter_mset_eq_conv [THEN iffD2]) auto
  then show ?thesis using free_live [OF alloc_inv [OF assms]] alloc_live [OF assms] by simp
qed

end

lemma separated_distinct: "separated a e (xs @ (p, n) # ys) \<Longrightarrow> (q, m) \<in> set (xs @ ys) \<Longrightarrow> q \<noteq> p"
  by (fastforce simp: separated_def sorted_wrt_append)

interpretation workspace: block_store "ws_inv a e" workspace_allocate workspace_deallocate live_blocks
  "a + 64" e for a e
proof unfold_locales
  fix ws n al r ws' assume inv: "ws_inv a e ws"
  show "ws_inv a e ws'" if "workspace_allocate ws n al = (r, ws')"
    using workspace_allocate_inv [OF inv that] .
  show "ws' = ws" if "workspace_allocate ws n al = (None, ws')"
    by (rule workspace_allocate_cases [OF inv, of n al]) (use that in auto)
  show "separated (a + 64) e (live_blocks ws)" using inv by (simp add: ws_inv_def tiled_separated)
next
  fix ws n al p ws' assume inv: "ws_inv a e ws" and eq: "workspace_allocate ws n al = (Some p, ws')"
  have "unat (if n = 0 then 1 else n) = max 1 (unat n)" by (cases "unat n") (auto simp: unat_eq_0)
  then show "mset (live_blocks ws') = add_mset (unat p, max 1 (unat n)) (mset (live_blocks ws))"
    by (rule_tac workspace_allocate_cases [OF inv, of n al]) (use eq in \<open>auto simp: fits_def\<close>)
next
  fix ws p assume inv: "ws_inv a e ws"
  show "ws_inv a e (workspace_deallocate ws p)"
    by (rule workspace_deallocate_cases [OF inv, of p]) (use inv in simp_all)
  have sep: "separated (a + 64) e (live_blocks ws)" using inv by (simp add: ws_inv_def tiled_separated)
  show "mset (live_blocks (workspace_deallocate ws p)) =
      filter_mset (\<lambda>(q, n). q \<noteq> unat p) (mset (live_blocks ws))"
  proof (rule workspace_deallocate_cases [OF inv, of p])
    assume "workspace_deallocate ws p = ws" "unat p \<notin> fst ` set (live_blocks ws)"
    then have "filter_mset (\<lambda>(q, n). q \<noteq> unat p) (mset (live_blocks ws)) = mset (live_blocks ws)"
      by (intro filter_mset_eq_conv [THEN iffD2]) force
    then show ?thesis using \<open>workspace_deallocate ws p = ws\<close> by simp
  next
    fix pre b post
    assume b: "ws = pre @ b # post" "\<not> wb_free b" "unat p = unat (wb_addr b) + 64"
      and l: "live_blocks (workspace_deallocate ws p) = live_blocks pre @ live_blocks post"
    have "q \<noteq> unat p" if "(q, m) \<in> set (live_blocks pre @ live_blocks post)" for q m
      using separated_distinct [OF _ that] sep b by simp
    then have "filter_mset (\<lambda>(q, n). q \<noteq> unat p) (mset (live_blocks pre @ live_blocks post)) =
        mset (live_blocks pre @ live_blocks post)"
      by (intro filter_mset_eq_conv [THEN iffD2]) auto
    then show ?thesis using b l by simp
  qed
qed


section \<open>Budgets\<close>

text \<open>The pointers a sequence of operations is given, and the bytes its allocations are charged.\<close>

fun alloc_results :: "mem_op list \<Rightarrow> wblock list \<Rightarrow> u64 option list" where
  "alloc_results [] ws = []"
| "alloc_results (Alloc n al # ops) ws =
     (case workspace_allocate ws n al of (p, ws') \<Rightarrow> p # alloc_results ops ws')"
| "alloc_results (Free None # ops) ws = alloc_results ops ws"
| "alloc_results (Free (Some p) # ops) ws = alloc_results ops (workspace_deallocate ws p)"

fun alloc_sizes :: "mem_op list \<Rightarrow> usize list" where
  "alloc_sizes [] = []"
| "alloc_sizes (Alloc n al # ops) = n # alloc_sizes ops"
| "alloc_sizes (Free p # ops) = alloc_sizes ops"

fun aligned_ops :: "mem_op list \<Rightarrow> bool" where
  "aligned_ops [] \<longleftrightarrow> True"
| "aligned_ops (Alloc n al # ops) \<longleftrightarrow>
     al \<le> 16 \<and> (al < 8 \<or> apta_internal_is_power_of_two al) \<and> aligned_ops ops"
| "aligned_ops (Free p # ops) \<longleftrightarrow> aligned_ops ops"

definition small :: "usize \<Rightarrow> bool" where
  "small n \<longleftrightarrow> unat n < 9223372036854775808"

lemma allocation_cost:
  assumes "small n"
  shows "unat (apta_workspace_allocation_cost n) = 32 + unat (request n)"
proof -
  have n: "unat n \<le> 18446744073709551568" using assms by (simp add: small_def)
  note u = unat_request [OF n]
  let ?sz = "if n = 0 then 1 else n"
  have "unat ?sz < 9223372036854775808" using assms by (auto simp: small_def)
  then have "unat (apta_workspace_align_up ?sz MAX_ALIGNMENT) < 9223372036854775808 + 16"
    using workspace_align_up(2) [OF u(5)] by linarith
  then have "unat (64 + apta_workspace_align_up ?sz MAX_ALIGNMENT) =
      64 + unat (apta_workspace_align_up ?sz MAX_ALIGNMENT)"
    by (simp add: unat_plus_u64)
  then show ?thesis using u(1,5) by (simp add: apta_workspace_allocation_cost_def Let_def apta_consts)
qed

text \<open>The address from which the end of the workspace is one free block.\<close>

definition tail :: "nat \<Rightarrow> wblock list \<Rightarrow> nat" where
  "tail e ws = (if ws \<noteq> [] \<and> wb_free (last ws) then unat (wb_addr (last ws)) else e)"

text \<open>After \<open>k\<close> charged bytes: the free tail starts at \<open>k\<close> or before, or less than a block is left.\<close>

definition within_budget :: "nat \<Rightarrow> nat \<Rightarrow> nat \<Rightarrow> wblock list \<Rightarrow> bool" where
  "within_budget a e k ws \<longleftrightarrow> tail e ws \<le> a + k \<or> e < a + k + 80"

lemma tiled_last:
  assumes "tiled a e ws" "ws \<noteq> []"
  shows "block_end (unat (wb_addr (last ws))) (last ws) = e"
  using assms by (induction a e ws rule: tiled.induct) (auto simp: tiled_le split: if_splits)

lemma ws_inv_nonempty: "ws_inv a e ws \<Longrightarrow> ws \<noteq> []"
  by (auto simp: ws_inv_def)

lemma tail_le: "tiled a e ws \<Longrightarrow> tail e ws \<le> e"
  using tiled_last [of a e ws] by (auto simp: tail_def block_end_def)

lemma within_budget_fits:
  assumes inv: "ws_inv a e ws" and b: "within_budget a e k ws" and n: "small n"
    and room: "a + k + unat (apta_workspace_allocation_cost n) \<le> e"
  shows "\<exists>b\<in>set ws. fits (request n) b"
proof -
  have "unat n \<le> 18446744073709551568" using n by (simp add: small_def)
  note u = unat_request(3) [OF this] allocation_cost [OF n]
  have "tail e ws \<le> a + k" "a + k < e" using b room u by (auto simp: within_budget_def)
  then have l: "ws \<noteq> []" "wb_free (last ws)" "unat (wb_addr (last ws)) \<le> a + k"
    by (auto simp: tail_def split: if_splits)
  have "block_end (unat (wb_addr (last ws))) (last ws) = e"
    using tiled_last [of a e ws] inv l(1) by (simp add: ws_inv_def)
  then have "unat (request n) \<le> unat (wb_capacity (last ws))"
    using l(3) room u(2) by (simp add: block_end_def)
  then have "fits (request n) (last ws)" using l(2) by (simp add: fits_def word_le_nat_alt)
  then show ?thesis using l(1) by (meson last_in_set)
qed

lemma within_budget_alloc:
  assumes inv: "ws_inv a e ws" and b: "within_budget a e k ws" and n: "small n" and ok: "request_ok n al"
    and room: "a + k + unat (apta_workspace_allocation_cost n) \<le> e"
  obtains p ws' where "workspace_allocate ws n al = (Some p, ws')"
    "within_budget a e (k + unat (apta_workspace_allocation_cost n)) ws'"
proof (rule workspace_allocate_cases [OF inv, of n al])
  fix pre b post
  let ?pl = "place (if n = 0 then 1 else n) (request n) b"
  assume ws: "ws = pre @ b # post" "fits (request n) b"
    and eq: "workspace_allocate ws n al = (Some (wb_addr b + 64), pre @ ?pl @ post)"
    and tl: "tiled (unat (wb_addr b)) (block_end (unat (wb_addr b)) b) ?pl"
  note c = allocation_cost [OF n]
  have "within_budget a e (k + unat (apta_workspace_allocation_cost n)) (pre @ ?pl @ post)"
  proof (cases "post = []")
    case False
    then have "tail e (pre @ ?pl @ post) = tail e ws" using ws by (simp add: tail_def)
    then show ?thesis using \<open>within_budget a e k ws\<close> by (auto simp: within_budget_def)
  next
    case True
    have t: "tail e ws = unat (wb_addr b)" using True ws by (simp add: tail_def fits_def)
    have e: "block_end (unat (wb_addr b)) b = e"
      using tiled_last [of a e ws] inv ws True by (simp add: ws_inv_def)
    have le: "request n \<le> wb_capacity b" using ws(2) by (simp add: fits_def)
    have rem: "unat (wb_capacity b - request n) = unat (wb_capacity b) - unat (request n)"
      by (rule unat_sub [OF le])
    show ?thesis
    proof (cases "80 \<le> wb_capacity b - request n")
      case True
      then have "?pl = [b\<lparr>wb_requested_size := if n = 0 then 1 else n, wb_free := False,
            wb_capacity := request n\<rparr>,
          \<lparr>wb_addr = wb_addr b + 32 + request n, wb_capacity = wb_capacity b - request n - 32,
           wb_requested_size = 0, wb_free = True\<rparr>]" (is "_ = [_, ?r]")
        by (simp add: place_def Let_def)
      then have "tail e (pre @ ?pl @ post) = unat (wb_addr b) + 32 + unat (request n)"
        using tl \<open>post = []\<close> by (auto simp: tail_def block_end_def)
      then show ?thesis using \<open>within_budget a e k ws\<close> t c by (auto simp: within_budget_def)
    next
      case False
      then have "unat (wb_capacity b) < unat (request n) + 80"
        using rem le by (simp add: word_le_nat_alt)
      then show ?thesis using \<open>within_budget a e k ws\<close> t c e
        by (auto simp: within_budget_def block_end_def)
    qed
  qed
  then show thesis using that eq by blast
qed (use ok within_budget_fits [OF inv b n room] in auto)


lemma last_absorb_next:
  "2 \<le> length post \<Longrightarrow> last (absorb_next b post) = last post"
  "\<not> wb_free c \<Longrightarrow> last (absorb_next b [c]) = c"
  by (auto simp: absorb_next_def split: list.splits)

lemma last_join: "2 \<le> length bs \<Longrightarrow> last (join pre bs) = last bs"
  using absorb_next_cons [of "last pre" bs] last_absorb_next(1) [of bs "last pre"]
  by (cases "bs = []") (auto simp: join_def)

lemma tail_deallocate:
  assumes inv: "ws_inv a e ws"
  shows "tail e (workspace_deallocate ws m) \<le> tail e ws"
proof (rule workspace_deallocate_cases [OF inv, of m])
  fix pre b post
  assume ws: "ws = pre @ b # post" "\<not> wb_free b"
    and d: "workspace_deallocate ws m = join pre (absorb_next (freed b) post)"
    and i: "ws_inv a e (workspace_deallocate ws m)"
  have le: "tail e (workspace_deallocate ws m) \<le> e"
    using tail_le i by (auto simp: ws_inv_def)
  consider (used) "\<not> wb_free (last ws)" | (next_free) c where "post = [c]" "wb_free c"
    | (far) "2 \<le> length (absorb_next (freed b) post)" "last (absorb_next (freed b) post) = last ws"
    using ws by (cases post; cases "tl post"; cases "wb_free (hd post)") (auto simp: absorb_next_def)
  then show ?thesis
  proof cases
    case used
    then show ?thesis using le by (simp add: tail_def)
  next
    case far
    then show ?thesis using last_join [OF far(1), of pre] d ws ws_inv_nonempty [OF i]
      by (simp add: tail_def)
  next
    case next_free
    have t: "tiled a e (pre @ [b, c])" using inv ws next_free by (simp add: ws_inv_def)
    then have c: "unat (wb_addr b) \<le> unat (wb_addr c)"
      by (auto simp: tiled_append block_end_def)
    have p: "unat (wb_addr x) \<le> unat (wb_addr b)" if "x \<in> set pre" for x
      using t that by (auto simp: tiled_append block_end_def dest!: tiled_addr_bounds(2) [OF _ that])
    have "unat (wb_addr (last (workspace_deallocate ws m))) \<le> unat (wb_addr c) \<and>
        wb_free (last (workspace_deallocate ws m))"
      using d next_free c p [of "last pre"]
      by (auto simp: join_def absorb_next_def freed_def)
    then show ?thesis using ws next_free ws_inv_nonempty [OF i] by (simp add: tail_def)
  qed
qed simp

lemma within_budget_free:
  "ws_inv a e ws \<Longrightarrow> within_budget a e k ws \<Longrightarrow> within_budget a e k (workspace_deallocate ws m)"
  using tail_deallocate [of a e ws m] by (auto simp: within_budget_def)

definition total_cost :: "usize list \<Rightarrow> nat" where
  "total_cost ns = sum_list (map (unat \<circ> apta_workspace_allocation_cost) ns)"

lemma budget_run:
  assumes "ws_inv a e ws" "within_budget a e k ws" "aligned_ops ops" "list_all small (alloc_sizes ops)"
    and "a + k + total_cost (alloc_sizes ops) \<le> e"
  shows "None \<notin> set (alloc_results ops ws)"
  using assms
proof (induction ops arbitrary: ws k)
  case (Cons op ops)
  show ?case
  proof (cases op)
    case (Alloc n al)
    let ?c = "unat (apta_workspace_allocation_cost n)"
    have n: "small n" "request_ok n al" and room: "a + k + ?c \<le> e"
      and rest: "a + (k + ?c) + total_cost (alloc_sizes ops) \<le> e"
      using Cons.prems Alloc by (auto simp: request_ok_def small_def total_cost_def)
    obtain p ws' where al: "workspace_allocate ws n al = (Some p, ws')" "within_budget a e (k + ?c) ws'"
      using within_budget_alloc [OF Cons.prems(1,2) n room] by blast
    then show ?thesis
      using Cons.IH [OF workspace_allocate_inv [OF Cons.prems(1) al(1)] al(2) _ _ rest]
        Cons.prems Alloc by simp
  next
    case (Free q)
    then show ?thesis
      using Cons.IH [of ws k] Cons.IH [of "workspace_deallocate ws _" k] Cons.prems
        workspace.free_inv within_budget_free
      by (cases q) simp_all
  qed
qed simp

section \<open>The fresh workspace\<close>

lemma workspace_initialize_Ret:
  assumes "apta_internal_session_workspace_initialize session_size base wsize = Ret ws"
    and "unat base + unat wsize < 18446744073709551616"
  defines "offset \<equiv> unat (apta_workspace_align_up session_size MAX_ALIGNMENT)"
  shows "ws_inv (unat base + offset) (unat base + unat wsize) ws" "unat session_size \<le> offset"
    "\<exists>b. ws = [b] \<and> wb_free b \<and> unat (wb_addr b) = unat base + offset"
    "offset + 80 \<le> unat wsize"
proof -
  let ?o = "apta_workspace_align_up session_size MAX_ALIGNMENT"
  have o: "?o \<noteq> SIZE_MAX" "?o \<le> SIZE_MAX - 32 - 32 - 16" and min: "?o + 32 + 32 + 16 \<le> wsize"
    and base: "base AND 15 = 0"
    and ws: "ws = [\<lparr>wb_addr = base + ?o, wb_capacity = wsize - ?o - 32, wb_requested_size = 0, wb_free = True\<rparr>]"
    using assms(1) by (auto simp: apta_internal_session_workspace_initialize_def
        apta_internal_session_workspace_minimum_size_def apta_workspace_first_block_def Let_def
        MAX_ALIGNMENT_def sizeof_workspace_block_def obind_eq_Ret not_less split: if_splits)
  have "?o \<le> SIZE_MAX - 80" using o(2) by (simp add: SIZE_MAX_def)
  then have "unat ?o + 80 < 18446744073709551616" unfolding size_add_guard by simp
  then have m: "offset + 80 \<le> unat wsize"
    using min by (simp add: word_le_nat_alt unat_plus_u64 offset_def)
  then show "offset + 80 \<le> unat wsize" .
  have "16 dvd unat base"
  proof -
    have "take_bit 4 base = 0" using base by (simp add: take_bit_eq_mask mask_numeral)
    then have "take_bit 4 (unat base) = 0" by (metis unsigned_0 unsigned_take_bit_eq)
    then show ?thesis by (simp add: take_bit_eq_mod mod_0_imp_dvd)
  qed
  moreover have "unat (base + ?o) = unat base + offset"
    using assms(2) m by (simp add: unat_plus_u64 offset_def)
  moreover have "unat (wsize - ?o) = unat wsize - offset"
    using unat_sub [of ?o wsize] m by (simp add: word_le_nat_alt offset_def)
  then have "unat (wsize - ?o - 32) = unat wsize - offset - 32"
    using unat_sub [of 32 "wsize - ?o"] m by (simp add: word_le_nat_alt)
  moreover have "16 dvd offset" using workspace_align_up(3) [OF o(1)] by (simp add: offset_def)
  ultimately show "ws_inv (unat base + offset) (unat base + unat wsize) ws"
    "\<exists>b. ws = [b] \<and> wb_free b \<and> unat (wb_addr b) = unat base + offset"
    using ws m assms(2) by (auto simp: ws_inv_def block_end_def block_ok_def dvd_add)
  show "unat session_size \<le> offset" using workspace_align_up(1) [OF o(1)] by (simp add: offset_def)
qed


section \<open>Properties\<close>

text \<open>
  C8: whatever sequence of allocations and frees runs in an initialised workspace, the payloads in
  use are 16-byte aligned, pairwise disjoint, and lie between the end of the session structure
  and the end of the caller's memory.
\<close>
theorem workspace_blocks_separated:
  assumes "apta_internal_session_workspace_initialize session_size base wsize = Ret ws"
    and "unat base + unat wsize < 18446744073709551616"
  shows "separated (unat base + unat session_size + 64) (unat base + unat wsize)
    (live_blocks (store_run workspace_allocate workspace_deallocate ops ws))"
proof -
  note init = workspace_initialize_Ret [OF assms]
  have "separated (unat base + unat (apta_workspace_align_up session_size MAX_ALIGNMENT) + 64)
      (unat base + unat wsize) (live_blocks (store_run workspace_allocate workspace_deallocate ops ws))"
    by (rule workspace.run_separated [OF init(1)])
  then show ?thesis using init(2) by (fastforce simp: separated_def)
qed

definition demo_workspace :: "wblock list" where
  "demo_workspace = [\<lparr>wb_addr = 0x103f0, wb_capacity = 3056, wb_requested_size = 0, wb_free = True\<rparr>]"

lemma demo_workspace_init:
  "apta_internal_session_workspace_initialize 1000 0x10000 4096 = Ret demo_workspace"
  by code_simp

lemmas eval_workspace = workspace_allocate_def Let_def apta_workspace_align_up_def apta_consts
  apta_internal_is_power_of_two_def block_payload workspace_deallocate_def absorb_next_def

definition demo_ops :: "mem_op list" where
  "demo_ops = [Alloc 100 8, Alloc 200 16, Free (Some 0x10430), Alloc 10 8]"

lemma demo_ops_live:
  "live_blocks (store_run workspace_allocate workspace_deallocate demo_ops demo_workspace) =
     [(0x10430, 10), (0x104e0, 200)]"
  by (simp add: demo_ops_def eval_workspace demo_workspace_def)

theorem workspace_blocks_separated_witness:
  "separated 66600 69632 [(0x10430, 10), (0x104e0, 200)]"
  using workspace_blocks_separated [OF demo_workspace_init, of demo_ops] by (simp add: demo_ops_live)

text \<open>
  C30: an allocation from a workspace in any reachable state changes nothing when it fails, and
  fails only when the request is not admissible or no free block holds it; when it succeeds
  the blocks in use are the old ones and the new payload, of the requested size, which overlaps
  none of them.
\<close>
theorem workspace_allocate_exact:
  assumes "apta_internal_session_workspace_initialize session_size base wsize = Ret w0"
    and "unat base + unat wsize < 18446744073709551616"
    and "ws = store_run workspace_allocate workspace_deallocate ops w0"
    and "workspace_allocate ws n al = (r, ws')"
  shows "case r of
      None \<Rightarrow> ws' = ws \<and> (\<not> request_ok n al \<or> (\<forall>b\<in>set ws. wb_free b \<longrightarrow> wb_capacity b < request n))
    | Some p \<Rightarrow> mset (live_blocks ws') = add_mset (unat p, max 1 (unat n)) (mset (live_blocks ws)) \<and>
        (\<forall>(q, m)\<in>set (live_blocks ws). unat p + max 1 (unat n) \<le> q \<or> q + m \<le> unat p)"
proof -
  have inv: "ws_inv (unat base + unat (apta_workspace_align_up session_size MAX_ALIGNMENT))
      (unat base + unat wsize) ws"
    using workspace.run_inv [OF workspace_initialize_Ret(1) [OF assms(1,2)]] assms(3) by simp
  show ?thesis
  proof (cases r)
    case None
    then show ?thesis using assms(4)
      by (rule_tac workspace_allocate_cases [OF inv, of n al]) (auto simp: fits_def)
  next
    case (Some p)
    have "workspace_allocate ws n al = (Some p, ws')" using assms(4) Some by simp
    from workspace.alloc_live [OF inv this] workspace.alloc_fresh [OF inv this]
    show ?thesis using Some by auto
  qed
qed

lemma demo_allocate:
  "fst (workspace_allocate (store_run workspace_allocate workspace_deallocate demo_ops demo_workspace) 20 8) =
     Some 0x10480"
  by (simp add: demo_ops_def eval_workspace demo_workspace_def)

theorem workspace_allocate_exact_witness:
  "\<exists>ws'. workspace_allocate (store_run workspace_allocate workspace_deallocate demo_ops demo_workspace) 20 8 =
       (Some 0x10480, ws') \<and>
     mset (live_blocks ws') = {#(0x10480, 20), (0x10430, 10), (0x104e0, 200)#}"
proof -
  let ?ws = "store_run workspace_allocate workspace_deallocate demo_ops demo_workspace"
  have eq: "workspace_allocate ?ws 20 8 = (Some 0x10480, snd (workspace_allocate ?ws 20 8))"
    using demo_allocate by (simp add: prod_eq_iff)
  show ?thesis
    using workspace_allocate_exact [OF demo_workspace_init _ refl eq] eq demo_ops_live by auto
qed

lemma no_live_single:
  assumes "ws_inv a e ws" "live_blocks ws = []"
  shows "\<exists>b. ws = [b] \<and> wb_free b \<and> unat (wb_addr b) = a \<and> block_end a b = e \<and> wb_requested_size b = 0"
proof -
  have free: "wb_free b" if "b \<in> set ws" for b
    using assms(2) that by (auto simp: live_blocks_def filter_empty_conv)
  obtain b bs where ws: "ws = b # bs" using ws_inv_nonempty [OF assms(1)] by (cases ws) auto
  have "bs = []" using free assms(1) ws by (cases bs) (auto simp: ws_inv_def)
  then show ?thesis using free assms(1) ws by (auto simp: ws_inv_def block_ok_def)
qed

text \<open>
  Neighbouring free blocks are always merged back: after any sequence of allocations and
  frees at the end of which nothing is in use, the workspace is again the one free block it was
  initialised with, so the whole capacity is available to the next allocation.
\<close>
theorem workspace_no_fragmentation:
  assumes "apta_internal_session_workspace_initialize session_size base wsize = Ret w0"
    and "unat base + unat wsize < 18446744073709551616"
    and "live_blocks (store_run workspace_allocate workspace_deallocate ops w0) = []"
  shows "store_run workspace_allocate workspace_deallocate ops w0 = w0"
proof -
  note init = workspace_initialize_Ret(1) [OF assms(1,2)]
  from workspace_initialize_Ret(3) [OF assms(1,2)] obtain c where
    "w0 = [c]" "wb_free c" by blast
  then have "live_blocks w0 = []" by simp
  from no_live_single [OF init this] no_live_single [OF workspace.run_inv [OF init] assms(3)]
  show ?thesis by (auto simp: block_end_def word_eq_iff_unsigned [where 'a = nat])
qed

theorem workspace_no_fragmentation_witness:
  "store_run workspace_allocate workspace_deallocate
     (demo_ops @ [Free (Some 0x104e0), Free (Some 0x10430)]) demo_workspace = demo_workspace"
  by (rule workspace_no_fragmentation [OF demo_workspace_init])
    (simp_all add: demo_ops_def eval_workspace demo_workspace_def)

text \<open>
  The cost the library charges for an allocation covers it.  When the charged costs of all
  allocations of a sequence, at admissible alignments, fit in the workspace behind the session
  structure, every one of them succeeds, however frees are interleaved with them.
\<close>
theorem workspace_budget_suffices:
  assumes "apta_internal_session_workspace_initialize session_size base wsize = Ret ws"
    and "unat base + unat wsize < 18446744073709551616"
    and "aligned_ops ops" "list_all small (alloc_sizes ops)"
    and "unat (apta_workspace_align_up session_size MAX_ALIGNMENT) + total_cost (alloc_sizes ops) \<le> unat wsize"
  shows "None \<notin> set (alloc_results ops ws)"
proof -
  note init = workspace_initialize_Ret [OF assms(1,2)]
  have "within_budget (unat base + unat (apta_workspace_align_up session_size MAX_ALIGNMENT))
      (unat base + unat wsize) 0 ws"
    using init(3) by (auto simp: within_budget_def tail_def)
  then show ?thesis using budget_run [OF init(1) _ assms(3,4)] assms(5) by simp
qed

theorem workspace_budget_suffices_witness:
  "None \<notin> set (alloc_results [Alloc 1000 8, Alloc 1000 16, Free (Some 0x10430), Alloc 800 8] demo_workspace)"
  by (rule workspace_budget_suffices [OF demo_workspace_init])
    (simp_all add: small_def total_cost_def apta_workspace_allocation_cost_def eval_workspace)

end
