(* ===== verification/Apta_Config.thy ===== *)
theory Apta_Config
  imports Apta_Result Apta_Workspace
begin

text \<open>
  The configuration structures of \<^verbatim>\<open>include/apta/apta_config.h\<close>, their initialisers
  (\<^verbatim>\<open>src/core/apta_config.c\<close>), and the workspace requirement of a configuration
  (\<^verbatim>\<open>src/core/apta_session_workspace.c\<close>).  The sizes of the internal structures are those of the
  build: they are the fields of the record \<open>struct_sizes\<close>, a parameter of the calculations.  The
  theorems say that a workspace of the calculated size serves every allocation it was calculated
  for, and how the calculation treats a track of unknown length.
\<close>

section \<open>Constants\<close>

definition FEATURE_BPM :: u64 where [apta_consts]: "FEATURE_BPM = 8"
definition FEATURE_LOCAL_BEATGRID :: u64 where [apta_consts]: "FEATURE_LOCAL_BEATGRID = 16"
definition FEATURE_GLOBAL_BEATGRID :: u64 where [apta_consts]: "FEATURE_GLOBAL_BEATGRID = 32"
definition FEATURE_DYNAMIC_TEMPO :: u64 where [apta_consts]: "FEATURE_DYNAMIC_TEMPO = 64"
definition FEATURE_CONFIDENCE :: u64 where [apta_consts]: "FEATURE_CONFIDENCE = 128"
definition FEATURE_GRID_LOCKING :: u64 where [apta_consts]: "FEATURE_GRID_LOCKING = 256"

definition S4_FEATURES :: u64 where [apta_consts]:
  "S4_FEATURES = FEATURE_BPM OR FEATURE_LOCAL_BEATGRID OR FEATURE_GRID_LOCKING"
definition S6_FEATURES :: u64 where [apta_consts]:
  "S6_FEATURES = FEATURE_GLOBAL_BEATGRID OR FEATURE_DYNAMIC_TEMPO"

definition INPUT_MODE_PUSH :: u32 where [apta_consts]: "INPUT_MODE_PUSH = 1"
definition INPUT_MODE_PULL :: u32 where [apta_consts]: "INPUT_MODE_PULL = 2"

definition SESSION_FLAG_BOUNDED_RESULT_SLOTS :: u32 where
  [apta_consts]: "SESSION_FLAG_BOUNDED_RESULT_SLOTS = 1"
definition SESSION_FLAG_REQUIRE_SOURCE_IDENTITY_FOR_SEEDING :: u32 where
  [apta_consts]: "SESSION_FLAG_REQUIRE_SOURCE_IDENTITY_FOR_SEEDING = 2"

definition OVERVIEW_FRAMES_PER_COLUMN :: u32 where [apta_consts]: "OVERVIEW_FRAMES_PER_COLUMN = 1024"
definition MAX_REGION_REQUESTS :: u32 where [apta_consts]: "MAX_REGION_REQUESTS = 16"
definition MAX_PUSH_FRAMES :: usize where [apta_consts]: "MAX_PUSH_FRAMES = 4096"
definition MAX_DETAIL_TILES :: u32 where [apta_consts]: "MAX_DETAIL_TILES = 4"
definition DETAIL_COLUMNS_PER_TILE :: u32 where [apta_consts]: "DETAIL_COLUMNS_PER_TILE = 64"
definition ONSET_BIN_CAPACITY :: usize where [apta_consts]: "ONSET_BIN_CAPACITY = 4096"
definition GLOBAL_BIN_CAPACITY :: usize where [apta_consts]: "GLOBAL_BIN_CAPACITY = 16384"
definition GLOBAL_MAX_BEATS :: u32 where [apta_consts]: "GLOBAL_MAX_BEATS = 3072"
definition GLOBAL_MAX_SEGMENTS :: u32 where [apta_consts]: "GLOBAL_MAX_SEGMENTS = 8"
definition MAX_TEMPO_CANDIDATES :: u32 where [apta_consts]: "MAX_TEMPO_CANDIDATES = 3"
definition BAND_COUNT :: usize where [apta_consts]: "BAND_COUNT = 3"
definition METADATA_MAX_TOTAL_BYTES :: u32 where [apta_consts]: "METADATA_MAX_TOTAL_BYTES = 8192"
definition sizeof_float :: usize where [apta_consts]: "sizeof_float = 4"

text \<open>The sizes of the structures, as the build lays them out.\<close>

record struct_sizes =
  sizeof_session :: usize
  sizeof_result :: usize
  sizeof_session_config :: usize
  sizeof_memory_requirements :: usize
  sizeof_range :: usize
  sizeof_accumulator :: usize
  sizeof_pcm_node :: usize
  sizeof_onset_bin :: usize
  sizeof_s6_session_state :: usize
  sizeof_s6_result_state :: usize
  sizeof_beat :: usize
  sizeof_column :: usize
  sizeof_span :: usize
  sizeof_tile_view :: usize
  sizeof_tempo_candidate :: usize
  sizeof_frame_range :: usize
  sizeof_grid_segment :: usize
  sizeof_result_pool_control :: usize
  sizeof_focus :: usize
  sizeof_region_request :: usize
  sizeof_request_progress :: usize
  sizeof_pcm_request :: usize
  sizeof_pcm_block :: usize
  sizeof_pcm_source :: usize
  sizeof_work_budget :: usize
  sizeof_progress :: usize

section \<open>Configurations\<close>

record session_config =
  sc_struct_size :: u32
  sc_api_version :: u32
  sc_input_mode :: u32
  sc_source_sample_rate :: u32
  sc_channel_count :: u16
  sc_sample_format :: u32
  sc_channel_layout :: u32
  sc_total_frames :: u64
  sc_requested_features :: u64
  sc_memory_budget_bytes :: u64
  sc_static_workspace :: u64
  sc_static_workspace_size :: usize
  sc_flags :: u32
  sc_overview_frames_per_column :: u32
  sc_source_fingerprint_kind :: u32
  sc_source_fingerprint :: bytes

definition apta_session_config_init :: "struct_sizes \<Rightarrow> session_config" where
  "apta_session_config_init sizes =
     \<lparr>sc_struct_size = ucast (sizeof_session_config sizes), sc_api_version = APTA_API_VERSION,
      sc_input_mode = INPUT_MODE_PUSH, sc_source_sample_rate = 0, sc_channel_count = 0,
      sc_sample_format = 0, sc_channel_layout = 0, sc_total_frames = APTA_TOTAL_FRAMES_UNKNOWN,
      sc_requested_features = 0, sc_memory_budget_bytes = 0, sc_static_workspace = 0,
      sc_static_workspace_size = 0, sc_flags = 0, sc_overview_frames_per_column = 0,
      sc_source_fingerprint_kind = FINGERPRINT_NONE, sc_source_fingerprint = replicate 32 0\<rparr>"

definition apta_internal_source_identity_is_valid :: "session_config \<Rightarrow> bool" where
  "apta_internal_source_identity_is_valid config \<longleftrightarrow>
     apta_internal_source_fingerprint_is_valid (sc_source_fingerprint_kind config)
       (Some (sc_source_fingerprint config))"

definition apta_internal_overview_resolution_is_valid :: "session_config \<Rightarrow> bool" where
  "apta_internal_overview_resolution_is_valid config \<longleftrightarrow>
     (if sc_overview_frames_per_column config = 0 then True
      else 64 \<le> sc_overview_frames_per_column config \<and>
           sc_overview_frames_per_column config \<le> 65536 \<and>
           apta_internal_is_power_of_two (ucast (sc_overview_frames_per_column config)))"

section \<open>The workspace requirement\<close>

text \<open>The doubling array: every capacity from the initial one to the first that holds the needed
  entries is charged.  The loop ends because the accumulated cost grows with every turn.\<close>

definition has_feature :: "session_config \<Rightarrow> u64 \<Rightarrow> bool" where
  "has_feature config fmask \<longleftrightarrow> sc_requested_features config AND fmask \<noteq> 0"

function growable_loop :: "u64 \<Rightarrow> usize \<Rightarrow> u64 \<Rightarrow> usize \<Rightarrow> usize" where
  "growable_loop needed entry_size capacity cost =
     (if SIZE_MAX div entry_size < capacity then SIZE_MAX
      else
        let cost' = apta_workspace_add cost (apta_workspace_allocation_cost (capacity * entry_size))
        in if cost' = SIZE_MAX \<or> needed \<le> capacity then cost'
           else if (ucast UINT32_MAX :: u64) div 2 < capacity then SIZE_MAX
           else growable_loop needed entry_size (capacity * 2) cost')"
  by pat_completeness auto

lemma allocation_cost_0: "apta_workspace_allocation_cost 0 = 80"
  by (simp add: apta_workspace_allocation_cost_def apta_workspace_align_up_def apta_consts)

lemma workspace_add_less: "apta_workspace_add c 80 \<noteq> SIZE_MAX \<Longrightarrow> unat c < unat (apta_workspace_add c 80)"
  using size_add_guard [of c 80]
  by (auto simp: apta_workspace_add_def unat_plus_u64 not_less split: if_splits)

termination growable_loop
proof (relation "measure (\<lambda>(needed, entry_size, capacity, cost).
    if capacity = 0 then 18446744073709551616 - unat cost else 18446744073709551616 - unat capacity)")
  fix needed :: u64 and entry_size capacity cost x
  assume x: "x = apta_workspace_add cost (apta_workspace_allocation_cost (capacity * entry_size))"
    and go: "\<not> (x = SIZE_MAX \<or> needed \<le> capacity)" "\<not> (ucast UINT32_MAX :: u64) div 2 < capacity"
  show "((needed, entry_size, capacity * 2, x), needed, entry_size, capacity, cost) \<in>
    measure (\<lambda>(needed, entry_size, capacity, cost). if capacity = 0
      then 18446744073709551616 - unat cost else 18446744073709551616 - unat capacity)"
  proof (cases "capacity = 0")
    case True
    then show ?thesis
      using x go workspace_add_less [of cost] unat_u64_bound [of x] by (simp add: allocation_cost_0)
  next
    case False
    have "unat capacity \<le> 2147483647"
      using go(2) by (simp add: UINT32_MAX_def not_less word_le_nat_alt)
    then have "unat (capacity * 2) = unat capacity * 2" "0 < unat capacity"
      using False by (simp_all add: unat_times_u64 unat_gt_0)
    then show ?thesis using unat_u64_bound [of "capacity * 2"] by auto
  qed
qed simp

definition apta_workspace_growable_cost :: "u64 \<Rightarrow> usize \<Rightarrow> u32 \<Rightarrow> usize" where
  "apta_workspace_growable_cost needed_entries entry_size initial_capacity =
     (if needed_entries = 0 then 0 else growable_loop needed_entries entry_size (ucast initial_capacity) 0)"

definition resolved_frames_per_column :: "session_config \<Rightarrow> u32" where
  "resolved_frames_per_column config =
     (if sc_overview_frames_per_column config \<noteq> 0 then sc_overview_frames_per_column config
      else OVERVIEW_FRAMES_PER_COLUMN)"

text \<open>The numerator wraps at 64 bits, as in the code.\<close>

definition overview_columns :: "session_config \<Rightarrow> u64" where
  "overview_columns config =
     (let frames_per_column = ucast (resolved_frames_per_column config)
      in if sc_total_frames config \<noteq> 0
         then (sc_total_frames config + frames_per_column - 1) div frames_per_column else 0)"

definition apta_internal_session_workspace_requirement :: "struct_sizes \<Rightarrow> session_config \<Rightarrow> usize" where
  "apta_internal_session_workspace_requirement sizes config =
     (let total0 = apta_workspace_align_up (sizeof_session sizes) MAX_ALIGNMENT;
          columns = overview_columns config;
          cost = apta_workspace_allocation_cost;
          total1 = apta_workspace_add total0
            (apta_workspace_growable_cost columns (sizeof_accumulator sizes) 16);
          total2 = (if has_feature config FEATURE_WAVEFORM_3BAND
            then apta_workspace_add total1 (apta_workspace_growable_cost columns (BAND_COUNT * 4) 16)
            else total1);
          total3 = apta_workspace_add total2
            (apta_workspace_growable_cost (ucast MAX_REGION_REQUESTS) (sizeof_range sizes) 8);
          total4 = apta_workspace_add total3
            (cost (sizeof_pcm_node sizes + MAX_PUSH_FRAMES * sizeof_float));
          total5 = (if has_feature config FEATURE_WAVEFORM_DETAIL
            then apta_workspace_add total4
              (cost (ucast MAX_DETAIL_TILES * ucast DETAIL_COLUMNS_PER_TILE * sizeof_accumulator sizes))
            else total4);
          total6 = (if has_feature config S4_FEATURES
            then apta_workspace_add
              (apta_workspace_add total5 (cost (ONSET_BIN_CAPACITY * sizeof_onset_bin sizes)))
              (cost (ONSET_BIN_CAPACITY * sizeof_float))
            else total5);
          total7 = (if has_feature config S6_FEATURES
            then apta_workspace_add (apta_workspace_add (apta_workspace_add (apta_workspace_add total6
              (cost (sizeof_s6_session_state sizes)))
              (cost (GLOBAL_BIN_CAPACITY * sizeof_onset_bin sizes)))
              (cost (GLOBAL_BIN_CAPACITY * sizeof_float)))
              (cost (ucast GLOBAL_MAX_BEATS * sizeof_beat sizes))
            else total6);
          total8 = apta_workspace_add total7 (cost (ucast METADATA_MAX_TOTAL_BYTES))
      in if total0 = SIZE_MAX then SIZE_MAX
         else apta_workspace_add total8 (sizeof_workspace_block + MAX_ALIGNMENT))"

section \<open>What the requirement charges\<close>

text \<open>The capacities a doubling array goes through until it holds \<open>needed\<close> entries.\<close>

function capacities :: "nat \<Rightarrow> nat \<Rightarrow> nat list" where
  "capacities needed cap =
     (if needed \<le> cap \<or> cap = 0 then [cap] else cap # capacities needed (cap * 2))"
  by pat_completeness auto
termination by (relation "measure (\<lambda>(needed, cap). needed - cap)") auto

definition growth :: "u64 \<Rightarrow> usize \<Rightarrow> nat \<Rightarrow> usize list" where
  "growth needed entry_size initial = (if needed = 0 then []
     else map (\<lambda>c. of_nat c * entry_size) (capacities (unat needed) initial))"

text \<open>The allocations the configuration is charged for, array by array.\<close>

definition charged :: "struct_sizes \<Rightarrow> session_config \<Rightarrow> usize list" where
  "charged sizes config =
     growth (overview_columns config) (sizeof_accumulator sizes) 16 @
     (if has_feature config FEATURE_WAVEFORM_3BAND then growth (overview_columns config) 12 16 else []) @
     growth 16 (sizeof_range sizes) 8 @
     [sizeof_pcm_node sizes + 16384] @
     (if has_feature config FEATURE_WAVEFORM_DETAIL then [256 * sizeof_accumulator sizes] else []) @
     (if has_feature config S4_FEATURES then [4096 * sizeof_onset_bin sizes, 16384] else []) @
     (if has_feature config S6_FEATURES
      then [sizeof_s6_session_state sizes, 16384 * sizeof_onset_bin sizes, 65536, 3072 * sizeof_beat sizes]
      else []) @
     [8192]"

text \<open>Structures are not empty and smaller than a mebibyte.\<close>

definition size_sane :: "usize \<Rightarrow> bool" where
  "size_sane n \<longleftrightarrow> 0 < unat n \<and> unat n < 1048576"

definition sizes_sane :: "struct_sizes \<Rightarrow> bool" where
  "sizes_sane sizes \<longleftrightarrow> list_all size_sane [sizeof_session sizes, sizeof_range sizes, sizeof_accumulator sizes,
     sizeof_pcm_node sizes, sizeof_onset_bin sizes, sizeof_s6_session_state sizes, sizeof_beat sizes]"

definition charges :: "usize \<Rightarrow> usize \<Rightarrow> usize list \<Rightarrow> bool" where
  "charges t t' ns \<longleftrightarrow> (t' \<noteq> SIZE_MAX \<longrightarrow>
     t \<noteq> SIZE_MAX \<and> unat t' = unat t + total_cost ns \<and> list_all small ns)"

lemma total_cost_simps [simp]:
  "total_cost [] = 0"
  "total_cost (n # ns) = unat (apta_workspace_allocation_cost n) + total_cost ns"
  "total_cost (ms @ ns) = total_cost ms + total_cost ns"
  by (simp_all add: total_cost_def)

lemma workspace_add_exact:
  assumes "apta_workspace_add t c \<noteq> SIZE_MAX"
  shows "t \<noteq> SIZE_MAX" "c \<noteq> SIZE_MAX" "unat (apta_workspace_add t c) = unat t + unat c"
proof -
  have "t \<le> SIZE_MAX - c" "t \<noteq> SIZE_MAX" "c \<noteq> SIZE_MAX"
    using assms by (auto simp: apta_workspace_add_def not_less split: if_splits)
  moreover from this have "apta_workspace_add t c = t + c" by (auto simp: apta_workspace_add_def)
  ultimately show "t \<noteq> SIZE_MAX" "c \<noteq> SIZE_MAX" "unat (apta_workspace_add t c) = unat t + unat c"
    unfolding size_add_guard by (simp_all add: unat_plus_u64)
qed

lemma charges_one: "small n \<Longrightarrow> charges t (apta_workspace_add t (apta_workspace_allocation_cost n)) [n]"
  using workspace_add_exact [of t "apta_workspace_allocation_cost n"] by (auto simp: charges_def)

lemma charges_trans: "charges t t' ms \<Longrightarrow> charges t' t'' ns \<Longrightarrow> charges t t'' (ms @ ns)"
  by (auto simp: charges_def)

lemma charges_if: "(b \<Longrightarrow> charges t t' ns) \<Longrightarrow> charges t (if b then t' else t) (if b then ns else [])"
  by (simp add: charges_def)

lemma growable_loop_charges:
  assumes "capacity \<noteq> 0" "unat capacity \<le> 4294967296" "size_sane entry_size"
  shows "charges cost (growable_loop needed entry_size capacity cost)
    (map (\<lambda>c. of_nat c * entry_size) (capacities (unat needed) (unat capacity)))"
  using assms
proof (induction needed entry_size capacity cost rule: growable_loop.induct)
  case (1 needed entry_size capacity cost)
  let ?c = "apta_workspace_add cost (apta_workspace_allocation_cost (capacity * entry_size))"
  have "unat capacity * unat entry_size \<le> 4294967296 * 1048576"
    using 1(3,4) by (intro mult_le_mono) (auto simp: size_sane_def)
  then have "small (capacity * entry_size)" by (simp add: small_def unat_times_u64)
  then have one: "charges cost ?c [capacity * entry_size]" by (rule charges_one)
  consider (limit) "SIZE_MAX div entry_size < capacity" | (big) "?c = SIZE_MAX"
    | (enough) "needed \<le> capacity" "\<not> SIZE_MAX div entry_size < capacity" "?c \<noteq> SIZE_MAX"
    | (more) "\<not> SIZE_MAX div entry_size < capacity" "\<not> (?c = SIZE_MAX \<or> needed \<le> capacity)" by blast
  then show ?case
  proof cases
    case enough
    then have "unat needed \<le> unat capacity" by (simp add: word_le_nat_alt)
    then have "capacities (unat needed) (unat capacity) = [unat capacity]" by simp
    moreover have "growable_loop needed entry_size capacity cost = ?c"
      using enough by (simp add: Let_def)
    ultimately show ?thesis using one by simp
  next
    case more
    show ?thesis
    proof (cases "(ucast UINT32_MAX :: u64) div 2 < capacity")
      case False
      then have "unat capacity \<le> 2147483647" by (simp add: UINT32_MAX_def not_less word_le_nat_alt)
      then have two: "unat (capacity * 2) = unat capacity * 2" by (simp add: unat_times_u64)
      then have "capacity * 2 \<noteq> 0" "unat (capacity * 2) \<le> 4294967296"
        using 1(2) \<open>unat capacity \<le> 2147483647\<close> by (auto simp: unat_eq_0 [symmetric])
      from 1(1) [OF more(1) refl more(2) False this 1(4)]
      have "charges ?c (growable_loop needed entry_size (capacity * 2) ?c)
          (map (\<lambda>c. of_nat c * entry_size) (capacities (unat needed) (unat capacity * 2)))"
        by (simp only: two)
      moreover have "\<not> unat needed \<le> unat capacity" "unat capacity \<noteq> 0"
        using more(2) 1(2) by (simp_all add: word_le_nat_alt unat_eq_0)
      then have "capacities (unat needed) (unat capacity) =
          unat capacity # capacities (unat needed) (unat capacity * 2)" by (subst capacities.simps) simp
      moreover have "growable_loop needed entry_size capacity cost =
          growable_loop needed entry_size (capacity * 2) ?c"
        using more False by (subst growable_loop.simps) (simp only: Let_def if_False)
      ultimately show ?thesis using charges_trans [OF one] by simp
    qed (use more in \<open>simp add: charges_def Let_def\<close>)
  qed (simp_all add: charges_def Let_def)
qed


lemma growable_cost_charges:
  assumes "initial \<noteq> 0" "size_sane entry_size"
  shows "charges t (apta_workspace_add t (apta_workspace_growable_cost needed entry_size initial))
    (growth needed entry_size (unat initial))"
proof (cases "needed = 0")
  case False
  have "charges 0 (growable_loop needed entry_size (ucast initial) 0)
    (map (\<lambda>c. of_nat c * entry_size) (capacities (unat needed) (unat initial)))"
    using growable_loop_charges [of "ucast initial" entry_size 0 needed] assms unat_u32_bound [of initial]
    by (simp add: unat_eq_0 [symmetric])
  then show ?thesis
    using workspace_add_exact [of t "growable_loop needed entry_size (ucast initial) 0"] False
    by (auto simp: charges_def growth_def apta_workspace_growable_cost_def)
qed (use workspace_add_exact [of t 0] in \<open>auto simp: charges_def growth_def apta_workspace_growable_cost_def\<close>)

lemma small_times: "size_sane n \<Longrightarrow> unat k \<le> 65536 \<Longrightarrow> small (k * n)"
proof -
  assume "size_sane n" "unat k \<le> 65536"
  then have "unat k * unat n \<le> 65536 * 1048576" by (intro mult_le_mono) (auto simp: size_sane_def)
  then show ?thesis by (simp add: small_def unat_times_u64)
qed

lemma small_sane: "size_sane n \<Longrightarrow> small n"
  by (simp add: small_def size_sane_def)

lemma small_node: "size_sane n \<Longrightarrow> small (n + 16384)"
  by (simp add: small_def size_sane_def unat_plus_u64)

lemma requirement_charges:
  assumes "sizes_sane sizes"
  shows "\<exists>t. charges (apta_workspace_align_up (sizeof_session sizes) MAX_ALIGNMENT) t (charged sizes config) \<and>
    apta_internal_session_workspace_requirement sizes config =
      (if apta_workspace_align_up (sizeof_session sizes) MAX_ALIGNMENT = SIZE_MAX then SIZE_MAX
       else apta_workspace_add t 48)"
proof -
  note s = assms [unfolded sizes_sane_def, simplified]
  have d: "size_sane 12" by (simp add: size_sane_def)
  have numerals: "BAND_COUNT * 4 = 12" "MAX_PUSH_FRAMES = 4096" "sizeof_float = 4"
      "ucast MAX_REGION_REQUESTS = (16 :: u64)" "(4096 :: u64) * 4 = 16384"
      "(16384 :: u64) * 4 = 65536" "ucast METADATA_MAX_TOTAL_BYTES = (8192 :: u64)"
      "ucast MAX_DETAIL_TILES * ucast DETAIL_COLUMNS_PER_TILE = (256 :: u64)"
      "ucast GLOBAL_MAX_BEATS = (3072 :: u64)" "sizeof_workspace_block + MAX_ALIGNMENT = 48"
      "ONSET_BIN_CAPACITY = 4096" "GLOBAL_BIN_CAPACITY = 16384"
    by (simp_all add: apta_consts)
  have nums: "small 16384" "small 65536" "small 8192" by (simp_all add: small_def)
  let ?cost = apta_workspace_allocation_cost
  let ?n = "overview_columns config"
  define t0 where "t0 = apta_workspace_align_up (sizeof_session sizes) MAX_ALIGNMENT"
  define t1 where "t1 = apta_workspace_add t0 (apta_workspace_growable_cost ?n (sizeof_accumulator sizes) 16)"
  define t2 where "t2 = (if has_feature config FEATURE_WAVEFORM_3BAND
    then apta_workspace_add t1 (apta_workspace_growable_cost ?n 12 16) else t1)"
  define t3 where "t3 = apta_workspace_add t2 (apta_workspace_growable_cost 16 (sizeof_range sizes) 8)"
  define t4 where "t4 = apta_workspace_add t3 (?cost (sizeof_pcm_node sizes + 16384))"
  define t5 where "t5 = (if has_feature config FEATURE_WAVEFORM_DETAIL
    then apta_workspace_add t4 (?cost (256 * sizeof_accumulator sizes)) else t4)"
  define t6 where "t6 = (if has_feature config S4_FEATURES
    then apta_workspace_add (apta_workspace_add t5 (?cost (4096 * sizeof_onset_bin sizes))) (?cost 16384)
    else t5)"
  define t7 where "t7 = (if has_feature config S6_FEATURES
    then apta_workspace_add (apta_workspace_add (apta_workspace_add (apta_workspace_add t6
      (?cost (sizeof_s6_session_state sizes))) (?cost (16384 * sizeof_onset_bin sizes))) (?cost 65536))
      (?cost (3072 * sizeof_beat sizes)) else t6)"
  define t8 where "t8 = apta_workspace_add t7 (?cost 8192)"
  note defs = t0_def t1_def t2_def t3_def t4_def t5_def t6_def t7_def t8_def
  note big = small_times [of _ "256 :: u64"] small_times [of _ "4096 :: u64"]
    small_times [of _ "16384 :: u64"] small_times [of _ "3072 :: u64"]
  have 1: "charges t0 t1 (growth ?n (sizeof_accumulator sizes) 16)"
    using growable_cost_charges [of 16 _ t0 ?n] s by (simp add: t1_def)
  have 2: "charges t1 t2 (if has_feature config FEATURE_WAVEFORM_3BAND then growth ?n 12 16 else [])"
    using growable_cost_charges [of 16 12 t1 ?n] d unfolding t2_def by (intro charges_if) simp
  have 3: "charges t2 t3 (growth 16 (sizeof_range sizes) 8)"
    using growable_cost_charges [of 8 _ t2 16] s by (simp add: t3_def)
  have 4: "charges t3 t4 [sizeof_pcm_node sizes + 16384]"
    unfolding t4_def using s by (intro charges_one small_node) simp
  have 5: "charges t4 t5 (if has_feature config FEATURE_WAVEFORM_DETAIL then [256 * sizeof_accumulator sizes] else [])"
    unfolding t5_def using s big by (intro charges_if charges_one) simp
  have 6: "charges t5 t6 (if has_feature config S4_FEATURES then [4096 * sizeof_onset_bin sizes, 16384] else [])"
    unfolding t6_def using s big nums
      charges_trans [OF charges_one charges_one, of "4096 * sizeof_onset_bin sizes" 16384 t5]
    by (intro charges_if) simp
  have 7: "charges t6 t7 (if has_feature config S6_FEATURES then [sizeof_s6_session_state sizes,
      16384 * sizeof_onset_bin sizes, 65536, 3072 * sizeof_beat sizes] else [])"
    unfolding t7_def using s big nums small_sane
      charges_trans [OF charges_trans [OF charges_trans [OF charges_one charges_one] charges_one] charges_one,
        of "sizeof_s6_session_state sizes" "16384 * sizeof_onset_bin sizes" 65536 "3072 * sizeof_beat sizes" t6]
    by (intro charges_if) simp
  have 8: "charges t7 t8 [8192]" unfolding t8_def using nums by (intro charges_one)
  note chain = charges_trans [OF 1 charges_trans [OF 2 charges_trans [OF 3 charges_trans [OF 4
    charges_trans [OF 5 charges_trans [OF 6 charges_trans [OF 7 8]]]]]]]
  have "apta_internal_session_workspace_requirement sizes config =
      (if t0 = SIZE_MAX then SIZE_MAX else apta_workspace_add t8 48)"
    unfolding apta_internal_session_workspace_requirement_def Let_def numerals defs ..
  then show ?thesis using chain unfolding charged_def t0_def [symmetric] by blast
qed


lemma requirement_exact:
  assumes "sizes_sane sizes" "apta_internal_session_workspace_requirement sizes config \<noteq> SIZE_MAX"
  shows "unat (apta_internal_session_workspace_requirement sizes config) =
      unat (apta_workspace_align_up (sizeof_session sizes) MAX_ALIGNMENT) + total_cost (charged sizes config) + 48"
    and "list_all small (charged sizes config)"
proof -
  obtain t where t: "charges (apta_workspace_align_up (sizeof_session sizes) MAX_ALIGNMENT) t (charged sizes config)"
    and r: "apta_internal_session_workspace_requirement sizes config =
      (if apta_workspace_align_up (sizeof_session sizes) MAX_ALIGNMENT = SIZE_MAX then SIZE_MAX
       else apta_workspace_add t 48)"
    using requirement_charges [OF assms(1)] by blast
  have "apta_workspace_add t 48 \<noteq> SIZE_MAX" using assms(2) r by (metis (full_types))
  note add = workspace_add_exact [OF this]
  show "unat (apta_internal_session_workspace_requirement sizes config) =
      unat (apta_workspace_align_up (sizeof_session sizes) MAX_ALIGNMENT) + total_cost (charged sizes config) + 48"
    "list_all small (charged sizes config)"
    using t add r assms(2) by (auto simp: charges_def split: if_splits)
qed

lemma total_cost_subset:
  assumes "mset ms \<subseteq># mset ns"
  shows "total_cost ms \<le> total_cost ns" "list_all small ns \<Longrightarrow> list_all small ms"
proof -
  from assms obtain ks where "mset ns = mset ms + mset ks" by (metis ex_mset subset_mset.le_iff_add)
  then have "sum_mset (image_mset (unat \<circ> apta_workspace_allocation_cost) (mset ns)) =
      sum_mset (image_mset (unat \<circ> apta_workspace_allocation_cost) (mset ms + mset ks))" by simp
  then have "total_cost ns = total_cost ms + total_cost ks"
    by (simp add: total_cost_def sum_mset_sum_list [symmetric])
  then show "total_cost ms \<le> total_cost ns" by simp
  show "list_all small ms" if "list_all small ns"
    using that set_mset_mono [OF assms] by (auto simp: list_all_iff)
qed

lemma charged_metadata: "8192 \<in> set (charged sizes config)" by (simp add: charged_def)

lemma total_cost_member: "n \<in> set ns \<Longrightarrow> unat (apta_workspace_allocation_cost n) \<le> total_cost ns"
  by (induction ns) auto

text \<open>A workspace of the required size, at an aligned address, can be initialised.\<close>

lemma initialize_succeeds:
  assumes "unat (apta_workspace_align_up session_size MAX_ALIGNMENT) + 80 \<le> unat wsize" "base AND 15 = 0"
  shows "\<exists>ws. apta_internal_session_workspace_initialize session_size base wsize = Ret ws"
proof -
  let ?o = "apta_workspace_align_up session_size MAX_ALIGNMENT"
  have o: "?o \<noteq> SIZE_MAX" using assms(1) unat_u64_bound [of wsize] by (auto simp: SIZE_MAX_def)
  have "unat ?o + 80 < 18446744073709551616" using assms(1) unat_u64_bound [of wsize] by linarith
  moreover from this have "?o \<le> SIZE_MAX - 80" unfolding size_add_guard by simp
  then have "?o \<le> SIZE_MAX - 32 - 32 - 16" by (simp add: SIZE_MAX_def)
  moreover have "unat (?o + 32 + 32 + 16) = unat ?o + 80"
    using \<open>unat ?o + 80 < 18446744073709551616\<close> by (simp add: unat_plus_u64)
  moreover from workspace_align_up(3) [OF o] obtain k where "unat ?o = 16 * k" by (rule dvdE)
  then have "unat ?o \<noteq> 18446744073709551535" by presburger
  ultimately have "\<not> wsize < ?o + 32 + 32 + 16" "?o + 32 + 32 + 16 \<noteq> SIZE_MAX"
    using assms(1) unat_u64_bound [of wsize] by (auto simp: word_less_nat_alt dest: arg_cong [of _ _ unat])
  then show ?thesis
    using o assms(2) \<open>?o \<le> SIZE_MAX - 32 - 32 - 16\<close>
    by (auto simp: apta_internal_session_workspace_initialize_def Let_def MAX_ALIGNMENT_def check_def
        apta_internal_session_workspace_minimum_size_def apta_workspace_first_block_def
        sizeof_workspace_block_def SIZE_MAX_def dest: leD)
qed


section \<open>Properties\<close>

text \<open>
  C22: the calculated workspace requirement is enough.  A workspace of at least that size, aligned
  to 16 bytes, is accepted, and then every sequence of operations whose allocations are among
  those the configuration is charged for (the doubling steps of the growable arrays, the queue
  node, the tile, onset and beat stores, the metadata) has all its allocations served, in any
  order and with any frees in between.
\<close>
theorem workspace_requirement_suffices:
  assumes "sizes_sane sizes"
    and "apta_internal_session_workspace_requirement sizes config \<noteq> SIZE_MAX"
    and "apta_internal_session_workspace_requirement sizes config \<le> wsize"
    and "base AND 15 = 0" "unat base + unat wsize < 18446744073709551616"
  shows "\<exists>ws. apta_internal_session_workspace_initialize (sizeof_session sizes) base wsize = Ret ws \<and>
    (\<forall>ops. aligned_ops ops \<and> mset (alloc_sizes ops) \<subseteq># mset (charged sizes config) \<longrightarrow>
       None \<notin> set (alloc_results ops ws))"
proof -
  let ?o = "unat (apta_workspace_align_up (sizeof_session sizes) MAX_ALIGNMENT)"
  note r = requirement_exact [OF assms(1,2)]
  have "unat (apta_workspace_allocation_cost 8192) = 8256"
    by (simp add: apta_workspace_allocation_cost_def apta_workspace_align_up_def apta_consts)
  then have room: "?o + total_cost (charged sizes config) \<le> unat wsize" "?o + 80 \<le> unat wsize"
    using r(1) assms(3) total_cost_member [OF charged_metadata, of sizes config]
    by (simp_all add: word_le_nat_alt)
  obtain ws where ws: "apta_internal_session_workspace_initialize (sizeof_session sizes) base wsize = Ret ws"
    using initialize_succeeds [OF room(2) assms(4)] by blast
  note init = workspace_initialize_Ret [OF ws assms(5)]
  have "None \<notin> set (alloc_results ops ws)"
    if "aligned_ops ops" "mset (alloc_sizes ops) \<subseteq># mset (charged sizes config)" for ops
  proof (rule budget_run [OF init(1) _ that(1)])
    show "within_budget (unat base + ?o) (unat base + unat wsize) 0 ws"
      using init(3) by (auto simp: within_budget_def tail_def)
    show "list_all small (alloc_sizes ops)" using total_cost_subset(2) [OF that(2) r(2)] .
    show "unat base + ?o + 0 + total_cost (alloc_sizes ops) \<le> unat base + unat wsize"
      using total_cost_subset(1) [OF that(2)] room(1) by simp
  qed
  then show ?thesis using ws by blast
qed

definition demo_sizes :: struct_sizes where
  "demo_sizes = \<lparr>sizeof_session = 11000, sizeof_result = 900, sizeof_session_config = 128,
     sizeof_memory_requirements = 48, sizeof_range = 16, sizeof_accumulator = 32, sizeof_pcm_node = 24,
     sizeof_onset_bin = 16, sizeof_s6_session_state = 600, sizeof_s6_result_state = 400, sizeof_beat = 32,
     sizeof_column = 10, sizeof_span = 40, sizeof_tile_view = 80, sizeof_tempo_candidate = 40,
     sizeof_frame_range = 24, sizeof_grid_segment = 96, sizeof_result_pool_control = 300,
     sizeof_focus = 56, sizeof_region_request = 64, sizeof_request_progress = 80, sizeof_pcm_request = 56,
     sizeof_pcm_block = 96, sizeof_pcm_source = 40, sizeof_work_budget = 32, sizeof_progress = 56\<rparr>"

definition demo_config :: session_config where
  "demo_config = (apta_session_config_init demo_sizes)\<lparr>sc_total_frames := 44100, sc_requested_features := 1\<rparr>"

lemma demo_sizes_sane: "sizes_sane demo_sizes"
  by (simp add: sizes_sane_def size_sane_def demo_sizes_def)

lemmas eval_growth = growable_loop.simps capacities.simps growth_def
  apta_workspace_growable_cost_def apta_workspace_add_def apta_workspace_allocation_cost_def
  apta_workspace_align_up_def apta_consts Let_def

lemma demo_columns: "overview_columns demo_config = 44"
  by (simp add: overview_columns_def resolved_frames_per_column_def demo_config_def
      apta_session_config_init_def apta_consts Let_def)

lemma demo_growth_costs:
  "apta_workspace_growable_cost 44 32 16 = 3776" "apta_workspace_growable_cost 16 16 8 = 512"
  by (simp_all add: eval_growth)

lemma demo_costs:
  "apta_workspace_allocation_cost 16408 = 16480" "apta_workspace_allocation_cost 8192 = 8256"
  "apta_workspace_align_up 11000 MAX_ALIGNMENT = 11008"
  by (simp_all add: apta_workspace_allocation_cost_def apta_workspace_align_up_def apta_consts Let_def)

lemma demo_features:
  "\<not> has_feature demo_config FEATURE_WAVEFORM_3BAND" "\<not> has_feature demo_config FEATURE_WAVEFORM_DETAIL"
  "\<not> has_feature demo_config S4_FEATURES" "\<not> has_feature demo_config S6_FEATURES"
  by (simp_all add: has_feature_def demo_config_def apta_session_config_init_def apta_consts)

lemma demo_charged: "charged demo_sizes demo_config = [512, 1024, 2048, 128, 256, 16408, 8192]"
  by (simp add: charged_def demo_columns demo_features capacities.simps growth_def demo_sizes_def)

lemma demo_requirement: "apta_internal_session_workspace_requirement demo_sizes demo_config = 40080"
proof -
  have "apta_workspace_add 11008 3776 = 14784" "apta_workspace_add 14784 512 = 15296"
    "apta_workspace_add 15296 16480 = 31776" "apta_workspace_add 31776 8256 = 40032"
    "apta_workspace_add 40032 48 = 40080" by (simp_all add: apta_workspace_add_def SIZE_MAX_def)
  moreover have "MAX_PUSH_FRAMES * sizeof_float = 16384" "ucast METADATA_MAX_TOTAL_BYTES = (8192 :: u64)"
    "sizeof_workspace_block + MAX_ALIGNMENT = 48" "ucast MAX_REGION_REQUESTS = (16 :: u64)"
    by (simp_all add: apta_consts)
  ultimately show ?thesis
    by (simp add: apta_internal_session_workspace_requirement_def Let_def demo_columns demo_features
        demo_growth_costs demo_costs demo_sizes_def SIZE_MAX_def)
qed

theorem workspace_requirement_suffices_witness:
  "\<exists>ws. apta_internal_session_workspace_initialize 11000 0x10000 40960 = Ret ws \<and>
     None \<notin> set (alloc_results [Alloc 512 8, Alloc 1024 8, Free (Some 0x12b40), Alloc 2048 8, Alloc 16408 8] ws)"
proof -
  let ?ops = "[Alloc 512 8, Alloc 1024 8, Free (Some 0x12b40), Alloc 2048 8, Alloc 16408 8]"
  have "apta_internal_session_workspace_requirement demo_sizes demo_config \<noteq> SIZE_MAX"
    "apta_internal_session_workspace_requirement demo_sizes demo_config \<le> 40960"
    "unat (0x10000 :: u64) + unat (40960 :: u64) < 18446744073709551616" "(0x10000 :: u64) AND 15 = 0"
    by (simp_all add: demo_requirement SIZE_MAX_def)
  then obtain ws where ws: "apta_internal_session_workspace_initialize (sizeof_session demo_sizes) 0x10000 40960 = Ret ws"
    "\<forall>ops. aligned_ops ops \<and> mset (alloc_sizes ops) \<subseteq># mset (charged demo_sizes demo_config) \<longrightarrow>
       None \<notin> set (alloc_results ops ws)"
    using workspace_requirement_suffices [OF demo_sizes_sane, where config = demo_config and wsize = 40960
        and base = "0x10000"] by blast
  moreover have "aligned_ops ?ops" by (simp add: apta_internal_is_power_of_two_def)
  moreover have "mset (alloc_sizes ?ops) \<subseteq># mset (charged demo_sizes demo_config)"
    by (simp add: demo_charged)
  ultimately have "None \<notin> set (alloc_results ?ops ws)" by blast
  then show ?thesis using ws(1) by (auto simp: demo_sizes_def)
qed

text \<open>
  C32: for a track whose length is unknown (the value \<open>apta_session_config_init\<close> sets), the rounding
  of the column count wraps around to zero columns: the requirement is the same as that of an
  empty track, whatever resolution and features are configured.
\<close>
theorem unknown_length_uncharged:
  assumes "apta_internal_overview_resolution_is_valid config"
    and "sc_total_frames config = APTA_TOTAL_FRAMES_UNKNOWN"
  shows "apta_internal_session_workspace_requirement sizes config =
    apta_internal_session_workspace_requirement sizes (config\<lparr>sc_total_frames := 0\<rparr>)"
proof -
  let ?f = "resolved_frames_per_column config"
  have "64 \<le> ?f"
    using assms(1) by (auto simp: apta_internal_overview_resolution_is_valid_def
        resolved_frames_per_column_def apta_consts split: if_splits)
  then have f: "64 \<le> unat (ucast ?f :: u64)" by (simp add: word_le_nat_alt)
  then have "2 \<le> (ucast ?f :: u64)" by (simp add: word_le_nat_alt)
  then have u: "unat (ucast ?f - 2 :: u64) = unat (ucast ?f :: u64) - 2" using unat_sub by force
  have wrap: "sc_total_frames config + ucast ?f - 1 = ucast ?f - 2"
    using assms(2) by (simp add: apta_consts)
  have "(ucast ?f - 2) div (ucast ?f) = (0 :: u64)"
    using u f by (simp add: word_eq_iff_unsigned [where 'a = nat] unat_div)
  then have "overview_columns config = overview_columns (config\<lparr>sc_total_frames := 0\<rparr>)"
    by (simp add: overview_columns_def Let_def wrap)
  then show ?thesis
    by (simp only: apta_internal_session_workspace_requirement_def has_feature_def) simp
qed

theorem unknown_length_uncharged_witness:
  "apta_internal_session_workspace_requirement demo_sizes (apta_session_config_init demo_sizes) =
   apta_internal_session_workspace_requirement demo_sizes
     ((apta_session_config_init demo_sizes)\<lparr>sc_total_frames := 0\<rparr>)"
  by (rule unknown_length_uncharged)
    (simp_all add: apta_session_config_init_def apta_internal_overview_resolution_is_valid_def)

text \<open>
  C31: for every track length below the wrap-around the charged columns are the rounded-up
  quotient: enough for every frame, and not one more than needed.
\<close>
theorem overview_columns_cover:
  assumes "unat (sc_total_frames config) + unat (resolved_frames_per_column config) \<le> 18446744073709551616"
  shows "unat (sc_total_frames config) \<le>
      unat (overview_columns config) * unat (resolved_frames_per_column config) \<and>
    (sc_total_frames config \<noteq> 0 \<longrightarrow> (unat (overview_columns config) - 1) *
      unat (resolved_frames_per_column config) < unat (sc_total_frames config))"
proof (cases "sc_total_frames config = 0")
  case False
  let ?f = "unat (resolved_frames_per_column config)"
  let ?n = "unat (sc_total_frames config)"
  have f: "0 < ?f"
    by (auto simp: resolved_frames_per_column_def OVERVIEW_FRAMES_PER_COLUMN_def unat_gt_0)
  have n: "0 < ?n" using False by (simp add: unat_gt_0)
  have "unat (sc_total_frames config + (ucast (resolved_frames_per_column config) - 1)) = ?n + (?f - 1)"
  proof -
    have "(ucast (resolved_frames_per_column config) :: u64) \<noteq> 0"
      using f by (metis less_numeral_extra(3) unat_0 unat_ucast_u32_u64)
    then have "unat (ucast (resolved_frames_per_column config) - 1 :: u64) = ?f - 1"
      using unat_minus_one [of "ucast (resolved_frames_per_column config) :: u64"] by simp
    then show ?thesis using assms f by (simp add: unat_plus_u64)
  qed
  then have k: "unat (overview_columns config) = (?n + (?f - 1)) div ?f"
    using False by (simp add: overview_columns_def Let_def unat_div diff_add_eq [symmetric] add_diff_eq)
  show ?thesis
    using align_up_bounds(1,2) [OF f, of ?n] n unfolding k [symmetric] diff_mult_distrib by linarith
qed (simp add: overview_columns_def)

theorem overview_columns_cover_witness:
  "44100 \<le> unat (overview_columns demo_config) * 1024 \<and> (unat (overview_columns demo_config) - 1) * 1024 < 44100"
  using overview_columns_cover [of demo_config]
  by (simp add: demo_config_def apta_session_config_init_def resolved_frames_per_column_def
      OVERVIEW_FRAMES_PER_COLUMN_def)

end
