(* ===== verification/Apta_Ranges.thy ===== *)
theory Apta_Ranges
  imports Apta_Config
begin

text \<open>
  The intake of pushed PCM (\<^verbatim>\<open>src/waveform/apta_waveform_input.c\<close>): the table of accepted frame
  ranges, its growth in the session's memory, and the queue of PCM nodes.  The table is a list of
  half-open ranges of 64-bit frame numbers; it denotes the set \<open>covered\<close>.  The invariant says that
  the ranges are not empty, ascending and separated by gaps, so adjacent ranges have been merged.
  Every frame is accepted at most once: a push accepts the longest prefix that is not covered
  yet, and coverage grows by exactly that prefix.  The sample values of a node (floating point)
  are not part of the model.
\<close>

section \<open>State\<close>

record frame_range =
  rg_first :: u64
  rg_end :: u64

record pcm_node =
  pn_address :: u64
  pn_first_frame :: u64
  pn_frame_count :: u32
  pn_processed_frames :: u32

record intake =
  in_memory :: session_memory
  in_ranges :: "frame_range list"
  in_ranges_memory :: "u64 option"
  in_range_capacity :: u32
  in_greatest_accepted_end :: u64
  in_maximum_accepted_end :: u64
  in_queue :: "pcm_node list"
  in_queued_frames :: u64

definition apta_internal_size_array_fits :: "usize \<Rightarrow> usize \<Rightarrow> usize \<Rightarrow> bool" where
  "apta_internal_size_array_fits base_size element_count element_size \<longleftrightarrow>
     element_size = 0 \<or> element_count \<le> (SIZE_MAX - base_size) div element_size"

section \<open>The range table\<close>

text \<open>The doubling loop.  It is entered with a capacity of at least 8, so the case of capacity 0, in
  which the loop of the source would not end, does not arise.\<close>

function double_capacity :: "u32 \<Rightarrow> u32 \<Rightarrow> u32 option" where
  "double_capacity needed capacity =
     (if capacity = 0 then None
      else if capacity < needed
      then if UINT32_MAX div 2 < capacity then None else double_capacity needed (capacity * 2)
      else Some capacity)"
  by pat_completeness auto
termination
proof (relation "measure (\<lambda>(needed, capacity). 4294967296 - unat capacity)")
  fix needed capacity :: u32
  assume "capacity \<noteq> 0" "\<not> UINT32_MAX div 2 < capacity"
  then have "0 < unat capacity" "unat capacity \<le> 2147483647"
    by (simp_all add: unat_gt_0 not_less word_le_nat_alt UINT32_MAX_def)
  then show "((needed, capacity * 2), needed, capacity) \<in>
      measure (\<lambda>(needed, capacity). 4294967296 - unat capacity)"
    using unat_u32_bound [of "capacity * 2"] by (simp add: unat_word_ariths)
qed simp

declare double_capacity.simps [simp del]

definition apta_ensure_range_capacity ::
    "host_allocator \<Rightarrow> struct_sizes \<Rightarrow> intake \<Rightarrow> u32 \<Rightarrow> apta_status \<times> intake" where
  "apta_ensure_range_capacity host sizes st needed =
     (if needed \<le> in_range_capacity st then (STATUS_OK, st)
      else
        case double_capacity needed (if in_range_capacity st = 0 then 8 else in_range_capacity st) of
          None \<Rightarrow> (ERROR_LIMIT_EXCEEDED, st)
        | Some capacity \<Rightarrow>
            if \<not> apta_internal_size_array_fits 0 (ucast capacity) (sizeof_range sizes)
            then (ERROR_LIMIT_EXCEEDED, st)
            else
              (case apta_internal_session_allocate host (in_memory st)
                      (ucast capacity * sizeof_range sizes) 8 of
                 (None, sm) \<Rightarrow> (ERROR_OUT_OF_MEMORY, st\<lparr>in_memory := sm\<rparr>)
               | (Some p, sm) \<Rightarrow>
                   (STATUS_OK,
                    st\<lparr>in_memory := apta_internal_session_deallocate sm (in_ranges_memory st),
                       in_ranges_memory := Some p, in_range_capacity := capacity\<rparr>)))"

fun apta_nonoverlapping_prefix :: "frame_range list \<Rightarrow> u64 \<Rightarrow> u32 \<Rightarrow> u32 \<times> bool" where
  "apta_nonoverlapping_prefix [] first requested = (requested, False)"
| "apta_nonoverlapping_prefix (r # rs) first requested =
     (if rg_end r \<le> first then apta_nonoverlapping_prefix rs first requested
      else if rg_first r \<le> first then (0, True)
      else if rg_first r < first + ucast requested then (ucast (rg_first r - first), False)
      else (requested, False))"

fun contiguous_end :: "frame_range list \<Rightarrow> u64 \<Rightarrow> u64" where
  "contiguous_end [] c = c"
| "contiguous_end (r # rs) c =
     (if c < rg_first r then c else contiguous_end rs (if c < rg_end r then rg_end r else c))"

definition apta_refresh_accepted_ends :: "intake \<Rightarrow> intake" where
  "apta_refresh_accepted_ends st =
     st\<lparr>in_greatest_accepted_end := contiguous_end (in_ranges st) 0,
        in_maximum_accepted_end :=
          (if in_ranges st = [] then 0 else rg_end (in_ranges st ! (length (in_ranges st) - 1)))\<rparr>"

text \<open>The insertion: shift, write, merge with the left neighbour, merge with the right one.\<close>

definition insert_range :: "frame_range list \<Rightarrow> u64 \<Rightarrow> u64 \<Rightarrow> frame_range list" where
  "insert_range rs f e =
     (let position = length (takeWhile (\<lambda>r. rg_first r < f) rs);
          rs1 = take position rs @ \<lparr>rg_first = f, rg_end = e\<rparr> # drop position rs;
          (rs2, position2) =
            (if 0 < position \<and> rg_end (rs1 ! (position - 1)) = f
             then (take position (rs1[position - 1 := (rs1 ! (position - 1))\<lparr>rg_end := e\<rparr>]) @
                     drop (position + 1) rs1, position - 1)
             else (rs1, position))
      in if position2 + 1 < length rs2 \<and> rg_end (rs2 ! position2) = rg_first (rs2 ! (position2 + 1))
         then take (position2 + 1) (rs2[position2 := (rs2 ! position2)\<lparr>rg_end := rg_end (rs2 ! (position2 + 1))\<rparr>]) @
                drop (position2 + 2) rs2
         else rs2)"

text \<open>The shifted table occupies one more element, so a full array is written out of bounds.\<close>

definition apta_insert_accepted_range :: "intake \<Rightarrow> u64 \<Rightarrow> u64 \<Rightarrow> intake outcome" where
  "apta_insert_accepted_range st f e =
     (if unat (in_range_capacity st) \<le> length (in_ranges st) then Fault
      else Ret (apta_refresh_accepted_ends (st\<lparr>in_ranges := insert_range (in_ranges st) f e\<rparr>)))"

section \<open>Accepting a block\<close>

text \<open>The node allocation is retried with half the frames until it succeeds or none are left.\<close>

function allocate_node ::
    "host_allocator \<Rightarrow> struct_sizes \<Rightarrow> session_memory \<Rightarrow> u32 \<Rightarrow> (u64 \<times> u32) option outcome \<times> session_memory" where
  "allocate_node host sizes sm accepted =
     (if accepted = 0 then (Ret None, sm)
      else if \<not> apta_internal_size_array_fits (sizeof_pcm_node sizes) (ucast accepted) sizeof_float
      then (Fail ERROR_LIMIT_EXCEEDED, sm)
      else
        (case apta_internal_session_allocate host sm
                (sizeof_pcm_node sizes + ucast accepted * sizeof_float) 8 of
           (Some p, sm') \<Rightarrow> (Ret (Some (p, accepted)), sm')
         | (None, sm') \<Rightarrow> allocate_node host sizes sm' (accepted div 2)))"
  by pat_completeness auto
termination
proof (relation "measure (\<lambda>(host, sizes, sm, accepted). unat accepted)")
  fix accepted :: u32 assume "accepted \<noteq> 0"
  then have "0 < unat accepted" by (simp add: unat_gt_0)
  then have "unat (accepted div 2) < unat accepted" by (simp add: unat_div)
  then show "((host, sizes, sm', accepted div 2), host, sizes, sm, accepted) \<in>
      measure (\<lambda>(host, sizes, sm, accepted). unat accepted)"
    for host :: host_allocator and sizes :: struct_sizes and sm' sm :: session_memory by simp
qed simp

declare allocate_node.simps [simp del]

definition apta_min_u32 :: "u32 \<Rightarrow> u32 \<Rightarrow> u32" where
  "apta_min_u32 left right = (if left < right then left else right)"

definition apta_internal_waveform_accept_pcm_base ::
    "host_allocator \<Rightarrow> struct_sizes \<Rightarrow> intake \<Rightarrow> u64 \<Rightarrow> u32 \<Rightarrow> (apta_status \<times> u32 \<times> intake) outcome" where
  "apta_internal_waveform_accept_pcm_base host sizes st f0 frame_count =
     (let candidate = apta_min_u32 frame_count (ucast MAX_PUSH_FRAMES);
          (accepted, conflict) = apta_nonoverlapping_prefix (in_ranges st) f0 candidate
      in if accepted = 0
         then Ret (if conflict then ERROR_CONFLICT else STATUS_WOULD_BLOCK, 0, st)
         else
           case apta_ensure_range_capacity host sizes st (of_nat (length (in_ranges st)) + 1) of
             (status, st1) \<Rightarrow>
               if failed status
               then Ret (if status = ERROR_OUT_OF_MEMORY then STATUS_WOULD_BLOCK else status, 0, st1)
               else
                 (case allocate_node host sizes (in_memory st1) accepted of
                    (Fail e, sm) \<Rightarrow> Ret (e, 0, st1\<lparr>in_memory := sm\<rparr>)
                  | (Fault, sm) \<Rightarrow> Fault
                  | (Ret None, sm) \<Rightarrow> Ret (STATUS_WOULD_BLOCK, 0, st1\<lparr>in_memory := sm\<rparr>)
                  | (Ret (Some (p, n)), sm) \<Rightarrow>
                      obind (apta_insert_accepted_range (st1\<lparr>in_memory := sm\<rparr>) f0
                               (f0 + ucast n)) (\<lambda>st2.
                      Ret (if n = frame_count then STATUS_OK else STATUS_MORE_WORK, n,
                           st2\<lparr>in_queue := in_queue st2 @
                                 [\<lparr>pn_address = p, pn_first_frame = f0, pn_frame_count = n,
                                   pn_processed_frames = 0\<rparr>],
                               in_queued_frames := in_queued_frames st2 + ucast n\<rparr>))))"

section \<open>The set a table denotes\<close>

definition range_set :: "frame_range \<Rightarrow> u64 set" where
  "range_set r = {rg_first r ..< rg_end r}"

definition covered :: "frame_range list \<Rightarrow> u64 set" where
  "covered rs = (\<Union>r\<in>set rs. range_set r)"

definition ranges_ok :: "frame_range list \<Rightarrow> bool" where
  "ranges_ok rs \<longleftrightarrow> sorted_wrt (\<lambda>r s. rg_end r < rg_first s) rs \<and> (\<forall>r\<in>set rs. rg_first r < rg_end r)"

lemma covered_simps [simp]:
  "covered [] = {}" "covered (r # rs) = range_set r \<union> covered rs"
  "covered (xs @ ys) = covered xs \<union> covered ys"
  by (auto simp: covered_def)

lemma ranges_ok_Nil [simp]: "ranges_ok []" by (simp add: ranges_ok_def)

lemma ranges_ok_Cons: "ranges_ok (r # rs) \<longleftrightarrow>
    rg_first r < rg_end r \<and> (\<forall>s\<in>set rs. rg_end r < rg_first s) \<and> ranges_ok rs"
  by (auto simp: ranges_ok_def)

lemma ranges_ok_append: "ranges_ok (xs @ ys) \<longleftrightarrow>
    ranges_ok xs \<and> ranges_ok ys \<and> (\<forall>x\<in>set xs. \<forall>y\<in>set ys. rg_end x < rg_first y)"
  by (auto simp: ranges_ok_def sorted_wrt_append)

lemma ranges_ok_first: "ranges_ok rs \<Longrightarrow> r \<in> set rs \<Longrightarrow> rg_first r < rg_end r"
  by (simp add: ranges_ok_def)

lemma first_in_covered: "ranges_ok rs \<Longrightarrow> r \<in> set rs \<Longrightarrow> rg_first r \<in> covered rs"
  by (auto simp: covered_def range_set_def ranges_ok_def)

section \<open>The free prefix\<close>

lemma ucast_u32_le: "x \<le> ucast (y :: u32) \<Longrightarrow> ucast (ucast (x :: u64) :: u32) = x"
proof -
  assume "x \<le> ucast y"
  then have "unat x < 4294967296" using unat_u32_bound [of y] by (simp add: word_le_nat_alt)
  then show ?thesis
    by (simp add: word_eq_iff_unsigned [where 'a = nat] unsigned_ucast_eq unsigned_take_bit_eq
        take_bit_nat_eq_self)
qed

text \<open>What the prefix search answers: the conflict flag says whether the first frame is covered;
  otherwise no frame of the prefix is, and a shortened prefix stops at a covered frame.\<close>

definition prefix_spec :: "u64 set \<Rightarrow> u64 \<Rightarrow> u32 \<Rightarrow> u32 \<times> bool \<Rightarrow> bool" where
  "prefix_spec C f k r \<longleftrightarrow> (case r of (n, conflict) \<Rightarrow>
     n \<le> k \<and> (conflict \<longleftrightarrow> f \<in> C) \<and> (conflict \<longrightarrow> n = 0) \<and>
     {f ..< f + ucast n} \<inter> C = {} \<and> (n < k \<and> \<not> conflict \<longrightarrow> f + ucast n \<in> C))"

lemma prefix_correct:
  assumes "ranges_ok rs" "unat f + unat k < 18446744073709551616" "k \<noteq> 0"
  shows "prefix_spec (covered rs) f k (apta_nonoverlapping_prefix rs f k)"
  using assms(1)
proof (induction rs)
  case Nil
  then show ?case by (simp add: prefix_spec_def)
next
  case (Cons r rs)
  have fk: "unat (f + ucast k) = unat f + unat k" using assms(2) by (simp add: unat_plus_u64)
  have later: "rg_end r < x" if "x \<in> covered rs" for x
    using Cons.prems that by (fastforce simp: ranges_ok_Cons covered_def range_set_def)
  have r: "rg_first r < rg_end r" using Cons.prems by (simp add: ranges_ok_Cons)
  consider (before) "rg_end r \<le> f" | (inside) "f < rg_end r" "rg_first r \<le> f"
    | (cut) "f < rg_first r" "rg_first r < f + ucast k" | (after) "f < rg_first r" "f + ucast k \<le> rg_first r"
    by fastforce
  then show ?case
  proof cases
    case before
    then have "x \<notin> range_set r" if "f \<le> x" for x using that by (auto simp: range_set_def)
    moreover have "f \<le> f + ucast n" if "n \<le> k" for n :: u32
      using that assms(2) by (simp add: word_le_nat_alt unat_plus_u64)
    ultimately show ?thesis using before Cons by (fastforce simp: prefix_spec_def ranges_ok_Cons)
  next
    case inside
    then show ?thesis by (auto simp: prefix_spec_def range_set_def)
  next
    case cut
    have lt: "unat f < unat (rg_first r)" "unat (rg_first r) < unat f + unat k"
      using cut fk by (simp_all add: word_less_nat_alt)
    then have d: "unat (rg_first r - f) = unat (rg_first r) - unat f"
      by (simp add: unat_sub word_le_nat_alt)
    then have u: "ucast (ucast (rg_first r - f) :: u32) = rg_first r - f"
      using lt by (intro ucast_u32_le [of _ k]) (simp add: word_le_nat_alt)
    then have "unat (ucast (rg_first r - f) :: u32) = unat (rg_first r) - unat f"
      using d by (metis unat_ucast_u32_u64)
    then have "(ucast (rg_first r - f) :: u32) \<le> k" using lt by (simp add: word_le_nat_alt)
    moreover have "x \<notin> covered (r # rs)" if "x < rg_first r" for x
      using later [of x] that r by (auto simp: range_set_def)
    moreover have "\<not> rg_end r \<le> f" "\<not> rg_first r \<le> f" using cut r by auto
    ultimately show ?thesis
      using cut r u by (auto simp: prefix_spec_def range_set_def)
  next
    case after
    have "x \<notin> covered (r # rs)" if "x < rg_first r" for x
      using later [of x] that r by (auto simp: range_set_def)
    moreover have "\<not> rg_end r \<le> f" "\<not> rg_first r \<le> f" "\<not> rg_first r < f + ucast k" using after r by auto
    moreover have "\<not> rg_end r \<le> f" using after r by auto
    ultimately show ?thesis using after by (auto simp: prefix_spec_def)
  qed
qed

section \<open>Insertion\<close>

definition left_of :: "frame_range list \<Rightarrow> u64 \<Rightarrow> frame_range list \<times> u64" where
  "left_of xs f = (if xs \<noteq> [] \<and> rg_end (last xs) = f then (butlast xs, rg_first (last xs)) else (xs, f))"

definition right_of :: "frame_range list \<Rightarrow> u64 \<Rightarrow> u64 \<times> frame_range list" where
  "right_of ys e = (case ys of [] \<Rightarrow> (e, [])
     | y # ys' \<Rightarrow> if rg_first y = e then (rg_end y, ys') else (e, ys))"

lemma insert_range_split:
  assumes "\<forall>x\<in>set xs. rg_first x < f" "ys = [] \<or> \<not> rg_first (hd ys) < f"
  shows "insert_range (xs @ ys) f e =
    fst (left_of xs f) @ \<lparr>rg_first = snd (left_of xs f), rg_end = fst (right_of ys e)\<rparr> # snd (right_of ys e)"
proof -
  have tw: "takeWhile (\<lambda>r. rg_first r < f) (xs @ ys) = xs"
    using assms by (cases ys) (simp_all add: takeWhile_append2 takeWhile_tail)
  show ?thesis
  proof (cases xs rule: rev_cases)
    case Nil
    then show ?thesis using tw
      by (cases ys) (auto simp: insert_range_def Let_def left_of_def right_of_def)
  next
    case (snoc zs z)
    have a: "rs ! length zs = z" if "rs = zs @ z # us" for rs us using that by simp
    show ?thesis using tw snoc
      by (cases ys) (auto simp: insert_range_def Let_def left_of_def right_of_def nth_append list_update_append)
  qed
qed


lemma left_of_props:
  assumes "ranges_ok xs" "\<forall>x\<in>set xs. rg_end x \<le> f" "left_of xs f = (xs', f')"
  shows "ranges_ok xs'" "\<forall>x\<in>set xs'. rg_end x < f'" "f' \<le> f" "covered xs' \<union> {f' ..< f} = covered xs"
    "length xs' \<le> length xs"
proof -
  have "ranges_ok xs' \<and> (\<forall>x\<in>set xs'. rg_end x < f') \<and> f' \<le> f \<and> covered xs' \<union> {f' ..< f} = covered xs \<and>
    length xs' \<le> length xs"
  proof (cases xs rule: rev_cases)
    case (snoc zs z)
    show ?thesis
    proof (cases "rg_end z = f")
      case True
      then show ?thesis using assms snoc
        by (auto simp: left_of_def ranges_ok_append ranges_ok_Cons range_set_def)
    next
      case False
      then have "rg_end z < f" using assms(2) snoc by auto
      moreover have "rg_end x < f" if "x \<in> set zs" for x
        using assms(1,2) snoc that by (fastforce simp: ranges_ok_append ranges_ok_Cons)
      ultimately show ?thesis using False assms snoc by (auto simp: left_of_def)
    qed
  qed (use assms in \<open>auto simp: left_of_def\<close>)
  then show "ranges_ok xs'" "\<forall>x\<in>set xs'. rg_end x < f'" "f' \<le> f"
    "covered xs' \<union> {f' ..< f} = covered xs" "length xs' \<le> length xs" by simp_all
qed

lemma right_of_props:
  assumes "ranges_ok ys" "\<forall>y\<in>set ys. e \<le> rg_first y" "right_of ys e = (e', ys')"
  shows "ranges_ok ys'" "\<forall>y\<in>set ys'. e' < rg_first y" "e \<le> e'" "{e ..< e'} \<union> covered ys' = covered ys"
    "length ys' \<le> length ys"
proof -
  have "ranges_ok ys' \<and> (\<forall>y\<in>set ys'. e' < rg_first y) \<and> e \<le> e' \<and> {e ..< e'} \<union> covered ys' = covered ys \<and>
    length ys' \<le> length ys"
  proof (cases ys)
    case (Cons y zs)
    show ?thesis
    proof (cases "rg_first y = e")
      case True
      then show ?thesis using assms Cons
        by (auto simp: right_of_def ranges_ok_Cons range_set_def less_imp_le)
    next
      case False
      then have "e < rg_first y" using assms(2) Cons by auto
      moreover have "e < rg_first z" if "z \<in> set zs" for z
        using assms(1) Cons that \<open>e < rg_first y\<close> by (fastforce simp: ranges_ok_Cons)
      ultimately show ?thesis using False assms Cons by (auto simp: right_of_def)
    qed
  qed (use assms in \<open>auto simp: right_of_def\<close>)
  then show "ranges_ok ys'" "\<forall>y\<in>set ys'. e' < rg_first y" "e \<le> e'"
    "{e ..< e'} \<union> covered ys' = covered ys" "length ys' \<le> length ys" by simp_all
qed

lemma insert_range_correct:
  assumes ok: "ranges_ok rs" and fe: "f < e" and dis: "{f ..< e} \<inter> covered rs = {}"
  shows "ranges_ok (insert_range rs f e)" "covered (insert_range rs f e) = covered rs \<union> {f ..< e}"
    "length (insert_range rs f e) \<le> Suc (length rs)"
proof -
  let ?xs = "takeWhile (\<lambda>r. rg_first r < f) rs" and ?ys = "dropWhile (\<lambda>r. rg_first r < f) rs"
  have rs: "rs = ?xs @ ?ys" by simp
  have okx: "ranges_ok ?xs" "ranges_ok ?ys" using ok rs ranges_ok_append by metis+
  have xs: "\<forall>x\<in>set ?xs. rg_first x < f" by (auto dest: set_takeWhileD)
  have "rg_end x \<le> f" if "x \<in> set ?xs" for x
  proof (rule ccontr)
    assume "\<not> rg_end x \<le> f"
    then have "f \<in> range_set x" using that xs by (auto simp: range_set_def)
    then have "f \<in> covered rs" using that by (auto simp: covered_def dest: set_takeWhileD)
    then show False using dis fe by auto
  qed
  then have left: "\<forall>x\<in>set ?xs. rg_end x \<le> f" by blast
  have ys: "?ys = [] \<or> \<not> rg_first (hd ?ys) < f" using hd_dropWhile by blast
  have "f \<le> rg_first y" if "y \<in> set ?ys" for y
    using ys okx(2) that by (cases ?ys) (auto simp: ranges_ok_Cons dest: order.strict_trans2)
  moreover have "rg_first y \<notin> {f ..< e}" if "y \<in> set ?ys" for y
  proof -
    have "y \<in> set rs" using that by (rule set_dropWhileD)
    then show ?thesis using first_in_covered [OF ok] dis by blast
  qed
  ultimately have right: "\<forall>y\<in>set ?ys. e \<le> rg_first y" by force
  obtain xs' f' where l: "left_of ?xs f = (xs', f')" by fastforce
  obtain e' ys' where r: "right_of ?ys e = (e', ys')" by fastforce
  have eq: "insert_range rs f e = xs' @ \<lparr>rg_first = f', rg_end = e'\<rparr> # ys'"
    using insert_range_split [OF xs ys, of e] l r by simp
  note L = left_of_props [OF okx(1) left l] and R = right_of_props [OF okx(2) right r]
  have "f' < e'" using L(3) R(3) fe by simp
  moreover have "rg_end x < rg_first y" if "x \<in> set xs'" "y \<in> set ys'" for x y
    using L(2) R(2) that \<open>f' < e'\<close> by (meson order.strict_trans)
  ultimately show "ranges_ok (insert_range rs f e)"
    using L R eq by (auto simp: ranges_ok_append ranges_ok_Cons)
  have "{f' ..< e'} = {f' ..< f} \<union> {f ..< e} \<union> {e ..< e'}"
    using L(3) R(3) fe by (auto simp: not_less)
  then have "covered (insert_range rs f e) = (covered xs' \<union> {f' ..< f}) \<union> {f ..< e} \<union> ({e ..< e'} \<union> covered ys')"
    by (auto simp: eq range_set_def)
  also have "\<dots> = covered ?xs \<union> {f ..< e} \<union> covered ?ys" using L(4) R(4) by simp
  finally show "covered (insert_range rs f e) = covered rs \<union> {f ..< e}"
    using covered_simps(3) [of ?xs ?ys] by auto
  have "length rs = length ?xs + length ?ys" using rs by (metis length_append)
  then show "length (insert_range rs f e) \<le> Suc (length rs)" using L(5) R(5) eq by simp
qed

section \<open>The accepted ends\<close>

lemma contiguous_end_aux:
  assumes "ranges_ok rs" "\<forall>r\<in>set rs. c \<le> rg_first r"
  shows "c \<le> contiguous_end rs c \<and> {c ..< contiguous_end rs c} \<subseteq> covered rs \<and>
    contiguous_end rs c \<notin> covered rs"
  using assms
proof (induction rs arbitrary: c)
  case (Cons r rs)
  have later: "\<forall>s\<in>set rs. rg_end r < rg_first s" "rg_first r < rg_end r" "ranges_ok rs"
    using Cons.prems by (simp_all add: ranges_ok_Cons)
  have beyond: "x \<notin> covered rs" if "x \<le> rg_end r" for x
    using later(1) that by (fastforce simp: covered_def range_set_def)
  show ?case
  proof (cases "c < rg_first r")
    case True
    then show ?thesis using beyond [of c] later(2) by (auto simp: range_set_def)
  next
    case False
    then have c: "rg_first r = c" using Cons.prems by auto
    then have step: "contiguous_end (r # rs) c = contiguous_end rs (rg_end r)" using later(2) by simp
    have IH: "rg_end r \<le> contiguous_end rs (rg_end r)"
      "{rg_end r ..< contiguous_end rs (rg_end r)} \<subseteq> covered rs" "contiguous_end rs (rg_end r) \<notin> covered rs"
      using Cons.IH [OF later(3), of "rg_end r"] later(1) by (auto simp: less_imp_le)
    have "{c ..< contiguous_end rs (rg_end r)} =
        {c ..< rg_end r} \<union> {rg_end r ..< contiguous_end rs (rg_end r)}"
      using c later(2) IH(1) by (auto simp: not_less)
    then show ?thesis using step IH c later(2) by (auto simp: range_set_def)
  qed
qed simp

lemma contiguous_end_correct:
  assumes "ranges_ok rs"
  shows "{0 ..< contiguous_end rs 0} \<subseteq> covered rs" "contiguous_end rs 0 \<notin> covered rs"
  using contiguous_end_aux [OF assms, of 0] by simp_all

lemma covered_below_last:
  assumes "ranges_ok rs" "rs \<noteq> []" "x \<in> covered rs"
  shows "x < rg_end (last rs)"
proof -
  from assms(3) obtain r where r: "r \<in> set rs" "x < rg_end r" by (auto simp: covered_def range_set_def)
  have "rg_end r \<le> rg_end (last rs)"
  proof (cases rs rule: rev_cases)
    case (snoc ys y)
    then show ?thesis using assms(1) r(1)
      by (fastforce simp: ranges_ok_append ranges_ok_Cons dest: order.strict_trans)
  qed (use assms in simp)
  then show ?thesis using r(2) by simp
qed

section \<open>The interface of a coverage table\<close>

locale coverage_table =
  fixes inv :: "'t \<Rightarrow> bool"
    and frames :: "'t \<Rightarrow> u64 set"
    and prefix :: "'t \<Rightarrow> u64 \<Rightarrow> u32 \<Rightarrow> u32 \<times> bool"
    and add :: "'t \<Rightarrow> u64 \<Rightarrow> u64 \<Rightarrow> 't"
  assumes prefix: "inv t \<Longrightarrow> unat f + unat k < 18446744073709551616 \<Longrightarrow> k \<noteq> 0 \<Longrightarrow>
      prefix_spec (frames t) f k (prefix t f k)"
    and add_inv: "inv t \<Longrightarrow> f < e \<Longrightarrow> {f ..< e} \<inter> frames t = {} \<Longrightarrow> inv (add t f e)"
    and add_frames: "inv t \<Longrightarrow> f < e \<Longrightarrow> {f ..< e} \<inter> frames t = {} \<Longrightarrow>
      frames (add t f e) = frames t \<union> {f ..< e}"
begin

text \<open>Any part of the free prefix can be added.\<close>

lemma add_prefix:
  assumes "inv t" "unat f + unat k < 18446744073709551616" "k \<noteq> 0"
    and "prefix t f k = (n, conflict)" "m \<noteq> 0" "m \<le> n"
  shows "inv (add t f (f + ucast m))" "frames (add t f (f + ucast m)) = frames t \<union> {f ..< f + ucast m}"
    "{f ..< f + ucast m} \<inter> frames t = {}" "f \<notin> frames t" "f < f + ucast m"
proof -
  have p: "n \<le> k" "{f ..< f + ucast n} \<inter> frames t = {}" "conflict \<longleftrightarrow> f \<in> frames t" "conflict \<longrightarrow> n = 0"
    using prefix [OF assms(1-3)] assms(4) by (auto simp: prefix_spec_def)
  have le: "unat m \<le> unat n" "unat n \<le> unat k" "0 < unat m"
    using assms(5,6) p(1) by (simp_all add: word_le_nat_alt unat_gt_0)
  then have u: "unat (f + ucast m) = unat f + unat m" "unat (f + ucast n) = unat f + unat n"
    using assms(2) by (simp_all add: unat_plus_u64)
  then show lt: "f < f + ucast m" using le by (simp add: word_less_nat_alt)
  have "f + ucast m \<le> f + ucast n" using u le by (simp add: word_le_nat_alt)
  then show dis: "{f ..< f + ucast m} \<inter> frames t = {}" using p(2) by fastforce
  show "f \<notin> frames t" using p(3,4) le by auto
  show "inv (add t f (f + ucast m))" "frames (add t f (f + ucast m)) = frames t \<union> {f ..< f + ucast m}"
    using add_inv [OF assms(1) lt dis] add_frames [OF assms(1) lt dis] by simp_all
qed

end

interpretation accepted: coverage_table ranges_ok covered apta_nonoverlapping_prefix insert_range
  by unfold_locales (simp_all add: prefix_correct insert_range_correct)

section \<open>Growth of the table\<close>

definition capacity_ok :: "u32 \<Rightarrow> bool" where
  "capacity_ok c \<longleftrightarrow> c = 0 \<or> (\<exists>k. unat c = 8 * 2 ^ k)"

lemma capacity_bound: "capacity_ok c \<Longrightarrow> unat c \<le> 2147483648"
proof -
  assume "capacity_ok c"
  then consider "c = 0" | k where "unat c = 8 * 2 ^ k" by (auto simp: capacity_ok_def)
  then show ?thesis
  proof cases
    case 2
    have "k \<le> 28"
    proof (rule ccontr)
      assume "\<not> k \<le> 28"
      then have "(2::nat) ^ 29 \<le> 2 ^ k" by (intro power_increasing) auto
      then show False using 2 unat_u32_bound [of c] by simp
    qed
    then have "(2::nat) ^ k \<le> 2 ^ 28" by (intro power_increasing) auto
    then show ?thesis using 2 by simp
  qed simp
qed

lemma double_capacity_Some:
  assumes "double_capacity needed c = Some c'" "unat c = 8 * 2 ^ k"
  shows "needed \<le> c' \<and> capacity_ok c'"
  using assms
proof (induction needed c arbitrary: k rule: double_capacity.induct)
  case (1 needed c)
  show ?case
  proof (cases "c < needed")
    case True
    then have r: "\<not> UINT32_MAX div 2 < c" "double_capacity needed (c * 2) = Some c'" "c \<noteq> 0"
      using 1(2) by (subst (asm) double_capacity.simps, simp split: if_splits)+
    then have "unat (c * 2) = 8 * 2 ^ Suc k"
      using 1(3) by (simp add: unat_word_ariths not_less word_le_nat_alt UINT32_MAX_def)
    then show ?thesis using 1(1) [OF r(3) True r(1,2)] by blast
  next
    case False
    then have "c' = c" using 1(2) by (subst (asm) double_capacity.simps) (simp split: if_splits)
    then show ?thesis using False 1(3) by (auto simp: capacity_ok_def not_less)
  qed
qed

text \<open>Growing the table changes its memory and its capacity only.\<close>

definition regrown :: "intake \<Rightarrow> u32 \<Rightarrow> intake \<Rightarrow> bool" where
  "regrown st c st' \<longleftrightarrow>
     st' = st\<lparr>in_memory := in_memory st', in_ranges_memory := in_ranges_memory st', in_range_capacity := c\<rparr>"

lemma regrown_refl: "regrown st (in_range_capacity st) st"
  "regrown st (in_range_capacity st) (st\<lparr>in_memory := sm\<rparr>)"
  by (simp_all add: regrown_def)

lemma ensure_range_capacity_cases:
  assumes "apta_ensure_range_capacity host sizes st needed = (s, st')" "capacity_ok (in_range_capacity st)"
  obtains (ok) c where "regrown st c st'" "capacity_ok c" "needed \<le> c" "in_range_capacity st \<le> c" "s = STATUS_OK"
  | (error) "regrown st (in_range_capacity st) st'" "s = ERROR_LIMIT_EXCEEDED \<or> s = ERROR_OUT_OF_MEMORY"
proof (cases "needed \<le> in_range_capacity st")
  case True
  then show ?thesis using assms ok [of "in_range_capacity st"] regrown_refl
    by (auto simp: apta_ensure_range_capacity_def)
next
  case False
  note def = assms(1) [unfolded apta_ensure_range_capacity_def]
  let ?c0 = "if in_range_capacity st = 0 then 8 else in_range_capacity st"
  obtain k where k: "unat ?c0 = 8 * 2 ^ k"
  proof (cases "in_range_capacity st = 0")
    case True
    then show ?thesis using that [of 0] by simp
  qed (use assms(2) that in \<open>auto simp: capacity_ok_def\<close>)
  show ?thesis
  proof (cases "double_capacity needed ?c0")
    case None
    then show ?thesis using def False error regrown_refl(1) [of st] by simp
  next
    case (Some c)
    have c: "needed \<le> c" "capacity_ok c" "in_range_capacity st \<le> c"
      using double_capacity_Some [OF Some k] False by auto
    obtain q sm where q: "apta_internal_session_allocate host (in_memory st)
        (ucast c * sizeof_range sizes) 8 = (q, sm)" by fastforce
    show ?thesis
    proof (cases "apta_internal_size_array_fits 0 (ucast c) (sizeof_range sizes)")
      case True
      show ?thesis
      proof (cases q)
        case None
        then show ?thesis using def False Some True q error regrown_refl(2) [of st sm] by simp
      next
        case (Some p)
        then have "s = STATUS_OK \<and> st' = st\<lparr>in_memory :=
            apta_internal_session_deallocate sm (in_ranges_memory st),
            in_ranges_memory := Some p, in_range_capacity := c\<rparr>"
          using def False \<open>double_capacity needed ?c0 = Some c\<close> True q by simp
        then show ?thesis using ok [OF _ c(2,1,3)] by (simp add: regrown_def)
      qed
    next
      case no: False
      then show ?thesis using def False Some error regrown_refl(1) [of st] by simp
    qed
  qed
qed

lemma allocate_node_cases:
  assumes "allocate_node host sizes sm n = (r, sm')"
  shows "(\<exists>p m. r = Ret (Some (p, m)) \<and> m \<noteq> 0 \<and> m \<le> n) \<or> r = Ret None \<or> r = Fail ERROR_LIMIT_EXCEEDED"
  using assms
proof (induction host sizes sm n rule: allocate_node.induct)
  case (1 host sizes sm n)
  show ?case
  proof (cases "n = 0 \<or> \<not> apta_internal_size_array_fits (sizeof_pcm_node sizes) (ucast n) sizeof_float")
    case True
    then show ?thesis using 1(2) by (subst (asm) allocate_node.simps) (auto split: if_splits)
  next
    case False
    obtain q sm2 where q: "apta_internal_session_allocate host sm
        (sizeof_pcm_node sizes + ucast n * sizeof_float) 8 = (q, sm2)" by fastforce
    show ?thesis
    proof (cases q)
      case None
      have "allocate_node host sizes sm2 (n div 2) = (r, sm')"
        using 1(2) False q None by (subst (asm) allocate_node.simps) simp
      then have "(\<exists>p m. r = Ret (Some (p, m)) \<and> m \<noteq> 0 \<and> m \<le> n div 2) \<or> r = Ret None \<or>
          r = Fail ERROR_LIMIT_EXCEEDED"
        using 1(1) [of q sm2] False q None by auto
      moreover have "n div 2 \<le> n" by (simp add: word_le_nat_alt unat_div)
      ultimately show ?thesis using order_trans by blast
    next
      case (Some p)
      then show ?thesis using 1(2) False q by (subst (asm) allocate_node.simps) auto
    qed
  qed
qed


section \<open>The invariant of the intake\<close>

definition node_frames :: "pcm_node \<Rightarrow> u64 set" where
  "node_frames n = {pn_first_frame n ..< pn_first_frame n + ucast (pn_frame_count n)}"

text \<open>A queued node has frames left, and its frames do not wrap.\<close>

definition node_ok :: "pcm_node \<Rightarrow> bool" where
  "node_ok n \<longleftrightarrow> pn_first_frame n < pn_first_frame n + ucast (pn_frame_count n) \<and>
     pn_processed_frames n < pn_frame_count n"

definition intake_ok :: "intake \<Rightarrow> bool" where
  "intake_ok st \<longleftrightarrow> ranges_ok (in_ranges st) \<and> capacity_ok (in_range_capacity st) \<and>
     length (in_ranges st) \<le> unat (in_range_capacity st) \<and> apta_refresh_accepted_ends st = st \<and>
     sorted_wrt (\<lambda>m n. node_frames m \<inter> node_frames n = {}) (in_queue st) \<and>
     (\<forall>n\<in>set (in_queue st). node_frames n \<subseteq> covered (in_ranges st)) \<and>
     (\<forall>n\<in>set (in_queue st). node_ok n) \<and>
     in_queued_frames st = sum_list (map (ucast \<circ> pn_frame_count) (in_queue st))"

lemma refresh_fields [simp]:
  "in_ranges (apta_refresh_accepted_ends st) = in_ranges st"
  "in_range_capacity (apta_refresh_accepted_ends st) = in_range_capacity st"
  "in_queue (apta_refresh_accepted_ends st) = in_queue st"
  "in_queued_frames (apta_refresh_accepted_ends st) = in_queued_frames st"
  "in_memory (apta_refresh_accepted_ends st) = in_memory st"
  "apta_refresh_accepted_ends (apta_refresh_accepted_ends st) = apta_refresh_accepted_ends st"
  "apta_refresh_accepted_ends (st\<lparr>in_queue := q\<rparr>) = (apta_refresh_accepted_ends st)\<lparr>in_queue := q\<rparr>"
  "apta_refresh_accepted_ends (st\<lparr>in_queued_frames := k\<rparr>) = (apta_refresh_accepted_ends st)\<lparr>in_queued_frames := k\<rparr>"
  "apta_refresh_accepted_ends (st\<lparr>in_memory := sm\<rparr>) = (apta_refresh_accepted_ends st)\<lparr>in_memory := sm\<rparr>"
  "apta_refresh_accepted_ends (st\<lparr>in_ranges_memory := p\<rparr>) = (apta_refresh_accepted_ends st)\<lparr>in_ranges_memory := p\<rparr>"
  "apta_refresh_accepted_ends (st\<lparr>in_range_capacity := c\<rparr>) = (apta_refresh_accepted_ends st)\<lparr>in_range_capacity := c\<rparr>"
  by (simp_all add: apta_refresh_accepted_ends_def)

lemma regrown_ok:
  assumes "intake_ok st" "regrown st c st'" "capacity_ok c" "in_range_capacity st \<le> c"
  shows "intake_ok st'" "in_ranges st' = in_ranges st" "in_queue st' = in_queue st" "in_range_capacity st' = c"
proof -
  obtain sm p where st': "st' = st\<lparr>in_memory := sm, in_ranges_memory := p, in_range_capacity := c\<rparr>"
    using assms(2) unfolding regrown_def by blast
  have "length (in_ranges st) \<le> unat c" using assms(1,4) by (simp add: intake_ok_def word_le_nat_alt)
  then show "intake_ok st'" using assms(1,3) by (simp add: intake_ok_def st')
  show "in_ranges st' = in_ranges st" "in_queue st' = in_queue st" "in_range_capacity st' = c"
    by (simp_all add: st')
qed

lemma intake_ok_memory: "intake_ok st \<Longrightarrow> intake_ok (st\<lparr>in_memory := sm\<rparr>)"
  by (simp add: intake_ok_def)

text \<open>The outcome of one accepted block, as a relation on what the intake covers and queues.\<close>

definition accept_spec :: "intake \<Rightarrow> u64 \<Rightarrow> u32 \<Rightarrow> apta_status \<times> u32 \<times> intake \<Rightarrow> bool" where
  "accept_spec st f k r \<longleftrightarrow> (case r of (s, n, st') \<Rightarrow>
     intake_ok st' \<and> n \<le> k \<and> {f ..< f + ucast n} \<inter> covered (in_ranges st) = {} \<and>
     covered (in_ranges st') = covered (in_ranges st) \<union> {f ..< f + ucast n} \<and>
     (s = ERROR_CONFLICT \<longleftrightarrow> f \<in> covered (in_ranges st)) \<and>
     (if n = 0 then s \<in> {ERROR_CONFLICT, STATUS_WOULD_BLOCK, ERROR_LIMIT_EXCEEDED} \<and> in_queue st' = in_queue st
      else s = (if n = k then STATUS_OK else STATUS_MORE_WORK) \<and>
        (\<exists>p. in_queue st' = in_queue st @ [\<lparr>pn_address = p, pn_first_frame = f, pn_frame_count = n,
           pn_processed_frames = 0\<rparr>])))"

lemma accept_rejected:
  "intake_ok st' \<Longrightarrow> in_ranges st' = in_ranges st \<Longrightarrow> in_queue st' = in_queue st \<Longrightarrow>
   (s = ERROR_CONFLICT \<longleftrightarrow> f \<in> covered (in_ranges st)) \<Longrightarrow>
   s \<in> {ERROR_CONFLICT, STATUS_WOULD_BLOCK, ERROR_LIMIT_EXCEEDED} \<Longrightarrow> accept_spec st f k (s, 0, st')"
  by (simp add: accept_spec_def)

lemma enqueue_ok:
  assumes ok: "intake_ok st" and room: "length (in_ranges st) < unat (in_range_capacity st)"
    and ins: "ranges_ok (insert_range (in_ranges st) f (f + ucast n))"
      "covered (insert_range (in_ranges st) f (f + ucast n)) = covered (in_ranges st) \<union> {f ..< f + ucast n}"
      "{f ..< f + ucast n} \<inter> covered (in_ranges st) = {}" "f < f + ucast n"
  defines "st2 \<equiv> apta_refresh_accepted_ends (st\<lparr>in_ranges := insert_range (in_ranges st) f (f + ucast n)\<rparr>)"
  shows "intake_ok (st2\<lparr>in_queue := in_queue st2 @ [\<lparr>pn_address = p, pn_first_frame = f, pn_frame_count = n,
           pn_processed_frames = 0\<rparr>], in_queued_frames := in_queued_frames st2 + ucast n\<rparr>)"
proof -
  let ?node = "\<lparr>pn_address = p, pn_first_frame = f, pn_frame_count = n, pn_processed_frames = 0\<rparr>"
  have old: "\<forall>m\<in>set (in_queue st). node_frames m \<subseteq> covered (in_ranges st)"
    "sorted_wrt (\<lambda>m n. node_frames m \<inter> node_frames n = {}) (in_queue st)"
    using ok by (simp_all add: intake_ok_def)
  have new: "node_frames ?node = {f ..< f + ucast n}" by (simp add: node_frames_def)
  have "n \<noteq> 0" using ins(4) by auto
  then have "node_ok ?node" using ins(4) by (simp add: node_ok_def word_neq_0_conv)
  then have nodes: "\<forall>m\<in>set (in_queue st @ [?node]). node_ok m" using ok by (simp add: intake_ok_def)
  have "node_frames m \<inter> node_frames ?node = {}" if "m \<in> set (in_queue st)" for m
    using old(1) that ins(3) new by blast
  then have "sorted_wrt (\<lambda>m n. node_frames m \<inter> node_frames n = {}) (in_queue st @ [?node])"
    using old(2) by (simp add: sorted_wrt_append)
  moreover have "\<forall>m\<in>set (in_queue st @ [?node]). node_frames m \<subseteq> covered (in_ranges st2)"
    using old(1) ins(2) new by (auto simp: st2_def)
  moreover have "length (in_ranges st2) \<le> unat (in_range_capacity st2)"
    using insert_range_correct(3) [OF _ ins(4,3)] ok room by (simp add: st2_def intake_ok_def)
  ultimately show ?thesis
    using ok ins(1) nodes by (simp add: intake_ok_def st2_def)
qed


lemma accept_pcm_refines:
  assumes ok: "intake_ok st" and k: "k \<noteq> 0" "unat f + unat k < 18446744073709551616"
  shows "\<exists>r. apta_internal_waveform_accept_pcm_base host sizes st f k = Ret r \<and> accept_spec st f k r"
proof -
  let ?c = "apta_min_u32 k (ucast MAX_PUSH_FRAMES)"
  have c: "?c \<noteq> 0" "?c \<le> k" "unat f + unat ?c < 18446744073709551616"
    using k by (auto simp: apta_min_u32_def MAX_PUSH_FRAMES_def word_less_nat_alt not_less word_le_nat_alt)
  obtain n conflict where pre: "apta_nonoverlapping_prefix (in_ranges st) f ?c = (n, conflict)" by fastforce
  have rs: "ranges_ok (in_ranges st)" using ok by (simp add: intake_ok_def)
  have p: "n \<le> ?c" "conflict \<longleftrightarrow> f \<in> covered (in_ranges st)" "conflict \<longrightarrow> n = 0"
    "n < ?c \<and> \<not> conflict \<longrightarrow> f + ucast n \<in> covered (in_ranges st)"
    using prefix_correct [OF rs c(3,1)] pre by (auto simp: prefix_spec_def)
  obtain s st1 where ens: "apta_ensure_range_capacity host sizes st (of_nat (length (in_ranges st)) + 1) = (s, st1)"
    by fastforce
  obtain r sm where al: "allocate_node host sizes (in_memory st1) n = (r, sm)" by fastforce
  note def = apta_internal_waveform_accept_pcm_base_def [of host sizes st f k] Let_def pre ens al
  show ?thesis
  proof (cases "n = 0")
    case True
    then have "conflict" using p(2,4) c(1) by (auto simp: word_neq_0_conv)
    then show ?thesis using True p(2) accept_rejected [OF ok refl refl, of ERROR_CONFLICT f k] by (simp add: def)
  next
    case False
    then have nf: "f \<notin> covered (in_ranges st)" using p(2,3) by blast
    have cap: "capacity_ok (in_range_capacity st)" "length (in_ranges st) \<le> 2147483648"
      using ok capacity_bound [of "in_range_capacity st"] by (simp_all add: intake_ok_def)
    from ens cap(1) show ?thesis
    proof (cases rule: ensure_range_capacity_cases)
      case error
      then show ?thesis
        using False regrown_ok [OF ok error(1) cap(1) order_refl] nf
          accept_rejected [of st1 st _ f k] by (auto simp: def)
    next
      case (ok c')
      note g = regrown_ok [OF assms(1) ok(1,2,4)]
      have room: "length (in_ranges st) < unat c'"
        using ok(3) cap(2) by (simp add: word_le_nat_alt unat_word_ariths unat_of_nat)
      consider (node) q m where "r = Ret (Some (q, m))" "m \<noteq> 0" "m \<le> n" | (none) "r = Ret None"
        | (limit) "r = Fail ERROR_LIMIT_EXCEEDED" using allocate_node_cases [OF al] by blast
      then show ?thesis
      proof cases
        case node
        note a = accepted.add_prefix [OF rs c(3,1) pre node(2,3)]
        let ?st = "st1\<lparr>in_memory := sm\<rparr>"
        have "intake_ok ?st" using intake_ok_memory g(1) by blast
        note e = enqueue_ok [OF this, of f m q]
        have "m \<le> k" using node(3) p(1) c(2) by simp
        then show ?thesis
          using False ok(5) node a e g room nf
          by (simp add: def apta_insert_accepted_range_def accept_spec_def)
      next
        case none
        then show ?thesis using False ok(5) g nf intake_ok_memory
            accept_rejected [of "st1\<lparr>in_memory := sm\<rparr>" st STATUS_WOULD_BLOCK f k] by (simp add: def)
      next
        case limit
        then show ?thesis using False ok(5) g nf intake_ok_memory
            accept_rejected [of "st1\<lparr>in_memory := sm\<rparr>" st ERROR_LIMIT_EXCEEDED f k] by (simp add: def)
      qed
    qed
  qed
qed

section \<open>Properties\<close>

text \<open>
  C6: on a well-formed intake and a block whose frames do not wrap, accepting the block writes
  inside the table, keeps the intake well-formed, and accepts the first frames of the block that
  were not covered before: coverage and the queue grow by exactly these, the status tells
  whether the whole block was taken, and a conflict is reported exactly when the first frame
  was covered already.
\<close>
theorem accept_pcm_exact:
  assumes "intake_ok st" "k \<noteq> 0" "unat f + unat k < 18446744073709551616"
  shows "\<exists>r. apta_internal_waveform_accept_pcm_base host sizes st f k = Ret r \<and> accept_spec st f k r"
  by (rule accept_pcm_refines [OF assms])

definition empty_intake :: "session_memory \<Rightarrow> intake" where
  "empty_intake sm = \<lparr>in_memory = sm, in_ranges = [], in_ranges_memory = None, in_range_capacity = 0,
     in_greatest_accepted_end = 0, in_maximum_accepted_end = 0, in_queue = [], in_queued_frames = 0\<rparr>"

lemma empty_intake_ok: "intake_ok (empty_intake sm)"
  by (simp add: intake_ok_def empty_intake_def capacity_ok_def apta_refresh_accepted_ends_def)

definition demo_intake :: intake where
  "demo_intake = empty_intake \<lparr>sm_context = demo_context\<lparr>memory_limit_bytes := 0\<rparr>, sm_workspace = None\<rparr>"

theorem accept_pcm_exact_witness:
  "\<exists>r. apta_internal_waveform_accept_pcm_base demo_host demo_sizes demo_intake 1000 300 = Ret r \<and>
     accept_spec demo_intake 1000 300 r"
  by (rule accept_pcm_exact) (simp_all add: demo_intake_def empty_intake_ok)

text \<open>A sequence of pushed blocks; the outcome collects the accepted counts.\<close>

fun accept_all :: "host_allocator \<Rightarrow> struct_sizes \<Rightarrow> (u64 \<times> u32) list \<Rightarrow> intake \<Rightarrow> (u32 list \<times> intake) outcome" where
  "accept_all host sizes [] st = Ret ([], st)"
| "accept_all host sizes ((f, k) # bs) st =
     obind (apta_internal_waveform_accept_pcm_base host sizes st f k) (\<lambda>(s, n, st1).
     obind (accept_all host sizes bs st1) (\<lambda>(ns, st2). Ret (n # ns, st2)))"

definition block_valid :: "u64 \<times> u32 \<Rightarrow> bool" where
  "block_valid b \<longleftrightarrow> snd b \<noteq> 0 \<and> unat (fst b) + unat (snd b) < 18446744073709551616"

definition queued :: "intake \<Rightarrow> u64 set" where
  "queued st = (\<Union>n\<in>set (in_queue st). node_frames n)"

lemma accept_spec_queued:
  "accept_spec st f k (s, n, st') \<Longrightarrow> queued st' = queued st \<union> {f ..< f + ucast n}"
  by (auto simp: accept_spec_def queued_def node_frames_def split: if_splits)

lemma accept_all_correct:
  assumes "intake_ok st" "list_all block_valid bs" "covered (in_ranges st) = queued st"
  shows "\<exists>ns st'. accept_all host sizes bs st = Ret (ns, st') \<and> intake_ok st' \<and>
    covered (in_ranges st') = queued st' \<and> list_all2 (\<lambda>n b. n \<le> snd b) ns bs \<and>
    covered (in_ranges st') = covered (in_ranges st) \<union>
      (\<Union>(n, b)\<in>set (zip ns bs). {fst b ..< fst b + ucast n})"
  using assms
proof (induction bs arbitrary: st)
  case (Cons b bs)
  obtain f k where b: "b = (f, k)" by fastforce
  then have v: "k \<noteq> 0" "unat f + unat k < 18446744073709551616"
    using Cons.prems by (simp_all add: block_valid_def)
  obtain s n st1 where a: "apta_internal_waveform_accept_pcm_base host sizes st f k = Ret (s, n, st1)"
    and sp: "accept_spec st f k (s, n, st1)"
    using accept_pcm_refines [OF Cons.prems(1) v, of host sizes] by auto
  have st1: "intake_ok st1" "covered (in_ranges st1) = covered (in_ranges st) \<union> {f ..< f + ucast n}" "n \<le> k"
    using sp by (simp_all add: accept_spec_def)
  then have "covered (in_ranges st1) = queued st1"
    using accept_spec_queued [OF sp] Cons.prems(3) by simp
  from Cons.IH [OF st1(1) _ this] Cons.prems(2) obtain ns st' where
    "accept_all host sizes bs st1 = Ret (ns, st')" "intake_ok st'" "covered (in_ranges st') = queued st'"
    "list_all2 (\<lambda>n b. n \<le> snd b) ns bs" "covered (in_ranges st') = covered (in_ranges st1) \<union>
      (\<Union>(n, b)\<in>set (zip ns bs). {fst b ..< fst b + ucast n})" by auto
  then show ?case using a b st1
    by (intro exI [of _ "n # ns"] exI [of _ st']) auto
qed simp

text \<open>
  Whatever blocks a host pushes into a fresh session, in any order, overlapping or repeated,
  every accepted frame is queued exactly once: the nodes of the queue are pairwise disjoint,
  together they are the covered set, which is the union of the accepted prefixes; and the
  two progress marks are exact: the contiguous end is the first frame that is not covered, and no
  covered frame lies at or beyond the maximum end.
\<close>
theorem frames_accepted_once:
  assumes "list_all block_valid bs"
  shows "\<exists>ns st. accept_all host sizes bs (empty_intake sm) = Ret (ns, st) \<and>
    sorted_wrt (\<lambda>m n. node_frames m \<inter> node_frames n = {}) (in_queue st) \<and>
    queued st = covered (in_ranges st) \<and>
    covered (in_ranges st) = (\<Union>(n, b)\<in>set (zip ns bs). {fst b ..< fst b + ucast n}) \<and>
    {0 ..< in_greatest_accepted_end st} \<subseteq> covered (in_ranges st) \<and>
    in_greatest_accepted_end st \<notin> covered (in_ranges st) \<and>
    covered (in_ranges st) \<subseteq> {0 ..< in_maximum_accepted_end st}"
proof -
  have "covered (in_ranges (empty_intake sm)) = queued (empty_intake sm)"
    by (simp add: empty_intake_def queued_def)
  from accept_all_correct [OF empty_intake_ok assms this, of host sizes] obtain ns st where
    st: "accept_all host sizes bs (empty_intake sm) = Ret (ns, st)" "intake_ok st"
      "covered (in_ranges st) = queued st"
      "covered (in_ranges st) = (\<Union>(n, b)\<in>set (zip ns bs). {fst b ..< fst b + ucast n})"
    by (auto simp: empty_intake_def)
  have ok: "ranges_ok (in_ranges st)" "apta_refresh_accepted_ends st = st"
    "sorted_wrt (\<lambda>m n. node_frames m \<inter> node_frames n = {}) (in_queue st)"
    using st(2) by (simp_all add: intake_ok_def)
  have "in_greatest_accepted_end st = contiguous_end (in_ranges st) 0"
    "in_maximum_accepted_end st = (if in_ranges st = [] then 0 else rg_end (last (in_ranges st)))"
    by (subst ok(2) [symmetric], simp add: apta_refresh_accepted_ends_def last_conv_nth)+
  moreover have "covered (in_ranges st) \<subseteq> {0 ..< rg_end (last (in_ranges st))}" if "in_ranges st \<noteq> []"
    using covered_below_last [OF ok(1) that] by auto
  ultimately show ?thesis
    using st ok(3) contiguous_end_correct [OF ok(1)] by (intro exI [of _ ns] exI [of _ st]) auto
qed

theorem frames_accepted_once_witness:
  "\<exists>ns st. accept_all demo_host demo_sizes [(0, 100), (300, 50), (80, 400)]
       (empty_intake (in_memory demo_intake)) = Ret (ns, st) \<and>
     queued st = covered (in_ranges st)"
  using frames_accepted_once [of "[(0, 100), (300, 50), (80, 400)]" demo_host demo_sizes
      "in_memory demo_intake"] by (auto simp: block_valid_def)

end
