(* ===== verification/Apta_Pool_Layout.thy ===== *)
theory Apta_Pool_Layout
  imports Apta_Config "HOL-Library.Monad_Syntax"
begin

text \<open>
  The memory layout of the bounded result pool (\<^verbatim>\<open>src/core/apta_result_pool_layout.c\<close>): one control
  structure, then two slots, each holding a result structure and the arrays a snapshot needs.  The
  size arithmetic is checked; a sum or product that does not fit is the error branch.  Shown: in
  every calculated layout the regions of a slot follow each other without overlap, aligned and
  inside the slot, and the slots follow the control structure without overlap, aligned and inside
  the allocation.
\<close>

definition RESULT_SLOT_COUNT :: u32 where [apta_consts]: "RESULT_SLOT_COUNT = 2"

text \<open>The alignments of the structures, as the build lays them out.\<close>

record struct_alignments =
  alignof_result :: usize
  alignof_span :: usize
  alignof_column :: usize
  alignof_tile_view :: usize
  alignof_tempo_candidate :: usize
  alignof_frame_range :: usize
  alignof_grid_segment :: usize
  alignof_s6_result_state :: usize
  alignof_beat :: usize

record pool_layout =
  ly_total_bytes :: usize
  ly_slot_bytes :: usize
  ly_slot_offsets :: "usize list"
  ly_result_offset :: usize
  ly_overview_spans_offset :: usize
  ly_overview_columns_offset :: usize
  ly_detail_tiles_offset :: usize
  ly_detail_columns_offset :: usize
  ly_tempo_candidates_offset :: usize
  ly_local_grid_coverage_offset :: usize
  ly_local_grid_segments_offset :: usize
  ly_global_grid_state_offset :: usize
  ly_global_grid_coverage_offset :: usize
  ly_global_grid_segments_offset :: usize
  ly_global_grid_beats_offset :: usize
  ly_metadata_offset :: usize
  ly_overview_span_capacity :: u32
  ly_overview_column_capacity :: u32
  ly_detail_tile_capacity :: u32
  ly_detail_column_capacity :: u32
  ly_tempo_candidate_capacity :: u32
  ly_local_grid_coverage_capacity :: u32
  ly_local_grid_segment_capacity :: u32
  ly_global_grid_coverage_capacity :: u32
  ly_global_grid_segment_capacity :: u32
  ly_global_grid_beat_capacity :: u32
  ly_metadata_capacity :: u32
  ly_slot_count :: u32

section \<open>Checked size arithmetic\<close>

definition apta_pool_add_size :: "usize \<Rightarrow> usize \<Rightarrow> usize option" where
  "apta_pool_add_size left right = (if SIZE_MAX - right < left then None else Some (left + right))"

definition apta_pool_multiply_size :: "usize \<Rightarrow> usize \<Rightarrow> usize option" where
  "apta_pool_multiply_size cnt element_size =
     (if element_size \<noteq> 0 \<and> SIZE_MAX div element_size < cnt then None else Some (cnt * element_size))"

definition apta_pool_align_size :: "usize \<Rightarrow> usize \<Rightarrow> usize option" where
  "apta_pool_align_size v alignment =
     (if \<not> apta_internal_is_power_of_two alignment then None
      else
        let msk = alignment - 1
        in if SIZE_MAX - msk < v then None else Some ((v + msk) AND NOT msk))"

text \<open>The offset of the region, and the offset behind it.\<close>

definition apta_pool_append_region :: "usize \<Rightarrow> usize \<Rightarrow> usize \<Rightarrow> usize \<Rightarrow> (usize \<times> usize) option" where
  "apta_pool_append_region offset alignment cnt element_size =
     do {
       aligned \<leftarrow> apta_pool_align_size offset alignment;
       nbytes \<leftarrow> apta_pool_multiply_size cnt element_size;
       fin \<leftarrow> apta_pool_add_size aligned nbytes;
       Some (aligned, fin)
     }"

section \<open>The layout\<close>

text \<open>The loop that places the slots.\<close>

fun slot_offsets :: "usize \<Rightarrow> usize \<Rightarrow> u32 list \<Rightarrow> usize list option" where
  "slot_offsets pool_offset slot_bytes [] = Some []"
| "slot_offsets pool_offset slot_bytes (i # is) =
     do {
       relative \<leftarrow> apta_pool_multiply_size (ucast i) slot_bytes;
       offset \<leftarrow> apta_pool_add_size pool_offset relative;
       rest \<leftarrow> slot_offsets pool_offset slot_bytes is;
       Some (offset # rest)
     }"

definition feature_count :: "session_config \<Rightarrow> u64 \<Rightarrow> u32 \<Rightarrow> u32" where
  "feature_count config feature n = (if sc_requested_features config AND feature \<noteq> 0 then n else 0)"

text \<open>The regions of a slot in the order of the code, then the slots.\<close>

definition place_regions :: "struct_sizes \<Rightarrow> struct_alignments \<Rightarrow> u32 \<Rightarrow> u32 \<Rightarrow> u32 \<Rightarrow> u32 \<Rightarrow> u32 \<Rightarrow> u32 \<Rightarrow>
    u32 \<Rightarrow> u32 \<Rightarrow> u32 \<Rightarrow> u32 \<Rightarrow> pool_layout option" where
  "place_regions sizes al cols detail_tiles detail_columns tempo_candidates local_grid_coverage local_grid_segments global_grid_state
     global_grid_coverage global_grid_segments global_grid_beats =
     do {
       (r1, o1) \<leftarrow> apta_pool_append_region 0 (alignof_result al) 1 (sizeof_result sizes);
       (r2, o2) \<leftarrow> apta_pool_append_region o1 (alignof_span al) (ucast cols) (sizeof_span sizes);
       (r3, o3) \<leftarrow> apta_pool_append_region o2 (alignof_column al) (ucast cols) (sizeof_column sizes);
       (r4, o4) \<leftarrow> apta_pool_append_region o3 (alignof_tile_view al) (ucast detail_tiles)
                     (sizeof_tile_view sizes);
       (r5, o5) \<leftarrow> apta_pool_append_region o4 (alignof_column al) (ucast detail_columns)
                     (sizeof_column sizes);
       (r6, o6) \<leftarrow> apta_pool_append_region o5 (alignof_tempo_candidate al) (ucast tempo_candidates)
                     (sizeof_tempo_candidate sizes);
       (r7, o7) \<leftarrow> apta_pool_append_region o6 (alignof_frame_range al) (ucast local_grid_coverage)
                     (sizeof_frame_range sizes);
       (r8, o8) \<leftarrow> apta_pool_append_region o7 (alignof_grid_segment al) (ucast local_grid_segments)
                     (sizeof_grid_segment sizes);
       (r9, o9) \<leftarrow> apta_pool_append_region o8 (alignof_s6_result_state al) (ucast global_grid_state)
                     (sizeof_s6_result_state sizes);
       (r10, o10) \<leftarrow> apta_pool_append_region o9 (alignof_frame_range al) (ucast global_grid_coverage)
                     (sizeof_frame_range sizes);
       (r11, o11) \<leftarrow> apta_pool_append_region o10 (alignof_grid_segment al) (ucast global_grid_segments)
                     (sizeof_grid_segment sizes);
       (r12, o12) \<leftarrow> apta_pool_append_region o11 (alignof_beat al) (ucast global_grid_beats)
                     (sizeof_beat sizes);
       (r13, o13) \<leftarrow> apta_pool_append_region o12 1 (ucast METADATA_MAX_TOTAL_BYTES) 1;
       slot_bytes \<leftarrow> apta_pool_align_size o13 MAX_ALIGNMENT;
       pool_offset \<leftarrow> apta_pool_align_size (sizeof_result_pool_control sizes) MAX_ALIGNMENT;
       slots_bytes \<leftarrow> apta_pool_multiply_size (ucast RESULT_SLOT_COUNT) slot_bytes;
       total_bytes \<leftarrow> apta_pool_add_size pool_offset slots_bytes;
       offsets \<leftarrow> slot_offsets pool_offset slot_bytes [0, 1];
       Some \<lparr>ly_total_bytes = total_bytes, ly_slot_bytes = slot_bytes, ly_slot_offsets = offsets,
             ly_result_offset = r1, ly_overview_spans_offset = r2, ly_overview_columns_offset = r3,
             ly_detail_tiles_offset = r4, ly_detail_columns_offset = r5,
             ly_tempo_candidates_offset = r6, ly_local_grid_coverage_offset = r7,
             ly_local_grid_segments_offset = r8, ly_global_grid_state_offset = r9,
             ly_global_grid_coverage_offset = r10, ly_global_grid_segments_offset = r11,
             ly_global_grid_beats_offset = r12, ly_metadata_offset = r13,
             ly_overview_span_capacity = cols, ly_overview_column_capacity = cols,
             ly_detail_tile_capacity = detail_tiles, ly_detail_column_capacity = detail_columns,
             ly_tempo_candidate_capacity = tempo_candidates,
             ly_local_grid_coverage_capacity = local_grid_coverage,
             ly_local_grid_segment_capacity = local_grid_segments,
             ly_global_grid_coverage_capacity = global_grid_coverage,
             ly_global_grid_segment_capacity = global_grid_segments,
             ly_global_grid_beat_capacity = global_grid_beats,
             ly_metadata_capacity = METADATA_MAX_TOTAL_BYTES, ly_slot_count = RESULT_SLOT_COUNT\<rparr>
     }"

definition apta_internal_result_pool_calculate_layout ::
    "struct_sizes \<Rightarrow> struct_alignments \<Rightarrow> session_config \<Rightarrow> pool_layout outcome" where
  "apta_internal_result_pool_calculate_layout sizes al config =
     (if sc_flags config AND SESSION_FLAG_BOUNDED_RESULT_SLOTS = 0 \<or>
         sc_flags config AND NOT SESSION_FLAG_BOUNDED_RESULT_SLOTS \<noteq> 0 \<or>
         sc_requested_features config AND FEATURE_WAVEFORM_OVERVIEW = 0 \<or>
         sc_total_frames config = APTA_TOTAL_FRAMES_UNKNOWN
      then Fail ERROR_INVALID_ARGUMENT
      else
        let frames_per_column = ucast (resolved_frames_per_column config);
            columns64 = sc_total_frames config div frames_per_column +
              (if sc_total_frames config mod frames_per_column \<noteq> 0 then 1 else 0)
        in
        if ucast UINT32_MAX < columns64 then Fail ERROR_LIMIT_EXCEEDED
        else
          let cols = ucast columns64 :: u32;
              detail_tiles = feature_count config FEATURE_WAVEFORM_DETAIL MAX_DETAIL_TILES;
              detail_columns = detail_tiles * DETAIL_COLUMNS_PER_TILE;
              tempo_candidates = feature_count config FEATURE_BPM MAX_TEMPO_CANDIDATES;
              local_grid_coverage = feature_count config FEATURE_LOCAL_BEATGRID 1;
              local_grid_segments = local_grid_coverage;
              global_grid_state = feature_count config FEATURE_GLOBAL_BEATGRID 1;
              global_grid_coverage = global_grid_state;
              global_grid_segments = (if global_grid_state \<noteq> 0 then GLOBAL_MAX_SEGMENTS else 0);
              global_grid_beats = (if global_grid_state \<noteq> 0 then GLOBAL_MAX_BEATS else 0)
          in
          (case place_regions sizes al cols detail_tiles detail_columns tempo_candidates local_grid_coverage
                  local_grid_segments global_grid_state global_grid_coverage global_grid_segments global_grid_beats of
             None \<Rightarrow> Fail ERROR_LIMIT_EXCEEDED
           | Some layout \<Rightarrow>
               if sc_memory_budget_bytes config \<noteq> 0 \<and> sc_memory_budget_bytes config < ly_total_bytes layout
               then Fail ERROR_LIMIT_EXCEEDED
               else Ret layout))"

section \<open>The arithmetic does not wrap\<close>

lemma add_size_Some: "apta_pool_add_size a b = Some c \<Longrightarrow> unat c = unat a + unat b"
  by (auto simp: apta_pool_add_size_def not_less size_add_guard unat_plus_u64 split: if_splits)

lemma multiply_size_Some: "apta_pool_multiply_size a b = Some c \<Longrightarrow> unat c = unat a * unat b"
proof -
  assume "apta_pool_multiply_size a b = Some c"
  then have c: "c = a * b" and g: "b = 0 \<or> a \<le> SIZE_MAX div b"
    by (auto simp: apta_pool_multiply_size_def not_less split: if_splits)
  have "unat a * unat b < 18446744073709551616"
  proof (cases "b = 0")
    case False
    then have "unat a \<le> 18446744073709551615 div unat b" using g by (simp add: word_le_nat_alt unat_div)
    then have "unat a * unat b \<le> 18446744073709551615 div unat b * unat b" by (rule mult_le_mono1)
    also have "\<dots> \<le> 18446744073709551615" by (rule div_times_less_eq_dividend)
    finally show ?thesis by simp
  qed simp
  then show ?thesis using c by (simp add: unat_times_u64)
qed

lemma align_size_Some:
  assumes "apta_pool_align_size v a = Some r"
  shows "unat v \<le> unat r" "unat a dvd unat r" "unat r < unat v + unat a"
proof -
  have p: "apta_internal_is_power_of_two a" and g: "\<not> SIZE_MAX - (a - 1) < v"
    and r: "r = (v + (a - 1)) AND NOT (a - 1)"
    using assms by (auto simp: apta_pool_align_size_def Let_def split: if_splits)
  obtain k where k: "k < 64" "unat a = 2 ^ k" using power_of_two_ex [OF p] by blast
  have "a \<noteq> 0" using k by (metis power_not_zero unat_0 zero_neq_numeral)
  then have "unat (a - 1) = 2 ^ k - 1" using unat_minus_one [of a] k by simp
  then have fit: "unat v + (2 ^ k - 1) < 18446744073709551616"
    using g by (simp add: not_less size_add_guard)
  have "unat r = (unat v + (2 ^ k - 1)) div 2 ^ k * 2 ^ k"
    using unat_align_up [OF k fit] r by (simp add: algebra_simps)
  then show "unat v \<le> unat r" "unat a dvd unat r" "unat r < unat v + unat a"
    using align_up_bounds [of "2 ^ k" "unat v"] k by simp_all
qed

lemma append_region_Some:
  assumes "apta_pool_append_region v a n e = Some (r, v')"
  shows "unat v \<le> unat r \<and> unat a dvd unat r \<and> unat v' = unat r + unat n * unat e"
  using assms by (auto simp: apta_pool_append_region_def bind_eq_Some_conv align_size_Some add_size_Some
      dest!: multiply_size_Some)

section \<open>Regions in sequence\<close>

text \<open>A region of a slot: its offset, alignment and size.\<close>

type_synonym region = "usize \<times> usize \<times> nat"

fun laid_out :: "nat \<Rightarrow> region list \<Rightarrow> nat \<Rightarrow> bool" where
  "laid_out from [] limit \<longleftrightarrow> from \<le> limit"
| "laid_out from ((r, a, n) # rs) limit \<longleftrightarrow>
     from \<le> unat r \<and> unat a dvd unat r \<and> laid_out (unat r + n) rs limit"

definition region_end :: "region \<Rightarrow> nat" where
  "region_end x = (case x of (r, a, n) \<Rightarrow> unat r + n)"

lemma laid_out_limit: "laid_out from rs limit \<Longrightarrow> from \<le> limit"
  by (induction rs arbitrary: "from") (auto, fastforce)

lemma laid_out_bounds: "laid_out from rs limit \<Longrightarrow> (r, a, n) \<in> set rs \<Longrightarrow>
    from \<le> unat r \<and> unat a dvd unat r \<and> unat r + n \<le> limit"
proof (induction rs arbitrary: "from")
  case (Cons x rs)
  then show ?case by (cases x) (fastforce dest: laid_out_limit)
qed simp

lemma laid_out_sorted: "laid_out from rs limit \<Longrightarrow> sorted_wrt (\<lambda>x y. region_end x \<le> unat (fst y)) rs"
proof (induction rs arbitrary: "from")
  case (Cons x rs)
  then show ?case by (cases x) (auto simp: region_end_def dest: laid_out_bounds)
qed simp

definition regions :: "struct_sizes \<Rightarrow> struct_alignments \<Rightarrow> pool_layout \<Rightarrow> region list" where
  "regions sizes al l =
     [(ly_result_offset l, alignof_result al, unat (sizeof_result sizes)),
      (ly_overview_spans_offset l, alignof_span al, unat (ly_overview_span_capacity l) * unat (sizeof_span sizes)),
      (ly_overview_columns_offset l, alignof_column al,
        unat (ly_overview_column_capacity l) * unat (sizeof_column sizes)),
      (ly_detail_tiles_offset l, alignof_tile_view al,
        unat (ly_detail_tile_capacity l) * unat (sizeof_tile_view sizes)),
      (ly_detail_columns_offset l, alignof_column al,
        unat (ly_detail_column_capacity l) * unat (sizeof_column sizes)),
      (ly_tempo_candidates_offset l, alignof_tempo_candidate al,
        unat (ly_tempo_candidate_capacity l) * unat (sizeof_tempo_candidate sizes)),
      (ly_local_grid_coverage_offset l, alignof_frame_range al,
        unat (ly_local_grid_coverage_capacity l) * unat (sizeof_frame_range sizes)),
      (ly_local_grid_segments_offset l, alignof_grid_segment al,
        unat (ly_local_grid_segment_capacity l) * unat (sizeof_grid_segment sizes)),
      (ly_global_grid_state_offset l, alignof_s6_result_state al,
        unat (ly_global_grid_coverage_capacity l) * unat (sizeof_s6_result_state sizes)),
      (ly_global_grid_coverage_offset l, alignof_frame_range al,
        unat (ly_global_grid_coverage_capacity l) * unat (sizeof_frame_range sizes)),
      (ly_global_grid_segments_offset l, alignof_grid_segment al,
        unat (ly_global_grid_segment_capacity l) * unat (sizeof_grid_segment sizes)),
      (ly_global_grid_beats_offset l, alignof_beat al,
        unat (ly_global_grid_beat_capacity l) * unat (sizeof_beat sizes)),
      (ly_metadata_offset l, 1, unat (ly_metadata_capacity l))]"

text \<open>A sound layout: regions in sequence, slots in sequence behind the control structure.\<close>

definition layout_ok :: "struct_sizes \<Rightarrow> struct_alignments \<Rightarrow> pool_layout \<Rightarrow> bool" where
  "layout_ok sizes al l \<longleftrightarrow>
     laid_out 0 (regions sizes al l) (unat (ly_slot_bytes l)) \<and> ly_slot_count l = 2 \<and>
     length (ly_slot_offsets l) = 2 \<and>
     laid_out (unat (sizeof_result_pool_control sizes))
       (map (\<lambda>off. (off, MAX_ALIGNMENT, unat (ly_slot_bytes l))) (ly_slot_offsets l)) (unat (ly_total_bytes l))"

lemma slots_laid_out:
  assumes sl: "apta_pool_multiply_size (ucast RESULT_SLOT_COUNT) sb = Some sl"
    and t: "apta_pool_add_size p sl = Some t" and o: "slot_offsets p sb [0, 1] = Some offs"
    and p: "apta_pool_align_size n MAX_ALIGNMENT = Some p" and sb: "apta_pool_align_size v MAX_ALIGNMENT = Some sb"
  shows "unat v \<le> unat sb \<and> length offs = 2 \<and> laid_out (unat n) (map (\<lambda>off. (off, MAX_ALIGNMENT, unat sb)) offs) (unat t)"
proof -
  obtain x y u w where offs: "offs = [u, w]" "apta_pool_multiply_size 0 sb = Some x" "apta_pool_add_size p x = Some u"
    "apta_pool_multiply_size 1 sb = Some y" "apta_pool_add_size p y = Some w"
    using o by (auto simp: bind_eq_Some_conv)
  have "unat x = 0" "unat y = unat sb" "unat u = unat p + unat x" "unat w = unat p + unat y"
    "unat sl = 2 * unat sb" "unat t = unat p + unat sl"
    using multiply_size_Some [OF offs(2)] multiply_size_Some [OF offs(4)] add_size_Some [OF offs(3)]
      add_size_Some [OF offs(5)] multiply_size_Some [OF sl] add_size_Some [OF t]
    by (simp_all add: RESULT_SLOT_COUNT_def)
  moreover have "unat n \<le> unat p" "16 dvd unat p" "16 dvd unat sb" "unat v \<le> unat sb"
    using align_size_Some [OF p] align_size_Some [OF sb] by (simp_all add: apta_consts)
  ultimately show ?thesis using offs(1) by (simp add: apta_consts)
qed

lemma append_bindE:
  assumes "apta_pool_append_region v a n e \<bind> case_prod f = Some l"
  obtains r v' where "unat v \<le> unat r" "unat a dvd unat r" "unat v' = unat r + unat n * unat e" "f r v' = Some l"
  using assms by (auto simp: bind_eq_Some_conv dest!: append_region_Some intro: that)

lemma option_bindE: "m \<bind> f = Some l \<Longrightarrow> (\<And>x. m = Some x \<Longrightarrow> f x = Some l \<Longrightarrow> P) \<Longrightarrow> P"
  by (auto simp: bind_eq_Some_conv)

lemma place_regions_ok:
  assumes "place_regions sizes al cols dt dc tc lg lg gg gg gs gb = Some l"
  shows "layout_ok sizes al l"
  using assms unfolding place_regions_def
  apply (elim append_bindE option_bindE)
  apply (frule slots_laid_out, assumption+)
  apply (clarsimp simp: layout_ok_def regions_def RESULT_SLOT_COUNT_def)
  done

lemma calculated_layout_ok:
  assumes "apta_internal_result_pool_calculate_layout sizes al config = Ret l"
  shows "layout_ok sizes al l"
proof -
  obtain cols dt dc tc lg gg gs gb where "place_regions sizes al cols dt dc tc lg lg gg gg gs gb = Some l"
    using assms unfolding apta_internal_result_pool_calculate_layout_def Let_def
    by (simp split: if_split_asm option.split_asm)
  then show ?thesis by (rule place_regions_ok)
qed

section \<open>The column count\<close>

lemma layout_columns:
  assumes "apta_internal_result_pool_calculate_layout sizes al config = Ret l"
  shows "unat (sc_total_frames config) \<le>
      unat (ly_overview_column_capacity l) * unat (resolved_frames_per_column config)"
    "sc_memory_budget_bytes config = 0 \<or> ly_total_bytes l \<le> sc_memory_budget_bytes config"
proof -
  define f where "f = unat (resolved_frames_per_column config)"
  define c where "c = sc_total_frames config div ucast (resolved_frames_per_column config) +
    (if sc_total_frames config mod ucast (resolved_frames_per_column config) \<noteq> 0 then 1 else 0)"
  let ?t = "unat (sc_total_frames config)"
  have f: "0 < f" by (auto simp: f_def resolved_frames_per_column_def apta_consts unat_gt_0)
  obtain dt dc tc lg gg gs gb where
      place: "place_regions sizes al (ucast c) dt dc tc lg lg gg gg gs gb = Some l"
    and le: "c \<le> ucast UINT32_MAX"
    and budget: "sc_memory_budget_bytes config = 0 \<or> ly_total_bytes l \<le> sc_memory_budget_bytes config"
    using assms unfolding apta_internal_result_pool_calculate_layout_def Let_def c_def [symmetric]
    by (auto simp: not_less split: if_split_asm option.split_asm)
  then show "sc_memory_budget_bytes config = 0 \<or> ly_total_bytes l \<le> sc_memory_budget_bytes config" by simp
  have "ly_overview_column_capacity l = ucast c"
    using place unfolding place_regions_def by (elim append_bindE option_bindE) clarsimp
  moreover have "unat (ucast c :: u32) = unat c"
    using le by (simp add: word_le_nat_alt unsigned_ucast_eq take_bit_nat_eq_self)
  moreover have "unat c = ?t div f + (if ?t mod f \<noteq> 0 then 1 else 0)"
  proof -
    have "?t div f + 1 < 18446744073709551616" if "?t mod f \<noteq> 0"
    proof -
      have "2 \<le> f" using f that by (cases "f = 1") auto
      then have "?t div f \<le> ?t div 2" by (intro div_le_mono2) auto
      then show ?thesis using unat_u64_bound [of "sc_total_frames config"] by linarith
    qed
    then show ?thesis
      by (auto simp: c_def f_def word_eq_iff_unsigned [where 'a = nat] unat_div unat_mod unat_plus_u64)
  qed
  moreover have "?t \<le> (?t div f + (if ?t mod f \<noteq> 0 then 1 else 0)) * f"
  proof -
    have "?t = ?t div f * f + ?t mod f" by simp
    moreover have "?t mod f \<le> (if ?t mod f \<noteq> 0 then 1 else 0) * f" using mod_less_divisor [OF f, of ?t] by simp
    ultimately show ?thesis unfolding add_mult_distrib by linarith
  qed
  ultimately show "?t \<le> unat (ly_overview_column_capacity l) * unat (resolved_frames_per_column config)"
    by (simp add: f_def)
qed

section \<open>Properties\<close>

text \<open>
  A calculated pool layout is sound: the regions of a slot follow each other without overlap,
  each aligned for its type and inside the slot; the two slots follow the control structure
  without overlap, aligned and inside the allocation; the columns cover the track, and the
  allocation respects the configured budget.
\<close>
theorem pool_layout_sound:
  assumes "apta_internal_result_pool_calculate_layout sizes al config = Ret l"
  shows "sorted_wrt (\<lambda>x y. region_end x \<le> unat (fst y)) (regions sizes al l) \<and>
    (\<forall>(r, a, n)\<in>set (regions sizes al l). unat a dvd unat r \<and> unat r + n \<le> unat (ly_slot_bytes l)) \<and>
    (\<exists>s0 s1. ly_slot_offsets l = [s0, s1] \<and> unat (sizeof_result_pool_control sizes) \<le> unat s0 \<and>
       unat s0 + unat (ly_slot_bytes l) \<le> unat s1 \<and> unat s1 + unat (ly_slot_bytes l) \<le> unat (ly_total_bytes l) \<and>
       16 dvd unat s0 \<and> 16 dvd unat s1) \<and>
    unat (sc_total_frames config) \<le>
      unat (ly_overview_column_capacity l) * unat (resolved_frames_per_column config) \<and>
    (sc_memory_budget_bytes config = 0 \<or> ly_total_bytes l \<le> sc_memory_budget_bytes config)"
proof -
  have ok: "laid_out 0 (regions sizes al l) (unat (ly_slot_bytes l))" "length (ly_slot_offsets l) = 2"
    "laid_out (unat (sizeof_result_pool_control sizes))
       (map (\<lambda>off. (off, MAX_ALIGNMENT, unat (ly_slot_bytes l))) (ly_slot_offsets l)) (unat (ly_total_bytes l))"
    using calculated_layout_ok [OF assms] by (simp_all add: layout_ok_def)
  obtain s0 s1 where s: "ly_slot_offsets l = [s0, s1]"
    using ok(2) by (auto simp: numeral_2_eq_2 length_Suc_conv)
  show ?thesis
    using laid_out_sorted [OF ok(1)] laid_out_bounds [OF ok(1)] ok(3) s layout_columns [OF assms]
    by (auto simp: MAX_ALIGNMENT_def)
qed

definition demo_alignments :: struct_alignments where
  "demo_alignments = \<lparr>alignof_result = 8, alignof_span = 8, alignof_column = 2, alignof_tile_view = 8,
     alignof_tempo_candidate = 8, alignof_frame_range = 8, alignof_grid_segment = 8,
     alignof_s6_result_state = 8, alignof_beat = 8\<rparr>"

definition demo_bounded_config :: session_config where
  "demo_bounded_config = demo_config\<lparr>sc_flags := SESSION_FLAG_BOUNDED_RESULT_SLOTS\<rparr>"

lemmas eval_layout = apta_internal_result_pool_calculate_layout_def place_regions_def
  apta_pool_append_region_def apta_pool_align_size_def apta_pool_multiply_size_def apta_pool_add_size_def
  feature_count_def apta_internal_is_power_of_two_def resolved_frames_per_column_def Let_def apta_consts

lemma demo_layout:
  "\<exists>l. apta_internal_result_pool_calculate_layout demo_sizes demo_alignments demo_bounded_config = Ret l \<and>
     ly_slot_bytes l = 11296 \<and> ly_total_bytes l = 22896"
  by (simp add: eval_layout demo_bounded_config_def demo_config_def apta_session_config_init_def
      demo_sizes_def demo_alignments_def)

theorem pool_layout_sound_witness:
  "\<exists>l. apta_internal_result_pool_calculate_layout demo_sizes demo_alignments demo_bounded_config = Ret l \<and>
     sorted_wrt (\<lambda>x y. region_end x \<le> unat (fst y)) (regions demo_sizes demo_alignments l) \<and>
     unat (ly_total_bytes l) = 22896"
  using demo_layout pool_layout_sound [of demo_sizes demo_alignments demo_bounded_config] by fastforce

end
