(* ===== verification/Apta_Pool.thy ===== *)
theory Apta_Pool
  imports Apta_Pool_Layout
begin

text \<open>
  The bounded result pool (\<^verbatim>\<open>src/core/apta_result_pool.c\<close>), the reference counts of results
  (\<^verbatim>\<open>src/core/apta_result_lifetime.c\<close>) and the publication of bounded sessions
  (\<^verbatim>\<open>src/core/apta_result_pool_publication.c\<close>, \<^verbatim>\<open>src/core/apta_result_pool_snapshot.c\<close>).  The pool
  memory is optional: \<open>None\<close> once it has been given back, and any access to it then is the outcome
  \<open>Fault\<close>.  What a snapshot holds beyond its identity is the work of the builders, a parameter
  \<open>fill\<close> of the publication.  Each operation is atomic; interleavings of the session and of the
  host's readers are sequences of operations.
\<close>

section \<open>State\<close>

record live_result =
  lr_reference_count :: u32
  lr_slot_index :: u32
  lr_lineage_id_high :: u64
  lr_lineage_id_low :: u64
  lr_contents :: apta_result

record slot_control =
  sl_active :: u32
  sl_storage_offset :: usize
  sl_storage_size :: usize
  sl_result :: "live_result option"

record result_pool =
  pl_address :: u64
  pl_reference_count :: u32
  pl_allocation_size :: usize
  pl_slot_count :: u32
  pl_layout :: pool_layout
  pl_slots :: "slot_control list"

text \<open>A bounded session's results: the context, the pool memory, the slot of the current result
  and the generation.\<close>

record result_store =
  rs_context :: apta_context
  rs_pool :: "result_pool option"
  rs_current :: "u32 option"
  rs_generation :: u64

section \<open>The pool\<close>

definition apta_internal_result_pool_create ::
    "host_allocator \<Rightarrow> struct_sizes \<Rightarrow> struct_alignments \<Rightarrow> apta_context \<Rightarrow> session_config \<Rightarrow>
     apta_status \<times> result_pool option \<times> apta_context" where
  "apta_internal_result_pool_create host sizes al ctx config =
     (case apta_internal_result_pool_calculate_layout sizes al config of
        Fail e \<Rightarrow> (e, None, ctx)
      | Fault \<Rightarrow> (ERROR_INTERNAL, None, ctx)
      | Ret layout \<Rightarrow>
          (case apta_internal_context_allocate host ctx (ly_total_bytes layout) MAX_ALIGNMENT of
             (None, ctx') \<Rightarrow> (ERROR_OUT_OF_MEMORY, None, ctx')
           | (Some p, ctx') \<Rightarrow>
               (STATUS_OK,
                Some \<lparr>pl_address = p, pl_reference_count = 1, pl_allocation_size = ly_total_bytes layout,
                      pl_slot_count = ly_slot_count layout, pl_layout = layout,
                      pl_slots = map (\<lambda>off. \<lparr>sl_active = 0, sl_storage_offset = off,
                                             sl_storage_size = ly_slot_bytes layout, sl_result = None\<rparr>)
                                   (ly_slot_offsets layout)\<rparr>,
                ctx')))"

definition apta_internal_result_pool_retain :: "result_pool \<Rightarrow> result_pool" where
  "apta_internal_result_pool_retain p = p\<lparr>pl_reference_count := pl_reference_count p + 1\<rparr>"

definition apta_internal_result_pool_release :: "result_store \<Rightarrow> result_store outcome" where
  "apta_internal_result_pool_release st =
     obind (deref (rs_pool st)) (\<lambda>p.
     let p' = p\<lparr>pl_reference_count := pl_reference_count p - 1\<rparr>
     in if pl_reference_count p \<noteq> 1 then Ret (st\<lparr>rs_pool := Some p'\<rparr>)
        else Ret (st\<lparr>rs_pool := None,
                     rs_context := apta_internal_context_deallocate (rs_context st) (Some (pl_address p))\<rparr>))"

definition apta_internal_result_pool_get_slot_storage :: "result_pool \<Rightarrow> u32 \<Rightarrow> u64 option" where
  "apta_internal_result_pool_get_slot_storage p slot_index =
     (if pl_slot_count p \<le> slot_index then None
      else
        let offset = sl_storage_offset (pl_slots p ! unat slot_index);
            sz = sl_storage_size (pl_slots p ! unat slot_index)
        in if pl_allocation_size p < offset \<or> pl_allocation_size p - offset < sz then None
           else Some (pl_address p + offset))"

definition zero_overview :: overview where
  "zero_overview = \<lparr>level_id = 0, frames_per_column = 0, origin_frame = 0, state = 0, confidence = 0,
     span_count = 0, spans = None\<rparr>"

text \<open>The identity of a fresh result: source description, generation, changed features and state.\<close>

definition empty_result :: "session_config \<Rightarrow> u64 \<Rightarrow> u32 \<Rightarrow> u64 \<Rightarrow> apta_result" where
  "empty_result config gen sstate changed =
     \<lparr>specification_major = 1, specification_minor = 0, producer_api_version = APTA_API_VERSION,
      container_version = 0, generation = gen, available_features = 0, changed_features = changed,
      session_state = sstate, total_source_frames = sc_total_frames config,
      source_sample_rate = sc_source_sample_rate config,
      source_channel_count = ucast (sc_channel_count config),
      source_channel_layout = sc_channel_layout config,
      fingerprint_kind = sc_source_fingerprint_kind config,
      fingerprint = sc_source_fingerprint config, overview = zero_overview\<rparr>"

text \<open>The loop over the slots, from slot \<open>i\<close> on.\<close>

fun claim_slot :: "slot_control list \<Rightarrow> nat \<Rightarrow> nat option" where
  "claim_slot [] i = None"
| "claim_slot (s # ss) i = (if sl_active s = 0 then Some i else claim_slot ss (i + 1))"

definition slot_fits :: "struct_sizes \<Rightarrow> result_pool \<Rightarrow> u32 \<Rightarrow> bool" where
  "slot_fits sizes p i \<longleftrightarrow>
     apta_internal_result_pool_get_slot_storage p i \<noteq> None \<and>
     ly_result_offset (pl_layout p) \<le> sl_storage_size (pl_slots p ! unat i) \<and>
     sizeof_result sizes \<le> sl_storage_size (pl_slots p ! unat i) - ly_result_offset (pl_layout p)"

definition apta_internal_result_pool_create_empty_result ::
    "struct_sizes \<Rightarrow> result_store \<Rightarrow> session_config \<Rightarrow> u64 \<Rightarrow> u32 \<Rightarrow> u64 \<Rightarrow> u64 \<Rightarrow> u64 \<Rightarrow>
     (apta_status \<times> u32 option \<times> result_store) outcome" where
  "apta_internal_result_pool_create_empty_result sizes st config gen sstate changed lineage_high lineage_low =
     obind (deref (rs_pool st)) (\<lambda>p.
     case claim_slot (take (unat (pl_slot_count p)) (pl_slots p)) 0 of
       None \<Rightarrow> Ret (ERROR_RESULT_SLOTS_EXHAUSTED, None, st)
     | Some i \<Rightarrow>
         if \<not> slot_fits sizes p (of_nat i) then Ret (ERROR_INTERNAL, None, st)
         else
           let r = \<lparr>lr_reference_count = 1, lr_slot_index = of_nat i, lr_lineage_id_high = lineage_high,
                    lr_lineage_id_low = lineage_low, lr_contents = empty_result config gen sstate changed\<rparr>;
               p' = apta_internal_result_pool_retain
                      (p\<lparr>pl_slots := (pl_slots p)[i := (pl_slots p ! i)\<lparr>sl_active := 1, sl_result := Some r\<rparr>]\<rparr>)
           in Ret (STATUS_OK, Some (of_nat i),
                   st\<lparr>rs_pool := Some p',
                      rs_context := (rs_context st)\<lparr>result_count := result_count (rs_context st) + 1\<rparr>\<rparr>))"

definition apta_internal_result_pool_release_result_slot :: "result_store \<Rightarrow> u32 \<Rightarrow> result_store outcome" where
  "apta_internal_result_pool_release_result_slot st slot_index =
     obind (deref (rs_pool st)) (\<lambda>p.
     if pl_slot_count p \<le> slot_index then Ret st
     else
       let s = pl_slots p ! unat slot_index;
           st' = st\<lparr>rs_pool := Some (p\<lparr>pl_slots := (pl_slots p)[unat slot_index := s\<lparr>sl_active := 0\<rparr>]\<rparr>)\<rparr>
       in if sl_active s = 1 then apta_internal_result_pool_release st' else Ret st')"

section \<open>References to results\<close>

definition slot_result :: "result_store \<Rightarrow> u32 \<Rightarrow> live_result outcome" where
  "slot_result st i = obind (deref (rs_pool st)) (\<lambda>p. obind (nth_o (pl_slots p) (unat i)) (\<lambda>s. deref (sl_result s)))"

definition set_slot_result :: "result_store \<Rightarrow> u32 \<Rightarrow> live_result \<Rightarrow> result_store" where
  "set_slot_result st i r =
     st\<lparr>rs_pool := map_option (\<lambda>p. p\<lparr>pl_slots :=
          (pl_slots p)[unat i := (pl_slots p ! unat i)\<lparr>sl_result := Some r\<rparr>]\<rparr>) (rs_pool st)\<rparr>"

definition apta_internal_result_retain :: "result_store \<Rightarrow> u32 \<Rightarrow> result_store outcome" where
  "apta_internal_result_retain st i =
     obind (slot_result st i) (\<lambda>r.
     Ret (set_slot_result st i (r\<lparr>lr_reference_count := lr_reference_count r + 1\<rparr>)))"

definition apta_internal_result_release :: "result_store \<Rightarrow> u32 option \<Rightarrow> result_store outcome" where
  "apta_internal_result_release st result =
     (case result of
        None \<Rightarrow> Ret st
      | Some i \<Rightarrow>
          obind (slot_result st i) (\<lambda>r.
          let st1 = set_slot_result st i (r\<lparr>lr_reference_count := lr_reference_count r - 1\<rparr>)
          in if lr_reference_count r \<noteq> 1 then Ret st1
             else
               apta_internal_result_pool_release_result_slot
                 (st1\<lparr>rs_context := (rs_context st1)\<lparr>result_count := result_count (rs_context st1) - 1\<rparr>\<rparr>)
                 (lr_slot_index r)))"

section \<open>Publication\<close>

text \<open>\<open>fill\<close> stands for the builders of the snapshot: metadata, overview, detail and the tempo and
  grid layers.\<close>

type_synonym builder = "apta_result \<Rightarrow> apta_status \<times> apta_result"

definition apta_internal_result_pool_create_session_result ::
    "struct_sizes \<Rightarrow> builder \<Rightarrow> result_store \<Rightarrow> session_config \<Rightarrow> u32 \<Rightarrow> u64 \<Rightarrow> u64 \<Rightarrow> u64 \<Rightarrow> u64 \<Rightarrow>
     (apta_status \<times> u32 option \<times> result_store) outcome" where
  "apta_internal_result_pool_create_session_result sizes fill st config sstate lineage_high lineage_low gen changed =
     obind (apta_internal_result_pool_create_empty_result sizes st config gen sstate changed lineage_high lineage_low)
       (\<lambda>(status, result, st1).
     case result of
       None \<Rightarrow> Ret (status, None, st1)
     | Some i \<Rightarrow>
         obind (slot_result st1 i) (\<lambda>r.
         case fill (lr_contents r) of
           (status', contents) \<Rightarrow>
             let st2 = set_slot_result st1 i (r\<lparr>lr_contents := contents\<rparr>)
             in if failed status'
                then obind (apta_internal_result_release st2 (Some i)) (\<lambda>st3. Ret (status', None, st3))
                else Ret (STATUS_OK, Some i, st2)))"

text \<open>The pooled publication as far as it concerns the results: the guard on the generation, the
  new snapshot, the exchange and the release of the old one.  When the slots are exhausted the code also
  takes marks away from the session's overview before it returns the status; the session is not
  in sight here, so that step stands in \<open>apta_internal_publish_result\<close>, which calls this definition
  and is all of the code's function.\<close>

definition publish_bounded ::
    "struct_sizes \<Rightarrow> builder \<Rightarrow> session_config \<Rightarrow> u32 \<Rightarrow> u64 \<Rightarrow> u64 \<Rightarrow> result_store \<Rightarrow> u64 \<Rightarrow>
     (apta_status \<times> result_store) outcome" where
  "publish_bounded sizes fill config sstate lineage_high lineage_low st changed =
     (if rs_generation st = UINT64_MAX then Ret (ERROR_LIMIT_EXCEEDED, st)
      else
        let next_generation = rs_generation st + 1
        in
        obind (apta_internal_result_pool_create_session_result sizes fill st config sstate lineage_high lineage_low
                 next_generation changed) (\<lambda>(status, result, st1).
        if failed status then Ret (status, st1)
        else
          obind (apta_internal_result_release (st1\<lparr>rs_current := result, rs_generation := next_generation\<rparr>)
                   (rs_current st1)) (\<lambda>st2.
          Ret (STATUS_OK, st2))))"

definition apta_session_acquire_result :: "result_store \<Rightarrow> (u32 option \<times> result_store) outcome" where
  "apta_session_acquire_result st =
     (case rs_current st of
        None \<Rightarrow> Ret (None, st)
      | Some i \<Rightarrow> obind (apta_internal_result_retain st i) (\<lambda>st'. Ret (Some i, st')))"

text \<open>The part of \<open>apta_session_destroy\<close> that gives up results and pool.\<close>

definition destroy_results :: "result_store \<Rightarrow> result_store outcome" where
  "destroy_results st =
     obind (apta_internal_result_release (st\<lparr>rs_current := None\<rparr>) (rs_current st)) (\<lambda>st1.
     apta_internal_result_pool_release
       (st1\<lparr>rs_context := (rs_context st1)\<lparr>session_count := session_count (rs_context st1) - 1\<rparr>\<rparr>))"

section \<open>The invariant of a store\<close>

text \<open>\<open>refs i\<close> is the number of references to the result of slot \<open>i\<close>, the session's own included;
  \<open>alive\<close> says whether the session still holds its reference to the pool; \<open>base\<close> is the context
  without this session's results and pool.\<close>

definition slot_holds :: "nat \<Rightarrow> slot_control \<Rightarrow> nat \<Rightarrow> bool" where
  "slot_holds i s n \<longleftrightarrow>
     (if n = 0 then sl_active s = 0
      else sl_active s = 1 \<and>
        (\<exists>r. sl_result s = Some r \<and> unat (lr_reference_count r) = n \<and> lr_slot_index r = of_nat i))"

definition busy :: "(nat \<Rightarrow> nat) \<Rightarrow> nat" where
  "busy refs = (if 0 < refs 0 then 1 else 0) + (if 0 < refs 1 then 1 else 0)"

definition pool_fits :: "struct_sizes \<Rightarrow> result_pool \<Rightarrow> bool" where
  "pool_fits sizes p \<longleftrightarrow> pl_slot_count p = 2 \<and> length (pl_slots p) = 2 \<and> (\<forall>i<2. slot_fits sizes p (of_nat i))"

definition pool_counts :: "(nat \<Rightarrow> nat) \<Rightarrow> nat \<Rightarrow> result_pool \<Rightarrow> bool" where
  "pool_counts refs n p \<longleftrightarrow>
     0 < n \<and> pl_reference_count p = of_nat n \<and> (\<forall>i<2. slot_holds i (pl_slots p ! i) (refs i))"

definition accounted :: "apta_context \<Rightarrow> result_pool option \<Rightarrow> nat \<Rightarrow> bool \<Rightarrow> apta_context \<Rightarrow> bool" where
  "accounted base pool n alive ctx \<longleftrightarrow>
     result_count ctx = result_count base + of_nat n \<and>
     session_count ctx = session_count base + (if alive then 1 else 0) \<and>
     (case pool of
        None \<Rightarrow> headers ctx = headers base \<and> allocated_bytes ctx = allocated_bytes base
      | Some p \<Rightarrow> \<exists>h. headers ctx = (pl_address p, h) # headers base \<and>
                     allocated_bytes ctx = allocated_bytes base + requested_size h)"

definition store_ok :: "struct_sizes \<Rightarrow> apta_context \<Rightarrow> bool \<Rightarrow> (nat \<Rightarrow> nat) \<Rightarrow> result_store \<Rightarrow> bool" where
  "store_ok sizes base alive refs st \<longleftrightarrow>
     accounted base (rs_pool st) (busy refs) alive (rs_context st) \<and>
     (case rs_pool st of
        None \<Rightarrow> \<not> alive \<and> busy refs = 0
      | Some p \<Rightarrow> pool_fits sizes p \<and> pool_counts refs ((if alive then 1 else 0) + busy refs) p)"

definition contents :: "result_store \<Rightarrow> nat \<Rightarrow> apta_result option" where
  "contents st i = (case rs_pool st of None \<Rightarrow> None
     | Some p \<Rightarrow> map_option lr_contents (sl_result (pl_slots p ! i)))"

text \<open>What an operation leaves alone: the snapshots still referenced, the session's own fields.\<close>

definition keeps :: "(nat \<Rightarrow> nat) \<Rightarrow> result_store \<Rightarrow> result_store \<Rightarrow> bool" where
  "keeps refs st st' \<longleftrightarrow>
     (\<forall>i<2. 0 < refs i \<longrightarrow> contents st' i = contents st i) \<and>
     rs_current st' = rs_current st \<and> rs_generation st' = rs_generation st"

lemma less_2: "(\<forall>i<2. P i) \<longleftrightarrow> P 0 \<and> P (1 :: nat)"
  by (auto simp: numeral_2_eq_2 less_Suc_eq)

lemma unat_small [simp]: "i < 2 \<Longrightarrow> unat (of_nat i :: u32) = i"
  by (simp add: unat_of_nat)

lemma store_live:
  assumes "store_ok sizes base alive refs st" "i < 2" "0 < refs i"
  obtains p r where "rs_pool st = Some p" "pool_fits sizes p" "pool_counts refs ((if alive then 1 else 0) + busy refs) p"
    "sl_result (pl_slots p ! i) = Some r" "unat (lr_reference_count r) = refs i" "lr_slot_index r = of_nat i"
    "sl_active (pl_slots p ! i) = 1"
proof -
  have "0 < busy refs" using assms(2,3) by (auto simp: busy_def numeral_2_eq_2 less_Suc_eq)
  then obtain p where p: "rs_pool st = Some p" "pool_fits sizes p"
      "pool_counts refs ((if alive then 1 else 0) + busy refs) p"
    using assms(1) by (auto simp: store_ok_def split: option.splits)
  then have "slot_holds i (pl_slots p ! i) (refs i)" using assms(2) by (simp add: pool_counts_def)
  then show ?thesis using that [OF p] assms(3) by (auto simp: slot_holds_def)
qed

lemma slot_result_live:
  "rs_pool st = Some p \<Longrightarrow> pool_fits sizes p \<Longrightarrow> i < 2 \<Longrightarrow> sl_result (pl_slots p ! i) = Some r \<Longrightarrow>
   slot_result st (of_nat i) = Ret r"
  by (simp add: slot_result_def nth_o_def pool_fits_def)

lemma slot_fits_iff:
  "j < 2 \<Longrightarrow> slot_fits sizes p (of_nat j) \<longleftrightarrow>
     of_nat j < pl_slot_count p \<and> sl_storage_offset (pl_slots p ! j) \<le> pl_allocation_size p \<and>
     sl_storage_size (pl_slots p ! j) \<le> pl_allocation_size p - sl_storage_offset (pl_slots p ! j) \<and>
     ly_result_offset (pl_layout p) \<le> sl_storage_size (pl_slots p ! j) \<and>
     sizeof_result sizes \<le> sl_storage_size (pl_slots p ! j) - ly_result_offset (pl_layout p)"
  by (auto simp: slot_fits_def apta_internal_result_pool_get_slot_storage_def Let_def not_less not_le split: if_splits)

lemma pool_fits_update:
  assumes "pool_fits sizes p" "pl_address p' = pl_address p" "pl_slot_count p' = pl_slot_count p"
    "pl_layout p' = pl_layout p" "pl_allocation_size p' = pl_allocation_size p" "length (pl_slots p') = 2"
    "\<And>j. j < 2 \<Longrightarrow> sl_storage_offset (pl_slots p' ! j) = sl_storage_offset (pl_slots p ! j) \<and>
       sl_storage_size (pl_slots p' ! j) = sl_storage_size (pl_slots p ! j)"
  shows "pool_fits sizes p'"
proof -
  have "slot_fits sizes p' (of_nat j)" if j: "j < 2" for j
  proof -
    have "slot_fits sizes p (of_nat j)" using assms(1) j by (simp add: pool_fits_def)
    then show ?thesis using assms(2-5) assms(7) [OF j] j
      by (simp add: slot_fits_iff)
  qed
  then show ?thesis using assms by (simp add: pool_fits_def)
qed

text \<open>Rewriting the result of a live slot: reference counts and contents.\<close>

lemma store_set_slot_result:
  assumes ok: "store_ok sizes base alive refs st" and i: "i < 2" "0 < refs i" and n: "0 < n"
    and r': "unat (lr_reference_count r') = n" "lr_slot_index r' = of_nat i"
  shows "store_ok sizes base alive (refs(i := n)) (set_slot_result st (of_nat i) r')"
    "j < 2 \<Longrightarrow> contents (set_slot_result st (of_nat i) r') j = (if j = i then Some (lr_contents r') else contents st j)"
proof -
  obtain p r where p: "rs_pool st = Some p" "pool_fits sizes p"
      "pool_counts refs ((if alive then 1 else 0) + busy refs) p"
    "sl_result (pl_slots p ! i) = Some r" "unat (lr_reference_count r) = refs i" "lr_slot_index r = of_nat i"
    "sl_active (pl_slots p ! i) = 1"
    using store_live [OF ok i] .
  have len: "length (pl_slots p) = 2" using p(2) by (simp add: pool_fits_def)
  have b: "busy (refs(i := n)) = busy refs" using i n by (auto simp: busy_def numeral_2_eq_2 less_Suc_eq)
  let ?p = "p\<lparr>pl_slots := (pl_slots p)[i := (pl_slots p ! i)\<lparr>sl_result := Some r'\<rparr>]\<rparr>"
  have st: "set_slot_result st (of_nat i) r' = st\<lparr>rs_pool := Some ?p\<rparr>"
    using i p(1) by (simp add: set_slot_result_def)
  have "pool_fits sizes ?p"
    by (rule pool_fits_update [OF p(2)]) (use len i in \<open>auto simp: nth_list_update\<close>)
  moreover have "pool_counts (refs(i := n)) ((if alive then 1 else 0) + busy refs) ?p"
    using p(3,7) len i n r' by (auto simp: pool_counts_def nth_list_update slot_holds_def)
  ultimately show "store_ok sizes base alive (refs(i := n)) (set_slot_result st (of_nat i) r')"
    using ok p(1) b unfolding st by (simp add: store_ok_def accounted_def)
  show "j < 2 \<Longrightarrow> contents (set_slot_result st (of_nat i) r') j =
      (if j = i then Some (lr_contents r') else contents st j)"
    using len p(1) i unfolding st by (simp add: contents_def nth_list_update)
qed

lemma retain_ok:
  assumes ok: "store_ok sizes base alive refs st" and i: "i < 2" "0 < refs i" and lim: "refs i + 1 < 4294967296"
  obtains st' where "apta_internal_result_retain st (of_nat i) = Ret st'"
    "store_ok sizes base alive (refs(i := refs i + 1)) st'" "keeps refs st st'"
proof -
  obtain p r where p: "rs_pool st = Some p" "pool_fits sizes p"
      "pool_counts refs ((if alive then 1 else 0) + busy refs) p"
    "sl_result (pl_slots p ! i) = Some r" "unat (lr_reference_count r) = refs i" "lr_slot_index r = of_nat i"
    "sl_active (pl_slots p ! i) = 1"
    using store_live [OF ok i] .
  let ?r = "r\<lparr>lr_reference_count := lr_reference_count r + 1\<rparr>"
  have u: "unat (lr_reference_count ?r) = refs i + 1" using p(5) lim by (simp add: unat_plus_u32)
  have c: "contents st i = Some (lr_contents r)" using p(1,4) by (simp add: contents_def)
  show ?thesis
  proof
    show "apta_internal_result_retain st (of_nat i) = Ret (set_slot_result st (of_nat i) ?r)"
      by (simp add: apta_internal_result_retain_def slot_result_live [OF p(1,2) i(1) p(4)])
    show "store_ok sizes base alive (refs(i := refs i + 1)) (set_slot_result st (of_nat i) ?r)"
      by (rule store_set_slot_result(1) [OF ok i _ u]) (use p(6) in simp_all)
    show "keeps refs st (set_slot_result st (of_nat i) ?r)"
      using store_set_slot_result(2) [OF ok i _ u] p(6) c by (auto simp: keeps_def set_slot_result_def)
  qed
qed

lemma busy_update: "i < 2 \<Longrightarrow> busy (refs(i := n)) + (if 0 < refs i then 1 else 0) = busy refs + (if 0 < n then 1 else 0)"
  by (auto simp: busy_def numeral_2_eq_2 less_Suc_eq)

lemma busy_le: "busy refs \<le> 2"
  by (simp add: busy_def)

text \<open>Dropping one reference of the pool; the last one gives the memory back.\<close>

lemma pool_release_ok:
  assumes acc: "accounted base (Some p) n alive (rs_context st)" and p: "rs_pool st = Some p" "pool_fits sizes p"
    and cnt: "pl_reference_count p = of_nat (Suc k)" "k < 3"
    and slots: "\<forall>i<2. slot_holds i (pl_slots p ! i) (refs i)" and k: "k = (if alive then 1 else 0) + busy refs"
    and n: "n = busy refs"
  obtains st' where "apta_internal_result_pool_release st = Ret st'" "store_ok sizes base alive refs st'"
    "keeps refs st st'"
proof (cases "k = 0")
  case True
  then have "pl_reference_count p = 1" "\<not> alive" "busy refs = 0" using cnt k by (auto split: if_splits)
  let ?st = "st\<lparr>rs_pool := None,
    rs_context := apta_internal_context_deallocate (rs_context st) (Some (pl_address p))\<rparr>"
  have "accounted base None 0 False (rs_context ?st)"
    using acc n \<open>busy refs = 0\<close> \<open>\<not> alive\<close> by (auto simp: accounted_def apta_internal_context_deallocate_def)
  then have "store_ok sizes base alive refs ?st" using \<open>busy refs = 0\<close> \<open>\<not> alive\<close> by (simp add: store_ok_def)
  moreover have "keeps refs st ?st" using \<open>busy refs = 0\<close> by (auto simp: keeps_def busy_def less_2)
  moreover have "apta_internal_result_pool_release st = Ret ?st"
    using p \<open>pl_reference_count p = 1\<close> by (simp add: apta_internal_result_pool_release_def Let_def)
  ultimately show ?thesis using that by blast
next
  case False
  let ?p = "p\<lparr>pl_reference_count := pl_reference_count p - 1\<rparr>"
  let ?st = "st\<lparr>rs_pool := Some ?p\<rparr>"
  have "(of_nat (Suc k) :: u32) \<noteq> 1"
  proof
    assume "(of_nat (Suc k) :: u32) = 1"
    then have "unat (of_nat (Suc k) :: u32) = 1" by simp
    then show False using cnt(2) False by (simp only: unat_of_nat) (auto simp: numeral_3_eq_3 less_Suc_eq)
  qed
  then have ne: "pl_reference_count p \<noteq> 1" using cnt by simp
  have "pool_fits sizes ?p" by (rule pool_fits_update [OF p(2)]) (use p(2) in \<open>auto simp: pool_fits_def\<close>)
  moreover have "pool_counts refs k ?p" using False cnt slots by (simp add: pool_counts_def)
  ultimately have "store_ok sizes base alive refs ?st"
    using acc k n by (simp add: store_ok_def accounted_def)
  moreover have "keeps refs st ?st" using p(1) by (simp add: keeps_def contents_def)
  moreover have "apta_internal_result_pool_release st = Ret ?st"
    using p ne by (simp add: apta_internal_result_pool_release_def Let_def)
  ultimately show ?thesis using that by blast
qed

lemma release_ok:
  assumes ok: "store_ok sizes base alive refs st" and i: "i < 2" "0 < refs i"
  obtains st' where "apta_internal_result_release st (Some (of_nat i)) = Ret st'"
    "store_ok sizes base alive (refs(i := refs i - 1)) st'" "keeps (refs(i := refs i - 1)) st st'"
proof -
  obtain p r where p: "rs_pool st = Some p" "pool_fits sizes p"
      "pool_counts refs ((if alive then 1 else 0) + busy refs) p"
    "sl_result (pl_slots p ! i) = Some r" "unat (lr_reference_count r) = refs i" "lr_slot_index r = of_nat i"
    "sl_active (pl_slots p ! i) = 1"
    using store_live [OF ok i] .
  let ?r = "r\<lparr>lr_reference_count := lr_reference_count r - 1\<rparr>"
  have sr: "slot_result st (of_nat i) = Ret r" by (rule slot_result_live [OF p(1,2) i(1) p(4)])
  have len: "length (pl_slots p) = 2" using p(2) by (simp add: pool_fits_def)
  have c: "contents st i = Some (lr_contents r)" using p(1,4) by (simp add: contents_def)
  show ?thesis
  proof (cases "refs i = 1")
    case False
    then have ne: "lr_reference_count r \<noteq> 1" using p(5) by auto
    have "lr_reference_count r \<noteq> 0" using p(5) i by auto
    then have u: "unat (lr_reference_count ?r) = refs i - 1" using p(5) by (simp add: unat_minus_one)
    have pos: "0 < refs i - 1" using False i by simp
    show ?thesis
    proof
      show "apta_internal_result_release st (Some (of_nat i)) = Ret (set_slot_result st (of_nat i) ?r)"
        using ne by (simp add: apta_internal_result_release_def sr Let_def)
      show "store_ok sizes base alive (refs(i := refs i - 1)) (set_slot_result st (of_nat i) ?r)"
        by (rule store_set_slot_result(1) [OF ok i pos u]) (use p(6) in simp)
      show "keeps (refs(i := refs i - 1)) st (set_slot_result st (of_nat i) ?r)"
        using store_set_slot_result(2) [OF ok i pos u] p(6) c by (auto simp: keeps_def set_slot_result_def)
    qed
  next
    case True
    then have one: "lr_reference_count r = 1" using p(5) by (simp add: word_eq_iff_unsigned [where 'a = nat])
    define s where "s = (pl_slots p ! i)\<lparr>sl_result := Some ?r, sl_active := 0\<rparr>"
    define p2 where "p2 = p\<lparr>pl_slots := (pl_slots p)[i := s]\<rparr>"
    define st2 where "st2 = st\<lparr>rs_context := (rs_context st)\<lparr>result_count := result_count (rs_context st) - 1\<rparr>,
      rs_pool := Some p2\<rparr>"
    have "\<not> pl_slot_count p \<le> of_nat i"
    proof -
      have "slot_fits sizes p (of_nat i)" using p(2) i by (simp add: pool_fits_def)
      then show ?thesis using i by (simp add: slot_fits_iff not_le)
    qed
    then have eq: "apta_internal_result_release st (Some (of_nat i)) = apta_internal_result_pool_release st2"
      using one p(1,6,7) i len
      by (simp add: apta_internal_result_release_def sr Let_def set_slot_result_def
          apta_internal_result_pool_release_result_slot_def st2_def p2_def s_def)
    have refs': "refs(i := refs i - 1) = refs(i := 0)" using True by simp
    have b: "busy refs = Suc (busy (refs(i := 0)))" using busy_update [OF i(1), of refs 0] i by simp
    have fits: "pool_fits sizes p2"
      by (rule pool_fits_update [OF p(2)]) (use len i in \<open>auto simp: p2_def s_def nth_list_update\<close>)
    have slots: "\<forall>j<2. slot_holds j (pl_slots p2 ! j) ((refs(i := 0)) j)"
      using p(3) len i by (auto simp: p2_def s_def nth_list_update pool_counts_def slot_holds_def)
    have cnt: "pl_reference_count p2 = of_nat (Suc ((if alive then 1 else 0) + busy (refs(i := 0))))"
      using p(3) b by (simp add: p2_def pool_counts_def)
    have lt: "(if alive then 1 else 0) + busy (refs(i := 0)) < 3" using b busy_le [of refs] by auto
    have acc: "accounted base (Some p2) (busy (refs(i := 0))) alive (rs_context st2)"
      using ok p(1) b by (auto simp: store_ok_def accounted_def st2_def p2_def)
    have p2: "rs_pool st2 = Some p2" by (simp add: st2_def)
    obtain st' where st': "apta_internal_result_pool_release st2 = Ret st'" "store_ok sizes base alive (refs(i := 0)) st'"
        "keeps (refs(i := 0)) st2 st'"
      using pool_release_ok [OF acc p2 fits cnt lt slots refl refl] .
    have "contents st2 j = contents st j" if "j < 2" "j \<noteq> i" for j
      using that p(1) len i by (simp add: contents_def st2_def p2_def)
    then have "keeps (refs(i := 0)) st st'" using st'(3) i by (auto simp: keeps_def st2_def split: if_splits)
    then show ?thesis using that st' eq refs' by simp
  qed
qed

lemma claim_slot_two:
  "claim_slot [a, b] 0 = (if sl_active a = 0 then Some 0 else if sl_active b = 0 then Some 1 else None)"
  by simp

text \<open>A fresh result takes a slot nobody refers to, unless both are in use.\<close>

lemma create_empty_ok:
  assumes ok: "store_ok sizes base True refs st"
  shows "0 < refs 0 \<and> 0 < refs 1 \<and>
      apta_internal_result_pool_create_empty_result sizes st config gen ss changed lh ll =
        Ret (ERROR_RESULT_SLOTS_EXHAUSTED, None, st) \<or>
    (\<exists>i st'. i < 2 \<and> refs i = 0 \<and>
       apta_internal_result_pool_create_empty_result sizes st config gen ss changed lh ll =
         Ret (STATUS_OK, Some (of_nat i), st') \<and>
       store_ok sizes base True (refs(i := 1)) st' \<and> keeps refs st st' \<and>
       contents st' i = Some (empty_result config gen ss changed))"
proof -
  obtain p where p: "rs_pool st = Some p" "pool_fits sizes p" "pool_counts refs (1 + busy refs) p"
    using ok by (auto simp: store_ok_def split: option.splits)
  have len: "length (pl_slots p) = 2" "pl_slot_count p = 2" using p(2) by (simp_all add: pool_fits_def)
  have holds: "slot_holds j (pl_slots p ! j) (refs j)" if "j < 2" for j using p(3) that by (simp add: pool_counts_def)
  have two: "take (unat (pl_slot_count p)) (pl_slots p) = [pl_slots p ! 0, pl_slots p ! 1]"
  proof -
    obtain a b where "pl_slots p = [a, b]" using len(1) by (auto simp: numeral_2_eq_2 length_Suc_conv)
    then show ?thesis using len(2) by simp
  qed
  have act: "sl_active (pl_slots p ! j) = 0 \<longleftrightarrow> refs j = 0" if "j < 2" for j
    using holds [OF that] by (auto simp: slot_holds_def split: if_splits)
  show ?thesis
  proof (cases "claim_slot (take (unat (pl_slot_count p)) (pl_slots p)) 0")
    case None
    then have "0 < refs 0" "0 < refs 1" using act [of 0] act [of 1] unfolding two by (auto split: if_splits)
    then show ?thesis using None p(1) by (simp add: apta_internal_result_pool_create_empty_result_def)
  next
    case (Some i)
    then have i: "i < 2" "refs i = 0" using act [of 0] act [of 1] unfolding two by (auto split: if_splits)
    define r where "r = \<lparr>lr_reference_count = 1, lr_slot_index = of_nat i, lr_lineage_id_high = lh,
      lr_lineage_id_low = ll, lr_contents = empty_result config gen ss changed\<rparr>"
    define p' where "p' = p\<lparr>pl_slots := (pl_slots p)[i := (pl_slots p ! i)\<lparr>sl_active := 1, sl_result := Some r\<rparr>],
      pl_reference_count := pl_reference_count p + 1\<rparr>"
    define st' where "st' = st\<lparr>rs_pool := Some p',
      rs_context := (rs_context st)\<lparr>result_count := result_count (rs_context st) + 1\<rparr>\<rparr>"
    have fit: "slot_fits sizes p (of_nat i)" using p(2) i by (simp add: pool_fits_def)
    have eq: "apta_internal_result_pool_create_empty_result sizes st config gen ss changed lh ll =
        Ret (STATUS_OK, Some (of_nat i), st')"
      using Some p(1) fit
      by (simp add: apta_internal_result_pool_create_empty_result_def apta_internal_result_pool_retain_def
          r_def p'_def st'_def Let_def)
    have b: "busy (refs(i := 1)) = Suc (busy refs)" using busy_update [OF i(1), of refs 1] i by simp
    have "pool_fits sizes p'"
      by (rule pool_fits_update [OF p(2)]) (use len i in \<open>auto simp: p'_def nth_list_update\<close>)
    moreover have "pool_counts (refs(i := 1)) (1 + busy (refs(i := 1))) p'"
      using p(3) len i b by (auto simp: p'_def r_def nth_list_update pool_counts_def slot_holds_def algebra_simps)
    ultimately have "store_ok sizes base True (refs(i := 1)) st'"
      using ok p(1) b by (auto simp: store_ok_def accounted_def st'_def p'_def)
    moreover have "keeps refs st st'"
      using p(1) i len by (auto simp: keeps_def contents_def st'_def p'_def nth_list_update)
    moreover have "contents st' i = Some (empty_result config gen ss changed)"
      using i len by (simp add: contents_def st'_def p'_def r_def)
    ultimately show ?thesis using eq i by blast
  qed
qed

text \<open>A snapshot is built in a free slot, or the store is as it was.\<close>

lemma create_session_ok:
  assumes ok: "store_ok sizes base True refs st"
  shows "\<exists>status out st'. apta_internal_result_pool_create_session_result sizes fill st config ss lh ll gen changed =
      Ret (status, out, st') \<and> keeps refs st st' \<and>
    (case out of
       None \<Rightarrow> failed status \<and> store_ok sizes base True refs st' \<and>
         (0 < refs 0 \<and> 0 < refs 1 \<and> status = ERROR_RESULT_SLOTS_EXHAUSTED \<or>
          (refs 0 = 0 \<or> refs 1 = 0) \<and> status = fst (fill (empty_result config gen ss changed)))
     | Some k \<Rightarrow> status = STATUS_OK \<and> \<not> failed (fst (fill (empty_result config gen ss changed))) \<and> (\<exists>i<2. k = of_nat i \<and> refs i = 0 \<and>
         store_ok sizes base True (refs(i := 1)) st' \<and>
         contents st' i = Some (snd (fill (empty_result config gen ss changed)))))"
proof -
  let ?e = "empty_result config gen ss changed"
  have free: "refs 0 = 0 \<or> refs 1 = 0" if "i < 2" "refs i = 0" for i
    using that by (auto simp: numeral_2_eq_2 less_Suc_eq)
  show ?thesis using create_empty_ok [OF ok, of config gen ss changed lh ll]
  proof (elim disjE exE conjE, goal_cases full slot)
    case full
    then show ?thesis using ok
      by (simp add: apta_internal_result_pool_create_session_result_def keeps_def)
  next
    case (slot i st1)
    obtain p r where p: "rs_pool st1 = Some p" "pool_fits sizes p"
        "pool_counts (refs(i := 1)) ((if True then 1 else 0) + busy (refs(i := 1))) p"
      "sl_result (pl_slots p ! i) = Some r" "unat (lr_reference_count r) = (refs(i := 1)) i"
      "lr_slot_index r = of_nat i" "sl_active (pl_slots p ! i) = 1"
      using store_live [OF slot(4) slot(1)] by auto
    have r: "slot_result st1 (of_nat i) = Ret r" "lr_contents r = ?e" "unat (lr_reference_count r) = 1"
      using slot_result_live [OF p(1,2) slot(1) p(4)] slot(6) p(1,4,5) by (simp_all add: contents_def)
    obtain s c where fill: "fill ?e = (s, c)" by fastforce
    let ?r = "r\<lparr>lr_contents := c\<rparr>" and ?st = "set_slot_result st1 (of_nat i) (r\<lparr>lr_contents := c\<rparr>)"
    have st2: "store_ok sizes base True (refs(i := 1)) ?st"
      "\<And>j. j < 2 \<Longrightarrow> contents ?st j = (if j = i then Some c else contents st1 j)"
      using store_set_slot_result [OF slot(4) slot(1), of 1 ?r] r(3) p(6) by simp_all
    have keep: "keeps refs st ?st"
      using slot(2,5) st2(2) by (auto simp: keeps_def set_slot_result_def)
    show ?thesis
    proof (cases "failed s")
      case False
      then show ?thesis using slot(1-3) r fill st2 keep
        by (auto simp: apta_internal_result_pool_create_session_result_def Let_def)
    next
      case True
      obtain st3 where st3: "apta_internal_result_release ?st (Some (of_nat i)) = Ret st3"
        "store_ok sizes base True ((refs(i := 1))(i := (refs(i := 1)) i - 1)) st3"
        "keeps ((refs(i := 1))(i := (refs(i := 1)) i - 1)) ?st st3"
        using release_ok [OF st2(1) slot(1)] by auto
      have same: "(refs(i := 1))(i := (refs(i := 1)) i - 1) = refs" using slot(2) by auto
      have "keeps refs st st3" using keep st3(3) unfolding same by (simp add: keeps_def)
      then show ?thesis using True slot(1-3) r fill st3(1,2) same free [OF slot(1,2)]
        by (simp add: apta_internal_result_pool_create_session_result_def Let_def)
    qed
  qed
qed

section \<open>Creation\<close>

text \<open>The part of \<open>apta_session_create\<close> for bounded sessions behind the workspace: pool, first
  result, commit.\<close>

definition create_results ::
    "host_allocator \<Rightarrow> struct_sizes \<Rightarrow> struct_alignments \<Rightarrow> apta_context \<Rightarrow> session_config \<Rightarrow> u64 \<Rightarrow> u64 \<Rightarrow>
     (apta_status \<times> result_store) outcome" where
  "create_results host sizes al ctx config lineage_high lineage_low =
     (case apta_internal_result_pool_create host sizes al ctx config of
        (status, pool, ctx1) \<Rightarrow>
          let st = \<lparr>rs_context = ctx1, rs_pool = pool, rs_current = None, rs_generation = 0\<rparr>
          in if failed status then Ret (status, st)
             else
               obind (apta_internal_result_pool_create_empty_result sizes st config 1 SESSION_CREATED 0
                        lineage_high lineage_low) (\<lambda>(status, result, st1).
               if failed status
               then obind (apta_internal_result_pool_release st1) (\<lambda>st2. Ret (status, st2))
               else Ret (STATUS_OK,
                 st1\<lparr>rs_current := result, rs_generation := 1,
                     rs_context := (rs_context st1)\<lparr>session_count := session_count (rs_context st1) + 1\<rparr>\<rparr>)))"

lemma context_allocate_effect:
  assumes "apta_internal_context_allocate host ctx sz a = (Some p, ctx')"
  shows "\<exists>h. headers ctx' = (p, h) # headers ctx \<and> allocated_bytes ctx' = allocated_bytes ctx + requested_size h \<and>
    result_count ctx' = result_count ctx \<and> session_count ctx' = session_count ctx"
  using assms
  by (auto simp: apta_internal_context_allocate_def apta_internal_reserve_bytes_def Let_def
      split: if_splits option.splits)

lemma failed_layout: "apta_internal_result_pool_calculate_layout sizes al config = Fail e \<Longrightarrow> failed e"
  unfolding apta_internal_result_pool_calculate_layout_def Let_def
  by (auto split: if_split_asm option.split_asm)

lemma layout_slot_fits:
  assumes "layout_ok sizes al l" "pl_layout p = l" "pl_allocation_size p = ly_total_bytes l" "pl_slot_count p = 2"
    and "pl_slots p = map (\<lambda>off. \<lparr>sl_active = 0, sl_storage_offset = off,
            sl_storage_size = ly_slot_bytes l, sl_result = None\<rparr>) (ly_slot_offsets l)"
  shows "pool_fits sizes p"
proof -
  have l: "laid_out 0 (regions sizes al l) (unat (ly_slot_bytes l))" "length (ly_slot_offsets l) = 2"
    "laid_out (unat (sizeof_result_pool_control sizes))
       (map (\<lambda>off. (off, MAX_ALIGNMENT, unat (ly_slot_bytes l))) (ly_slot_offsets l)) (unat (ly_total_bytes l))"
    using assms(1) by (simp_all add: layout_ok_def)
  have r: "unat (ly_result_offset l) + unat (sizeof_result sizes) \<le> unat (ly_slot_bytes l)"
    using laid_out_bounds [OF l(1), of "ly_result_offset l" "alignof_result al" "unat (sizeof_result sizes)"]
    by (simp add: regions_def)
  have s: "unat (ly_slot_offsets l ! j) + unat (ly_slot_bytes l) \<le> unat (ly_total_bytes l)" if "j < 2" for j
  proof -
    have "(ly_slot_offsets l ! j, MAX_ALIGNMENT, unat (ly_slot_bytes l)) \<in>
        set (map (\<lambda>off. (off, MAX_ALIGNMENT, unat (ly_slot_bytes l))) (ly_slot_offsets l))"
      using that l(2) by simp
    from laid_out_bounds [OF l(3) this] show ?thesis by simp
  qed
  have "slot_fits sizes p (of_nat j)" if "j < 2" for j
  proof -
    have "(of_nat j :: u32) < 2" using that by (simp add: word_less_nat_alt)
    then show ?thesis using that r s [OF that] assms(2-5) l(2)
      by (simp add: slot_fits_iff word_le_nat_alt unat_sub) linarith
  qed
  then show ?thesis using assms(4,5) l(2) by (simp add: pool_fits_def)
qed

lemma pool_create_ok:
  assumes "apta_internal_result_pool_create host sizes al ctx config = (s, pool, ctx')" "\<not> failed s"
  shows "store_ok sizes (ctx\<lparr>session_count := session_count ctx - 1\<rparr>) True (\<lambda>_. 0)
    \<lparr>rs_context = ctx', rs_pool = pool, rs_current = None, rs_generation = 0\<rparr>"
proof -
  obtain l p where l: "apta_internal_result_pool_calculate_layout sizes al config = Ret l"
    and a: "apta_internal_context_allocate host ctx (ly_total_bytes l) MAX_ALIGNMENT = (Some p, ctx')"
    and pool: "pool = Some \<lparr>pl_address = p, pl_reference_count = 1, pl_allocation_size = ly_total_bytes l,
        pl_slot_count = ly_slot_count l, pl_layout = l,
        pl_slots = map (\<lambda>off. \<lparr>sl_active = 0, sl_storage_offset = off,
          sl_storage_size = ly_slot_bytes l, sl_result = None\<rparr>) (ly_slot_offsets l)\<rparr>"
    using assms by (auto simp: apta_internal_result_pool_create_def dest: failed_layout split: outcome.splits option.splits prod.splits)
  note ok = calculated_layout_ok [OF l]
  have two: "ly_slot_count l = 2" "length (ly_slot_offsets l) = 2" using ok by (simp_all add: layout_ok_def)
  have "pool_fits sizes (the pool)" by (rule layout_slot_fits [OF ok]) (simp_all add: pool two)
  moreover have "pool_counts (\<lambda>_. 0) 1 (the pool)"
    using two by (simp add: pool pool_counts_def slot_holds_def)
  ultimately show ?thesis
    using context_allocate_effect [OF a] pool by (auto simp: store_ok_def accounted_def busy_def)
qed

section \<open>A session, its readers and the pool\<close>

text \<open>\<open>pw_held i\<close> counts the references the host has acquired to the result of slot \<open>i\<close> and not yet
  released; \<open>pw_alive\<close> says whether the session still exists.\<close>

record pool_world =
  pw_store :: result_store
  pw_held :: "nat \<Rightarrow> nat"
  pw_alive :: bool

datatype pool_op = Publish builder u32 u64 | Acquire | Release nat | Destroy

fun run_op :: "struct_sizes \<Rightarrow> session_config \<Rightarrow> u64 \<Rightarrow> u64 \<Rightarrow> pool_op \<Rightarrow> pool_world \<Rightarrow> pool_world outcome" where
  "run_op sizes config lh ll (Publish fill sstate changed) w =
     obind (publish_bounded sizes fill config sstate lh ll (pw_store w) changed) (\<lambda>(status, st).
     Ret (w\<lparr>pw_store := st\<rparr>))"
| "run_op sizes config lh ll Acquire w =
     obind (apta_session_acquire_result (pw_store w)) (\<lambda>(result, st).
     Ret (w\<lparr>pw_store := st,
            pw_held := (case result of None \<Rightarrow> pw_held w
                        | Some k \<Rightarrow> (pw_held w)(unat k := pw_held w (unat k) + 1))\<rparr>))"
| "run_op sizes config lh ll (Release i) w =
     obind (apta_internal_result_release (pw_store w) (Some (of_nat i))) (\<lambda>st.
     Ret (w\<lparr>pw_store := st, pw_held := (pw_held w)(i := pw_held w i - 1)\<rparr>))"
| "run_op sizes config lh ll Destroy w =
     obind (destroy_results (pw_store w)) (\<lambda>st. Ret (w\<lparr>pw_store := st, pw_alive := False\<rparr>))"

text \<open>The contract of the interface: a session is used until it is destroyed, a reference is released
  once; fewer than \<open>2\<^sup>3\<^sup>2 - 1\<close> references are held at a time.\<close>

fun permitted :: "pool_op \<Rightarrow> pool_world \<Rightarrow> bool" where
  "permitted (Publish fill sstate changed) w \<longleftrightarrow> pw_alive w"
| "permitted Acquire w \<longleftrightarrow> pw_alive w \<and> pw_held w 0 < 4294967294 \<and> pw_held w 1 < 4294967294"
| "permitted (Release i) w \<longleftrightarrow> 0 < pw_held w i"
| "permitted Destroy w \<longleftrightarrow> pw_alive w"

definition world_refs :: "pool_world \<Rightarrow> nat \<Rightarrow> nat" where
  "world_refs w i = pw_held w i + (if rs_current (pw_store w) = Some (of_nat i) then 1 else 0)"

definition world_ok :: "struct_sizes \<Rightarrow> apta_context \<Rightarrow> pool_world \<Rightarrow> bool" where
  "world_ok sizes base w \<longleftrightarrow>
     store_ok sizes base (pw_alive w) (world_refs w) (pw_store w) \<and> (\<forall>i. 0 < pw_held w i \<longrightarrow> i < 2) \<and>
     (if pw_alive w then \<exists>k<2. rs_current (pw_store w) = Some (of_nat k) else rs_current (pw_store w) = None)"

text \<open>The snapshots the host holds across an operation stay as they are.\<close>

definition held_unchanged :: "pool_world \<Rightarrow> pool_world \<Rightarrow> bool" where
  "held_unchanged w w' \<longleftrightarrow>
     (\<forall>i. 0 < pw_held w i \<and> 0 < pw_held w' i \<longrightarrow> contents (pw_store w') i = contents (pw_store w) i)"

lemma busy_cong: "refs 0 = refs' 0 \<Longrightarrow> refs 1 = refs' 1 \<Longrightarrow> busy refs = busy refs'"
  by (simp add: busy_def)

lemma store_ok_cong: "store_ok sizes base alive refs st \<Longrightarrow> refs 0 = refs' 0 \<Longrightarrow> refs 1 = refs' 1 \<Longrightarrow>
    store_ok sizes base alive refs' st"
  using busy_cong [of refs refs'] by (auto simp: store_ok_def pool_counts_def less_2 split: option.splits)

lemma store_ok_fields:
  "store_ok sizes base alive refs (st\<lparr>rs_current := c, rs_generation := g\<rparr>) = store_ok sizes base alive refs st"
  "store_ok sizes base alive refs (st\<lparr>rs_current := c\<rparr>) = store_ok sizes base alive refs st"
  by (simp_all add: store_ok_def)

lemma contents_fields:
  "contents (st\<lparr>rs_current := c, rs_generation := g\<rparr>) i = contents st i"
  "contents (st\<lparr>rs_current := c\<rparr>) i = contents st i"
  "contents (st\<lparr>rs_context := x\<rparr>) i = contents st i"
  by (simp_all add: contents_def)

lemma of_nat_two: "i < 2 \<Longrightarrow> j < 2 \<Longrightarrow> (of_nat i :: u32) = of_nat j \<longleftrightarrow> i = j"
  by (metis unat_small)

text \<open>A publication: either the store keeps its result, or the new one replaces it.\<close>

lemma publish_ok:
  assumes ok: "store_ok sizes base True refs st" and cur: "rs_current st = Some (of_nat c)" "c < 2" "0 < refs c"
  shows "\<exists>s st'. publish_bounded sizes fill config ss lh ll st changed = Ret (s, st') \<and>
    (if failed s
     then store_ok sizes base True refs st' \<and> keeps refs st st' \<and>
       (rs_generation st = UINT64_MAX \<and> s = ERROR_LIMIT_EXCEEDED \<or>
        rs_generation st \<noteq> UINT64_MAX \<and> 0 < refs 0 \<and> 0 < refs 1 \<and> s = ERROR_RESULT_SLOTS_EXHAUSTED \<or>
        rs_generation st \<noteq> UINT64_MAX \<and> (refs 0 = 0 \<or> refs 1 = 0) \<and>
          s = fst (fill (empty_result config (rs_generation st + 1) ss changed)))
     else rs_generation st \<noteq> UINT64_MAX \<and> \<not> failed (fst (fill (empty_result config (rs_generation st + 1) ss changed))) \<and>
       (\<exists>i<2. refs i = 0 \<and> rs_current st' = Some (of_nat i) \<and> rs_generation st' = rs_generation st + 1 \<and>
       store_ok sizes base True (refs(i := 1, c := refs c - 1)) st' \<and>
       contents st' i = Some (snd (fill (empty_result config (rs_generation st + 1) ss changed))) \<and>
       (\<forall>j<2. 0 < (refs(c := refs c - 1)) j \<longrightarrow> contents st' j = contents st j)))"
proof (cases "rs_generation st = UINT64_MAX")
  case True
  then show ?thesis using ok by (simp add: publish_bounded_def keeps_def)
next
  case False
  let ?g = "rs_generation st + 1"
  obtain status out st1 where cs:
    "apta_internal_result_pool_create_session_result sizes fill st config ss lh ll ?g changed = Ret (status, out, st1)"
    "keeps refs st st1"
    "case out of
       None \<Rightarrow> failed status \<and> store_ok sizes base True refs st1 \<and>
         (0 < refs 0 \<and> 0 < refs 1 \<and> status = ERROR_RESULT_SLOTS_EXHAUSTED \<or>
          (refs 0 = 0 \<or> refs 1 = 0) \<and> status = fst (fill (empty_result config ?g ss changed)))
     | Some k \<Rightarrow> status = STATUS_OK \<and> \<not> failed (fst (fill (empty_result config ?g ss changed))) \<and> (\<exists>i<2. k = of_nat i \<and> refs i = 0 \<and>
         store_ok sizes base True (refs(i := 1)) st1 \<and>
         contents st1 i = Some (snd (fill (empty_result config ?g ss changed))))"
    using create_session_ok [OF ok, of fill config ss lh ll ?g changed] by blast
  show ?thesis
  proof (cases out)
    case None
    then show ?thesis using cs False by (simp add: publish_bounded_def Let_def)
  next
    case (Some k)
    then obtain i where i: "i < 2" "k = of_nat i" "refs i = 0" "store_ok sizes base True (refs(i := 1)) st1"
        "contents st1 i = Some (snd (fill (empty_result config ?g ss changed)))" "status = STATUS_OK"
      and built: "\<not> failed (fst (fill (empty_result config ?g ss changed)))"
      using cs(3) by auto
    then have ne: "i \<noteq> c" using cur(3) by auto
    let ?st = "st1\<lparr>rs_current := Some (of_nat i), rs_generation := ?g\<rparr>"
    have ok1: "store_ok sizes base True (refs(i := 1)) ?st" using i(4) by (simp add: store_ok_fields)
    obtain st2 where st2: "apta_internal_result_release ?st (Some (of_nat c)) = Ret st2"
      "store_ok sizes base True ((refs(i := 1))(c := (refs(i := 1)) c - 1)) st2"
      "keeps ((refs(i := 1))(c := (refs(i := 1)) c - 1)) ?st st2"
      using release_ok [OF ok1 cur(2)] ne cur(3) by auto
    have refs: "(refs(i := 1))(c := (refs(i := 1)) c - 1) = refs(i := 1, c := refs c - 1)" using ne by auto
    have "publish_bounded sizes fill config ss lh ll st changed = Ret (STATUS_OK, st2)"
      using cs(1,2) i(2,6) Some False st2(1) cur(1) by (simp add: publish_bounded_def Let_def keeps_def)
    moreover have "contents st2 i = Some (snd (fill (empty_result config ?g ss changed)))"
      using st2(3) i(1,5) ne by (simp add: keeps_def contents_fields)
    moreover have "contents st2 j = contents st j" if "j < 2" "0 < (refs(c := refs c - 1)) j" for j
    proof -
      have "0 < refs j" using that by (cases "j = c") auto
      moreover have "j \<noteq> i" using that i(3) ne by auto
      ultimately show ?thesis using that st2(3) cs(2) ne by (simp add: keeps_def contents_fields split: if_splits)
    qed
    ultimately show ?thesis using i(1,3) st2(2,3) refs False built by (auto simp: keeps_def)
  qed
qed

lemma world_refs_simps:
  "world_refs w 0 = pw_held w 0 + (if rs_current (pw_store w) = Some 0 then 1 else 0)"
  "world_refs w 1 = pw_held w 1 + (if rs_current (pw_store w) = Some 1 then 1 else 0)"
  by (simp_all add: world_refs_def)

lemma two_cases: "(i :: nat) < 2 \<longleftrightarrow> i = 0 \<or> i = 1" by auto

lemma alive_current:
  assumes "world_ok sizes base w" "pw_alive w"
  obtains c where "rs_current (pw_store w) = Some (of_nat c)" "c < 2" "0 < world_refs w c"
    "store_ok sizes base True (world_refs w) (pw_store w)"
  using assms by (auto simp: world_ok_def world_refs_def)

text \<open>One lemma per operation.\<close>

definition op_ok :: "struct_sizes \<Rightarrow> session_config \<Rightarrow> u64 \<Rightarrow> u64 \<Rightarrow> apta_context \<Rightarrow> pool_op \<Rightarrow> pool_world \<Rightarrow> bool" where
  "op_ok sizes config lh ll base opn w \<longleftrightarrow>
     (\<exists>w'. run_op sizes config lh ll opn w = Ret w' \<and> world_ok sizes base w' \<and> held_unchanged w w')"

lemma publish_step:
  assumes w: "world_ok sizes base w" and "pw_alive w"
  shows "op_ok sizes config lh ll base (Publish fill ss changed) w"
proof -
  obtain c where c: "rs_current (pw_store w) = Some (of_nat c)" "c < 2" "0 < world_refs w c"
    "store_ok sizes base True (world_refs w) (pw_store w)"
    using alive_current [OF w assms(2)] .
  obtain s st' where p: "publish_bounded sizes fill config ss lh ll (pw_store w) changed = Ret (s, st')"
    and spec: "if failed s
     then store_ok sizes base True (world_refs w) st' \<and> keeps (world_refs w) (pw_store w) st' \<and>
       (rs_generation (pw_store w) = UINT64_MAX \<and> s = ERROR_LIMIT_EXCEEDED \<or>
        rs_generation (pw_store w) \<noteq> UINT64_MAX \<and> 0 < world_refs w 0 \<and> 0 < world_refs w 1 \<and> s = ERROR_RESULT_SLOTS_EXHAUSTED \<or>
        rs_generation (pw_store w) \<noteq> UINT64_MAX \<and> (world_refs w 0 = 0 \<or> world_refs w 1 = 0) \<and>
          s = fst (fill (empty_result config (rs_generation (pw_store w) + 1) ss changed)))
     else rs_generation (pw_store w) \<noteq> UINT64_MAX \<and>
       \<not> failed (fst (fill (empty_result config (rs_generation (pw_store w) + 1) ss changed))) \<and> (\<exists>i<2. world_refs w i = 0 \<and> rs_current st' = Some (of_nat i) \<and>
       rs_generation st' = rs_generation (pw_store w) + 1 \<and>
       store_ok sizes base True ((world_refs w)(i := 1, c := world_refs w c - 1)) st' \<and>
       contents st' i = Some (snd (fill (empty_result config (rs_generation (pw_store w) + 1) ss changed))) \<and>
       (\<forall>j<2. 0 < ((world_refs w)(c := world_refs w c - 1)) j \<longrightarrow> contents st' j = contents (pw_store w) j))"
    using publish_ok [OF c(4,1-3), of fill config ss lh ll changed] by blast
  let ?w = "w\<lparr>pw_store := st'\<rparr>"
  have lt: "\<And>i. 0 < pw_held w i \<Longrightarrow> i < 2" using w by (simp add: world_ok_def)
  have run: "run_op sizes config lh ll (Publish fill ss changed) w = Ret ?w" using p by simp
  show ?thesis
  proof (cases "failed s")
    case True
    then have s: "store_ok sizes base True (world_refs w) st'" "rs_current st' = rs_current (pw_store w)"
      "\<And>i. i < 2 \<Longrightarrow> 0 < world_refs w i \<Longrightarrow> contents st' i = contents (pw_store w) i"
      using spec by (simp_all add: keeps_def)
    have refs: "world_refs ?w = world_refs w" using s(2) by (auto simp: world_refs_def)
    have "world_ok sizes base ?w" using w s assms(2) refs by (simp add: world_ok_def)
    moreover have "held_unchanged w ?w"
      using s(3) lt by (simp add: held_unchanged_def world_refs_def)
    ultimately show ?thesis using run by (auto simp: op_ok_def)
  next
    case False
    then obtain i where i: "i < 2" "world_refs w i = 0" "rs_current st' = Some (of_nat i)"
       "store_ok sizes base True ((world_refs w)(i := 1, c := world_refs w c - 1)) st'"
       "\<forall>j<2. 0 < ((world_refs w)(c := world_refs w c - 1)) j \<longrightarrow> contents st' j = contents (pw_store w) j"
      using spec by auto
    have refs: "world_refs ?w j = ((world_refs w)(i := 1, c := world_refs w c - 1)) j" if "j < 2" for j
      using that i(1-3) c(1-3) by (auto simp: world_refs_def of_nat_two)
    have "store_ok sizes base True (world_refs ?w) st'"
      by (rule store_ok_cong [OF i(4)]) (use refs [of 0] refs [of 1] in simp_all)
    then have "world_ok sizes base ?w" using w assms(2) i(1,3) by (auto simp: world_ok_def)
    moreover have "held_unchanged w ?w"
    proof -
      have "0 < ((world_refs w)(c := world_refs w c - 1)) j" if "0 < pw_held w j" for j
        using that c(1) by (auto simp: world_refs_def)
      then show ?thesis using i(5) lt by (simp add: held_unchanged_def)
    qed
    ultimately show ?thesis using run by (auto simp: op_ok_def)
  qed
qed

lemma acquire_step:
  assumes w: "world_ok sizes base w" and "permitted Acquire w"
  shows "op_ok sizes config lh ll base Acquire w"
proof -
  have al: "pw_alive w" using assms(2) by simp
  obtain c where c: "rs_current (pw_store w) = Some (of_nat c)" "c < 2" "0 < world_refs w c"
    "store_ok sizes base True (world_refs w) (pw_store w)"
    using alive_current [OF w al] .
  have "world_refs w c + 1 < 4294967296" using assms(2) c(2) by (auto simp: world_refs_def two_cases)
  from retain_ok [OF c(4,2,3) this] obtain st' where st': "apta_internal_result_retain (pw_store w) (of_nat c) = Ret st'"
    "store_ok sizes base True ((world_refs w)(c := world_refs w c + 1)) st'" "keeps (world_refs w) (pw_store w) st'" .
  let ?w = "w\<lparr>pw_store := st', pw_held := (pw_held w)(c := pw_held w c + 1)\<rparr>"
  have run: "run_op sizes config lh ll Acquire w = Ret ?w"
    using c st'(1) by (simp add: apta_session_acquire_result_def)
  have lt: "\<And>i. 0 < pw_held w i \<Longrightarrow> i < 2" using w by (simp add: world_ok_def)
  have cur: "rs_current st' = Some (of_nat c)" using st'(3) c(1) by (simp add: keeps_def)
  have "world_refs ?w = (world_refs w)(c := world_refs w c + 1)"
    using cur c(1) by (auto simp: world_refs_def)
  then have "world_ok sizes base ?w" using w al st'(2) cur c(2) by (auto simp: world_ok_def)
  moreover have "held_unchanged w ?w" using st'(3) lt by (simp add: held_unchanged_def keeps_def world_refs_def)
  ultimately show ?thesis using run by (auto simp: op_ok_def)
qed

lemma release_step:
  assumes w: "world_ok sizes base w" and "0 < pw_held w i"
  shows "op_ok sizes config lh ll base (Release i) w"
proof -
  have lt: "\<And>i. 0 < pw_held w i \<Longrightarrow> i < 2" using w by (simp add: world_ok_def)
  have s: "store_ok sizes base (pw_alive w) (world_refs w) (pw_store w)" using w by (simp add: world_ok_def)
  have i: "i < 2" "0 < world_refs w i" using lt assms(2) by (simp_all add: world_refs_def)
  obtain st' where st': "apta_internal_result_release (pw_store w) (Some (of_nat i)) = Ret st'"
    "store_ok sizes base (pw_alive w) ((world_refs w)(i := world_refs w i - 1)) st'"
    "keeps ((world_refs w)(i := world_refs w i - 1)) (pw_store w) st'"
    using release_ok [OF s i] .
  let ?w = "w\<lparr>pw_store := st', pw_held := (pw_held w)(i := pw_held w i - 1)\<rparr>"
  have cur: "rs_current st' = rs_current (pw_store w)" using st'(3) by (simp add: keeps_def)
  have refs: "world_refs ?w = (world_refs w)(i := world_refs w i - 1)"
    using cur assms(2) by (auto simp: world_refs_def)
  have "world_ok sizes base ?w" using w st'(2) cur refs by (auto simp: world_ok_def split: if_splits)
  moreover have "held_unchanged w ?w"
  proof -
    have "0 < ((world_refs w)(i := world_refs w i - 1)) j" if "0 < pw_held ?w j" for j
      using that refs by (metis add_gr_0 world_refs_def)
    then show ?thesis using st'(3) lt by (simp add: held_unchanged_def keeps_def)
  qed
  ultimately show ?thesis using st'(1) by (auto simp: op_ok_def)
qed

lemma destroy_step:
  assumes w: "world_ok sizes base w" and al: "pw_alive w"
  shows "op_ok sizes config lh ll base Destroy w"
proof -
  obtain c where c: "rs_current (pw_store w) = Some (of_nat c)" "c < 2" "0 < world_refs w c"
    "store_ok sizes base True (world_refs w) (pw_store w)"
    using alive_current [OF w al] .
  let ?st = "(pw_store w)\<lparr>rs_current := None\<rparr>" and ?refs = "(world_refs w)(c := world_refs w c - 1)"
  have ok: "store_ok sizes base True (world_refs w) ?st" using c(4) by (simp add: store_ok_fields)
  obtain st1 where st1: "apta_internal_result_release ?st (Some (of_nat c)) = Ret st1"
      "store_ok sizes base True ?refs st1" "keeps ?refs ?st st1"
    using release_ok [OF ok c(2,3)] .
  obtain p where p: "rs_pool st1 = Some p" "pool_fits sizes p" "pool_counts ?refs (1 + busy ?refs) p"
      "accounted base (Some p) (busy ?refs) True (rs_context st1)"
    using st1(2) by (auto simp: store_ok_def split: option.splits)
  let ?st2 = "st1\<lparr>rs_context := (rs_context st1)\<lparr>session_count := session_count (rs_context st1) - 1\<rparr>\<rparr>"
  have acc: "accounted base (Some p) (busy ?refs) False (rs_context ?st2)" using p(4) by (auto simp: accounted_def)
  have pool: "rs_pool ?st2 = Some p" using p(1) by simp
  have cnt: "pl_reference_count p = of_nat (Suc (busy ?refs))" using p(3) by (simp add: pool_counts_def)
  have slots: "\<forall>i<2. slot_holds i (pl_slots p ! i) (?refs i)" using p(3) by (simp add: pool_counts_def)
  have "busy ?refs < 3" "busy ?refs = (if False then 1 else 0) + busy ?refs" using busy_le [of ?refs] by simp_all
  from pool_release_ok [OF acc pool p(2) cnt this(1) slots this(2) refl]
  obtain st' where st': "apta_internal_result_pool_release ?st2 = Ret st'" "store_ok sizes base False ?refs st'"
    "keeps ?refs ?st2 st'" .
  let ?w = "w\<lparr>pw_store := st', pw_alive := False\<rparr>"
  have run: "run_op sizes config lh ll Destroy w = Ret ?w"
    using c(1) st1(1) st'(1) by (simp add: destroy_results_def)
  have cur: "rs_current st' = None" using st'(3) st1(3) by (simp add: keeps_def)
  have lt: "\<And>i. 0 < pw_held w i \<Longrightarrow> i < 2" using w by (simp add: world_ok_def)
  have held: "?refs j = pw_held w j" if "j < 2" for j
    using that c(1,2) by (auto simp: world_refs_def of_nat_two)
  have "store_ok sizes base False (world_refs ?w) st'"
    by (rule store_ok_cong [OF st'(2)]) (use held [of 0] held [of 1] cur in \<open>simp_all add: world_refs_def\<close>)
  then have "world_ok sizes base ?w" using cur lt by (simp add: world_ok_def)
  moreover have "held_unchanged w ?w"
    using st'(3) st1(3) held lt by (auto simp: held_unchanged_def keeps_def contents_fields)
  ultimately show ?thesis using run by (auto simp: op_ok_def)
qed

lemma run_op_ok:
  assumes "world_ok sizes base w" "permitted opn w"
  shows "op_ok sizes config lh ll base opn w"
  using assms by (cases opn) (auto intro: publish_step acquire_step release_step destroy_step)

section \<open>Reachable states\<close>

definition initial_world :: "result_store \<Rightarrow> pool_world" where
  "initial_world st = \<lparr>pw_store = st, pw_held = (\<lambda>_. 0), pw_alive = True\<rparr>"

inductive pool_reachable :: "struct_sizes \<Rightarrow> session_config \<Rightarrow> u64 \<Rightarrow> u64 \<Rightarrow> pool_world \<Rightarrow> pool_world \<Rightarrow> bool"
  for sizes config lh ll w0 where
  start: "pool_reachable sizes config lh ll w0 w0"
| step: "pool_reachable sizes config lh ll w0 w \<Longrightarrow> permitted opn w \<Longrightarrow>
    run_op sizes config lh ll opn w = Ret w' \<Longrightarrow> pool_reachable sizes config lh ll w0 w'"

lemma store_ok_session_count:
  "store_ok sizes base alive refs st \<Longrightarrow>
   store_ok sizes (base\<lparr>session_count := session_count base + 1\<rparr>) alive refs
     (st\<lparr>rs_context := (rs_context st)\<lparr>session_count := session_count (rs_context st) + 1\<rparr>\<rparr>)"
  by (auto simp: store_ok_def accounted_def split: option.splits)

lemma create_results_created:
  assumes "apta_internal_result_pool_create host sizes al ctx config = (s, pool, ctx')" "\<not> failed s"
  shows "\<exists>st. create_results host sizes al ctx config lh ll = Ret (STATUS_OK, st) \<and>
    world_ok sizes ctx (initial_world st) \<and> rs_generation st = 1"
proof -
  let ?st = "\<lparr>rs_context = ctx', rs_pool = pool, rs_current = None, rs_generation = 0\<rparr>"
  let ?base = "ctx\<lparr>session_count := session_count ctx - 1\<rparr>"
  have ok: "store_ok sizes ?base True (\<lambda>_. 0) ?st" by (rule pool_create_ok [OF assms])
  obtain i st1 where i: "i < 2"
      "apta_internal_result_pool_create_empty_result sizes ?st config 1 SESSION_CREATED 0 lh ll =
         Ret (STATUS_OK, Some (of_nat i), st1)"
      "store_ok sizes ?base True ((\<lambda>_. 0)(i := 1)) st1"
    using create_empty_ok [OF ok, of config 1 SESSION_CREATED 0 lh ll] by auto
  define st where "st = st1\<lparr>rs_current := Some (of_nat i), rs_generation := 1,
    rs_context := (rs_context st1)\<lparr>session_count := session_count (rs_context st1) + 1\<rparr>\<rparr>"
  have "store_ok sizes ctx True ((\<lambda>_. 0)(i := 1))
      (st1\<lparr>rs_context := (rs_context st1)\<lparr>session_count := session_count (rs_context st1) + 1\<rparr>\<rparr>)"
    using store_ok_session_count [OF i(3)] by simp
  then have "store_ok sizes ctx True ((\<lambda>_. 0)(i := 1)) st" by (simp add: store_ok_def st_def)
  moreover have "world_refs (initial_world st) j = (if j = i then 1 else 0)" if "j < 2" for j
    using that i(1) by (auto simp: world_refs_def initial_world_def st_def of_nat_two)
  ultimately have "store_ok sizes ctx True (world_refs (initial_world st)) st"
    by (elim store_ok_cong) simp_all
  then have "world_ok sizes ctx (initial_world st)"
    using i(1) by (auto simp: world_ok_def initial_world_def st_def)
  moreover have "create_results host sizes al ctx config lh ll = Ret (STATUS_OK, st)"
    using assms i(2) by (simp add: create_results_def Let_def st_def)
  moreover have "rs_generation st = 1" by (simp add: st_def)
  ultimately show ?thesis by blast
qed

lemma create_results_ok:
  assumes "create_results host sizes al ctx config lh ll = Ret (STATUS_OK, st)"
  shows "world_ok sizes ctx (initial_world st)"
proof -
  obtain s pool ctx' where c: "apta_internal_result_pool_create host sizes al ctx config = (s, pool, ctx')"
    by (metis prod_cases3)
  have "\<not> failed s" using assms c by (auto simp: create_results_def Let_def)
  from create_results_created [OF c this, of lh ll] show ?thesis using assms by auto
qed

lemma reachable_ok:
  assumes "pool_reachable sizes config lh ll w0 w" "world_ok sizes base w0"
  shows "world_ok sizes base w"
  using assms
proof (induction rule: pool_reachable.induct)
  case (step w opn w')
  then show ?case using run_op_ok [of sizes base w opn config lh ll] by (auto simp: op_ok_def)
qed

section \<open>Properties\<close>

text \<open>
  C7: whatever a bounded session publishes and whatever its readers acquire and release, in any
  order and also after the session is destroyed, no permitted operation touches memory that was
  given back, and every snapshot the host holds stays exactly as it was published.
\<close>
theorem pool_snapshots_protected:
  assumes "create_results host sizes al ctx config lh ll = Ret (STATUS_OK, st)"
    and "pool_reachable sizes config lh ll (initial_world st) w" and "permitted opn w"
  shows "\<exists>w'. run_op sizes config lh ll opn w = Ret w' \<and> held_unchanged w w'"
  using run_op_ok [OF reachable_ok [OF assms(2) create_results_ok [OF assms(1)]] assms(3), of config lh ll]
  by (auto simp: op_ok_def)

text \<open>
  C11: the pool is given back exactly once the session is destroyed and the host holds no result any
  more; then the context has its blocks, byte count, session count and result count from before
  the session was created.
\<close>
theorem pool_memory_returned:
  assumes "create_results host sizes al ctx config lh ll = Ret (STATUS_OK, st)"
    and "pool_reachable sizes config lh ll (initial_world st) w"
  shows "(rs_pool (pw_store w) = None \<longleftrightarrow> \<not> pw_alive w \<and> (\<forall>i. pw_held w i = 0)) \<and>
    (rs_pool (pw_store w) = None \<longrightarrow>
       headers (rs_context (pw_store w)) = headers ctx \<and>
       allocated_bytes (rs_context (pw_store w)) = allocated_bytes ctx \<and>
       session_count (rs_context (pw_store w)) = session_count ctx \<and>
       result_count (rs_context (pw_store w)) = result_count ctx)"
proof -
  have w: "world_ok sizes ctx w" by (rule reachable_ok [OF assms(2) create_results_ok [OF assms(1)]])
  have held: "(\<forall>i. pw_held w i = 0) \<longleftrightarrow> pw_held w 0 = 0 \<and> pw_held w 1 = 0"
    using w by (auto simp: world_ok_def) (metis gr0I less_2_cases_iff)
  show ?thesis
  proof (cases "rs_pool (pw_store w)")
    case None
    then have "\<not> pw_alive w" "world_refs w 0 = 0" "world_refs w 1 = 0"
      "accounted ctx None 0 False (rs_context (pw_store w))"
      using w by (auto simp: world_ok_def store_ok_def busy_def split: if_splits)
    then show ?thesis using None held by (simp add: accounted_def world_refs_def)
  next
    case (Some p)
    then have "pw_alive w \<or> 0 < busy (world_refs w)"
      using w by (auto simp: world_ok_def store_ok_def pool_counts_def split: if_splits)
    moreover have "0 < pw_held w 0 \<or> 0 < pw_held w 1" if "\<not> pw_alive w" "0 < busy (world_refs w)"
      using that w by (auto simp: busy_def world_refs_def world_ok_def split: if_splits)
    ultimately show ?thesis using Some held by auto
  qed
qed

text \<open>
  C36: publication is not blocked by the bounded number of slots as long as one slot is neither the
  current snapshot's nor held by a reader: then, if the builders succeed, the new snapshot becomes the
  current one in a free slot and the generation counts up by one.  Otherwise the publication fails and leaves current
  snapshot and generation as they are, with the limit status once the generations are used up, with the
  status for exhausted slots when both slots are in use, and with the builders' own status else.
\<close>
theorem pool_publish_available:
  fixes fill :: builder and ss :: u32 and changed :: u64
  assumes "create_results host sizes al ctx config lh ll = Ret (STATUS_OK, st)"
    and "pool_reachable sizes config lh ll (initial_world st) w" "pw_alive w"
  defines "in_use \<equiv> \<lambda>i. 0 < pw_held w i \<or> rs_current (pw_store w) = Some (of_nat i)"
  defines "built \<equiv> fill (empty_result config (rs_generation (pw_store w) + 1) ss changed)"
  shows "\<exists>s st'. publish_bounded sizes fill config ss lh ll (pw_store w) changed = Ret (s, st') \<and>
    (if rs_generation (pw_store w) = UINT64_MAX then s = ERROR_LIMIT_EXCEEDED
     else if in_use 0 \<and> in_use 1 then s = ERROR_RESULT_SLOTS_EXHAUSTED
     else if failed (fst built) then s = fst built
     else \<not> failed s \<and> rs_generation st' = rs_generation (pw_store w) + 1 \<and>
       (\<exists>i<2. \<not> in_use i \<and> rs_current st' = Some (of_nat i) \<and> contents st' i = Some (snd built))) \<and>
    (failed s \<longrightarrow> rs_current st' = rs_current (pw_store w) \<and> rs_generation st' = rs_generation (pw_store w))"
proof -
  have w: "world_ok sizes ctx w" by (rule reachable_ok [OF assms(2) create_results_ok [OF assms(1)]])
  obtain c where c: "rs_current (pw_store w) = Some (of_nat c)" "c < 2" "0 < world_refs w c"
    "store_ok sizes ctx True (world_refs w) (pw_store w)"
    using alive_current [OF w assms(3)] .
  have u: "world_refs w i = 0 \<longleftrightarrow> \<not> in_use i" "0 < world_refs w i \<longleftrightarrow> in_use i" for i
    by (simp_all add: world_refs_def in_use_def)
  have err: "failed ERROR_LIMIT_EXCEEDED" "failed ERROR_RESULT_SLOTS_EXHAUSTED" by simp_all
  obtain s st' where p: "publish_bounded sizes fill config ss lh ll (pw_store w) changed = Ret (s, st')"
    "if failed s
     then store_ok sizes ctx True (world_refs w) st' \<and> keeps (world_refs w) (pw_store w) st' \<and>
       (rs_generation (pw_store w) = UINT64_MAX \<and> s = ERROR_LIMIT_EXCEEDED \<or>
        rs_generation (pw_store w) \<noteq> UINT64_MAX \<and> 0 < world_refs w 0 \<and> 0 < world_refs w 1 \<and> s = ERROR_RESULT_SLOTS_EXHAUSTED \<or>
        rs_generation (pw_store w) \<noteq> UINT64_MAX \<and> (world_refs w 0 = 0 \<or> world_refs w 1 = 0) \<and> s = fst built)
     else rs_generation (pw_store w) \<noteq> UINT64_MAX \<and> \<not> failed (fst built) \<and>
       (\<exists>i<2. world_refs w i = 0 \<and> rs_current st' = Some (of_nat i) \<and>
       rs_generation st' = rs_generation (pw_store w) + 1 \<and>
       store_ok sizes ctx True ((world_refs w)(i := 1, c := world_refs w c - 1)) st' \<and> contents st' i = Some (snd built) \<and>
       (\<forall>j<2. 0 < ((world_refs w)(c := world_refs w c - 1)) j \<longrightarrow> contents st' j = contents (pw_store w) j))"
    using publish_ok [OF c(4,1-3), of fill config ss lh ll changed] unfolding built_def by blast
  show ?thesis
  proof (cases "failed s")
    case True
    then show ?thesis using p err by (auto simp: keeps_def u)
  next
    case False
    then obtain i where i: "i < 2" "\<not> in_use i" "rs_current st' = Some (of_nat i)" "contents st' i = Some (snd built)"
      "rs_generation st' = rs_generation (pw_store w) + 1" using p(2) by (auto simp: u)
    then have "\<not> (in_use 0 \<and> in_use 1)" by (auto simp: two_cases)
    then show ?thesis using False p i by auto
  qed
qed


section \<open>A concrete pool\<close>

definition demo_pool_host :: host_allocator where
  "demo_pool_host n sz = (if n = 0 then Some 0x100000 else None)"

definition demo_pool_context :: apta_context where
  "demo_pool_context = demo_context\<lparr>memory_limit_bytes := 0\<rparr>"

lemma demo_pool_created:
  "\<exists>st. create_results demo_pool_host demo_sizes demo_alignments demo_pool_context demo_bounded_config 0 1 =
     Ret (STATUS_OK, st) \<and> world_ok demo_sizes demo_pool_context (initial_world st) \<and> rs_generation st = 1"
proof -
  obtain l where l: "apta_internal_result_pool_calculate_layout demo_sizes demo_alignments demo_bounded_config = Ret l"
      "ly_total_bytes l = 22896"
    using demo_layout by blast
  have "\<exists>ctx. apta_internal_context_allocate demo_pool_host demo_pool_context 22896 MAX_ALIGNMENT = (Some 0x100020, ctx)"
    by (simp add: apta_internal_context_allocate_def apta_internal_reserve_bytes_def Let_def
        apta_internal_is_power_of_two_def demo_pool_host_def demo_pool_context_def demo_context_def apta_consts)
  then obtain ctx where a: "apta_internal_context_allocate demo_pool_host demo_pool_context 22896 MAX_ALIGNMENT =
      (Some 0x100020, ctx)" by blast
  have "\<exists>pool. apta_internal_result_pool_create demo_pool_host demo_sizes demo_alignments demo_pool_context
      demo_bounded_config = (STATUS_OK, pool, ctx)"
    using a l by (simp add: apta_internal_result_pool_create_def)
  then obtain pool where "apta_internal_result_pool_create demo_pool_host demo_sizes demo_alignments
      demo_pool_context demo_bounded_config = (STATUS_OK, pool, ctx)" by blast
  from create_results_created [OF this] show ?thesis by simp
qed

theorem pool_snapshots_protected_witness:
  "\<exists>st w w'. create_results demo_pool_host demo_sizes demo_alignments demo_pool_context demo_bounded_config 0 1 =
       Ret (STATUS_OK, st) \<and>
     run_op demo_sizes demo_bounded_config 0 1 Acquire (initial_world st) = Ret w \<and>
     run_op demo_sizes demo_bounded_config 0 1 Destroy w = Ret w' \<and> held_unchanged w w'"
proof -
  obtain st where st: "create_results demo_pool_host demo_sizes demo_alignments demo_pool_context demo_bounded_config 0 1 =
       Ret (STATUS_OK, st)" "world_ok demo_sizes demo_pool_context (initial_world st)" using demo_pool_created by blast
  have perm: "permitted Acquire (initial_world st)" by (simp add: initial_world_def)
  obtain w where w: "run_op demo_sizes demo_bounded_config 0 1 Acquire (initial_world st) = Ret w"
    using run_op_ok [OF st(2) perm] by (auto simp: op_ok_def)
  then have "pw_alive w"
    by (auto simp: obind_eq_Ret initial_world_def)
  then show ?thesis
    using pool_snapshots_protected [OF st(1) step [OF start perm w], of Destroy] st(1) w by auto
qed

theorem pool_memory_returned_witness:
  "\<exists>st w. create_results demo_pool_host demo_sizes demo_alignments demo_pool_context demo_bounded_config 0 1 =
       Ret (STATUS_OK, st) \<and>
     run_op demo_sizes demo_bounded_config 0 1 Destroy (initial_world st) = Ret w \<and>
     rs_pool (pw_store w) = None \<and> headers (rs_context (pw_store w)) = [] \<and>
     allocated_bytes (rs_context (pw_store w)) = 0"
proof -
  obtain st where st: "create_results demo_pool_host demo_sizes demo_alignments demo_pool_context demo_bounded_config 0 1 =
       Ret (STATUS_OK, st)" "world_ok demo_sizes demo_pool_context (initial_world st)" using demo_pool_created by blast
  have perm: "permitted Destroy (initial_world st)" by (simp add: initial_world_def)
  obtain w where w: "run_op demo_sizes demo_bounded_config 0 1 Destroy (initial_world st) = Ret w"
    using run_op_ok [OF st(2) perm] by (auto simp: op_ok_def)
  have "\<not> pw_alive w" "\<forall>i. pw_held w i = 0" using w by (auto simp: obind_eq_Ret initial_world_def)
  then show ?thesis
    using pool_memory_returned [OF st(1) step [OF start perm w]] st(1) w
    by (auto simp: demo_pool_context_def demo_context_def)
qed

theorem pool_publish_available_witness:
  "\<exists>st s st'. create_results demo_pool_host demo_sizes demo_alignments demo_pool_context demo_bounded_config 0 1 =
       Ret (STATUS_OK, st) \<and>
     publish_bounded demo_sizes (\<lambda>r. (STATUS_OK, r)) demo_bounded_config SESSION_ACTIVE 0 1 st 0 = Ret (s, st') \<and>
     \<not> failed s \<and> rs_generation st' = 2"
proof -
  obtain st where st: "create_results demo_pool_host demo_sizes demo_alignments demo_pool_context demo_bounded_config 0 1 =
       Ret (STATUS_OK, st)" "rs_generation st = 1" using demo_pool_created by blast
  from pool_publish_available [OF st(1) start, of "\<lambda>r. (STATUS_OK, r)" SESSION_ACTIVE 0] st
  show ?thesis by (auto simp: initial_world_def UINT64_MAX_def)
qed

end
