(* ===== verification/Apta_Session.thy ===== *)
theory Apta_Session
  imports Apta_Ranges Apta_Pool Apta_Bytes
begin

text \<open>
  The session structure of \<^verbatim>\<open>src/core/apta_internal.h\<close>, as far as scheduling, input and lifecycle read
  and write it, and the public structures a host passes to these entry points
  (\<^verbatim>\<open>include/apta/apta_source.h\<close>).  The PCM intake of a session is the record \<open>intake\<close>; the context
  a session points to is the one in its memory.  Of a pull source only its presence is recorded, with
  the number of blocks read from it (\<open>se_reads\<close>, every call of the callback) and given back
  (\<open>se_releases\<close>): the callbacks are parameters of the operations that call them.  \<open>se_current_result\<close>
  is the slot of a bounded session's current result.  Null pointers, which every entry point rejects
  first, are outside the types.  Of the accumulators the counts are kept; sample values, sums and the
  rings of the tempo and grid analysis, all of them floating-point data, are the uninterpreted bytes
  \<open>se_signal\<close>.  \<open>se_clock_reads\<close> counts the calls of the host's clock.
\<close>

section \<open>Requests and focus\<close>

definition REQUEST_QUEUED :: u32 where [apta_consts]: "REQUEST_QUEUED = 0"
definition REQUEST_WAITING_FOR_PCM :: u32 where [apta_consts]: "REQUEST_WAITING_FOR_PCM = 1"
definition REQUEST_PARTIALLY_SATISFIED :: u32 where [apta_consts]: "REQUEST_PARTIALLY_SATISFIED = 3"
definition REQUEST_SATISFIED :: u32 where [apta_consts]: "REQUEST_SATISFIED = 4"
definition REQUEST_CANCELLED :: u32 where [apta_consts]: "REQUEST_CANCELLED = 5"
definition REQUEST_FAILED :: u32 where [apta_consts]: "REQUEST_FAILED = 6"
definition PRIORITY_BACKGROUND :: u32 where [apta_consts]: "PRIORITY_BACKGROUND = 32"

record region_request =
  rr_struct_size :: u32
  rr_api_version :: u32
  rr_range_struct_size :: u32
  rr_range_api_version :: u32
  rr_first_frame :: u64
  rr_end_frame :: u64
  rr_feature_mask :: u64
  rr_soft_deadline :: u64
  rr_request_id :: u32
  rr_priority :: u8

record internal_request =
  rq_request_id :: u32
  rq_request :: region_request
  rq_state :: u32
  rq_diagnostic_code :: u32
  rq_skip_count :: u32
  rq_enqueue_serial :: u64

text \<open>A slot cleared with \<open>memset\<close>.\<close>

definition zero_request :: internal_request where
  "zero_request = \<lparr>rq_request_id = 0,
     rq_request = \<lparr>rr_struct_size = 0, rr_api_version = 0, rr_range_struct_size = 0, rr_range_api_version = 0,
       rr_first_frame = 0, rr_end_frame = 0, rr_feature_mask = 0, rr_soft_deadline = 0,
       rr_request_id = 0, rr_priority = 0\<rparr>,
     rq_state = 0, rq_diagnostic_code = 0, rq_skip_count = 0, rq_enqueue_serial = 0\<rparr>"

record focus =
  fo_struct_size :: u32
  fo_api_version :: u32
  fo_playhead_frame :: u64
  fo_lookbehind_frames :: u64
  fo_lookahead_frames :: u64
  fo_feature_mask :: u64
  fo_priority :: u8

record pcm_request =
  pq_first_frame :: u64
  pq_end_frame :: u64
  pq_feature_mask :: u64
  pq_priority :: u8
  pq_request_token :: u32

record request_progress =
  rp_request_id :: u32
  rp_state :: u32
  rp_first_frame :: u64
  rp_end_frame :: u64
  rp_requested_features :: u64
  rp_satisfied_features :: u64
  rp_progress_permille :: u32
  rp_diagnostic_code :: u32

section \<open>Analysis state\<close>

text \<open>The integer part of \<open>apta_internal_waveform_accumulator_t\<close>.\<close>

record accumulator =
  ac_column_index :: u32
  ac_sample_count :: u32
  ac_complete :: bool

text \<open>The overview store: the sorted accumulator array, its block and its parallel band array's
  block, its capacity and the number of complete columns.  The flag of a block says whether its
  header marks it as the workspace's.\<close>

record overview_store =
  ov_accumulators :: "accumulator list"
  ov_memory :: "(u64 \<times> bool) option"
  ov_band_memory :: "u64 option"
  ov_capacity :: u32
  ov_complete_count :: u32

text \<open>A tile of the detail cache; the run of published columns is kept in its reserved bytes.\<close>

record detail_tile =
  dt_tile_index :: u32
  dt_complete_count :: u32
  dt_access_serial :: u64
  dt_occupied :: bool
  dt_run_valid :: bool
  dt_run_first :: u8
  dt_run_count :: u8
  dt_accumulators :: "accumulator list"

record detail_store =
  de_tiles :: "detail_tile list"
  de_access_serial :: u64
  de_mutation_serial :: u64
  de_published_serial :: u64

text \<open>What the session layers read of the tempo analysis (S4) and of the grid analysis (S6).\<close>

record s4_store =
  s4_onset_bins :: "u64 option"
  s4_onset_bin_capacity :: u32
  s4_onset_flux :: "u64 option"
  s4_onset_flux_capacity :: u32
  s4_refresh_active :: bool
  s4_refresh_queued :: bool
  s4_has_tempo :: bool
  s4_has_local_grid :: bool
  s4_requested_range :: "u64 \<times> u64"
  s4_applicability_range :: "u64 \<times> u64"
  s4_mutation_serial :: u64
  s4_published_serial :: u64

record s6_store =
  s6_address :: u64
  s6_global_bins :: u64
  s6_global_flux :: u64
  s6_beats :: u64
  s6_refresh_stage :: u32
  s6_refresh_queued :: bool
  s6_has_global_grid :: bool
  s6_revision_pending :: bool
  s6_mutation_serial :: u64
  s6_published_serial :: u64

text \<open>The stores of a session cleared with \<open>memset\<close>.\<close>

definition zero_accumulator :: accumulator where
  "zero_accumulator = \<lparr>ac_column_index = 0, ac_sample_count = 0, ac_complete = False\<rparr>"

definition empty_overview :: overview_store where
  "empty_overview = \<lparr>ov_accumulators = [], ov_memory = None, ov_band_memory = None, ov_capacity = 0,
     ov_complete_count = 0\<rparr>"

definition zero_tile :: detail_tile where
  "zero_tile = \<lparr>dt_tile_index = 0, dt_complete_count = 0, dt_access_serial = 0, dt_occupied = False,
     dt_run_valid = False, dt_run_first = 0, dt_run_count = 0,
     dt_accumulators = replicate (unat DETAIL_COLUMNS_PER_TILE) zero_accumulator\<rparr>"

definition empty_detail :: detail_store where
  "empty_detail = \<lparr>de_tiles = replicate (unat MAX_DETAIL_TILES) zero_tile, de_access_serial = 0,
     de_mutation_serial = 0, de_published_serial = 0\<rparr>"

definition empty_s4 :: s4_store where
  "empty_s4 = \<lparr>s4_onset_bins = None, s4_onset_bin_capacity = 0, s4_onset_flux = None, s4_onset_flux_capacity = 0,
     s4_refresh_active = False, s4_refresh_queued = False, s4_has_tempo = False, s4_has_local_grid = False,
     s4_requested_range = (0, 0), s4_applicability_range = (0, 0), s4_mutation_serial = 0,
     s4_published_serial = 0\<rparr>"

section \<open>The session\<close>

record apta_session =
  se_config :: session_config
  se_state :: u32
  se_cancel_requested :: bool
  se_process_lock :: bool
  se_process_deadline_ns :: u64
  se_generation :: u64
  se_has_focus :: bool
  se_focus :: focus
  se_end_of_input_signalled :: bool
  se_final_end_frame :: u64
  se_next_request_id :: u32
  se_next_enqueue_serial :: u64
  se_requests :: "internal_request list"
  se_intake :: intake
  se_has_pull_source :: bool
  se_reads :: nat
  se_releases :: nat
  se_result_pool :: "result_pool option"
  se_current_result :: "u32 option"
  se_lineage_id_high :: u64
  se_lineage_id_low :: u64
  se_overview_frames_per_column :: u32
  se_overview :: overview_store
  se_detail :: detail_store
  se_s4 :: s4_store
  se_s6 :: "s6_store option"
  se_clock_reads :: nat
  se_signal :: bytes

definition se_context :: "apta_session \<Rightarrow> apta_context" where
  "se_context se = sm_context (in_memory (se_intake se))"

text \<open>The memory of the session, and its replacement.\<close>

definition se_memory :: "apta_session \<Rightarrow> session_memory" where
  "se_memory se = in_memory (se_intake se)"

definition with_memory :: "apta_session \<Rightarrow> session_memory \<Rightarrow> apta_session" where
  "with_memory se sm = se\<lparr>se_intake := (se_intake se)\<lparr>in_memory := sm\<rparr>\<rparr>"

text \<open>The results of a bounded session, as the pool component handles them.\<close>

definition results_of :: "apta_session \<Rightarrow> result_store" where
  "results_of se = \<lparr>rs_context = se_context se, rs_pool = se_result_pool se,
     rs_current = se_current_result se, rs_generation = se_generation se\<rparr>"

definition with_results :: "apta_session \<Rightarrow> result_store \<Rightarrow> apta_session" where
  "with_results se st =
     se\<lparr>se_intake := (se_intake se)\<lparr>in_memory := (in_memory (se_intake se))\<lparr>sm_context := rs_context st\<rparr>\<rparr>,
        se_result_pool := rs_pool st, se_current_result := rs_current st, se_generation := rs_generation st\<rparr>"

end
