(* ===== verification/Apta_Engine.thy ===== *)
theory Apta_Engine
  imports Apta_Session
begin

text \<open>
  What the session calls and the model does not compute: the host's allocator and clock, the
  publication of sessions without a result pool, the builders of snapshots, and the floating-point
  kernels.  They are the fields of the record \<open>engine\<close>, a parameter of the operations.  A kernel
  is given the whole session; the data it works on are the uninterpreted bytes \<open>se_signal\<close>, and
  where it is a single accumulation only these bytes are its result.
\<close>

section \<open>Structures of a call\<close>

record work_budget =
  wb_struct_size :: u32
  wb_api_version :: u32
  wb_maximum_input_frames :: u32
  wb_maximum_steps :: u32
  wb_soft_time_budget_us :: u32

record progress =
  pg_consumed_input_frames :: u32
  pg_completed_steps :: u32
  pg_changed_features :: u64
  pg_published_generation :: u64

text \<open>A block of samples; \<open>pb_samples\<close> is the memory its pointers lead to.\<close>

record pcm_block =
  pb_struct_size :: u32
  pb_api_version :: u32
  pb_has_data :: bool
  pb_planes :: "bool list"
  pb_first_frame :: u64
  pb_frame_count :: u32
  pb_samples :: bytes

section \<open>Parameters\<close>

text \<open>\<open>eg_clock n\<close> is the \<open>n\<close>-th reading of the monotonic clock.  \<open>eg_copy\<close> stores the accepted samples,
  \<open>eg_absorb\<close> adds the sample of a frame to the sums of its column, \<open>eg_detail_absorb\<close> that of a frame of the
  given block.  \<open>eg_publish_base\<close> builds the result of a session without a pool and exchanges it for the
  old one; the guards around it are definitions of the publication's theory.\<close>

record engine =
  eg_host :: host_allocator
  eg_sizes :: struct_sizes
  eg_clock :: "(nat \<Rightarrow> u64) option"
  eg_fill :: "apta_session \<Rightarrow> builder"
  eg_publish_base :: "apta_session \<Rightarrow> u64 \<Rightarrow> apta_status \<times> apta_session"
  eg_copy :: "apta_session \<Rightarrow> pcm_block \<Rightarrow> u32 \<Rightarrow> bytes"
  eg_absorb :: "apta_session \<Rightarrow> u64 \<Rightarrow> bytes"
  eg_detail_absorb :: "apta_session \<Rightarrow> pcm_block \<Rightarrow> u64 \<Rightarrow> bytes"
  eg_s4_sample :: "apta_session \<Rightarrow> u64 \<Rightarrow> apta_status \<times> apta_session"
  eg_s6_sample :: "apta_session \<Rightarrow> u64 \<Rightarrow> apta_status \<times> apta_session"
  eg_s4_refresh :: "apta_session \<Rightarrow> u32 \<Rightarrow> apta_status \<times> u32 \<times> apta_session"
  eg_s6_refresh :: "apta_session \<Rightarrow> u32 \<Rightarrow> apta_status \<times> u32 \<times> apta_session"

definition read_clock :: "engine \<Rightarrow> apta_session \<Rightarrow> u64 option \<times> apta_session" where
  "read_clock eg se =
     (case eg_clock eg of
        None \<Rightarrow> (None, se)
      | Some clock \<Rightarrow> (Some (clock (se_clock_reads se)), se\<lparr>se_clock_reads := se_clock_reads se + 1\<rparr>))"

text \<open>The test for the deadline of the processing call; without one the clock is not read.\<close>

definition deadline_passed :: "engine \<Rightarrow> apta_session \<Rightarrow> bool \<times> apta_session" where
  "deadline_passed eg se =
     (if se_process_deadline_ns se = 0 then (False, se)
      else
        (case read_clock eg se of
           (None, se') \<Rightarrow> (False, se')
         | (Some now, se') \<Rightarrow> (se_process_deadline_ns se \<le> now, se')))"

text \<open>\<open>apta_internal_context_deallocate\<close> on a block of either allocator: the header in front of it, here the
  flag beside its address, says whether it came from the session's workspace.\<close>

definition free_block :: "session_memory \<Rightarrow> (u64 \<times> bool) option \<Rightarrow> session_memory" where
  "free_block sm block =
     (case block of
        None \<Rightarrow> sm
      | Some (a, from_workspace) \<Rightarrow>
          if from_workspace then apta_internal_session_deallocate sm (Some a)
          else sm\<lparr>sm_context := apta_internal_context_deallocate (sm_context sm) (Some a)\<rparr>)"

end
