(* ===== verification/Apta_Publish.thy ===== *)
theory Apta_Publish
  imports Apta_Engine
begin

text \<open>
  The publication of a result from a session (\<^verbatim>\<open>apta_internal_publish_result\<close>): bounded sessions
  publish into their pool, the others through \<^verbatim>\<open>apta_internal_publish_result_base\<close>, whose building and
  exchange of the result are a parameter of the engine.  A publication that fails because the slots
  or the memory are exhausted takes the completion marks of the overview's columns away, so
  that a later step completes, and publishes, them again.  \<open>still\<close> is what the kernels of the
  analysis and the building of a result leave alone; \<open>kernels_ok\<close> assumes it of the engine's
  parameters.  \<open>published_still\<close> is what a publication leaves alone, the marks excepted;
  \<open>publish_still\<close> proves it, and that a publication that succeeds leaves the marks alone too.
\<close>

section \<open>Publication\<close>

text \<open>The marks of the complete columns, and their number, are taken away.  The two sources of the
  publication each have a copy of this function.\<close>

definition unmarked :: "overview_store \<Rightarrow> overview_store" where
  "unmarked ov = ov\<lparr>ov_accumulators := map (\<lambda>a. a\<lparr>ac_complete := False\<rparr>) (ov_accumulators ov), ov_complete_count := 0\<rparr>"

lemma unmarked_unmarked [simp]: "unmarked (unmarked ov) = unmarked ov"
  by (simp add: unmarked_def)

definition apta_pool_mark_overview_publication_pending :: "apta_session \<Rightarrow> apta_session" where
  "apta_pool_mark_overview_publication_pending se = se\<lparr>se_overview := unmarked (se_overview se)\<rparr>"

definition apta_result_mark_waveform_publication_pending :: "apta_session \<Rightarrow> apta_session" where
  "apta_result_mark_waveform_publication_pending se = se\<lparr>se_overview := unmarked (se_overview se)\<rparr>"

text \<open>The publication of a session without a pool.  The engine's parameter allocates and builds the
  result and exchanges it for the old one; each of its three exits that report that memory
  ran out is preceded by the marking, and no other exit is.\<close>

definition apta_internal_publish_result_base :: "engine \<Rightarrow> apta_session \<Rightarrow> u64 \<Rightarrow> apta_status \<times> apta_session" where
  "apta_internal_publish_result_base eg se changed =
     (if se_generation se = UINT64_MAX then (ERROR_LIMIT_EXCEEDED, se)
      else
        (case eg_publish_base eg se changed of (status, se') \<Rightarrow>
          (status, if status = ERROR_OUT_OF_MEMORY then apta_result_mark_waveform_publication_pending se' else se')))"

text \<open>The pooled publication: \<open>publish_bounded\<close> does what concerns the pool, the generation and the
  current result; the marking after exhausted slots concerns the session and stands here.\<close>

definition apta_internal_publish_result :: "engine \<Rightarrow> apta_session \<Rightarrow> u64 \<Rightarrow> (apta_status \<times> apta_session) outcome" where
  "apta_internal_publish_result eg se changed =
     (if sc_flags (se_config se) AND SESSION_FLAG_BOUNDED_RESULT_SLOTS = 0
      then Ret (apta_internal_publish_result_base eg se changed)
      else if se_result_pool se = None then Ret (ERROR_INTERNAL, se)
      else
        obind (publish_bounded (eg_sizes eg) (eg_fill eg se) (se_config se) (se_state se)
                 (se_lineage_id_high se) (se_lineage_id_low se) (results_of se) changed) (\<lambda>(status, st).
        Ret (status,
          if status = ERROR_RESULT_SLOTS_EXHAUSTED \<and> changed AND FEATURE_WAVEFORM_OVERVIEW \<noteq> 0
          then apta_pool_mark_overview_publication_pending (with_results se st)
          else with_results se st)))"

section \<open>Results in order\<close>

definition uses_workspace :: "apta_session \<Rightarrow> bool" where
  "uses_workspace se \<longleftrightarrow> sm_workspace (se_memory se) \<noteq> None"

text \<open>The results of a bounded session are in order, and such a session has a workspace.\<close>

definition results_ok :: "struct_sizes \<Rightarrow> apta_session \<Rightarrow> bool" where
  "results_ok sizes se \<longleftrightarrow>
     (sc_flags (se_config se) AND SESSION_FLAG_BOUNDED_RESULT_SLOTS \<noteq> 0 \<longrightarrow>
        uses_workspace se \<and>
        (\<exists>base refs c. store_ok sizes base True refs (results_of se) \<and>
           se_current_result se = Some (of_nat c) \<and> c < 2 \<and> 0 < refs c))"

text \<open>What the lifecycle reads, and what the operations on samples may change beside it.\<close>

definition same_life :: "apta_session \<Rightarrow> apta_session \<Rightarrow> bool" where
  "same_life se se' \<longleftrightarrow>
     se_config se' = se_config se \<and> se_state se' = se_state se \<and>
     se_cancel_requested se' = se_cancel_requested se \<and> se_process_lock se' = se_process_lock se \<and>
     se_process_deadline_ns se' = se_process_deadline_ns se \<and>
     se_end_of_input_signalled se' = se_end_of_input_signalled se \<and>
     se_final_end_frame se' = se_final_end_frame se \<and>
     se_has_pull_source se' = se_has_pull_source se \<and> se_reads se' = se_reads se \<and>
     se_releases se' = se_releases se \<and>
     se_overview_frames_per_column se' = se_overview_frames_per_column se \<and>
     uses_workspace se' = uses_workspace se"

definition still :: "struct_sizes \<Rightarrow> apta_session \<Rightarrow> apta_session \<Rightarrow> bool" where
  "still sizes se se' \<longleftrightarrow> same_life se se' \<and>
     se_requests se' = se_requests se \<and> se_has_focus se' = se_has_focus se \<and> se_focus se' = se_focus se \<and>
     se_overview se' = se_overview se \<and> se_detail se' = se_detail se \<and>
     se_intake se' = (se_intake se)\<lparr>in_memory := se_memory se'\<rparr> \<and>
     (results_ok sizes se \<longrightarrow> results_ok sizes se')"

text \<open>What a publication leaves alone: all of that, but it may take the marks away.\<close>

definition published_still :: "struct_sizes \<Rightarrow> apta_session \<Rightarrow> apta_session \<Rightarrow> bool" where
  "published_still sizes se se' \<longleftrightarrow> same_life se se' \<and>
     se_requests se' = se_requests se \<and> se_has_focus se' = se_has_focus se \<and> se_focus se' = se_focus se \<and>
     (se_overview se' = se_overview se \<or> se_overview se' = unmarked (se_overview se)) \<and>
     se_detail se' = se_detail se \<and>
     se_intake se' = (se_intake se)\<lparr>in_memory := se_memory se'\<rparr> \<and>
     (results_ok sizes se \<longrightarrow> results_ok sizes se')"

text \<open>The assumption on the engine: neither the building and the exchange of a result, nor a kernel
  of the analysis, changes samples, requests, overview or detail cache.  (The marking
  that follows a failed publication is not the parameter's but a definition above.)\<close>

definition kernels_ok :: "engine \<Rightarrow> bool" where
  "kernels_ok eg \<longleftrightarrow>
     (\<forall>se changed. still (eg_sizes eg) se (snd (eg_publish_base eg se changed))) \<and>
     (\<forall>se frame. still (eg_sizes eg) se (snd (eg_s4_sample eg se frame))) \<and>
     (\<forall>se frame. still (eg_sizes eg) se (snd (eg_s6_sample eg se frame))) \<and>
     (\<forall>se steps. still (eg_sizes eg) se (snd (snd (eg_s4_refresh eg se steps)))) \<and>
     (\<forall>se steps. still (eg_sizes eg) se (snd (snd (eg_s6_refresh eg se steps))))"

lemma same_life_refl [simp]: "same_life se se"
  by (simp add: same_life_def)

lemma same_life_trans: "same_life a b \<Longrightarrow> same_life b c \<Longrightarrow> same_life a c"
  by (simp add: same_life_def)

lemma memory_self [simp]: "(se_intake se)\<lparr>in_memory := se_memory se\<rparr> = se_intake se"
  by (simp add: se_memory_def)

lemma still_refl [simp]: "still sizes se se"
  by (simp add: still_def)

lemma still_trans: "still sizes a b \<Longrightarrow> still sizes b c \<Longrightarrow> still sizes a c"
  unfolding still_def using same_life_trans [of a b c] by simp

lemma still_life: "still sizes se se' \<Longrightarrow> same_life se se'"
  by (simp add: still_def)

lemma results_ok_cong:
  "results_ok sizes se \<Longrightarrow> sc_flags (se_config se') = sc_flags (se_config se) \<Longrightarrow>
   uses_workspace se' = uses_workspace se \<Longrightarrow> se_context se' = se_context se \<Longrightarrow>
   se_result_pool se' = se_result_pool se \<Longrightarrow> se_current_result se' = se_current_result se \<Longrightarrow>
   results_ok sizes se'"
  by (fastforce simp: results_ok_def results_of_def store_ok_def)

text \<open>The marking.\<close>

lemma pending_same: "apta_result_mark_waveform_publication_pending = apta_pool_mark_overview_publication_pending"
  by (simp add: fun_eq_iff apta_result_mark_waveform_publication_pending_def apta_pool_mark_overview_publication_pending_def)

lemma pending_fields [simp]:
  "same_life se (apta_pool_mark_overview_publication_pending se)"
  "se_overview (apta_pool_mark_overview_publication_pending se) = unmarked (se_overview se)"
  "se_requests (apta_pool_mark_overview_publication_pending se) = se_requests se"
  "se_has_focus (apta_pool_mark_overview_publication_pending se) = se_has_focus se"
  "se_focus (apta_pool_mark_overview_publication_pending se) = se_focus se"
  "se_detail (apta_pool_mark_overview_publication_pending se) = se_detail se"
  "se_intake (apta_pool_mark_overview_publication_pending se) = se_intake se"
  "se_memory (apta_pool_mark_overview_publication_pending se) = se_memory se"
  "results_of (apta_pool_mark_overview_publication_pending se) = results_of se"
  "results_ok sizes (apta_pool_mark_overview_publication_pending se) = results_ok sizes se"
  by (simp_all add: apta_pool_mark_overview_publication_pending_def same_life_def uses_workspace_def se_memory_def
      results_of_def se_context_def results_ok_def)

lemma still_pending:
  "still sizes se se' \<Longrightarrow>
   still sizes (apta_pool_mark_overview_publication_pending se) (apta_pool_mark_overview_publication_pending se')"
  using same_life_trans [of "apta_pool_mark_overview_publication_pending se" se "apta_pool_mark_overview_publication_pending se'"]
    same_life_trans [of se se' "apta_pool_mark_overview_publication_pending se'"]
  by (simp add: still_def) (simp add: same_life_def apta_pool_mark_overview_publication_pending_def uses_workspace_def se_memory_def)

lemma still_published: "still sizes se se' \<Longrightarrow> published_still sizes se se'"
  by (simp add: still_def published_still_def)

lemma pending_published:
  assumes "still sizes (apta_pool_mark_overview_publication_pending se) se'"
  shows "published_still sizes se se'"
  using assms same_life_trans [OF pending_fields(1) [of se], of se'] by (simp add: still_def published_still_def)

lemma published_cases:
  assumes "published_still sizes se se'"
  shows "still sizes se se' \<or> still sizes (apta_pool_mark_overview_publication_pending se) se'"
proof -
  have "same_life (apta_pool_mark_overview_publication_pending se) se" 
    by (simp add: same_life_def apta_pool_mark_overview_publication_pending_def uses_workspace_def se_memory_def)
  from same_life_trans [OF this, of se'] show ?thesis using assms by (auto simp: still_def published_still_def)
qed

lemma publish_still:
  assumes eg: "kernels_ok eg" and ok: "results_ok (eg_sizes eg) se"
  shows "\<exists>s se'. apta_internal_publish_result eg se changed = Ret (s, se') \<and> published_still (eg_sizes eg) se se' \<and>
    (\<not> failed s \<longrightarrow> still (eg_sizes eg) se se')"
proof (cases "sc_flags (se_config se) AND SESSION_FLAG_BOUNDED_RESULT_SLOTS = 0")
  case True
  obtain s se' where r: "eg_publish_base eg se changed = (s, se')" by fastforce
  have "still (eg_sizes eg) se (snd (eg_publish_base eg se changed))" using eg by (simp add: kernels_ok_def)
  then have st: "still (eg_sizes eg) se se'" by (simp add: r)
  show ?thesis
  proof (cases "se_generation se = UINT64_MAX")
    case gen: True
    then show ?thesis using True still_published [OF still_refl]
      by (simp add: apta_internal_publish_result_def apta_internal_publish_result_base_def)
  next
    case False
    then have p: "apta_internal_publish_result eg se changed =
        Ret (s, if s = ERROR_OUT_OF_MEMORY then apta_pool_mark_overview_publication_pending se' else se')"
      using True by (simp add: apta_internal_publish_result_def apta_internal_publish_result_base_def r pending_same)
    have "published_still (eg_sizes eg) se (if s = ERROR_OUT_OF_MEMORY then apta_pool_mark_overview_publication_pending se' else se')"
      using st still_published [OF st] pending_published [OF still_pending [OF st]] by simp
    moreover have "failed ERROR_OUT_OF_MEMORY" by simp
    ultimately show ?thesis using p st by auto
  qed
next
  case False
  then obtain base refs c where r: "uses_workspace se"
    "store_ok (eg_sizes eg) base True refs (results_of se)"
    "se_current_result se = Some (of_nat c)" "c < 2" "0 < refs c"
    using ok by (auto simp: results_ok_def)
  have cur: "rs_current (results_of se) = Some (of_nat c)" using r(3) by (simp add: results_of_def)
  have pool: "se_result_pool se \<noteq> None"
    using r(2) by (auto simp: store_ok_def results_of_def split: option.splits)
  obtain s st where p: "publish_bounded (eg_sizes eg) (eg_fill eg se) (se_config se) (se_state se)
       (se_lineage_id_high se) (se_lineage_id_low se) (results_of se) changed = Ret (s, st)"
    and "\<exists>refs c. store_ok (eg_sizes eg) base True refs st \<and> rs_current st = Some (of_nat c) \<and> c < 2 \<and> 0 < refs c"
  proof -
    obtain s st where p: "publish_bounded (eg_sizes eg) (eg_fill eg se) (se_config se) (se_state se)
       (se_lineage_id_high se) (se_lineage_id_low se) (results_of se) changed = Ret (s, st)"
      and spec: "if failed s
     then store_ok (eg_sizes eg) base True refs st \<and> keeps refs (results_of se) st \<and>
       (rs_generation (results_of se) = UINT64_MAX \<and> s = ERROR_LIMIT_EXCEEDED \<or>
        rs_generation (results_of se) \<noteq> UINT64_MAX \<and> 0 < refs 0 \<and> 0 < refs 1 \<and> s = ERROR_RESULT_SLOTS_EXHAUSTED \<or>
        rs_generation (results_of se) \<noteq> UINT64_MAX \<and> (refs 0 = 0 \<or> refs 1 = 0) \<and>
          s = fst (eg_fill eg se (empty_result (se_config se) (rs_generation (results_of se) + 1) (se_state se) changed)))
     else rs_generation (results_of se) \<noteq> UINT64_MAX \<and>
       \<not> failed (fst (eg_fill eg se (empty_result (se_config se) (rs_generation (results_of se) + 1) (se_state se) changed))) \<and>
       (\<exists>i<2. refs i = 0 \<and> rs_current st = Some (of_nat i) \<and> rs_generation st = rs_generation (results_of se) + 1 \<and>
       store_ok (eg_sizes eg) base True (refs(i := 1, c := refs c - 1)) st \<and>
       contents st i = Some (snd (eg_fill eg se (empty_result (se_config se) (rs_generation (results_of se) + 1)
         (se_state se) changed))) \<and>
       (\<forall>j<2. 0 < (refs(c := refs c - 1)) j \<longrightarrow> contents st j = contents (results_of se) j))"
      using publish_ok [OF r(2) cur r(4,5), of "eg_fill eg se" "se_config se" "se_state se"
          "se_lineage_id_high se" "se_lineage_id_low se" changed] by blast
    show ?thesis
    proof (cases "failed s")
      case True
      then have "store_ok (eg_sizes eg) base True refs st \<and> rs_current st = Some (of_nat c) \<and> c < 2 \<and> 0 < refs c"
        using spec cur r by (simp add: keeps_def)
      then show ?thesis using that [OF p] by blast
    next
      case False
      then obtain i where i: "i < 2" "refs i = 0" "rs_current st = Some (of_nat i)"
        "store_ok (eg_sizes eg) base True (refs(i := 1, c := refs c - 1)) st" using spec by auto
      have "i \<noteq> c" using i(2) r(5) by auto
      then have "0 < (refs(i := 1, c := refs c - 1)) i" by simp
      then show ?thesis using that [OF p] i by blast
    qed
  qed
  then obtain refs' c' where st: "store_ok (eg_sizes eg) base True refs' st" "rs_current st = Some (of_nat c')" "c' < 2"
    "0 < refs' c'" by blast
  let ?se1 = "with_results se st"
  let ?se' = "if s = ERROR_RESULT_SLOTS_EXHAUSTED \<and> changed AND FEATURE_WAVEFORM_OVERVIEW \<noteq> 0
    then apta_pool_mark_overview_publication_pending ?se1 else ?se1"
  have pub: "apta_internal_publish_result eg se changed = Ret (s, ?se')"
    using False pool p by (auto simp: apta_internal_publish_result_def)
  have "results_of ?se1 = st" and w: "uses_workspace ?se1 = uses_workspace se"
    by (simp_all add: results_of_def with_results_def se_context_def uses_workspace_def se_memory_def)
  then have "results_ok (eg_sizes eg) ?se1" using st r(1) by (auto simp: results_ok_def with_results_def)
  then have still1: "still (eg_sizes eg) se ?se1"
    using w by (simp add: still_def same_life_def with_results_def se_memory_def)
  then have "published_still (eg_sizes eg) se ?se'" using still_published [OF still1] pending_published [OF still_pending [OF still1]] by simp
  moreover have "failed ERROR_RESULT_SLOTS_EXHAUSTED" by simp
  ultimately show ?thesis using pub still1 by auto
qed

section \<open>Memory of a workspace session\<close>

lemma session_allocate_workspace:
  "sm_workspace sm \<noteq> None \<Longrightarrow> apta_internal_session_allocate host sm sz a = (p, sm') \<Longrightarrow>
   sm_workspace sm' \<noteq> None \<and> sm_context sm' = sm_context sm"
  by (auto simp: apta_internal_session_allocate_def split: prod.splits)

lemma session_deallocate_workspace:
  "sm_workspace sm \<noteq> None \<Longrightarrow>
   sm_workspace (apta_internal_session_deallocate sm m) \<noteq> None \<and>
   sm_context (apta_internal_session_deallocate sm m) = sm_context sm"
  by (auto simp: apta_internal_session_deallocate_def split: option.splits)

text \<open>A change of memory that keeps the workspace, and the context where there is a workspace.\<close>

definition memory_moved :: "session_memory \<Rightarrow> session_memory \<Rightarrow> bool" where
  "memory_moved sm sm' \<longleftrightarrow>
     (sm_workspace sm' = None \<longleftrightarrow> sm_workspace sm = None) \<and>
     (sm_workspace sm \<noteq> None \<longrightarrow> sm_context sm' = sm_context sm)"

lemma memory_moved_refl [simp]: "memory_moved sm sm"
  by (simp add: memory_moved_def)

lemma memory_moved_trans: "memory_moved a b \<Longrightarrow> memory_moved b c \<Longrightarrow> memory_moved a c"
  by (auto simp: memory_moved_def)

lemma session_allocate_moved: "apta_internal_session_allocate host sm sz a = (p, sm') \<Longrightarrow> memory_moved sm sm'"
  by (auto simp: memory_moved_def apta_internal_session_allocate_def split: prod.splits option.splits)

lemma session_deallocate_moved: "memory_moved sm (apta_internal_session_deallocate sm m)"
  by (simp add: memory_moved_def apta_internal_session_deallocate_def split: option.split)

lemma free_block_moved:
  assumes "\<And>a. sm_workspace sm \<noteq> None \<Longrightarrow> b \<noteq> Some (a, False)"
  shows "memory_moved sm (free_block sm b)"
proof (cases b)
  case None
  then show ?thesis by (simp add: free_block_def)
next
  case (Some x)
  obtain a f where x: "x = (a, f)" by fastforce
  show ?thesis
  proof (cases f)
    case True
    then show ?thesis using Some x session_deallocate_moved by (simp add: free_block_def)
  next
    case False
    then have "sm_workspace sm = None" by (cases "sm_workspace sm") (use assms [of a] Some x in auto)
    then show ?thesis using Some x False by (simp add: free_block_def memory_moved_def)
  qed
qed

lemma results_ok_moved:
  assumes "results_ok sizes se" "memory_moved (se_memory se) (se_memory se')" "sc_flags (se_config se') = sc_flags (se_config se)"
    "se_result_pool se' = se_result_pool se" "se_current_result se' = se_current_result se"
  shows "results_ok sizes se'"
proof (cases "uses_workspace se")
  case True
  then have *: "se_context se' = se_context se" "uses_workspace se'"
    using assms(2) by (simp_all add: memory_moved_def uses_workspace_def se_context_def se_memory_def)
  show ?thesis
    by (rule results_ok_cong [OF assms(1)]) (use * True assms(3-5) in simp_all)
next
  case False
  then show ?thesis using assms(1,3) by (simp add: results_ok_def)
qed

end
