(* ===== verification/Apta_Overview.thy ===== *)
theory Apta_Overview
  imports Apta_Publish
begin

text \<open>
  The overview store of \<^verbatim>\<open>src/waveform/apta_waveform_process.c\<close>: the array of accumulators, sorted by
  column, its growth, the binary search with insertion, the per-sample step without its
  floating-point part, the test for complete columns, and the states of the region requests that
  follow from them.
\<close>

section \<open>Growth\<close>

definition sizeof_u32 :: usize where [apta_consts]: "sizeof_u32 = 4"

definition apta_internal_waveform_grow_band_sums :: "engine \<Rightarrow> apta_session \<Rightarrow> u32 \<Rightarrow> apta_status \<times> apta_session" where
  "apta_internal_waveform_grow_band_sums eg se capacity =
     (if \<not> has_feature (se_config se) FEATURE_WAVEFORM_3BAND then (STATUS_OK, se)
      else if \<not> apta_internal_size_array_fits 0 (ucast capacity * BAND_COUNT) sizeof_u32
      then (ERROR_LIMIT_EXCEEDED, se)
      else
        (case apta_internal_session_allocate (eg_host eg) (se_memory se)
                (ucast capacity * BAND_COUNT * sizeof_u32) 4 of
           (None, sm) \<Rightarrow> (ERROR_OUT_OF_MEMORY, with_memory se sm)
         | (Some p, sm) \<Rightarrow>
             (STATUS_OK,
              with_memory (se\<lparr>se_overview := (se_overview se)\<lparr>ov_band_memory := Some p\<rparr>\<rparr>)
                (apta_internal_session_deallocate sm (ov_band_memory (se_overview se))))))"

text \<open>The growth proper: a new array from \<open>allocate\<close>, with \<open>from_workspace\<close> telling its origin, takes
  the place of the old one; the capacity counts only once the band array has grown too.\<close>

definition replace_accumulators ::
    "engine \<Rightarrow> apta_session \<Rightarrow> u32 \<Rightarrow> u64 option \<times> session_memory \<Rightarrow> bool \<Rightarrow> apta_status \<times> apta_session" where
  "replace_accumulators eg se capacity allocated from_workspace =
     (case allocated of
        (None, sm) \<Rightarrow> (ERROR_OUT_OF_MEMORY, with_memory se sm)
      | (Some p, sm) \<Rightarrow>
          (case apta_internal_waveform_grow_band_sums eg
                  (with_memory (se\<lparr>se_overview := (se_overview se)\<lparr>ov_memory := Some (p, from_workspace)\<rparr>\<rparr>)
                     (free_block sm (ov_memory (se_overview se)))) capacity of
             (status, se1) \<Rightarrow>
               (if failed status then status else STATUS_OK,
                if failed status then se1
                else se1\<lparr>se_overview := (se_overview se1)\<lparr>ov_capacity := capacity\<rparr>\<rparr>)))"

definition grown_capacity :: "struct_sizes \<Rightarrow> apta_session \<Rightarrow> u32 \<Rightarrow> u32 option" where
  "grown_capacity sizes se needed =
     (case double_capacity needed (if ov_capacity (se_overview se) = 0 then 16 else ov_capacity (se_overview se)) of
        None \<Rightarrow> None
      | Some capacity \<Rightarrow>
          if apta_internal_size_array_fits 0 (ucast capacity) (sizeof_accumulator sizes) then Some capacity else None)"

definition apta_ensure_accumulator_capacity :: "engine \<Rightarrow> apta_session \<Rightarrow> u32 \<Rightarrow> apta_status \<times> apta_session" where
  "apta_ensure_accumulator_capacity eg se needed =
     (if needed \<le> ov_capacity (se_overview se) then (STATUS_OK, se)
      else
        (case grown_capacity (eg_sizes eg) se needed of
           None \<Rightarrow> (ERROR_LIMIT_EXCEEDED, se)
         | Some capacity \<Rightarrow>
             replace_accumulators eg se capacity
               (case apta_internal_context_allocate (eg_host eg) (sm_context (se_memory se))
                       (ucast capacity * sizeof_accumulator (eg_sizes eg)) 8 of
                  (p, ctx) \<Rightarrow> (p, (se_memory se)\<lparr>sm_context := ctx\<rparr>)) False))"

section \<open>Search and insertion\<close>

text \<open>The binary search for the first accumulator at or behind a column.\<close>

function search_column :: "accumulator list \<Rightarrow> u32 \<Rightarrow> nat \<Rightarrow> nat \<Rightarrow> nat" where
  "search_column as c lo hi =
     (if lo < hi
      then
        let middle = lo + (hi - lo) div 2
        in if ac_column_index (as ! middle) < c then search_column as c (middle + 1) hi
           else search_column as c lo middle
      else lo)"
  by pat_completeness auto
termination
  by (relation "measure (\<lambda>(as, c, lo, hi). hi - lo)") auto

declare search_column.simps [simp del]

definition fresh_accumulator :: "u32 \<Rightarrow> accumulator" where
  "fresh_accumulator c = \<lparr>ac_column_index = c, ac_sample_count = 0, ac_complete = False\<rparr>"

definition with_accumulators :: "apta_session \<Rightarrow> accumulator list \<Rightarrow> apta_session" where
  "with_accumulators se as = se\<lparr>se_overview := (se_overview se)\<lparr>ov_accumulators := as\<rparr>\<rparr>"

text \<open>The position of the column's accumulator; a write behind the array is a fault.\<close>

definition apta_find_or_insert_accumulator ::
    "engine \<Rightarrow> apta_session \<Rightarrow> u32 \<Rightarrow> (apta_status \<times> nat \<times> apta_session) outcome" where
  "apta_find_or_insert_accumulator eg se c =
     (let as = ov_accumulators (se_overview se);
          position = search_column as c 0 (length as)
      in if position < length as \<and> ac_column_index (as ! position) = c then Ret (STATUS_OK, position, se)
         else
           (case apta_ensure_accumulator_capacity eg se (of_nat (length as) + 1) of
              (status, se1) \<Rightarrow>
                if failed status then Ret (status, 0, se1)
                else if unat (ov_capacity (se_overview se1)) \<le> length as then Fault
                else Ret (STATUS_OK, position,
                          with_accumulators se1 (take position as @ fresh_accumulator c # drop position as))))"

section \<open>Samples\<close>

definition add_sample :: "accumulator \<Rightarrow> accumulator" where
  "add_sample a = a\<lparr>ac_sample_count := ac_sample_count a + 1\<rparr>"

text \<open>The samples of a node at the given offsets behind its processed part.\<close>

fun apta_process_samples :: "engine \<Rightarrow> pcm_node \<Rightarrow> nat list \<Rightarrow> apta_session \<Rightarrow> (apta_status \<times> apta_session) outcome" where
  "apta_process_samples eg node [] se = Ret (STATUS_OK, se)"
| "apta_process_samples eg node (offset # offsets) se =
     (let source_frame = pn_first_frame node + ucast (pn_processed_frames node) + of_nat offset;
          column64 = source_frame div ucast (se_overview_frames_per_column se)
      in if se_overview_frames_per_column se = 0 then Fault
         else if ucast UINT32_MAX < column64 then Ret (ERROR_LIMIT_EXCEEDED, se)
         else
           obind (apta_find_or_insert_accumulator eg se (ucast column64)) (\<lambda>(status, position, se1).
           if failed status then Ret (status, se1)
           else
             let as = ov_accumulators (se_overview se1);
                 se2 = with_accumulators se1 (as[position := add_sample (as ! position)])
             in apta_process_samples eg node offsets (se2\<lparr>se_signal := eg_absorb eg se2 source_frame\<rparr>)))"

section \<open>Complete columns\<close>

definition apta_expected_column_frames :: "apta_session \<Rightarrow> u32 \<Rightarrow> u32" where
  "apta_expected_column_frames se c =
     (let first = ucast c * ucast (se_overview_frames_per_column se) :: u64
      in if \<not> se_end_of_input_signalled se then se_overview_frames_per_column se
         else if se_final_end_frame se \<le> first then 0
         else
           let fin = first + ucast (se_overview_frames_per_column se);
               cut = (if fin < se_final_end_frame se then fin else se_final_end_frame se)
           in ucast (cut - first))"

definition newly_complete :: "apta_session \<Rightarrow> accumulator \<Rightarrow> bool" where
  "newly_complete se a \<longleftrightarrow> \<not> ac_complete a \<and>
     (let expected = apta_expected_column_frames se (ac_column_index a)
      in expected \<noteq> 0 \<and> ac_sample_count a = expected)"

definition apta_refresh_completed_columns :: "apta_session \<Rightarrow> apta_session" where
  "apta_refresh_completed_columns se =
     (let as = ov_accumulators (se_overview se)
      in se\<lparr>se_overview := (se_overview se)
           \<lparr>ov_accumulators := map (\<lambda>a. if newly_complete se a then a\<lparr>ac_complete := True\<rparr> else a) as,
            ov_complete_count := ov_complete_count (se_overview se) +
              of_nat (length (filter (newly_complete se) as))\<rparr>\<rparr>)"

section \<open>Request states\<close>

text \<open>The walk over the columns of a range, with the accumulators still ahead.\<close>

function walk_columns :: "accumulator list \<Rightarrow> u64 \<Rightarrow> u64 \<Rightarrow> bool" where
  "walk_columns as c final =
     (if final < c then True
      else
        (case dropWhile (\<lambda>a. ucast (ac_column_index a) < c) as of
           [] \<Rightarrow> False
         | a # rest \<Rightarrow>
             if ucast (ac_column_index a) \<noteq> c \<or> \<not> ac_complete a then False
             else walk_columns rest (c + 1) final))"
  by pat_completeness auto
termination
proof (relation "measure (\<lambda>(as, c, final). length as)")
  fix as :: "accumulator list" and c final :: u64 and a rest
  assume "dropWhile (\<lambda>a. ucast (ac_column_index a) < c) as = a # rest"
  then show "((rest, c + 1, final), as, c, final) \<in> measure (\<lambda>(as, c, final). length as)"
    using length_dropWhile_le [of "\<lambda>a. ucast (ac_column_index a) < c" as] by simp
qed simp

declare walk_columns.simps [simp del]

definition apta_accumulator_range_complete :: "apta_session \<Rightarrow> u64 \<Rightarrow> u64 \<Rightarrow> bool" where
  "apta_accumulator_range_complete se first fin \<longleftrightarrow>
     (let fpc = ucast (se_overview_frames_per_column se);
          last_column = (fin - 1) div fpc
      in first < fin \<and> last_column \<le> ucast UINT32_MAX \<and>
         walk_columns (ov_accumulators (se_overview se)) (first div fpc) last_column)"

definition frame_ranges_overlap :: "u64 \<Rightarrow> u64 \<Rightarrow> u64 \<Rightarrow> u64 \<Rightarrow> bool" where
  "frame_ranges_overlap first_a end_a first_b end_b \<longleftrightarrow> first_a < end_b \<and> first_b < end_a"

definition apta_accumulator_range_has_output :: "apta_session \<Rightarrow> u64 \<Rightarrow> u64 \<Rightarrow> bool" where
  "apta_accumulator_range_has_output se first fin \<longleftrightarrow>
     list_ex (\<lambda>a. ac_complete a \<and>
       (let column_first = ucast (ac_column_index a) * ucast (se_overview_frames_per_column se)
        in frame_ranges_overlap column_first (column_first + ucast (se_overview_frames_per_column se)) first fin))
       (ov_accumulators (se_overview se))"

definition update_request_state :: "apta_session \<Rightarrow> internal_request \<Rightarrow> internal_request" where
  "update_request_state se r =
     (if rq_request_id r = 0 \<or> rq_state r = REQUEST_CANCELLED \<or> rq_state r = REQUEST_FAILED \<or>
         rq_state r = REQUEST_SATISFIED \<or> rr_feature_mask (rq_request r) AND FEATURE_WAVEFORM_OVERVIEW = 0
      then r
      else
        let first = rr_first_frame (rq_request r); fin = rr_end_frame (rq_request r)
        in if apta_accumulator_range_complete se first fin then r\<lparr>rq_state := REQUEST_SATISFIED\<rparr>
           else if apta_accumulator_range_has_output se first fin then r\<lparr>rq_state := REQUEST_PARTIALLY_SATISFIED\<rparr>
           else r\<lparr>rq_state := REQUEST_WAITING_FOR_PCM\<rparr>)"

definition apta_update_request_states :: "apta_session \<Rightarrow> apta_session" where
  "apta_update_request_states se = se\<lparr>se_requests := map (update_request_state se) (se_requests se)\<rparr>"

section \<open>The sorted array\<close>

definition store_sorted :: "accumulator list \<Rightarrow> bool" where
  "store_sorted as \<longleftrightarrow> sorted_wrt (\<lambda>a b. ac_column_index a < ac_column_index b) as"

lemma store_sorted_simps [simp]:
  "store_sorted []"
  "store_sorted (a # as) \<longleftrightarrow> (\<forall>b\<in>set as. ac_column_index a < ac_column_index b) \<and> store_sorted as"
  "store_sorted (as @ bs) \<longleftrightarrow> store_sorted as \<and> store_sorted bs \<and>
     (\<forall>a\<in>set as. \<forall>b\<in>set bs. ac_column_index a < ac_column_index b)"
  by (auto simp: store_sorted_def sorted_wrt_append)

lemma store_sorted_nth: "store_sorted as \<Longrightarrow> i < j \<Longrightarrow> j < length as \<Longrightarrow> ac_column_index (as ! i) < ac_column_index (as ! j)"
  by (simp add: store_sorted_def sorted_wrt_iff_nth_less)

lemma search_column_split:
  assumes "lo \<le> hi" "hi \<le> length as" "store_sorted as"
    and "\<And>i. i < lo \<Longrightarrow> ac_column_index (as ! i) < c"
    and "\<And>i. hi \<le> i \<Longrightarrow> i < length as \<Longrightarrow> \<not> ac_column_index (as ! i) < c"
  shows "search_column as c lo hi \<le> length as \<and>
    (\<forall>i < search_column as c lo hi. ac_column_index (as ! i) < c) \<and>
    (\<forall>i. search_column as c lo hi \<le> i \<longrightarrow> i < length as \<longrightarrow> \<not> ac_column_index (as ! i) < c)"
  using assms
proof (induction as c lo hi rule: search_column.induct)
  case (1 as c lo hi)
  define m where "m = lo + (hi - lo) div 2"
  have step: "search_column as c lo hi =
    (if lo < hi then if ac_column_index (as ! m) < c then search_column as c (m + 1) hi
     else search_column as c lo m else lo)"
    by (subst search_column.simps) (simp add: Let_def m_def)
  show ?case
  proof (cases "lo < hi")
    case False
    then show ?thesis using step 1(3-7) by auto
  next
    case True
    have m: "lo \<le> m" "m < hi" using True by (auto simp: m_def)
    show ?thesis
    proof (cases "ac_column_index (as ! m) < c")
      case less: True
      have "ac_column_index (as ! i) < c" if "i < m + 1" for i
        using that store_sorted_nth [OF 1(5), of i m] less m(2) 1(4) by (cases "i = m") auto
      then show ?thesis unfolding step using True less
        by (simp, intro 1(1) [OF True m_def less, simplified]) (use m 1(4,5,7) in auto)
    next
      case ge: False
      have "\<not> ac_column_index (as ! i) < c" if "m \<le> i" "i < length as" for i
        using that store_sorted_nth [OF 1(5), of m i] ge by (cases "i = m") auto
      then show ?thesis unfolding step using True ge
        by (simp, intro 1(2) [OF True m_def ge, simplified]) (use m 1(4-6) in auto)
    qed
  qed
qed

text \<open>The binary search finds what the linear one finds.\<close>

lemma search_column_linear:
  assumes "store_sorted as"
  shows "search_column as c 0 (length as) = length (takeWhile (\<lambda>a. ac_column_index a < c) as)"
proof -
  let ?p = "search_column as c 0 (length as)"
  have p: "?p \<le> length as" "\<And>i. i < ?p \<Longrightarrow> ac_column_index (as ! i) < c"
    "\<And>i. ?p \<le> i \<Longrightarrow> i < length as \<Longrightarrow> \<not> ac_column_index (as ! i) < c"
    using search_column_split [of 0 "length as" as c] assms by auto
  have "takeWhile (\<lambda>a. ac_column_index a < c) as = take ?p as"
    by (rule takeWhile_eq_take_P_nth) (use p in auto)
  then show ?thesis using p(1) by simp
qed

section \<open>The array as a table of columns\<close>

definition column_table :: "accumulator list \<Rightarrow> u32 \<rightharpoonup> accumulator" where
  "column_table as = map_of (map (\<lambda>a. (ac_column_index a, a)) as)"

lemma column_table_simps [simp]:
  "column_table [] = Map.empty"
  "column_table (a # as) = (column_table as)(ac_column_index a \<mapsto> a)"
  "column_table (as @ bs) = column_table bs ++ column_table as"
  by (simp_all add: column_table_def)

lemma column_table_Some: "column_table as c = Some a \<Longrightarrow> a \<in> set as \<and> ac_column_index a = c"
  by (auto simp: column_table_def dest: map_of_SomeD)

lemma column_table_None: "column_table as c = None \<longleftrightarrow> (\<forall>a\<in>set as. ac_column_index a \<noteq> c)"
  by (auto simp: column_table_def map_of_eq_None_iff image_image)

lemma column_table_mem:
  assumes "store_sorted as" "a \<in> set as"
  shows "column_table as (ac_column_index a) = Some a"
proof -
  have "distinct (map ac_column_index as)"
    using assms(1) by (induction as) auto
  then have "distinct (map fst (map (\<lambda>a. (ac_column_index a, a)) as))" by (simp add: comp_def)
  from map_of_is_SomeI [OF this] show ?thesis using assms(2) by (force simp: column_table_def)
qed

lemma store_sorted_update:
  assumes "store_sorted as" "ac_column_index b = ac_column_index (as ! i)" "i < length as"
  shows "store_sorted (as[i := b])" "column_table (as[i := b]) = (column_table as)(ac_column_index b \<mapsto> b)"
proof -
  obtain xs y ys where s: "as = xs @ y # ys" "as[i := b] = xs @ b # ys" and y: "y = as ! i"
    using id_take_nth_drop [OF assms(3)] upd_conv_take_nth_drop [OF assms(3), of b] by blast
  have c: "ac_column_index b = ac_column_index y" using assms(2) y by simp
  have sorted: "store_sorted xs" "store_sorted ys" "\<forall>a\<in>set xs. ac_column_index a < ac_column_index y"
    "\<forall>a\<in>set xs. \<forall>b\<in>set ys. ac_column_index a < ac_column_index b" "\<forall>a\<in>set ys. ac_column_index y < ac_column_index a"
    using assms(1) by (simp_all add: s(1))
  then show "store_sorted (as[i := b])" by (simp add: s(2) c)
  have "column_table xs (ac_column_index y) = None" using sorted(3) by (auto simp: column_table_None)
  then show "column_table (as[i := b]) = (column_table as)(ac_column_index b \<mapsto> b)"
    unfolding s(2) by (simp add: s(1) c fun_eq_iff map_add_def split: option.split)
qed

lemma store_sorted_insert:
  assumes "store_sorted as" "p \<le> length as" "\<And>i. i < p \<Longrightarrow> ac_column_index (as ! i) < ac_column_index b"
    "\<And>i. p \<le> i \<Longrightarrow> i < length as \<Longrightarrow> ac_column_index b < ac_column_index (as ! i)"
  shows "store_sorted (take p as @ b # drop p as)"
    "column_table (take p as @ b # drop p as) = (column_table as)(ac_column_index b \<mapsto> b)"
proof -
  have l: "\<forall>a\<in>set (take p as). ac_column_index a < ac_column_index b"
    using assms(2,3) by (auto simp: in_set_conv_nth)
  have r: "\<forall>a\<in>set (drop p as). ac_column_index b < ac_column_index a"
    using assms(2,4) by (auto simp: in_set_conv_nth)
  have s: "store_sorted (take p as)" "store_sorted (drop p as)"
    "\<forall>a\<in>set (take p as). \<forall>c\<in>set (drop p as). ac_column_index a < ac_column_index c"
    using assms(1) store_sorted_simps(3) [of "take p as" "drop p as"] by simp_all
  show "store_sorted (take p as @ b # drop p as)" using l r s by (auto simp: less_trans)
  have "column_table (take p as) (ac_column_index b) = None" using l by (auto simp: column_table_None)
  then have "column_table (take p as @ b # drop p as) = (column_table (drop p as) ++ column_table (take p as))(ac_column_index b \<mapsto> b)"
    by (simp add: fun_eq_iff map_add_def split: option.split)
  also have "column_table (drop p as) ++ column_table (take p as) = column_table as"
    using column_table_simps(3) [of "take p as" "drop p as"] by simp
  finally show "column_table (take p as @ b # drop p as) = (column_table as)(ac_column_index b \<mapsto> b)" .
qed


section \<open>The shape of the store\<close>

definition overview_shape :: "apta_session \<Rightarrow> bool" where
  "overview_shape se \<longleftrightarrow>
     (let ov = se_overview se
      in store_sorted (ov_accumulators ov) \<and> capacity_ok (ov_capacity ov) \<and>
         length (ov_accumulators ov) \<le> unat (ov_capacity ov) \<and>
         (uses_workspace se \<longrightarrow> (\<forall>a. ov_memory ov \<noteq> Some (a, False))) \<and>
         se_overview_frames_per_column se \<noteq> 0)"

text \<open>Growing changes memory, blocks and capacity only.\<close>

definition store_grown :: "apta_session \<Rightarrow> apta_session \<Rightarrow> bool" where
  "store_grown se se' \<longleftrightarrow>
     (\<exists>ov sm. se' = with_memory (se\<lparr>se_overview := ov\<rparr>) sm \<and>
        ov_accumulators ov = ov_accumulators (se_overview se) \<and>
        ov_complete_count ov = ov_complete_count (se_overview se))"

lemma se_memory_update [simp]:
  "se_memory (se\<lparr>se_overview := ov\<rparr>) = se_memory se" "se_memory (se\<lparr>se_signal := x\<rparr>) = se_memory se"
  "se_memory (se\<lparr>se_requests := rs\<rparr>) = se_memory se" "se_memory (se\<lparr>se_detail := de\<rparr>) = se_memory se"
  "se_memory (se\<lparr>se_clock_reads := n\<rparr>) = se_memory se" "se_memory (se\<lparr>se_focus := fo\<rparr>) = se_memory se"
  "se_memory (se\<lparr>se_s4 := s4\<rparr>) = se_memory se" "se_memory (se\<lparr>se_s6 := s6\<rparr>) = se_memory se"
  "se_memory (se\<lparr>se_state := st\<rparr>) = se_memory se"
  by (simp_all add: se_memory_def)

lemma with_memory_fields [simp]:
  "se_memory (with_memory se sm) = sm" "se_overview (with_memory se sm) = se_overview se"
  "with_memory (with_memory se sm) sm' = with_memory se sm'" "with_memory se (se_memory se) = se"
  "with_memory (se\<lparr>se_overview := ov\<rparr>) sm = (with_memory se sm)\<lparr>se_overview := ov\<rparr>"
  "(with_memory se sm)\<lparr>se_signal := x\<rparr> = with_memory (se\<lparr>se_signal := x\<rparr>) sm"
  "se_config (with_memory se sm) = se_config se"
  "se_overview_frames_per_column (with_memory se sm) = se_overview_frames_per_column se"
  "se_requests (with_memory se sm) = se_requests se"
  by (simp_all add: with_memory_def se_memory_def)

lemma grow_bands_cases:
  assumes "apta_internal_waveform_grow_band_sums eg se c = (s, se')"
  obtains bm sm where "se' = with_memory (se\<lparr>se_overview := (se_overview se)\<lparr>ov_band_memory := bm\<rparr>\<rparr>) sm"
    "memory_moved (se_memory se) sm" "s = STATUS_OK \<or> s = ERROR_LIMIT_EXCEEDED \<or> s = ERROR_OUT_OF_MEMORY"
proof -
  let ?n = "ucast c * BAND_COUNT * sizeof_u32"
  have same: "se = with_memory (se\<lparr>se_overview := (se_overview se)\<lparr>ov_band_memory := ov_band_memory (se_overview se)\<rparr>\<rparr>) (se_memory se)"
    by simp
  obtain p sm where a: "apta_internal_session_allocate (eg_host eg) (se_memory se) ?n 4 = (p, sm)" by fastforce
  note m = session_allocate_moved [OF a]
  consider (off) "se' = se" "s = STATUS_OK \<or> s = ERROR_LIMIT_EXCEEDED"
    | (none) "se' = with_memory se sm" "s = ERROR_OUT_OF_MEMORY"
    | (some) q where "se' = with_memory (se\<lparr>se_overview := (se_overview se)\<lparr>ov_band_memory := Some q\<rparr>\<rparr>)
                (apta_internal_session_deallocate sm (ov_band_memory (se_overview se)))" "s = STATUS_OK"
    using assms a unfolding apta_internal_waveform_grow_band_sums_def by (auto split: if_splits option.splits)
  then show ?thesis
  proof cases
    case off
    then show ?thesis using that [of "ov_band_memory (se_overview se)" "se_memory se"] by auto
  next
    case none
    then show ?thesis using that [of "ov_band_memory (se_overview se)" sm] m by auto
  next
    case some
    then show ?thesis using that memory_moved_trans [OF m session_deallocate_moved] by blast
  qed
qed

lemma replace_accumulators_cases:
  assumes "replace_accumulators eg se c (p, sm) fw = (s, se')" "memory_moved (se_memory se) sm"
    and "\<And>a. uses_workspace se \<Longrightarrow> ov_memory (se_overview se) \<noteq> Some (a, False)"
  obtains (ok) q bm sm' where "p = Some q" "s = STATUS_OK" "memory_moved (se_memory se) sm'"
      "se' = with_memory (se\<lparr>se_overview := (se_overview se)\<lparr>ov_memory := Some (q, fw), ov_band_memory := bm, ov_capacity := c\<rparr>\<rparr>) sm'"
  | (error) m bm sm' where "s = ERROR_LIMIT_EXCEEDED \<or> s = ERROR_OUT_OF_MEMORY" "memory_moved (se_memory se) sm'"
      "m = ov_memory (se_overview se) \<or> (\<exists>q. m = Some (q, fw))"
      "se' = with_memory (se\<lparr>se_overview := (se_overview se)\<lparr>ov_memory := m, ov_band_memory := bm\<rparr>\<rparr>) sm'"
proof (cases p)
  case None
  then have "s = ERROR_OUT_OF_MEMORY" "se' = with_memory se sm" using assms(1) by (simp_all add: replace_accumulators_def)
  then show ?thesis
    using error [of sm "ov_memory (se_overview se)" "ov_band_memory (se_overview se)"] assms(2) by simp
next
  case (Some q)
  let ?se1 = "with_memory (se\<lparr>se_overview := (se_overview se)\<lparr>ov_memory := Some (q, fw)\<rparr>\<rparr>)
                     (free_block sm (ov_memory (se_overview se)))"
  obtain t se2 where g: "apta_internal_waveform_grow_band_sums eg ?se1 c = (t, se2)" by fastforce
  have "sm_workspace sm \<noteq> None \<Longrightarrow> uses_workspace se" using assms(2) by (auto simp: memory_moved_def uses_workspace_def)
  then have m1: "memory_moved (se_memory se) (se_memory ?se1)"
    using memory_moved_trans [OF assms(2) free_block_moved [of sm "ov_memory (se_overview se)"]] assms(3) by simp
  from g show ?thesis
  proof (rule grow_bands_cases)
    fix bm sm2 assume se2: "se2 = with_memory (?se1\<lparr>se_overview := (se_overview ?se1)\<lparr>ov_band_memory := bm\<rparr>\<rparr>) sm2"
      and m2: "memory_moved (se_memory ?se1) sm2" and t: "t = STATUS_OK \<or> t = ERROR_LIMIT_EXCEEDED \<or> t = ERROR_OUT_OF_MEMORY"
    note m = memory_moved_trans [OF m1 m2]
    show ?thesis
    proof (cases "t = STATUS_OK")
      case True
      then have "s = STATUS_OK" "se' = se2\<lparr>se_overview := (se_overview se2)\<lparr>ov_capacity := c\<rparr>\<rparr>"
        using assms(1) g Some by (simp_all add: replace_accumulators_def)
      then show ?thesis using ok [OF Some _ m, of bm] se2 by simp
    next
      case False
      then have "failed t" using t by auto
      then have "s = t" "se' = se2" using assms(1) g Some by (simp_all add: replace_accumulators_def)
      then show ?thesis using error [OF _ m, of "Some (q, fw)" bm] False t se2 by auto
    qed
  qed
qed

lemma uses_workspace_memory: "uses_workspace se \<longleftrightarrow> sm_workspace (se_memory se) \<noteq> None"
  by (simp add: uses_workspace_def)

lemma uses_workspace_simps [simp]:
  "uses_workspace (se\<lparr>se_overview := ov\<rparr>) = uses_workspace se" "uses_workspace (se\<lparr>se_signal := x\<rparr>) = uses_workspace se"
  "uses_workspace (with_memory se sm) \<longleftrightarrow> sm_workspace sm \<noteq> None"
  by (simp_all add: uses_workspace_def)

lemma grown_capacity_Some:
  assumes "grown_capacity sizes se needed = Some c" "capacity_ok (ov_capacity (se_overview se))"
  shows "needed \<le> c" "capacity_ok c"
proof -
  let ?c0 = "if ov_capacity (se_overview se) = 0 then 16 else ov_capacity (se_overview se)"
  obtain k where k: "unat ?c0 = 8 * 2 ^ k"
  proof (cases "ov_capacity (se_overview se) = 0")
    case True
    then show ?thesis using that [of 1] by simp
  qed (use assms(2) that in \<open>auto simp: capacity_ok_def\<close>)
  have "double_capacity needed ?c0 = Some c"
    using assms(1) by (auto simp: grown_capacity_def split: option.splits if_splits)
  from double_capacity_Some [OF this k] show "needed \<le> c" "capacity_ok c" by simp_all
qed

lemma ensure_capacity_cases:
  assumes "apta_ensure_accumulator_capacity eg se needed = (s, se')" "overview_shape se"
    and "uses_workspace se \<Longrightarrow> needed \<le> ov_capacity (se_overview se)"
    and "unat (ov_capacity (se_overview se)) < unat needed \<Longrightarrow> length (ov_accumulators (se_overview se)) \<le> unat needed"
  obtains ov sm where "se' = with_memory (se\<lparr>se_overview := ov\<rparr>) sm" "memory_moved (se_memory se) sm"
      "ov_accumulators ov = ov_accumulators (se_overview se)" "ov_complete_count ov = ov_complete_count (se_overview se)"
      "overview_shape se'" "failed s \<and> \<not> uses_workspace se \<or> s = STATUS_OK \<and> needed \<le> ov_capacity ov"
      "ov_capacity (se_overview se) \<le> ov_capacity ov"
proof (cases "needed \<le> ov_capacity (se_overview se)")
  case True
  then show ?thesis using that [of "se_overview se" "se_memory se"] assms
    by (simp add: apta_ensure_accumulator_capacity_def)
next
  case False
  then have nw: "\<not> uses_workspace se" using assms(3) by blast
  show ?thesis
  proof (cases "grown_capacity (eg_sizes eg) se needed")
    case None
    then show ?thesis using that [of "se_overview se" "se_memory se"] assms(1,2) False nw
      by (simp add: apta_ensure_accumulator_capacity_def)
  next
    case (Some c)
    have sh: "capacity_ok (ov_capacity (se_overview se))" "store_sorted (ov_accumulators (se_overview se))"
      "length (ov_accumulators (se_overview se)) \<le> unat (ov_capacity (se_overview se))" "se_overview_frames_per_column se \<noteq> 0"
      using assms(2) by (simp_all add: overview_shape_def Let_def)
    note c = grown_capacity_Some [OF Some sh(1)]
    have le: "unat needed \<le> unat c" "unat (ov_capacity (se_overview se)) < unat needed"
      using c(1) False by (simp_all add: word_le_nat_alt)
    obtain p ctx where a: "apta_internal_context_allocate (eg_host eg) (sm_context (se_memory se))
        (ucast c * sizeof_accumulator (eg_sizes eg)) 8 = (p, ctx)" by fastforce
    have r: "replace_accumulators eg se c (p, (se_memory se)\<lparr>sm_context := ctx\<rparr>) False = (s, se')"
      using assms(1) False Some a by (simp add: apta_ensure_accumulator_capacity_def)
    have mv: "memory_moved (se_memory se) ((se_memory se)\<lparr>sm_context := ctx\<rparr>)"
      using nw by (simp add: memory_moved_def uses_workspace_def)
    from r mv show ?thesis
    proof (rule replace_accumulators_cases)
      show "uses_workspace se \<Longrightarrow> ov_memory (se_overview se) \<noteq> Some (a, False)" for a using nw by simp
    next
      fix q bm sm' assume x: "s = STATUS_OK" "memory_moved (se_memory se) sm'"
        "se' = with_memory (se\<lparr>se_overview := (se_overview se)\<lparr>ov_memory := Some (q, False), ov_band_memory := bm, ov_capacity := c\<rparr>\<rparr>) sm'"
      have "sm_workspace sm' = None" using x(2) nw by (simp add: memory_moved_def uses_workspace_def)
      then have "overview_shape se'"
        using sh c le by (simp add: overview_shape_def Let_def x(3))
      then show ?thesis using that [OF x(3,2)] x(1) c(1) le by (simp add: word_le_nat_alt)
    next
      fix m bm sm' assume x: "s = ERROR_LIMIT_EXCEEDED \<or> s = ERROR_OUT_OF_MEMORY" "memory_moved (se_memory se) sm'"
        "se' = with_memory (se\<lparr>se_overview := (se_overview se)\<lparr>ov_memory := m, ov_band_memory := bm\<rparr>\<rparr>) sm'"
      have "sm_workspace sm' = None" using x(2) nw by (simp add: memory_moved_def uses_workspace_def)
      then have "overview_shape se'" using sh by (simp add: overview_shape_def Let_def x(3))
      then show ?thesis using that [OF x(3,2)] x(1) nw by auto
    qed
  qed
qed

text \<open>What finding or inserting a column does to the table.\<close>

definition touch :: "(u32 \<rightharpoonup> accumulator) \<Rightarrow> u32 \<Rightarrow> accumulator" where
  "touch t c = (case t c of None \<Rightarrow> fresh_accumulator c | Some a \<Rightarrow> a)"

definition accumulators :: "apta_session \<Rightarrow> accumulator list" where
  "accumulators se = ov_accumulators (se_overview se)"

definition overview_table :: "apta_session \<Rightarrow> u32 \<rightharpoonup> accumulator" where
  "overview_table se = column_table (accumulators se)"

text \<open>A session with a workspace has room for the given columns.\<close>

definition room :: "u32 set \<Rightarrow> apta_session \<Rightarrow> bool" where
  "room C se \<longleftrightarrow> (uses_workspace se \<longrightarrow> card (C \<union> dom (overview_table se)) \<le> unat (ov_capacity (se_overview se)))"

text \<open>Only the store, the memory and the sample data change.\<close>

definition store_step :: "apta_session \<Rightarrow> apta_session \<Rightarrow> bool" where
  "store_step se se' \<longleftrightarrow>
     (\<exists>ov x sm. se' = with_memory (se\<lparr>se_overview := ov, se_signal := x\<rparr>) sm \<and> memory_moved (se_memory se) sm)"

lemma dom_column_table: "dom (column_table as) = ac_column_index ` set as"
  by (auto simp: column_table_def dom_map_of_conv_image_fst image_image)

lemma card_dom_table: "store_sorted as \<Longrightarrow> card (dom (column_table as)) = length as"
proof -
  assume "store_sorted as"
  then have "distinct (map ac_column_index as)" by (induction as) auto
  then show ?thesis unfolding dom_column_table by (metis distinct_card length_map list.set_map)
qed

lemma store_step_refl [simp]: "store_step se se"
  unfolding store_step_def
  by (intro exI [of _ "se_overview se"] exI [of _ "se_signal se"] exI [of _ "se_memory se"]) simp

lemma store_step_trans: "store_step a b \<Longrightarrow> store_step b c \<Longrightarrow> store_step a c"
proof -
  assume "store_step a b" "store_step b c"
  then obtain ov x sm ov' x' sm' where b: "b = with_memory (a\<lparr>se_overview := ov, se_signal := x\<rparr>) sm"
    "memory_moved (se_memory a) sm" and c: "c = with_memory (b\<lparr>se_overview := ov', se_signal := x'\<rparr>) sm'"
    "memory_moved (se_memory b) sm'" by (auto simp: store_step_def)
  have "c = with_memory (a\<lparr>se_overview := ov', se_signal := x'\<rparr>) sm'"
    unfolding c(1) b(1) by (simp add: with_memory_def)
  then show ?thesis unfolding store_step_def using memory_moved_trans [OF b(2)] c(2) b(1) by auto
qed


lemma with_accumulators_fields [simp]:
  "se_memory (with_accumulators se as) = se_memory se" "uses_workspace (with_accumulators se as) = uses_workspace se"
  "accumulators (with_accumulators se as) = as"
  "se_overview_frames_per_column (with_accumulators se as) = se_overview_frames_per_column se"
  "ov_capacity (se_overview (with_accumulators se as)) = ov_capacity (se_overview se)"
  "ov_complete_count (se_overview (with_accumulators se as)) = ov_complete_count (se_overview se)"
  by (simp_all add: with_accumulators_def accumulators_def uses_workspace_def)

lemma store_step_accumulators [simp]: "store_step se (with_accumulators se as)"
  unfolding store_step_def with_accumulators_def
  by (intro exI [of _ "(se_overview se)\<lparr>ov_accumulators := as\<rparr>"] exI [of _ "se_signal se"] exI [of _ "se_memory se"]) simp

lemma shape_accumulators:
  "overview_shape (with_accumulators se as) \<longleftrightarrow> store_sorted as \<and> capacity_ok (ov_capacity (se_overview se)) \<and>
     length as \<le> unat (ov_capacity (se_overview se)) \<and>
     (uses_workspace se \<longrightarrow> (\<forall>a. ov_memory (se_overview se) \<noteq> Some (a, False))) \<and> se_overview_frames_per_column se \<noteq> 0"
  by (simp add: overview_shape_def Let_def with_accumulators_def)

lemma find_position:
  fixes as c
  assumes "store_sorted as"
  defines "p \<equiv> search_column as c 0 (length as)"
  shows "p \<le> length as" "\<And>i. i < p \<Longrightarrow> ac_column_index (as ! i) < c"
    "\<And>i. p \<le> i \<Longrightarrow> i < length as \<Longrightarrow> \<not> ac_column_index (as ! i) < c"
    "p < length as \<and> ac_column_index (as ! p) = c \<longleftrightarrow> column_table as c \<noteq> None"
    "p < length as \<Longrightarrow> ac_column_index (as ! p) = c \<Longrightarrow> column_table as c = Some (as ! p)"
proof -
  show p: "p \<le> length as" "\<And>i. i < p \<Longrightarrow> ac_column_index (as ! i) < c"
    "\<And>i. p \<le> i \<Longrightarrow> i < length as \<Longrightarrow> \<not> ac_column_index (as ! i) < c"
    using search_column_split [of 0 "length as" as c] assms by auto
  show s: "column_table as c = Some (as ! p)" if "p < length as" "ac_column_index (as ! p) = c"
    using column_table_mem [OF assms(1), of "as ! p"] that by simp
  have "p < length as \<and> ac_column_index (as ! p) = c" if found: "column_table as c = Some a" for a
  proof -
    obtain i where i: "i < length as" "as ! i = a" "ac_column_index a = c"
      using column_table_Some [OF found] by (auto simp: in_set_conv_nth)
    then have "p \<le> i" using p(2) [of i] by (cases "p \<le> i") auto
    moreover have "\<not> p < i"
      using p(3) [of p] store_sorted_nth [OF assms(1), of p i] i by auto
    ultimately show ?thesis using i by simp
  qed
  then show "p < length as \<and> ac_column_index (as ! p) = c \<longleftrightarrow> column_table as c \<noteq> None" using s by fastforce
qed

lemma find_or_insert_cases:
  assumes sh: "overview_shape se" and room: "room C se" "c \<in> C"
  obtains (ok) position se' where "apta_find_or_insert_accumulator eg se c = Ret (STATUS_OK, position, se')"
      "position < length (accumulators se')" "accumulators se' ! position = touch (overview_table se) c"
      "overview_table se' = (overview_table se)(c \<mapsto> touch (overview_table se) c)"
      "overview_shape se'" "room C se'" "store_step se se'"
      "ov_complete_count (se_overview se') = ov_complete_count (se_overview se)"
      "\<forall>P. filter P (accumulators se') = filter P (accumulators se) \<or> P (fresh_accumulator c)"
  | (error) s se' where "apta_find_or_insert_accumulator eg se c = Ret (s, 0, se')" "failed s" "\<not> uses_workspace se"
      "accumulators se' = accumulators se" "overview_shape se'" "store_step se se'"
      "ov_complete_count (se_overview se') = ov_complete_count (se_overview se)"
proof -
  let ?as = "ov_accumulators (se_overview se)"
  define p where "p = search_column ?as c 0 (length ?as)"
  have srt: "store_sorted ?as" and len: "length ?as \<le> unat (ov_capacity (se_overview se))"
    and cap: "capacity_ok (ov_capacity (se_overview se))" using sh by (simp_all add: overview_shape_def Let_def)
  note pos = find_position [OF srt, where c = c, folded p_def]
  show ?thesis
  proof (cases "p < length ?as \<and> ac_column_index (?as ! p) = c")
    case True
    then have t: "column_table ?as c = Some (?as ! p)" using pos(5) by blast
    show ?thesis
    proof (rule ok [of p se])
      show "apta_find_or_insert_accumulator eg se c = Ret (STATUS_OK, p, se)"
        using True by (simp add: apta_find_or_insert_accumulator_def Let_def p_def)
      show "overview_table se = (overview_table se)(c \<mapsto> touch (overview_table se) c)"
        using t by (simp add: overview_table_def accumulators_def touch_def fun_upd_idem)
    qed (use True t sh room in \<open>simp_all add: accumulators_def overview_table_def touch_def\<close>)
  next
    case False
    then have none: "column_table ?as c = None" using pos(4) by blast
    then have nd: "c \<notin> dom (overview_table se)" by (auto simp: overview_table_def accumulators_def)
    have cb: "length ?as < 4294967295" using len capacity_bound [OF cap] by simp
    then have needed: "unat (of_nat (length ?as) + 1 :: u32) = length ?as + 1"
      by (simp add: unat_word_ariths unat_of_nat)
    have fit: "of_nat (length ?as) + 1 \<le> ov_capacity (se_overview se)" if "uses_workspace se"
    proof -
      have "card (insert c (dom (overview_table se))) \<le> card (C \<union> dom (overview_table se))"
        by (rule card_mono) (use room(2) in auto)
      moreover have "card (insert c (dom (overview_table se))) = length ?as + 1"
        using nd card_dom_table [OF srt] by (simp add: overview_table_def accumulators_def)
      ultimately show ?thesis using room(1) that needed by (simp add: room_def word_le_nat_alt)
    qed
    obtain s se1 where e: "apta_ensure_accumulator_capacity eg se (of_nat (length ?as) + 1) = (s, se1)" by fastforce
    from e sh fit show ?thesis
    proof (rule ensure_capacity_cases)
      show "length ?as \<le> unat (of_nat (length ?as) + 1 :: u32)" using needed by simp
    next
      fix ov sm assume g: "se1 = with_memory (se\<lparr>se_overview := ov\<rparr>) sm" "memory_moved (se_memory se) sm"
        "ov_accumulators ov = ?as" "ov_complete_count ov = ov_complete_count (se_overview se)" "overview_shape se1"
        "failed s \<and> \<not> uses_workspace se \<or> s = STATUS_OK \<and> of_nat (length ?as) + 1 \<le> ov_capacity ov"
        "ov_capacity (se_overview se) \<le> ov_capacity ov"
      have step: "store_step se se1" unfolding store_step_def using g(1,2)
        by (intro exI [of _ ov] exI [of _ "se_signal se"] exI [of _ sm]) simp
      have uw: "uses_workspace se1 = uses_workspace se" using g(1,2) by (simp add: memory_moved_def uses_workspace_def)
      show ?thesis
      proof (cases "failed s")
        case True
        then have "apta_find_or_insert_accumulator eg se c = Ret (s, 0, se1)"
          using False e by (auto simp: apta_find_or_insert_accumulator_def Let_def p_def)
        from error [OF this True _ _ g(5) step] show ?thesis using g True by (auto simp: accumulators_def)
      next
        case nf: False
        let ?new = "take p ?as @ fresh_accumulator c # drop p ?as"
        have c1: "of_nat (length ?as) + 1 \<le> ov_capacity ov" "s = STATUS_OK" using g(6) nf by auto
        then have room1: "length ?as < unat (ov_capacity ov)" using needed by (simp add: word_le_nat_alt)
        have ins: "store_sorted ?new" "column_table ?new = (column_table ?as)(c \<mapsto> fresh_accumulator c)"
        proof -
          have "c < ac_column_index (?as ! i)" if "p \<le> i" "i < length ?as" for i
          proof -
            have "column_table ?as c \<noteq> Some (?as ! i)" using none by simp
            then have "ac_column_index (?as ! i) \<noteq> c" using column_table_mem [OF srt, of "?as ! i"] that by auto
            then show ?thesis using pos(3) [OF that] by simp
          qed
          with store_sorted_insert [OF srt pos(1), of "fresh_accumulator c"] pos(2)
          show "store_sorted ?new" "column_table ?new = (column_table ?as)(c \<mapsto> fresh_accumulator c)"
            by (simp_all add: fresh_accumulator_def)
        qed
        let ?se2 = "with_accumulators se1 ?new"
        show ?thesis
        proof (rule ok [of p ?se2])
          show "apta_find_or_insert_accumulator eg se c = Ret (STATUS_OK, p, ?se2)"
            using False e nf room1 g(1) c1 by (auto simp: apta_find_or_insert_accumulator_def Let_def p_def)
          show "overview_shape ?se2"
            unfolding shape_accumulators using g(5) [unfolded overview_shape_def Let_def] ins(1) room1 pos(1) g(1)
            by (auto simp del: store_sorted_simps)
          show tab: "overview_table ?se2 = (overview_table se)(c \<mapsto> touch (overview_table se) c)"
            using ins(2) none by (simp add: overview_table_def touch_def) (simp add: accumulators_def)
          have "dom (overview_table ?se2) = insert c (dom (overview_table se))" by (simp add: tab)
          then have "C \<union> dom (overview_table ?se2) = C \<union> dom (overview_table se)" using room(2) by auto
          then show "room C ?se2" using room(1) uw g(1,7) by (auto simp: room_def word_le_nat_alt)
          show "store_step se ?se2" by (rule store_step_trans [OF step]) simp
          show "ov_complete_count (se_overview ?se2) = ov_complete_count (se_overview se)" using g(1,4) by simp
          show "\<forall>P. filter P (accumulators ?se2) = filter P (accumulators se) \<or> P (fresh_accumulator c)"
          proof (intro allI)
            fix P
            have "filter P ?as = filter P (take p ?as) @ filter P (drop p ?as)"
              by (metis append_take_drop_id filter_append)
            then show "filter P (accumulators ?se2) = filter P (accumulators se) \<or> P (fresh_accumulator c)"
              by (simp add: accumulators_def with_accumulators_def)
          qed
        qed (use pos(1) none in \<open>simp_all add: nth_append touch_def overview_table_def accumulators_def with_accumulators_def\<close>)
      qed
    qed
  qed
qed

section \<open>A chunk of samples\<close>

definition sample_frame :: "pcm_node \<Rightarrow> nat \<Rightarrow> u64" where
  "sample_frame node offset = pn_first_frame node + ucast (pn_processed_frames node) + of_nat offset"

definition column64 :: "apta_session \<Rightarrow> u64 \<Rightarrow> u64" where
  "column64 se f = f div ucast (se_overview_frames_per_column se)"

definition tally :: "u32 \<Rightarrow> (u32 \<rightharpoonup> accumulator) \<Rightarrow> (u32 \<rightharpoonup> accumulator)" where
  "tally c t = t(c \<mapsto> add_sample (touch t c))"

definition completed :: "apta_session \<Rightarrow> nat" where
  "completed se = length (filter ac_complete (accumulators se))"

lemma add_sample_fields [simp]:
  "ac_column_index (add_sample a) = ac_column_index a" "ac_complete (add_sample a) = ac_complete a"
  "ac_sample_count (add_sample a) = ac_sample_count a + 1"
  by (simp_all add: add_sample_def)

lemma fresh_fields [simp]:
  "ac_column_index (fresh_accumulator c) = c" "\<not> ac_complete (fresh_accumulator c)" "ac_sample_count (fresh_accumulator c) = 0"
  by (simp_all add: fresh_accumulator_def)

lemma touch_column: "touch (overview_table se) c = a \<Longrightarrow> ac_column_index a = c"
  by (auto simp: touch_def overview_table_def dest!: column_table_Some split: option.splits)

lemma length_filter_update:
  "i < length xs \<Longrightarrow> P y = P (xs ! i) \<Longrightarrow> length (filter P (xs[i := y])) = length (filter P xs)"
proof -
  assume i: "i < length xs" and P: "P y = P (xs ! i)"
  have "filter P xs = filter P (take i xs @ xs ! i # drop (Suc i) xs)" using id_take_nth_drop [OF i] by simp
  then show ?thesis using P by (simp add: upd_conv_take_nth_drop [OF i])
qed

lemma store_step_life: "store_step se se' \<Longrightarrow>
    se_overview_frames_per_column se' = se_overview_frames_per_column se \<and> uses_workspace se' = uses_workspace se"
  by (auto simp: store_step_def memory_moved_def uses_workspace_def)

lemma store_step_signal [simp]: "store_step se (se\<lparr>se_signal := x\<rparr>)"
  unfolding store_step_def
  by (intro exI [of _ "se_overview se"] exI [of _ x] exI [of _ "se_memory se"]) (simp add: with_memory_def)

lemma signal_fields [simp]:
  "accumulators (se\<lparr>se_signal := x\<rparr>) = accumulators se" "overview_table (se\<lparr>se_signal := x\<rparr>) = overview_table se"
  "overview_shape (se\<lparr>se_signal := x\<rparr>) = overview_shape se" "room C (se\<lparr>se_signal := x\<rparr>) = room C se"
  "completed (se\<lparr>se_signal := x\<rparr>) = completed se"
  by (simp_all add: accumulators_def overview_table_def overview_shape_def room_def completed_def)

text \<open>The relation between the sessions before and after some samples of the given columns.\<close>

definition samples_spec :: "u32 set \<Rightarrow> u32 list \<Rightarrow> apta_session \<Rightarrow> apta_session \<Rightarrow> bool" where
  "samples_spec C cs se se' \<longleftrightarrow>
     overview_shape se' \<and> room C se' \<and> store_step se se' \<and> completed se' = completed se \<and>
     ov_complete_count (se_overview se') = ov_complete_count (se_overview se) \<and>
     overview_table se' = fold tally cs (overview_table se)"

lemma samples_spec_trans: "samples_spec C cs a b \<Longrightarrow> samples_spec C ds b c \<Longrightarrow> samples_spec C (cs @ ds) a c"
  unfolding samples_spec_def using store_step_trans [of a b c] by simp

lemma one_sample:
  assumes sh: "overview_shape se" and room: "room C se" "c \<in> C"
  obtains (ok) position se1 where "apta_find_or_insert_accumulator eg se c = Ret (STATUS_OK, position, se1)"
      "\<And>x. samples_spec C [c] se ((with_accumulators se1 ((ov_accumulators (se_overview se1))[position :=
         add_sample (ov_accumulators (se_overview se1) ! position)]))\<lparr>se_signal := x\<rparr>)"
  | (error) s se1 where "apta_find_or_insert_accumulator eg se c = Ret (s, 0, se1)" "failed s" "\<not> uses_workspace se"
      "samples_spec C [] se se1"
  using sh room
proof (rule find_or_insert_cases)
  fix p se1 assume f: "apta_find_or_insert_accumulator eg se c = Ret (STATUS_OK, p, se1)"
      "p < length (accumulators se1)" "accumulators se1 ! p = touch (overview_table se) c"
      "overview_table se1 = (overview_table se)(c \<mapsto> touch (overview_table se) c)"
      "overview_shape se1" "room C se1" "store_step se se1"
      "ov_complete_count (se_overview se1) = ov_complete_count (se_overview se)"
      "\<forall>P. filter P (accumulators se1) = filter P (accumulators se) \<or> P (fresh_accumulator c)"
  let ?as = "accumulators se1" and ?b = "add_sample (accumulators se1 ! p)"
  let ?se2 = "with_accumulators se1 (?as[p := ?b])"
  have srt: "store_sorted ?as" using f(5) by (simp add: overview_shape_def Let_def accumulators_def)
  have bc: "ac_column_index ?b = c" using touch_column [OF f(3) [symmetric]] by simp
  have u: "store_sorted (?as[p := ?b])" "column_table (?as[p := ?b]) = (column_table ?as)(c \<mapsto> ?b)"
    using store_sorted_update [OF srt _ f(2), of ?b] bc by simp_all
  have tab: "overview_table ?se2 = tally c (overview_table se)"
  proof -
    have "overview_table ?se2 = (overview_table se1)(c \<mapsto> ?b)" using u(2) by (simp add: overview_table_def)
    then show ?thesis unfolding f(4) f(3) by (simp add: tally_def)
  qed
  have "overview_shape ?se2"
    unfolding shape_accumulators using f(5) [unfolded overview_shape_def Let_def] u(1)
    by (simp add: accumulators_def del: store_sorted_simps)
  moreover have "dom (overview_table ?se2) = dom (overview_table se1)"
    using f(4) by (simp add: tab tally_def)
  then have "room C ?se2" using f(6) by (simp add: room_def)
  moreover have "completed ?se2 = completed se"
  proof -
    have "completed ?se2 = completed se1"
      using length_filter_update [OF f(2), of ac_complete ?b] by (simp add: completed_def)
    also have "\<dots> = completed se" using spec [OF f(9), of ac_complete] by (simp add: completed_def)
    finally show ?thesis .
  qed
  moreover have "store_step se ?se2" by (rule store_step_trans [OF f(7)]) simp
  ultimately have "samples_spec C [c] se (?se2\<lparr>se_signal := x\<rparr>)" for x
    unfolding samples_spec_def using tab f(8) store_step_trans [OF _ store_step_signal, of se ?se2 x] by simp
  then show thesis using ok [OF f(1)] by (simp add: accumulators_def)
next
  fix s se1 assume "apta_find_or_insert_accumulator eg se c = Ret (s, 0, se1)" "failed s" "\<not> uses_workspace se"
      "accumulators se1 = accumulators se" "overview_shape se1" "store_step se se1"
      "ov_complete_count (se_overview se1) = ov_complete_count (se_overview se)"
  then show thesis using error [of s se1] store_step_life [of se se1]
    by (simp add: samples_spec_def room_def completed_def overview_table_def)
qed

lemma process_samples_spec:
  assumes "overview_shape se" "room C se"
    and "\<forall>i\<in>set offsets. ucast (column64 se (sample_frame node i)) \<in> C"
    and "uses_workspace se \<Longrightarrow> \<forall>i\<in>set offsets. column64 se (sample_frame node i) \<le> ucast UINT32_MAX"
  shows "\<exists>s k se'. apta_process_samples eg node offsets se = Ret (s, se') \<and>
    samples_spec C (map (\<lambda>i. ucast (column64 se (sample_frame node i))) (take k offsets)) se se' \<and>
    (if s = STATUS_OK then k = length offsets else failed s \<and> \<not> uses_workspace se) \<and>
    (s = STATUS_OK \<longrightarrow> (\<forall>i\<in>set offsets. column64 se (sample_frame node i) \<le> ucast UINT32_MAX))"
  using assms
proof (induction offsets arbitrary: se)
  case Nil
  then show ?case by (simp add: samples_spec_def)
next
  case (Cons i offsets)
  let ?c = "ucast (column64 se (sample_frame node i)) :: u32"
  have base: "samples_spec C [] se se" using Cons.prems by (simp add: samples_spec_def)
  have fpc: "se_overview_frames_per_column se \<noteq> 0" using Cons.prems(1) by (simp add: overview_shape_def Let_def)
  show ?case
  proof (cases "column64 se (sample_frame node i) \<le> ucast UINT32_MAX")
    case False
    then have "\<not> uses_workspace se" using Cons.prems(4) by auto
    moreover have "apta_process_samples eg node (i # offsets) se = Ret (ERROR_LIMIT_EXCEEDED, se)"
      using False fpc by (simp add: column64_def sample_frame_def Let_def not_le)
    ultimately show ?thesis using base by (intro exI [of _ ERROR_LIMIT_EXCEEDED] exI [of _ 0] exI [of _ se]) simp
  next
    case True
    have "?c \<in> C" using Cons.prems(3) by simp
    from Cons.prems(1,2) this show ?thesis
    proof (rule one_sample [where eg = eg])
      fix s se1 assume f: "apta_find_or_insert_accumulator eg se ?c = Ret (s, 0, se1)" "failed s" "\<not> uses_workspace se"
        "samples_spec C [] se se1"
      then have "apta_process_samples eg node (i # offsets) se = Ret (s, se1)"
        using True fpc by (simp add: column64_def sample_frame_def Let_def not_le [symmetric])
      then show ?thesis using f by (intro exI [of _ s] exI [of _ 0] exI [of _ se1]) auto
    next
      fix p se1 assume f: "apta_find_or_insert_accumulator eg se ?c = Ret (STATUS_OK, p, se1)"
      let ?se2 = "with_accumulators se1 ((ov_accumulators (se_overview se1))[p :=
         add_sample (ov_accumulators (se_overview se1) ! p)])"
      let ?se3 = "?se2\<lparr>se_signal := eg_absorb eg ?se2 (sample_frame node i)\<rparr>"
      assume "\<And>x. samples_spec C [?c] se (?se2\<lparr>se_signal := x\<rparr>)"
      then have sp: "samples_spec C [?c] se ?se3" .
      have run: "apta_process_samples eg node (i # offsets) se = apta_process_samples eg node offsets ?se3"
        using True fpc f by (simp add: column64_def sample_frame_def Let_def not_le [symmetric])
      have "overview_shape ?se3" "room C ?se3" "store_step se ?se3" using sp by (simp_all add: samples_spec_def)
      moreover have col: "column64 ?se3 = column64 se" "uses_workspace ?se3 = uses_workspace se"
        using store_step_life [OF \<open>store_step se ?se3\<close>] by (simp_all add: column64_def fun_eq_iff)
      ultimately obtain s k se' where r: "apta_process_samples eg node offsets ?se3 = Ret (s, se')"
        "samples_spec C (map (\<lambda>i. ucast (column64 se (sample_frame node i))) (take k offsets)) ?se3 se'"
        "if s = STATUS_OK then k = length offsets else failed s \<and> \<not> uses_workspace se"
        "s = STATUS_OK \<longrightarrow> (\<forall>i\<in>set offsets. column64 se (sample_frame node i) \<le> ucast UINT32_MAX)"
        using Cons.IH [of ?se3] Cons.prems(3,4) unfolding col by fastforce
      show ?thesis
        using r samples_spec_trans [OF sp r(2)] run True
        by (intro exI [of _ s] exI [of _ "Suc k"] exI [of _ se']) auto
    qed
  qed
qed

end
