(* ===== verification/Apta_Overview_Exact.thy ===== *)
theory Apta_Overview_Exact
  imports Apta_Overview
begin

text \<open>
  What the counts of the overview store mean.  The processed frames of a session are the accepted
  ones no queued node still holds.  The store is exact when every column's sample count is the
  number of its processed frames, and a column is marked complete only when all its frames have been
  processed.
\<close>

section \<open>The frames of a column\<close>

definition frames_of :: "u32 \<Rightarrow> u64 set \<Rightarrow> u32 \<Rightarrow> u64 set" where
  "frames_of fpc P c = {f \<in> P. f div ucast fpc = ucast c}"

lemma div_u64_u32: "unat (f div ucast (d :: u32) :: u64) = unat f div unat d"
  by (simp add: unat_div)

lemma column_bounds:
  fixes f :: u64 and fpc c :: u32
  assumes "fpc \<noteq> 0"
  shows "f div ucast fpc = ucast c \<longleftrightarrow>
    unat c * unat fpc \<le> unat f \<and> unat f < unat c * unat fpc + unat fpc"
proof -
  have d: "0 < unat fpc" using assms by (simp add: unat_gt_0)
  have "f div ucast fpc = ucast c \<longleftrightarrow> unat f div unat fpc = unat c"
    by (simp add: word_eq_iff_unsigned [where 'a = nat] div_u64_u32)
  also have "\<dots> \<longleftrightarrow> unat c * unat fpc \<le> unat f \<and> unat f < unat c * unat fpc + unat fpc"
    using d by (metis add.commute div_nat_eqI dividend_less_div_times div_times_less_eq_dividend mult.commute mult_Suc)
  finally show ?thesis .
qed

lemma inj_unat_u64: "inj_on unat (A :: u64 set)"
  by (intro inj_onI) (simp add: word_eq_iff_unsigned [where 'a = nat])

lemma card_unat_interval:
  assumes "b \<le> 18446744073709551616"
  shows "card {f :: u64. a \<le> unat f \<and> unat f < b} = b - a"
proof -
  have "unat ` {f :: u64. a \<le> unat f \<and> unat f < b} = {a ..< b}"
  proof (intro set_eqI iffI)
    fix n assume n: "n \<in> {a ..< b}"
    then have "unat (word_of_nat n :: u64) = n" using assms by (simp add: unat_of_nat)
    then show "n \<in> unat ` {f :: u64. a \<le> unat f \<and> unat f < b}"
      using n by (intro image_eqI [of _ _ "word_of_nat n"]) simp_all
  qed auto
  then show ?thesis using card_image [OF inj_unat_u64, of "{f. a \<le> unat f \<and> unat f < b}"] by simp
qed

lemma column_end_bound: "unat (c :: u32) * unat (fpc :: u32) + unat fpc \<le> 18446744073709551616"
proof -
  have "unat c + 1 \<le> 4294967296" "unat fpc \<le> 4294967296" using unat_u32_bound [of c] unat_u32_bound [of fpc] by simp_all
  from mult_le_mono [OF this] show ?thesis by (simp add: distrib_right)
qed

lemma card_frames_of: "fpc \<noteq> 0 \<Longrightarrow> card (frames_of fpc P c) \<le> unat fpc"
proof -
  assume "fpc \<noteq> 0"
  then have "frames_of fpc P c \<subseteq> {f. unat c * unat fpc \<le> unat f \<and> unat f < unat c * unat fpc + unat fpc}"
    by (auto simp: frames_of_def column_bounds)
  then have "card (frames_of fpc P c) \<le> card {f :: u64. unat c * unat fpc \<le> unat f \<and> unat f < unat c * unat fpc + unat fpc}"
    by (intro card_mono) simp_all
  also have "\<dots> = unat fpc" using card_unat_interval [OF column_end_bound [of c fpc], of "unat c * unat fpc"] by simp
  finally show ?thesis .
qed

section \<open>Exact counts\<close>

definition tallies :: "u32 \<Rightarrow> (u32 \<rightharpoonup> accumulator) \<Rightarrow> u64 set \<Rightarrow> bool" where
  "tallies fpc t P \<longleftrightarrow>
     (\<forall>f\<in>P. f div ucast fpc \<le> ucast UINT32_MAX) \<and>
     (\<forall>c. case t c of None \<Rightarrow> frames_of fpc P c = {} | Some a \<Rightarrow> unat (ac_sample_count a) = card (frames_of fpc P c))"

lemma frames_of_insert: "frames_of fpc (insert f P) c =
   (if f div ucast fpc = ucast c then insert f (frames_of fpc P c) else frames_of fpc P c)"
  by (auto simp: frames_of_def)

lemma tally_exact:
  assumes t: "tallies fpc t P" and f: "f \<notin> P" "f div ucast fpc \<le> ucast UINT32_MAX" and fpc: "fpc \<noteq> 0"
  shows "tallies fpc (tally (ucast (f div ucast fpc)) t) (insert f P)"
proof -
  let ?c = "ucast (f div ucast fpc) :: u32"
  have c: "ucast ?c = f div ucast fpc" by (rule ucast_u32_le [OF f(2)])
  have new: "card (frames_of fpc (insert f P) ?c) = card (frames_of fpc P ?c) + 1"
  proof -
    have "frames_of fpc (insert f P) ?c = insert f (frames_of fpc P ?c)" using c by (simp add: frames_of_insert)
    moreover have "f \<notin> frames_of fpc P ?c" using f(1) by (simp add: frames_of_def)
    ultimately show ?thesis by simp
  qed
  then have small: "card (frames_of fpc P ?c) + 1 \<le> unat fpc" using card_frames_of [OF fpc, of "insert f P" ?c] by simp
  have "unat (ac_sample_count (touch t ?c)) = card (frames_of fpc P ?c)"
    using t unfolding tallies_def touch_def by (auto split: option.splits dest!: spec [of _ ?c])
  then have "unat (ac_sample_count (add_sample (touch t ?c))) = card (frames_of fpc (insert f P) ?c)"
    using small new unat_u32_bound [of fpc] by (simp add: unat_word_ariths)
  moreover have "frames_of fpc (insert f P) d = frames_of fpc P d" if "d \<noteq> ?c" for d
  proof -
    have "ucast d \<noteq> f div ucast fpc"
    proof
      assume "ucast d = f div ucast fpc"
      then have "unat (ucast d :: u64) = unat (ucast ?c :: u64)" using c by simp
      then show False using that unfolding unat_ucast_u32_u64 by (simp add: word_eq_iff_unsigned [where 'a = nat])
    qed
    then show ?thesis by (auto simp: frames_of_insert)
  qed
  ultimately show ?thesis using t f(2) by (simp add: tallies_def tally_def cong: option.case_cong)
qed

lemma tally_list_exact:
  assumes "tallies fpc t P" "distinct fs" "set fs \<inter> P = {}" "\<forall>f\<in>set fs. f div ucast fpc \<le> ucast UINT32_MAX" "fpc \<noteq> 0"
  shows "tallies fpc (fold tally (map (\<lambda>f. ucast (f div ucast fpc)) fs) t) (P \<union> set fs)"
  using assms
proof (induction fs arbitrary: t P)
  case (Cons f fs)
  have "tallies fpc (tally (ucast (f div ucast fpc)) t) (insert f P)"
    by (rule tally_exact) (use Cons.prems in auto)
  from Cons.IH [OF this] Cons.prems show ?case by simp
qed simp

section \<open>Processed frames\<close>

definition pending_frames :: "pcm_node \<Rightarrow> u64 set" where
  "pending_frames n =
     {pn_first_frame n + ucast (pn_processed_frames n) ..< pn_first_frame n + ucast (pn_frame_count n)}"

definition pending :: "pcm_node list \<Rightarrow> u64 set" where
  "pending ns = (\<Union>n\<in>set ns. pending_frames n)"

definition accepted_frames :: "apta_session \<Rightarrow> u64 set" where
  "accepted_frames se = covered (in_ranges (se_intake se))"

definition processed_frames :: "apta_session \<Rightarrow> u64 set" where
  "processed_frames se = accepted_frames se - pending (in_queue (se_intake se))"

definition column_frames :: "apta_session \<Rightarrow> u32 \<Rightarrow> u64 set" where
  "column_frames se c = {f. f div ucast (se_overview_frames_per_column se) = ucast c \<and>
     (se_end_of_input_signalled se \<longrightarrow> f < se_final_end_frame se)}"

definition overview_exact :: "apta_session \<Rightarrow> bool" where
  "overview_exact se \<longleftrightarrow>
     tallies (se_overview_frames_per_column se) (overview_table se) (processed_frames se) \<and>
     (\<forall>a\<in>set (accumulators se). ac_complete a \<longrightarrow> column_frames se (ac_column_index a) \<subseteq> processed_frames se) \<and>
     unat (ov_complete_count (se_overview se)) = completed se"

text \<open>Nothing is accepted behind the final frame.\<close>

definition within_final :: "apta_session \<Rightarrow> bool" where
  "within_final se \<longleftrightarrow> (se_end_of_input_signalled se \<longrightarrow> accepted_frames se \<subseteq> {0 ..< se_final_end_frame se})"

lemma column_end_small: "unat (c :: u32) * unat (fpc :: u32) + unat fpc < 18446744073709551616"
proof -
  have "unat c + 1 \<le> 4294967296" "unat fpc \<le> 4294967295" using unat_u32_bound [of c] unat_u32_bound [of fpc] by simp_all
  from mult_le_mono [OF this] show ?thesis by (simp add: distrib_right)
qed

lemma unat_column_first: "unat (ucast (c :: u32) * ucast (fpc :: u32) :: u64) = unat c * unat fpc"
  "unat (ucast (c :: u32) * ucast (fpc :: u32) + ucast fpc :: u64) = unat c * unat fpc + unat fpc"
  using column_end_small [of c fpc] by (simp_all add: unat_word_ariths)

lemma expected_column_frames:
  assumes "se_overview_frames_per_column se \<noteq> 0"
  shows "unat (apta_expected_column_frames se c) = card (column_frames se c)"
proof -
  let ?d = "se_overview_frames_per_column se" and ?F = "se_final_end_frame se"
  let ?a = "unat c * unat ?d"
  have mem: "column_frames se c = {f. ?a \<le> unat f \<and> unat f < ?a + unat ?d \<and> (se_end_of_input_signalled se \<longrightarrow> unat f < unat ?F)}"
    using column_bounds [OF assms, of _ c] by (auto simp: column_frames_def word_less_nat_alt)
  have bound: "?a + unat ?d \<le> 18446744073709551616" by (rule column_end_bound)
  show ?thesis
  proof (cases "se_end_of_input_signalled se")
    case False
    then have "card (column_frames se c) = unat ?d"
      using card_unat_interval [OF bound, of ?a] by (simp add: mem)
    then show ?thesis using False by (simp add: apta_expected_column_frames_def Let_def)
  next
    case True
    let ?e = "min (?a + unat ?d) (unat ?F)"
    have "column_frames se c = {f. ?a \<le> unat f \<and> unat f < ?e}" using True by (auto simp: mem)
    then have card: "card (column_frames se c) = ?e - ?a" using card_unat_interval [of ?e ?a] bound by simp
    let ?first = "ucast c * ucast ?d :: u64"
    define cut where "cut = (if ?first + ucast ?d < ?F then ?first + ucast ?d else ?F)"
    have cut: "unat cut = ?e"
      using unat_column_first [of c ?d] by (simp add: cut_def word_less_nat_alt min_def)
    show ?thesis
    proof (cases "?F \<le> ?first")
      case le: True
      then have "unat ?F \<le> ?a" using unat_column_first(1) [of c ?d] by (simp add: word_le_nat_alt)
      then show ?thesis using True le card by (simp add: apta_expected_column_frames_def Let_def)
    next
      case False
      then have lt: "?a < unat ?F" using unat_column_first(1) [of c ?d] by (simp add: word_less_nat_alt not_le)
      then have sub: "unat (cut - ?first) = ?e - ?a"
        using cut unat_column_first(1) [of c ?d] by (simp add: unat_sub word_le_nat_alt)
      then have "unat (cut - ?first) < 4294967296" using unat_u32_bound [of ?d] by simp
      then have "unat (ucast (cut - ?first) :: u32) = ?e - ?a"
        using sub by (simp add: unsigned_ucast_eq unsigned_take_bit_eq take_bit_nat_eq_self)
      then show ?thesis using True False card by (simp add: apta_expected_column_frames_def Let_def cut_def)
    qed
  qed
qed

lemma frames_in_column: "within_final se \<Longrightarrow>
    frames_of (se_overview_frames_per_column se) (processed_frames se) c = column_frames se c \<inter> processed_frames se"
  by (auto simp: frames_of_def column_frames_def within_final_def processed_frames_def)

lemma overview_table_mem:
  "overview_shape se \<Longrightarrow> a \<in> set (accumulators se) \<Longrightarrow> overview_table se (ac_column_index a) = Some a"
  by (simp add: overview_table_def accumulators_def column_table_mem overview_shape_def Let_def)

text \<open>In an exact store the test for completeness is right.\<close>

lemma newly_complete_iff:
  assumes "overview_shape se" "overview_exact se" "within_final se" "a \<in> set (accumulators se)"
  shows "newly_complete se a \<longleftrightarrow> \<not> ac_complete a \<and> column_frames se (ac_column_index a) \<noteq> {} \<and>
    column_frames se (ac_column_index a) \<subseteq> processed_frames se"
proof -
  let ?C = "column_frames se (ac_column_index a)" and ?P = "processed_frames se"
  have fpc: "se_overview_frames_per_column se \<noteq> 0" using assms(1) by (simp add: overview_shape_def Let_def)
  note e = expected_column_frames [OF fpc, of "ac_column_index a"]
  have "unat (ac_sample_count a) = card (?C \<inter> ?P)"
    using assms(2) overview_table_mem [OF assms(1,4)] frames_in_column [OF assms(3), of "ac_column_index a"]
    by (auto simp: overview_exact_def tallies_def split: option.splits dest!: spec [of _ "ac_column_index a"])
  moreover have "card (?C \<inter> ?P) = card ?C \<longleftrightarrow> ?C \<subseteq> ?P"
    using card_subset_eq [of ?C "?C \<inter> ?P"] by (auto simp: Int_absorb2)
  moreover have "card ?C = 0 \<longleftrightarrow> ?C = {}" by simp
  moreover have "apta_expected_column_frames se (ac_column_index a) = 0 \<longleftrightarrow> card ?C = 0"
    using e by (simp add: unat_eq_0 [symmetric])
  moreover have "ac_sample_count a = apta_expected_column_frames se (ac_column_index a) \<longleftrightarrow>
      unat (ac_sample_count a) = card ?C"
    using e by (simp add: word_eq_iff_unsigned [where 'a = nat])
  ultimately show ?thesis by (auto simp: newly_complete_def Let_def)
qed

section \<open>Refreshing the complete columns\<close>

lemma store_step_view:
  assumes "store_step se se'"
  shows "processed_frames se' = processed_frames se" "accepted_frames se' = accepted_frames se"
    "column_frames se' = column_frames se" "within_final se' = within_final se" "same_life se se'"
    "se_requests se' = se_requests se" "in_queue (se_intake se') = in_queue (se_intake se)"
    "in_ranges (se_intake se') = in_ranges (se_intake se)" "se_focus se' = se_focus se" "se_has_focus se' = se_has_focus se"
    "se_detail se' = se_detail se"
  using assms
  by (auto simp: store_step_def processed_frames_def accepted_frames_def column_frames_def within_final_def same_life_def
      with_memory_def fun_eq_iff memory_moved_def uses_workspace_def se_memory_def)

lemma column_table_map:
  assumes "\<And>a. ac_column_index (g a) = ac_column_index a"
  shows "column_table (map g as) c = map_option g (column_table as c)"
  by (induction as) (auto simp: assms)

lemma store_sorted_map:
  assumes "\<And>a. ac_column_index (g a) = ac_column_index a"
  shows "store_sorted (map g as) = store_sorted as"
  by (induction as) (auto simp: assms)

definition mark :: "apta_session \<Rightarrow> accumulator \<Rightarrow> accumulator" where
  "mark se a = (if newly_complete se a then a\<lparr>ac_complete := True\<rparr> else a)"

lemma mark_fields [simp]:
  "ac_column_index (mark se a) = ac_column_index a" "ac_sample_count (mark se a) = ac_sample_count a"
  "ac_complete (mark se a) \<longleftrightarrow> ac_complete a \<or> newly_complete se a"
  by (simp_all add: mark_def)

lemma refresh_eq: "apta_refresh_completed_columns se = se\<lparr>se_overview := (se_overview se)
    \<lparr>ov_accumulators := map (mark se) (accumulators se),
     ov_complete_count := ov_complete_count (se_overview se) + of_nat (length (filter (newly_complete se) (accumulators se)))\<rparr>\<rparr>"
  by (simp add: apta_refresh_completed_columns_def Let_def accumulators_def mark_def [abs_def])

lemma refresh_step: "store_step se (apta_refresh_completed_columns se)"
  unfolding store_step_def refresh_eq
  by (intro exI [of _ "(se_overview se)
    \<lparr>ov_accumulators := map (mark se) (accumulators se),
     ov_complete_count := ov_complete_count (se_overview se) + of_nat (length (filter (newly_complete se) (accumulators se)))\<rparr>"]
     exI [of _ "se_signal se"] exI [of _ "se_memory se"]) (simp add: with_memory_def se_memory_def)

lemma refresh_shape:
  "overview_shape (apta_refresh_completed_columns se) = overview_shape se"
  "room C (apta_refresh_completed_columns se) = room C se"
proof -
  have d: "dom (overview_table (apta_refresh_completed_columns se)) = dom (overview_table se)"
    by (simp add: refresh_eq overview_table_def accumulators_def dom_column_table image_image)
  show "overview_shape (apta_refresh_completed_columns se) = overview_shape se"
    by (simp add: refresh_eq overview_shape_def Let_def accumulators_def store_sorted_map)
  show "room C (apta_refresh_completed_columns se) = room C se"
    using d by (simp add: room_def) (simp add: refresh_eq)
qed

lemma filter_mark: "length (filter (\<lambda>a. ac_complete a \<or> newly_complete se a) as) =
    length (filter ac_complete as) + length (filter (newly_complete se) as)"
  by (induction as) (auto simp: newly_complete_def)

lemma completed_le: "completed se \<le> length (accumulators se)"
  by (simp add: completed_def)

lemma completed_bound: "overview_shape se \<Longrightarrow> completed se \<le> 2147483648"
  using completed_le [of se] capacity_bound [of "ov_capacity (se_overview se)"]
  by (simp add: overview_shape_def Let_def accumulators_def)

text \<open>Refreshing keeps the store exact, and marks every column all of whose frames are there.\<close>

lemma refresh_exact:
  assumes "overview_shape se" "overview_exact se" "within_final se"
  defines "se' \<equiv> apta_refresh_completed_columns se"
  shows "overview_exact se'"
    "\<forall>a\<in>set (accumulators se'). column_frames se' (ac_column_index a) \<noteq> {} \<longrightarrow>
       (ac_complete a \<longleftrightarrow> column_frames se' (ac_column_index a) \<subseteq> processed_frames se')"
proof -
  note view = store_step_view [OF refresh_step [of se], folded se'_def]
  note new = newly_complete_iff [OF assms(1-3)]
  have acc: "accumulators se' = map (mark se) (accumulators se)" by (simp add: se'_def refresh_eq accumulators_def)
  have old: "\<forall>a\<in>set (accumulators se). ac_complete a \<longrightarrow> column_frames se (ac_column_index a) \<subseteq> processed_frames se"
    "tallies (se_overview_frames_per_column se) (overview_table se) (processed_frames se)"
    "unat (ov_complete_count (se_overview se)) = completed se"
    using assms(2) by (simp_all add: overview_exact_def)
  have tab: "overview_table se' c = map_option (mark se) (overview_table se c)" for c
    by (simp add: overview_table_def acc column_table_map)
  have t: "tallies (se_overview_frames_per_column se) (overview_table se') (processed_frames se)"
    using old(2) unfolding tallies_def tab by (simp cong: option.case_cong)
  have comp: "completed se' = completed se + length (filter (newly_complete se) (accumulators se))"
    by (simp add: completed_def acc filter_map comp_def filter_mark)
  have "overview_shape se'" using assms(1) by (simp add: se'_def refresh_shape)
  from completed_bound [OF this]
  have cnt: "unat (ov_complete_count (se_overview se')) = completed se'"
    using old(3) comp by (simp add: se'_def refresh_eq unat_word_ariths unat_of_nat)
  have fpc: "se_overview_frames_per_column se' = se_overview_frames_per_column se" using view(5) by (simp add: same_life_def)
  have marked: "ac_complete (mark se a) \<longleftrightarrow> ac_complete a \<or>
      column_frames se (ac_column_index a) \<noteq> {} \<and> column_frames se (ac_column_index a) \<subseteq> processed_frames se"
    if "a \<in> set (accumulators se)" for a using new [OF that] by auto
  show "overview_exact se'"
    unfolding overview_exact_def view fpc using t cnt old(1) marked by (auto simp: acc)
  show "\<forall>a\<in>set (accumulators se'). column_frames se' (ac_column_index a) \<noteq> {} \<longrightarrow>
       (ac_complete a \<longleftrightarrow> column_frames se' (ac_column_index a) \<subseteq> processed_frames se')"
    unfolding view using old(1) marked by (auto simp: acc)
qed

section \<open>Requests\<close>

lemma walk_columns_complete:
  assumes "store_sorted as" "walk_columns as c final" "final \<le> ucast UINT32_MAX" "c \<le> k" "k \<le> final"
  shows "\<exists>a\<in>set as. ucast (ac_column_index a) = k \<and> ac_complete a"
  using assms
proof (induction as c final rule: walk_columns.induct)
  case (1 as c final)
  let ?d = "dropWhile (\<lambda>a. ucast (ac_column_index a) < c) as"
  have nlt: "\<not> final < c" using 1(5,6) by simp
  have w: "walk_columns as c final = (case ?d of [] \<Rightarrow> False
     | a # rest \<Rightarrow> if ucast (ac_column_index a) \<noteq> c \<or> \<not> ac_complete a then False else walk_columns rest (c + 1) final)"
    using nlt by (subst walk_columns.simps) simp
  then obtain a rest where d: "?d = a # rest" "ucast (ac_column_index a) = c" "ac_complete a" "walk_columns rest (c + 1) final"
    using 1(3) by (auto split: list.splits if_splits)
  have sub: "set (a # rest) \<subseteq> set as" using d(1) set_dropWhileD by (metis subsetI)
  show ?case
  proof (cases "k = c")
    case True
    then show ?thesis using d sub by auto
  next
    case False
    then have lt: "c < k" using 1(5) by simp
    then have "c + 1 \<le> k" by (rule inc_le)
    moreover have "store_sorted rest"
    proof -
      have "store_sorted (takeWhile (\<lambda>a. ucast (ac_column_index a) < c) as @ a # rest)"
        using 1(2) d(1) by (metis takeWhile_dropWhile_id)
      then show ?thesis by simp
    qed
    ultimately show ?thesis using 1(1) [OF nlt d(1) _ _ d(4) 1(4) _ 1(6)] d(2,3) sub by auto
  qed
qed

end
