(* ===== verification/Apta_Scheduler.thy ===== *)
theory Apta_Scheduler
  imports Apta_Session "HOL-Library.Product_Lexorder"
begin

text \<open>
  Region requests and their scheduling: the policy of \<^verbatim>\<open>src/core/apta_scheduler_policy.c\<close> (score,
  order, ageing), the request table of \<^verbatim>\<open>src/core/apta_session_scheduler.c\<close>, the staging of
  \<^verbatim>\<open>src/waveform/apta_waveform_scheduler.c\<close>, and the selection of the next PCM demand in
  \<^verbatim>\<open>src/waveform/apta_waveform_process.c\<close>.  The score order is shown to be a strict linear order (scores
  are an instance of \<open>linorder\<close>), staging to be a stable sort by it, and the demand to be a part of
  the target that has not been accepted yet.
\<close>

definition SCHEDULER_AGE_STEP :: u32 where [apta_consts]: "SCHEDULER_AGE_STEP = 8"
definition SCHEDULER_MAX_SKIPS :: u32 where [apta_consts]: "SCHEDULER_MAX_SKIPS = 32"

section \<open>The policy\<close>

datatype schedule_score =
  Score (effective_priority: u32) (score_request_id: u32) (soft_deadline_monotonic_ns: u64) (enqueue_serial: u64)

definition apta_scheduler_request_is_active :: "internal_request \<Rightarrow> bool" where
  "apta_scheduler_request_is_active r \<longleftrightarrow>
     rq_request_id r \<noteq> 0 \<and> rq_state r \<noteq> REQUEST_CANCELLED \<and> rq_state r \<noteq> REQUEST_FAILED \<and>
     rq_state r \<noteq> REQUEST_SATISFIED"

definition apta_internal_scheduler_register_request ::
    "apta_session \<Rightarrow> internal_request \<Rightarrow> (apta_session \<times> internal_request) outcome" where
  "apta_internal_scheduler_register_request se r =
     (if se_next_enqueue_serial se = UINT64_MAX then Fail ERROR_LIMIT_EXCEEDED
      else
        let serial = se_next_enqueue_serial se + 1
        in Ret (se\<lparr>se_next_enqueue_serial := serial\<rparr>,
                r\<lparr>rq_enqueue_serial := serial, rq_skip_count := 0\<rparr>))"

definition apta_internal_scheduler_score_request :: "internal_request \<Rightarrow> schedule_score" where
  "apta_internal_scheduler_score_request r =
     (if \<not> apta_scheduler_request_is_active r then Score 0 0 0 UINT64_MAX
      else
        let base_priority = ucast (rr_priority (rq_request r));
            remaining = 255 - base_priority;
            boost0 = rq_skip_count r * SCHEDULER_AGE_STEP;
            boost = (if remaining < boost0 then remaining else boost0)
        in Score (base_priority + boost) (rq_request_id r) (rr_soft_deadline (rq_request r))
             (rq_enqueue_serial r))"

definition apta_internal_scheduler_score_better :: "schedule_score \<Rightarrow> schedule_score \<Rightarrow> bool" where
  "apta_internal_scheduler_score_better candidate current =
     (if effective_priority candidate \<noteq> effective_priority current
      then effective_priority current < effective_priority candidate
      else
        let candidate_has_deadline = (soft_deadline_monotonic_ns candidate \<noteq> 0);
            current_has_deadline = (soft_deadline_monotonic_ns current \<noteq> 0)
        in if candidate_has_deadline \<noteq> current_has_deadline then candidate_has_deadline
           else if candidate_has_deadline \<and>
                   soft_deadline_monotonic_ns candidate \<noteq> soft_deadline_monotonic_ns current
           then soft_deadline_monotonic_ns candidate < soft_deadline_monotonic_ns current
           else if enqueue_serial candidate \<noteq> enqueue_serial current
           then enqueue_serial candidate < enqueue_serial current
           else score_request_id candidate < score_request_id current)"

definition note_choice_slot :: "u32 \<Rightarrow> internal_request \<Rightarrow> internal_request" where
  "note_choice_slot selected r =
     (if \<not> apta_scheduler_request_is_active r then r
      else if rq_request_id r = selected then r\<lparr>rq_skip_count := 0\<rparr>
      else if rq_skip_count r < SCHEDULER_MAX_SKIPS then r\<lparr>rq_skip_count := rq_skip_count r + 1\<rparr>
      else r)"

definition apta_internal_scheduler_note_choice :: "apta_session \<Rightarrow> u32 \<Rightarrow> apta_session" where
  "apta_internal_scheduler_note_choice se selected =
     se\<lparr>se_requests := map (note_choice_slot selected) (se_requests se)\<rparr>"

section \<open>The request table\<close>

definition apta_scheduler_request_id_exists :: "apta_session \<Rightarrow> u32 \<Rightarrow> bool" where
  "apta_scheduler_request_id_exists se request_id =
     (if request_id = 0 then False else list_ex (\<lambda>r. rq_request_id r = request_id) (se_requests se))"

text \<open>The search for a free identifier: \<open>attempts\<close> counts up to \<open>UINT32_MAX\<close>.\<close>

function allocate_id :: "u32 \<Rightarrow> apta_session \<Rightarrow> u32 \<times> apta_session" where
  "allocate_id attempts se =
     (if attempts < UINT32_MAX
      then
        let candidate = se_next_request_id se;
            se' = se\<lparr>se_next_request_id := candidate + 1\<rparr>
        in if candidate = 0 then allocate_id (attempts + 1) se'
           else if \<not> apta_scheduler_request_id_exists se' candidate then (candidate, se')
           else allocate_id (attempts + 1) se'
      else (0, se))"
  by pat_completeness auto
termination
proof (relation "measure (\<lambda>(attempts, se). 4294967295 - unat attempts)")
  fix attempts :: u32 and se se' :: apta_session
  assume "attempts < UINT32_MAX"
  then have "unat attempts < 4294967295" by (simp add: word_less_nat_alt)
  then show "((attempts + 1, se'), attempts, se) \<in> measure (\<lambda>(attempts, se). 4294967295 - unat attempts)"
    "((attempts + 1, se'), attempts, se) \<in> measure (\<lambda>(attempts, se). 4294967295 - unat attempts)"
    by (simp_all add: unat_plus_u32)
qed simp

declare allocate_id.simps [simp del]

definition apta_scheduler_allocate_request_id :: "apta_session \<Rightarrow> u32 \<times> apta_session" where
  "apta_scheduler_allocate_request_id se = allocate_id 0 se"

definition apta_session_set_focus_base :: "struct_sizes \<Rightarrow> apta_session \<Rightarrow> focus \<Rightarrow> apta_status \<times> apta_session" where
  "apta_session_set_focus_base sizes se fo =
     (if \<not> apta_internal_validate_struct True (sizeof_focus sizes) (fo_struct_size fo) (fo_api_version fo)
      then (ERROR_INCOMPATIBLE_VERSION, se)
      else if fo_playhead_frame fo = APTA_TOTAL_FRAMES_UNKNOWN then (ERROR_INVALID_ARGUMENT, se)
      else if fo_feature_mask fo AND NOT (capabilities (se_context se)) \<noteq> 0 then (ERROR_UNSUPPORTED, se)
      else if sc_total_frames (se_config se) \<noteq> APTA_TOTAL_FRAMES_UNKNOWN \<and>
              sc_total_frames (se_config se) < fo_playhead_frame fo then (ERROR_INVALID_ARGUMENT, se)
      else (STATUS_OK, se\<lparr>se_focus := fo, se_has_focus := True\<rparr>))"

definition free_slot :: "internal_request list \<Rightarrow> nat option" where
  "free_slot rs = find (\<lambda>i. rq_request_id (rs ! i) = 0) [0..<length rs]"

text \<open>The request that is stored: the caller's, under the chosen identifier.\<close>

definition queued_request :: "region_request \<Rightarrow> u32 \<Rightarrow> internal_request" where
  "queued_request req request_id =
     zero_request\<lparr>rq_request_id := request_id, rq_request := req\<lparr>rr_request_id := request_id\<rparr>,
                  rq_state := REQUEST_QUEUED, rq_diagnostic_code := 0\<rparr>"

definition apta_session_request_region_base ::
    "struct_sizes \<Rightarrow> apta_session \<Rightarrow> region_request \<Rightarrow> apta_status \<times> u32 \<times> apta_session" where
  "apta_session_request_region_base sizes se req =
     (if \<not> apta_internal_validate_struct True (sizeof_region_request sizes) (rr_struct_size req) (rr_api_version req) \<or>
         \<not> apta_internal_validate_struct True (sizeof_frame_range sizes) (rr_range_struct_size req)
             (rr_range_api_version req)
      then (ERROR_INCOMPATIBLE_VERSION, 0, se)
      else if rr_end_frame req \<le> rr_first_frame req \<or> rr_feature_mask req = 0
      then (ERROR_INVALID_ARGUMENT, 0, se)
      else if rr_feature_mask req AND NOT (capabilities (se_context se)) \<noteq> 0 then (ERROR_UNSUPPORTED, 0, se)
      else if rr_feature_mask req AND NOT (sc_requested_features (se_config se)) \<noteq> 0
      then (ERROR_INVALID_STATE, 0, se)
      else if rr_request_id req \<noteq> 0 \<and> apta_scheduler_request_id_exists se (rr_request_id req)
      then (ERROR_CONFLICT, 0, se)
      else
        (case free_slot (se_requests se) of
           None \<Rightarrow> (ERROR_LIMIT_EXCEEDED, 0, se)
         | Some slot \<Rightarrow>
             (case (if rr_request_id req \<noteq> 0 then (rr_request_id req, se)
                    else apta_scheduler_allocate_request_id se) of
                (request_id, se1) \<Rightarrow>
                  if request_id = 0 then (ERROR_LIMIT_EXCEEDED, 0, se1)
                  else
                    (case apta_internal_scheduler_register_request se1 (queued_request req request_id) of
                       Ret (se2, r) \<Rightarrow>
                         (STATUS_OK, request_id, se2\<lparr>se_requests := (se_requests se2)[slot := r]\<rparr>)
                     | Fail e \<Rightarrow> (e, 0, se1\<lparr>se_requests := (se_requests se1)[slot := zero_request]\<rparr>)
                     | Fault \<Rightarrow> (ERROR_INTERNAL, 0, se1)))))"

definition request_slot :: "internal_request list \<Rightarrow> u32 \<Rightarrow> nat option" where
  "request_slot rs request_id = find (\<lambda>i. rq_request_id (rs ! i) = request_id) [0..<length rs]"

definition apta_session_cancel_region_request :: "apta_session \<Rightarrow> u32 \<Rightarrow> apta_status \<times> apta_session" where
  "apta_session_cancel_region_request se request_id =
     (if request_id = 0 then (ERROR_INVALID_ARGUMENT, se)
      else
        (case request_slot (se_requests se) request_id of
           None \<Rightarrow> (STATUS_NOT_AVAILABLE, se)
         | Some slot \<Rightarrow>
             (STATUS_OK, se\<lparr>se_requests :=
                (se_requests se)[slot := (se_requests se ! slot)\<lparr>rq_state := REQUEST_CANCELLED\<rparr>]\<rparr>)))"

text \<open>The output structure is given by its \<open>struct_size\<close> and \<open>api_version\<close>.\<close>

definition apta_session_get_request_progress ::
    "struct_sizes \<Rightarrow> apta_session \<Rightarrow> u32 \<Rightarrow> u32 \<Rightarrow> u32 \<Rightarrow> apta_status \<times> request_progress option" where
  "apta_session_get_request_progress sizes se request_id out_size out_version =
     (if request_id = 0 then (ERROR_INVALID_ARGUMENT, None)
      else if \<not> apta_internal_validate_struct True (sizeof_request_progress sizes) out_size out_version
      then (ERROR_INCOMPATIBLE_VERSION, None)
      else
        (case request_slot (se_requests se) request_id of
           None \<Rightarrow> (STATUS_NOT_AVAILABLE, None)
         | Some slot \<Rightarrow>
             let r = se_requests se ! slot
             in (STATUS_OK, Some
                  \<lparr>rp_request_id = request_id, rp_state = rq_state r,
                   rp_first_frame = rr_first_frame (rq_request r), rp_end_frame = rr_end_frame (rq_request r),
                   rp_requested_features = rr_feature_mask (rq_request r),
                   rp_satisfied_features =
                     (if rq_state r = REQUEST_SATISFIED then rr_feature_mask (rq_request r) else 0),
                   rp_progress_permille =
                     (if rq_state r = REQUEST_SATISFIED then 1000
                      else if rq_state r = REQUEST_PARTIALLY_SATISFIED then 500 else 0),
                   rp_diagnostic_code = rq_diagnostic_code r\<rparr>)))"

section \<open>Staging\<close>

definition apta_scheduler_request_matches_feature :: "internal_request \<Rightarrow> u64 \<Rightarrow> bool" where
  "apta_scheduler_request_matches_feature r feature =
     (if rr_feature_mask (rq_request r) AND feature = 0 then False
      else score_request_id (apta_internal_scheduler_score_request r) \<noteq> 0)"

definition apta_scheduler_request_better :: "internal_request \<Rightarrow> internal_request \<Rightarrow> u64 \<Rightarrow> bool" where
  "apta_scheduler_request_better candidate current feature =
     (let candidate_matches = apta_scheduler_request_matches_feature candidate feature;
          current_matches = apta_scheduler_request_matches_feature current feature
      in if candidate_matches \<noteq> current_matches then candidate_matches
         else if \<not> candidate_matches then False
         else apta_internal_scheduler_score_better (apta_internal_scheduler_score_request candidate)
                (apta_internal_scheduler_score_request current))"

text \<open>The inner loop moves the candidate towards the front of the sorted part, held here in reverse
  order: it passes every request that is worse.\<close>

fun sift :: "u64 \<Rightarrow> internal_request \<Rightarrow> internal_request list \<Rightarrow> internal_request list" where
  "sift feature candidate [] = [candidate]"
| "sift feature candidate (r # rs) =
     (if apta_scheduler_request_better candidate r feature then r # sift feature candidate rs
      else candidate # r # rs)"

definition sort_requests :: "u64 \<Rightarrow> internal_request list \<Rightarrow> internal_request list" where
  "sort_requests feature rs = rev (fold (sift feature) rs [])"

definition project_priority :: "u64 \<Rightarrow> internal_request \<Rightarrow> internal_request" where
  "project_priority feature r =
     (if \<not> apta_scheduler_request_matches_feature r feature then r
      else r\<lparr>rq_request := (rq_request r)\<lparr>rr_priority :=
               ucast (effective_priority (apta_internal_scheduler_score_request r))\<rparr>\<rparr>)"

definition apta_scheduler_stage_requests :: "u64 \<Rightarrow> internal_request list \<Rightarrow> internal_request list" where
  "apta_scheduler_stage_requests feature rs = map (project_priority feature) (sort_requests feature rs)"

section \<open>The next PCM demand\<close>

definition apta_min_frame :: "u64 \<Rightarrow> u64 \<Rightarrow> u64" where
  "apta_min_frame left right = (if left < right then left else right)"

fun find_missing :: "frame_range list \<Rightarrow> u64 \<Rightarrow> u64 \<Rightarrow> (u64 \<times> u64) option" where
  "find_missing [] cursor fin = (if cursor < fin then Some (cursor, fin) else None)"
| "find_missing (r # rs) cursor fin =
     (if rg_end r \<le> cursor then find_missing rs cursor fin
      else if cursor < rg_first r
      then let missing_end = apta_min_frame (rg_first r) fin
           in if cursor < missing_end then Some (cursor, missing_end) else None
      else if fin \<le> rg_end r then None
      else find_missing rs (rg_end r) fin)"

text \<open>The target of the demand: range, priority and token.\<close>

definition demand_candidate :: "internal_request \<Rightarrow> bool" where
  "demand_candidate r \<longleftrightarrow> rq_request_id r \<noteq> 0 \<and> rq_state r \<noteq> REQUEST_CANCELLED \<and>
     rq_state r \<noteq> REQUEST_FAILED \<and> rq_state r \<noteq> REQUEST_SATISFIED \<and>
     rr_feature_mask (rq_request r) AND FEATURE_WAVEFORM_OVERVIEW \<noteq> 0"

fun select_target :: "internal_request list \<Rightarrow> u64 \<times> u64 \<times> u32 \<times> u32 \<Rightarrow> u64 \<times> u64 \<times> u32 \<times> u32" where
  "select_target [] t = t"
| "select_target (r # rs) (tf, te, priority, token) =
     select_target rs
       (if demand_candidate r \<and> (token = 0 \<or> priority < ucast (rr_priority (rq_request r)))
        then (rr_first_frame (rq_request r), rr_end_frame (rq_request r), ucast (rr_priority (rq_request r)),
              rq_request_id r)
        else (tf, te, priority, token))"

definition focus_window :: "focus \<Rightarrow> u64 \<times> u64" where
  "focus_window fo =
     ((if fo_lookbehind_frames fo < fo_playhead_frame fo then fo_playhead_frame fo - fo_lookbehind_frames fo else 0),
      (if UINT64_MAX - fo_playhead_frame fo < fo_lookahead_frames fo then UINT64_MAX
       else fo_playhead_frame fo + fo_lookahead_frames fo))"

definition apta_internal_waveform_next_pcm_request_base :: "apta_session \<Rightarrow> apta_status \<times> pcm_request option" where
  "apta_internal_waveform_next_pcm_request_base se =
     (let (tf0, te0, priority0, token) = select_target (se_requests se) (0, 0, PRIORITY_BACKGROUND, 0);
          (tf1, te1, priority) =
            (if token = 0 \<and> se_has_focus se \<and> fo_feature_mask (se_focus se) AND FEATURE_WAVEFORM_OVERVIEW \<noteq> 0
             then (fst (focus_window (se_focus se)), snd (focus_window (se_focus se)), ucast (fo_priority (se_focus se)))
             else (tf0, te0, priority0));
          total_frames = sc_total_frames (se_config se);
          greatest = in_greatest_accepted_end (se_intake se);
          (tf2, te2) =
            (if te1 \<le> tf1
             then if total_frames = APTA_TOTAL_FRAMES_UNKNOWN
                  then (greatest, if UINT64_MAX - greatest < MAX_PUSH_FRAMES then UINT64_MAX
                                  else greatest + MAX_PUSH_FRAMES)
                  else (0, total_frames)
             else (tf1, te1));
          te3 = (if total_frames \<noteq> APTA_TOTAL_FRAMES_UNKNOWN then apta_min_frame te2 total_frames else te2)
      in case find_missing (in_ranges (se_intake se)) tf2 te3 of
           None \<Rightarrow> (STATUS_NOT_AVAILABLE, None)
         | Some (missing_first, missing_end) \<Rightarrow>
             (STATUS_OK, Some
               \<lparr>pq_first_frame = missing_first,
                pq_end_frame = (if MAX_PUSH_FRAMES < missing_end - missing_first
                                then missing_first + MAX_PUSH_FRAMES else missing_end),
                pq_feature_mask = FEATURE_WAVEFORM_OVERVIEW, pq_priority = ucast priority,
                pq_request_token = token\<rparr>))"

text \<open>The wrapper stages the table, asks the base selector, restores the table and ages it.\<close>

definition apta_internal_waveform_next_pcm_request ::
    "apta_session \<Rightarrow> apta_status \<times> pcm_request option \<times> apta_session" where
  "apta_internal_waveform_next_pcm_request se =
     (let staged = se\<lparr>se_requests := apta_scheduler_stage_requests FEATURE_WAVEFORM_OVERVIEW (se_requests se)\<rparr>
      in case apta_internal_waveform_next_pcm_request_base staged of
           (status, out) \<Rightarrow>
             (status, out,
              if status = STATUS_OK
              then apta_internal_scheduler_note_choice se (case out of None \<Rightarrow> 0 | Some q \<Rightarrow> pq_request_token q)
              else se))"

definition apta_session_next_pcm_request_base ::
    "struct_sizes \<Rightarrow> apta_session \<Rightarrow> u32 \<Rightarrow> u32 \<Rightarrow> apta_status \<times> pcm_request option \<times> apta_session" where
  "apta_session_next_pcm_request_base sizes se out_size out_version =
     (if \<not> apta_internal_validate_struct True (sizeof_pcm_request sizes) out_size out_version
      then (ERROR_INCOMPATIBLE_VERSION, None, se)
      else if sc_requested_features (se_config se) AND FEATURE_WAVEFORM_OVERVIEW \<noteq> 0
      then apta_internal_waveform_next_pcm_request se
      else (STATUS_NOT_AVAILABLE, None, se))"

section \<open>Scores are linearly ordered\<close>

text \<open>A missing deadline sorts after every deadline.\<close>

definition deadline_key :: "schedule_score \<Rightarrow> nat" where
  "deadline_key s = (if soft_deadline_monotonic_ns s = 0 then 18446744073709551616
     else unat (soft_deadline_monotonic_ns s))"

definition score_key :: "schedule_score \<Rightarrow> nat \<times> nat \<times> nat \<times> nat" where
  "score_key s = (4294967295 - unat (effective_priority s), deadline_key s, unat (enqueue_serial s),
     unat (score_request_id s))"

lemma deadline_key_eq:
  "deadline_key a = deadline_key b \<longleftrightarrow> soft_deadline_monotonic_ns a = soft_deadline_monotonic_ns b"
  using unat_u64_bound [of "soft_deadline_monotonic_ns a"] unat_u64_bound [of "soft_deadline_monotonic_ns b"]
  by (auto simp: deadline_key_def word_eq_iff_unsigned [where 'a = nat] split: if_splits)

lemma priority_key_less:
  "4294967295 - unat a < 4294967295 - unat (b :: u32) \<longleftrightarrow> b < a"
  "4294967295 - unat a = 4294967295 - unat (b :: u32) \<longleftrightarrow> a = b"
  using unat_u32_bound [of a] unat_u32_bound [of b]
  by (auto simp: word_less_nat_alt word_eq_iff_unsigned [where 'a = nat])

lemma deadline_key_less:
  "deadline_key a < deadline_key b \<longleftrightarrow>
     (if (soft_deadline_monotonic_ns a \<noteq> 0) \<noteq> (soft_deadline_monotonic_ns b \<noteq> 0)
      then soft_deadline_monotonic_ns a \<noteq> 0
      else soft_deadline_monotonic_ns a \<noteq> 0 \<and> soft_deadline_monotonic_ns a < soft_deadline_monotonic_ns b)"
  using unat_u64_bound [of "soft_deadline_monotonic_ns a"] unat_u64_bound [of "soft_deadline_monotonic_ns b"]
  by (auto simp: deadline_key_def word_less_nat_alt)

lemma pair_less_iff: "(x, y) < (x', y') \<longleftrightarrow> x < x' \<or> x = x' \<and> y < y'"
  for x x' :: "'a :: linorder" and y y' :: "'b :: linorder"
  by (auto simp: less_prod_simp)

lemma score_better_key: "apta_internal_scheduler_score_better a b \<longleftrightarrow> score_key a < score_key b"
proof -
  have serial: "unat (enqueue_serial a) = unat (enqueue_serial b) \<longleftrightarrow> enqueue_serial a = enqueue_serial b"
    by (simp add: word_eq_iff_unsigned [where 'a = nat])
  show ?thesis
    unfolding apta_internal_scheduler_score_better_def score_key_def pair_less_iff priority_key_less
      deadline_key_less deadline_key_eq serial Let_def word_less_nat_alt [symmetric]
    by (cases "effective_priority a = effective_priority b";
        cases "soft_deadline_monotonic_ns a = soft_deadline_monotonic_ns b";
        cases "enqueue_serial a = enqueue_serial b") auto
qed

lemma score_key_inj: "score_key a = score_key b \<Longrightarrow> a = b"
  by (cases a; cases b)
    (simp add: score_key_def priority_key_less deadline_key_eq word_eq_iff_unsigned [where 'a = nat])

instantiation schedule_score :: linorder
begin

definition less_schedule_score_def: "a < b \<longleftrightarrow> apta_internal_scheduler_score_better a b"
definition less_eq_schedule_score_def: "a \<le> b \<longleftrightarrow> a = b \<or> apta_internal_scheduler_score_better a b"

instance
  by standard (auto simp: less_schedule_score_def less_eq_schedule_score_def score_better_key
      dest: score_key_inj)

end


section \<open>The effective priority\<close>

lemma effective_priority_eq:
  assumes "apta_scheduler_request_is_active r" "rq_skip_count r \<le> SCHEDULER_MAX_SKIPS"
  shows "unat (effective_priority (apta_internal_scheduler_score_request r)) =
    min 255 (unat (rr_priority (rq_request r)) + 8 * unat (rq_skip_count r))"
proof -
  let ?b = "rr_priority (rq_request r)"
  have b: "unat ?b \<le> 255" using unat_u8_bound [of ?b] by simp
  have ub: "unat (ucast ?b :: u32) = unat ?b"
    using b by (simp add: unsigned_ucast_eq take_bit_nat_eq_self)
  have k: "unat (rq_skip_count r) \<le> 32" using assms(2) by (simp add: word_le_nat_alt SCHEDULER_MAX_SKIPS_def)
  have boost: "unat (rq_skip_count r * SCHEDULER_AGE_STEP) = 8 * unat (rq_skip_count r)"
    using k by (simp add: unat_word_ariths SCHEDULER_AGE_STEP_def)
  have rem: "unat (255 - ucast ?b :: u32) = 255 - unat ?b"
    using b ub by (simp add: unat_sub word_le_nat_alt)
  show ?thesis
  proof (cases "(255 - ucast ?b :: u32) < rq_skip_count r * SCHEDULER_AGE_STEP")
    case True
    then have "unat (ucast ?b + (255 - ucast ?b) :: u32) = 255" by simp
    moreover have "255 \<le> unat ?b + 8 * unat (rq_skip_count r)"
      using True rem boost by (simp add: word_less_nat_alt)
    ultimately show ?thesis using True assms(1)
      by (simp add: apta_internal_scheduler_score_request_def Let_def)
  next
    case False
    then have le: "8 * unat (rq_skip_count r) \<le> 255 - unat ?b"
      using rem boost by (simp add: not_less word_le_nat_alt)
    then have "unat (ucast ?b + rq_skip_count r * SCHEDULER_AGE_STEP) = unat ?b + 8 * unat (rq_skip_count r)"
      using b ub boost by (simp add: unat_plus_u32)
    then show ?thesis using False assms(1) le b
      by (simp add: apta_internal_scheduler_score_request_def Let_def)
  qed
qed

lemma effective_priority_le: "unat (effective_priority (apta_internal_scheduler_score_request r)) \<le> 255"
proof (cases "apta_scheduler_request_is_active r")
  case True
  let ?b = "ucast (rr_priority (rq_request r)) :: u32"
  have b: "unat ?b \<le> 255"
    using unat_u8_bound [of "rr_priority (rq_request r)"] by (simp add: unsigned_ucast_eq take_bit_nat_eq_self)
  then have rem: "unat (255 - ?b) = 255 - unat ?b" by (simp add: unat_sub word_le_nat_alt)
  have "unat (?b + x) \<le> 255" if "\<not> 255 - ?b < x" for x
    using that rem b by (simp add: not_less word_le_nat_alt unat_plus_u32)
  then show ?thesis using True by (simp add: apta_internal_scheduler_score_request_def Let_def)
qed (simp add: apta_internal_scheduler_score_request_def)

section \<open>Staging is a sort\<close>

definition req_key :: "u64 \<Rightarrow> internal_request \<Rightarrow> bool \<times> schedule_score" where
  "req_key feature r =
     (if apta_scheduler_request_matches_feature r feature
      then (False, apta_internal_scheduler_score_request r) else (True, Score 0 0 0 0))"

lemma request_better_key: "apta_scheduler_request_better a b feature \<longleftrightarrow> req_key feature a < req_key feature b"
  by (auto simp: apta_scheduler_request_better_def Let_def req_key_def less_prod_simp less_schedule_score_def)

lemma sift_mset: "mset (sift feature c rs) = add_mset c (mset rs)"
  by (induction rs) auto

lemma sift_set: "set (sift feature c rs) = insert c (set rs)"
  using arg_cong [OF sift_mset, of set_mset feature c rs] by simp

lemma sift_sorted:
  "sorted_wrt (\<lambda>x y. req_key feature y \<le> req_key feature x) rs \<Longrightarrow>
   sorted_wrt (\<lambda>x y. req_key feature y \<le> req_key feature x) (sift feature c rs)"
  by (induction rs) (auto simp: sift_set request_better_key not_less intro: order_trans)

lemma fold_sift:
  "sorted_wrt (\<lambda>x y. req_key feature y \<le> req_key feature x) acc \<Longrightarrow>
   sorted_wrt (\<lambda>x y. req_key feature y \<le> req_key feature x) (fold (sift feature) rs acc) \<and>
   mset (fold (sift feature) rs acc) = mset rs + mset acc"
  by (induction rs arbitrary: acc) (auto simp: sift_sorted sift_mset)

lemma sort_requests_sorted:
  "sorted_wrt (\<lambda>x y. req_key feature x \<le> req_key feature y) (sort_requests feature rs)"
  using fold_sift [of feature "[]" rs] by (simp add: sort_requests_def sorted_wrt_rev)

lemma sort_requests_mset: "mset (sort_requests feature rs) = mset rs"
  using fold_sift [of feature "[]" rs] by (simp add: sort_requests_def)

lemma sort_requests_set: "set (sort_requests feature rs) = set rs"
  using arg_cong [OF sort_requests_mset, of set_mset feature rs] by simp

section \<open>The selected request\<close>

lemma score_id: "score_request_id (apta_internal_scheduler_score_request r) =
    (if apta_scheduler_request_is_active r then rq_request_id r else 0)"
  by (simp add: apta_internal_scheduler_score_request_def Let_def)

lemma matches_candidate:
  "apta_scheduler_request_matches_feature r FEATURE_WAVEFORM_OVERVIEW \<longleftrightarrow> demand_candidate r"
  by (auto simp: apta_scheduler_request_matches_feature_def demand_candidate_def score_id
      apta_scheduler_request_is_active_def)

lemma project_fields [simp]:
  "rq_request_id (project_priority f r) = rq_request_id r" "rq_state (project_priority f r) = rq_state r"
  "rr_feature_mask (rq_request (project_priority f r)) = rr_feature_mask (rq_request r)"
  "rr_first_frame (rq_request (project_priority f r)) = rr_first_frame (rq_request r)"
  "rr_end_frame (rq_request (project_priority f r)) = rr_end_frame (rq_request r)"
  "demand_candidate (project_priority f r) = demand_candidate r"
  by (simp_all add: project_priority_def demand_candidate_def)

lemma projected_priority:
  assumes "demand_candidate r"
  shows "ucast (rr_priority (rq_request (project_priority FEATURE_WAVEFORM_OVERVIEW r))) =
    effective_priority (apta_internal_scheduler_score_request r)"
proof -
  let ?e = "effective_priority (apta_internal_scheduler_score_request r)"
  have "unat ?e < 256" using effective_priority_le [of r] by simp
  then have "ucast (ucast ?e :: u8) = ?e"
    by (simp add: word_eq_iff_unsigned [where 'a = nat] unsigned_ucast_eq unsigned_take_bit_eq take_bit_nat_eq_self)
  then show ?thesis using assms by (simp add: project_priority_def matches_candidate)
qed

lemma select_target_keep:
  assumes "token \<noteq> 0" "\<forall>r\<in>set rs. demand_candidate r \<longrightarrow> \<not> priority < ucast (rr_priority (rq_request r))"
  shows "select_target rs (tf, te, priority, token) = (tf, te, priority, token)"
  using assms by (induction rs) auto

lemma select_target_none:
  "\<forall>r\<in>set rs. \<not> demand_candidate r \<Longrightarrow> select_target rs t = t"
proof (induction rs arbitrary: t)
  case (Cons r rs)
  then show ?case by (cases t) simp
qed simp

lemma select_staged:
  fixes rs defines "staged \<equiv> apta_scheduler_stage_requests FEATURE_WAVEFORM_OVERVIEW rs"
  shows "(\<forall>r\<in>set rs. \<not> demand_candidate r) \<and> select_target staged (tf, te, p, 0) = (tf, te, p, 0) \<or>
    (\<exists>r\<in>set rs. demand_candidate r \<and>
       (\<forall>s\<in>set rs. demand_candidate s \<longrightarrow>
          apta_internal_scheduler_score_request r \<le> apta_internal_scheduler_score_request s) \<and>
       select_target staged (tf, te, p, 0) = (rr_first_frame (rq_request r), rr_end_frame (rq_request r),
         effective_priority (apta_internal_scheduler_score_request r), rq_request_id r))"
proof (cases "sort_requests FEATURE_WAVEFORM_OVERVIEW rs")
  case Nil
  then have "rs = []" using sort_requests_set [of FEATURE_WAVEFORM_OVERVIEW rs] by simp
  then show ?thesis using Nil by (simp add: staged_def apta_scheduler_stage_requests_def)
next
  case (Cons r ss)
  let ?key = "req_key FEATURE_WAVEFORM_OVERVIEW"
  have set: "set rs = insert r (set ss)" using sort_requests_set [of FEATURE_WAVEFORM_OVERVIEW rs] Cons by simp
  have le: "\<forall>s\<in>set ss. ?key r \<le> ?key s"
    using sort_requests_sorted [of FEATURE_WAVEFORM_OVERVIEW rs] Cons by simp
  have staged: "staged = project_priority FEATURE_WAVEFORM_OVERVIEW r #
      map (project_priority FEATURE_WAVEFORM_OVERVIEW) ss"
    using Cons by (simp add: staged_def apta_scheduler_stage_requests_def)
  show ?thesis
  proof (cases "demand_candidate r")
    case True
    let ?e = "\<lambda>x. effective_priority (apta_internal_scheduler_score_request x)"
    have best: "apta_internal_scheduler_score_request r \<le> apta_internal_scheduler_score_request s"
      if "s \<in> set rs" "demand_candidate s" for s
      using that le True set by (auto simp: req_key_def matches_candidate)
    have "\<not> ?e r < ?e s" if "s \<in> set ss" "demand_candidate s" for s
      using best [of s] that set
      by (auto simp: less_eq_schedule_score_def apta_internal_scheduler_score_better_def split: if_splits)
    then have "\<forall>s\<in>set (map (project_priority FEATURE_WAVEFORM_OVERVIEW) ss). demand_candidate s \<longrightarrow>
        \<not> ?e r < ucast (rr_priority (rq_request s))"
      by (auto simp: projected_priority)
    moreover have "rq_request_id r \<noteq> 0" using True by (simp add: demand_candidate_def)
    ultimately have "select_target (map (project_priority FEATURE_WAVEFORM_OVERVIEW) ss)
        (rr_first_frame (rq_request r), rr_end_frame (rq_request r), ?e r, rq_request_id r) =
        (rr_first_frame (rq_request r), rr_end_frame (rq_request r), ?e r, rq_request_id r)"
      by (intro select_target_keep)
    then have "select_target staged (tf, te, p, 0) = (rr_first_frame (rq_request r),
        rr_end_frame (rq_request r), ?e r, rq_request_id r)"
      unfolding staged using True by (simp add: projected_priority)
    then show ?thesis using True best set by blast
  next
    case False
    then have "\<not> demand_candidate s" if "s \<in> set rs" for s
      using that le set by (auto simp: req_key_def matches_candidate split: if_splits)
    then show ?thesis using staged set by (auto intro!: select_target_none)
  qed
qed

section \<open>Missing ranges\<close>

lemma find_missing_correct:
  assumes "ranges_ok rs"
  shows "case find_missing rs c e of
      None \<Rightarrow> {c ..< e} \<subseteq> covered rs
    | Some (a, b) \<Rightarrow> c \<le> a \<and> a < b \<and> b \<le> e \<and> {a ..< b} \<inter> covered rs = {} \<and> {c ..< a} \<subseteq> covered rs"
  using assms
proof (induction rs arbitrary: c)
  case (Cons r rs)
  have ok: "ranges_ok rs" "rg_first r < rg_end r" "\<forall>s\<in>set rs. rg_end r < rg_first s"
    using Cons.prems by (simp_all add: ranges_ok_Cons)
  have later: "rg_end r < x" if "x \<in> covered rs" for x
    using ok(3) that by (fastforce simp: covered_def range_set_def)
  consider (before) "rg_end r \<le> c" | (gap) "c < rg_end r" "c < rg_first r"
    | (last) "c < rg_end r" "rg_first r \<le> c" "e \<le> rg_end r"
    | (skip) "c < rg_end r" "rg_first r \<le> c" "rg_end r < e" by fastforce
  then show ?case
  proof cases
    case before
    then show ?thesis using Cons.IH [OF ok(1), of c]
      by (fastforce simp: range_set_def split: option.splits)
  next
    case gap
    have "x \<notin> covered (r # rs)" if "x < rg_first r" for x
      using later [of x] that ok(2) by (auto simp: range_set_def)
    then show ?thesis using gap
      by (auto simp: apta_min_frame_def Let_def)
  next
    case last
    then show ?thesis by (auto simp: range_set_def)
  next
    case skip
    then have step: "find_missing (r # rs) c e = find_missing rs (rg_end r) e" by auto
    have cover: "{c ..< x} \<subseteq> covered (r # rs)" if "{rg_end r ..< x} \<subseteq> covered rs" for x
    proof
      fix y assume "y \<in> {c ..< x}"
      then show "y \<in> covered (r # rs)"
        using that skip by (cases "y < rg_end r") (auto simp: range_set_def)
    qed
    have apart: "{a ..< b} \<inter> covered (r # rs) = {}" if "rg_end r \<le> a" "{a ..< b} \<inter> covered rs = {}" for a b
      using that by (auto simp: range_set_def)
    have le: "c \<le> a" if "rg_end r \<le> a" for a using that skip by simp
    show ?thesis unfolding step
      using Cons.IH [OF ok(1), of "rg_end r"] cover apart le
      by (cases "find_missing rs (rg_end r) e") (simp_all del: covered_simps add: split_beta)
  qed
qed simp

text \<open>A demand is a non-empty piece of at most a push, none of which has been accepted, inside the
  track.\<close>

definition demand_ok :: "apta_session \<Rightarrow> pcm_request \<Rightarrow> bool" where
  "demand_ok se q \<longleftrightarrow> pq_first_frame q < pq_end_frame q \<and>
     pq_end_frame q - pq_first_frame q \<le> MAX_PUSH_FRAMES \<and>
     {pq_first_frame q ..< pq_end_frame q} \<inter> covered (in_ranges (se_intake se)) = {} \<and>
     (sc_total_frames (se_config se) \<noteq> APTA_TOTAL_FRAMES_UNKNOWN \<longrightarrow>
        pq_end_frame q \<le> sc_total_frames (se_config se))"

lemma capped_demand:
  assumes "a < b" "{a ..< b} \<inter> C = {}" "b \<le> t"
  defines "b' \<equiv> if MAX_PUSH_FRAMES < b - a then a + MAX_PUSH_FRAMES else b"
  shows "a < b'" "b' - a \<le> MAX_PUSH_FRAMES" "{a ..< b'} \<inter> C = {}" "b' \<le> t"
proof -
  have "unat (b - a) = unat b - unat a" using assms(1) by (simp add: unat_sub word_le_nat_alt word_less_nat_alt)
  then have u: "MAX_PUSH_FRAMES < b - a \<longleftrightarrow> 4096 + unat a < unat b"
    using assms(1) by (auto simp: word_less_nat_alt MAX_PUSH_FRAMES_def)
  show lt: "a < b'"
  proof (cases "MAX_PUSH_FRAMES < b - a")
    case True
    then have "unat (a + MAX_PUSH_FRAMES) = unat a + 4096"
      using u unat_u64_bound [of b] by (simp add: unat_plus_u64 MAX_PUSH_FRAMES_def)
    then show ?thesis using True by (simp add: b'_def word_less_nat_alt)
  qed (use assms in simp)
  have le: "b' \<le> b"
  proof (cases "MAX_PUSH_FRAMES < b - a")
    case True
    then have "unat (a + MAX_PUSH_FRAMES) = unat a + 4096"
      using u unat_u64_bound [of b] by (simp add: unat_plus_u64 MAX_PUSH_FRAMES_def)
    then show ?thesis using True u by (simp add: b'_def word_le_nat_alt)
  qed (simp add: b'_def)
  then show "{a ..< b'} \<inter> C = {}" "b' \<le> t" using assms(2,3) by fastforce+
  show "b' - a \<le> MAX_PUSH_FRAMES" by (auto simp: b'_def not_less)
qed

lemma next_demand:
  assumes "ranges_ok (in_ranges (se_intake se))"
    and "apta_internal_waveform_next_pcm_request_base se = (s, out)"
  shows "s = STATUS_OK \<and> (\<exists>q. out = Some q \<and> demand_ok se q) \<or> s = STATUS_NOT_AVAILABLE \<and> out = None"
proof -
  define total where "total = sc_total_frames (se_config se)"
  obtain t te p tok where
    fm: "apta_internal_waveform_next_pcm_request_base se =
      (case find_missing (in_ranges (se_intake se)) t
              (if total \<noteq> APTA_TOTAL_FRAMES_UNKNOWN then apta_min_frame te total else te) of
         None \<Rightarrow> (STATUS_NOT_AVAILABLE, None)
       | Some (a, b) \<Rightarrow> (STATUS_OK, Some \<lparr>pq_first_frame = a,
           pq_end_frame = (if MAX_PUSH_FRAMES < b - a then a + MAX_PUSH_FRAMES else b),
           pq_feature_mask = FEATURE_WAVEFORM_OVERVIEW, pq_priority = p, pq_request_token = tok\<rparr>))"
    unfolding apta_internal_waveform_next_pcm_request_base_def total_def Let_def
    by (auto simp: split_beta)
  let ?e = "if total \<noteq> APTA_TOTAL_FRAMES_UNKNOWN then apta_min_frame te total else te"
  show ?thesis
  proof (cases "find_missing (in_ranges (se_intake se)) t ?e")
    case None
    then show ?thesis using fm assms(2) by simp
  next
    case (Some ab)
    obtain a b where ab: "ab = (a, b)" by fastforce
    have m: "a < b" "b \<le> ?e" "{a ..< b} \<inter> covered (in_ranges (se_intake se)) = {}"
      using find_missing_correct [OF assms(1), of t ?e] Some ab by auto
    have "?e \<le> total" if "total \<noteq> APTA_TOTAL_FRAMES_UNKNOWN" using that by (auto simp: apta_min_frame_def)
    then show ?thesis
      using capped_demand [OF m(1,3,2)] Some ab fm assms(2)
      by (auto simp: demand_ok_def total_def)
  qed
qed


section \<open>The request table\<close>

definition used_ids :: "apta_session \<Rightarrow> u32 set" where
  "used_ids se = rq_request_id ` set (se_requests se) - {0}"

text \<open>Sixteen slots, the empty ones cleared; identifiers and queue serials of the occupied ones are
  distinct; skip counts stay within the cap.\<close>

definition slots_differ :: "internal_request \<Rightarrow> internal_request \<Rightarrow> bool" where
  "slots_differ r s \<longleftrightarrow> rq_request_id r \<noteq> 0 \<and> rq_request_id s \<noteq> 0 \<longrightarrow>
     rq_request_id r \<noteq> rq_request_id s \<and> rq_enqueue_serial r \<noteq> rq_enqueue_serial s"

definition slot_ok :: "u64 \<Rightarrow> internal_request \<Rightarrow> bool" where
  "slot_ok serial r \<longleftrightarrow> rq_skip_count r \<le> SCHEDULER_MAX_SKIPS \<and>
     (if rq_request_id r = 0 then r = zero_request
      else rq_enqueue_serial r \<le> serial \<and> rr_request_id (rq_request r) = rq_request_id r)"

definition table_ok :: "apta_session \<Rightarrow> bool" where
  "table_ok se \<longleftrightarrow> length (se_requests se) = 16 \<and> (\<forall>r\<in>set (se_requests se). slot_ok (se_next_enqueue_serial se) r) \<and>
     (\<forall>i<16. \<forall>j<16. i \<noteq> j \<longrightarrow> slots_differ (se_requests se ! i) (se_requests se ! j))"

lemma id_exists_iff: "apta_scheduler_request_id_exists se i \<longleftrightarrow> i \<in> used_ids se"
  by (auto simp: apta_scheduler_request_id_exists_def used_ids_def list_ex_iff)

lemma used_ids_next [simp]: "used_ids (se\<lparr>se_next_request_id := n\<rparr>) = used_ids se"
  by (simp add: used_ids_def)

lemma allocate_id_props:
  assumes "allocate_id attempts se = (i, se')"
  shows "(\<exists>n. se' = se\<lparr>se_next_request_id := n\<rparr>) \<and> (i \<noteq> 0 \<longrightarrow> i \<notin> used_ids se) \<and>
    (i = 0 \<longrightarrow> (\<forall>k < 4294967295 - unat attempts. se_next_request_id se + of_nat k \<in> insert 0 (used_ids se)))"
  using assms
proof (induction attempts se rule: allocate_id.induct)
  case (1 attempts se)
  let ?c = "se_next_request_id se" and ?se = "se\<lparr>se_next_request_id := se_next_request_id se + 1\<rparr>"
  show ?case
  proof (cases "attempts < UINT32_MAX")
    case lt: True
    then have a: "unat (attempts + 1) = unat attempts + 1" "unat attempts < 4294967295"
      by (simp_all add: word_less_nat_alt unat_plus_u32)
    show ?thesis
    proof (cases "?c = 0 \<or> ?c \<in> used_ids se")
      case True
      have "allocate_id (attempts + 1) ?se = (i, se')"
        using 1(3) lt True by (subst (asm) allocate_id.simps) (auto simp: Let_def id_exists_iff split: if_splits)
      then have IH: "(\<exists>n. se' = ?se\<lparr>se_next_request_id := n\<rparr>) \<and> (i \<noteq> 0 \<longrightarrow> i \<notin> used_ids ?se) \<and>
          (i = 0 \<longrightarrow> (\<forall>k < 4294967295 - unat (attempts + 1).
             se_next_request_id ?se + of_nat k \<in> insert 0 (used_ids ?se)))"
      proof (cases "?c = 0")
        case True
        with \<open>allocate_id (attempts + 1) ?se = (i, se')\<close> show ?thesis by (intro 1(1) [OF lt refl refl])
      next
        case False
        with \<open>allocate_id (attempts + 1) ?se = (i, se')\<close> True show ?thesis
          by (intro 1(2) [OF lt refl refl]) (simp_all add: id_exists_iff)
      qed
      have "?c + of_nat k \<in> insert 0 (used_ids se)" if "i = 0" "k < 4294967295 - unat attempts" for k
      proof (cases k)
        case (Suc j)
        then have "?c + 1 + of_nat j \<in> insert 0 (used_ids se)"
          using IH that a by simp
        then show ?thesis using Suc by (simp add: algebra_simps)
      qed (use True in auto)
      then show ?thesis using IH by auto
    next
      case False
      then have "i = ?c \<and> se' = ?se"
        using 1(3) lt by (subst (asm) allocate_id.simps) (auto simp: Let_def id_exists_iff split: if_splits)
      then show ?thesis using False by auto
    qed
  next
    case False
    then have "unat attempts \<ge> 4294967295" by (simp add: word_less_nat_alt not_less)
    then show ?thesis using 1(3) False
      by (subst (asm) allocate_id.simps) (auto intro: exI [of _ "se_next_request_id se"])
  qed
qed

lemma allocate_id_succeeds:
  assumes "length (se_requests se) = 16" "allocate_id 0 se = (i, se')"
  shows "i \<noteq> 0"
proof
  assume "i = 0"
  then have all: "se_next_request_id se + of_nat k \<in> insert 0 (used_ids se)" if "k < 18" for k
    using allocate_id_props [OF assms(2)] that by simp
  let ?f = "\<lambda>k. se_next_request_id se + of_nat k"
  have "inj_on ?f {..<18}"
  proof (rule inj_onI)
    fix j k assume "j \<in> {..<18}" "k \<in> {..<18 :: nat}" "?f j = ?f k"
    then have "(of_nat j :: u32) = of_nat k" by simp
    then have "unat (of_nat j :: u32) = unat (of_nat k :: u32)" by simp
    then show "j = k" using \<open>j \<in> _\<close> \<open>k \<in> _\<close> by (simp add: unat_of_nat)
  qed
  then have "card (?f ` {..<18}) = 18" by (simp add: card_image)
  moreover have "?f ` {..<18} \<subseteq> insert 0 (used_ids se)" using all by auto
  moreover have "finite (insert 0 (used_ids se))" "card (insert 0 (used_ids se)) \<le> 17"
  proof -
    have "card (used_ids se) \<le> card (rq_request_id ` set (se_requests se))"
      by (intro card_mono) (auto simp: used_ids_def)
    also have "\<dots> \<le> card (set (se_requests se))" by (intro card_image_le) simp
    also have "\<dots> \<le> 16" using card_length [of "se_requests se"] assms(1) by simp
    finally have "card (used_ids se) \<le> 16" .
    then show "card (insert 0 (used_ids se)) \<le> 17"
      using card_insert_if [of "used_ids se" 0] by (simp add: used_ids_def split: if_splits)
  qed (simp add: used_ids_def)
  ultimately show False using card_mono [of "insert 0 (used_ids se)" "?f ` {..<18}"] by linarith
qed


lemma find_index_Some:
  "find P [0..<n] = Some i \<longleftrightarrow> i < n \<and> P i \<and> (\<forall>j<i. \<not> P j)"
  by (auto simp: find_Some_iff)

lemma find_index_None: "find P [0..<n] = None \<longleftrightarrow> (\<forall>i<n. \<not> P i)"
  by (auto simp: find_None_iff)

text \<open>Rewriting slots without touching identifiers, serials and requests keeps the table well-formed.\<close>

lemma table_ok_map:
  assumes "table_ok se" "se_next_enqueue_serial se' = se_next_enqueue_serial se"
    and "length (se_requests se') = length (se_requests se)"
    and "\<And>i. i < 16 \<Longrightarrow> rq_request_id (se_requests se' ! i) = rq_request_id (se_requests se ! i) \<and>
      rq_enqueue_serial (se_requests se' ! i) = rq_enqueue_serial (se_requests se ! i)"
    and "\<And>i. i < 16 \<Longrightarrow> slot_ok (se_next_enqueue_serial se) (se_requests se' ! i)"
  shows "table_ok se'"
proof -
  have len: "length (se_requests se') = 16" using assms(1,3) by (simp add: table_ok_def)
  have "\<forall>r\<in>set (se_requests se'). slot_ok (se_next_enqueue_serial se') r"
    using assms(2,5) len by (auto simp: in_set_conv_nth)
  moreover have "\<forall>i<16. \<forall>j<16. i \<noteq> j \<longrightarrow> slots_differ (se_requests se' ! i) (se_requests se' ! j)"
    using assms(1,4) by (simp add: table_ok_def slots_differ_def)
  ultimately show ?thesis using len by (simp add: table_ok_def)
qed

lemma table_slot: "table_ok se \<Longrightarrow> i < 16 \<Longrightarrow> slot_ok (se_next_enqueue_serial se) (se_requests se ! i)"
  by (simp add: table_ok_def)

lemma note_choice_fields [simp]:
  "rq_request_id (note_choice_slot k r) = rq_request_id r"
  "rq_enqueue_serial (note_choice_slot k r) = rq_enqueue_serial r"
  "rq_request (note_choice_slot k r) = rq_request r" "rq_state (note_choice_slot k r) = rq_state r"
  "demand_candidate (note_choice_slot k r) = demand_candidate r"
  "apta_scheduler_request_is_active (note_choice_slot k r) = apta_scheduler_request_is_active r"
  by (simp_all add: note_choice_slot_def demand_candidate_def apta_scheduler_request_is_active_def)

lemma note_choice_slot_ok: "slot_ok n r \<Longrightarrow> slot_ok n (note_choice_slot k r)"
proof -
  assume ok: "slot_ok n r"
  have "rq_skip_count r + 1 \<le> SCHEDULER_MAX_SKIPS" if "rq_skip_count r < SCHEDULER_MAX_SKIPS"
    using that by (simp add: word_less_nat_alt word_le_nat_alt SCHEDULER_MAX_SKIPS_def unat_plus_u32)
  then show ?thesis using ok
    by (auto simp: slot_ok_def note_choice_slot_def apta_scheduler_request_is_active_def)
qed

lemma note_choice_table: "table_ok se \<Longrightarrow> table_ok (apta_internal_scheduler_note_choice se k)"
  by (rule table_ok_map [of se])
    (auto simp: apta_internal_scheduler_note_choice_def table_ok_def intro!: note_choice_slot_ok)

lemma cancel_table:
  assumes "table_ok se" shows "table_ok (snd (apta_session_cancel_region_request se k))"
proof (cases "k = 0 \<or> request_slot (se_requests se) k = None")
  case False
  then obtain slot where slot: "request_slot (se_requests se) k = Some slot" "k \<noteq> 0" by auto
  then have s: "slot < 16" "rq_request_id (se_requests se ! slot) = k"
    using assms by (auto simp: request_slot_def find_index_Some table_ok_def)
  have len: "length (se_requests se) = 16" using assms by (simp add: table_ok_def)
  show ?thesis
    by (rule table_ok_map [OF assms])
      (use slot s len table_slot [OF assms] in
        \<open>auto simp: apta_session_cancel_region_request_def nth_list_update slot_ok_def\<close>)
qed (use assms in \<open>auto simp: apta_session_cancel_region_request_def\<close>)

text \<open>The outcome of a region request.\<close>

definition request_spec :: "apta_session \<Rightarrow> region_request \<Rightarrow> apta_status \<times> u32 \<times> apta_session \<Rightarrow> bool" where
  "request_spec se req r \<longleftrightarrow> (case r of (s, i, se') \<Rightarrow>
     table_ok se' \<and>
     (if s = STATUS_OK
      then i \<noteq> 0 \<and> i \<notin> used_ids se \<and> used_ids se' = insert i (used_ids se) \<and> (rr_request_id req \<noteq> 0 \<longrightarrow> i = rr_request_id req) \<and>
        (\<exists>slot. request_slot (se_requests se') i = Some slot \<and>
           rq_state (se_requests se' ! slot) = REQUEST_QUEUED \<and>
           rq_request (se_requests se' ! slot) = req\<lparr>rr_request_id := i\<rparr> \<and>
           rq_enqueue_serial (se_requests se' ! slot) = se_next_enqueue_serial se + 1)
      else failed s \<and> i = 0 \<and> se_requests se' = se_requests se))"

lemma request_spec_error:
  "table_ok se' \<Longrightarrow> se_requests se' = se_requests se \<Longrightarrow> failed s \<Longrightarrow> request_spec se req (s, 0, se')"
  by (auto simp: request_spec_def)

lemma table_ok_next_id: "table_ok (se\<lparr>se_next_request_id := n\<rparr>) = table_ok se"
  by (simp add: table_ok_def)

lemma store_request:
  assumes ok: "table_ok se" and slot: "free_slot (se_requests se) = Some slot"
    and i: "i \<noteq> 0" "i \<notin> used_ids se" "rr_request_id req \<noteq> 0 \<longrightarrow> i = rr_request_id req"
    and serial: "se_next_enqueue_serial se \<noteq> UINT64_MAX"
  defines "r \<equiv> (queued_request req i)\<lparr>rq_enqueue_serial := se_next_enqueue_serial se + 1, rq_skip_count := 0\<rparr>"
  shows "request_spec se req (STATUS_OK, i,
    se\<lparr>se_next_enqueue_serial := se_next_enqueue_serial se + 1, se_requests := (se_requests se)[slot := r]\<rparr>)"
proof -
  let ?rs = "se_requests se" and ?n = "se_next_enqueue_serial se"
  have len: "length ?rs = 16" using ok by (simp add: table_ok_def)
  have s: "slot < 16" "rq_request_id (?rs ! slot) = 0"
    using slot len by (auto simp: free_slot_def find_index_Some)
  have lt: "?n < ?n + 1"
    using serial unat_u64_bound [of ?n]
    by (auto simp: word_less_nat_alt unat_plus_u64 word_eq_iff_unsigned [where 'a = nat])
  have fresh: "rq_request_id x \<noteq> i" if "x \<in> set ?rs" for x using i that by (auto simp: used_ids_def)
  have old: "rq_request_id x \<noteq> 0 \<Longrightarrow> rq_enqueue_serial x \<le> ?n" if "x \<in> set ?rs" for x
    using ok that by (auto simp: table_ok_def slot_ok_def)
  have new: "rq_request_id r = i" "rq_enqueue_serial r = ?n + 1" "slot_ok (?n + 1) r"
    using i by (simp_all add: r_def queued_request_def slot_ok_def)
  have differ: "slots_differ r x" "slots_differ x r" if "x \<in> set ?rs" for x
    using fresh [OF that] old [OF that] lt new by (auto simp: slots_differ_def)
  have "table_ok (se\<lparr>se_next_enqueue_serial := ?n + 1, se_requests := ?rs[slot := r]\<rparr>)"
  proof -
    have "slot_ok (?n + 1) x" if "slot_ok ?n x" for x
      using that lt by (auto simp: slot_ok_def)
    then have "\<forall>x\<in>set (?rs[slot := r]). slot_ok (?n + 1) x"
      using ok new(3) set_update_subset_insert [of ?rs slot r] by (fastforce simp: table_ok_def)
    moreover have "slots_differ (?rs[slot := r] ! a) (?rs[slot := r] ! b)" if "a < 16" "b < 16" "a \<noteq> b" for a b
      using that ok differ len s(1) by (auto simp: nth_list_update table_ok_def)
    ultimately show ?thesis using len by (simp add: table_ok_def)
  qed
  moreover have "used_ids (se\<lparr>se_next_enqueue_serial := ?n + 1, se_requests := ?rs[slot := r]\<rparr>) = insert i (used_ids se)"
  proof -
    have "rq_request_id ` set (?rs[slot := r]) - {0} = insert i (rq_request_id ` set ?rs - {0})"
    proof
      show "rq_request_id ` set (?rs[slot := r]) - {0} \<subseteq> insert i (rq_request_id ` set ?rs - {0})"
        using set_update_subset_insert [of ?rs slot r] new(1) by auto
      show "insert i (rq_request_id ` set ?rs - {0}) \<subseteq> rq_request_id ` set (?rs[slot := r]) - {0}"
      proof
        fix k assume "k \<in> insert i (rq_request_id ` set ?rs - {0})"
        then consider "k = i" | j where "j < 16" "k = rq_request_id (?rs ! j)" "k \<noteq> 0"
          using len by (auto simp: in_set_conv_nth)
        then show "k \<in> rq_request_id ` set (?rs[slot := r]) - {0}"
        proof cases
          case 1
          then show ?thesis using new(1) i s len by (force simp: set_update_memI)
        next
          case 2
          then have "j \<noteq> slot" using s(2) by auto
          then have "?rs[slot := r] ! j = ?rs ! j" by simp
          then have "?rs ! j \<in> set (?rs[slot := r])" using 2 len by (metis length_list_update nth_mem)
          then show ?thesis using 2 by auto
        qed
      qed
    qed
    then show ?thesis by (simp add: used_ids_def)
  qed
  moreover have "request_slot (?rs[slot := r]) i = Some slot"
  proof -
    have "rq_request_id (?rs ! j) \<noteq> i" if "j < slot" for j using fresh that s len by simp
    then show ?thesis using s len new(1) by (auto simp: request_slot_def find_index_Some)
  qed
  ultimately show ?thesis using i s len by (simp add: request_spec_def r_def queued_request_def)
qed

lemma register_request:
  "apta_internal_scheduler_register_request se r =
     (if se_next_enqueue_serial se = UINT64_MAX then Fail ERROR_LIMIT_EXCEEDED
      else Ret (se\<lparr>se_next_enqueue_serial := se_next_enqueue_serial se + 1\<rparr>,
                r\<lparr>rq_enqueue_serial := se_next_enqueue_serial se + 1, rq_skip_count := 0\<rparr>))"
  by (simp add: apta_internal_scheduler_register_request_def Let_def)

lemma request_region_correct:
  assumes ok: "table_ok se"
  shows "request_spec se req (apta_session_request_region_base sizes se req)"
proof -
  note err = request_spec_error [OF ok refl]
  show ?thesis
  proof (cases "\<exists>e. failed e \<and> apta_session_request_region_base sizes se req = (e, 0, se)")
    case True
    then show ?thesis using err by auto
  next
    case False
    then have none: "apta_session_request_region_base sizes se req \<noteq> (e, 0, se)" if "failed e" for e
      using that by blast
    obtain slot where slot: "free_slot (se_requests se) = Some slot"
      and conf: "\<not> (rr_request_id req \<noteq> 0 \<and> apta_scheduler_request_id_exists se (rr_request_id req))"
      and eq: "apta_session_request_region_base sizes se req =
        (case (if rr_request_id req \<noteq> 0 then (rr_request_id req, se) else apta_scheduler_allocate_request_id se) of
           (i, se1) \<Rightarrow>
             if i = 0 then (ERROR_LIMIT_EXCEEDED, 0, se1)
             else (case apta_internal_scheduler_register_request se1 (queued_request req i) of
                     Ret (se2, r) \<Rightarrow> (STATUS_OK, i, se2\<lparr>se_requests := (se_requests se2)[slot := r]\<rparr>)
                   | Fail e \<Rightarrow> (e, 0, se1\<lparr>se_requests := (se_requests se1)[slot := zero_request]\<rparr>)
                   | Fault \<Rightarrow> (ERROR_INTERNAL, 0, se1)))"
      using none [of ERROR_INCOMPATIBLE_VERSION] none [of ERROR_INVALID_ARGUMENT] none [of ERROR_UNSUPPORTED]
        none [of ERROR_INVALID_STATE] none [of ERROR_CONFLICT] none [of ERROR_LIMIT_EXCEEDED]
      unfolding apta_session_request_region_base_def
      by (simp split: if_splits option.splits)
    obtain i se1 where pick: "(if rr_request_id req \<noteq> 0 then (rr_request_id req, se)
        else apta_scheduler_allocate_request_id se) = (i, se1)" by fastforce
    have props: "(\<exists>n. se1 = se\<lparr>se_next_request_id := n\<rparr>) \<and> i \<noteq> 0 \<and> i \<notin> used_ids se \<and>
        (rr_request_id req \<noteq> 0 \<longrightarrow> i = rr_request_id req)"
    proof (cases "rr_request_id req = 0")
      case True
      then have al: "allocate_id 0 se = (i, se1)" using pick by (simp add: apta_scheduler_allocate_request_id_def)
      then show ?thesis
        using allocate_id_props [OF al] allocate_id_succeeds [OF _ al] ok True by (auto simp: table_ok_def)
    next
      case False
      then have "i = rr_request_id req" "se1 = se" using pick by auto
      moreover have "\<exists>n. se = se\<lparr>se_next_request_id := n\<rparr>" by (rule exI [of _ "se_next_request_id se"]) simp
      ultimately show ?thesis using False conf by (auto simp: id_exists_iff)
    qed
    then obtain n where n: "se1 = se\<lparr>se_next_request_id := n\<rparr>" by blast
    have ok1: "table_ok se1" "used_ids se1 = used_ids se" "se_requests se1 = se_requests se"
      using ok n by (simp_all add: table_ok_next_id)
    show ?thesis
    proof (cases "se_next_enqueue_serial se1 = UINT64_MAX")
      case True
      have "se_requests se ! slot = zero_request"
        using slot ok by (auto simp: free_slot_def find_index_Some table_ok_def slot_ok_def)
      then have "(se_requests se1)[slot := zero_request] = se_requests se"
        using ok1(3) by (metis list_update_id)
      then have "se1\<lparr>se_requests := (se_requests se1)[slot := zero_request]\<rparr> = se1" using ok1(3) by simp
      then show ?thesis
        using True eq pick props request_spec_error [OF ok1(1,3), of ERROR_LIMIT_EXCEEDED]
        by (simp add: register_request)
    next
      case False
      have "request_spec se1 req (STATUS_OK, i, se1\<lparr>se_next_enqueue_serial := se_next_enqueue_serial se1 + 1,
          se_requests := (se_requests se1)[slot := (queued_request req i)\<lparr>
            rq_enqueue_serial := se_next_enqueue_serial se1 + 1, rq_skip_count := 0\<rparr>]\<rparr>)"
        using store_request [OF ok1(1)] slot props ok1 False by simp
      then show ?thesis using eq pick props False n
        by (simp add: register_request request_spec_def used_ids_def)
    qed
  qed
qed

section \<open>Sequences of scheduler calls\<close>

datatype sched_op = Request region_request | Cancel_request u32 | Next_demand

fun sched_step :: "struct_sizes \<Rightarrow> apta_session \<Rightarrow> sched_op \<Rightarrow> apta_session" where
  "sched_step sizes se (Request req) = snd (snd (apta_session_request_region_base sizes se req))"
| "sched_step sizes se (Cancel_request i) = snd (apta_session_cancel_region_request se i)"
| "sched_step sizes se Next_demand = snd (snd (apta_internal_waveform_next_pcm_request se))"

lemma next_request_table: "table_ok se \<Longrightarrow> table_ok (snd (snd (apta_internal_waveform_next_pcm_request se)))"
  by (simp add: apta_internal_waveform_next_pcm_request_def Let_def note_choice_table split: prod.splits)

lemma sched_step_table: "table_ok se \<Longrightarrow> table_ok (sched_step sizes se opn)"
proof (cases opn)
  case (Request req)
  assume "table_ok se"
  then show ?thesis using request_region_correct [of se req sizes] Request
    by (cases "apta_session_request_region_base sizes se req") (simp add: request_spec_def)
qed (simp_all add: cancel_table next_request_table)

section \<open>Properties\<close>

text \<open>
  C33: in every session whose request table is well-formed, a region request is answered exactly:
  on success its identifier is non-zero and was not in use, the used identifiers grow by exactly
  it, and looking it up finds the request as given, queued behind all earlier ones; on failure
  the table is unchanged.
\<close>
theorem request_region_exact:
  assumes "table_ok se"
  shows "request_spec se req (apta_session_request_region_base sizes se req)"
  by (rule request_region_correct [OF assms])

text \<open>
  C34: the table stays well-formed under any sequence of requests, cancellations and demands:
  sixteen slots, distinct identifiers and queue serials, skip counts within the cap.
\<close>
theorem scheduler_table_invariant:
  assumes "table_ok se"
  shows "table_ok (foldl (sched_step sizes) se ops)"
  using assms by (induction ops arbitrary: se) (simp_all add: sched_step_table)

text \<open>
  C23: the staged table is searched for the best request: when an active overview request exists,
  the target of the next demand is that of a request whose score no other one beats, under the
  documented order of priority, deadline, queue position and identifier.
\<close>
theorem scheduler_selects_best:
  assumes "r0 \<in> set (se_requests se)" "demand_candidate r0"
  shows "\<exists>r\<in>set (se_requests se). demand_candidate r \<and>
    (\<forall>s\<in>set (se_requests se). demand_candidate s \<longrightarrow> \<not> apta_internal_scheduler_score_better
       (apta_internal_scheduler_score_request s) (apta_internal_scheduler_score_request r)) \<and>
    select_target (apta_scheduler_stage_requests FEATURE_WAVEFORM_OVERVIEW (se_requests se))
        (0, 0, PRIORITY_BACKGROUND, 0) =
      (rr_first_frame (rq_request r), rr_end_frame (rq_request r),
       effective_priority (apta_internal_scheduler_score_request r), rq_request_id r)"
  using select_staged [of "se_requests se" 0 0 PRIORITY_BACKGROUND] assms
  by (auto simp: less_schedule_score_def [symmetric] not_less)

text \<open>
  The effective priority of an active request is the documented one: the base priority plus
  eight for every skipped decision, saturated at 255; after the capped number of skips every
  request has reached the maximum.
\<close>
theorem effective_priority_documented:
  assumes "table_ok se" "r \<in> set (se_requests se)" "apta_scheduler_request_is_active r"
  shows "unat (effective_priority (apta_internal_scheduler_score_request r)) =
      min 255 (unat (rr_priority (rq_request r)) + 8 * unat (rq_skip_count r)) \<and>
    (rq_skip_count r = SCHEDULER_MAX_SKIPS \<longrightarrow>
       effective_priority (apta_internal_scheduler_score_request r) = 255)"
proof -
  have "rq_skip_count r \<le> SCHEDULER_MAX_SKIPS" using assms(1,2) by (auto simp: table_ok_def slot_ok_def)
  from effective_priority_eq [OF assms(3) this] show ?thesis
    by (auto simp: word_eq_iff_unsigned [where 'a = nat] SCHEDULER_MAX_SKIPS_def)
qed

section \<open>Demands and pushes\<close>

lemma session_demand:
  assumes "ranges_ok (in_ranges (se_intake se))"
    and "apta_session_next_pcm_request_base sizes se sz v = (STATUS_OK, out, se')"
  shows "\<exists>q. out = Some q \<and> demand_ok se q"
proof -
  let ?staged = "se\<lparr>se_requests := apta_scheduler_stage_requests FEATURE_WAVEFORM_OVERVIEW (se_requests se)\<rparr>"
  obtain s o' where base: "apta_internal_waveform_next_pcm_request_base ?staged = (s, o')" by fastforce
  have "s = STATUS_OK" "o' = out"
    using assms(2) base
    by (auto simp: apta_session_next_pcm_request_base_def apta_internal_waveform_next_pcm_request_def Let_def
        apta_consts split: if_splits)
  moreover have "ranges_ok (in_ranges (se_intake ?staged))" using assms(1) by simp
  ultimately show ?thesis using next_demand [OF _ base] by (auto simp: demand_ok_def apta_consts)
qed

lemma session_demand_intake:
  "apta_session_next_pcm_request_base sizes se sz v = (s, out, se') \<Longrightarrow> se_intake se' = se_intake se"
  by (auto simp: apta_session_next_pcm_request_base_def apta_internal_waveform_next_pcm_request_def Let_def
      apta_internal_scheduler_note_choice_def split: if_splits prod.splits)

lemma demand_frames:
  assumes "demand_ok se q"
  defines "k \<equiv> ucast (pq_end_frame q - pq_first_frame q) :: u32"
  shows "k \<noteq> 0" "unat (pq_first_frame q) + unat k < 18446744073709551616"
    "pq_first_frame q \<notin> covered (in_ranges (se_intake se))" "unat k \<le> 4096"
proof -
  let ?d = "pq_end_frame q - pq_first_frame q"
  have lt: "pq_first_frame q < pq_end_frame q" and le: "?d \<le> MAX_PUSH_FRAMES"
    and dis: "{pq_first_frame q ..< pq_end_frame q} \<inter> covered (in_ranges (se_intake se)) = {}"
    using assms(1) by (auto simp: demand_ok_def)
  have d: "unat ?d = unat (pq_end_frame q) - unat (pq_first_frame q)" "unat (pq_first_frame q) < unat (pq_end_frame q)"
    using lt by (simp_all add: unat_sub word_le_nat_alt word_less_nat_alt)
  have small: "unat ?d \<le> 4096" using le by (simp add: word_le_nat_alt MAX_PUSH_FRAMES_def)
  then have k: "unat k = unat ?d" by (simp add: k_def unsigned_ucast_eq take_bit_nat_eq_self)
  show "k \<noteq> 0" using k d by auto
  show "unat (pq_first_frame q) + unat k < 18446744073709551616"
    using k d unat_u64_bound [of "pq_end_frame q"] by simp
  show "pq_first_frame q \<notin> covered (in_ranges (se_intake se))" using dis lt by auto
  show "unat k \<le> 4096" using k small by simp
qed

section \<open>Saturated priorities\<close>

text \<open>A request that precedes every other candidate as long as it is active: base priority 255 and,
  against each other candidate, an earlier queue position with no deadline on the other side.\<close>

definition dominates :: "internal_request \<Rightarrow> apta_session \<Rightarrow> bool" where
  "dominates r se \<longleftrightarrow> r \<in> set (se_requests se) \<and> demand_candidate r \<and> rr_priority (rq_request r) = 255 \<and>
     (\<forall>s\<in>set (se_requests se). demand_candidate s \<and> s \<noteq> r \<longrightarrow>
        rr_soft_deadline (rq_request s) = 0 \<and> rq_enqueue_serial r < rq_enqueue_serial s)"

lemma candidate_active: "demand_candidate r \<Longrightarrow> apta_scheduler_request_is_active r"
  by (simp add: demand_candidate_def apta_scheduler_request_is_active_def)

lemma top_priority: "demand_candidate r \<Longrightarrow> rr_priority (rq_request r) = 255 \<Longrightarrow>
    effective_priority (apta_internal_scheduler_score_request r) = 255"
proof -
  assume r: "demand_candidate r" "rr_priority (rq_request r) = 255"
  have "(ucast (255 :: u8) :: u32) = 255" by simp
  then show ?thesis using r candidate_active [OF r(1)]
    by (auto simp: apta_internal_scheduler_score_request_def Let_def word_gt_0)
qed

lemma dominates_score:
  assumes "dominates r se" "s \<in> set (se_requests se)" "demand_candidate s" "s \<noteq> r"
  shows "apta_internal_scheduler_score_request r < apta_internal_scheduler_score_request s"
proof -
  let ?r = "apta_internal_scheduler_score_request r" and ?s = "apta_internal_scheduler_score_request s"
  have r: "demand_candidate r" "rr_priority (rq_request r) = 255"
    and o: "rr_soft_deadline (rq_request s) = 0" "rq_enqueue_serial r < rq_enqueue_serial s"
    using assms by (auto simp: dominates_def)
  have "effective_priority ?r = 255" using top_priority [OF r] .
  moreover have "effective_priority ?s \<le> 255" using effective_priority_le [of s] by (simp add: word_le_nat_alt)
  moreover have "soft_deadline_monotonic_ns ?s = 0" "enqueue_serial ?r < enqueue_serial ?s"
    using o candidate_active [OF r(1)] candidate_active [OF assms(3)]
    by (simp_all add: apta_internal_scheduler_score_request_def Let_def)
  ultimately show ?thesis
    by (auto simp: less_schedule_score_def apta_internal_scheduler_score_better_def Let_def)
qed

lemma dominates_selected:
  assumes "dominates r se"
  shows "select_target (apta_scheduler_stage_requests FEATURE_WAVEFORM_OVERVIEW (se_requests se))
      (0, 0, PRIORITY_BACKGROUND, 0) =
    (rr_first_frame (rq_request r), rr_end_frame (rq_request r), 255, rq_request_id r)"
proof -
  have r: "r \<in> set (se_requests se)" "demand_candidate r" "rr_priority (rq_request r) = 255"
    using assms by (auto simp: dominates_def)
  have "x = r" if "x \<in> set (se_requests se)" "demand_candidate x"
    "apta_internal_scheduler_score_request x \<le> apta_internal_scheduler_score_request r" for x
    using dominates_score [OF assms that(1,2)] that(3) by (meson leD)
  then show ?thesis using select_staged [of "se_requests se" 0 0 PRIORITY_BACKGROUND] r top_priority
    by metis
qed

lemma dominates_note_choice:
  assumes "dominates r se"
  shows "dominates (note_choice_slot k r) (apta_internal_scheduler_note_choice se k)"
  using assms unfolding dominates_def by (auto simp: apta_internal_scheduler_note_choice_def)

lemma dominates_demand:
  assumes "dominates r se"
  obtains r' where "dominates r' (sched_step sizes se Next_demand)" "rq_request_id r' = rq_request_id r"
    "rq_request r' = rq_request r"
proof -
  have "\<exists>k. sched_step sizes se Next_demand = se \<or>
      sched_step sizes se Next_demand = apta_internal_scheduler_note_choice se k"
    unfolding sched_step.simps apta_internal_waveform_next_pcm_request_def Let_def
    by (auto split: prod.split)
  then obtain k where "sched_step sizes se Next_demand = se \<or>
      sched_step sizes se Next_demand = apta_internal_scheduler_note_choice se k" by blast
  then show ?thesis using that [of r] that [of "note_choice_slot k r"] assms dominates_note_choice by auto
qed

lemma dominates_always:
  assumes "dominates r se"
  shows "select_target (apta_scheduler_stage_requests FEATURE_WAVEFORM_OVERVIEW
      (se_requests (foldl (sched_step sizes) se (replicate n Next_demand)))) (0, 0, PRIORITY_BACKGROUND, 0) =
    (rr_first_frame (rq_request r), rr_end_frame (rq_request r), 255, rq_request_id r)"
  using assms
proof (induction n arbitrary: r se)
  case 0
  then show ?case by (simp add: dominates_selected)
next
  case (Suc n)
  obtain r' where r': "dominates r' (sched_step sizes se Next_demand)" "rq_request_id r' = rq_request_id r"
    "rq_request r' = rq_request r"
    using dominates_demand [OF Suc.prems] .
  show ?case using Suc.IH [OF r'(1)] r'(2,3) by (simp only: replicate_Suc foldl_Cons)
qed

section \<open>Properties\<close>


text \<open>
  C35: ageing saturates at the largest base priority, so it does not bound waiting: if a candidate of
  priority 255 was queued before every other candidate, and no other candidate has a deadline,
  then it is the target of every overview demand, after any number of demands, whatever the others' skip counts.
\<close>
theorem saturated_priority_starves:
  assumes "dominates r se"
  shows "select_target (apta_scheduler_stage_requests FEATURE_WAVEFORM_OVERVIEW
      (se_requests (foldl (sched_step sizes) se (replicate n Next_demand)))) (0, 0, PRIORITY_BACKGROUND, 0) =
    (rr_first_frame (rq_request r), rr_end_frame (rq_request r), 255, rq_request_id r)"
  by (rule dominates_always [OF assms])


section \<open>A concrete session\<close>

definition demo_focus :: focus where
  "demo_focus = \<lparr>fo_struct_size = 0, fo_api_version = 0, fo_playhead_frame = 0, fo_lookbehind_frames = 0,
     fo_lookahead_frames = 0, fo_feature_mask = 0, fo_priority = 0\<rparr>"

definition demo_region :: "u64 \<Rightarrow> u8 \<Rightarrow> region_request" where
  "demo_region f p = \<lparr>rr_struct_size = 64, rr_api_version = APTA_API_VERSION, rr_range_struct_size = 24,
     rr_range_api_version = APTA_API_VERSION, rr_first_frame = f, rr_end_frame = f + 1000,
     rr_feature_mask = FEATURE_WAVEFORM_OVERVIEW, rr_soft_deadline = 0, rr_request_id = 0, rr_priority = p\<rparr>"

definition demo_slot :: "u32 \<Rightarrow> u64 \<Rightarrow> u8 \<Rightarrow> internal_request" where
  "demo_slot i f p = (queued_request (demo_region f p) i)\<lparr>rq_enqueue_serial := ucast i\<rparr>"

definition demo_session :: apta_session where
  "demo_session = \<lparr>se_config = demo_config, se_state = 0, se_cancel_requested = False, se_process_lock = False,
     se_process_deadline_ns = 0, se_generation = 0, se_has_focus = False, se_focus = demo_focus,
     se_end_of_input_signalled = False, se_final_end_frame = 0, se_next_request_id = 3,
     se_next_enqueue_serial = 2,
     se_requests = demo_slot 1 2000 255 # demo_slot 2 0 10 # replicate 14 zero_request,
     se_intake = demo_intake, se_has_pull_source = False, se_reads = 0, se_releases = 0,
     se_result_pool = None, se_current_result = None, se_lineage_id_high = 0, se_lineage_id_low = 1,
     se_overview_frames_per_column = 1024, se_overview = empty_overview, se_detail = empty_detail,
     se_s4 = empty_s4, se_s6 = None, se_clock_reads = 0, se_signal = []\<rparr>"

lemma demo_slots:
  "demand_candidate (demo_slot 1 2000 255)" "demand_candidate (demo_slot 2 0 10)" "\<not> demand_candidate zero_request"
  "slot_ok 2 (demo_slot 1 2000 255)" "slot_ok 2 (demo_slot 2 0 10)" "slot_ok 2 zero_request"
  by (simp_all add: demand_candidate_def demo_slot_def queued_request_def demo_region_def zero_request_def
      slot_ok_def apta_consts)

lemma demo_session_set: "set (se_requests demo_session) = {demo_slot 1 2000 255, demo_slot 2 0 10, zero_request}"
  by (auto simp: demo_session_def)

lemma slots_differ_zero [simp]: "slots_differ zero_request r" "slots_differ r zero_request"
  by (simp_all add: slots_differ_def zero_request_def)

lemma demo_session_table: "table_ok demo_session"
proof -
  have differ: "slots_differ (demo_slot 1 2000 255) (demo_slot 2 0 10)" "slots_differ (demo_slot 2 0 10) (demo_slot 1 2000 255)"
    by (simp_all add: slots_differ_def demo_slot_def queued_request_def)
  have nth: "se_requests demo_session ! i = (if i = 0 then demo_slot 1 2000 255 else if i = 1 then demo_slot 2 0 10
      else zero_request)" if "i < 16" for i
    using that by (cases i; cases "i - 1") (auto simp: demo_session_def)
  have "slots_differ (se_requests demo_session ! i) (se_requests demo_session ! j)" if "i < 16" "j < 16" "i \<noteq> j" for i j
    using that differ by (simp add: nth)
  moreover have "length (se_requests demo_session) = 16" "se_next_enqueue_serial demo_session = 2"
    by (simp_all add: demo_session_def)
  ultimately show ?thesis using demo_slots by (simp add: table_ok_def demo_session_set)
qed

theorem request_region_exact_witness:
  "request_spec demo_session (demo_region 5000 7)
     (apta_session_request_region_base demo_sizes demo_session (demo_region 5000 7))"
  by (rule request_region_exact [OF demo_session_table])

theorem scheduler_table_invariant_witness:
  "table_ok (foldl (sched_step demo_sizes) demo_session
     [Request (demo_region 5000 7), Next_demand, Cancel_request 1, Next_demand])"
  by (rule scheduler_table_invariant [OF demo_session_table])

theorem scheduler_selects_best_witness:
  "\<exists>r\<in>set (se_requests demo_session). demand_candidate r \<and>
    (\<forall>s\<in>set (se_requests demo_session). demand_candidate s \<longrightarrow> \<not> apta_internal_scheduler_score_better
       (apta_internal_scheduler_score_request s) (apta_internal_scheduler_score_request r)) \<and>
    select_target (apta_scheduler_stage_requests FEATURE_WAVEFORM_OVERVIEW (se_requests demo_session))
        (0, 0, PRIORITY_BACKGROUND, 0) =
      (rr_first_frame (rq_request r), rr_end_frame (rq_request r),
       effective_priority (apta_internal_scheduler_score_request r), rq_request_id r)"
  by (rule scheduler_selects_best [of "demo_slot 2 0 10"]) (simp_all add: demo_session_set demo_slots)

theorem effective_priority_documented_witness:
  "unat (effective_priority (apta_internal_scheduler_score_request (demo_slot 2 0 10))) = 10"
  using effective_priority_documented [OF demo_session_table, of "demo_slot 2 0 10"]
    candidate_active [OF demo_slots(2)]
  by (simp add: demo_session_set) (simp add: demo_slot_def queued_request_def demo_region_def zero_request_def)

lemma demo_dominates: "dominates (demo_slot 1 2000 255) demo_session"
  using demo_slots by (auto simp: dominates_def demo_session_set)
    (simp_all add: demo_slot_def queued_request_def demo_region_def)

theorem saturated_priority_starves_witness:
  "select_target (apta_scheduler_stage_requests FEATURE_WAVEFORM_OVERVIEW
      (se_requests (foldl (sched_step demo_sizes) demo_session (replicate 1000 Next_demand))))
      (0, 0, PRIORITY_BACKGROUND, 0) = (2000, 3000, 255, 1)"
  using saturated_priority_starves [OF demo_dominates, of demo_sizes 1000]
  by (simp add: demo_slot_def queued_request_def demo_region_def)

lemma demo_base_demand:
  "apta_session_next_pcm_request_base demo_sizes demo_session (ucast (sizeof_pcm_request demo_sizes)) APTA_API_VERSION =
     (STATUS_OK, Some \<lparr>pq_first_frame = 2000, pq_end_frame = 3000, pq_feature_mask = FEATURE_WAVEFORM_OVERVIEW,
        pq_priority = 255, pq_request_token = 1\<rparr>, apta_internal_scheduler_note_choice demo_session 1)"
proof -
  have sel: "select_target (apta_scheduler_stage_requests FEATURE_WAVEFORM_OVERVIEW (se_requests demo_session))
      (0, 0, PRIORITY_BACKGROUND, 0) = (2000, 3000, 255, 1)"
    using dominates_selected [OF demo_dominates] by (simp add: demo_slot_def queued_request_def demo_region_def)
  have cfg: "sc_total_frames (se_config demo_session) = 44100" "in_ranges (se_intake demo_session) = []"
    "sc_requested_features (se_config demo_session) AND FEATURE_WAVEFORM_OVERVIEW \<noteq> 0"
    by (simp_all add: demo_session_def demo_config_def demo_intake_def empty_intake_def apta_consts)
  have ver: "apta_internal_validate_struct True (sizeof_pcm_request demo_sizes)
      (ucast (sizeof_pcm_request demo_sizes)) APTA_API_VERSION"
    by (simp add: apta_internal_validate_struct_def apta_internal_api_version_is_compatible_def
        api_version_get_major_def api_version_get_minor_def demo_sizes_def apta_consts)
  show ?thesis
    using sel cfg ver
    by (simp add: apta_session_next_pcm_request_base_def apta_internal_waveform_next_pcm_request_def Let_def
        apta_internal_waveform_next_pcm_request_base_def apta_min_frame_def apta_consts)
qed


end
