(* ===== verification/Apta_Process.thy ===== *)
theory Apta_Process
  imports Apta_Overview_Exact Apta_Scheduler
begin

text \<open>
  The processing of the queued samples (\<^verbatim>\<open>src/waveform/apta_waveform_process.c\<close>): the selection of
  a node, the loop over chunks, and the innermost layer of the waveform step.  The loop ends
  because every round takes at least one frame from the queue.  Its invariant keeps the
  overview store in shape and, as long as no chunk fails, exact.
\<close>

definition PROCESS_CHUNK_FRAMES :: u32 where [apta_consts]: "PROCESS_CHUNK_FRAMES = 256"

section \<open>The queue\<close>

definition queue :: "apta_session \<Rightarrow> pcm_node list" where
  "queue se = in_queue (se_intake se)"

definition with_queue :: "apta_session \<Rightarrow> pcm_node list \<Rightarrow> apta_session" where
  "with_queue se q = se\<lparr>se_intake := (se_intake se)\<lparr>in_queue := q\<rparr>\<rparr>"

definition node_first :: "pcm_node \<Rightarrow> u64" where
  "node_first n = pn_first_frame n + ucast (pn_processed_frames n)"

definition node_end :: "pcm_node \<Rightarrow> u64" where
  "node_end n = pn_first_frame n + ucast (pn_frame_count n)"

text \<open>The window of a focus that asks for the overview, empty otherwise.\<close>

definition overview_focus_window :: "apta_session \<Rightarrow> u64 \<times> u64" where
  "overview_focus_window se =
     (if se_has_focus se \<and> fo_feature_mask (se_focus se) AND FEATURE_WAVEFORM_OVERVIEW \<noteq> 0
      then focus_window (se_focus se) else (0, 0))"

definition focus_priority :: "apta_session \<Rightarrow> pcm_node \<Rightarrow> u32" where
  "focus_priority se node =
     (case overview_focus_window se of (focus_first, focus_end) \<Rightarrow>
        if focus_first < focus_end \<and> frame_ranges_overlap (node_first node) (node_end node) focus_first focus_end
        then ucast (fo_priority (se_focus se)) else 0)"

definition pcm_node_priority :: "apta_session \<Rightarrow> pcm_node \<Rightarrow> u32" where
  "pcm_node_priority se node =
     fold (\<lambda>r priority.
         if demand_candidate r \<and>
            frame_ranges_overlap (node_first node) (node_end node) (rr_first_frame (rq_request r)) (rr_end_frame (rq_request r)) \<and>
            priority < ucast (rr_priority (rq_request r))
         then ucast (rr_priority (rq_request r)) else priority)
       (se_requests se) (focus_priority se node)"

fun best_node :: "(pcm_node \<Rightarrow> u32) \<Rightarrow> pcm_node list \<Rightarrow> nat \<Rightarrow> (nat \<times> u32) option \<Rightarrow> (nat \<times> u32) option" where
  "best_node priority [] i best = best"
| "best_node priority (n # ns) i best =
     best_node priority ns (i + 1)
       (case best of
          None \<Rightarrow> Some (i, priority n)
        | Some (b, best_priority) \<Rightarrow> if best_priority < priority n then Some (i, priority n) else best)"

definition apta_select_pcm_node :: "apta_session \<Rightarrow> nat option" where
  "apta_select_pcm_node se = map_option fst (best_node (pcm_node_priority se) (queue se) 0 None)"

definition apta_remove_pcm_node :: "apta_session \<Rightarrow> nat \<Rightarrow> apta_session" where
  "apta_remove_pcm_node se i =
     (let q = queue se; st = se_intake se
      in se\<lparr>se_intake := st\<lparr>in_queue := take i q @ drop (i + 1) q,
              in_queued_frames := in_queued_frames st - ucast (pn_frame_count (q ! i)),
              in_memory := apta_internal_session_deallocate (in_memory st) (Some (pn_address (q ! i)))\<rparr>\<rparr>)"

section \<open>The processing loop\<close>

definition advance_node :: "apta_session \<Rightarrow> nat \<Rightarrow> u32 \<Rightarrow> apta_session" where
  "advance_node se i chunk =
     with_queue se ((queue se)[i := (queue se ! i)\<lparr>pn_processed_frames := pn_processed_frames (queue se ! i) + chunk\<rparr>])"

text \<open>What follows the samples of a chunk: the node's progress, the complete columns, the removal of a
  finished node.\<close>

definition finish_chunk :: "apta_session \<Rightarrow> nat \<Rightarrow> u32 \<Rightarrow> apta_session" where
  "finish_chunk se i chunk =
     (let se1 = apta_refresh_completed_columns (advance_node se i chunk);
          node = queue se1 ! i
      in if pn_processed_frames node = pn_frame_count node then apta_remove_pcm_node se1 i else se1)"

definition chunk_size :: "pcm_node \<Rightarrow> u32 \<Rightarrow> u32" where
  "chunk_size node allowed =
     apta_min_u32 (apta_min_u32 (pn_frame_count node - pn_processed_frames node) PROCESS_CHUNK_FRAMES) allowed"

definition frames_left :: "pcm_node list \<Rightarrow> nat" where
  "frames_left q = sum_list (map (\<lambda>n. unat (pn_frame_count n - pn_processed_frames n)) q)"

lemma best_node_bound:
  "(case best of None \<Rightarrow> True | Some (b, p) \<Rightarrow> b < i) \<Longrightarrow>
   best_node priority ns i best = Some (j, p) \<Longrightarrow> j < i + length ns"
  by (induction ns arbitrary: i best) (fastforce split: option.splits if_splits)+

lemma select_bound: "apta_select_pcm_node se = Some i \<Longrightarrow> i < length (queue se)"
  using best_node_bound [where best = None and i = 0] by (fastforce simp: apta_select_pcm_node_def)

text \<open>Samples leave the queue alone.\<close>

lemma queue_with_queue [simp]: "queue (with_queue se q) = q"
  by (simp add: queue_def with_queue_def)

lemma with_memory_queue [simp]: "queue (with_memory se sm) = queue se" "queue (se\<lparr>se_overview := ov\<rparr>) = queue se"
  "queue (with_accumulators se as) = queue se" "queue (se\<lparr>se_signal := x\<rparr>) = queue se"
  by (simp_all add: queue_def with_memory_def with_accumulators_def)

lemma grow_bands_queue: "queue (snd (apta_internal_waveform_grow_band_sums eg se c)) = queue se"
  by (auto simp: apta_internal_waveform_grow_band_sums_def split: prod.split option.split)

lemma replace_queue: "queue (snd (replace_accumulators eg se c r w)) = queue se"
proof -
  obtain p sm where r: "r = (p, sm)" by fastforce
  show ?thesis
  proof (cases p)
    case None
    then show ?thesis by (simp add: replace_accumulators_def r)
  next
    case (Some q)
    let ?se = "with_memory (se\<lparr>se_overview := (se_overview se)\<lparr>ov_memory := Some (q, w)\<rparr>\<rparr>) (free_block sm (ov_memory (se_overview se)))"
    obtain s se1 where g: "apta_internal_waveform_grow_band_sums eg ?se c = (s, se1)" by fastforce
    then have "queue se1 = queue se" using grow_bands_queue [of eg ?se c] by simp
    then show ?thesis using g Some by (simp add: replace_accumulators_def r)
  qed
qed

lemma ensure_queue: "queue (snd (apta_ensure_accumulator_capacity eg se n)) = queue se"
  by (auto simp: apta_ensure_accumulator_capacity_def replace_queue split: option.split)

lemma find_or_insert_queue:
  "apta_find_or_insert_accumulator eg se c = Ret (s, p, se') \<Longrightarrow> queue se' = queue se"
  using ensure_queue [of eg se "of_nat (length (ov_accumulators (se_overview se))) + 1"]
  by (auto simp: apta_find_or_insert_accumulator_def Let_def split: if_splits prod.splits)

lemma process_samples_queue:
  "apta_process_samples eg node offsets se = Ret (s, se') \<Longrightarrow> queue se' = queue se"
proof (induction offsets arbitrary: se)
  case (Cons i offsets)
  show ?case using Cons.prems Cons.IH
    by (auto simp: Let_def obind_eq_Ret dest!: find_or_insert_queue split: if_splits)
qed simp

lemma refresh_queue [simp]: "queue (apta_refresh_completed_columns se) = queue se"
  by (simp add: apta_refresh_completed_columns_def Let_def)

lemma finish_chunk_left:
  assumes "i < length (queue se)" "chunk = chunk_size (queue se ! i) allowed" "chunk \<noteq> 0"
  shows "frames_left (queue (finish_chunk se i chunk)) < frames_left (queue se)"
proof -
  let ?n = "queue se ! i"
  let ?n' = "?n\<lparr>pn_processed_frames := pn_processed_frames ?n + chunk\<rparr>"
  let ?left = "\<lambda>n. unat (pn_frame_count n - pn_processed_frames n)"
  have "chunk \<le> pn_frame_count ?n - pn_processed_frames ?n"
    unfolding assms(2) by (auto simp: chunk_size_def apta_min_u32_def)
  then have "unat (pn_frame_count ?n - pn_processed_frames ?n - chunk) = ?left ?n - unat chunk"
    "unat chunk \<le> ?left ?n" by (simp_all add: unat_sub word_le_nat_alt)
  moreover have "0 < unat chunk" using assms(3) by (simp add: unat_gt_0)
  ultimately have less: "?left ?n' < ?left ?n" by (simp add: diff_diff_eq)
  have split: "frames_left (queue se) = frames_left (take i (queue se)) + ?left ?n + frames_left (drop (Suc i) (queue se))"
    using arg_cong [OF id_take_nth_drop [OF assms(1)], of frames_left] by (simp add: frames_left_def)
  have upd: "queue (apta_refresh_completed_columns (advance_node se i chunk)) = (queue se)[i := ?n']"
    by (simp add: advance_node_def)
  show ?thesis
  proof (cases "pn_processed_frames ?n' = pn_frame_count ?n'")
    case True
    then have "queue (finish_chunk se i chunk) = take i (queue se) @ drop (Suc i) (queue se)"
      using upd assms(1) by (simp add: finish_chunk_def Let_def apta_remove_pcm_node_def) (simp add: queue_def)
    then show ?thesis using split less by (simp add: frames_left_def)
  next
    case False
    then have "queue (finish_chunk se i chunk) = (queue se)[i := ?n']"
      using upd assms(1) by (simp add: finish_chunk_def Let_def)
    then show ?thesis using split less assms(1)
      by (simp add: upd_conv_take_nth_drop) (simp add: frames_left_def)
  qed
qed

lemma deadline_queue [simp]: "queue (snd (deadline_passed eg se)) = queue se"
  by (auto simp: deadline_passed_def read_clock_def queue_def split: option.split)


text \<open>One round of the loop: the selected node and the size of its chunk, if there is one.\<close>

definition next_chunk :: "u32 \<Rightarrow> u32 \<Rightarrow> u32 \<Rightarrow> u32 \<Rightarrow> apta_session \<Rightarrow> (nat \<times> u32) option" where
  "next_chunk frame_limit step_limit consumed steps se =
     (if queue se \<noteq> [] \<and> consumed < frame_limit \<and> steps < step_limit
      then
        (case apta_select_pcm_node se of
           None \<Rightarrow> None
         | Some i \<Rightarrow>
             let chunk = chunk_size (queue se ! i) (frame_limit - consumed)
             in if chunk = 0 then None else Some (i, chunk))
      else None)"

lemma next_chunk_Some:
  "next_chunk fl sl consumed steps se = Some (i, chunk) \<Longrightarrow>
   i < length (queue se) \<and> chunk = chunk_size (queue se ! i) (fl - consumed) \<and> chunk \<noteq> 0 \<and> consumed < fl \<and> steps < sl"
  by (auto simp: next_chunk_def Let_def dest: select_bound split: if_splits option.splits)

function process_loop ::
    "engine \<Rightarrow> u32 \<Rightarrow> u32 \<Rightarrow> u32 \<Rightarrow> u32 \<Rightarrow> bool \<Rightarrow> apta_session \<Rightarrow>
     (apta_status \<times> u32 \<times> u32 \<times> bool \<times> apta_session) outcome" where
  "process_loop eg frame_limit step_limit consumed steps did_work se =
     (case next_chunk frame_limit step_limit consumed steps se of
        None \<Rightarrow> Ret (STATUS_OK, consumed, steps, did_work, se)
      | Some (i, chunk) \<Rightarrow>
          (case apta_process_samples eg (queue se ! i) [0..<unat chunk] se of
             Fault \<Rightarrow> Fault
           | Fail e \<Rightarrow> Fail e
           | Ret (status, se1) \<Rightarrow>
               if failed status then Ret (status, consumed, steps, did_work, se1)
               else
                 (case deadline_passed eg (finish_chunk se1 i chunk) of
                    (passed, se2) \<Rightarrow>
                      if passed then Ret (STATUS_OK, consumed + chunk, steps + 1, True, se2)
                      else process_loop eg frame_limit step_limit (consumed + chunk) (steps + 1) True se2)))"
  by pat_completeness auto
termination
proof (relation "measure (\<lambda>(eg, fl, sl, consumed, steps, did, se). frames_left (queue se))")
  fix eg :: engine and fl sl consumed steps :: u32 and did_work passed :: bool and se se1 se2 :: apta_session
    and r i chunk status p
  assume a: "next_chunk fl sl consumed steps se = Some r" "(i, chunk) = r"
    "apta_process_samples eg (queue se ! i) [0..<unat chunk] se = Ret p" "(status, se1) = p"
    "\<not> failed status" "(passed, se2) = deadline_passed eg (finish_chunk se1 i chunk)" "\<not> passed"
  have q1: "queue se1 = queue se" using process_samples_queue a(3,4) by metis
  have q2: "queue se2 = queue (finish_chunk se1 i chunk)" using deadline_queue a(6) by (metis snd_conv)
  have "i < length (queue se1)" "chunk = chunk_size (queue se1 ! i) (fl - consumed)" "chunk \<noteq> 0"
    using next_chunk_Some a(1,2) q1 by metis+
  from finish_chunk_left [OF this] show "((eg, fl, sl, consumed + chunk, steps + 1, True, se2), eg, fl, sl, consumed, steps, did_work, se) \<in>
      measure (\<lambda>(eg, fl, sl, consumed, steps, did, se). frames_left (queue se))" by (simp add: q1 q2)
qed simp

declare process_loop.simps [simp del]

definition unlimited :: "u32 \<Rightarrow> u32" where
  "unlimited limit = (if limit = 0 then UINT32_MAX else limit)"

text \<open>The caller's progress structure; the generation is written in every call that reaches the end.\<close>

definition apta_internal_waveform_process_base ::
    "engine \<Rightarrow> apta_session \<Rightarrow> work_budget \<Rightarrow> progress \<Rightarrow>
     (apta_status \<times> bool \<times> bool \<times> progress \<times> apta_session) outcome" where
  "apta_internal_waveform_process_base eg se budget progress =
     (let completed_before = ov_complete_count (se_overview se)
      in
      obind (process_loop eg (unlimited (wb_maximum_input_frames budget)) (unlimited (wb_maximum_steps budget)) 0 0 False
               (apta_refresh_completed_columns se)) (\<lambda>(status, consumed, steps, did_work, se1).
      if failed status then Ret (status, did_work, False, progress, se1)
      else
        let se2 = apta_update_request_states se1;
            changed = (ov_complete_count (se_overview se2) \<noteq> completed_before)
        in
        obind (if changed then apta_internal_publish_result eg se2 FEATURE_WAVEFORM_OVERVIEW else Ret (STATUS_OK, se2))
          (\<lambda>(publish_status, se3).
        if failed publish_status then Ret (publish_status, did_work, False, progress, se3)
        else
          Ret (if \<not> did_work then STATUS_WOULD_BLOCK
               else if queue se3 \<noteq> [] then STATUS_MORE_WORK else STATUS_OK,
               did_work, changed,
               progress\<lparr>pg_consumed_input_frames := consumed, pg_completed_steps := steps,
                        pg_changed_features := (if changed then FEATURE_WAVEFORM_OVERVIEW else 0),
                        pg_published_generation := se_generation se3\<rparr>,
               se3))))"

section \<open>The queue of a sound intake\<close>

lemma node_ok_unat:
  assumes "node_ok n"
  shows "unat (node_first n) = unat (pn_first_frame n) + unat (pn_processed_frames n)"
    "unat (node_end n) = unat (pn_first_frame n) + unat (pn_frame_count n)"
    "unat (pn_processed_frames n) < unat (pn_frame_count n)"
    "unat (pn_first_frame n) + unat (pn_frame_count n) < 18446744073709551616"
proof -
  have a: "pn_first_frame n < pn_first_frame n + ucast (pn_frame_count n)" "pn_processed_frames n < pn_frame_count n"
    using assms by (simp_all add: node_ok_def)
  show lt: "unat (pn_processed_frames n) < unat (pn_frame_count n)" using a(2) by (simp add: word_less_nat_alt)
  show nw: "unat (pn_first_frame n) + unat (pn_frame_count n) < 18446744073709551616"
  proof (rule ccontr)
    assume "\<not> unat (pn_first_frame n) + unat (pn_frame_count n) < 18446744073709551616"
    moreover have "unat (pn_first_frame n) < 18446744073709551616" "unat (pn_frame_count n) < 4294967296"
      using unsigned_less [of "pn_first_frame n"] unat_u32_bound [of "pn_frame_count n"] by simp_all
    ultimately have "unat (pn_first_frame n + ucast (pn_frame_count n)) < unat (pn_first_frame n)"
      by (auto simp: unat_word_ariths mod_if)
    then show False using a(1) by (simp add: word_less_nat_alt)
  qed
  show "unat (node_first n) = unat (pn_first_frame n) + unat (pn_processed_frames n)"
    "unat (node_end n) = unat (pn_first_frame n) + unat (pn_frame_count n)"
    using lt nw by (simp_all add: node_first_def node_end_def unat_word_ariths)
qed

lemma pending_node: "pending_frames n = {node_first n ..< node_end n}"
  by (simp add: pending_frames_def node_first_def node_end_def)

lemma pending_in_node: "node_ok n \<Longrightarrow> pending_frames n \<subseteq> node_frames n"
  using node_ok_unat [of n]
  by (auto simp: pending_node node_frames_def word_le_nat_alt word_less_nat_alt node_end_def [symmetric])

text \<open>The frames of a chunk.\<close>

definition chunk_frames :: "pcm_node \<Rightarrow> u32 \<Rightarrow> u64 set" where
  "chunk_frames n k = {node_first n ..< node_first n + ucast k}"

definition advanced :: "pcm_node \<Rightarrow> u32 \<Rightarrow> pcm_node" where
  "advanced n k = n\<lparr>pn_processed_frames := pn_processed_frames n + k\<rparr>"

lemma chunk_unat:
  assumes "node_ok n" "k \<le> pn_frame_count n - pn_processed_frames n"
  shows "unat (pn_processed_frames n + k) = unat (pn_processed_frames n) + unat k"
    "unat (pn_processed_frames n) + unat k \<le> unat (pn_frame_count n)"
    "unat (node_first n + ucast k) = unat (node_first n) + unat k"
    "unat (node_first (advanced n k)) = unat (node_first n) + unat k"
proof -
  note n = node_ok_unat [OF assms(1)]
  have "unat (pn_frame_count n - pn_processed_frames n) = unat (pn_frame_count n) - unat (pn_processed_frames n)"
    using n(3) by (simp add: unat_sub word_le_nat_alt)
  then show le: "unat (pn_processed_frames n) + unat k \<le> unat (pn_frame_count n)"
    using assms(2) n(3) by (simp add: word_le_nat_alt)
  then show u: "unat (pn_processed_frames n + k) = unat (pn_processed_frames n) + unat k"
    using unat_u32_bound [of "pn_frame_count n"] by (simp add: unat_word_ariths)
  show "unat (node_first n + ucast k) = unat (node_first n) + unat k"
    using n le by (simp add: unat_word_ariths)
  have "unat (pn_first_frame n) + unat (pn_processed_frames n + k) < 18446744073709551616" using u le n(4) by simp
  then show "unat (node_first (advanced n k)) = unat (node_first n) + unat k"
    using u n(1) by (simp add: node_first_def advanced_def unat_word_ariths)
qed

lemma sample_frames:
  assumes "node_ok n" "k \<le> pn_frame_count n - pn_processed_frames n"
  shows "distinct (map (sample_frame n) [0..<unat k])" "set (map (sample_frame n) [0..<unat k]) = chunk_frames n k"
proof -
  note n = node_ok_unat [OF assms(1)] and c = chunk_unat [OF assms]
  have s: "unat (sample_frame n i) = unat (node_first n) + i" if "i < unat k" for i
  proof -
    have "unat (node_first n) + i < 18446744073709551616" using that c(2) n by simp
    moreover have "unat (of_nat i :: u64) = i" using that unat_u32_bound [of k] by (simp add: unat_of_nat)
    ultimately show ?thesis unfolding sample_frame_def node_first_def [symmetric] by (simp add: unat_word_ariths)
  qed
  show "distinct (map (sample_frame n) [0..<unat k])"
    using s by (auto simp: distinct_map inj_on_def) (metis add_left_cancel)
  show "set (map (sample_frame n) [0..<unat k]) = chunk_frames n k"
  proof (intro set_eqI iffI)
    fix f assume "f \<in> set (map (sample_frame n) [0..<unat k])"
    then obtain i where "i < unat k" "f = sample_frame n i" by auto
    then show "f \<in> chunk_frames n k" using s c(3) by (simp add: chunk_frames_def word_le_nat_alt word_less_nat_alt)
  next
    fix f assume "f \<in> chunk_frames n k"
    then have b: "unat (node_first n) \<le> unat f" "unat f < unat (node_first n) + unat k"
      using c(3) by (simp_all add: chunk_frames_def word_le_nat_alt word_less_nat_alt)
    then have "unat (sample_frame n (unat f - unat (node_first n))) = unat f" using s by simp
    then have "sample_frame n (unat f - unat (node_first n)) = f" by (simp add: word_eq_iff_unsigned [where 'a = nat])
    then show "f \<in> set (map (sample_frame n) [0..<unat k])"
      using b by (auto intro!: image_eqI [of _ _ "unat f - unat (node_first n)"])
  qed
qed

lemma pending_advanced:
  assumes "node_ok n" "k \<le> pn_frame_count n - pn_processed_frames n"
  shows "pending_frames (advanced n k) = pending_frames n - chunk_frames n k" "chunk_frames n k \<subseteq> pending_frames n"
    "node_frames (advanced n k) = node_frames n"
    "pn_processed_frames (advanced n k) \<noteq> pn_frame_count (advanced n k) \<Longrightarrow> node_ok (advanced n k)"
    "pn_processed_frames (advanced n k) = pn_frame_count (advanced n k) \<Longrightarrow> pending_frames (advanced n k) = {}"
proof -
  note n = node_ok_unat [OF assms(1)] and c = chunk_unat [OF assms]
  have e: "node_end (advanced n k) = node_end n" by (simp add: node_end_def advanced_def)
  show "pending_frames (advanced n k) = pending_frames n - chunk_frames n k" "chunk_frames n k \<subseteq> pending_frames n"
    using n(1-3) c by (auto simp: pending_node chunk_frames_def e word_le_nat_alt word_less_nat_alt)
  show "node_frames (advanced n k) = node_frames n" by (simp add: node_frames_def advanced_def)
  show "node_ok (advanced n k)" if "pn_processed_frames (advanced n k) \<noteq> pn_frame_count (advanced n k)"
  proof -
    have "unat (pn_processed_frames n + k) \<noteq> unat (pn_frame_count n)"
      using that by (simp add: advanced_def word_eq_iff_unsigned [where 'a = nat])
    then have "pn_processed_frames n + k < pn_frame_count n" using c(1,2) by (simp add: word_less_nat_alt)
    then show ?thesis using assms(1) by (simp add: node_ok_def advanced_def)
  qed
  show "pending_frames (advanced n k) = {}" if "pn_processed_frames (advanced n k) = pn_frame_count (advanced n k)"
    using that by (simp add: pending_node node_first_def node_end_def)
qed

lemma pending_simps [simp]:
  "pending [] = {}" "pending (n # ns) = pending_frames n \<union> pending ns" "pending (ns @ ms) = pending ns \<union> pending ms"
  by (auto simp: pending_def)

lemma queue_split:
  assumes "i < length q" "sorted_wrt (\<lambda>m n. node_frames m \<inter> node_frames n = {}) q" "\<forall>n\<in>set q. node_ok n"
  obtains xs ys where "q = xs @ q ! i # ys" "xs = take i q" "ys = drop (Suc i) q"
    "(pending xs \<union> pending ys) \<inter> pending_frames (q ! i) = {}"
proof -
  have q: "q = take i q @ q ! i # drop (Suc i) q" by (rule id_take_nth_drop [OF assms(1)])
  have dis: "node_frames m \<inter> node_frames (q ! i) = {}" if "m \<in> set (take i q) \<union> set (drop (Suc i) q)" for m
  proof -
    have "sorted_wrt (\<lambda>m n. node_frames m \<inter> node_frames n = {}) (take i q @ q ! i # drop (Suc i) q)"
      using assms(2) q by metis
    then show ?thesis using that by (auto simp: sorted_wrt_append)
  qed
  have "pending_frames m \<inter> pending_frames (q ! i) = {}" if "m \<in> set (take i q) \<union> set (drop (Suc i) q)" for m
  proof -
    have "m \<in> set q" using that by (auto dest: in_set_takeD in_set_dropD)
    then show ?thesis using dis [OF that] pending_in_node [of m] pending_in_node [of "q ! i"] assms(1,3) by fastforce
  qed
  then have "(pending (take i q) \<union> pending (drop (Suc i) q)) \<inter> pending_frames (q ! i) = {}"
    unfolding pending_def by blast
  then show ?thesis using that q by blast
qed

definition without :: "nat \<Rightarrow> 'a list \<Rightarrow> 'a list" where
  "without i xs = take i xs @ drop (i + 1) xs"

lemma intake_advanced:
  assumes ok: "intake_ok st" and i: "i < length (in_queue st)"
    and k: "k \<le> pn_frame_count (in_queue st ! i) - pn_processed_frames (in_queue st ! i)"
  defines "n' \<equiv> advanced (in_queue st ! i) k"
  shows "pending ((in_queue st)[i := n']) = pending (in_queue st) - chunk_frames (in_queue st ! i) k"
    "chunk_frames (in_queue st ! i) k \<subseteq> pending (in_queue st)"
    "pn_processed_frames n' \<noteq> pn_frame_count n' \<Longrightarrow> intake_ok (st\<lparr>in_queue := (in_queue st)[i := n']\<rparr>)"
    "pn_processed_frames n' = pn_frame_count n' \<Longrightarrow>
       pending (without i (in_queue st)) = pending (in_queue st) - chunk_frames (in_queue st ! i) k \<and>
       intake_ok (st\<lparr>in_queue := without i (in_queue st),
         in_queued_frames := in_queued_frames st - ucast (pn_frame_count n')\<rparr>)"
proof -
  let ?q = "in_queue st" and ?n = "in_queue st ! i"
  have st: "ranges_ok (in_ranges st)" "capacity_ok (in_range_capacity st)"
    "length (in_ranges st) \<le> unat (in_range_capacity st)" "apta_refresh_accepted_ends st = st"
    "sorted_wrt (\<lambda>m n. node_frames m \<inter> node_frames n = {}) ?q" "\<forall>n\<in>set ?q. node_frames n \<subseteq> covered (in_ranges st)"
    "\<forall>n\<in>set ?q. node_ok n" "in_queued_frames st = sum_list (map (ucast \<circ> pn_frame_count) ?q)"
    using ok by (simp_all add: intake_ok_def)
  obtain xs ys where s: "?q = xs @ ?n # ys" "xs = take i ?q" "ys = drop (Suc i) ?q"
    "(pending xs \<union> pending ys) \<inter> pending_frames ?n = {}" using queue_split [OF i st(5,7)] by blast
  have nok: "node_ok ?n" using st(7) i by simp
  note a = pending_advanced [OF nok k, folded n'_def]
  have upd: "?q[i := n'] = xs @ n' # ys" "without i ?q = xs @ ys"
    using s(2,3) by (simp_all add: upd_conv_take_nth_drop [OF i] without_def)
  have pq: "pending ?q = pending xs \<union> pending_frames ?n \<union> pending ys" by (subst s(1)) auto
  show "pending (?q[i := n']) = pending ?q - chunk_frames ?n k"
    unfolding upd pq using a(1,2) s(4) by auto
  show "chunk_frames ?n k \<subseteq> pending ?q" unfolding pq using a(2) by auto
  have w: "sorted_wrt (\<lambda>m n. node_frames m \<inter> node_frames n = {}) (xs @ ?n # ys)" using st(5) s(1) by metis
  have mem: "set ?q = set xs \<union> {?n} \<union> set ys" by (subst s(1)) auto
  have sums: "sum_list (map (ucast \<circ> pn_frame_count) ?q) = (sum_list (map (ucast \<circ> pn_frame_count) (xs @ n' # ys)) :: u64)"
    by (subst s(1)) (simp add: n'_def advanced_def)
  show "intake_ok (st\<lparr>in_queue := ?q[i := n']\<rparr>)" if "pn_processed_frames n' \<noteq> pn_frame_count n'"
    unfolding upd(1) using st(1-4,6-8) w a(3) a(4) [OF that] mem sums
    by (simp add: intake_ok_def sorted_wrt_append)
  show "pending (without i ?q) = pending ?q - chunk_frames ?n k \<and>
       intake_ok (st\<lparr>in_queue := without i ?q, in_queued_frames := in_queued_frames st - ucast (pn_frame_count n')\<rparr>)"
    if "pn_processed_frames n' = pn_frame_count n'"
  proof
    have "pending_frames ?n = chunk_frames ?n k" using a(1,2) a(5) [OF that] by auto
    then show "pending (without i ?q) = pending ?q - chunk_frames ?n k" unfolding upd pq using s(4) by auto
    show "intake_ok (st\<lparr>in_queue := without i ?q, in_queued_frames := in_queued_frames st - ucast (pn_frame_count n')\<rparr>)"
      unfolding upd(2) using st(1-4,6-8) w mem sums by (simp add: intake_ok_def sorted_wrt_append)
  qed
qed

section \<open>A chunk keeps the store exact\<close>

lemma fold_tally_complete:
  "fold tally cs t c = Some a \<Longrightarrow> ac_complete a \<Longrightarrow> \<exists>a0. t c = Some a0 \<and> ac_complete a0"
proof (induction cs arbitrary: t)
  case (Cons d cs)
  obtain a1 where "tally d t c = Some a1" "ac_complete a1" using Cons by auto
  then show ?case by (auto simp: tally_def touch_def split: if_splits option.splits)
qed simp

lemma intake_pending_accepted: "intake_ok (se_intake se) \<Longrightarrow> pending (queue se) \<subseteq> accepted_frames se"
  using pending_in_node by (fastforce simp: intake_ok_def pending_def queue_def accepted_frames_def)

lemma chunk_exact:
  assumes ok: "intake_ok (se_intake se)" and i: "i < length (queue se)"
    and k: "k \<le> pn_frame_count (queue se ! i) - pn_processed_frames (queue se ! i)"
    and ex: "overview_exact se" and sh: "overview_shape se"
    and sp: "samples_spec C (map (\<lambda>j. ucast (column64 se (sample_frame (queue se ! i) j))) [0..<unat k]) se se1"
    and cols: "\<forall>j\<in>set [0..<unat k]. column64 se (sample_frame (queue se ! i) j) \<le> ucast UINT32_MAX"
  shows "overview_exact (advance_node se1 i k)"
    "processed_frames (advance_node se1 i k) = processed_frames se \<union> chunk_frames (queue se ! i) k"
proof -
  let ?n = "queue se ! i" and ?P = "processed_frames se" and ?se2 = "advance_node se1 i k"
  let ?fpc = "se_overview_frames_per_column se"
  have step: "store_step se se1" using sp by (simp add: samples_spec_def)
  note view = store_step_view [OF step]
  have q1: "queue se1 = queue se" using view(7) by (simp add: queue_def)
  have nok: "node_ok ?n" using ok i by (simp add: intake_ok_def queue_def)
  have q2: "queue ?se2 = (queue se)[i := advanced ?n k]" by (simp add: advance_node_def q1 advanced_def)
  have adv: "accepted_frames ?se2 = accepted_frames se" "se_overview ?se2 = se_overview se1"
    "se_overview_frames_per_column ?se2 = ?fpc" "column_frames ?se2 = column_frames se"
    using view(2,3,5) by (simp_all add: advance_node_def with_queue_def accepted_frames_def column_frames_def same_life_def fun_eq_iff)
  note pd = intake_advanced(1,2) [OF ok, of i k, folded queue_def, OF i k]
  have sub: "chunk_frames ?n k \<subseteq> accepted_frames se" using pd(2) intake_pending_accepted [OF ok] by blast
  show P: "processed_frames ?se2 = ?P \<union> chunk_frames ?n k"
    using sub pd by (auto simp: processed_frames_def adv(1) queue_def [symmetric] q2)
  have dis: "chunk_frames ?n k \<inter> ?P = {}" using pd(2) by (auto simp: processed_frames_def queue_def [symmetric])
  note fr = sample_frames [OF nok k]
  have fpc: "?fpc \<noteq> 0" using sh by (simp add: overview_shape_def Let_def)
  have t0: "tallies ?fpc (overview_table se) ?P" using ex by (simp add: overview_exact_def)
  have "tallies ?fpc (fold tally (map (\<lambda>f. ucast (f div ucast ?fpc)) (map (sample_frame ?n) [0..<unat k])) (overview_table se))
     (?P \<union> set (map (sample_frame ?n) [0..<unat k]))"
  proof (rule tally_list_exact [OF t0 fr(1) _ _ fpc])
    show "set (map (sample_frame ?n) [0..<unat k]) \<inter> ?P = {}" unfolding fr(2) by (rule dis)
    show "\<forall>f\<in>set (map (sample_frame ?n) [0..<unat k]). f div ucast ?fpc \<le> ucast UINT32_MAX"
      using cols by (auto simp: column64_def)
  qed
  then have "tallies ?fpc (overview_table se1) (?P \<union> chunk_frames ?n k)"
    using sp unfolding fr(2) by (simp add: samples_spec_def comp_def column64_def)
  then have t: "tallies ?fpc (overview_table ?se2) (processed_frames ?se2)"
    by (simp add: P overview_table_def accumulators_def adv(2))
  have shape1: "overview_shape se1" using sp by (simp add: samples_spec_def)
  have "column_frames se (ac_column_index a) \<subseteq> ?P" if a: "a \<in> set (accumulators se1)" "ac_complete a" for a
  proof -
    have "overview_table se1 (ac_column_index a) = Some a" by (rule overview_table_mem [OF shape1 a(1)])
    then obtain a0 where a0: "overview_table se (ac_column_index a) = Some a0" "ac_complete a0"
      using fold_tally_complete a(2) sp by (fastforce simp: samples_spec_def)
    then have m: "a0 \<in> set (accumulators se)" "ac_column_index a0 = ac_column_index a"
      by (auto simp: overview_table_def dest!: column_table_Some)
    have "\<forall>a\<in>set (accumulators se). ac_complete a \<longrightarrow> column_frames se (ac_column_index a) \<subseteq> ?P"
      using ex by (simp add: overview_exact_def)
    from bspec [OF this m(1)] show ?thesis using a0(2) m(2) by simp
  qed
  then have c: "\<forall>a\<in>set (accumulators ?se2). ac_complete a \<longrightarrow> column_frames ?se2 (ac_column_index a) \<subseteq> processed_frames ?se2"
    unfolding P adv(4) by (auto simp: accumulators_def adv(2))
  have "unat (ov_complete_count (se_overview ?se2)) = completed ?se2"
    using sp ex by (simp add: samples_spec_def overview_exact_def adv(2)) (simp add: completed_def accumulators_def adv(2))
  then show "overview_exact ?se2" using t c by (simp add: overview_exact_def adv(3))
qed

section \<open>The invariant of the loop\<close>

definition loop_ok :: "u32 set \<Rightarrow> apta_session \<Rightarrow> bool" where
  "loop_ok C se \<longleftrightarrow> overview_shape se \<and> room C se \<and> within_final se \<and> intake_ok (se_intake se) \<and>
     (\<forall>f\<in>pending (queue se). ucast (column64 se f) \<in> C) \<and>
     (uses_workspace se \<longrightarrow> (\<forall>f\<in>pending (queue se). column64 se f \<le> ucast UINT32_MAX))"

text \<open>What the loop may change: the intake without its ranges, the store, the sample data, the clock's count.\<close>

definition processed_only :: "apta_session \<Rightarrow> apta_session \<Rightarrow> bool" where
  "processed_only se se' \<longleftrightarrow>
     (\<exists>st ov x n. se' = se\<lparr>se_intake := st, se_overview := ov, se_signal := x, se_clock_reads := n\<rparr> \<and>
        memory_moved (in_memory (se_intake se)) (in_memory st) \<and> in_ranges st = in_ranges (se_intake se))"

lemma processed_onlyI:
  "se' = se\<lparr>se_intake := st, se_overview := ov, se_signal := x, se_clock_reads := n\<rparr> \<Longrightarrow>
   memory_moved (in_memory (se_intake se)) (in_memory st) \<Longrightarrow> in_ranges st = in_ranges (se_intake se) \<Longrightarrow> processed_only se se'"
  unfolding processed_only_def by blast

lemma processed_only_refl [simp]: "processed_only se se"
  by (rule processed_onlyI [where st = "se_intake se" and ov = "se_overview se" and x = "se_signal se" and n = "se_clock_reads se"]) simp_all

lemma processed_only_trans: "processed_only a b \<Longrightarrow> processed_only b c \<Longrightarrow> processed_only a c"
proof -
  assume "processed_only a b" "processed_only b c"
  then obtain st ov x n st' ov' x' n' where
    b: "b = a\<lparr>se_intake := st, se_overview := ov, se_signal := x, se_clock_reads := n\<rparr>"
      "memory_moved (in_memory (se_intake a)) (in_memory st)" "in_ranges st = in_ranges (se_intake a)" and
    c: "c = b\<lparr>se_intake := st', se_overview := ov', se_signal := x', se_clock_reads := n'\<rparr>"
      "memory_moved (in_memory (se_intake b)) (in_memory st')" "in_ranges st' = in_ranges (se_intake b)"
    unfolding processed_only_def by blast
  show ?thesis
  proof (rule processed_onlyI)
    show "c = a\<lparr>se_intake := st', se_overview := ov', se_signal := x', se_clock_reads := n'\<rparr>" by (simp add: b(1) c(1))
    show "memory_moved (in_memory (se_intake a)) (in_memory st')"
      using memory_moved_trans [OF b(2)] c(2) by (simp add: b(1))
    show "in_ranges st' = in_ranges (se_intake a)" using b(3) c(3) by (simp add: b(1))
  qed
qed

lemma processed_only_view:
  assumes "processed_only se se'"
  shows "same_life se se'" "se_requests se' = se_requests se" "se_focus se' = se_focus se" "se_has_focus se' = se_has_focus se"
    "se_detail se' = se_detail se" "accepted_frames se' = accepted_frames se" "column64 se' = column64 se"
    "column_frames se' = column_frames se" "within_final se' = within_final se"
    "results_ok sizes se \<Longrightarrow> results_ok sizes se'" "in_ranges (se_intake se') = in_ranges (se_intake se)"
proof -
  obtain st ov x n where e: "se' = se\<lparr>se_intake := st, se_overview := ov, se_signal := x, se_clock_reads := n\<rparr>"
    and m: "memory_moved (in_memory (se_intake se)) (in_memory st)" "in_ranges st = in_ranges (se_intake se)"
    using assms unfolding processed_only_def by blast
  show "same_life se se'" "se_requests se' = se_requests se" "se_focus se' = se_focus se" "se_has_focus se' = se_has_focus se"
    "se_detail se' = se_detail se" "accepted_frames se' = accepted_frames se" "column64 se' = column64 se"
    "column_frames se' = column_frames se" "within_final se' = within_final se" "in_ranges (se_intake se') = in_ranges (se_intake se)"
    using m by (simp_all add: e same_life_def uses_workspace_def se_memory_def memory_moved_def accepted_frames_def
        column64_def column_frames_def within_final_def fun_eq_iff)
  show "results_ok sizes se'" if "results_ok sizes se"
    by (rule results_ok_moved [OF that]) (use m in \<open>simp_all add: e se_memory_def\<close>)
qed

lemma store_step_only: "store_step se se' \<Longrightarrow> processed_only se se'"
proof -
  assume "store_step se se'"
  then obtain ov x sm where "se' = with_memory (se\<lparr>se_overview := ov, se_signal := x\<rparr>) sm" "memory_moved (se_memory se) sm"
    by (auto simp: store_step_def)
  then show ?thesis
    by (intro processed_onlyI [where st = "(se_intake se)\<lparr>in_memory := sm\<rparr>" and ov = ov and x = x and n = "se_clock_reads se"])
      (simp_all add: with_memory_def se_memory_def)
qed

lemma advance_only: "processed_only se (advance_node se i k)"
  by (rule processed_onlyI [where st = "(se_intake se)\<lparr>in_queue := (queue se)[i := (queue se ! i)
        \<lparr>pn_processed_frames := pn_processed_frames (queue se ! i) + k\<rparr>]\<rparr>"
      and ov = "se_overview se" and x = "se_signal se" and n = "se_clock_reads se"])
    (simp_all add: advance_node_def with_queue_def)

lemma remove_only: "processed_only se (apta_remove_pcm_node se i)"
  by (rule processed_onlyI [where st = "se_intake (apta_remove_pcm_node se i)" and ov = "se_overview se" and x = "se_signal se" and n = "se_clock_reads se"])
    (simp_all add: apta_remove_pcm_node_def Let_def session_deallocate_moved)

lemma finish_only: "processed_only se (finish_chunk se i k)"
proof -
  note a = processed_only_trans [OF advance_only [of se i k] store_step_only [OF refresh_step]]
  show ?thesis using a processed_only_trans [OF a remove_only] by (simp add: finish_chunk_def Let_def)
qed

lemma deadline_only: "processed_only se (snd (deadline_passed eg se))"
proof -
  have "processed_only se (se\<lparr>se_clock_reads := n\<rparr>)" for n
    by (rule processed_onlyI [where st = "se_intake se" and ov = "se_overview se" and x = "se_signal se" and n = n]) simp_all
  then show ?thesis by (simp add: deadline_passed_def read_clock_def split: option.split)
qed

lemma deadline_fields:
  "se_overview (snd (deadline_passed eg se)) = se_overview se" "se_intake (snd (deadline_passed eg se)) = se_intake se"
  "se_process_deadline_ns se = 0 \<Longrightarrow> \<not> fst (deadline_passed eg se)"
  by (simp_all add: deadline_passed_def read_clock_def split: option.split)

text \<open>Two sessions with the same overview, frames and memory kind.\<close>

lemma overview_cong:
  assumes "se_overview se' = se_overview se" "same_life se se'"
  shows "overview_shape se' = overview_shape se" "room C se' = room C se" "accumulators se' = accumulators se"
    "processed_frames se' = processed_frames se \<Longrightarrow> overview_exact se' = overview_exact se"
  using assms
  by (simp_all add: overview_shape_def room_def overview_table_def accumulators_def same_life_def overview_exact_def
      completed_def column_frames_def)

section \<open>One round\<close>

text \<open>Every column all of whose frames are there is marked.\<close>

definition marked :: "apta_session \<Rightarrow> bool" where
  "marked se \<longleftrightarrow> (\<forall>a\<in>set (accumulators se). column_frames se (ac_column_index a) \<noteq> {} \<longrightarrow>
     (ac_complete a \<longleftrightarrow> column_frames se (ac_column_index a) \<subseteq> processed_frames se))"

lemma advance_fields [simp]:
  "se_overview (advance_node se i k) = se_overview se" "queue (advance_node se i k) = (queue se)[i := advanced (queue se ! i) k]"
  "uses_workspace (advance_node se i k) = uses_workspace se"
  by (simp_all add: advance_node_def with_queue_def advanced_def uses_workspace_def se_memory_def queue_def)

lemma refresh_intake: "se_intake (apta_refresh_completed_columns se) = se_intake se"
  by (simp add: apta_refresh_completed_columns_def Let_def)

lemma remove_overview: "se_overview (apta_remove_pcm_node se i) = se_overview se"
  by (simp add: apta_remove_pcm_node_def Let_def)

lemma queue_remove: "queue (apta_remove_pcm_node se i) = without i (queue se)"
  by (simp add: apta_remove_pcm_node_def Let_def without_def) (simp add: queue_def)

lemma finish_intake:
  assumes ok: "intake_ok (se_intake se)" and i: "i < length (queue se)"
    and k: "k \<le> pn_frame_count (queue se ! i) - pn_processed_frames (queue se ! i)"
  shows "intake_ok (se_intake (finish_chunk se i k))"
    "pending (queue (finish_chunk se i k)) = pending (queue se) - chunk_frames (queue se ! i) k"
    "pending (queue (advance_node se i k)) = pending (queue se) - chunk_frames (queue se ! i) k"
    "chunk_frames (queue se ! i) k \<subseteq> pending (queue se)"
proof -
  let ?n' = "advanced (queue se ! i) k"
  note a = intake_advanced [OF ok, of i k, folded queue_def, OF i k]
  show "chunk_frames (queue se ! i) k \<subseteq> pending (queue se)" by (rule a(2))
  show "pending (queue (advance_node se i k)) = pending (queue se) - chunk_frames (queue se ! i) k" using a(1) by simp
  let ?se1 = "apta_refresh_completed_columns (advance_node se i k)"
  have q1: "queue ?se1 = (queue se)[i := ?n']" "queue ?se1 ! i = ?n'" using i by simp_all
  have in1: "se_intake ?se1 = (se_intake se)\<lparr>in_queue := (queue se)[i := ?n']\<rparr>"
    by (simp add: refresh_intake) (simp add: advance_node_def with_queue_def advanced_def)
  have "intake_ok (se_intake (finish_chunk se i k)) \<and>
      pending (queue (finish_chunk se i k)) = pending (queue se) - chunk_frames (queue se ! i) k"
  proof (cases "pn_processed_frames ?n' = pn_frame_count ?n'")
    case True
    then have f: "finish_chunk se i k = apta_remove_pcm_node ?se1 i" using q1 by (simp add: finish_chunk_def Let_def)
    have w: "without i ((queue se)[i := ?n']) = without i (queue se)" by (simp add: without_def)
    have "se_intake (finish_chunk se i k) = (se_intake se)\<lparr>in_queue := without i (queue se),
        in_queued_frames := in_queued_frames (se_intake se) - ucast (pn_frame_count ?n')\<rparr>
        \<lparr>in_memory := in_memory (se_intake (finish_chunk se i k))\<rparr>"
      unfolding f using i by (simp add: apta_remove_pcm_node_def Let_def q1(1) in1 w [unfolded without_def] without_def)
    then have "intake_ok (se_intake (finish_chunk se i k))" using a(4) [OF True] intake_ok_memory by metis
    then show ?thesis using a(4) [OF True] f by (simp add: queue_remove w)
  next
    case False
    then have f: "finish_chunk se i k = ?se1" using q1 by (simp add: finish_chunk_def Let_def)
    show ?thesis using a(1) a(3) [OF False] unfolding f in1 q1(1) by simp
  qed
  then show "intake_ok (se_intake (finish_chunk se i k))"
    "pending (queue (finish_chunk se i k)) = pending (queue se) - chunk_frames (queue se ! i) k" by simp_all
qed

lemma finish_frames:
  assumes "intake_ok (se_intake se)" "i < length (queue se)"
    "k \<le> pn_frame_count (queue se ! i) - pn_processed_frames (queue se ! i)"
  shows "processed_frames (finish_chunk se i k) = processed_frames (advance_node se i k)"
    "processed_frames (finish_chunk se i k) = processed_frames se \<union> chunk_frames (queue se ! i) k"
proof -
  note f = finish_intake [OF assms]
  have acc: "accepted_frames (finish_chunk se i k) = accepted_frames se" "accepted_frames (advance_node se i k) = accepted_frames se"
    using processed_only_view(6) [OF finish_only] processed_only_view(6) [OF advance_only] by simp_all
  show "processed_frames (finish_chunk se i k) = processed_frames (advance_node se i k)"
    using f(2,3) by (simp add: processed_frames_def acc queue_def [symmetric])
  have "chunk_frames (queue se ! i) k \<subseteq> accepted_frames se" using f(4) intake_pending_accepted [OF assms(1)] by blast
  then show "processed_frames (finish_chunk se i k) = processed_frames se \<union> chunk_frames (queue se ! i) k"
    using f(2,4) by (auto simp: processed_frames_def acc queue_def [symmetric])
qed

lemma finish_overview: "se_overview (finish_chunk se i k) = se_overview (apta_refresh_completed_columns (advance_node se i k))"
  by (simp add: finish_chunk_def Let_def remove_overview)

lemma finish_exact:
  assumes "intake_ok (se_intake se)" "i < length (queue se)"
    "k \<le> pn_frame_count (queue se ! i) - pn_processed_frames (queue se ! i)"
    "overview_shape se" "within_final se" "overview_exact (advance_node se i k)"
  shows "overview_exact (finish_chunk se i k)" "marked (finish_chunk se i k)"
proof -
  let ?se1 = "apta_refresh_completed_columns (advance_node se i k)"
  note life = processed_only_view(1) [OF advance_only, of se i k]
  have sh: "overview_shape (advance_node se i k)" using overview_cong(1) [OF advance_fields(1) life] assms(4) by simp
  have wf: "within_final (advance_node se i k)" using processed_only_view(9) [OF advance_only] assms(5) by simp
  note r = refresh_exact [OF sh assms(6) wf]
  have l2: "same_life ?se1 (finish_chunk se i k)"
    using processed_only_view(1) [OF remove_only] by (simp add: finish_chunk_def Let_def)
  have P: "processed_frames (finish_chunk se i k) = processed_frames ?se1"
    using finish_frames(1) [OF assms(1-3)] store_step_view(1) [OF refresh_step] by simp
  note c = overview_cong [OF finish_overview l2]
  show "overview_exact (finish_chunk se i k)" using c(4) [OF P] r(1) by simp
  have "column_frames (finish_chunk se i k) = column_frames ?se1" using l2 by (simp add: column_frames_def same_life_def fun_eq_iff)
  then show "marked (finish_chunk se i k)" using r(2) by (simp add: marked_def c(3) P)
qed

lemma finish_ok:
  assumes "loop_ok C se" "i < length (queue se)"
    "k \<le> pn_frame_count (queue se ! i) - pn_processed_frames (queue se ! i)"
  shows "loop_ok C (finish_chunk se i k)"
proof -
  have ok: "intake_ok (se_intake se)" using assms(1) by (simp add: loop_ok_def)
  note f = finish_intake [OF ok assms(2,3)] and v = processed_only_view(1,7,9) [OF finish_only, of se i k]
  note life = processed_only_view(1) [OF advance_only, of se i k]
  let ?se1 = "apta_refresh_completed_columns (advance_node se i k)"
  have l2: "same_life ?se1 (finish_chunk se i k)"
    using processed_only_view(1) [OF remove_only] by (simp add: finish_chunk_def Let_def)
  have "overview_shape (finish_chunk se i k) = overview_shape se" "room C (finish_chunk se i k) = room C se"
    using overview_cong(1,2) [OF finish_overview l2] overview_cong(1,2) [OF advance_fields(1) life] by (simp_all add: refresh_shape)
  moreover have "uses_workspace (finish_chunk se i k) = uses_workspace se" using v(1) by (simp add: same_life_def)
  ultimately show ?thesis using assms(1) f(1,2) v(2,3) by (auto simp: loop_ok_def)
qed

section \<open>The loop\<close>

lemma card_chunk: "node_ok n \<Longrightarrow> k \<le> pn_frame_count n - pn_processed_frames n \<Longrightarrow> card (chunk_frames n k) = unat k"
  using distinct_card [OF sample_frames(1), of n k] sample_frames(2) [of n k] by simp

definition round_spec :: "u32 set \<Rightarrow> apta_session \<Rightarrow> apta_session \<Rightarrow> bool" where
  "round_spec C se se' \<longleftrightarrow> loop_ok C se' \<and> processed_only se se' \<and> processed_frames se \<subseteq> processed_frames se'"

lemma round_spec_trans: "round_spec C a b \<Longrightarrow> round_spec C b c \<Longrightarrow> round_spec C a c"
  unfolding round_spec_def using processed_only_trans [of a b c] by auto

lemma samples_round:
  assumes lok: "loop_ok C se" and i: "i < length (queue se)"
    and k: "k \<le> pn_frame_count (queue se ! i) - pn_processed_frames (queue se ! i)"
  obtains (ok) se1 where "apta_process_samples eg (queue se ! i) [0..<unat k] se = Ret (STATUS_OK, se1)"
      "round_spec C se (finish_chunk se1 i k)" "overview_exact se \<Longrightarrow> overview_exact (finish_chunk se1 i k) \<and> marked (finish_chunk se1 i k)"
      "card (processed_frames (finish_chunk se1 i k) - processed_frames se) = unat k"
  | (error) s se1 where "apta_process_samples eg (queue se ! i) [0..<unat k] se = Ret (s, se1)" "failed s"
      "\<not> uses_workspace se" "round_spec C se se1" "processed_frames se1 = processed_frames se"
proof -
  let ?n = "queue se ! i"
  have iok: "intake_ok (se_intake se)" and sh: "overview_shape se" "room C se" and wf: "within_final se"
    using lok by (simp_all add: loop_ok_def)
  have nok: "node_ok ?n" using iok i by (simp add: intake_ok_def queue_def)
  have sub: "chunk_frames ?n k \<subseteq> pending (queue se)" by (rule finish_intake(4) [OF iok i k])
  have cols: "ucast (column64 se (sample_frame ?n j)) \<in> C"
    "uses_workspace se \<Longrightarrow> column64 se (sample_frame ?n j) \<le> ucast UINT32_MAX" if "j \<in> set [0..<unat k]" for j
  proof -
    have "sample_frame ?n j \<in> pending (queue se)" using sub sample_frames(2) [OF nok k] that by auto
    then show "ucast (column64 se (sample_frame ?n j)) \<in> C"
      "uses_workspace se \<Longrightarrow> column64 se (sample_frame ?n j) \<le> ucast UINT32_MAX" using lok by (auto simp: loop_ok_def)
  qed
  obtain s m se1 where p: "apta_process_samples eg ?n [0..<unat k] se = Ret (s, se1)"
    "samples_spec C (map (\<lambda>i. ucast (column64 se (sample_frame ?n i))) (take m [0..<unat k])) se se1"
    "if s = STATUS_OK then m = length [0..<unat k] else failed s \<and> \<not> uses_workspace se"
    "s = STATUS_OK \<longrightarrow> (\<forall>i\<in>set [0..<unat k]. column64 se (sample_frame ?n i) \<le> ucast UINT32_MAX)"
    using process_samples_spec [OF sh, of "[0..<unat k]" ?n eg] cols by blast
  have step: "store_step se se1" and sh1: "overview_shape se1" "room C se1" using p(2) by (simp_all add: samples_spec_def)
  note v = store_step_view [OF step]
  have q1: "queue se1 = queue se" using v(7) by (simp add: queue_def)
  have iok1: "intake_ok (se_intake se1)"
  proof -
    obtain sm where "se_intake se1 = (se_intake se)\<lparr>in_memory := sm\<rparr>"
      using step by (auto simp: store_step_def with_memory_def)
    then show ?thesis using intake_ok_memory [OF iok] by simp
  qed
  have c64: "column64 se1 = column64 se" "uses_workspace se1 = uses_workspace se"
    using v(5) by (simp_all add: column64_def same_life_def fun_eq_iff)
  have ok1: "loop_ok C se1" using lok sh1 iok1 v(4) by (simp add: loop_ok_def q1 c64)
  have only1: "processed_only se se1" by (rule store_step_only [OF step])
  show ?thesis
  proof (cases "s = STATUS_OK")
    case False
    then show ?thesis using error [OF p(1)] p(3) ok1 only1 v(1) by (simp add: round_spec_def)
  next
    case True
    have i1: "i < length (queue se1)" "k \<le> pn_frame_count (queue se1 ! i) - pn_processed_frames (queue se1 ! i)"
      using i k by (simp_all add: q1)
    note P = finish_frames(2) [OF iok1 i1, unfolded q1 v(1)]
    have dis: "chunk_frames ?n k \<inter> processed_frames se = {}"
      using sub by (auto simp: processed_frames_def queue_def [symmetric])
    have "processed_frames (finish_chunk se1 i k) - processed_frames se = chunk_frames ?n k" using P dis by auto
    then have card: "card (processed_frames (finish_chunk se1 i k) - processed_frames se) = unat k"
      using card_chunk [OF nok k] by simp
    have sp: "samples_spec C (map (\<lambda>i. ucast (column64 se (sample_frame ?n i))) [0..<unat k]) se se1"
      using p(2,3) True by simp
    have colsok: "\<forall>i\<in>set [0..<unat k]. column64 se (sample_frame ?n i) \<le> ucast UINT32_MAX" using p(4) True by blast
    show ?thesis
    proof (rule ok)
      show "apta_process_samples eg ?n [0..<unat k] se = Ret (STATUS_OK, se1)" using p(1) True by simp
      show "round_spec C se (finish_chunk se1 i k)" unfolding round_spec_def
        using finish_ok [OF ok1 i1] processed_only_trans [OF only1 finish_only] P by auto
      show "overview_exact (finish_chunk se1 i k) \<and> marked (finish_chunk se1 i k)" if ex: "overview_exact se"
        using finish_exact [OF iok1 i1 sh1(1)] chunk_exact(1) [OF iok i k ex sh(1) sp colsok] wf v(4) by simp
      show "card (processed_frames (finish_chunk se1 i k) - processed_frames se) = unat k" by (rule card)
    qed
  qed
qed

lemma deadline_round:
  "round_spec C a se \<Longrightarrow> round_spec C a (snd (deadline_passed eg se))"
  "processed_frames (snd (deadline_passed eg se)) = processed_frames se"
  "overview_exact (snd (deadline_passed eg se)) = overview_exact se"
  "marked (snd (deadline_passed eg se)) = marked se"
  "se_process_deadline_ns (snd (deadline_passed eg se)) = se_process_deadline_ns se"
proof -
  let ?se' = "snd (deadline_passed eg se)"
  note v = processed_only_view(1,6-9) [OF deadline_only [of se eg]]
  note o = overview_cong [OF deadline_fields(1) v(1)]
  show P: "processed_frames ?se' = processed_frames se"
    using v(2) deadline_fields(2) [of eg se] by (simp add: processed_frames_def)
  show "overview_exact ?se' = overview_exact se" by (rule o(4) [OF P])
  show "marked ?se' = marked se" by (simp add: marked_def o(3) v(4) P)
  show "se_process_deadline_ns ?se' = se_process_deadline_ns se" using v(1) by (simp add: same_life_def)
  show "round_spec C a ?se'" if "round_spec C a se"
  proof -
    have "uses_workspace ?se' = uses_workspace se" using v(1) by (simp add: same_life_def)
    then have "loop_ok C ?se'" using that o(1,2) v(3,5) deadline_fields(2) [of eg se] deadline_queue [of eg se]
      by (simp add: round_spec_def loop_ok_def)
    then show ?thesis using that P processed_only_trans [OF _ deadline_only, of a se eg] by (simp add: round_spec_def)
  qed
qed

definition loop_spec ::
    "u32 set \<Rightarrow> u32 \<Rightarrow> u32 \<Rightarrow> u32 \<Rightarrow> bool \<Rightarrow> apta_session \<Rightarrow> apta_status \<times> u32 \<times> u32 \<times> bool \<times> apta_session \<Rightarrow> bool" where
  "loop_spec C fl sl consumed did_work se r \<longleftrightarrow> (case r of (s, c, st, did, se') \<Rightarrow>
     round_spec C se se' \<and> (failed s \<longrightarrow> \<not> uses_workspace se) \<and> c \<le> fl \<and>
     unat c = unat consumed + card (processed_frames se' - processed_frames se) \<and>
     (did \<longleftrightarrow> did_work \<or> c \<noteq> consumed) \<and>
     (\<not> failed s \<longrightarrow> (overview_exact se \<longrightarrow> overview_exact se') \<and> (overview_exact se \<and> marked se \<longrightarrow> marked se') \<and>
        (se_process_deadline_ns se = 0 \<longrightarrow> next_chunk fl sl c st se' = None)))"

lemma loop_spec_stop:
  assumes "loop_ok C se" "consumed \<le> fl" "failed s \<longrightarrow> \<not> uses_workspace se"
    "\<not> failed s \<and> se_process_deadline_ns se = 0 \<longrightarrow> next_chunk fl sl consumed steps se = None"
  shows "loop_spec C fl sl consumed did_work se (s, consumed, steps, did_work, se)"
  using assms by (simp add: loop_spec_def round_spec_def)

text \<open>A round in front of the rest of the loop.\<close>

lemma loop_spec_round:
  assumes a: "round_spec C se se1" "card (processed_frames se1 - processed_frames se) = unat k" "k \<noteq> 0"
    "k \<le> fl - consumed" "consumed < fl"
    "overview_exact se \<Longrightarrow> overview_exact se1 \<and> marked se1"
    and r: "loop_spec C fl sl (consumed + k) True se1 (s, c, st, did, se')"
  shows "loop_spec C fl sl consumed did_work se (s, c, st, did, se')"
proof -
  have only: "processed_only se se1" using a(1) by (simp add: round_spec_def)
  have life: "se_process_deadline_ns se1 = se_process_deadline_ns se" "uses_workspace se1 = uses_workspace se"
    using processed_only_view(1) [OF only] by (simp_all add: same_life_def)
  have sub: "processed_frames se \<subseteq> processed_frames se1" "processed_frames se1 \<subseteq> processed_frames se'"
    using a(1) r by (simp_all add: round_spec_def loop_spec_def)
  have "processed_frames se' - processed_frames se =
      (processed_frames se' - processed_frames se1) \<union> (processed_frames se1 - processed_frames se)" using sub by blast
  then have card: "card (processed_frames se' - processed_frames se) =
      card (processed_frames se' - processed_frames se1) + unat k"
    using a(2) card_Un_disjoint [of "processed_frames se' - processed_frames se1" "processed_frames se1 - processed_frames se"]
    by auto
  have "unat (fl - consumed) = unat fl - unat consumed" using a(5) by (simp add: unat_sub)
  then have le: "unat consumed + unat k \<le> unat fl" using a(4,5) by (simp add: word_le_nat_alt word_less_nat_alt)
  then have ck: "unat (consumed + k) = unat consumed + unat k"
    using unat_u32_bound [of fl] by (simp add: unat_word_ariths)
  have "0 < unat k" using a(3) by (simp add: unat_gt_0)
  have c: "unat c = unat consumed + unat k + card (processed_frames se' - processed_frames se1)"
    using r ck by (simp add: loop_spec_def)
  then have "c \<noteq> consumed" using \<open>0 < unat k\<close> by auto
  moreover have "did" using r by (simp add: loop_spec_def)
  ultimately show ?thesis
    using r c card life a(6) round_spec_trans [OF a(1), of se'] by (auto simp: loop_spec_def)
qed

lemma process_loop_spec:
  assumes "loop_ok C se" "consumed \<le> fl"
  shows "\<exists>r. process_loop eg fl sl consumed steps did_work se = Ret r \<and> loop_spec C fl sl consumed did_work se r"
  using assms
proof (induction "frames_left (queue se)" arbitrary: consumed steps did_work se rule: less_induct)
  case less
  show ?case
  proof (cases "next_chunk fl sl consumed steps se")
    case None
    then have "process_loop eg fl sl consumed steps did_work se = Ret (STATUS_OK, consumed, steps, did_work, se)"
      by (simp add: process_loop.simps)
    then show ?thesis using loop_spec_stop [OF less.prems, of STATUS_OK] None by auto
  next
    case (Some r)
    obtain i k where r: "r = (i, k)" by fastforce
    note nc = next_chunk_Some [OF Some [unfolded r]]
    have i: "i < length (queue se)" and k: "k = chunk_size (queue se ! i) (fl - consumed)" "k \<noteq> 0" "consumed < fl"
      using nc by blast+
    have kle: "k \<le> pn_frame_count (queue se ! i) - pn_processed_frames (queue se ! i)" "k \<le> fl - consumed"
      unfolding k(1) by (auto simp: chunk_size_def apta_min_u32_def)
    from less.prems(1) i kle(1) show ?thesis
    proof (rule samples_round [where eg = eg])
      fix s se1 assume e: "apta_process_samples eg (queue se ! i) [0..<unat k] se = Ret (s, se1)" "failed s"
        "\<not> uses_workspace se" "round_spec C se se1" "processed_frames se1 = processed_frames se"
      then have "process_loop eg fl sl consumed steps did_work se = Ret (s, consumed, steps, did_work, se1)"
        using Some r by (simp add: process_loop.simps)
      moreover have "loop_spec C fl sl consumed did_work se (s, consumed, steps, did_work, se1)"
        using e less.prems(2) by (simp add: loop_spec_def)
      ultimately show ?thesis by blast
    next
      fix se1 assume e: "apta_process_samples eg (queue se ! i) [0..<unat k] se = Ret (STATUS_OK, se1)"
        "round_spec C se (finish_chunk se1 i k)" "overview_exact se \<Longrightarrow> overview_exact (finish_chunk se1 i k) \<and> marked (finish_chunk se1 i k)"
        "card (processed_frames (finish_chunk se1 i k) - processed_frames se) = unat k"
      obtain passed se2 where d: "deadline_passed eg (finish_chunk se1 i k) = (passed, se2)" by fastforce
      note dr = deadline_round [where se = "finish_chunk se1 i k" and eg = eg, unfolded d snd_conv]
      have r2: "round_spec C se se2" "card (processed_frames se2 - processed_frames se) = unat k"
        "overview_exact se \<Longrightarrow> overview_exact se2 \<and> marked se2"
        using dr(1) [OF e(2)] dr(2-4) e(3,4) by simp_all
      have ok2: "loop_ok C se2" using r2(1) by (simp add: round_spec_def)
      have life: "se_process_deadline_ns (finish_chunk se1 i k) = se_process_deadline_ns se"
        using e(2) processed_only_view(1) by (auto simp: round_spec_def same_life_def)
      have "unat (fl - consumed) = unat fl - unat consumed" using k(3) by (simp add: unat_sub)
      then have "unat consumed + unat k \<le> unat fl" using kle(2) k(3) by (simp add: word_le_nat_alt word_less_nat_alt)
      then have ck: "consumed + k \<le> fl"
        using unat_u32_bound [of fl] by (simp add: word_le_nat_alt unat_word_ariths)
      note round = loop_spec_round [OF r2(1,2) k(2) kle(2) k(3) r2(3)]
      show ?thesis
      proof (cases passed)
        case True
        then have "se_process_deadline_ns se2 \<noteq> 0"
          using deadline_fields(3) [of "finish_chunk se1 i k" eg] d dr(5) by auto
        then have "loop_spec C fl sl (consumed + k) True se2 (STATUS_OK, consumed + k, steps + 1, True, se2)"
          by (intro loop_spec_stop [OF ok2 ck]) simp_all
        then show ?thesis using True Some r e(1) d round by (auto simp: process_loop.simps)
      next
        case False
        have run: "process_loop eg fl sl consumed steps did_work se =
            process_loop eg fl sl (consumed + k) (steps + 1) True se2"
          using False Some r e(1) d by (subst process_loop.simps) simp
        have q1: "queue se1 = queue se" using process_samples_queue [OF e(1)] .
        have "queue se2 = queue (finish_chunk se1 i k)" using deadline_queue [of eg "finish_chunk se1 i k"] by (simp add: d)
        moreover have "frames_left (queue (finish_chunk se1 i k)) < frames_left (queue se1)"
          by (rule finish_chunk_left [where allowed = "fl - consumed"]) (use i k q1 in simp_all)
        ultimately have "frames_left (queue se2) < frames_left (queue se)" using q1 by simp
        from less.hyps [OF this ok2 ck, of "steps + 1" True] obtain r' where
          "process_loop eg fl sl (consumed + k) (steps + 1) True se2 = Ret r'"
          "loop_spec C fl sl (consumed + k) True se2 r'" by blast
        then show ?thesis using run round by (cases r') auto
      qed
    qed
  qed
qed

text \<open>The loop stops for want of work only.\<close>

lemma select_some: "queue se \<noteq> [] \<Longrightarrow> \<exists>i. apta_select_pcm_node se = Some i"
proof -
  have "best_node f ns i (Some b) \<noteq> None" for f ns i b
    by (induction ns arbitrary: i b) (auto split: prod.splits)
  then show "queue se \<noteq> [] \<Longrightarrow> \<exists>i. apta_select_pcm_node se = Some i"
    by (cases "queue se") (auto simp: apta_select_pcm_node_def)
qed

lemma next_chunk_None:
  assumes "next_chunk fl sl consumed steps se = None" "intake_ok (se_intake se)"
  shows "queue se = [] \<or> fl \<le> consumed \<or> sl \<le> steps"
proof (rule ccontr)
  assume "\<not> ?thesis"
  then have w: "queue se \<noteq> []" "consumed < fl" "steps < sl" by (simp_all add: not_le)
  obtain i where i: "apta_select_pcm_node se = Some i" using select_some [OF w(1)] by blast
  have "node_ok (queue se ! i)" using assms(2) select_bound [OF i] by (simp add: intake_ok_def queue_def)
  then have "pn_frame_count (queue se ! i) - pn_processed_frames (queue se ! i) \<noteq> 0" by (auto simp: node_ok_def)
  moreover have "fl - consumed \<noteq> 0" using w(2) by auto
  ultimately have "chunk_size (queue se ! i) (fl - consumed) \<noteq> 0"
    by (simp add: chunk_size_def apta_min_u32_def PROCESS_CHUNK_FRAMES_def)
  then show False using assms(1) w i by (simp add: next_chunk_def Let_def)
qed

section \<open>Satisfied requests\<close>

text \<open>The frames of a range, up to the final frame once it is known.\<close>

definition range_frames :: "apta_session \<Rightarrow> u64 \<Rightarrow> u64 \<Rightarrow> u64 set" where
  "range_frames se first fin = {f \<in> {first ..< fin}. se_end_of_input_signalled se \<longrightarrow> f < se_final_end_frame se}"

lemma range_complete_processed:
  assumes sh: "overview_shape se" and ex: "overview_exact se" and rc: "apta_accumulator_range_complete se first fin"
  shows "range_frames se first fin \<subseteq> processed_frames se"
proof
  fix f assume f: "f \<in> range_frames se first fin"
  let ?d = "ucast (se_overview_frames_per_column se) :: u64"
  let ?as = "ov_accumulators (se_overview se)"
  have r: "(fin - 1) div ?d \<le> ucast UINT32_MAX" "walk_columns ?as (first div ?d) ((fin - 1) div ?d)"
    using rc by (simp_all add: apta_accumulator_range_complete_def Let_def)
  have fr: "first \<le> f" "f < fin" using f by (simp_all add: range_frames_def)
  have "fin \<noteq> 0" using fr(2) by auto
  then have "unat (fin - 1) = unat fin - 1" by (rule unat_minus_one)
  then have "f \<le> fin - 1" using fr(2) by (simp add: word_le_nat_alt word_less_nat_alt)
  then have col: "first div ?d \<le> f div ?d" "f div ?d \<le> (fin - 1) div ?d"
    using fr(1) by (simp_all add: word_le_nat_alt unat_div div_le_mono)
  have "store_sorted ?as" using sh by (simp add: overview_shape_def Let_def)
  from walk_columns_complete [OF this r(2,1) col] obtain a where
    a: "a \<in> set (accumulators se)" "ucast (ac_column_index a) = f div ?d" "ac_complete a" by (auto simp: accumulators_def)
  then have "f \<in> column_frames se (ac_column_index a)" using f by (simp add: column_frames_def range_frames_def)
  moreover have "column_frames se (ac_column_index a) \<subseteq> processed_frames se"
    using ex a(1,3) by (simp add: overview_exact_def)
  ultimately show "f \<in> processed_frames se" by blast
qed

lemma update_satisfied:
  assumes "overview_shape se" "overview_exact se" "rq_state (update_request_state se r) = REQUEST_SATISFIED"
  shows "rq_state r = REQUEST_SATISFIED \<or>
    range_frames se (rr_first_frame (rq_request r)) (rr_end_frame (rq_request r)) \<subseteq> processed_frames se"
  using assms(3) range_complete_processed [OF assms(1,2)]
  by (auto simp: update_request_state_def Let_def apta_consts split: if_splits)

section \<open>The invariant of the waveform step\<close>

definition work_ok :: "struct_sizes \<Rightarrow> apta_session \<Rightarrow> bool" where
  "work_ok sizes se \<longleftrightarrow> overview_shape se \<and> within_final se \<and> intake_ok (se_intake se) \<and> results_ok sizes se"

definition worked :: "struct_sizes \<Rightarrow> apta_session \<Rightarrow> apta_session \<Rightarrow> bool" where
  "worked sizes se se' \<longleftrightarrow> same_life se se' \<and> in_ranges (se_intake se') = in_ranges (se_intake se) \<and>
     work_ok sizes se' \<and> processed_frames se \<subseteq> processed_frames se'"

lemma worked_refl: "work_ok sizes se \<Longrightarrow> worked sizes se se"
  by (simp add: worked_def)

lemma worked_trans: "worked sizes a b \<Longrightarrow> worked sizes b c \<Longrightarrow> worked sizes a c"
  unfolding worked_def using same_life_trans [of a b c] by auto

text \<open>A change of anything but overview, queue, ranges and results.\<close>

lemma same_overview:
  assumes "same_life se se'" "se_overview se' = se_overview se"
    "se_intake se' = (se_intake se)\<lparr>in_memory := m\<rparr>" "results_ok sizes se \<Longrightarrow> results_ok sizes se'" "work_ok sizes se"
  shows "worked sizes se se'" "processed_frames se' = processed_frames se" "overview_exact se' = overview_exact se"
    "queue se' = queue se" "marked se' = marked se"
proof -
  have P: "processed_frames se' = processed_frames se" "accepted_frames se' = accepted_frames se"
    using assms(3) by (simp_all add: processed_frames_def accepted_frames_def)
  then show "processed_frames se' = processed_frames se" by simp
  note o = overview_cong [OF assms(2,1)]
  show "overview_exact se' = overview_exact se" by (rule o(4) [OF P(1)])
  show "queue se' = queue se" using assms(3) by (simp add: queue_def)
  have c: "column_frames se' = column_frames se" "within_final se' = within_final se"
    using assms(1) P(2) by (simp_all add: column_frames_def within_final_def same_life_def fun_eq_iff)
  show "marked se' = marked se" by (simp add: marked_def o(3) c P)
  have "intake_ok (se_intake se')" using intake_ok_memory [of "se_intake se" m] assms(3,5) by (simp add: work_ok_def)
  then show "worked sizes se se'"
    using assms(1,3-5) o(1) c(2) P(1) by (simp add: worked_def work_ok_def)
qed

lemma still_worked:
  assumes "still sizes se se'" "work_ok sizes se"
  shows "worked sizes se se'" "processed_frames se' = processed_frames se" "overview_exact se' = overview_exact se"
    "queue se' = queue se" "marked se' = marked se"
proof -
  have s: "same_life se se'" "se_overview se' = se_overview se" "se_intake se' = (se_intake se)\<lparr>in_memory := se_memory se'\<rparr>"
    "results_ok sizes se \<Longrightarrow> results_ok sizes se'" using assms(1) by (simp_all add: still_def)
  show "worked sizes se se'" "processed_frames se' = processed_frames se" "overview_exact se' = overview_exact se"
    "queue se' = queue se" "marked se' = marked se" using same_overview [OF s assms(2)] by simp_all
qed

text \<open>Taking the marks away leaves the store exact, but not marked.\<close>

lemma unmarked_overview:
  "accumulators (apta_pool_mark_overview_publication_pending se) = map (\<lambda>a. a\<lparr>ac_complete := False\<rparr>) (accumulators se)"
  "overview_table (apta_pool_mark_overview_publication_pending se) c =
     map_option (\<lambda>a. a\<lparr>ac_complete := False\<rparr>) (overview_table se c)"
  "overview_shape (apta_pool_mark_overview_publication_pending se) = overview_shape se"
proof -
  show a: "accumulators (apta_pool_mark_overview_publication_pending se) = map (\<lambda>a. a\<lparr>ac_complete := False\<rparr>) (accumulators se)"
    by (simp add: accumulators_def unmarked_def)
  show "overview_table (apta_pool_mark_overview_publication_pending se) c =
      map_option (\<lambda>a. a\<lparr>ac_complete := False\<rparr>) (overview_table se c)"
    by (simp add: overview_table_def a column_table_map)
  show "overview_shape (apta_pool_mark_overview_publication_pending se) = overview_shape se"
    using pending_fields(1) [of se] by (simp add: overview_shape_def Let_def unmarked_def store_sorted_map same_life_def)
qed

lemma pending_exact:
  assumes "overview_exact se"
  shows "overview_exact (apta_pool_mark_overview_publication_pending se)"
proof -
  let ?se = "apta_pool_mark_overview_publication_pending se"
  have P: "processed_frames ?se = processed_frames se" by (simp add: processed_frames_def accepted_frames_def)
  have "same_life se ?se" by simp
  then have fpc: "se_overview_frames_per_column ?se = se_overview_frames_per_column se" by (simp add: same_life_def)
  have "tallies (se_overview_frames_per_column se) (overview_table ?se) (processed_frames se)"
    using assms unfolding overview_exact_def tallies_def unmarked_overview by (simp cong: option.case_cong)
  then show ?thesis
    unfolding overview_exact_def fpc P by (simp add: unmarked_overview(1) completed_def filter_map comp_def) (simp add: unmarked_def)
qed

lemma pending_worked:
  assumes "work_ok sizes se"
  shows "worked sizes se (apta_pool_mark_overview_publication_pending se)"
    "processed_frames (apta_pool_mark_overview_publication_pending se) = processed_frames se"
    "overview_exact se \<Longrightarrow> overview_exact (apta_pool_mark_overview_publication_pending se)"
    "queue (apta_pool_mark_overview_publication_pending se) = queue se"
proof -
  let ?se = "apta_pool_mark_overview_publication_pending se"
  have P: "processed_frames ?se = processed_frames se" "accepted_frames ?se = accepted_frames se"
    by (simp_all add: processed_frames_def accepted_frames_def)
  then show "processed_frames ?se = processed_frames se" by simp
  have life: "same_life se ?se" by simp
  have "within_final ?se = within_final se" using life P(2) by (simp add: within_final_def same_life_def)
  then show "worked sizes se ?se"
    using assms P(1) by (simp add: worked_def work_ok_def unmarked_overview)
  show "overview_exact ?se" if "overview_exact se" using that by (rule pending_exact)
  show "queue ?se = queue se" by (simp add: queue_def)
qed

lemma published_worked:
  assumes "published_still sizes se se'" "work_ok sizes se"
  shows "worked sizes se se'" "processed_frames se' = processed_frames se" "overview_exact se \<Longrightarrow> overview_exact se'"
    "queue se' = queue se"
proof -
  have *: "worked sizes se se' \<and> processed_frames se' = processed_frames se \<and> (overview_exact se \<longrightarrow> overview_exact se') \<and>
      queue se' = queue se"
  proof (cases "still sizes se se'")
    case True
    then show ?thesis using still_worked [OF True assms(2)] by simp
  next
    case False
    then have st: "still sizes (apta_pool_mark_overview_publication_pending se) se'" using published_cases [OF assms(1)] by simp
    note p = pending_worked [OF assms(2)]
    have "work_ok sizes (apta_pool_mark_overview_publication_pending se)" using p(1) by (simp add: worked_def)
    note w = still_worked [OF st this]
    show ?thesis using worked_trans [OF p(1) w(1)] p(2-4) w(2-4) by simp
  qed
  then show "worked sizes se se'" "processed_frames se' = processed_frames se" "overview_exact se \<Longrightarrow> overview_exact se'"
    "queue se' = queue se" by simp_all
qed

lemma requests_worked:
  assumes "work_ok sizes se"
  shows "worked sizes se (se\<lparr>se_requests := rs\<rparr>)" "processed_frames (se\<lparr>se_requests := rs\<rparr>) = processed_frames se"
    "overview_exact (se\<lparr>se_requests := rs\<rparr>) = overview_exact se" "queue (se\<lparr>se_requests := rs\<rparr>) = queue se"
    "marked (se\<lparr>se_requests := rs\<rparr>) = marked se"
proof -
  have s: "same_life se (se\<lparr>se_requests := rs\<rparr>)" "se_overview (se\<lparr>se_requests := rs\<rparr>) = se_overview se"
    "se_intake (se\<lparr>se_requests := rs\<rparr>) = (se_intake se)\<lparr>in_memory := in_memory (se_intake se)\<rparr>"
    by (simp_all add: same_life_def uses_workspace_def se_memory_def)
  have r: "results_ok sizes se \<Longrightarrow> results_ok sizes (se\<lparr>se_requests := rs\<rparr>)"
    by (rule results_ok_moved [of sizes se]) simp_all
  show "worked sizes se (se\<lparr>se_requests := rs\<rparr>)" "processed_frames (se\<lparr>se_requests := rs\<rparr>) = processed_frames se"
    "overview_exact (se\<lparr>se_requests := rs\<rparr>) = overview_exact se" "queue (se\<lparr>se_requests := rs\<rparr>) = queue se"
    "marked (se\<lparr>se_requests := rs\<rparr>) = marked se"
    using same_overview [OF s r assms] by simp_all
qed

lemma round_worked:
  assumes "round_spec C se se'" "work_ok sizes se"
  shows "worked sizes se se'"
proof -
  have o: "processed_only se se'" using assms(1) by (simp add: round_spec_def)
  note v = processed_only_view(1,11) [OF o]
  have "results_ok sizes se'" using processed_only_view(10) [OF o] assms(2) by (simp add: work_ok_def)
  then show ?thesis using v assms by (simp add: worked_def work_ok_def round_spec_def loop_ok_def)
qed

section \<open>The innermost layer\<close>

text \<open>Requests for the overview that count as satisfied have all their frames processed.\<close>

definition request_true :: "apta_session \<Rightarrow> internal_request \<Rightarrow> bool" where
  "request_true se r \<longleftrightarrow>
     (rq_state r = REQUEST_SATISFIED \<and> rr_feature_mask (rq_request r) AND FEATURE_WAVEFORM_OVERVIEW \<noteq> 0 \<longrightarrow>
        range_frames se (rr_first_frame (rq_request r)) (rr_end_frame (rq_request r)) \<subseteq> processed_frames se)"

definition requests_true :: "apta_session \<Rightarrow> bool" where
  "requests_true se \<longleftrightarrow> (\<forall>r\<in>set (se_requests se). request_true se r)"

text \<open>A step of the table: the requests are the same, and what becomes satisfied has been processed.\<close>

definition request_step :: "apta_session \<Rightarrow> internal_request \<Rightarrow> internal_request \<Rightarrow> bool" where
  "request_step se r r' \<longleftrightarrow> rq_request r' = rq_request r \<and> rq_request_id r' = rq_request_id r \<and>
     (rq_state r' = REQUEST_SATISFIED \<and> rr_feature_mask (rq_request r) AND FEATURE_WAVEFORM_OVERVIEW \<noteq> 0 \<longrightarrow>
        rq_state r = REQUEST_SATISFIED \<or>
        range_frames se (rr_first_frame (rq_request r)) (rr_end_frame (rq_request r)) \<subseteq> processed_frames se)"

definition requests_step :: "apta_session \<Rightarrow> apta_session \<Rightarrow> bool" where
  "requests_step se se' \<longleftrightarrow> list_all2 (request_step se') (se_requests se) (se_requests se')"

definition base_spec :: "struct_sizes \<Rightarrow> apta_session \<Rightarrow> apta_status \<times> bool \<times> bool \<times> progress \<times> apta_session \<Rightarrow> bool" where
  "base_spec sizes se r \<longleftrightarrow> (case r of (s, did, published, pg, se') \<Rightarrow>
     worked sizes se se' \<and>
     (overview_exact se \<and> (\<not> failed s \<or> uses_workspace se) \<longrightarrow> overview_exact se') \<and>
     (overview_exact se \<longrightarrow> requests_step se se') \<and>
     (\<not> failed s \<longrightarrow> (overview_exact se \<longrightarrow> marked se') \<and>
        unat (pg_consumed_input_frames pg) = card (processed_frames se' - processed_frames se) \<and>
        (did \<longleftrightarrow> pg_consumed_input_frames pg \<noteq> 0)))"

lemma request_true_mono:
  "same_life se se' \<Longrightarrow> processed_frames se \<subseteq> processed_frames se' \<Longrightarrow> request_true se r \<Longrightarrow> request_true se' r"
  by (auto simp: request_true_def range_frames_def same_life_def)

lemma request_step_mono:
  "same_life a b \<Longrightarrow> processed_frames a \<subseteq> processed_frames b \<Longrightarrow> request_step a r r' \<Longrightarrow> request_step b r r'"
  by (auto simp: request_step_def range_frames_def same_life_def)

lemma request_step_trans: "request_step se r s \<Longrightarrow> request_step se s t \<Longrightarrow> request_step se r t"
  by (auto simp: request_step_def)

lemma requests_step_same: "se_requests se' = se_requests se \<Longrightarrow> requests_step se se'"
  by (simp add: requests_step_def request_step_def list_all2_same)

lemma requests_step_trans:
  assumes "requests_step a b" "requests_step b c" "worked sizes b c"
  shows "requests_step a c"
proof -
  have "list_all2 (request_step c) (se_requests a) (se_requests b)"
    using assms(1,3) list_all2_mono [of "request_step b"] request_step_mono [of b c]
    by (simp add: requests_step_def worked_def)
  from list_all2_trans [OF _ this, of "request_step c" "request_step c" "se_requests c"] show ?thesis
    using assms(2) request_step_trans by (simp add: requests_step_def)
qed

lemma requests_step_true:
  assumes "requests_step se se'" "requests_true se" "worked sizes se se'"
  shows "requests_true se'"
  unfolding requests_true_def
proof
  fix r' assume "r' \<in> set (se_requests se')"
  then obtain r where r: "r \<in> set (se_requests se)" "request_step se' r r'"
    using assms(1) by (fastforce simp: requests_step_def list_all2_conv_all_nth in_set_conv_nth)
  have "request_true se' r"
    using request_true_mono [of se se' r] assms(2,3) r(1) by (simp add: requests_true_def worked_def)
  then show "request_true se' r'" using r(2) by (auto simp: request_true_def request_step_def)
qed

lemma update_request_fields [simp]:
  "rq_request (update_request_state se r) = rq_request r" "rq_request_id (update_request_state se r) = rq_request_id r"
  by (simp_all add: update_request_state_def Let_def)

lemma refresh_worked:
  assumes "work_ok sizes se"
  shows "worked sizes se (apta_refresh_completed_columns se)"
    "processed_frames (apta_refresh_completed_columns se) = processed_frames se"
    "overview_exact se \<Longrightarrow> overview_exact (apta_refresh_completed_columns se) \<and> marked (apta_refresh_completed_columns se)"
    "loop_ok C se \<Longrightarrow> loop_ok C (apta_refresh_completed_columns se)"
proof -
  note v = store_step_view [OF refresh_step [of se]]
  show "processed_frames (apta_refresh_completed_columns se) = processed_frames se" by (rule v(1))
  have "results_ok sizes (apta_refresh_completed_columns se)"
    using processed_only_view(10) [OF store_step_only [OF refresh_step]] assms by (simp add: work_ok_def)
  then show "worked sizes se (apta_refresh_completed_columns se)"
    using assms v by (simp add: worked_def work_ok_def refresh_shape refresh_intake)
  show "overview_exact (apta_refresh_completed_columns se) \<and> marked (apta_refresh_completed_columns se)" if "overview_exact se"
    using refresh_exact [OF _ that] assms by (simp add: work_ok_def marked_def)
  have "column64 (apta_refresh_completed_columns se) = column64 se" "uses_workspace (apta_refresh_completed_columns se) = uses_workspace se"
    using v(5) by (simp_all add: column64_def same_life_def fun_eq_iff)
  then show "loop_ok C (apta_refresh_completed_columns se)" if "loop_ok C se"
    using that v(4) by (simp add: loop_ok_def refresh_shape refresh_intake)
qed

lemma update_requests_worked:
  assumes "work_ok sizes se"
  shows "worked sizes se (apta_update_request_states se)" "processed_frames (apta_update_request_states se) = processed_frames se"
    "overview_exact (apta_update_request_states se) = overview_exact se" "queue (apta_update_request_states se) = queue se"
    "marked (apta_update_request_states se) = marked se"
    "overview_exact se \<Longrightarrow> requests_step se (apta_update_request_states se)"
proof -
  show w: "worked sizes se (apta_update_request_states se)" "processed_frames (apta_update_request_states se) = processed_frames se"
    "overview_exact (apta_update_request_states se) = overview_exact se" "queue (apta_update_request_states se) = queue se"
    "marked (apta_update_request_states se) = marked se"
    using requests_worked [OF assms] by (simp_all add: apta_update_request_states_def)
  have life: "same_life se (apta_update_request_states se)" using w(1) by (simp add: worked_def)
  assume e: "overview_exact se"
  have sh: "overview_shape se" using assms by (simp add: work_ok_def)
  have "request_step se r (update_request_state se r)" for r
    using update_satisfied [OF sh e, of r] by (auto simp: request_step_def)
  then have "request_step (apta_update_request_states se) r (update_request_state se r)" for r
    using request_step_mono [OF life] w(2) by simp
  then have "list_all2 (request_step (apta_update_request_states se)) (se_requests se) (map (update_request_state se) (se_requests se))"
    by (simp add: list_all2_conv_all_nth)
  then show "requests_step se (apta_update_request_states se)"
    by (simp add: requests_step_def) (simp add: apta_update_request_states_def)
qed

lemma unlimited_pos: "unlimited x \<noteq> 0"
  by (simp add: unlimited_def UINT32_MAX_def)

text \<open>The publication at the end of a layer, if there is one.\<close>

lemma publish_worked:
  assumes "kernels_ok eg" "work_ok (eg_sizes eg) se"
  obtains s se' where "apta_internal_publish_result eg se changed = Ret (s, se')" "worked (eg_sizes eg) se se'"
    "processed_frames se' = processed_frames se" "overview_exact se \<Longrightarrow> overview_exact se'"
    "queue se' = queue se" "\<not> failed s \<Longrightarrow> still (eg_sizes eg) se se' \<and> marked se' = marked se" "requests_step se se'"
proof -
  have "results_ok (eg_sizes eg) se" using assms(2) by (simp add: work_ok_def)
  from publish_still [OF assms(1) this, of changed] obtain s se' where
    p: "apta_internal_publish_result eg se changed = Ret (s, se')" "published_still (eg_sizes eg) se se'"
      "\<not> failed s \<Longrightarrow> still (eg_sizes eg) se se'" by blast
  note w = published_worked [OF p(2) assms(2)]
  have rq: "se_requests se' = se_requests se" using p(2) by (simp add: published_still_def)
  have m: "still (eg_sizes eg) se se' \<and> marked se' = marked se" if "\<not> failed s"
    using still_worked(5) [OF p(3) [OF that] assms(2)] p(3) [OF that] by simp
  show ?thesis
    by (rule that [OF p(1) w(1) w(2) w(3) w(4) m requests_step_same [OF rq]])
qed

lemma process_base_spec:
  assumes eg: "kernels_ok eg" and ok: "work_ok (eg_sizes eg) se" and lok: "loop_ok C se"
  shows "\<exists>r. apta_internal_waveform_process_base eg se budget progress = Ret r \<and> base_spec (eg_sizes eg) se r"
proof -
  let ?se0 = "apta_refresh_completed_columns se"
  let ?fl = "unlimited (wb_maximum_input_frames budget)" and ?sl = "unlimited (wb_maximum_steps budget)"
  note r0 = refresh_worked [OF ok]
  have ok0: "work_ok (eg_sizes eg) ?se0" using r0(1) by (simp add: worked_def)
  have "(0 :: u32) \<le> ?fl" by simp
  then obtain s c st did se1 where l: "process_loop eg ?fl ?sl 0 0 False ?se0 = Ret (s, c, st, did, se1)"
    "loop_spec C ?fl ?sl 0 False ?se0 (s, c, st, did, se1)"
    using process_loop_spec [OF r0(4) [OF lok]] by (metis prod_cases5)
  have rs: "round_spec C ?se0 se1" using l(2) by (simp add: loop_spec_def)
  note w1 = round_worked [OF rs ok0]
  have w01: "worked (eg_sizes eg) se se1" by (rule worked_trans [OF r0(1) w1])
  have ok1: "work_ok (eg_sizes eg) se1" using w1 by (simp add: worked_def)
  have only: "processed_only ?se0 se1" using rs by (simp add: round_spec_def)
  have ws: "uses_workspace ?se0 = uses_workspace se" using r0(1) by (simp add: worked_def same_life_def)
  have rq1: "se_requests se1 = se_requests se"
    using processed_only_view(2) [OF only] by (simp add: refresh_eq)
  have rt1: "requests_step se se1" by (rule requests_step_same [OF rq1])
  show ?thesis
  proof (cases "failed s")
    case True
    then have "apta_internal_waveform_process_base eg se budget progress = Ret (s, did, False, progress, se1)"
      using l(1) by (simp add: apta_internal_waveform_process_base_def Let_def)
    moreover have "\<not> uses_workspace se" using l(2) True ws by (simp add: loop_spec_def)
    ultimately show ?thesis using w01 True rt1 by (simp add: base_spec_def)
  next
    case False
    let ?se2 = "apta_update_request_states se1"
    note u = update_requests_worked [OF ok1]
    have ok2: "work_ok (eg_sizes eg) ?se2" using u(1) by (simp add: worked_def)
    have e1: "overview_exact se1 \<and> marked se1" if "overview_exact se"
      using l(2) r0(3) [OF that] False by (simp add: loop_spec_def)
    define changed where "changed = (ov_complete_count (se_overview ?se2) \<noteq> ov_complete_count (se_overview se))"
    obtain ps se3 where p: "(if changed then apta_internal_publish_result eg ?se2 FEATURE_WAVEFORM_OVERVIEW
        else Ret (STATUS_OK, ?se2)) = Ret (ps, se3)" "worked (eg_sizes eg) ?se2 se3" "processed_frames se3 = processed_frames ?se2"
      "overview_exact ?se2 \<Longrightarrow> overview_exact se3" "\<not> failed ps \<Longrightarrow> marked se3 = marked ?se2" "requests_step ?se2 se3"
    proof (cases changed)
      case True
      from publish_worked [OF eg ok2, of FEATURE_WAVEFORM_OVERVIEW] show ?thesis using that True by metis
    next
      case False
      then show ?thesis using that [of STATUS_OK ?se2] worked_refl [OF ok2] requests_step_same [of ?se2 ?se2] by simp
    qed
    have w: "worked (eg_sizes eg) se se3" by (rule worked_trans [OF worked_trans [OF w01 u(1)] p(2)])
    have fr: "processed_frames se3 = processed_frames se1" using p(3) u(2) by simp
    have ex: "overview_exact se3" if "overview_exact se" using e1 [OF that] p(4) u(3) by simp
    have mk: "marked se3" if "overview_exact se" "\<not> failed ps" using e1 [OF that(1)] p(5) [OF that(2)] u(5) by simp
    have rt: "requests_step se se3" if "overview_exact se"
      using requests_step_trans [OF requests_step_trans [OF rt1 u(6) u(1)] p(6,2)] e1 [OF that] by simp
    have cnt: "unat c = card (processed_frames se3 - processed_frames se)" "did \<longleftrightarrow> c \<noteq> 0"
      using l(2) r0(2) by (simp_all add: loop_spec_def fr)
    show ?thesis
    proof (cases "failed ps")
      case True
      then have "apta_internal_waveform_process_base eg se budget progress = Ret (ps, did, False, progress, se3)"
        using l(1) False p(1) by (simp add: apta_internal_waveform_process_base_def Let_def changed_def)
      then show ?thesis using w ex rt True by (simp add: base_spec_def)
    next
      case nf: False
      have "\<exists>s' pg. apta_internal_waveform_process_base eg se budget progress = Ret (s', did, changed, pg, se3) \<and>
          pg_consumed_input_frames pg = c"
        using l(1) False p(1) nf by (simp add: apta_internal_waveform_process_base_def Let_def changed_def)
      then show ?thesis using w ex mk [OF _ nf] rt cnt by (auto simp: base_spec_def)
    qed
  qed
qed

end
