(* ===== verification/Apta_Detail.thy ===== *)
theory Apta_Detail
  imports Apta_Engine Apta_Scheduler
begin

text \<open>
  The detail cache: four tiles of 64 columns of 256 frames
  (\<^verbatim>\<open>src/waveform/apta_waveform_detail_mvp.c\<close>), the states of the requests that ask for it
  (\<^verbatim>\<open>apta_waveform_detail_requests.c\<close>), and the demand for replayed samples with the acceptance of
  a replayed block (\<^verbatim>\<open>apta_waveform_detail_replay.c\<close> and its hardening layer).  Sums and
  extrema of a column are part of the uninterpreted sample data.
\<close>

definition DETAIL_FRAMES_PER_COLUMN :: u64 where [apta_consts]: "DETAIL_FRAMES_PER_COLUMN = 256"
definition DETAIL_TILE_FRAMES :: u64 where [apta_consts]: "DETAIL_TILE_FRAMES = 16384"

section \<open>Tiles\<close>

definition apta_detail_ranges_overlap :: "u64 \<Rightarrow> u64 \<Rightarrow> u64 \<Rightarrow> u64 \<Rightarrow> bool" where
  "apta_detail_ranges_overlap first_a end_a first_b end_b \<longleftrightarrow> first_a < end_b \<and> first_b < end_a"

definition apta_detail_tile_first :: "u32 \<Rightarrow> u64" where
  "apta_detail_tile_first t = ucast t * DETAIL_TILE_FRAMES"

definition apta_detail_tile_end :: "u32 \<Rightarrow> u64" where
  "apta_detail_tile_end t = apta_detail_tile_first t + DETAIL_TILE_FRAMES"

definition detail_candidate :: "internal_request \<Rightarrow> bool" where
  "detail_candidate r \<longleftrightarrow> rq_request_id r \<noteq> 0 \<and> rq_state r \<noteq> REQUEST_CANCELLED \<and>
     rq_state r \<noteq> REQUEST_FAILED \<and> rq_state r \<noteq> REQUEST_SATISFIED \<and>
     rr_feature_mask (rq_request r) AND FEATURE_WAVEFORM_DETAIL \<noteq> 0"

definition apta_detail_tile_is_protected :: "apta_session \<Rightarrow> u32 \<Rightarrow> bool" where
  "apta_detail_tile_is_protected se t \<longleftrightarrow>
     (se_has_focus se \<and> fo_feature_mask (se_focus se) AND FEATURE_WAVEFORM_DETAIL \<noteq> 0 \<and>
      apta_detail_ranges_overlap (apta_detail_tile_first t) (apta_detail_tile_end t)
        (fst (focus_window (se_focus se))) (snd (focus_window (se_focus se)))) \<or>
     list_ex (\<lambda>r. detail_candidate r \<and>
        apta_detail_ranges_overlap (apta_detail_tile_first t) (apta_detail_tile_end t)
          (rr_first_frame (rq_request r)) (rr_end_frame (rq_request r))) (se_requests se)"

definition apta_detail_initialize_tile :: "u32 \<Rightarrow> u64 \<Rightarrow> detail_tile" where
  "apta_detail_initialize_tile t serial =
     zero_tile\<lparr>dt_tile_index := t, dt_access_serial := serial, dt_occupied := True,
       dt_accumulators := map (\<lambda>c. zero_accumulator\<lparr>ac_column_index := of_nat c\<rparr>)
         [0..<unat DETAIL_COLUMNS_PER_TILE]\<rparr>"

definition with_tile :: "apta_session \<Rightarrow> nat \<Rightarrow> detail_tile \<Rightarrow> apta_session" where
  "with_tile se i tile = se\<lparr>se_detail := (se_detail se)\<lparr>de_tiles := (de_tiles (se_detail se))[i := tile]\<rparr>\<rparr>"

definition find_slot :: "detail_tile list \<Rightarrow> u32 \<Rightarrow> nat option" where
  "find_slot ts t = find (\<lambda>i. dt_occupied (ts ! i) \<and> dt_tile_index (ts ! i) = t) [0..<length ts]"

text \<open>The first of the tiles with the least access serial among those with a property.\<close>

definition oldest_slot :: "(detail_tile \<Rightarrow> bool) \<Rightarrow> detail_tile list \<Rightarrow> nat option" where
  "oldest_slot P ts =
     fold (\<lambda>i best. if P (ts ! i) \<and>
                       (case best of None \<Rightarrow> True | Some b \<Rightarrow> dt_access_serial (ts ! i) < dt_access_serial (ts ! b))
                    then Some i else best)
       [0..<length ts] None"

definition victim_slot :: "apta_session \<Rightarrow> u32 \<Rightarrow> nat option" where
  "victim_slot se t =
     (let ts = de_tiles (se_detail se)
      in case find (\<lambda>i. \<not> dt_occupied (ts ! i)) [0..<length ts] of
           Some i \<Rightarrow> Some i
         | None \<Rightarrow>
             (case oldest_slot (\<lambda>tile. dt_occupied tile \<and> \<not> apta_detail_tile_is_protected se (dt_tile_index tile)) ts of
                Some i \<Rightarrow> Some i
              | None \<Rightarrow> if \<not> apta_detail_tile_is_protected se t then None else oldest_slot dt_occupied ts))"

definition apta_detail_find_or_create_tile :: "apta_session \<Rightarrow> u32 \<Rightarrow> nat option \<times> apta_session" where
  "apta_detail_find_or_create_tile se t =
     (let de = se_detail se; ts = de_tiles de; serial = de_access_serial de + 1
      in case find_slot ts t of
           Some i \<Rightarrow>
             (Some i, with_tile (se\<lparr>se_detail := de\<lparr>de_access_serial := serial\<rparr>\<rparr>) i ((ts ! i)\<lparr>dt_access_serial := serial\<rparr>))
         | None \<Rightarrow>
             (case victim_slot se t of
                None \<Rightarrow> (None, se)
              | Some i \<Rightarrow>
                  let mutation = (if dt_occupied (ts ! i) \<and> dt_run_valid (ts ! i) then de_mutation_serial de + 1
                                  else de_mutation_serial de)
                  in (Some i,
                      with_tile (se\<lparr>se_detail := de\<lparr>de_mutation_serial := mutation, de_access_serial := serial\<rparr>\<rparr>) i
                        (apta_detail_initialize_tile t serial))))"

definition apta_detail_expected_column_frames :: "apta_session \<Rightarrow> u32 \<Rightarrow> nat \<Rightarrow> u32" where
  "apta_detail_expected_column_frames se t c =
     (let first = apta_detail_tile_first t + of_nat c * DETAIL_FRAMES_PER_COLUMN
      in if \<not> se_end_of_input_signalled se then ucast DETAIL_FRAMES_PER_COLUMN
         else if se_final_end_frame se \<le> first then 0
         else
           let fin = first + DETAIL_FRAMES_PER_COLUMN;
               cut = (if se_final_end_frame se < fin then se_final_end_frame se else fin)
           in ucast (cut - first))"

section \<open>Runs\<close>

text \<open>An existing run grows over complete neighbours; otherwise the longest run is taken, the first of
  several.\<close>

definition extend_run :: "accumulator list \<Rightarrow> nat \<Rightarrow> nat \<Rightarrow> nat \<times> nat" where
  "extend_run as first fin =
     (first - length (takeWhile ac_complete (rev (take first as))),
      fin + length (takeWhile ac_complete (drop fin as)))"

fun longest_run :: "accumulator list \<Rightarrow> nat \<Rightarrow> nat \<times> nat \<Rightarrow> nat \<times> nat \<Rightarrow> nat \<times> nat" where
  "longest_run [] c current best = best"
| "longest_run (a # as) c (current_first, current_count) (best_first, best_count) =
     (if ac_complete a
      then
        let first = (if current_count = 0 then c else current_first); n = current_count + 1
        in longest_run as (c + 1) (first, n) (if best_count < n then (first, n) else (best_first, best_count))
      else longest_run as (c + 1) (current_first, 0) (best_first, best_count))"

definition apta_detail_select_or_extend_run :: "detail_tile \<Rightarrow> detail_tile" where
  "apta_detail_select_or_extend_run tile =
     (if dt_run_valid tile
      then
        (case extend_run (dt_accumulators tile) (unat (dt_run_first tile))
                (unat (dt_run_first tile) + unat (dt_run_count tile)) of
           (first, fin) \<Rightarrow> tile\<lparr>dt_run_first := of_nat first, dt_run_count := of_nat (fin - first)\<rparr>)
      else
        (case longest_run (dt_accumulators tile) 0 (0, 0) (0, 0) of
           (first, n) \<Rightarrow>
             if n = 0 then tile
             else tile\<lparr>dt_run_valid := True, dt_run_first := of_nat first, dt_run_count := of_nat n\<rparr>))"

section \<open>Samples and complete columns\<close>

definition apta_internal_detail_process_sample ::
    "engine \<Rightarrow> apta_session \<Rightarrow> pcm_block \<Rightarrow> u64 \<Rightarrow> apta_status \<times> apta_session" where
  "apta_internal_detail_process_sample eg se block source_frame =
     (if \<not> has_feature (se_config se) FEATURE_WAVEFORM_DETAIL then (STATUS_OK, se)
      else
        let tile64 = source_frame div DETAIL_TILE_FRAMES
        in if ucast (UINT32_MAX div DETAIL_COLUMNS_PER_TILE) < tile64 then (ERROR_LIMIT_EXCEEDED, se)
           else
             let c = unat ((source_frame mod DETAIL_TILE_FRAMES) div DETAIL_FRAMES_PER_COLUMN)
             in case apta_detail_find_or_create_tile se (ucast tile64) of
                  (None, se1) \<Rightarrow> (STATUS_NOT_AVAILABLE, se1)
                | (Some i, se1) \<Rightarrow>
                    let tile = de_tiles (se_detail se1) ! i; a = dt_accumulators tile ! c;
                        se2 = with_tile se1 i
                                (tile\<lparr>dt_accumulators := (dt_accumulators tile)
                                   [c := a\<lparr>ac_sample_count := ac_sample_count a + 1\<rparr>]\<rparr>)
                    in (STATUS_OK, se2\<lparr>se_signal := eg_detail_absorb eg se2 block source_frame\<rparr>))"

definition detail_newly_complete :: "apta_session \<Rightarrow> detail_tile \<Rightarrow> nat \<Rightarrow> bool" where
  "detail_newly_complete se tile c \<longleftrightarrow>
     (let a = dt_accumulators tile ! c; expected = apta_detail_expected_column_frames se (dt_tile_index tile) c
      in \<not> ac_complete a \<and> expected \<noteq> 0 \<and> ac_sample_count a = expected)"

definition refresh_tile :: "apta_session \<Rightarrow> detail_tile \<Rightarrow> detail_tile" where
  "refresh_tile se tile =
     (if \<not> dt_occupied tile then tile
      else
        let columns = [0..<length (dt_accumulators tile)]
        in apta_detail_select_or_extend_run
             (tile\<lparr>dt_complete_count := dt_complete_count tile + of_nat (length (filter (detail_newly_complete se tile) columns)),
                   dt_accumulators := map (\<lambda>c. if detail_newly_complete se tile c
                     then (dt_accumulators tile ! c)\<lparr>ac_complete := True\<rparr> else dt_accumulators tile ! c) columns\<rparr>))"

definition run_of :: "detail_tile \<Rightarrow> bool \<times> u8 \<times> u8" where
  "run_of tile = (dt_run_valid tile, dt_run_first tile, dt_run_count tile)"

definition apta_internal_detail_refresh_completed :: "apta_session \<Rightarrow> apta_session" where
  "apta_internal_detail_refresh_completed se =
     (if \<not> has_feature (se_config se) FEATURE_WAVEFORM_DETAIL then se
      else
        let de = se_detail se
        in se\<lparr>se_detail := de\<lparr>de_tiles := map (refresh_tile se) (de_tiles de),
             de_mutation_serial := de_mutation_serial de +
               of_nat (length (filter (\<lambda>tile. run_of (refresh_tile se tile) \<noteq> run_of tile) (de_tiles de)))\<rparr>\<rparr>)"

section \<open>Requests\<close>

definition apta_detail_find_tile :: "apta_session \<Rightarrow> u32 \<Rightarrow> detail_tile option" where
  "apta_detail_find_tile se t = find (\<lambda>tile. dt_occupied tile \<and> dt_tile_index tile = t) (de_tiles (se_detail se))"

definition column_complete :: "apta_session \<Rightarrow> u64 \<Rightarrow> bool" where
  "column_complete se c \<longleftrightarrow>
     (let tile64 = c div ucast DETAIL_COLUMNS_PER_TILE
      in tile64 \<le> ucast UINT32_MAX \<and>
         (case apta_detail_find_tile se (ucast tile64) of
            None \<Rightarrow> False
          | Some tile \<Rightarrow> ac_complete (dt_accumulators tile ! unat (c mod ucast DETAIL_COLUMNS_PER_TILE))))"

text \<open>The columns from \<open>c\<close> on, \<open>n\<close> of them.\<close>

primrec columns_complete :: "apta_session \<Rightarrow> nat \<Rightarrow> u64 \<Rightarrow> bool" where
  "columns_complete se 0 c \<longleftrightarrow> True"
| "columns_complete se (Suc n) c \<longleftrightarrow> column_complete se c \<and> columns_complete se n (c + 1)"

definition apta_internal_detail_range_complete :: "apta_session \<Rightarrow> u64 \<Rightarrow> u64 \<Rightarrow> bool" where
  "apta_internal_detail_range_complete se first fin \<longleftrightarrow>
     (let first_column = first div DETAIL_FRAMES_PER_COLUMN; last_column = (fin - 1) div DETAIL_FRAMES_PER_COLUMN
      in first < fin \<and> columns_complete se (unat (last_column - first_column) + 1) first_column)"

definition apta_internal_detail_range_has_output :: "apta_session \<Rightarrow> u64 \<Rightarrow> u64 \<Rightarrow> bool" where
  "apta_internal_detail_range_has_output se first fin \<longleftrightarrow>
     list_ex (\<lambda>tile. dt_occupied tile \<and> dt_run_valid tile \<and>
       (let run_first = apta_detail_tile_first (dt_tile_index tile) + ucast (dt_run_first tile) * DETAIL_FRAMES_PER_COLUMN;
            run_end = run_first + ucast (dt_run_count tile) * DETAIL_FRAMES_PER_COLUMN;
            cut = (if se_end_of_input_signalled se \<and> se_final_end_frame se < run_end then se_final_end_frame se else run_end)
        in apta_detail_ranges_overlap run_first cut first fin))
       (de_tiles (se_detail se))"

definition update_detail_request :: "apta_session \<Rightarrow> internal_request \<Rightarrow> internal_request" where
  "update_detail_request se r =
     (if rq_request_id r = 0 \<or> rq_state r = REQUEST_CANCELLED \<or> rq_state r = REQUEST_FAILED \<or>
         rr_feature_mask (rq_request r) AND FEATURE_WAVEFORM_DETAIL = 0
      then r
      else
        let overview_required = (rr_feature_mask (rq_request r) AND FEATURE_WAVEFORM_OVERVIEW \<noteq> 0);
            overview_satisfied = (\<not> overview_required \<or> rq_state r = REQUEST_SATISFIED);
            overview_has_output =
              (overview_required \<and> (rq_state r = REQUEST_PARTIALLY_SATISFIED \<or> rq_state r = REQUEST_SATISFIED));
            first = rr_first_frame (rq_request r); fin = rr_end_frame (rq_request r)
        in if overview_satisfied \<and> apta_internal_detail_range_complete se first fin
           then r\<lparr>rq_state := REQUEST_SATISFIED\<rparr>
           else if overview_has_output \<or> apta_internal_detail_range_has_output se first fin
           then r\<lparr>rq_state := REQUEST_PARTIALLY_SATISFIED\<rparr>
           else r\<lparr>rq_state := REQUEST_WAITING_FOR_PCM\<rparr>)"

definition apta_internal_detail_update_request_states :: "apta_session \<Rightarrow> apta_session" where
  "apta_internal_detail_update_request_states se =
     se\<lparr>se_requests := map (update_detail_request se) (se_requests se)\<rparr>"

end
