(* ===== verification/Apta_Detail_Replay.thy ===== *)
theory Apta_Detail_Replay
  imports Apta_Detail
begin

text \<open>
  The demand for samples the detail cache lacks, and the acceptance of a block that answers it
  (\<^verbatim>\<open>src/waveform/apta_waveform_detail_replay.c\<close> and
  \<^verbatim>\<open>apta_waveform_detail_replay_hardening.c\<close>), with the public entry points that check a request
  against the session's features (\<^verbatim>\<open>src/core/apta_session_detail_contract.c\<close>).
\<close>

section \<open>The demand\<close>

definition apta_detail_column_is_empty :: "apta_session \<Rightarrow> u64 \<Rightarrow> bool" where
  "apta_detail_column_is_empty se c \<longleftrightarrow>
     (let tile64 = c div ucast DETAIL_COLUMNS_PER_TILE
      in if ucast UINT32_MAX < tile64 then False
         else
           (case apta_detail_find_tile se (ucast tile64) of
              None \<Rightarrow> True
            | Some tile \<Rightarrow> ac_sample_count (dt_accumulators tile ! unat (c mod ucast DETAIL_COLUMNS_PER_TILE)) = 0))"

fun best_detail_request :: "internal_request list \<Rightarrow> (u64 \<times> u64 \<times> u8 \<times> u32) option \<Rightarrow> (u64 \<times> u64 \<times> u8 \<times> u32) option" where
  "best_detail_request [] best = best"
| "best_detail_request (r # rs) best =
     best_detail_request rs
       (if detail_candidate r \<and>
           (case best of None \<Rightarrow> True | Some (f, e, priority, token) \<Rightarrow> priority < rr_priority (rq_request r))
        then Some (rr_first_frame (rq_request r), rr_end_frame (rq_request r), rr_priority (rq_request r), rq_request_id r)
        else best)"

definition apta_detail_select_target :: "apta_session \<Rightarrow> (u64 \<times> u64 \<times> u8 \<times> u32) option" where
  "apta_detail_select_target se =
     (case (case best_detail_request (se_requests se) None of
              Some t \<Rightarrow> Some t
            | None \<Rightarrow>
                if se_has_focus se \<and> fo_feature_mask (se_focus se) AND FEATURE_WAVEFORM_DETAIL \<noteq> 0
                then Some (fst (focus_window (se_focus se)), snd (focus_window (se_focus se)), fo_priority (se_focus se), 0)
                else None) of
        None \<Rightarrow> None
      | Some (first, fin, priority, token) \<Rightarrow>
          let cut = (if sc_total_frames (se_config se) \<noteq> APTA_TOTAL_FRAMES_UNKNOWN \<and> sc_total_frames (se_config se) < fin
                     then sc_total_frames (se_config se) else fin)
          in if cut \<le> first then None else Some (first, cut, priority, token))"

text \<open>The scans over columns; the second argument counts the columns still ahead.\<close>

primrec first_empty :: "apta_session \<Rightarrow> nat \<Rightarrow> u64 \<Rightarrow> u64 option" where
  "first_empty se 0 c = None"
| "first_empty se (Suc n) c = (if apta_detail_column_is_empty se c then Some c else first_empty se n (c + 1))"

primrec empty_end :: "apta_session \<Rightarrow> nat \<Rightarrow> u64 \<Rightarrow> u64" where
  "empty_end se 0 c = c"
| "empty_end se (Suc n) c = (if apta_detail_column_is_empty se c then empty_end se n (c + 1) else c)"

definition maximum_columns :: nat where
  "maximum_columns = unat (MAX_PUSH_FRAMES div DETAIL_FRAMES_PER_COLUMN)"

definition apta_internal_detail_next_pcm_request_base :: "apta_session \<Rightarrow> apta_status \<times> pcm_request option" where
  "apta_internal_detail_next_pcm_request_base se =
     (if \<not> has_feature (se_config se) FEATURE_WAVEFORM_DETAIL then (STATUS_NOT_AVAILABLE, None)
      else
        (case apta_detail_select_target se of
           None \<Rightarrow> (STATUS_NOT_AVAILABLE, None)
         | Some (target_first, target_end, priority, token) \<Rightarrow>
             let first_column = target_first div DETAIL_FRAMES_PER_COLUMN;
                 end_column = (target_end + DETAIL_FRAMES_PER_COLUMN - 1) div DETAIL_FRAMES_PER_COLUMN
             in case first_empty se (unat end_column - unat first_column) first_column of
                  None \<Rightarrow> (STATUS_NOT_AVAILABLE, None)
                | Some from_column \<Rightarrow>
                    let to_column = empty_end se (min maximum_columns (unat end_column - unat from_column)) from_column
                    in if UINT64_MAX div DETAIL_FRAMES_PER_COLUMN < from_column \<or>
                          UINT64_MAX div DETAIL_FRAMES_PER_COLUMN < to_column
                       then (ERROR_LIMIT_EXCEEDED, None)
                       else
                         let first = from_column * DETAIL_FRAMES_PER_COLUMN;
                             fin0 = to_column * DETAIL_FRAMES_PER_COLUMN;
                             fin = (if sc_total_frames (se_config se) \<noteq> APTA_TOTAL_FRAMES_UNKNOWN \<and>
                                       sc_total_frames (se_config se) < fin0
                                    then sc_total_frames (se_config se) else fin0)
                         in if fin \<le> first then (STATUS_NOT_AVAILABLE, None)
                            else (STATUS_OK, Some \<lparr>pq_first_frame = first, pq_end_frame = fin,
                                   pq_feature_mask = FEATURE_WAVEFORM_DETAIL, pq_priority = priority,
                                   pq_request_token = token\<rparr>)))"

section \<open>The hardening layer\<close>

definition maximum_safe_end :: u64 where [apta_consts]:
  "maximum_safe_end = UINT64_MAX - (DETAIL_FRAMES_PER_COLUMN - 1)"

definition apta_detail_scheduler_stage_requests :: "internal_request list \<Rightarrow> internal_request list" where
  "apta_detail_scheduler_stage_requests rs = apta_scheduler_stage_requests FEATURE_WAVEFORM_DETAIL rs"

definition clamp_focus :: "apta_session \<Rightarrow> focus" where
  "clamp_focus se =
     (let fo = se_focus se
      in if se_has_focus se \<and> fo_playhead_frame fo < maximum_safe_end \<and>
            maximum_safe_end - fo_playhead_frame fo < fo_lookahead_frames fo
         then fo\<lparr>fo_lookahead_frames := maximum_safe_end - fo_playhead_frame fo\<rparr> else fo)"

definition clamp_request :: "internal_request \<Rightarrow> internal_request" where
  "clamp_request r =
     (if maximum_safe_end < rr_end_frame (rq_request r)
      then r\<lparr>rq_request := (rq_request r)\<lparr>rr_end_frame := maximum_safe_end\<rparr>\<rparr> else r)"

text \<open>The session the selector sees: staged and clamped.\<close>

definition detail_staged :: "apta_session \<Rightarrow> apta_session" where
  "detail_staged se =
     se\<lparr>se_focus := clamp_focus se,
        se_requests := apta_detail_scheduler_stage_requests (map clamp_request (se_requests se))\<rparr>"

definition apta_internal_detail_next_pcm_request ::
    "apta_session \<Rightarrow> apta_status \<times> pcm_request option \<times> apta_session" where
  "apta_internal_detail_next_pcm_request se =
     (case apta_internal_detail_next_pcm_request_base (detail_staged se) of
        (status, out) \<Rightarrow>
          (status, out,
           if status = STATUS_OK
           then apta_internal_scheduler_note_choice se (case out of None \<Rightarrow> 0 | Some q \<Rightarrow> pq_request_token q)
           else se))"

section \<open>Replay\<close>

fun replay_samples :: "engine \<Rightarrow> pcm_block \<Rightarrow> u64 list \<Rightarrow> apta_session \<Rightarrow> apta_status \<times> apta_session" where
  "replay_samples eg block [] se = (STATUS_OK, se)"
| "replay_samples eg block (f # fs) se =
     (case apta_internal_detail_process_sample eg se block f of
        (status, se1) \<Rightarrow> if failed status then (status, se1) else replay_samples eg block fs se1)"

definition block_frames :: "pcm_block \<Rightarrow> u32 \<Rightarrow> u64 list" where
  "block_frames block n = map (\<lambda>i. pb_first_frame block + of_nat i) [0..<unat n]"

definition apta_internal_detail_accept_replay_base ::
    "engine \<Rightarrow> apta_session \<Rightarrow> pcm_block \<Rightarrow> apta_status \<times> u32 \<times> apta_session" where
  "apta_internal_detail_accept_replay_base eg se block =
     (case apta_internal_detail_next_pcm_request_base se of
        (status, out) \<Rightarrow>
          (case (if status = STATUS_OK then out else None) of
             None \<Rightarrow> (STATUS_NOT_AVAILABLE, 0, se)
           | Some q \<Rightarrow>
               if pb_first_frame block \<noteq> pq_first_frame q \<or> pb_frame_count block = 0 \<or>
                  pq_end_frame q - pq_first_frame q < ucast (pb_frame_count block)
               then (STATUS_NOT_AVAILABLE, 0, se)
               else
                 let accepted = (if ucast MAX_PUSH_FRAMES < pb_frame_count block then ucast MAX_PUSH_FRAMES
                                 else pb_frame_count block)
                 in case replay_samples eg block (block_frames block accepted) se of
                      (status, se1) \<Rightarrow>
                        if failed status then (status, 0, se1)
                        else (if accepted = pb_frame_count block then STATUS_OK else STATUS_MORE_WORK, accepted,
                              apta_internal_detail_refresh_completed se1)))"

definition apta_internal_detail_accept_replay ::
    "engine \<Rightarrow> apta_session \<Rightarrow> pcm_block \<Rightarrow> apta_status \<times> u32 \<times> apta_session" where
  "apta_internal_detail_accept_replay eg se block =
     (let end_frame = pb_first_frame block + ucast (pb_frame_count block)
      in if pb_first_frame block mod DETAIL_FRAMES_PER_COLUMN \<noteq> 0 \<or>
            end_frame mod DETAIL_FRAMES_PER_COLUMN \<noteq> 0 \<and>
            \<not> (sc_total_frames (se_config se) \<noteq> APTA_TOTAL_FRAMES_UNKNOWN \<and> end_frame = sc_total_frames (se_config se))
         then (STATUS_NOT_AVAILABLE, 0, se)
         else apta_internal_detail_accept_replay_base eg se block)"

section \<open>The public entry points\<close>

definition apta_session_set_focus :: "struct_sizes \<Rightarrow> apta_session \<Rightarrow> focus \<Rightarrow> apta_status \<times> apta_session" where
  "apta_session_set_focus sizes se fo =
     (if \<not> apta_internal_validate_struct True (sizeof_focus sizes) (fo_struct_size fo) (fo_api_version fo)
      then (ERROR_INCOMPATIBLE_VERSION, se)
      else if fo_feature_mask fo AND NOT (sc_requested_features (se_config se)) \<noteq> 0 then (ERROR_INVALID_STATE, se)
      else apta_session_set_focus_base sizes se fo)"

definition apta_session_request_region ::
    "struct_sizes \<Rightarrow> apta_session \<Rightarrow> region_request \<Rightarrow> apta_status \<times> u32 \<times> apta_session" where
  "apta_session_request_region sizes se req =
     (if \<not> apta_internal_validate_struct True (sizeof_region_request sizes) (rr_struct_size req) (rr_api_version req)
      then (ERROR_INCOMPATIBLE_VERSION, 0, se)
      else if rr_feature_mask req AND NOT (sc_requested_features (se_config se)) \<noteq> 0 then (ERROR_INVALID_STATE, 0, se)
      else apta_session_request_region_base sizes se req)"

text \<open>Asking for the overview on behalf of other features, and the restoration of the masks.\<close>

definition lift_mask :: "u64 \<Rightarrow> u64 \<Rightarrow> u64" where
  "lift_mask features m = (if m AND features \<noteq> 0 then m OR FEATURE_WAVEFORM_OVERVIEW else m)"

definition lift_request :: "u64 \<Rightarrow> internal_request \<Rightarrow> internal_request" where
  "lift_request features r =
     r\<lparr>rq_request := (rq_request r)\<lparr>rr_feature_mask := lift_mask features (rr_feature_mask (rq_request r))\<rparr>\<rparr>"

definition lift_focus :: "u64 \<Rightarrow> focus \<Rightarrow> focus" where
  "lift_focus features fo = fo\<lparr>fo_feature_mask := lift_mask features (fo_feature_mask fo)\<rparr>"

definition restore_mask :: "internal_request \<Rightarrow> internal_request \<Rightarrow> internal_request" where
  "restore_mask saved r = r\<lparr>rq_request := (rq_request r)\<lparr>rr_feature_mask := rr_feature_mask (rq_request saved)\<rparr>\<rparr>"

definition lift_masks :: "u64 \<Rightarrow> apta_session \<Rightarrow> apta_session" where
  "lift_masks features se =
     se\<lparr>se_focus := lift_focus features (se_focus se), se_requests := map (lift_request features) (se_requests se)\<rparr>"

definition restore_masks :: "apta_session \<Rightarrow> apta_session \<Rightarrow> apta_session" where
  "restore_masks saved se =
     se\<lparr>se_focus := (se_focus se)\<lparr>fo_feature_mask := fo_feature_mask (se_focus saved)\<rparr>,
        se_requests := map2 restore_mask (se_requests saved) (se_requests se)\<rparr>"

definition apta_session_next_pcm_request ::
    "struct_sizes \<Rightarrow> apta_session \<Rightarrow> u32 \<Rightarrow> u32 \<Rightarrow> apta_status \<times> pcm_request option \<times> apta_session" where
  "apta_session_next_pcm_request sizes se out_size out_version =
     (if \<not> apta_internal_validate_struct True (sizeof_pcm_request sizes) out_size out_version
      then (ERROR_INCOMPATIBLE_VERSION, None, se)
      else
        (case apta_internal_detail_next_pcm_request se of
           (status, out, se1) \<Rightarrow>
             if status = STATUS_OK \<or> failed status then (status, out, se1)
             else
               (case apta_session_next_pcm_request_base sizes (lift_masks (S4_FEATURES OR S6_FEATURES) se1) out_size out_version of
                  (status2, out2, se2) \<Rightarrow> (status2, out2, restore_masks se1 se2))))"

end
