(* ===== verification/Apta_Analysis.thy ===== *)
theory Apta_Analysis
  imports Apta_Detail_Replay Apta_Publish
begin

text \<open>
  The session's side of the tempo analysis (S4, \<^verbatim>\<open>src/tempo/apta_s4.c\<close>) and of the grid analysis
  (S6, \<^verbatim>\<open>src/beatgrid/apta_s6.c\<close>): allocation of their buffers, pending and published results; and the
  outer layer of the intake (\<^verbatim>\<open>src/waveform/apta_waveform_input_detail.c\<close>), which feeds every
  accepted sample to detail, tempo and grid.
\<close>

section \<open>Buffers\<close>

definition apta_s4_enabled :: "apta_session \<Rightarrow> bool" where
  "apta_s4_enabled se \<longleftrightarrow> has_feature (se_config se) S4_FEATURES"

definition apta_s6_enabled :: "apta_session \<Rightarrow> bool" where
  "apta_s6_enabled se \<longleftrightarrow> has_feature (se_config se) S6_FEATURES"

definition apta_internal_s4_prepare :: "engine \<Rightarrow> apta_session \<Rightarrow> apta_status \<times> apta_session" where
  "apta_internal_s4_prepare eg se =
     (if \<not> apta_s4_enabled se \<or> s4_onset_bins (se_s4 se) \<noteq> None then (STATUS_OK, se)
      else
        (case apta_internal_session_allocate (eg_host eg) (se_memory se)
                (ONSET_BIN_CAPACITY * sizeof_onset_bin (eg_sizes eg)) 8 of
           (None, sm) \<Rightarrow> (ERROR_OUT_OF_MEMORY, with_memory se sm)
         | (Some bins, sm) \<Rightarrow>
             let se1 = with_memory (se\<lparr>se_s4 := (se_s4 se)\<lparr>s4_onset_bins := Some bins,
                                       s4_onset_bin_capacity := ucast ONSET_BIN_CAPACITY\<rparr>\<rparr>) sm
             in case apta_internal_session_allocate (eg_host eg) sm (ONSET_BIN_CAPACITY * sizeof_float) 4 of
                  (None, sm1) \<Rightarrow> (ERROR_OUT_OF_MEMORY, with_memory se1 sm1)
                | (Some flux, sm1) \<Rightarrow>
                    (STATUS_OK, with_memory (se1\<lparr>se_s4 := (se_s4 se1)\<lparr>s4_onset_flux := Some flux,
                       s4_onset_flux_capacity := ucast ONSET_BIN_CAPACITY\<rparr>\<rparr>) sm1)))"

definition apta_internal_s6_prepare :: "engine \<Rightarrow> apta_session \<Rightarrow> apta_status \<times> apta_session" where
  "apta_internal_s6_prepare eg se =
     (if \<not> apta_s6_enabled se \<or> se_s6 se \<noteq> None then (STATUS_OK, se)
      else
        (case apta_internal_session_allocate (eg_host eg) (se_memory se) (sizeof_s6_session_state (eg_sizes eg)) 8 of
           (None, sm) \<Rightarrow> (ERROR_OUT_OF_MEMORY, with_memory se sm)
         | (Some state_address, sm) \<Rightarrow>
             (case apta_internal_session_allocate (eg_host eg) sm (GLOBAL_BIN_CAPACITY * sizeof_onset_bin (eg_sizes eg)) 8 of
                (bins, sm1) \<Rightarrow>
                (case apta_internal_session_allocate (eg_host eg) sm1 (GLOBAL_BIN_CAPACITY * sizeof_float) 4 of
                   (flux, sm2) \<Rightarrow>
                   (case apta_internal_session_allocate (eg_host eg) sm2 (ucast GLOBAL_MAX_BEATS * sizeof_beat (eg_sizes eg)) 8 of
                      (beats, sm3) \<Rightarrow>
                      (case (bins, beats, flux) of
                         (Some b, Some t, Some f) \<Rightarrow>
                           (STATUS_OK, with_memory (se\<lparr>se_s6 := Some
                              \<lparr>s6_address = state_address, s6_global_bins = b, s6_global_flux = f, s6_beats = t,
                               s6_refresh_stage = 0, s6_refresh_queued = False, s6_has_global_grid = False,
                               s6_revision_pending = False, s6_mutation_serial = 0, s6_published_serial = 0\<rparr>\<rparr>) sm3)
                       | _ \<Rightarrow>
                           (ERROR_OUT_OF_MEMORY,
                            with_memory se
                              (apta_internal_session_deallocate
                                (apta_internal_session_deallocate
                                  (apta_internal_session_deallocate
                                    (apta_internal_session_deallocate sm3 beats) flux) bins) (Some state_address)))))))))"

section \<open>Pending results\<close>

definition apta_internal_s4_refresh_pending :: "apta_session \<Rightarrow> bool" where
  "apta_internal_s4_refresh_pending se \<longleftrightarrow> s4_refresh_active (se_s4 se) \<or> s4_refresh_queued (se_s4 se)"

definition apta_internal_s6_refresh_pending :: "apta_session \<Rightarrow> bool" where
  "apta_internal_s6_refresh_pending se \<longleftrightarrow>
     (case se_s6 se of None \<Rightarrow> False | Some s6 \<Rightarrow> s6_refresh_stage s6 \<noteq> 0 \<or> s6_refresh_queued s6)"

definition apta_internal_analysis_pending :: "apta_session \<Rightarrow> bool" where
  "apta_internal_analysis_pending se \<longleftrightarrow> apta_internal_s4_refresh_pending se \<or> apta_internal_s6_refresh_pending se"

definition if_requested :: "apta_session \<Rightarrow> u64 \<Rightarrow> u64" where
  "if_requested se feature = (if has_feature (se_config se) feature then feature else 0)"

definition apta_internal_s4_pending_features :: "apta_session \<Rightarrow> u64" where
  "apta_internal_s4_pending_features se =
     (let s4 = se_s4 se
      in if s4_mutation_serial s4 = s4_published_serial s4 then 0
         else (if s4_has_tempo s4 then FEATURE_BPM OR if_requested se FEATURE_CONFIDENCE else 0) OR
              (if s4_has_local_grid s4 then FEATURE_LOCAL_BEATGRID OR if_requested se FEATURE_GRID_LOCKING else 0))"

definition apta_internal_s4_mark_published :: "apta_session \<Rightarrow> apta_session" where
  "apta_internal_s4_mark_published se =
     se\<lparr>se_s4 := (se_s4 se)\<lparr>s4_published_serial := s4_mutation_serial (se_s4 se)\<rparr>\<rparr>"

definition apta_internal_s6_pending_features :: "apta_session \<Rightarrow> u64" where
  "apta_internal_s6_pending_features se =
     (case se_s6 se of
        None \<Rightarrow> 0
      | Some s6 \<Rightarrow>
          if s6_mutation_serial s6 = s6_published_serial s6 \<or> \<not> s6_has_global_grid s6 then 0
          else FEATURE_GLOBAL_BEATGRID OR if_requested se FEATURE_DYNAMIC_TEMPO OR if_requested se FEATURE_CONFIDENCE OR
               (if s6_revision_pending s6 then if_requested se FEATURE_GRID_LOCKING else 0))"

definition apta_internal_s6_mark_published :: "apta_session \<Rightarrow> apta_session" where
  "apta_internal_s6_mark_published se =
     se\<lparr>se_s6 := map_option (\<lambda>s6. s6\<lparr>s6_published_serial := s6_mutation_serial s6\<rparr>) (se_s6 se)\<rparr>"

section \<open>Accepting a block\<close>

text \<open>The samples of the accepted node go to the enabled consumers in turn; the first that declines one
  ends the feeding.\<close>

fun feed_samples :: "engine \<Rightarrow> pcm_block \<Rightarrow> u64 list \<Rightarrow> apta_session \<Rightarrow> apta_session" where
  "feed_samples eg block [] se = se"
| "feed_samples eg block (f # fs) se =
     (case (if has_feature (se_config se) FEATURE_WAVEFORM_DETAIL
            then apta_internal_detail_process_sample eg se block f else (STATUS_OK, se)) of
        (status1, se1) \<Rightarrow>
          if status1 \<noteq> STATUS_OK then se1
          else
            (case (if apta_s4_enabled se1 then eg_s4_sample eg se1 f else (STATUS_OK, se1)) of
               (status2, se2) \<Rightarrow>
                 if status2 \<noteq> STATUS_OK then se2
                 else
                   (case (if apta_s6_enabled se2 then eg_s6_sample eg se2 f else (STATUS_OK, se2)) of
                      (status3, se3) \<Rightarrow> if status3 \<noteq> STATUS_OK then se3 else feed_samples eg block fs se3)))"

definition accept_base :: "engine \<Rightarrow> apta_session \<Rightarrow> pcm_block \<Rightarrow> (apta_status \<times> u32 \<times> apta_session) outcome" where
  "accept_base eg se block =
     obind (apta_internal_waveform_accept_pcm_base (eg_host eg) (eg_sizes eg) (se_intake se)
              (pb_first_frame block) (pb_frame_count block)) (\<lambda>(status, accepted, st).
     let se1 = se\<lparr>se_intake := st\<rparr>
     in Ret (status, accepted, if accepted = 0 then se1 else se1\<lparr>se_signal := eg_copy eg se1 block accepted\<rparr>))"

definition feed_accepted :: "engine \<Rightarrow> apta_session \<Rightarrow> pcm_block \<Rightarrow> u32 \<Rightarrow> apta_session" where
  "feed_accepted eg se block accepted =
     (let q = in_queue (se_intake se)
      in if q = [] \<or> pn_frame_count (last q) \<noteq> accepted \<or> pn_first_frame (last q) \<noteq> pb_first_frame block then se
         else
           let se1 = feed_samples eg block (block_frames block accepted) se
           in if has_feature (se_config se1) FEATURE_WAVEFORM_DETAIL
              then apta_internal_detail_refresh_completed se1 else se1)"

definition apta_internal_waveform_accept_pcm ::
    "engine \<Rightarrow> apta_session \<Rightarrow> pcm_block \<Rightarrow> (apta_status \<times> u32 \<times> apta_session) outcome" where
  "apta_internal_waveform_accept_pcm eg se block =
     (let detail_enabled = has_feature (se_config se) FEATURE_WAVEFORM_DETAIL;
          last_frame = pb_first_frame block + ucast (pb_frame_count block) - 1
      in if detail_enabled \<and> pb_frame_count block \<noteq> 0 \<and>
            ucast (UINT32_MAX div DETAIL_COLUMNS_PER_TILE) < last_frame div DETAIL_TILE_FRAMES
         then Ret (ERROR_LIMIT_EXCEEDED, 0, se)
         else
           (case (if apta_s4_enabled se then apta_internal_s4_prepare eg se else (STATUS_OK, se)) of
              (status1, se1) \<Rightarrow>
                if failed status1 then Ret (status1, 0, se1)
                else
                  (case (if apta_s6_enabled se1 then apta_internal_s6_prepare eg se1 else (STATUS_OK, se1)) of
                     (status2, se2) \<Rightarrow>
                       if failed status2 then Ret (status2, 0, se2)
                       else
                         obind (accept_base eg se2 block) (\<lambda>(status, accepted, se3).
                         case (if status = ERROR_CONFLICT \<and> detail_enabled
                               then apta_internal_detail_accept_replay eg se3 block
                               else (STATUS_NOT_AVAILABLE, accepted, se3)) of
                           (replay_status, replayed, se4) \<Rightarrow>
                             if replay_status \<noteq> STATUS_NOT_AVAILABLE then Ret (replay_status, replayed, se4)
                             else if failed status \<or> replayed = 0 \<or>
                                     (\<not> detail_enabled \<and> \<not> apta_s4_enabled se4 \<and> \<not> apta_s6_enabled se4)
                             then Ret (status, replayed, se4)
                             else Ret (status, replayed, feed_accepted eg se4 block replayed)))))"

end
