(* ===== verification/Apta_Process_Layers.thy ===== *)
theory Apta_Process_Layers
  imports Apta_Process Apta_Analysis
begin

text \<open>
  The outer layers of the waveform step: the layer of \<^verbatim>\<open>src/waveform/apta_waveform_process_detail.c\<close>
  (sorting of the queue, reservation of accumulators in a workspace, detail), the layer of
  \<^verbatim>\<open>src/tempo/apta_s4_process.c\<close> and the one of \<^verbatim>\<open>src/beatgrid/apta_s6_process.c\<close>.  Each calls the one
  before it.  What the innermost layer guarantees (\<open>base_spec\<close>) holds of all of them.
\<close>

section \<open>Reservation\<close>

definition apta_process_accumulator_exists :: "apta_session \<Rightarrow> u32 \<Rightarrow> bool" where
  "apta_process_accumulator_exists se c \<longleftrightarrow>
     (let as = ov_accumulators (se_overview se); low = search_column as c 0 (length as)
      in low < length as \<and> ac_column_index (as ! low) = c)"

definition first_column :: "apta_session \<Rightarrow> pcm_node \<Rightarrow> u64" where
  "first_column se n = node_first n div ucast (se_overview_frames_per_column se)"

definition last_column :: "apta_session \<Rightarrow> pcm_node \<Rightarrow> u64" where
  "last_column se n = (node_end n - 1) div ucast (se_overview_frames_per_column se)"

text \<open>The list is the part of the queue in front of the node that ends the search.\<close>

definition apta_process_column_seen_before_node :: "apta_session \<Rightarrow> pcm_node list \<Rightarrow> u32 \<Rightarrow> bool" where
  "apta_process_column_seen_before_node se before c \<longleftrightarrow>
     list_ex (\<lambda>n. pn_processed_frames n < pn_frame_count n \<and> first_column se n \<le> ucast c \<and> ucast c \<le> last_column se n) before"

fun count_columns :: "apta_session \<Rightarrow> pcm_node list \<Rightarrow> u32 list \<Rightarrow> u32 \<Rightarrow> u32 outcome" where
  "count_columns se before [] additional = Ret additional"
| "count_columns se before (c # cs) additional =
     (if apta_process_accumulator_exists se c \<or> apta_process_column_seen_before_node se before c
      then count_columns se before cs additional
      else if additional = UINT32_MAX then Fail ERROR_LIMIT_EXCEEDED
      else count_columns se before cs (additional + 1))"

definition column_list :: "u64 \<Rightarrow> u64 \<Rightarrow> u32 list" where
  "column_list first final = map (\<lambda>i. ucast (first + of_nat i)) [0..<unat final + 1 - unat first]"

fun count_nodes :: "apta_session \<Rightarrow> pcm_node list \<Rightarrow> pcm_node list \<Rightarrow> u32 \<Rightarrow> u32 outcome" where
  "count_nodes se before [] additional = Ret additional"
| "count_nodes se before (n # ns) additional =
     (if pn_frame_count n \<le> pn_processed_frames n \<or> node_end n \<le> node_first n
      then count_nodes se (before @ [n]) ns additional
      else if se_overview_frames_per_column se = 0 then Fault
      else if ucast UINT32_MAX < last_column se n then Fail ERROR_LIMIT_EXCEEDED
      else
        obind (count_columns se before (column_list (first_column se n) (last_column se n)) additional) (\<lambda>more.
        count_nodes se (before @ [n]) ns more))"

definition reserve_columns :: "engine \<Rightarrow> apta_session \<Rightarrow> u32 \<Rightarrow> apta_status \<times> apta_session" where
  "reserve_columns eg se additional =
     (let n = of_nat (length (ov_accumulators (se_overview se)))
      in if additional = 0 then (STATUS_OK, se)
         else if UINT32_MAX - additional < n then (ERROR_LIMIT_EXCEEDED, se)
         else if n + additional \<le> ov_capacity (se_overview se) then (STATUS_OK, se)
         else
           (case grown_capacity (eg_sizes eg) se (n + additional) of
              None \<Rightarrow> (ERROR_LIMIT_EXCEEDED, se)
            | Some capacity \<Rightarrow>
                replace_accumulators eg se capacity
                  (apta_internal_session_allocate (eg_host eg) (se_memory se)
                     (ucast capacity * sizeof_accumulator (eg_sizes eg)) 8) True))"

definition apta_process_workspace_reserve_accumulators :: "engine \<Rightarrow> apta_session \<Rightarrow> (apta_status \<times> apta_session) outcome" where
  "apta_process_workspace_reserve_accumulators eg se =
     (if \<not> uses_workspace se \<or> queue se = [] then Ret (STATUS_OK, se)
      else
        (case count_nodes se [] (queue se) 0 of
           Ret additional \<Rightarrow> Ret (reserve_columns eg se additional)
         | Fail e \<Rightarrow> Ret (e, se)
         | Fault \<Rightarrow> Fault))"

section \<open>The order of the queue\<close>

definition apta_process_score_node :: "apta_session \<Rightarrow> pcm_node \<Rightarrow> schedule_score" where
  "apta_process_score_node se node =
     fold (\<lambda>r score.
         let candidate = apta_internal_scheduler_score_request r
         in if rr_feature_mask (rq_request r) AND FEATURE_WAVEFORM_OVERVIEW \<noteq> 0 \<and>
               frame_ranges_overlap (node_first node) (node_end node) (rr_first_frame (rq_request r)) (rr_end_frame (rq_request r)) \<and>
               score_request_id candidate \<noteq> 0 \<and> apta_internal_scheduler_score_better candidate score
            then candidate else score)
       (se_requests se) (Score (focus_priority se node) 0 0 UINT64_MAX)"

definition apta_process_node_better :: "apta_session \<Rightarrow> pcm_node \<Rightarrow> pcm_node \<Rightarrow> bool" where
  "apta_process_node_better se candidate current \<longleftrightarrow>
     apta_internal_scheduler_score_better (apta_process_score_node se candidate) (apta_process_score_node se current)"

fun insert_node :: "apta_session \<Rightarrow> pcm_node \<Rightarrow> pcm_node list \<Rightarrow> pcm_node list" where
  "insert_node se source [] = [source]"
| "insert_node se source (n # ns) =
     (if apta_process_node_better se source n then source # n # ns else n # insert_node se source ns)"

definition sorted_queue :: "apta_session \<Rightarrow> pcm_node list" where
  "sorted_queue se = fold (insert_node se) (queue se) []"

definition apta_process_sort_pcm_queue :: "apta_session \<Rightarrow> u32 \<times> apta_session" where
  "apta_process_sort_pcm_queue se =
     (case sorted_queue se of
        [] \<Rightarrow> (0, with_queue se [])
      | head # rest \<Rightarrow> (score_request_id (apta_process_score_node se head), with_queue se (head # rest)))"

section \<open>The detail layer\<close>

definition stage_priority :: "internal_request \<Rightarrow> internal_request" where
  "stage_priority r =
     (let score = apta_internal_scheduler_score_request r
      in if score_request_id score \<noteq> 0
         then r\<lparr>rq_request := (rq_request r)\<lparr>rr_priority := ucast (effective_priority score)\<rparr>\<rparr> else r)"

definition restore_slot :: "internal_request \<Rightarrow> internal_request \<Rightarrow> internal_request" where
  "restore_slot saved r =
     r\<lparr>rq_request := (rq_request r)\<lparr>rr_feature_mask := rr_feature_mask (rq_request saved),
                                  rr_priority := rr_priority (rq_request saved)\<rparr>\<rparr>"

definition restore_requests :: "apta_session \<Rightarrow> apta_session \<Rightarrow> apta_session" where
  "restore_requests saved se =
     se\<lparr>se_focus := (se_focus se)\<lparr>fo_feature_mask := fo_feature_mask (se_focus saved)\<rparr>,
        se_requests := map2 restore_slot (se_requests saved) (se_requests se)\<rparr>"

definition lift_detail :: "apta_session \<Rightarrow> apta_session" where
  "lift_detail se =
     se\<lparr>se_focus := (if se_has_focus se then lift_focus FEATURE_WAVEFORM_DETAIL (se_focus se) else se_focus se),
        se_requests := map (lift_request FEATURE_WAVEFORM_DETAIL) (se_requests se)\<rparr>"

definition detail_pending :: "apta_session \<Rightarrow> bool" where
  "detail_pending se \<longleftrightarrow> de_mutation_serial (se_detail se) \<noteq> de_published_serial (se_detail se)"

definition mark_detail_published :: "apta_session \<Rightarrow> apta_session" where
  "mark_detail_published se =
     se\<lparr>se_detail := (se_detail se)\<lparr>de_published_serial := de_mutation_serial (se_detail se)\<rparr>\<rparr>"

definition awake :: "apta_status \<Rightarrow> apta_status" where
  "awake status = (if status = STATUS_WOULD_BLOCK then STATUS_OK else status)"

text \<open>The publication at the end of an outer layer: of the given features, unless a result has been
  published already and \<open>always\<close> is not set.\<close>

definition publish_layer ::
    "engine \<Rightarrow> apta_session \<Rightarrow> u64 \<Rightarrow> bool \<Rightarrow> (apta_session \<Rightarrow> apta_session) \<Rightarrow> apta_status \<Rightarrow> bool \<Rightarrow> bool \<Rightarrow> progress \<Rightarrow>
     (apta_status \<times> bool \<times> bool \<times> progress \<times> apta_session) outcome" where
  "publish_layer eg se features always mark_published status did_work published progress =
     obind (if published \<and> \<not> always then Ret (STATUS_OK, se) else apta_internal_publish_result eg se features)
       (\<lambda>(publish_status, se1).
     if failed publish_status then Ret (publish_status, did_work, published, progress, se1)
     else
       let se2 = mark_published se1
       in Ret (awake status, did_work, True,
               progress\<lparr>pg_changed_features := pg_changed_features progress OR features,
                        pg_published_generation := se_generation se2\<rparr>, se2))"

definition apta_internal_waveform_process_s4_base ::
    "engine \<Rightarrow> apta_session \<Rightarrow> work_budget \<Rightarrow> progress \<Rightarrow>
     (apta_status \<times> bool \<times> bool \<times> progress \<times> apta_session) outcome" where
  "apta_internal_waveform_process_s4_base eg se budget progress =
     (let se0 = apta_internal_detail_refresh_completed se;
          detail_changed = detail_pending se0
      in
      case apta_process_sort_pcm_queue (lift_detail se0) of
        (selected_request_id, se1) \<Rightarrow>
          obind (apta_process_workspace_reserve_accumulators eg se1) (\<lambda>(status, se2).
          if failed status then Ret (status, False, False, progress, restore_requests se0 se2)
          else
            obind (apta_internal_waveform_process_base eg (se2\<lparr>se_requests := map stage_priority (se_requests se2)\<rparr>)
                     budget progress) (\<lambda>(status, did_work, published, pg, se3).
            let se4 = restore_requests se0 se3
            in if failed status then Ret (status, did_work, published, pg, se4)
               else
                 let se5 = (if did_work then apta_internal_scheduler_note_choice se4 selected_request_id else se4);
                     se6 = apta_internal_detail_update_request_states se5
                 in if has_feature (se_config se6) FEATURE_WAVEFORM_DETAIL \<and> (detail_changed \<or> detail_pending se6)
                    then publish_layer eg se6 FEATURE_WAVEFORM_DETAIL False mark_detail_published status did_work published pg
                    else Ret (status, did_work, published, pg, se6))))"

section \<open>The tempo and the grid layer\<close>

definition remaining_steps :: "work_budget \<Rightarrow> progress \<Rightarrow> u32" where
  "remaining_steps budget progress =
     (if wb_maximum_steps budget = 0 then UINT32_MAX
      else if pg_completed_steps progress < wb_maximum_steps budget
      then wb_maximum_steps budget - pg_completed_steps progress else 0)"

definition s4_range_moved :: "s4_store \<Rightarrow> s4_store \<Rightarrow> bool" where
  "s4_range_moved old new \<longleftrightarrow>
     s4_requested_range old \<noteq> s4_requested_range new \<or> s4_applicability_range old \<noteq> s4_applicability_range new"

definition bump_moved_range :: "s4_store \<Rightarrow> apta_session \<Rightarrow> apta_session" where
  "bump_moved_range old se =
     (if s4_has_local_grid (se_s4 se) \<and> s4_mutation_serial (se_s4 se) = s4_mutation_serial old \<and>
         s4_range_moved old (se_s4 se)
      then se\<lparr>se_s4 := (se_s4 se)\<lparr>s4_mutation_serial := s4_mutation_serial (se_s4 se) + 1\<rparr>\<rparr> else se)"

text \<open>The analysis behind a layer: \<open>refresh\<close> within the steps left, then the publication of what is
  pending.\<close>

definition analysis_layer ::
    "engine \<Rightarrow> (apta_session \<Rightarrow> u32 \<Rightarrow> apta_status \<times> u32 \<times> apta_session) \<Rightarrow> (apta_session \<Rightarrow> apta_session) \<Rightarrow>
     (apta_session \<Rightarrow> u64) \<Rightarrow> (apta_session \<Rightarrow> apta_session) \<Rightarrow> u32 \<Rightarrow>
     apta_status \<Rightarrow> bool \<Rightarrow> bool \<Rightarrow> progress \<Rightarrow> apta_session \<Rightarrow>
     (apta_status \<times> bool \<times> bool \<times> progress \<times> apta_session) outcome" where
  "analysis_layer eg refresh follow pending_features mark_published steps status did_work published progress se =
     (case deadline_passed eg se of
        (passed, se1) \<Rightarrow>
          (case refresh se1 (if passed then 0 else steps) of
             (refresh_status, refresh_steps, se2) \<Rightarrow>
               if failed refresh_status then Ret (refresh_status, did_work, published, progress, se2)
               else
                 let pg1 = progress\<lparr>pg_completed_steps := pg_completed_steps progress + refresh_steps\<rparr>;
                     did1 = (did_work \<or> refresh_steps \<noteq> 0);
                     status1 = (if refresh_steps \<noteq> 0 then awake status else status);
                     status2 = (if refresh_status = STATUS_MORE_WORK then STATUS_MORE_WORK else status1);
                     se3 = follow se2;
                     pending = pending_features se3
                 in if pending = 0 then Ret (status2, did1, published, pg1, se3)
                    else publish_layer eg se3 pending True mark_published status2 did1 published pg1))"

definition apta_internal_waveform_process_s6_base ::
    "engine \<Rightarrow> apta_session \<Rightarrow> work_budget \<Rightarrow> progress \<Rightarrow>
     (apta_status \<times> bool \<times> bool \<times> progress \<times> apta_session) outcome" where
  "apta_internal_waveform_process_s6_base eg se budget progress =
     obind (apta_internal_waveform_process_s4_base eg (lift_masks S4_FEATURES se) budget progress)
       (\<lambda>(status, did_work, published, pg, se1).
     let se2 = restore_masks se se1
     in if failed status then Ret (status, did_work, published, pg, se2)
        else
          let left = remaining_steps budget pg;
              steps = (if left \<noteq> UINT32_MAX \<and> 1 < left \<and> has_feature (se_config se2) S6_FEATURES then left div 2 else left)
          in analysis_layer eg (eg_s4_refresh eg) (bump_moved_range (se_s4 se)) apta_internal_s4_pending_features
               apta_internal_s4_mark_published steps status did_work published pg se2)"

definition apta_internal_waveform_process ::
    "engine \<Rightarrow> apta_session \<Rightarrow> work_budget \<Rightarrow> progress \<Rightarrow>
     (apta_status \<times> bool \<times> bool \<times> progress \<times> apta_session) outcome" where
  "apta_internal_waveform_process eg se budget progress =
     obind (apta_internal_waveform_process_s6_base eg se budget progress)
       (\<lambda>(status, did_work, published, pg, se1).
     if failed status then Ret (status, did_work, published, pg, se1)
     else
       analysis_layer eg (eg_s6_refresh eg) id apta_internal_s6_pending_features apta_internal_s6_mark_published
         (remaining_steps budget pg) status did_work published pg se1)"

section \<open>The sorted queue\<close>

lemma insert_node_mset: "mset (insert_node se x ns) = add_mset x (mset ns)"
  by (induction ns) auto

lemma insert_node_set [simp]: "set (insert_node se x ns) = insert x (set ns)"
  by (induction ns) auto

lemma insert_node_sorted:
  "sorted (map (apta_process_score_node se) ns) \<Longrightarrow> sorted (map (apta_process_score_node se) (insert_node se x ns))"
  by (induction ns) (auto simp: apta_process_node_better_def less_schedule_score_def [symmetric] not_less intro: less_imp_le order_trans)

text \<open>A node is put behind the nodes of its own score.\<close>

lemma insert_node_stable:
  "sorted (map (apta_process_score_node se) ns) \<Longrightarrow>
   filter (\<lambda>n. apta_process_score_node se n = k) (insert_node se x ns) =
     filter (\<lambda>n. apta_process_score_node se n = k) (ns @ [x])"
proof (induction ns)
  case (Cons n ns)
  let ?f = "apta_process_score_node se"
  show ?case
  proof (cases "apta_process_node_better se x n")
    case True
    then have "?f x < ?f n" by (simp add: apta_process_node_better_def less_schedule_score_def)
    moreover have "\<forall>m\<in>set ns. ?f n \<le> ?f m" using Cons.prems by auto
    ultimately have "\<forall>m\<in>set (n # ns). ?f m \<noteq> ?f x" by auto
    then have "?f x = k \<Longrightarrow> filter (\<lambda>m. ?f m = k) (n # ns) = []" by (auto simp: filter_empty_conv)
    then show ?thesis using True by (cases "?f x = k") auto
  next
    case False
    then show ?thesis using Cons by auto
  qed
qed simp

lemma fold_insert_node:
  assumes "sorted (map (apta_process_score_node se) acc)"
  shows "mset (fold (insert_node se) q acc) = mset acc + mset q"
    "sorted (map (apta_process_score_node se) (fold (insert_node se) q acc))"
    "filter (\<lambda>n. apta_process_score_node se n = k) (fold (insert_node se) q acc) =
       filter (\<lambda>n. apta_process_score_node se n = k) (acc @ q)"
proof -
  have "mset (fold (insert_node se) q acc) = mset acc + mset q \<and>
    sorted (map (apta_process_score_node se) (fold (insert_node se) q acc)) \<and>
    filter (\<lambda>n. apta_process_score_node se n = k) (fold (insert_node se) q acc) =
       filter (\<lambda>n. apta_process_score_node se n = k) (acc @ q)"
    using assms
  proof (induction q arbitrary: acc)
    case (Cons n q)
    show ?case using Cons.IH [OF insert_node_sorted [OF Cons.prems, of n]] insert_node_stable [OF Cons.prems, of k n]
      by (simp add: insert_node_mset)
  qed simp
  then show "mset (fold (insert_node se) q acc) = mset acc + mset q"
    "sorted (map (apta_process_score_node se) (fold (insert_node se) q acc))"
    "filter (\<lambda>n. apta_process_score_node se n = k) (fold (insert_node se) q acc) =
       filter (\<lambda>n. apta_process_score_node se n = k) (acc @ q)" by simp_all
qed

lemma sorted_queue_mset: "mset (sorted_queue se) = mset (queue se)"
  using fold_insert_node(1) [where acc = "[]"] by (simp add: sorted_queue_def)

lemma sorted_queue_sort_key: "sorted_queue se = sort_key (apta_process_score_node se) (queue se)"
proof (rule sym, rule properties_for_sort_key)
  show "mset (sorted_queue se) = mset (queue se)" by (rule sorted_queue_mset)
  show "filter (\<lambda>x. apta_process_score_node se k = apta_process_score_node se x) (sorted_queue se) =
      filter (\<lambda>x. apta_process_score_node se k = apta_process_score_node se x) (queue se)" for k
    using fold_insert_node(3) [where acc = "[]" and k = "apta_process_score_node se k"]
    by (simp add: sorted_queue_def eq_commute)
  show "sorted (map (apta_process_score_node se) (sorted_queue se))"
    using fold_insert_node(2) [where acc = "[]"] by (simp add: sorted_queue_def)
qed

lemma sort_queue_eq:
  "apta_process_sort_pcm_queue se =
     (if queue se = [] then 0 else score_request_id (apta_process_score_node se (hd (sorted_queue se))),
      with_queue se (sorted_queue se))"
proof -
  have "sorted_queue se = [] \<longleftrightarrow> queue se = []" using sorted_queue_mset [of se] by (metis mset_zero_iff)
  then show ?thesis by (cases "sorted_queue se") (simp_all add: apta_process_sort_pcm_queue_def)
qed

text \<open>The order of the queue does not matter to the intake.\<close>

lemma disjoint_nodes_mset:
  "mset q = mset q' \<Longrightarrow> sorted_wrt (\<lambda>m n. node_frames m \<inter> node_frames n = {}) q \<Longrightarrow>
   sorted_wrt (\<lambda>m n. node_frames m \<inter> node_frames n = {}) q'"
proof (induction q' arbitrary: q)
  case (Cons n q')
  have "n \<in> set q" using Cons.prems(1) by (metis list.set_intros(1) set_mset_mset)
  then obtain xs ys where q: "q = xs @ n # ys" by (auto dest: split_list)
  then have "mset (xs @ ys) = mset q'" using Cons.prems(1) by simp
  moreover have "set (xs @ ys) = set q'" using calculation by (metis set_mset_mset)
  moreover have "sorted_wrt (\<lambda>m n. node_frames m \<inter> node_frames n = {}) (xs @ ys)"
    using Cons.prems(2) by (simp add: q sorted_wrt_append)
  moreover have "\<forall>m\<in>set (xs @ ys). node_frames n \<inter> node_frames m = {}"
    using Cons.prems(2) by (auto simp: q sorted_wrt_append)
  ultimately show ?case using Cons.IH [of "xs @ ys"] by simp
qed simp

lemma intake_ok_mset:
  assumes "intake_ok st" "mset q = mset (in_queue st)"
  shows "intake_ok (st\<lparr>in_queue := q\<rparr>)"
proof -
  have s: "set q = set (in_queue st)" using assms(2) by (metis set_mset_mset)
  have "sum_list (map (ucast \<circ> pn_frame_count) q) = (sum_list (map (ucast \<circ> pn_frame_count) (in_queue st)) :: u64)"
    using assms(2) by (metis mset_map sum_mset_sum_list)
  then show ?thesis using assms(1) disjoint_nodes_mset [OF assms(2) [symmetric]] s by (simp add: intake_ok_def)
qed

section \<open>The reservation suffices\<close>

definition node_columns :: "apta_session \<Rightarrow> pcm_node \<Rightarrow> u32 set" where
  "node_columns se n = {c. first_column se n \<le> ucast c \<and> ucast c \<le> last_column se n}"

definition queue_columns :: "apta_session \<Rightarrow> pcm_node list \<Rightarrow> u32 set" where
  "queue_columns se ns = (\<Union>n\<in>set ns. node_columns se n)"

lemma queue_columns_simps [simp]:
  "queue_columns se [] = {}" "queue_columns se (ns @ [n]) = queue_columns se ns \<union> node_columns se n"
  by (auto simp: queue_columns_def)

lemma accumulator_exists_iff:
  "store_sorted (accumulators se) \<Longrightarrow> apta_process_accumulator_exists se c \<longleftrightarrow> c \<in> dom (overview_table se)"
  using find_position(4) [of "accumulators se" c]
  by (auto simp: apta_process_accumulator_exists_def Let_def overview_table_def accumulators_def)

lemma column_seen_iff:
  "\<forall>n\<in>set before. node_ok n \<Longrightarrow> apta_process_column_seen_before_node se before c \<longleftrightarrow> c \<in> queue_columns se before"
  by (auto simp: apta_process_column_seen_before_node_def list_ex_iff queue_columns_def node_columns_def node_ok_def)

lemma count_columns_exact:
  assumes "store_sorted (accumulators se)" "\<forall>n\<in>set before. node_ok n" "distinct cs"
    "count_columns se before cs k = Ret k'"
  shows "unat k' = unat k + card (set cs - queue_columns se before - dom (overview_table se))"
  using assms(3,4)
proof (induction cs arbitrary: k)
  case (Cons c cs)
  let ?old = "queue_columns se before \<union> dom (overview_table se)"
  have old: "apta_process_accumulator_exists se c \<or> apta_process_column_seen_before_node se before c \<longleftrightarrow> c \<in> ?old"
    using accumulator_exists_iff [OF assms(1)] column_seen_iff [OF assms(2)] by auto
  show ?case
  proof (cases "c \<in> ?old")
    case True
    then have "set (c # cs) - queue_columns se before - dom (overview_table se) =
        set cs - queue_columns se before - dom (overview_table se)" by auto
    then show ?thesis using Cons old True by auto
  next
    case False
    then have r: "k \<noteq> UINT32_MAX" "count_columns se before cs (k + 1) = Ret k'" using Cons.prems(2) old by (auto split: if_splits)
    have "unat (k + 1) = unat k + 1" 
  proof -
    have "unat k \<noteq> 4294967295" using r(1) by (simp add: word_eq_iff_unsigned [where 'a = nat] UINT32_MAX_def)
    then show ?thesis using unat_u32_bound [of k] by (simp add: unat_word_ariths)
  qed
    moreover have "set (c # cs) - queue_columns se before - dom (overview_table se) =
        insert c (set cs - queue_columns se before - dom (overview_table se))" using False by auto
    ultimately show ?thesis using Cons.IH [OF _ r(2)] Cons.prems(1) by simp
  qed
qed simp

lemma column_list_set:
  assumes "first \<le> final" "final \<le> ucast UINT32_MAX"
  shows "distinct (column_list first final)" "set (column_list first final) = {c. first \<le> ucast c \<and> ucast c \<le> final}"
proof -
  have b: "unat first \<le> unat final" "unat final \<le> 4294967295" using assms by (simp_all add: word_le_nat_alt)
  have u: "unat (first + of_nat i) = unat first + i" "unat (ucast (first + of_nat i) :: u32) = unat first + i"
    if "i < unat final + 1 - unat first" for i
  proof -
    have "unat first + i \<le> 4294967295" using that b by simp
    then show "unat (first + of_nat i) = unat first + i" by (simp add: unat_word_ariths unat_of_nat)
    then show "unat (ucast (first + of_nat i) :: u32) = unat first + i"
      using \<open>unat first + i \<le> 4294967295\<close> by (simp add: unsigned_ucast_eq take_bit_eq_mod)
  qed
  show "distinct (column_list first final)"
    using u(2) by (auto simp: column_list_def distinct_map inj_on_def) (metis add_left_cancel)
  show "set (column_list first final) = {c. first \<le> ucast c \<and> ucast c \<le> final}"
  proof (intro set_eqI iffI)
    fix c assume "c \<in> set (column_list first final)"
    then obtain i where "i < unat final + 1 - unat first" "c = ucast (first + of_nat i)" by (auto simp: column_list_def)
    then show "c \<in> {c. first \<le> ucast c \<and> ucast c \<le> final}" using u(2) [of i] by (simp add: word_le_nat_alt)
  next
    fix c :: u32 assume "c \<in> {c. first \<le> ucast c \<and> ucast c \<le> final}"
    then have c: "unat first \<le> unat c" "unat c \<le> unat final" by (simp_all add: word_le_nat_alt)
    define i where "i = unat c - unat first"
    have i: "i < unat final + 1 - unat first" "unat c = unat first + i" using c by (simp_all add: i_def)
    then have "unat c = unat (ucast (first + of_nat i) :: u32)" using u(2) [OF i(1)] by simp
    then have "c = ucast (first + of_nat i)" by (simp only: word_eq_iff_unsigned [where 'a = nat])
    moreover note i(1)
    ultimately show "c \<in> set (column_list first final)" unfolding column_list_def by force
  qed
qed

lemma node_frame_column:
  assumes "node_ok n" "f \<in> pending_frames n"
  shows "first_column se n \<le> column64 se f" "column64 se f \<le> last_column se n"
proof -
  note n = node_ok_unat [OF assms(1)]
  have f: "unat (node_first n) \<le> unat f" "unat f < unat (node_end n)"
    using assms(2) by (simp_all add: pending_node word_le_nat_alt word_less_nat_alt)
  have "unat (node_end n - 1) = unat (node_end n) - 1" using f(2) by (intro unat_minus_one) auto
  then show "first_column se n \<le> column64 se f" "column64 se f \<le> last_column se n"
    using f by (simp_all add: first_column_def last_column_def column64_def word_le_nat_alt unat_div div_le_mono)
qed

lemma count_nodes_exact:
  assumes "store_sorted (accumulators se)" "\<forall>n\<in>set (before @ ns). node_ok n"
    "count_nodes se before ns k = Ret k'"
    "unat k = card (queue_columns se before - dom (overview_table se))"
  shows "unat k' = card (queue_columns se (before @ ns) - dom (overview_table se)) \<and>
    (\<forall>n\<in>set ns. last_column se n \<le> ucast UINT32_MAX)"
  using assms(2-4)
proof (induction ns arbitrary: before k)
  case (Cons n ns)
  let ?d = "dom (overview_table se)"
  have n: "node_ok n" using Cons.prems(1) by simp
  note u = node_ok_unat [OF n]
  have "\<not> (pn_frame_count n \<le> pn_processed_frames n \<or> node_end n \<le> node_first n)"
    using u by (simp add: word_le_nat_alt)
  then have r: "last_column se n \<le> ucast UINT32_MAX"
    "obind (count_columns se before (column_list (first_column se n) (last_column se n)) k) (count_nodes se (before @ [n]) ns) = Ret k'"
    using Cons.prems(2) by (simp_all split: if_splits)
  then obtain j where j: "count_columns se before (column_list (first_column se n) (last_column se n)) k = Ret j"
    "count_nodes se (before @ [n]) ns j = Ret k'" by (auto simp: obind_eq_Ret)
  have "node_first n \<in> pending_frames n" using u by (simp add: pending_node word_less_nat_alt)
  from node_frame_column [OF n this, of se] have "first_column se n \<le> last_column se n" by simp
  note cl = column_list_set [OF this r(1)]
  have "unat j = unat k + card (node_columns se n - queue_columns se before - ?d)"
    using count_columns_exact [OF assms(1) _ cl(1) j(1)] Cons.prems(1) cl(2) by (simp add: node_columns_def)
  moreover have "queue_columns se (before @ [n]) - ?d =
      (queue_columns se before - ?d) \<union> (node_columns se n - queue_columns se before - ?d)" by auto
  moreover have "(queue_columns se before - ?d) \<inter> (node_columns se n - queue_columns se before - ?d) = {}" by blast
  ultimately have "unat j = card (queue_columns se (before @ [n]) - ?d)"
    using Cons.prems(3) card_Un_disjoint [of "queue_columns se before - ?d" "node_columns se n - queue_columns se before - ?d"]
    by simp
  from Cons.IH [OF _ j(2) this] show ?case using Cons.prems(1) r(1) by simp
qed simp

text \<open>The columns that are still to be touched.\<close>

definition wanted :: "apta_session \<Rightarrow> u32 set" where
  "wanted se = (\<lambda>f. ucast (column64 se f)) ` pending (queue se)"

lemma count_nodes_total:
  assumes "se_overview_frames_per_column se \<noteq> 0"
  shows "(\<exists>k'. count_nodes se before ns k = Ret k') \<or> count_nodes se before ns k = Fail ERROR_LIMIT_EXCEEDED"
proof -
  have c: "(\<exists>k'. count_columns se before cs k = Ret k') \<or> count_columns se before cs k = Fail ERROR_LIMIT_EXCEEDED" for before cs k
    by (induction cs arbitrary: k) auto
  show ?thesis
  proof (induction ns arbitrary: before k)
    case (Cons n ns)
    show ?case using Cons.IH [of "before @ [n]"] assms c [of before "column_list (first_column se n) (last_column se n)" k]
      by auto blast+
  qed simp
qed

definition reserved :: "apta_session \<Rightarrow> apta_status \<Rightarrow> apta_session \<Rightarrow> bool" where
  "reserved se s se' \<longleftrightarrow> store_step se se' \<and> overview_shape se' \<and> accumulators se' = accumulators se \<and>
     ov_complete_count (se_overview se') = ov_complete_count (se_overview se) \<and> (failed s \<or> s = STATUS_OK)"

lemma reserved_same: "overview_shape se \<Longrightarrow> failed s \<or> s = STATUS_OK \<Longrightarrow> reserved se s se"
  by (simp add: reserved_def)

lemma reserve_columns_spec:
  assumes sh: "overview_shape se" and ws: "uses_workspace se" and r: "reserve_columns eg se k = (s, se')"
  shows "reserved se s se'"
    "s = STATUS_OK \<Longrightarrow> length (accumulators se) + unat k \<le> unat (ov_capacity (se_overview se'))"
proof -
  let ?n = "of_nat (length (accumulators se)) :: u32"
  have sh': "capacity_ok (ov_capacity (se_overview se))" "store_sorted (accumulators se)"
    "length (accumulators se) \<le> unat (ov_capacity (se_overview se))" "se_overview_frames_per_column se \<noteq> 0"
    "\<And>a. ov_memory (se_overview se) \<noteq> Some (a, False)"
    using sh ws by (simp_all add: overview_shape_def Let_def accumulators_def)
  have n: "unat ?n = length (accumulators se)"
    using sh'(3) unat_u32_bound [of "ov_capacity (se_overview se)"] by (simp add: unat_of_nat)
  have err: "failed ERROR_LIMIT_EXCEEDED" "failed ERROR_OUT_OF_MEMORY" "\<not> failed STATUS_OK"
    by (simp_all add: failed_def apta_consts)
  have "reserved se s se' \<and> (s = STATUS_OK \<longrightarrow> length (accumulators se) + unat k \<le> unat (ov_capacity (se_overview se')))"
  proof (cases "k = 0 \<or> UINT32_MAX - k < ?n")
    case True
    then show ?thesis using r reserved_same [OF sh] sh'(3) err
      by (auto simp: reserve_columns_def Let_def accumulators_def [symmetric] split: if_splits)
  next
    case False
    have "unat (UINT32_MAX - k) = 4294967295 - unat k" using unat_u32_bound [of k]
      by (simp add: unat_sub word_le_nat_alt UINT32_MAX_def)
    then have "length (accumulators se) \<le> 4294967295 - unat k" using False n by (simp add: word_less_nat_alt not_less)
    then have le: "length (accumulators se) + unat k \<le> 4294967295" using unat_u32_bound [of k] by arith
    then have nk: "unat (?n + k) = length (accumulators se) + unat k" using n by (simp add: unat_word_ariths)
    show ?thesis
    proof (cases "?n + k \<le> ov_capacity (se_overview se)")
      case True
      then have "s = STATUS_OK" "se' = se" using r False by (simp_all add: reserve_columns_def Let_def accumulators_def [symmetric])
      then show ?thesis using reserved_same [OF sh] True nk by (simp add: word_le_nat_alt)
    next
      case grow: False
      show ?thesis
      proof (cases "grown_capacity (eg_sizes eg) se (?n + k)")
        case None
        then have "s = ERROR_LIMIT_EXCEEDED" "se' = se"
          using r False grow by (simp_all add: reserve_columns_def Let_def accumulators_def [symmetric])
        then show ?thesis using reserved_same [OF sh] err by (simp add: apta_consts)
      next
        case (Some c)
        note c = grown_capacity_Some [OF Some sh'(1)]
        have cl: "length (accumulators se) + unat k \<le> unat c" using c(1) nk by (simp add: word_le_nat_alt)
        obtain p sm where a: "apta_internal_session_allocate (eg_host eg) (se_memory se)
            (ucast c * sizeof_accumulator (eg_sizes eg)) 8 = (p, sm)" by fastforce
        have rr: "replace_accumulators eg se c (p, sm) True = (s, se')"
          using r False grow Some a by (simp add: reserve_columns_def Let_def accumulators_def [symmetric])
        from rr session_allocate_moved [OF a] sh'(5) show ?thesis
        proof (rule replace_accumulators_cases)
          fix q bm sm' assume x: "s = STATUS_OK" "memory_moved (se_memory se) sm'"
            "se' = with_memory (se\<lparr>se_overview := (se_overview se)\<lparr>ov_memory := Some (q, True), ov_band_memory := bm, ov_capacity := c\<rparr>\<rparr>) sm'"
          have acc: "accumulators se' = accumulators se" by (simp add: x(3) accumulators_def)
          have "store_step se se'" unfolding store_step_def
            by (rule exI [of _ "(se_overview se)\<lparr>ov_memory := Some (q, True), ov_band_memory := bm, ov_capacity := c\<rparr>"],
                rule exI [of _ "se_signal se"], rule exI [of _ sm']) (simp add: x)
          moreover have "overview_shape se'" using sh'(2,4) c(2) cl
            by (simp add: overview_shape_def Let_def accumulators_def x(3))
          ultimately show ?thesis using cl x(1) acc by (simp add: reserved_def x(3))
        next
          fix m bm sm' assume x: "s = ERROR_LIMIT_EXCEEDED \<or> s = ERROR_OUT_OF_MEMORY" "memory_moved (se_memory se) sm'"
            "m = ov_memory (se_overview se) \<or> (\<exists>q. m = Some (q, True))"
            "se' = with_memory (se\<lparr>se_overview := (se_overview se)\<lparr>ov_memory := m, ov_band_memory := bm\<rparr>\<rparr>) sm'"
          have acc: "accumulators se' = accumulators se" by (simp add: x(4) accumulators_def)
          have "store_step se se'" unfolding store_step_def
            by (rule exI [of _ "(se_overview se)\<lparr>ov_memory := m, ov_band_memory := bm\<rparr>"],
                rule exI [of _ "se_signal se"], rule exI [of _ sm']) (simp add: x)
          moreover have "m \<noteq> Some (a, False)" for a using x(3) sh'(5) [of a] by (elim disjE exE) simp_all
          then have "overview_shape se'" using sh'(1-4)
            by (simp add: overview_shape_def Let_def accumulators_def x(4))
          ultimately show ?thesis using x(1) acc err by (auto simp: reserved_def x(4) apta_consts)
        qed
      qed
    qed
  qed
  then show "reserved se s se'" "s = STATUS_OK \<Longrightarrow> length (accumulators se) + unat k \<le> unat (ov_capacity (se_overview se'))"
    by simp_all
qed

lemma reserve_spec:
  assumes sh: "overview_shape se" and q: "\<forall>n\<in>set (queue se). node_ok n"
  obtains s se' where "apta_process_workspace_reserve_accumulators eg se = Ret (s, se')" "reserved se s se'"
    "s = STATUS_OK \<Longrightarrow> room (wanted se) se'"
    "s = STATUS_OK \<Longrightarrow> uses_workspace se \<Longrightarrow> \<forall>f\<in>pending (queue se). column64 se f \<le> ucast UINT32_MAX"
proof (cases "\<not> uses_workspace se \<or> queue se = []")
  case True
  have "room (wanted se) se" if "uses_workspace se"
    using True that sh card_dom_table [of "accumulators se"]
    by (simp add: room_def wanted_def overview_table_def overview_shape_def Let_def accumulators_def)
  then have "room (wanted se) se" by (auto simp: room_def)
  then show ?thesis using that [of STATUS_OK se] True reserved_same [OF sh]
    by (auto simp: apta_process_workspace_reserve_accumulators_def)
next
  case False
  have fpc: "se_overview_frames_per_column se \<noteq> 0" and ss: "store_sorted (accumulators se)"
    using sh by (simp_all add: overview_shape_def Let_def accumulators_def)
  from count_nodes_total [OF fpc, of "[]" "queue se" 0] show ?thesis
  proof (elim disjE exE)
    assume "count_nodes se [] (queue se) 0 = Fail ERROR_LIMIT_EXCEEDED"
    then show ?thesis using that [of ERROR_LIMIT_EXCEEDED se] False reserved_same [OF sh]
      by (simp add: apta_process_workspace_reserve_accumulators_def failed_def apta_consts)
  next
    fix k assume k: "count_nodes se [] (queue se) 0 = Ret k"
    have c: "unat k = card (queue_columns se (queue se) - dom (overview_table se))"
      "\<forall>n\<in>set (queue se). last_column se n \<le> ucast UINT32_MAX"
      using count_nodes_exact [OF ss, of "[]" "queue se" 0 k] q k by simp_all
    obtain s se' where r: "reserve_columns eg se k = (s, se')" by fastforce
    have ws: "uses_workspace se" using False by simp
    note rc = reserve_columns_spec [OF sh ws r]
    have small: "column64 se f \<le> ucast UINT32_MAX" "ucast (column64 se f) \<in> queue_columns se (queue se)"
      if f: "f \<in> pending (queue se)" for f
    proof -
      obtain n where n: "n \<in> set (queue se)" "f \<in> pending_frames n" using f by (auto simp: pending_def)
      have nf: "first_column se n \<le> column64 se f" "column64 se f \<le> last_column se n"
        using node_frame_column n q by blast+
      then show le: "column64 se f \<le> ucast UINT32_MAX" using c(2) n(1) order_trans by blast
      show "ucast (column64 se f) \<in> queue_columns se (queue se)"
        using nf n(1) ucast_u32_le [OF le] by (auto simp: queue_columns_def node_columns_def)
    qed
    have "room (wanted se) se'" if "s = STATUS_OK"
    proof -
      let ?d = "dom (overview_table se)"
      have t: "overview_table se' = overview_table se" using rc(1) by (simp add: reserved_def overview_table_def)
      have "wanted se \<union> ?d \<subseteq> (queue_columns se (queue se) - ?d) \<union> ?d" using small(2) by (auto simp: wanted_def)
      then have "card (wanted se \<union> ?d) \<le> card ((queue_columns se (queue se) - ?d) \<union> ?d)" by (intro card_mono) simp_all
      also have "\<dots> = unat k + length (accumulators se)"
        using card_Un_disjoint [of "queue_columns se (queue se) - ?d" ?d] c(1) card_dom_table [OF ss]
        by (simp add: overview_table_def Int_commute Diff_disjoint)
      finally show ?thesis using rc(2) [OF that] by (simp add: room_def t)
    qed
    moreover have "apta_process_workspace_reserve_accumulators eg se = Ret (s, se')"
      using False k r by (simp add: apta_process_workspace_reserve_accumulators_def)
    ultimately show ?thesis using that rc(1) small(1) by blast
  qed
qed

section \<open>Steps beside the overview\<close>

text \<open>Everything the overview, the intake and the results are made of is the same.\<close>

definition same_core :: "apta_session \<Rightarrow> apta_session \<Rightarrow> bool" where
  "same_core se se' \<longleftrightarrow> same_life se se' \<and> se_overview se' = se_overview se \<and> se_intake se' = se_intake se \<and>
     se_result_pool se' = se_result_pool se \<and> se_current_result se' = se_current_result se"

definition calm :: "struct_sizes \<Rightarrow> apta_session \<Rightarrow> apta_session \<Rightarrow> bool" where
  "calm sizes se se' \<longleftrightarrow> worked sizes se se' \<and> processed_frames se' = processed_frames se \<and>
     overview_exact se' = overview_exact se \<and> marked se' = marked se"

lemma same_core_refl [simp]: "same_core se se"
  by (simp add: same_core_def)

lemma same_core_trans: "same_core a b \<Longrightarrow> same_core b c \<Longrightarrow> same_core a c"
  unfolding same_core_def using same_life_trans [of a b c] by simp

lemma calm_refl: "work_ok sizes se \<Longrightarrow> calm sizes se se"
  by (simp add: calm_def worked_refl)

lemma calm_trans: "calm sizes a b \<Longrightarrow> calm sizes b c \<Longrightarrow> calm sizes a c"
  unfolding calm_def using worked_trans [of sizes a b c] by simp

lemma calm_ok: "calm sizes a b \<Longrightarrow> work_ok sizes b"
  by (simp add: calm_def worked_def)

lemma core_calm:
  assumes "same_core se se'" "work_ok sizes se"
  shows "calm sizes se se'"
proof -
  have s: "same_life se se'" "se_overview se' = se_overview se" "se_intake se' = (se_intake se)\<lparr>in_memory := se_memory se\<rparr>"
    using assms(1) by (simp_all add: same_core_def)
  have r: "results_ok sizes se \<Longrightarrow> results_ok sizes se'"
    by (rule results_ok_moved [of sizes se]) (use assms(1) in \<open>simp_all add: same_core_def same_life_def se_memory_def\<close>)
  show ?thesis using same_overview [OF s r assms(2)] by (simp add: calm_def)
qed

lemma core_loop:
  assumes "same_core se se'"
  shows "loop_ok C se' = loop_ok C se" "wanted se' = wanted se" "queue se' = queue se"
proof -
  have a: "se_overview se' = se_overview se" "same_life se se'" "se_intake se' = se_intake se" using assms by (simp_all add: same_core_def)
  note o = overview_cong [OF a(1,2)]
  have c: "column64 se' = column64 se" "within_final se' = within_final se" "uses_workspace se' = uses_workspace se"
    using a by (simp_all add: column64_def within_final_def accepted_frames_def same_life_def fun_eq_iff)
  show q: "queue se' = queue se" using a by (simp add: queue_def)
  show "loop_ok C se' = loop_ok C se" using o(1,2) a(3) by (simp add: loop_ok_def c q)
  show "wanted se' = wanted se" by (simp add: wanted_def c q)
qed

lemma still_calm: "still sizes se se' \<Longrightarrow> work_ok sizes se \<Longrightarrow> calm sizes se se'"
  using still_worked by (simp add: calm_def)

lemma core_updates [simp]:
  "same_core se (se\<lparr>se_detail := d\<rparr>)" "same_core se (se\<lparr>se_requests := rs\<rparr>)" "same_core se (se\<lparr>se_focus := f\<rparr>)"
  "same_core se (se\<lparr>se_focus := f, se_requests := rs\<rparr>)" "same_core se (se\<lparr>se_s4 := a\<rparr>)" "same_core se (se\<lparr>se_s6 := b\<rparr>)"
  "same_core se (se\<lparr>se_clock_reads := n\<rparr>)"
  by (simp_all add: same_core_def same_life_def uses_workspace_def se_memory_def)

lemma core_operations [simp]:
  "same_core se (apta_internal_detail_refresh_completed se)" "same_core se (lift_detail se)" "same_core se (lift_masks m se)"
  "same_core se (restore_requests saved se)" "same_core se (restore_masks saved se)"
  "same_core se (apta_internal_scheduler_note_choice se k)" "same_core se (apta_internal_detail_update_request_states se)"
  "same_core se (mark_detail_published se)" "same_core se (bump_moved_range old se)"
  "same_core se (apta_internal_s4_mark_published se)" "same_core se (apta_internal_s6_mark_published se)"
  "same_core se (snd (deadline_passed eg se))"
  by (simp_all add: apta_internal_detail_refresh_completed_def lift_detail_def lift_masks_def restore_requests_def
      restore_masks_def apta_internal_scheduler_note_choice_def apta_internal_detail_update_request_states_def
      mark_detail_published_def bump_moved_range_def apta_internal_s4_mark_published_def
      apta_internal_s6_mark_published_def deadline_passed_def read_clock_def Let_def split: option.split)

lemma sort_calm:
  assumes "work_ok sizes se" "mset q = mset (queue se)"
  shows "calm sizes se (with_queue se q)" "wanted (with_queue se q) = wanted se"
proof -
  have s: "set q = set (queue se)" using assms(2) by (metis set_mset_mset)
  have ok: "intake_ok (se_intake (with_queue se q))"
    using intake_ok_mset [of "se_intake se" q] assms by (simp add: work_ok_def with_queue_def queue_def)
  have a: "same_life se (with_queue se q)" "se_overview (with_queue se q) = se_overview se"
    by (simp_all add: with_queue_def same_life_def uses_workspace_def se_memory_def)
  have p: "pending q = pending (queue se)" using s by (simp add: pending_def)
  have P: "processed_frames (with_queue se q) = processed_frames se" "accepted_frames (with_queue se q) = accepted_frames se"
    using p by (simp_all add: processed_frames_def accepted_frames_def with_queue_def queue_def)
  note o = overview_cong [OF a(2,1)]
  have c: "column_frames (with_queue se q) = column_frames se" "column64 (with_queue se q) = column64 se"
    "within_final (with_queue se q) = within_final se"
    using a(1) P(2) by (simp_all add: column_frames_def column64_def within_final_def same_life_def fun_eq_iff)
  have "results_ok sizes (with_queue se q)"
    by (rule results_ok_moved [of sizes se]) (use assms(1) in \<open>simp_all add: work_ok_def with_queue_def se_memory_def\<close>)
  then show "calm sizes se (with_queue se q)"
    using assms(1) ok o(1,4) P a(1) c
    by (simp add: calm_def worked_def work_ok_def marked_def o(3)) (simp add: with_queue_def)
  show "wanted (with_queue se q) = wanted se" by (simp add: wanted_def c p)
qed

lemma reserved_calm:
  assumes "reserved se s se'" "work_ok sizes se"
  shows "calm sizes se se'"
proof -
  have st: "store_step se se'" and sh: "overview_shape se'" and acc: "accumulators se' = accumulators se"
    "ov_complete_count (se_overview se') = ov_complete_count (se_overview se)"
    using assms(1) by (simp_all add: reserved_def)
  note v = store_step_view [OF st]
  have fpc: "se_overview_frames_per_column se' = se_overview_frames_per_column se" using v(5) by (simp add: same_life_def)
  have "intake_ok (se_intake se')"
  proof -
    obtain sm where "se_intake se' = (se_intake se)\<lparr>in_memory := sm\<rparr>" using st by (auto simp: store_step_def with_memory_def)
    then show ?thesis using intake_ok_memory assms(2) by (simp add: work_ok_def)
  qed
  moreover have "results_ok sizes se'"
    using processed_only_view(10) [OF store_step_only [OF st]] assms(2) by (simp add: work_ok_def)
  ultimately show ?thesis using sh v assms(2)
    by (simp add: calm_def worked_def work_ok_def overview_exact_def marked_def overview_table_def completed_def acc fpc)
qed

section \<open>Layers\<close>

definition layer_spec :: "struct_sizes \<Rightarrow> apta_session \<Rightarrow> apta_status \<times> bool \<times> bool \<times> progress \<times> apta_session \<Rightarrow> bool" where
  "layer_spec sizes se r \<longleftrightarrow> (case r of (s, did, published, pg, se') \<Rightarrow>
     worked sizes se se' \<and>
     (overview_exact se \<and> (\<not> failed s \<or> uses_workspace se) \<longrightarrow> overview_exact se') \<and>
     (overview_exact se \<longrightarrow> requests_step se se') \<and>
     (\<not> failed s \<longrightarrow> (overview_exact se \<longrightarrow> marked se') \<and>
        unat (pg_consumed_input_frames pg) = card (processed_frames se' - processed_frames se) \<and>
        (pg_consumed_input_frames pg \<noteq> 0 \<longrightarrow> did)))"

lemma base_layer: "base_spec sizes se r \<Longrightarrow> layer_spec sizes se r"
  by (auto simp: base_spec_def layer_spec_def)

text \<open>A quiet step behind a layer that succeeded.\<close>

lemma layer_after:
  assumes "layer_spec sizes se (s, did, pub, pg, se1)" "\<not> failed s" "calm sizes se1 se2"
    "overview_exact se1 \<Longrightarrow> requests_step se1 se2"
    "did \<longrightarrow> did'" "pg_consumed_input_frames pg' = pg_consumed_input_frames pg"
  shows "layer_spec sizes se (s', did', pub', pg', se2)"
proof -
  have w: "worked sizes se se1" "worked sizes se1 se2" using assms(1,3) by (simp_all add: layer_spec_def calm_def)
  have "requests_step se se2" if "overview_exact se"
    using requests_step_trans [of se se1 se2 sizes] assms(1,2,4) w(2) that by (simp add: layer_spec_def)
  then show ?thesis using worked_trans [OF w] assms by (simp add: layer_spec_def calm_def)
qed

text \<open>A publication that failed behind a layer that succeeded.\<close>

lemma layer_refused:
  assumes "layer_spec sizes se (s, did, pub, pg, se1)" "\<not> failed s" "worked sizes se1 se2"
    "overview_exact se1 \<Longrightarrow> overview_exact se2" "requests_step se1 se2" "failed s'"
  shows "layer_spec sizes se (s', did', pub', pg', se2)"
proof -
  have w: "worked sizes se se1" using assms(1) by (simp add: layer_spec_def)
  have "requests_step se se2" if "overview_exact se"
    using requests_step_trans [of se se1 se2 sizes] assms(1,3,5) that by (simp add: layer_spec_def)
  then show ?thesis using worked_trans [OF w assms(3)] assms by (simp add: layer_spec_def)
qed

text \<open>A quiet step in front of a layer.\<close>

lemma layer_before:
  assumes "calm sizes se se0" "layer_spec sizes se0 (s, did, pub, pg, se1)" "overview_exact se \<Longrightarrow> requests_step se0 se1 \<Longrightarrow> requests_step se se1"
  shows "layer_spec sizes se (s, did, pub, pg, se1)"
proof -
  have "worked sizes se se1" using assms(1,2) worked_trans [of sizes se se0 se1] by (simp add: layer_spec_def calm_def)
  moreover have "uses_workspace se0 = uses_workspace se" using assms(1) by (simp add: calm_def worked_def same_life_def)
  ultimately show ?thesis using assms by (auto simp: layer_spec_def calm_def)
qed

section \<open>Lifted masks\<close>

text \<open>Only mask and priority differ, and the mask keeps the overview.\<close>

definition lifted_slot :: "internal_request \<Rightarrow> internal_request \<Rightarrow> bool" where
  "lifted_slot r r' \<longleftrightarrow>
     (\<exists>m p. r' = r\<lparr>rq_request := (rq_request r)\<lparr>rr_feature_mask := m, rr_priority := p\<rparr>\<rparr> \<and>
        (rr_feature_mask (rq_request r) AND FEATURE_WAVEFORM_OVERVIEW \<noteq> 0 \<longrightarrow> m AND FEATURE_WAVEFORM_OVERVIEW \<noteq> 0))"

lemma lifted_refl: "lifted_slot r r"
  unfolding lifted_slot_def by (intro exI [of _ "rr_feature_mask (rq_request r)"] exI [of _ "rr_priority (rq_request r)"]) simp

lemma lifted_trans: "lifted_slot a b \<Longrightarrow> lifted_slot b c \<Longrightarrow> lifted_slot a c"
  by (fastforce simp: lifted_slot_def)

lemma overview_bit: "m AND FEATURE_WAVEFORM_OVERVIEW \<noteq> 0 \<Longrightarrow> lift_mask features m AND FEATURE_WAVEFORM_OVERVIEW \<noteq> 0"
proof -
  have "(m OR f) AND f = f" for f :: u64 by (rule bit_word_eqI) (auto simp: bit_simps)
  moreover have "FEATURE_WAVEFORM_OVERVIEW \<noteq> 0" by (simp add: apta_consts)
  ultimately show "m AND FEATURE_WAVEFORM_OVERVIEW \<noteq> 0 \<Longrightarrow> lift_mask features m AND FEATURE_WAVEFORM_OVERVIEW \<noteq> 0"
    by (simp add: lift_mask_def)
qed

lemma lift_slot: "lifted_slot r (lift_request features r)" "rr_priority (rq_request (lift_request features r)) = rr_priority (rq_request r)"
proof -
  show "lifted_slot r (lift_request features r)" unfolding lifted_slot_def
    by (intro exI [of _ "lift_mask features (rr_feature_mask (rq_request r))"] exI [of _ "rr_priority (rq_request r)"])
      (use overview_bit in \<open>simp add: lift_request_def\<close>)
qed (simp add: lift_request_def)

lemma stage_slot: "lifted_slot r (stage_priority r)"
proof (cases "score_request_id (apta_internal_scheduler_score_request r) = 0")
  case True
  then show ?thesis using lifted_refl by (simp add: stage_priority_def)
next
  case False
  then show ?thesis unfolding lifted_slot_def
    by (intro exI [of _ "rr_feature_mask (rq_request r)"]
        exI [of _ "ucast (effective_priority (apta_internal_scheduler_score_request r))"]) (simp add: stage_priority_def Let_def)
qed

definition restores :: "(internal_request \<Rightarrow> internal_request \<Rightarrow> bool) \<Rightarrow> (internal_request \<Rightarrow> internal_request \<Rightarrow> internal_request) \<Rightarrow> bool" where
  "restores P g \<longleftrightarrow> (\<forall>r l s. P r l \<longrightarrow> lifted_slot r l \<and>
     (rq_request s = rq_request l \<longrightarrow> rq_request (g r s) = rq_request r) \<and> rq_state (g r s) = rq_state s \<and>
     rq_request_id (g r s) = rq_request_id s)"

lemma restores_slot: "restores lifted_slot restore_slot"
  by (auto simp: restores_def lifted_slot_def restore_slot_def)

lemma restores_mask:
  "restores (\<lambda>r l. lifted_slot r l \<and> rr_priority (rq_request l) = rr_priority (rq_request r)) restore_mask"
  by (auto simp: restores_def lifted_slot_def restore_mask_def)

text \<open>A layer run with lifted masks.\<close>

lemma layer_lifted:
  assumes spec: "layer_spec sizes l (s, did, pub, pg, se1)"
    and calms: "calm sizes se l" "calm sizes se1 se2"
    and g: "restores P g" "list_all2 P (se_requests se) (se_requests l)"
    "se_requests se2 = map2 g (se_requests se) (se_requests se1)"
  shows "layer_spec sizes se (s, did, pub, pg, se2)"
proof -
  have "requests_step se se2" if "overview_exact l"
  proof -
    have st: "list_all2 (request_step se1) (se_requests l) (se_requests se1)"
      using spec that by (simp add: layer_spec_def requests_step_def)
    have life: "same_life se1 se2" "processed_frames se1 \<subseteq> processed_frames se2" using calms(2) by (simp_all add: calm_def worked_def)
    have len: "length (se_requests l) = length (se_requests se)" "length (se_requests se1) = length (se_requests se)"
      using g(2) st by (simp_all add: list_all2_conv_all_nth)
    have "request_step se2 (se_requests se ! i) (g (se_requests se ! i) (se_requests se1 ! i))" if "i < length (se_requests se)" for i
    proof -
      let ?r = "se_requests se ! i" and ?l = "se_requests l ! i" and ?s = "se_requests se1 ! i"
      have "request_step se1 ?l ?s" using st that len by (simp add: list_all2_conv_all_nth)
      then have s: "request_step se2 ?l ?s" using request_step_mono [OF life] by simp
      then have e: "rq_request ?s = rq_request ?l" "rq_request_id ?s = rq_request_id ?l" by (simp_all add: request_step_def)
      have "P ?r ?l" using g(2) that by (simp add: list_all2_conv_all_nth)
      then have gr: "lifted_slot ?r ?l" "rq_request (g ?r ?s) = rq_request ?r" "rq_state (g ?r ?s) = rq_state ?s"
        "rq_request_id (g ?r ?s) = rq_request_id ?s" using g(1) e(1) by (simp_all add: restores_def)
      then show ?thesis using s e(2) by (auto simp: request_step_def lifted_slot_def)
    qed
    then show ?thesis using len by (simp add: requests_step_def g(3) list_all2_conv_all_nth)
  qed
  moreover have "worked sizes se se2"
    using spec calms worked_trans [of sizes se l se1] worked_trans [of sizes se se1 se2] by (simp add: layer_spec_def calm_def)
  moreover have "uses_workspace l = uses_workspace se" using calms(1) by (simp add: calm_def worked_def same_life_def)
  ultimately show ?thesis using spec calms by (simp add: layer_spec_def calm_def)
qed

section \<open>The chain\<close>

lemma publish_layer_spec:
  assumes eg: "kernels_ok eg" and spec: "layer_spec (eg_sizes eg) se0 (s, did, pub, pg, se)" "\<not> failed s"
    and g: "\<And>x. same_core x (g x)" "\<And>x. se_requests (g x) = se_requests x"
  shows "\<exists>r. publish_layer eg se features always g s' did pub pg = Ret r \<and> layer_spec (eg_sizes eg) se0 r"
proof -
  have ok: "work_ok (eg_sizes eg) se" using spec(1) by (simp add: layer_spec_def worked_def)
  obtain ps se1 where p: "(if pub \<and> \<not> always then Ret (STATUS_OK, se) else apta_internal_publish_result eg se features) = Ret (ps, se1)"
    "worked (eg_sizes eg) se se1" "overview_exact se \<Longrightarrow> overview_exact se1" "\<not> failed ps \<Longrightarrow> calm (eg_sizes eg) se se1"
    "requests_step se se1"
  proof (cases "pub \<and> \<not> always")
    case True
    then show ?thesis using that [of STATUS_OK se] calm_refl [OF ok] worked_refl [OF ok] requests_step_same [of se se] by simp
  next
    case False
    from publish_worked [OF eg ok, of features] obtain ps se1 where q:
      "apta_internal_publish_result eg se features = Ret (ps, se1)" "worked (eg_sizes eg) se se1"
      "overview_exact se \<Longrightarrow> overview_exact se1" "\<not> failed ps \<Longrightarrow> still (eg_sizes eg) se se1" "requests_step se se1" by metis
    from that [OF _ q(2,3) still_calm [OF q(4) ok] q(5)] False q(1) show ?thesis by simp
  qed
  show ?thesis
  proof (cases "failed ps")
    case True
    then show ?thesis using p(1) layer_refused [OF spec p(2) p(3) p(5) True] by (simp add: publish_layer_def)
  next
    case False
    have c1: "calm (eg_sizes eg) se se1" by (rule p(4) [OF False])
    have ok1: "work_ok (eg_sizes eg) se1" by (rule calm_ok [OF c1])
    have "calm (eg_sizes eg) se (g se1)" by (rule calm_trans [OF c1 core_calm [OF g(1) ok1]])
    moreover have "worked (eg_sizes eg) se1 (g se1)" using core_calm [OF g(1) ok1] by (simp add: calm_def)
    then have "requests_step se (g se1)" by (rule requests_step_trans [OF p(5) requests_step_same [OF g(2)]])
    ultimately show ?thesis using False p(1) layer_after [OF spec, of "g se1" did] by (simp add: publish_layer_def Let_def)
  qed
qed

lemma note_choice_step: "requests_step se (apta_internal_scheduler_note_choice se k)"
proof -
  have "request_step se' r (note_choice_slot k r)" for se' r by (simp add: request_step_def note_choice_slot_def)
  then show ?thesis by (simp add: requests_step_def apta_internal_scheduler_note_choice_def list_all2_conv_all_nth)
qed

lemma detail_update_step: "requests_step se (apta_internal_detail_update_request_states se)"
proof -
  have "request_step se' r (update_detail_request se r)" for se' r
    by (simp add: request_step_def update_detail_request_def Let_def apta_consts)
  then show ?thesis by (simp add: requests_step_def apta_internal_detail_update_request_states_def list_all2_conv_all_nth)
qed

lemma detail_layer_spec:
  assumes eg: "kernels_ok eg" and ok: "work_ok (eg_sizes eg) se"
  shows "\<exists>r. apta_internal_waveform_process_s4_base eg se budget progress = Ret r \<and> layer_spec (eg_sizes eg) se r"
proof -
  let ?sz = "eg_sizes eg"
  define se0 where "se0 = apta_internal_detail_refresh_completed se"
  define lifted where "lifted = lift_detail se0"
  obtain k se1 where k: "apta_process_sort_pcm_queue lifted = (k, se1)" "se1 = with_queue lifted (sorted_queue lifted)"
    by (simp add: sort_queue_eq)
  have c0: "calm ?sz se se0" unfolding se0_def by (rule core_calm [OF _ ok]) simp
  note ok0 = calm_ok [OF c0]
  have cl: "calm ?sz se0 lifted" unfolding lifted_def by (rule core_calm [OF _ ok0]) simp
  note okl = calm_ok [OF cl]
  have c1: "calm ?sz lifted se1" unfolding k(2) by (rule sort_calm(1) [OF okl sorted_queue_mset])
  note ok1 = calm_ok [OF c1]
  have sh1: "overview_shape se1" "\<forall>n\<in>set (queue se1). node_ok n"
    using ok1 by (simp_all add: work_ok_def intake_ok_def queue_def)
  obtain s se2 where r: "apta_process_workspace_reserve_accumulators eg se1 = Ret (s, se2)" "reserved se1 s se2"
    "s = STATUS_OK \<Longrightarrow> room (wanted se1) se2"
    "s = STATUS_OK \<Longrightarrow> uses_workspace se1 \<Longrightarrow> \<forall>f\<in>pending (queue se1). column64 se1 f \<le> ucast UINT32_MAX"
    using reserve_spec [OF sh1, of eg] by blast
  note c2 = reserved_calm [OF r(2) ok1]
  note ok2 = calm_ok [OF c2]
  have rq: "se_requests se0 = se_requests se" "se_requests se1 = map (lift_request FEATURE_WAVEFORM_DETAIL) (se_requests se0)"
    "se_requests se2 = se_requests se1"
    using r(2) store_step_view(6) [of se1 se2]
    by (simp_all add: se0_def apta_internal_detail_refresh_completed_def Let_def k(2) with_queue_def lifted_def lift_detail_def reserved_def)
  have c02: "calm ?sz se se2" by (rule calm_trans [OF c0 calm_trans [OF cl calm_trans [OF c1 c2]]])
  have restored: "layer_spec ?sz se (s', did, pub, pg, restore_requests se0 x)"
    if "layer_spec ?sz l (s', did, pub, pg, x)" "calm ?sz se l" "list_all2 lifted_slot (se_requests se) (se_requests l)"
    for s' did pub pg x l
  proof (rule layer_lifted [OF that(1,2) _ restores_slot that(3)])
    have "work_ok ?sz x" using that(1) by (simp add: layer_spec_def worked_def)
    then show "calm ?sz x (restore_requests se0 x)" by (intro core_calm) simp_all
    show "se_requests (restore_requests se0 x) = map2 restore_slot (se_requests se) (se_requests x)"
      by (simp add: restore_requests_def rq(1))
  qed
  have run: "apta_internal_waveform_process_s4_base eg se budget progress =
      (if failed s then Ret (s, False, False, progress, restore_requests se0 se2)
       else obind (apta_internal_waveform_process_base eg (se2\<lparr>se_requests := map stage_priority (se_requests se2)\<rparr>) budget progress)
         (\<lambda>(status, did_work, published, pg, se3).
            let se4 = restore_requests se0 se3
            in if failed status then Ret (status, did_work, published, pg, se4)
               else
                 let se5 = (if did_work then apta_internal_scheduler_note_choice se4 k else se4);
                     se6 = apta_internal_detail_update_request_states se5
                 in if has_feature (se_config se6) FEATURE_WAVEFORM_DETAIL \<and> (detail_pending se0 \<or> detail_pending se6)
                    then publish_layer eg se6 FEATURE_WAVEFORM_DETAIL False mark_detail_published status did_work published pg
                    else Ret (status, did_work, published, pg, se6)))"
    using k(1) r(1) by (simp add: apta_internal_waveform_process_s4_base_def se0_def [symmetric] lifted_def [symmetric])
  show ?thesis
  proof (cases "failed s")
    case True
    have "layer_spec ?sz se2 (s, False, False, progress, se2)"
      using True worked_refl [OF ok2] requests_step_same [of se2 se2] by (simp add: layer_spec_def)
    moreover have "list_all2 lifted_slot (se_requests se) (se_requests se2)"
      using lift_slot(1) by (simp add: rq list_all2_conv_all_nth)
    ultimately show ?thesis using restored [OF _ c02] True by (simp add: run)
  next
    case False
    then have s: "s = STATUS_OK" using r(2) by (simp add: reserved_def)
    let ?l = "se2\<lparr>se_requests := map stage_priority (se_requests se2)\<rparr>"
    have cL: "calm ?sz se2 ?l" by (rule core_calm [OF _ ok2]) simp
    note okL = calm_ok [OF cL]
    have loop: "loop_ok (wanted se1) ?l"
    proof -
      have v: "column64 se2 = column64 se1" "queue se2 = queue se1" "uses_workspace se2 = uses_workspace se1"
        using store_step_view(5,7) [of se1 se2] r(2) by (simp_all add: reserved_def column64_def same_life_def queue_def fun_eq_iff)
      have "loop_ok (wanted se1) se2" using ok2 r(3,4) [OF s] by (simp add: loop_ok_def work_ok_def v) (auto simp: wanted_def)
      then show ?thesis using core_loop(1) [of se2 ?l] by simp
    qed
    obtain st did pub pg se3 where b: "apta_internal_waveform_process_base eg ?l budget progress = Ret (st, did, pub, pg, se3)"
      "layer_spec ?sz ?l (st, did, pub, pg, se3)"
      using process_base_spec [OF eg okL loop, of budget progress] base_layer by (metis prod_cases5)
    have "list_all2 lifted_slot (se_requests se) (se_requests ?l)"
      using lifted_trans [OF lift_slot(1) stage_slot] by (simp add: rq list_all2_conv_all_nth)
    note l4 = restored [OF b(2) calm_trans [OF c02 cL] this]
    let ?se4 = "restore_requests se0 se3"
    show ?thesis
    proof (cases "failed st")
      case True
      then show ?thesis using l4 False b(1) by (simp add: run Let_def)
    next
      case nf: False
      have ok4: "work_ok ?sz ?se4" using l4 by (simp add: layer_spec_def worked_def)
      define se5 where "se5 = (if did then apta_internal_scheduler_note_choice ?se4 k else ?se4)"
      have c5: "calm ?sz ?se4 se5" unfolding se5_def by (rule core_calm [OF _ ok4]) simp
      have r5: "requests_step ?se4 se5" using note_choice_step requests_step_same [of ?se4 ?se4] by (simp add: se5_def)
      have l5: "layer_spec ?sz se (st, did, pub, pg, se5)" by (rule layer_after [OF l4 nf c5 r5]) simp_all
      let ?se6 = "apta_internal_detail_update_request_states se5"
      have c6: "calm ?sz se5 ?se6" by (rule core_calm [OF _ calm_ok [OF c5]]) simp
      have l6: "layer_spec ?sz se (st, did, pub, pg, ?se6)"
        by (rule layer_after [OF l5 nf c6 detail_update_step]) simp_all
      have run6: "apta_internal_waveform_process_s4_base eg se budget progress =
          (if has_feature (se_config ?se6) FEATURE_WAVEFORM_DETAIL \<and> (detail_pending se0 \<or> detail_pending ?se6)
           then publish_layer eg ?se6 FEATURE_WAVEFORM_DETAIL False mark_detail_published st did pub pg
           else Ret (st, did, pub, pg, ?se6))"
        using False nf b(1) by (simp add: run Let_def se5_def [symmetric] split del: if_split cong del: if_weak_cong)
      show ?thesis
      proof (cases "has_feature (se_config ?se6) FEATURE_WAVEFORM_DETAIL \<and> (detail_pending se0 \<or> detail_pending ?se6)")
        case True
        have m: "se_requests (mark_detail_published x) = se_requests x" for x by (simp add: mark_detail_published_def)
        from publish_layer_spec [where g = mark_detail_published, OF eg l6 nf _ m] show ?thesis
          using True by (simp add: run6)
      next
        case not: False
        then show ?thesis using l6 by (auto simp: run6)
      qed
    qed
  qed
qed

lemma analysis_layer_spec:
  assumes eg: "kernels_ok eg" and spec: "layer_spec (eg_sizes eg) se0 (s, did, pub, pg, se)" "\<not> failed s"
    and refresh: "\<And>x steps. still (eg_sizes eg) x (snd (snd (refresh x steps)))"
    and g: "\<And>x. same_core x (follow x)" "\<And>x. se_requests (follow x) = se_requests x"
      "\<And>x. same_core x (published x)" "\<And>x. se_requests (published x) = se_requests x"
  shows "\<exists>r. analysis_layer eg refresh follow features published steps s did pub pg se = Ret r \<and> layer_spec (eg_sizes eg) se0 r"
proof -
  have ok: "work_ok (eg_sizes eg) se" using spec(1) by (simp add: layer_spec_def worked_def)
  obtain passed se1 where d: "deadline_passed eg se = (passed, se1)" by fastforce
  have c1: "calm (eg_sizes eg) se se1" using core_calm [OF core_operations(12) ok, of eg] d by simp
  have r1: "se_requests se1 = se_requests se"
    using d by (auto simp: deadline_passed_def read_clock_def split: if_splits option.splits)
  obtain rs n se2 where r: "refresh se1 (if passed then 0 else steps) = (rs, n, se2)" by (metis prod_cases3)
  have st: "still (eg_sizes eg) se1 se2" using refresh [of se1 "if passed then 0 else steps"] r by simp
  have c2: "calm (eg_sizes eg) se1 se2" by (rule still_calm [OF st calm_ok [OF c1]])
  have r2: "se_requests se2 = se_requests se" using st r1 by (simp add: still_def)
  note c02 = calm_trans [OF c1 c2]
  note l2 = layer_after [OF spec c02 requests_step_same [OF r2]]
  have c3: "calm (eg_sizes eg) se (follow se2)" by (rule calm_trans [OF c02 core_calm [OF g(1) calm_ok [OF c02]]])
  have r3: "se_requests (follow se2) = se_requests se" by (simp add: g(2) r2)
  define pg1 where "pg1 = pg\<lparr>pg_completed_steps := pg_completed_steps pg + n\<rparr>"
  define did1 where "did1 = (did \<or> n \<noteq> 0)"
  have l3: "layer_spec (eg_sizes eg) se0 (s', did1, pub, pg1, follow se2)" for s'
    by (rule layer_after [OF spec c3 requests_step_same [OF r3]]) (simp_all add: did1_def pg1_def)
  let ?s2 = "if rs = STATUS_MORE_WORK then STATUS_MORE_WORK else if n \<noteq> 0 then awake s else s"
  have run: "analysis_layer eg refresh follow features published steps s did pub pg se =
      (if failed rs then Ret (rs, did, pub, pg, se2)
       else if features (follow se2) = 0 then Ret (?s2, did1, pub, pg1, follow se2)
       else publish_layer eg (follow se2) (features (follow se2)) True published ?s2 did1 pub pg1)"
    by (simp add: analysis_layer_def d r Let_def did1_def pg1_def)
  show ?thesis
  proof (cases "failed rs \<or> features (follow se2) = 0")
    case True
    then show ?thesis using l3 l2 [of did pg rs pub] by (auto simp: run)
  next
    case False
    from publish_layer_spec [where g = published, OF eg l3 spec(2) g(3,4)] show ?thesis using False by (simp add: run)
  qed
qed

lemma analysis_marks:
  "se_requests (bump_moved_range old x) = se_requests x" "se_requests (apta_internal_s4_mark_published x) = se_requests x"
  "se_requests (apta_internal_s6_mark_published x) = se_requests x"
  by (simp_all add: bump_moved_range_def apta_internal_s4_mark_published_def apta_internal_s6_mark_published_def)

lemma tempo_layer_spec:
  assumes eg: "kernels_ok eg" and ok: "work_ok (eg_sizes eg) se"
  shows "\<exists>r. apta_internal_waveform_process_s6_base eg se budget progress = Ret r \<and> layer_spec (eg_sizes eg) se r"
proof -
  let ?sz = "eg_sizes eg"
  let ?l = "lift_masks S4_FEATURES se"
  have cl: "calm ?sz se ?l" by (rule core_calm [OF _ ok]) simp
  obtain s did pub pg se1 where d: "apta_internal_waveform_process_s4_base eg ?l budget progress = Ret (s, did, pub, pg, se1)"
    "layer_spec ?sz ?l (s, did, pub, pg, se1)"
    using detail_layer_spec [OF eg calm_ok [OF cl], of budget progress] by (metis prod_cases5)
  let ?se2 = "restore_masks se se1"
  have l2: "layer_spec ?sz se (s, did, pub, pg, ?se2)"
  proof (rule layer_lifted [OF d(2) cl _ restores_mask])
    have "work_ok ?sz se1" using d(2) by (simp add: layer_spec_def worked_def)
    then show "calm ?sz se1 ?se2" by (intro core_calm) simp_all
    show "list_all2 (\<lambda>r l. lifted_slot r l \<and> rr_priority (rq_request l) = rr_priority (rq_request r)) (se_requests se) (se_requests ?l)"
      using lift_slot by (simp add: lift_masks_def list_all2_conv_all_nth)
    show "se_requests ?se2 = map2 restore_mask (se_requests se) (se_requests se1)" by (simp add: restore_masks_def)
  qed
  show ?thesis
  proof (cases "failed s")
    case True
    then show ?thesis using d(1) l2 by (simp add: apta_internal_waveform_process_s6_base_def Let_def)
  next
    case False
    have k: "still ?sz x (snd (snd (eg_s4_refresh eg x steps)))" for x steps using eg by (simp add: kernels_ok_def)
    from analysis_layer_spec [where refresh = "eg_s4_refresh eg" and follow = "bump_moved_range (se_s4 se)" and
        published = apta_internal_s4_mark_published, OF eg l2 False k _ analysis_marks(1) _ analysis_marks(2)]
    show ?thesis using d(1) False by (simp add: apta_internal_waveform_process_s6_base_def Let_def)
  qed
qed

lemma waveform_process_spec:
  assumes eg: "kernels_ok eg" and ok: "work_ok (eg_sizes eg) se"
  shows "\<exists>r. apta_internal_waveform_process eg se budget progress = Ret r \<and> layer_spec (eg_sizes eg) se r"
proof -
  obtain s did pub pg se1 where d: "apta_internal_waveform_process_s6_base eg se budget progress = Ret (s, did, pub, pg, se1)"
    "layer_spec (eg_sizes eg) se (s, did, pub, pg, se1)"
    using tempo_layer_spec [OF eg ok, of budget progress] by (metis prod_cases5)
  show ?thesis
  proof (cases "failed s")
    case True
    then show ?thesis using d by (simp add: apta_internal_waveform_process_def)
  next
    case False
    have k: "still (eg_sizes eg) x (snd (snd (eg_s6_refresh eg x steps)))" for x steps using eg by (simp add: kernels_ok_def)
    from analysis_layer_spec [where refresh = "eg_s6_refresh eg" and follow = id and
        published = apta_internal_s6_mark_published, OF eg d(2) False k _ _ _ analysis_marks(3)]
    show ?thesis using d(1) False by (simp add: apta_internal_waveform_process_def)
  qed
qed

end
