(* ===== verification/Apta_Lifecycle.thy ===== *)
theory Apta_Lifecycle
  imports Apta_Process_Layers
begin

text \<open>
  The life of a session: the state machine of \<^verbatim>\<open>src/core/apta_session_lifecycle.c\<close>, its input side
  in \<^verbatim>\<open>src/core/apta_session_source.c\<close>, and the pull adapter of \<^verbatim>\<open>src/core/apta_session_pull.c\<close> and
  \<^verbatim>\<open>src/core/apta_session_pull_activation.c\<close>.  The processing call runs the chain of
  layers of the waveform step; what it does not compute are the parameters of the record \<open>engine\<close>, and
  the host's pull callback is the parameter \<open>reader\<close>, indexed by the number of calls made so far.
\<close>

section \<open>Parameters\<close>

text \<open>A pull source: which callbacks are set, and what \<open>get_total_frames\<close> returns.\<close>

record pcm_source =
  ps_struct_size :: u32
  ps_api_version :: u32
  ps_has_read_frames :: bool
  ps_has_release_frames :: bool
  ps_total_frames :: "u64 option"

type_synonym reader = "nat \<Rightarrow> u64 \<Rightarrow> u32 \<Rightarrow> apta_status \<times> pcm_block"

definition SAMPLE_F32_NATIVE_PLANAR :: u32 where [apta_consts]: "SAMPLE_F32_NATIVE_PLANAR = 5"

section \<open>State transitions\<close>

definition apta_session_transition_is_allowed :: "u32 \<Rightarrow> u32 \<Rightarrow> bool" where
  "apta_session_transition_is_allowed old_state new_state \<longleftrightarrow>
     (if old_state = new_state then True
      else if old_state = SESSION_CREATED
      then new_state = SESSION_ACTIVE \<or> new_state = SESSION_CANCELLED \<or> new_state = SESSION_FAILED
      else if old_state = SESSION_ACTIVE
      then new_state = SESSION_DRAINING \<or> new_state = SESSION_CANCELLED \<or> new_state = SESSION_FAILED
      else if old_state = SESSION_DRAINING
      then new_state = SESSION_COMPLETED \<or> new_state = SESSION_CANCELLED \<or> new_state = SESSION_FAILED
      else False)"

definition apta_internal_session_transition ::
    "engine \<Rightarrow> apta_session \<Rightarrow> u32 \<Rightarrow> (apta_status \<times> apta_session) outcome" where
  "apta_internal_session_transition eg se new_state =
     (let old_state = se_state se
      in if \<not> apta_session_transition_is_allowed old_state new_state then Ret (ERROR_INVALID_STATE, se)
         else if old_state = new_state then Ret (STATUS_OK, se)
         else
           obind (apta_internal_publish_result eg (se\<lparr>se_state := new_state\<rparr>) 0) (\<lambda>(status, se1).
           Ret (status, if failed status then se1\<lparr>se_state := old_state\<rparr> else se1)))"

section \<open>Input\<close>

definition apta_source_format_is_planar :: "u32 \<Rightarrow> bool" where
  "apta_source_format_is_planar fmt \<longleftrightarrow> fmt = SAMPLE_F32_NATIVE_PLANAR"

definition apta_internal_source_validate_pcm_block :: "struct_sizes \<Rightarrow> apta_session \<Rightarrow> pcm_block \<Rightarrow> apta_status" where
  "apta_internal_source_validate_pcm_block sizes se block =
     (if \<not> apta_internal_validate_struct True (sizeof_pcm_block sizes) (pb_struct_size block) (pb_api_version block)
      then ERROR_INCOMPATIBLE_VERSION
      else if pb_frame_count block = 0 \<or> pb_first_frame block = APTA_TOTAL_FRAMES_UNKNOWN \<or>
              UINT64_MAX - ucast (pb_frame_count block) < pb_first_frame block
      then ERROR_INVALID_ARGUMENT
      else
        let fin = pb_first_frame block + ucast (pb_frame_count block);
            channels = unat (sc_channel_count (se_config se))
        in
        if se_end_of_input_signalled se \<and> se_final_end_frame se < fin then ERROR_CONFLICT
        else if sc_total_frames (se_config se) \<noteq> APTA_TOTAL_FRAMES_UNKNOWN \<and>
                sc_total_frames (se_config se) < fin then ERROR_CONFLICT
        else if apta_source_format_is_planar (sc_sample_format (se_config se))
        then
          (if pb_has_data block then ERROR_INVALID_ARGUMENT
           else if \<not> list_all id (take channels (pb_planes block)) then ERROR_INVALID_ARGUMENT
           else if list_ex id (drop channels (pb_planes block)) then ERROR_INVALID_ARGUMENT
           else STATUS_OK)
        else
          (if \<not> pb_has_data block then ERROR_INVALID_ARGUMENT
           else if list_ex id (pb_planes block) then ERROR_INVALID_ARGUMENT
           else STATUS_OK))"

definition apta_session_set_source :: "struct_sizes \<Rightarrow> apta_session \<Rightarrow> pcm_source \<Rightarrow> apta_status \<times> apta_session" where
  "apta_session_set_source sizes se src =
     (if sc_input_mode (se_config se) \<noteq> INPUT_MODE_PULL then (ERROR_INVALID_STATE, se)
      else if se_state se \<noteq> SESSION_CREATED then (ERROR_INVALID_STATE, se)
      else if \<not> apta_internal_validate_struct True (sizeof_pcm_source sizes) (ps_struct_size src) (ps_api_version src)
      then (ERROR_INCOMPATIBLE_VERSION, se)
      else if \<not> ps_has_read_frames src \<or> \<not> ps_has_release_frames src then (ERROR_INVALID_ARGUMENT, se)
      else
        let source_total = (case ps_total_frames src of None \<Rightarrow> APTA_TOTAL_FRAMES_UNKNOWN | Some n \<Rightarrow> n);
            total_known = (sc_total_frames (se_config se) \<noteq> APTA_TOTAL_FRAMES_UNKNOWN)
        in
        if source_total \<noteq> APTA_TOTAL_FRAMES_UNKNOWN \<and> total_known \<and> sc_total_frames (se_config se) \<noteq> source_total
        then (ERROR_CONFLICT, se)
        else
          (STATUS_OK,
           (if source_total \<noteq> APTA_TOTAL_FRAMES_UNKNOWN
            then se\<lparr>se_config := (se_config se)\<lparr>sc_total_frames := source_total\<rparr>\<rparr> else se)
           \<lparr>se_has_pull_source := True\<rparr>))"

definition apta_session_push_pcm ::
    "engine \<Rightarrow> apta_session \<Rightarrow> pcm_block \<Rightarrow> (apta_status \<times> u32 \<times> apta_session) outcome" where
  "apta_session_push_pcm eg se block =
     (if sc_input_mode (se_config se) \<noteq> INPUT_MODE_PUSH then Ret (ERROR_INVALID_STATE, 0, se)
      else if se_state se = SESSION_CANCELLED then Ret (ERROR_CANCELLED, 0, se)
      else if se_state se = SESSION_DRAINING \<or> se_state se = SESSION_COMPLETED \<or> se_state se = SESSION_FAILED
      then Ret (ERROR_INVALID_STATE, 0, se)
      else
        let status = apta_internal_source_validate_pcm_block (eg_sizes eg) se block
        in if failed status then Ret (status, 0, se)
           else
             obind (if se_state se = SESSION_CREATED then apta_internal_session_transition eg se SESSION_ACTIVE
                    else Ret (STATUS_OK, se)) (\<lambda>(status, se1).
             if failed status then Ret (status, 0, se1)
             else if has_feature (se_config se1) FEATURE_WAVEFORM_OVERVIEW then apta_internal_waveform_accept_pcm eg se1 block
             else Ret (STATUS_OK, pb_frame_count block, se1)))"

definition apta_internal_session_signal_end_of_input ::
    "engine \<Rightarrow> apta_session \<Rightarrow> u64 \<Rightarrow> (apta_status \<times> apta_session) outcome" where
  "apta_internal_session_signal_end_of_input eg se final_end_frame =
     (if final_end_frame = APTA_TOTAL_FRAMES_UNKNOWN then Ret (ERROR_INVALID_ARGUMENT, se)
      else if se_end_of_input_signalled se
      then Ret (if se_final_end_frame se = final_end_frame then STATUS_OK else ERROR_CONFLICT, se)
      else if sc_total_frames (se_config se) \<noteq> APTA_TOTAL_FRAMES_UNKNOWN \<and>
              sc_total_frames (se_config se) \<noteq> final_end_frame then Ret (ERROR_CONFLICT, se)
      else if final_end_frame < in_maximum_accepted_end (se_intake se) then Ret (ERROR_CONFLICT, se)
      else if se_state se = SESSION_COMPLETED \<or> se_state se = SESSION_CANCELLED \<or>
              se_state se = SESSION_FAILED \<or> se_state se = SESSION_DRAINING then Ret (ERROR_INVALID_STATE, se)
      else
        obind (if se_state se = SESSION_CREATED then apta_internal_session_transition eg se SESSION_ACTIVE
               else Ret (STATUS_OK, se)) (\<lambda>(status, se1).
        if failed status then Ret (status, se1)
        else
          let old_total = sc_total_frames (se_config se1); old_final = se_final_end_frame se1;
              old_signalled = se_end_of_input_signalled se1;
              se2 = se1\<lparr>se_config := (se_config se1)\<lparr>sc_total_frames := final_end_frame\<rparr>,
                        se_final_end_frame := final_end_frame, se_end_of_input_signalled := True\<rparr>
          in
          obind (apta_internal_session_transition eg se2 SESSION_DRAINING) (\<lambda>(status, se3).
          Ret (status,
               if failed status
               then se3\<lparr>se_config := (se_config se3)\<lparr>sc_total_frames := old_total\<rparr>,
                        se_final_end_frame := old_final, se_end_of_input_signalled := old_signalled\<rparr>
               else se3))))"

definition apta_session_signal_end_of_input ::
    "engine \<Rightarrow> apta_session \<Rightarrow> u64 \<Rightarrow> (apta_status \<times> apta_session) outcome" where
  "apta_session_signal_end_of_input eg se final_end_frame =
     (if final_end_frame = APTA_TOTAL_FRAMES_UNKNOWN then Ret (ERROR_INVALID_ARGUMENT, se)
      else if sc_input_mode (se_config se) \<noteq> INPUT_MODE_PUSH then Ret (ERROR_INVALID_STATE, se)
      else apta_internal_session_signal_end_of_input eg se final_end_frame)"


section \<open>Processing\<close>

definition process_deadline :: "engine \<Rightarrow> apta_session \<Rightarrow> work_budget \<Rightarrow> u64 \<times> apta_session" where
  "process_deadline eg se budget =
     (if wb_soft_time_budget_us budget = 0 then (0, se)
      else
        (case read_clock eg se of
           (None, se1) \<Rightarrow> (0, se1)
         | (Some now, se1) \<Rightarrow>
             let duration = ucast (wb_soft_time_budget_us budget) * 1000
             in (if now = 0 then 0 else if UINT64_MAX - now < duration then UINT64_MAX else now + duration, se1)))"

definition unlock :: "apta_session \<Rightarrow> apta_session" where
  "unlock se = se\<lparr>se_process_deadline_ns := 0, se_process_lock := False\<rparr>"

definition validate_process :: "struct_sizes \<Rightarrow> work_budget \<Rightarrow> (u32 \<times> u32) option \<Rightarrow> apta_status" where
  "validate_process sizes budget progress =
     (if \<not> apta_internal_validate_struct True (sizeof_work_budget sizes) (wb_struct_size budget) (wb_api_version budget)
      then ERROR_INCOMPATIBLE_VERSION
      else
        (case progress of
           None \<Rightarrow> STATUS_OK
         | Some (sz, version) \<Rightarrow>
             if \<not> apta_internal_validate_struct True (sizeof_progress sizes) sz version
             then ERROR_INCOMPATIBLE_VERSION else STATUS_OK))"

text \<open>The progress structure is given by its \<open>struct_size\<close> and \<open>api_version\<close>; the call clears the rest of it,
  and returns what it has written.  It runs from the locked session on in \<open>process_locked\<close>.\<close>

definition cleared_progress :: "u64 \<Rightarrow> progress" where
  "cleared_progress gen = \<lparr>pg_consumed_input_frames = 0, pg_completed_steps = 0, pg_changed_features = 0,
     pg_published_generation = gen\<rparr>"

definition process_locked ::
    "engine \<Rightarrow> apta_session \<Rightarrow> work_budget \<Rightarrow> (apta_status \<times> progress \<times> apta_session) outcome" where
  "process_locked eg se budget =
     (let pg = cleared_progress (se_generation se)
      in
      if se_cancel_requested se
      then
        obind (apta_internal_session_transition eg se SESSION_CANCELLED) (\<lambda>(status, se1).
        Ret (if failed status then status else ERROR_CANCELLED, pg, unlock se1))
      else if se_state se = SESSION_COMPLETED then Ret (STATUS_END_OF_INPUT, pg, unlock se)
      else if se_state se = SESSION_CANCELLED then Ret (ERROR_CANCELLED, pg, unlock se)
      else if se_state se = SESSION_FAILED then Ret (ERROR_INTERNAL, pg, unlock se)
      else
        obind (if has_feature (se_config se) FEATURE_WAVEFORM_OVERVIEW then apta_internal_waveform_process eg se budget pg
               else Ret (STATUS_WOULD_BLOCK, False, False, pg, se)) (\<lambda>(work_status, did_work, published_output, pg1, se1).
        if failed work_status then Ret (work_status, pg1, unlock se1)
        else if se_state se1 = SESSION_DRAINING \<and> in_queue (se_intake se1) = [] \<and> \<not> apta_internal_analysis_pending se1
        then
          obind (apta_internal_session_transition eg se1 SESSION_COMPLETED) (\<lambda>(status, se2).
          Ret (if failed status then status else STATUS_END_OF_INPUT,
               if failed status then pg1 else pg1\<lparr>pg_published_generation := se_generation se2\<rparr>, unlock se2))
        else
          Ret (if did_work \<or> published_output then work_status
               else if work_status = STATUS_MORE_WORK then STATUS_MORE_WORK else STATUS_WOULD_BLOCK,
               pg1, unlock se1)))"

definition apta_session_process_impl ::
    "engine \<Rightarrow> apta_session \<Rightarrow> work_budget \<Rightarrow> (u32 \<times> u32) option \<Rightarrow> bool \<Rightarrow>
     (apta_status \<times> progress option \<times> apta_session) outcome" where
  "apta_session_process_impl eg se budget progress process_lock_held =
     (let status = validate_process (eg_sizes eg) budget progress
      in if failed status then Ret (status, None, se)
         else if \<not> process_lock_held \<and> se_process_lock se then Ret (ERROR_BUSY, None, se)
         else
           (case process_deadline eg (se\<lparr>se_process_lock := True\<rparr>) budget of
              (deadline, se1) \<Rightarrow>
                obind (process_locked eg (se1\<lparr>se_process_deadline_ns := deadline\<rparr>) budget)
                  (\<lambda>(status, pg, se2). Ret (status, map_option (\<lambda>_. pg) progress, se2))))"

definition apta_session_request_cancel :: "apta_session \<Rightarrow> apta_session" where
  "apta_session_request_cancel se = se\<lparr>se_cancel_requested := True\<rparr>"

section \<open>Pull input\<close>

definition apta_pull_source_failure :: "engine \<Rightarrow> apta_session \<Rightarrow> (apta_status \<times> apta_session) outcome" where
  "apta_pull_source_failure eg se =
     obind (apta_internal_session_transition eg se SESSION_FAILED) (\<lambda>(status, se1).
     Ret (if failed status then status else ERROR_SOURCE, se1))"

definition no_frames :: "(apta_status \<times> apta_session) outcome \<Rightarrow> (apta_status \<times> u32 \<times> apta_session) outcome" where
  "no_frames m = obind m (\<lambda>(status, se). Ret (status, 0, se))"

text \<open>The acceptance of a block the callback has handed out, up to its release.\<close>

definition pull_accept ::
    "engine \<Rightarrow> apta_session \<Rightarrow> pcm_request \<Rightarrow> u32 \<Rightarrow> pcm_block \<Rightarrow> (apta_status \<times> u32 \<times> apta_session) outcome" where
  "pull_accept eg se demand request_frames block =
     (let status0 = apta_internal_source_validate_pcm_block (eg_sizes eg) se block;
          status1 =
            (if \<not> failed status0 \<and>
                (pb_first_frame block \<noteq> pq_first_frame demand \<or> request_frames < pb_frame_count block \<or>
                 UINT64_MAX - ucast (pb_frame_count block) < pb_first_frame block \<or>
                 pq_end_frame demand < pb_first_frame block + ucast (pb_frame_count block))
             then ERROR_SOURCE else status0)
      in
      obind (if \<not> failed status1 \<and> se_state se = SESSION_CREATED
             then apta_internal_session_transition eg se SESSION_ACTIVE else Ret (status1, se)) (\<lambda>(status2, se1).
      if \<not> failed status2 \<and> has_feature (se_config se1) FEATURE_WAVEFORM_OVERVIEW
      then apta_internal_waveform_accept_pcm eg se1 block else Ret (status2, 0, se1)))"

text \<open>The frames requested of the callback.\<close>

definition requested_frames :: "work_budget \<Rightarrow> pcm_request \<Rightarrow> u32" where
  "requested_frames budget q =
     (if wb_maximum_input_frames budget \<noteq> 0
      then apta_min_u32 (ucast (pq_end_frame q - pq_first_frame q)) (wb_maximum_input_frames budget)
      else ucast (pq_end_frame q - pq_first_frame q))"

text \<open>The part of the pull behind the callback.\<close>

definition after_read ::
    "engine \<Rightarrow> apta_session \<Rightarrow> pcm_request \<Rightarrow> u32 \<Rightarrow> apta_status \<times> pcm_block \<Rightarrow> (apta_status \<times> u32 \<times> apta_session) outcome" where
  "after_read eg se demand request_frames r =
     (case r of (read_status, block) \<Rightarrow>
        if read_status = STATUS_WOULD_BLOCK then Ret (STATUS_WOULD_BLOCK, 0, se)
        else if read_status = STATUS_END_OF_INPUT
        then (if sc_total_frames (se_config se) \<noteq> APTA_TOTAL_FRAMES_UNKNOWN \<and>
                 pq_first_frame demand \<noteq> sc_total_frames (se_config se)
              then no_frames (apta_pull_source_failure eg se)
              else no_frames (apta_internal_session_signal_end_of_input eg se (pq_first_frame demand)))
        else if read_status \<noteq> STATUS_OK then no_frames (apta_pull_source_failure eg se)
        else
          obind (pull_accept eg se demand request_frames block) (\<lambda>(accept_status, accepted, se3).
          let se4 = se3\<lparr>se_releases := se_releases se3 + 1\<rparr>
          in if failed accept_status
             then (if accept_status = ERROR_RESULT_SLOTS_EXHAUSTED \<or> accept_status = ERROR_OUT_OF_MEMORY \<or>
                      accept_status = ERROR_LIMIT_EXCEEDED
                   then Ret (accept_status, 0, se4)
                   else no_frames (apta_pull_source_failure eg se4))
             else Ret (STATUS_OK, accepted, se4)))"

definition apta_internal_pull_pcm_before_process ::
    "engine \<Rightarrow> reader \<Rightarrow> apta_session \<Rightarrow> work_budget \<Rightarrow> (apta_status \<times> u32 \<times> apta_session) outcome" where
  "apta_internal_pull_pcm_before_process eg rd se budget =
     (if sc_input_mode (se_config se) \<noteq> INPUT_MODE_PULL then Ret (STATUS_OK, 0, se)
      else if \<not> se_has_pull_source se then Ret (ERROR_INVALID_STATE, 0, se)
      else if se_state se = SESSION_DRAINING \<or> se_state se = SESSION_COMPLETED then Ret (STATUS_OK, 0, se)
      else if se_state se = SESSION_CANCELLED then Ret (ERROR_CANCELLED, 0, se)
      else if se_state se = SESSION_FAILED then Ret (ERROR_SOURCE, 0, se)
      else if in_queue (se_intake se) \<noteq> [] then Ret (STATUS_OK, 0, se)
      else
        (case apta_internal_waveform_next_pcm_request se of
           (status, out, se1) \<Rightarrow>
             if status = STATUS_NOT_AVAILABLE
             then (if sc_total_frames (se_config se1) \<noteq> APTA_TOTAL_FRAMES_UNKNOWN
                   then no_frames (apta_internal_session_signal_end_of_input eg se1 (sc_total_frames (se_config se1)))
                   else Ret (STATUS_WOULD_BLOCK, 0, se1))
             else if failed status then Ret (status, 0, se1)
             else
               (case out of
                  None \<Rightarrow> no_frames (apta_pull_source_failure eg se1)
                | Some demand \<Rightarrow>
                    if status \<noteq> STATUS_OK \<or> pq_end_frame demand \<le> pq_first_frame demand
                    then no_frames (apta_pull_source_failure eg se1)
                    else if ucast UINT32_MAX < pq_end_frame demand - pq_first_frame demand
                    then no_frames (apta_pull_source_failure eg se1)
                    else
                      let request_frames = requested_frames budget demand
                      in if request_frames = 0 then Ret (STATUS_WOULD_BLOCK, 0, se1)
                         else after_read eg (se1\<lparr>se_reads := se_reads se1 + 1\<rparr>) demand request_frames
                                (rd (se_reads se1) (pq_first_frame demand) request_frames))))"

text \<open>The public entry point; the layer in between, \<open>apta_session_process_activation_base\<close>, repeats
  the validation and passes the call on.\<close>

definition apta_session_process_activation_base ::
    "engine \<Rightarrow> apta_session \<Rightarrow> work_budget \<Rightarrow> (u32 \<times> u32) option \<Rightarrow> (apta_status \<times> progress option \<times> apta_session) outcome" where
  "apta_session_process_activation_base eg se budget progress =
     (let status = validate_process (eg_sizes eg) budget progress
      in if failed status then Ret (status, None, se)
         else apta_session_process_impl eg se budget progress False)"

definition apta_session_process ::
    "engine \<Rightarrow> reader \<Rightarrow> apta_session \<Rightarrow> work_budget \<Rightarrow> (u32 \<times> u32) option \<Rightarrow>
     (apta_status \<times> progress option \<times> apta_session) outcome" where
  "apta_session_process eg rd se budget progress =
     (let status = validate_process (eg_sizes eg) budget progress
      in if failed status then Ret (status, None, se)
         else if sc_input_mode (se_config se) \<noteq> INPUT_MODE_PULL \<or> se_cancel_requested se
         then apta_session_process_activation_base eg se budget progress
         else if se_process_lock se then Ret (ERROR_BUSY, None, se)
         else
           obind (apta_internal_pull_pcm_before_process eg rd (se\<lparr>se_process_lock := True\<rparr>) budget)
             (\<lambda>(pull_status, pulled_frames, se1).
           if failed pull_status then Ret (pull_status, None, se1\<lparr>se_process_lock := False\<rparr>)
           else apta_session_process_impl eg se1 budget progress True))"

end
