(* ===== verification/Apta_Session_Ok.thy ===== *)
theory Apta_Session_Ok
  imports Apta_Lifecycle
begin

text \<open>
  The invariant of a session, and that every operation of its lifecycle keeps it.
\<close>

section \<open>Fields the memory does not depend on\<close>

lemma memory_updates [simp]:
  "se_memory (se\<lparr>se_state := a\<rparr>) = se_memory se" "se_memory (se\<lparr>se_config := c\<rparr>) = se_memory se"
  "se_memory (se\<lparr>se_process_lock := b\<rparr>) = se_memory se" "se_memory (se\<lparr>se_process_deadline_ns := d\<rparr>) = se_memory se"
  "se_memory (se\<lparr>se_final_end_frame := d\<rparr>) = se_memory se" "se_memory (se\<lparr>se_end_of_input_signalled := b\<rparr>) = se_memory se"
  "se_memory (se\<lparr>se_reads := n\<rparr>) = se_memory se" "se_memory (se\<lparr>se_releases := n\<rparr>) = se_memory se"
  "se_memory (se\<lparr>se_has_pull_source := b\<rparr>) = se_memory se" "se_memory (se\<lparr>se_cancel_requested := b\<rparr>) = se_memory se"
  "se_memory (se\<lparr>se_requests := rs\<rparr>) = se_memory se" "se_memory (se\<lparr>se_focus := fo\<rparr>) = se_memory se"
  "se_memory (se\<lparr>se_has_focus := b\<rparr>) = se_memory se" "se_memory (se\<lparr>se_next_request_id := i\<rparr>) = se_memory se"
  "se_memory (se\<lparr>se_next_enqueue_serial := d\<rparr>) = se_memory se" "se_memory (se\<lparr>se_detail := x\<rparr>) = se_memory se"
  "se_memory (se\<lparr>se_s4 := y\<rparr>) = se_memory se" "se_memory (se\<lparr>se_s6 := z\<rparr>) = se_memory se"
  "se_memory (se\<lparr>se_clock_reads := n\<rparr>) = se_memory se" "se_memory (se\<lparr>se_generation := d\<rparr>) = se_memory se"
  by (simp_all add: se_memory_def)

lemma workspace_cong: "se_memory se' = se_memory se \<Longrightarrow> uses_workspace se' = uses_workspace se"
  by (simp add: uses_workspace_def)

section \<open>Transitions\<close>

lemma transition_spec:
  assumes eg: "kernels_ok eg" and ok: "results_ok (eg_sizes eg) se"
  shows "\<exists>s se'. apta_internal_session_transition eg se n = Ret (s, se') \<and>
    published_still (eg_sizes eg) (se\<lparr>se_state := (if failed s then se_state se else n)\<rparr>) se' \<and>
    (\<not> failed s \<longrightarrow> apta_session_transition_is_allowed (se_state se) n) \<and>
    (\<not> apta_session_transition_is_allowed (se_state se) n \<longrightarrow> s = ERROR_INVALID_STATE \<and> se' = se)"
proof (cases "apta_session_transition_is_allowed (se_state se) n \<and> se_state se \<noteq> n")
  case False
  have "apta_session_transition_is_allowed n n" by (simp add: apta_session_transition_is_allowed_def)
  moreover have "se\<lparr>se_state := se_state se\<rparr> = se" "published_still (eg_sizes eg) se se" using still_published by simp_all
  ultimately show ?thesis using False by (auto simp: apta_internal_session_transition_def Let_def)
next
  case True
  have w: "uses_workspace (x\<lparr>se_state := m\<rparr>) = uses_workspace x" for x m by (rule workspace_cong) simp
  have r: "results_ok (eg_sizes eg) (se\<lparr>se_state := n\<rparr>)"
    by (rule results_ok_cong [OF ok]) (simp_all add: w se_context_def)
  obtain s se' where p: "apta_internal_publish_result eg (se\<lparr>se_state := n\<rparr>) 0 = Ret (s, se')"
    "published_still (eg_sizes eg) (se\<lparr>se_state := n\<rparr>) se'" using publish_still [OF eg r] by blast
  have "results_ok (eg_sizes eg) (se'\<lparr>se_state := se_state se\<rparr>)" if "results_ok (eg_sizes eg) se'"
    by (rule results_ok_cong [OF that]) (simp_all add: w se_context_def)
  then have "published_still (eg_sizes eg) se (se'\<lparr>se_state := se_state se\<rparr>)"
    using p(2) r by (simp add: published_still_def same_life_def w)
  then show ?thesis using True p by (auto simp: apta_internal_session_transition_def Let_def)
qed

section \<open>Accepting frames\<close>

text \<open>A step of the consumers of accepted samples: detail and analysis may change.\<close>

definition settled :: "struct_sizes \<Rightarrow> apta_session \<Rightarrow> apta_session \<Rightarrow> bool" where
  "settled sizes se se' \<longleftrightarrow> same_life se se' \<and> se_requests se' = se_requests se \<and>
     se_has_focus se' = se_has_focus se \<and> se_focus se' = se_focus se \<and> se_overview se' = se_overview se \<and>
     se_intake se' = (se_intake se)\<lparr>in_memory := se_memory se'\<rparr> \<and> (results_ok sizes se \<longrightarrow> results_ok sizes se')"

lemma settled_refl [simp]: "settled sizes se se"
  by (simp add: settled_def)

lemma settled_trans: "settled sizes a b \<Longrightarrow> settled sizes b c \<Longrightarrow> settled sizes a c"
  unfolding settled_def using same_life_trans [of a b c] by simp

lemma still_settled: "still sizes se se' \<Longrightarrow> settled sizes se se'"
  by (simp add: still_def settled_def)

lemma settled_memory:
  assumes "memory_moved (se_memory se) sm"
  shows "settled sizes se (with_memory (se\<lparr>se_detail := d, se_s4 := a, se_s6 := b, se_signal := x\<rparr>) sm)"
proof -
  let ?se = "with_memory (se\<lparr>se_detail := d, se_s4 := a, se_s6 := b, se_signal := x\<rparr>) sm"
  have m: "se_memory ?se = sm" by (simp add: with_memory_def se_memory_def)
  have "results_ok sizes se \<longrightarrow> results_ok sizes ?se"
  proof
    assume "results_ok sizes se"
    then show "results_ok sizes ?se" by (rule results_ok_moved) (use assms in \<open>simp_all add: m\<close>, simp_all add: with_memory_def)
  qed
  moreover have "uses_workspace ?se = uses_workspace se" using assms by (auto simp: uses_workspace_def m memory_moved_def)
  ultimately show ?thesis by (simp add: settled_def same_life_def m) (simp add: with_memory_def)
qed

lemma s4_prepare_settled: "apta_internal_s4_prepare eg se = (s, se') \<Longrightarrow> settled sizes se se'"
proof -
  assume p: "apta_internal_s4_prepare eg se = (s, se')"
  show ?thesis
  proof (cases "\<not> apta_s4_enabled se \<or> s4_onset_bins (se_s4 se) \<noteq> None")
    case True
    then show ?thesis using p by (auto simp: apta_internal_s4_prepare_def)
  next
    case False
    obtain b sm where a: "apta_internal_session_allocate (eg_host eg) (se_memory se)
        (ONSET_BIN_CAPACITY * sizeof_onset_bin (eg_sizes eg)) 8 = (b, sm)" by fastforce
    note m = session_allocate_moved [OF a]
    show ?thesis
    proof (cases b)
      case None
      then have "se' = with_memory se sm" using p False a by (simp add: apta_internal_s4_prepare_def)
      then show ?thesis
        using settled_memory [OF m, where sizes = sizes and d = "se_detail se" and a = "se_s4 se" and b = "se_s6 se" and x = "se_signal se"] by (simp add: with_memory_def)
    next
      case (Some bins)
      obtain f sm1 where f: "apta_internal_session_allocate (eg_host eg) sm (ONSET_BIN_CAPACITY * sizeof_float) 4 = (f, sm1)"
        by fastforce
      note m1 = memory_moved_trans [OF m session_allocate_moved [OF f]]
      have "\<exists>s4. se' = with_memory (se\<lparr>se_s4 := s4\<rparr>) sm1"
        using p False a Some f by (cases f) (auto simp: apta_internal_s4_prepare_def Let_def with_memory_def)
      then obtain s4 where "se' = with_memory (se\<lparr>se_s4 := s4\<rparr>) sm1" by blast
      then show ?thesis
        using settled_memory [OF m1, where sizes = sizes and d = "se_detail se" and a = "s4" and b = "se_s6 se" and x = "se_signal se"] by (simp add: with_memory_def)
    qed
  qed
qed

lemma s6_prepare_settled: "apta_internal_s6_prepare eg se = (s, se') \<Longrightarrow> settled sizes se se'"
proof -
  assume p: "apta_internal_s6_prepare eg se = (s, se')"
  show ?thesis
  proof (cases "\<not> apta_s6_enabled se \<or> se_s6 se \<noteq> None")
    case True
    then show ?thesis using p by (auto simp: apta_internal_s6_prepare_def)
  next
    case False
    obtain a sm where a: "apta_internal_session_allocate (eg_host eg) (se_memory se) (sizeof_s6_session_state (eg_sizes eg)) 8 = (a, sm)"
      by fastforce
    obtain b sm1 where b: "apta_internal_session_allocate (eg_host eg) sm (GLOBAL_BIN_CAPACITY * sizeof_onset_bin (eg_sizes eg)) 8 = (b, sm1)"
      by fastforce
    obtain f sm2 where f: "apta_internal_session_allocate (eg_host eg) sm1 (GLOBAL_BIN_CAPACITY * sizeof_float) 4 = (f, sm2)"
      by fastforce
    obtain t sm3 where t: "apta_internal_session_allocate (eg_host eg) sm2 (ucast GLOBAL_MAX_BEATS * sizeof_beat (eg_sizes eg)) 8 = (t, sm3)"
      by fastforce
    note m = session_allocate_moved [OF a]
    note m3 = memory_moved_trans [OF memory_moved_trans [OF memory_moved_trans [OF m session_allocate_moved [OF b]]
        session_allocate_moved [OF f]] session_allocate_moved [OF t]]
    have freed: "memory_moved x sm3 \<Longrightarrow> memory_moved x (apta_internal_session_deallocate (apta_internal_session_deallocate
        (apta_internal_session_deallocate (apta_internal_session_deallocate sm3 t) f) b) c)" for x c
      by (meson memory_moved_trans session_deallocate_moved)
    have own: "with_memory se x = with_memory (se\<lparr>se_s6 := se_s6 se\<rparr>) x" for x by simp
    have "\<exists>s6 sm'. se' = with_memory (se\<lparr>se_s6 := s6\<rparr>) sm' \<and> memory_moved (se_memory se) sm'"
    proof (cases a)
      case None
      then have "se' = with_memory se sm" using p False a by (simp add: apta_internal_s6_prepare_def)
      then show ?thesis using m own by blast
    next
      case (Some addr)
      show ?thesis
      proof (cases "b = None \<or> t = None \<or> f = None")
        case True
        then have "se' = with_memory se (apta_internal_session_deallocate (apta_internal_session_deallocate
            (apta_internal_session_deallocate (apta_internal_session_deallocate sm3 t) f) b) (Some addr))"
          using p False a Some b f t by (auto simp: apta_internal_s6_prepare_def split: option.splits)
        then show ?thesis using freed [OF m3] own by blast
      next
        case g: False
        then have "\<exists>s6. se' = with_memory (se\<lparr>se_s6 := s6\<rparr>) sm3"
          using p False a Some b f t by (auto simp: apta_internal_s6_prepare_def)
        then show ?thesis using m3 by blast
      qed
    qed
    then obtain s6 sm' where "se' = with_memory (se\<lparr>se_s6 := s6\<rparr>) sm'" "memory_moved (se_memory se) sm'" by blast
    then show ?thesis
      using settled_memory [of se sm', where sizes = sizes and d = "se_detail se" and a = "se_s4 se" and b = s6 and x = "se_signal se"] by (simp add: with_memory_def)
  qed
qed

text \<open>The intake proper.\<close>

lemma ensure_range_moved:
  "apta_ensure_range_capacity host sizes st n = (s, st') \<Longrightarrow> memory_moved (in_memory st) (in_memory st')"
proof -
  assume e: "apta_ensure_range_capacity host sizes st n = (s, st')"
  obtain p sm where a: "apta_internal_session_allocate host (in_memory st)
      (ucast (the (double_capacity n (if in_range_capacity st = 0 then 8 else in_range_capacity st))) * sizeof_range sizes) 8 = (p, sm)"
    by fastforce
  note m = session_allocate_moved [OF a]
  show ?thesis using e a m memory_moved_trans [OF m session_deallocate_moved]
    by (auto simp: apta_ensure_range_capacity_def split: if_splits option.splits)
qed

lemma allocate_node_moved: "allocate_node host sizes sm k = (r, sm') \<Longrightarrow> memory_moved sm sm'"
proof (induction host sizes sm k arbitrary: r sm' rule: allocate_node.induct)
  case (1 host sizes sm k)
  show ?case
  proof (cases "k = 0 \<or> \<not> apta_internal_size_array_fits (sizeof_pcm_node sizes) (ucast k) sizeof_float")
    case True
    then show ?thesis using 1(2) by (subst (asm) allocate_node.simps) (auto split: if_splits)
  next
    case False
    obtain p sm1 where a: "apta_internal_session_allocate host sm (sizeof_pcm_node sizes + ucast k * sizeof_float) 8 = (p, sm1)"
      by fastforce
    note m = session_allocate_moved [OF a]
    show ?thesis
    proof (cases p)
      case None
      then have "allocate_node host sizes sm1 (k div 2) = (r, sm')"
        using 1(2) False a by (subst (asm) allocate_node.simps) auto
      then show ?thesis using 1(1) [of p sm1] False a None memory_moved_trans [OF m] by auto
    next
      case (Some q)
      then have "sm' = sm1" using 1(2) False a by (subst (asm) allocate_node.simps) auto
      then show ?thesis using m by simp
    qed
  qed
qed

lemma accept_moved:
  assumes "apta_internal_waveform_accept_pcm_base host sizes st f k = Ret (s, n, st')"
  shows "memory_moved (in_memory st) (in_memory st')"
proof -
  obtain c conf where p: "apta_nonoverlapping_prefix (in_ranges st) f (apta_min_u32 k (ucast MAX_PUSH_FRAMES)) = (c, conf)"
    by fastforce
  obtain s1 st1 where e: "apta_ensure_range_capacity host sizes st (of_nat (length (in_ranges st)) + 1) = (s1, st1)"
    by fastforce
  obtain r sm where a: "allocate_node host sizes (in_memory st1) c = (r, sm)" by fastforce
  note m1 = ensure_range_moved [OF e]
  note m2 = memory_moved_trans [OF m1 allocate_node_moved [OF a]]
  note m3 = memory_moved_trans [OF m2 session_deallocate_moved]
  show ?thesis using assms p e a m1 m2 m3
    by (auto simp: apta_internal_waveform_accept_pcm_base_def Let_def obind_eq_Ret apta_insert_accepted_range_def
        apta_refresh_accepted_ends_def split: if_splits outcome.splits option.splits prod.splits)
qed

text \<open>Detail.\<close>

lemma settled_core: "same_core se se' \<Longrightarrow> se_requests se' = se_requests se \<Longrightarrow> se_has_focus se' = se_has_focus se \<Longrightarrow>
   se_focus se' = se_focus se \<Longrightarrow> settled sizes se se'"
proof -
  assume c: "same_core se se'" and e: "se_requests se' = se_requests se" "se_has_focus se' = se_has_focus se" "se_focus se' = se_focus se"
  have i: "se_intake se' = se_intake se" using c by (simp add: same_core_def)
  have m: "se_memory se' = se_memory se" using i by (simp add: se_memory_def)
  have "results_ok sizes se \<longrightarrow> results_ok sizes se'"
  proof
    assume "results_ok sizes se"
    then show "results_ok sizes se'" by (rule results_ok_moved) (use c in \<open>simp_all add: m same_core_def same_life_def\<close>)
  qed
  then show "settled sizes se se'" using c e by (simp add: settled_def same_core_def m)
qed

lemma settled_detail [simp]: "settled sizes se (se\<lparr>se_detail := d, se_signal := x\<rparr>)" "settled sizes se (se\<lparr>se_detail := d\<rparr>)"
  by (rule settled_core; simp add: same_core_def same_life_def uses_workspace_def se_memory_def)+

lemma find_or_create_only: "apta_detail_find_or_create_tile se t = (i, se') \<Longrightarrow> \<exists>d. se' = se\<lparr>se_detail := d\<rparr>"
  by (auto simp: apta_detail_find_or_create_tile_def with_tile_def Let_def split: option.splits if_splits
      intro: exI [of _ "se_detail se"])

lemma detail_sample_settled: "apta_internal_detail_process_sample eg se block f = (s, se') \<Longrightarrow> settled sizes se se'"
proof -
  assume p: "apta_internal_detail_process_sample eg se block f = (s, se')"
  obtain i se1 where c: "apta_detail_find_or_create_tile se (ucast (f div DETAIL_TILE_FRAMES)) = (i, se1)" by fastforce
  obtain d where d: "se1 = se\<lparr>se_detail := d\<rparr>" using find_or_create_only [OF c] by blast
  have "settled sizes se (se\<lparr>se_detail := e, se_signal := x\<rparr>)" for e x by simp
  then show ?thesis using p c d settled_detail(2) [of sizes se]
    by (cases i) (auto simp: apta_internal_detail_process_sample_def Let_def with_tile_def split: if_splits)
qed

lemma refresh_detail_settled: "settled sizes se (apta_internal_detail_refresh_completed se)"
  by (simp add: apta_internal_detail_refresh_completed_def Let_def)

lemma replay_samples_settled: "replay_samples eg block fs se = (s, se') \<Longrightarrow> settled sizes se se'"
proof (induction fs arbitrary: se)
  case (Cons f fs)
  obtain s1 se1 where p: "apta_internal_detail_process_sample eg se block f = (s1, se1)" by fastforce
  note m = detail_sample_settled [OF p]
  show ?case using Cons.prems Cons.IH [of se1] p m settled_trans [OF m] by (auto split: if_splits)
qed simp

lemma replay_settled: "apta_internal_detail_accept_replay eg se block = (s, n, se') \<Longrightarrow> settled sizes se se'"
proof -
  assume r: "apta_internal_detail_accept_replay eg se block = (s, n, se')"
  define k where "k = (if ucast MAX_PUSH_FRAMES < pb_frame_count block then ucast MAX_PUSH_FRAMES else pb_frame_count block)"
  obtain s1 se1 where p: "replay_samples eg block (block_frames block k) se = (s1, se1)" by fastforce
  note m = replay_samples_settled [OF p, of sizes]
  note m2 = settled_trans [OF m refresh_detail_settled]
  obtain st out where d: "apta_internal_detail_next_pcm_request_base se = (st, out)" by fastforce
  show ?thesis using r m m2 p d
    by (cases out) (auto simp: apta_internal_detail_accept_replay_def apta_internal_detail_accept_replay_base_def Let_def k_def split: if_splits)
qed

lemma feed_samples_settled:
  assumes eg: "kernels_ok eg"
  shows "settled (eg_sizes eg) se (feed_samples eg block fs se)"
proof (induction fs arbitrary: se)
  case (Cons f fs)
  obtain s1 se1 where p1: "(if has_feature (se_config se) FEATURE_WAVEFORM_DETAIL
      then apta_internal_detail_process_sample eg se block f else (STATUS_OK, se)) = (s1, se1)" by fastforce
  obtain s2 se2 where p2: "(if apta_s4_enabled se1 then eg_s4_sample eg se1 f else (STATUS_OK, se1)) = (s2, se2)" by fastforce
  obtain s3 se3 where p3: "(if apta_s6_enabled se2 then eg_s6_sample eg se2 f else (STATUS_OK, se2)) = (s3, se3)" by fastforce
  have k: "settled (eg_sizes eg) x (snd (eg_s4_sample eg x f))" "settled (eg_sizes eg) x (snd (eg_s6_sample eg x f))" for x
    using eg still_settled by (simp_all add: kernels_ok_def)
  have m1: "settled (eg_sizes eg) se se1" using p1 detail_sample_settled by (auto split: if_splits)
  have m2: "settled (eg_sizes eg) se1 se2" using p2 k(1) [of se1] by (auto split: if_splits)
  have m3: "settled (eg_sizes eg) se2 se3" using p3 k(2) [of se2] by (auto split: if_splits)
  note m12 = settled_trans [OF m1 m2]
  note m13 = settled_trans [OF m12 m3]
  have "feed_samples eg block (f # fs) se =
      (if s1 \<noteq> STATUS_OK then se1 else if s2 \<noteq> STATUS_OK then se2 else if s3 \<noteq> STATUS_OK then se3 else feed_samples eg block fs se3)"
    by (simp add: p1 p2 p3)
  then show ?case using m1 m12 m13 settled_trans [OF m13 Cons.IH] by simp
qed simp

lemma feed_accepted_settled: "kernels_ok eg \<Longrightarrow> settled (eg_sizes eg) se (feed_accepted eg se block n)"
  using settled_trans [OF feed_samples_settled refresh_detail_settled] feed_samples_settled
  by (simp add: feed_accepted_def Let_def)

text \<open>The outcome of the whole intake: that of its innermost layer, and consumers' state.\<close>

definition accepted :: "struct_sizes \<Rightarrow> apta_session \<Rightarrow> u64 \<Rightarrow> u32 \<Rightarrow> apta_session \<Rightarrow> bool" where
  "accepted sizes se f k se' \<longleftrightarrow>
     (\<exists>s n st. accept_spec (se_intake se) f k (s, n, st) \<and> se_intake se' = st\<lparr>in_memory := se_memory se'\<rparr>) \<and>
     same_life se se' \<and> se_requests se' = se_requests se \<and> se_has_focus se' = se_has_focus se \<and>
     se_focus se' = se_focus se \<and> se_overview se' = se_overview se \<and> (results_ok sizes se \<longrightarrow> results_ok sizes se')"

lemma accept_spec_memory: "accept_spec (st\<lparr>in_memory := m\<rparr>) f k r = accept_spec st f k r"
  by (simp add: accept_spec_def)

lemma accept_nothing: "intake_ok st \<Longrightarrow> \<exists>s. accept_spec st f k (s, 0, st)"
  by (intro exI [of _ "if f \<in> covered (in_ranges st) then ERROR_CONFLICT else STATUS_WOULD_BLOCK"])
    (simp add: accept_spec_def apta_consts)

lemma settled_accepted:
  assumes "settled sizes a b" "accepted sizes b f k c" shows "accepted sizes a f k c"
proof -
  obtain s n st where x: "accept_spec (se_intake b) f k (s, n, st)" "se_intake c = st\<lparr>in_memory := se_memory c\<rparr>"
    using assms(2) by (auto simp: accepted_def)
  have e: "se_intake b = (se_intake a)\<lparr>in_memory := se_memory b\<rparr>" using assms(1) by (simp add: settled_def)
  have "accept_spec (se_intake b) f k (s, n, st) = accept_spec (se_intake a) f k (s, n, st)"
    by (subst e, rule accept_spec_memory)
  then show ?thesis using x assms same_life_trans [of a b c] unfolding accepted_def settled_def by (intro conjI exI) simp_all
qed

lemma accepted_settled:
  assumes "accepted sizes a f k b" "settled sizes b c" shows "accepted sizes a f k c"
proof -
  obtain s n st where x: "accept_spec (se_intake a) f k (s, n, st)" "se_intake b = st\<lparr>in_memory := se_memory b\<rparr>"
    using assms(1) by (auto simp: accepted_def)
  have "se_intake c = (se_intake b)\<lparr>in_memory := se_memory c\<rparr>" using assms(2) by (simp add: settled_def)
  then have "se_intake c = st\<lparr>in_memory := se_memory c\<rparr>" by (simp add: x(2))
  then show ?thesis using x(1) assms same_life_trans [of a b c] unfolding accepted_def settled_def
    by (intro conjI exI [of _ s] exI [of _ n] exI [of _ st]) simp_all
qed

lemma unchanged_accepted: "intake_ok (se_intake se) \<Longrightarrow> settled sizes se se' \<Longrightarrow> accepted sizes se f k se'"
proof -
  assume ok: "intake_ok (se_intake se)" and st: "settled sizes se se'"
  obtain s where "accept_spec (se_intake se) f k (s, 0, se_intake se)" using accept_nothing [OF ok] by blast
  then have "accepted sizes se f k se" unfolding accepted_def
    by (intro conjI exI [of _ s] exI [of _ 0] exI [of _ "se_intake se"]) simp_all
  then show ?thesis using accepted_settled st by blast
qed

lemma accept_base_accepted:
  assumes ok: "intake_ok (se_intake se)"
    and k: "pb_frame_count block \<noteq> 0" "unat (pb_first_frame block) + unat (pb_frame_count block) < 18446744073709551616"
  obtains s n se' where "accept_base eg se block = Ret (s, n, se')"
    "accepted sizes se (pb_first_frame block) (pb_frame_count block) se'"
proof -
  obtain s n st where a: "apta_internal_waveform_accept_pcm_base (eg_host eg) (eg_sizes eg) (se_intake se)
      (pb_first_frame block) (pb_frame_count block) = Ret (s, n, st)"
    "accept_spec (se_intake se) (pb_first_frame block) (pb_frame_count block) (s, n, st)"
    using accept_pcm_refines [OF ok k, of "eg_host eg" "eg_sizes eg"] by (metis prod_cases3)
  define x where "x = (if n = 0 then se_signal se else eg_copy eg (se\<lparr>se_intake := st\<rparr>) block n)"
  let ?se = "se\<lparr>se_intake := st, se_signal := x\<rparr>"
  have m: "memory_moved (se_memory se) (se_memory ?se)" using accept_moved [OF a(1)] by (simp add: se_memory_def)
  have "results_ok sizes se \<longrightarrow> results_ok sizes ?se"
  proof
    assume "results_ok sizes se"
    then show "results_ok sizes ?se" by (rule results_ok_moved) (use m in simp_all)
  qed
  moreover have "same_life se ?se" using m by (auto simp: same_life_def uses_workspace_def memory_moved_def)
  moreover have "se_intake ?se = st\<lparr>in_memory := se_memory ?se\<rparr>" by (simp add: se_memory_def)
  ultimately have "accepted sizes se (pb_first_frame block) (pb_frame_count block) ?se"
    using a(2) unfolding accepted_def by (intro conjI exI) simp_all
  moreover have "accept_base eg se block = Ret (s, n, ?se)" using a(1) by (simp add: accept_base_def Let_def x_def)
  ultimately show ?thesis using that by blast
qed

lemma waveform_accept:
  assumes eg: "kernels_ok eg" and ok: "intake_ok (se_intake se)"
    and k: "pb_frame_count block \<noteq> 0" "unat (pb_first_frame block) + unat (pb_frame_count block) < 18446744073709551616"
  obtains s n se' where "apta_internal_waveform_accept_pcm eg se block = Ret (s, n, se')"
    "accepted (eg_sizes eg) se (pb_first_frame block) (pb_frame_count block) se'"
proof (cases "has_feature (se_config se) FEATURE_WAVEFORM_DETAIL \<and> pb_frame_count block \<noteq> 0 \<and>
    ucast (UINT32_MAX div DETAIL_COLUMNS_PER_TILE) <
      (pb_first_frame block + ucast (pb_frame_count block) - 1) div DETAIL_TILE_FRAMES")
  case True
  then show ?thesis using that [of ERROR_LIMIT_EXCEEDED 0 se] unchanged_accepted [OF ok settled_refl]
    by (simp add: apta_internal_waveform_accept_pcm_def Let_def)
next
  case False
  let ?sz = "eg_sizes eg" and ?f = "pb_first_frame block" and ?k = "pb_frame_count block"
  let ?detail = "has_feature (se_config se) FEATURE_WAVEFORM_DETAIL"
  obtain s1 se1 where p1: "(if apta_s4_enabled se then apta_internal_s4_prepare eg se else (STATUS_OK, se)) = (s1, se1)" by fastforce
  obtain s2 se2 where p2: "(if apta_s6_enabled se1 then apta_internal_s6_prepare eg se1 else (STATUS_OK, se1)) = (s2, se2)" by fastforce
  have m1: "settled ?sz se se1" using p1 s4_prepare_settled by (auto split: if_splits)
  have m2: "settled ?sz se1 se2" using p2 s6_prepare_settled by (auto split: if_splits)
  note m12 = settled_trans [OF m1 m2]
  show ?thesis
  proof (cases "failed s1 \<or> failed s2")
    case f: True
    have "\<exists>s se'. apta_internal_waveform_accept_pcm eg se block = Ret (s, 0, se') \<and> settled ?sz se se'"
      using f False p1 p2 m1 m12 by (auto simp: apta_internal_waveform_accept_pcm_def Let_def)
    then show ?thesis using that unchanged_accepted [OF ok] by blast
  next
    case nf: False
    have "intake_ok (se_intake se2)" using m12 ok intake_ok_memory by (metis settled_def)
    from this k obtain s3 n3 se3 where a: "accept_base eg se2 block = Ret (s3, n3, se3)" "accepted ?sz se2 ?f ?k se3"
      by (rule accept_base_accepted)
    note a3 = settled_accepted [OF m12 a(2)]
    obtain s4 n4 se4 where r: "(if s3 = ERROR_CONFLICT \<and> ?detail then apta_internal_detail_accept_replay eg se3 block
        else (STATUS_NOT_AVAILABLE, n3, se3)) = (s4, n4, se4)" by (metis prod_cases3)
    have "settled ?sz se3 se4" using r replay_settled by (auto split: if_splits)
    note a4 = accepted_settled [OF a3 this]
    note a5 = accepted_settled [OF a4 feed_accepted_settled [OF eg, of se4 block n4]]
    have "apta_internal_waveform_accept_pcm eg se block =
        (if s4 \<noteq> STATUS_NOT_AVAILABLE then Ret (s4, n4, se4)
         else if failed s3 \<or> n4 = 0 \<or> (\<not> ?detail \<and> \<not> apta_s4_enabled se4 \<and> \<not> apta_s6_enabled se4) then Ret (s3, n4, se4)
         else Ret (s3, n4, feed_accepted eg se4 block n4))"
    proof -
      have "(?detail \<and> ?k \<noteq> 0 \<and> ucast (UINT32_MAX div DETAIL_COLUMNS_PER_TILE) < (?f + ucast ?k - 1) div DETAIL_TILE_FRAMES) = False"
        "failed s1 = False" "failed s2 = False" using False nf by blast+
      then show ?thesis
        by (simp only: apta_internal_waveform_accept_pcm_def Let_def p1 p2 prod.case if_False a(1) obind.simps r)
    qed
    then show ?thesis using that a4 a5 by (metis (full_types))
  qed
qed

section \<open>The history of the overview\<close>

text \<open>In a workspace the store is exact, and no request is satisfied without its frames.\<close>

definition history_ok :: "apta_session \<Rightarrow> bool" where
  "history_ok se \<longleftrightarrow> (uses_workspace se \<longrightarrow> overview_exact se \<and> requests_true se)"

lemma history_same:
  assumes "same_life se se'" "se_overview se' = se_overview se" "requests_step se se'" "processed_frames se' = processed_frames se"
    "history_ok se"
  shows "history_ok se'"
proof -
  have "request_true se' r'" if "request_step se' r r'" "request_true se r" for r r'
    using that request_true_mono [of se se' r] assms(1,4) by (auto simp: request_true_def request_step_def)
  then have "requests_true se \<Longrightarrow> requests_true se'"
    using assms(3) by (fastforce simp: requests_true_def requests_step_def list_all2_conv_all_nth in_set_conv_nth)
  moreover have "uses_workspace se' = uses_workspace se" using assms(1) by (simp add: same_life_def)
  ultimately show ?thesis using overview_cong(4) [OF assms(2,1,4)] assms(5) by (simp add: history_ok_def)
qed

lemma accepted_frames_new:
  assumes ok: "intake_ok st" and a: "accept_spec st f k (s, n, st')"
  shows "covered (in_ranges st') - pending (in_queue st') = covered (in_ranges st) - pending (in_queue st)"
proof (cases "n = 0")
  case True
  then have "{f ..< f + ucast n} = {}" by simp
  then show ?thesis using True a by (simp add: accept_spec_def)
next
  case False
  then obtain p where q: "in_queue st' = in_queue st @ [\<lparr>pn_address = p, pn_first_frame = f, pn_frame_count = n, pn_processed_frames = 0\<rparr>]"
    and c: "covered (in_ranges st') = covered (in_ranges st) \<union> {f ..< f + ucast n}" "{f ..< f + ucast n} \<inter> covered (in_ranges st) = {}"
    using a by (auto simp: accept_spec_def)
  have "pending (in_queue st') = pending (in_queue st) \<union> {f ..< f + ucast n}"
    by (simp add: q pending_frames_def)
  then show ?thesis using c by blast
qed

lemma accepted_history: "accepted sizes se f k se' \<Longrightarrow> intake_ok (se_intake se) \<Longrightarrow> history_ok se \<Longrightarrow> history_ok se'"
proof -
  assume a: "accepted sizes se f k se'" and ok: "intake_ok (se_intake se)" and h: "history_ok se"
  obtain s n st where x: "accept_spec (se_intake se) f k (s, n, st)" "se_intake se' = st\<lparr>in_memory := se_memory se'\<rparr>"
    using a by (auto simp: accepted_def)
  have "processed_frames se' = processed_frames se"
    using accepted_frames_new [OF ok x(1)] by (simp add: processed_frames_def accepted_frames_def x(2))
  moreover have "requests_step se se'" using a by (intro requests_step_same) (simp add: accepted_def)
  ultimately show ?thesis using history_same [of se se'] a h by (simp add: accepted_def)
qed

lemma intake_below_maximum:
  assumes "intake_ok st" shows "covered (in_ranges st) \<subseteq> {0 ..< in_maximum_accepted_end st}"
proof -
  have ok: "ranges_ok (in_ranges st)" "apta_refresh_accepted_ends st = st" using assms by (simp_all add: intake_ok_def)
  have "in_maximum_accepted_end st = (if in_ranges st = [] then 0 else rg_end (last (in_ranges st)))"
    by (subst ok(2) [symmetric], simp add: apta_refresh_accepted_ends_def last_conv_nth)
  then show ?thesis using covered_below_last [OF ok(1)] by (cases "in_ranges st = []") auto
qed

section \<open>The invariant of a session\<close>

definition known :: "apta_session \<Rightarrow> bool" where
  "known se \<longleftrightarrow> sc_total_frames (se_config se) \<noteq> APTA_TOTAL_FRAMES_UNKNOWN"

definition life_ok :: "apta_session \<Rightarrow> bool" where
  "life_ok se \<longleftrightarrow>
     (se_state se = SESSION_CREATED \<longrightarrow> in_ranges (se_intake se) = []) \<and>
     (known se \<longrightarrow> covered (in_ranges (se_intake se)) \<subseteq> {0 ..< sc_total_frames (se_config se)}) \<and>
     (se_end_of_input_signalled se \<longrightarrow> known se) \<and>
     (se_end_of_input_signalled se \<longrightarrow> sc_total_frames (se_config se) = se_final_end_frame se) \<and>
     (se_state se = SESSION_DRAINING \<or> se_state se = SESSION_COMPLETED \<longrightarrow> se_end_of_input_signalled se)"

definition session_ok :: "struct_sizes \<Rightarrow> apta_session \<Rightarrow> bool" where
  "session_ok sizes se \<longleftrightarrow>
     overview_shape se \<and> intake_ok (se_intake se) \<and> results_ok sizes se \<and> history_ok se \<and> life_ok se"

lemma life_ok_cong:
  assumes "se_state se' = se_state se" "se_config se' = se_config se" "in_ranges (se_intake se') = in_ranges (se_intake se)"
    "se_end_of_input_signalled se' = se_end_of_input_signalled se" "se_final_end_frame se' = se_final_end_frame se"
  shows "life_ok se' = life_ok se"
  using assms by (simp add: life_ok_def known_def)

lemma session_work: "session_ok sizes se \<Longrightarrow> work_ok sizes se"
  by (auto simp: session_ok_def life_ok_def work_ok_def within_final_def accepted_frames_def known_def)


definition moves :: "u32 \<Rightarrow> u32 \<Rightarrow> bool" where
  "moves = apta_session_transition_is_allowed\<^sup>*\<^sup>*"

text \<open>What every operation respects.\<close>

definition advance :: "struct_sizes \<Rightarrow> apta_session \<Rightarrow> apta_session \<Rightarrow> bool" where
  "advance sizes se se' \<longleftrightarrow>
     session_ok sizes se' \<and> moves (se_state se) (se_state se') \<and> uses_workspace se' = uses_workspace se \<and>
     covered (in_ranges (se_intake se)) \<subseteq> covered (in_ranges (se_intake se'))"

lemma moves_refl [simp]: "moves s s" and moves_trans: "moves a b \<Longrightarrow> moves b c \<Longrightarrow> moves a c"
  by (simp_all add: moves_def)

lemma moves_step: "apta_session_transition_is_allowed a b \<Longrightarrow> moves a b"
  by (simp add: moves_def)

lemma advance_trans: "advance sizes a b \<Longrightarrow> advance sizes b c \<Longrightarrow> advance sizes a c"
  unfolding advance_def using moves_trans [of "se_state a" "se_state b" "se_state c"] by auto

text \<open>What the invariant reads: the same in both sessions, but for requests that may have moved
  on and marks that may have been taken away.\<close>

definition same_view :: "apta_session \<Rightarrow> apta_session \<Rightarrow> bool" where
  "same_view se se' \<longleftrightarrow> (se_overview se' = se_overview se \<or> se_overview se' = unmarked (se_overview se)) \<and>
     se_overview_frames_per_column se' = se_overview_frames_per_column se \<and>
     se_end_of_input_signalled se' = se_end_of_input_signalled se \<and> se_final_end_frame se' = se_final_end_frame se \<and>
     uses_workspace se' = uses_workspace se \<and> in_ranges (se_intake se') = in_ranges (se_intake se) \<and>
     in_queue (se_intake se') = in_queue (se_intake se) \<and> requests_step se se'"

lemma view_processed: "same_view se se' \<Longrightarrow> processed_frames se' = processed_frames se"
  by (simp add: same_view_def processed_frames_def accepted_frames_def)

lemma view_history:
  assumes "same_view se se'" "history_ok se"
  shows "overview_shape se' = overview_shape se" "history_ok se'"
proof -
  note v = assms(1) [unfolded same_view_def]
  let ?p = "apta_pool_mark_overview_publication_pending se"
  have p: "se_overview_frames_per_column ?p = se_overview_frames_per_column se" "uses_workspace ?p = uses_workspace se"
    "se_end_of_input_signalled ?p = se_end_of_input_signalled se" "se_final_end_frame ?p = se_final_end_frame se"
    using pending_fields(1) [of se] by (simp_all add: same_life_def)
  have o: "se_overview se' = se_overview se \<or> se_overview se' = se_overview ?p" using v by simp
  show "overview_shape se' = overview_shape se"
    using o v unmarked_overview(3) [of se] p(1,2) by (auto simp: overview_shape_def)
  have P: "processed_frames ?p = processed_frames se" by (simp add: processed_frames_def accepted_frames_def)
  have same: "overview_exact se' = overview_exact x" if "se_overview se' = se_overview x" "processed_frames x = processed_frames se"
      "se_overview_frames_per_column x = se_overview_frames_per_column se"
      "se_end_of_input_signalled x = se_end_of_input_signalled se" "se_final_end_frame x = se_final_end_frame se" for x
    using v that
    by (simp add: overview_exact_def view_processed [OF assms(1)] overview_table_def accumulators_def column_frames_def completed_def)
  have "overview_exact se'" if "overview_exact se"
    using o same [of se] same [OF _ P p(1,3,4)] pending_exact [OF that] that by blast
  moreover have "request_true se' r'" if "request_step se' r r'" "request_true se r" for r r'
    using that v by (auto simp: request_true_def request_step_def range_frames_def view_processed [OF assms(1)])
  then have "requests_true se \<Longrightarrow> requests_true se'"
    using v by (fastforce simp: requests_true_def requests_step_def list_all2_conv_all_nth in_set_conv_nth)
  ultimately show "history_ok se'" using assms(2) v by (simp add: history_ok_def)
qed

lemma still_view: "published_still sizes se se' \<Longrightarrow> same_view se se'"
  using requests_step_same [of se' se] by (simp add: published_still_def same_life_def same_view_def)

lemma still_ok: "published_still sizes se se' \<Longrightarrow> session_ok sizes se \<Longrightarrow> session_ok sizes se'"
proof -
  assume s: "published_still sizes se se'" and ok: "session_ok sizes se"
  have h: "history_ok se" using ok by (simp add: session_ok_def)
  note v = view_history [OF still_view [OF s] h]
  have i: "se_intake se' = (se_intake se)\<lparr>in_memory := se_memory se'\<rparr>" "same_life se se'" using s by (simp_all add: published_still_def)
  have "intake_ok (se_intake se')" using intake_ok_memory [of "se_intake se"] ok by (simp add: i(1) session_ok_def)
  moreover have "life_ok se' = life_ok se" by (rule life_ok_cong) (use i in \<open>simp_all add: same_life_def\<close>)
  ultimately show "session_ok sizes se'" using ok v s by (simp add: session_ok_def published_still_def)
qed

lemma still_advance: "published_still sizes se se' \<Longrightarrow> session_ok sizes se \<Longrightarrow> advance sizes se se'"
  using still_ok [of sizes se se'] by (simp add: advance_def published_still_def same_life_def)

lemma ok_advance: "session_ok sizes se \<Longrightarrow> advance sizes se se"
  by (simp add: advance_def)

text \<open>Changing fields the invariant does not read.\<close>

lemma advance_requests:
  assumes "session_ok sizes se" "same_view se se'" "se_config se' = se_config se" "se_intake se' = se_intake se"
    "se_state se' = se_state se" "se_result_pool se' = se_result_pool se" "se_current_result se' = se_current_result se"
  shows "advance sizes se se'"
proof -
  have "results_ok sizes se'"
    by (rule results_ok_moved [of sizes se]) (use assms in \<open>simp_all add: session_ok_def se_memory_def\<close>)
  moreover have "history_ok se" using assms(1) by (simp add: session_ok_def)
  note v = view_history [OF assms(2) this]
  moreover have "life_ok se' = life_ok se" by (rule life_ok_cong) (use assms in \<open>simp_all add: same_view_def\<close>)
  ultimately have "session_ok sizes se'" using assms v by (simp add: session_ok_def)
  then show ?thesis using assms(4,5) by (simp add: advance_def uses_workspace_def se_memory_def)
qed

lemma advance_cong:
  assumes "session_ok sizes se" "se_config se' = se_config se" "se_intake se' = se_intake se" "se_state se' = se_state se"
    "se_end_of_input_signalled se' = se_end_of_input_signalled se" "se_final_end_frame se' = se_final_end_frame se"
    "se_result_pool se' = se_result_pool se" "se_current_result se' = se_current_result se"
    "se_overview se' = se_overview se" "se_overview_frames_per_column se' = se_overview_frames_per_column se"
    "se_requests se' = se_requests se"
  shows "advance sizes se se'"
proof (rule advance_requests [OF assms(1)])
  have "uses_workspace se' = uses_workspace se" by (rule workspace_cong) (simp add: se_memory_def assms(3))
  then show "same_view se se'" using assms requests_step_same [of se' se] by (simp add: same_view_def)
qed (use assms in simp_all)


lemma transition_advance:
  assumes eg: "kernels_ok eg" and ok: "session_ok (eg_sizes eg) se"
    and n: "n = SESSION_ACTIVE \<or> n = SESSION_CANCELLED \<or> n = SESSION_FAILED \<or>
      (n = SESSION_DRAINING \<or> n = SESSION_COMPLETED) \<and> se_end_of_input_signalled se"
  obtains s se' where "apta_internal_session_transition eg se n = Ret (s, se')"
    "advance (eg_sizes eg) se se'" "published_still (eg_sizes eg) (se\<lparr>se_state := (if failed s then se_state se else n)\<rparr>) se'"
    "\<not> apta_session_transition_is_allowed (se_state se) n \<Longrightarrow> s = ERROR_INVALID_STATE \<and> se' = se"
proof -
  have r: "results_ok (eg_sizes eg) se" using ok by (simp add: session_ok_def)
  obtain s se' where t: "apta_internal_session_transition eg se n = Ret (s, se')"
    "published_still (eg_sizes eg) (se\<lparr>se_state := (if failed s then se_state se else n)\<rparr>) se'"
    "\<not> failed s \<longrightarrow> apta_session_transition_is_allowed (se_state se) n"
    "\<not> apta_session_transition_is_allowed (se_state se) n \<longrightarrow> s = ERROR_INVALID_STATE \<and> se' = se"
    using transition_spec [OF eg r, of n] by blast
  let ?se = "se\<lparr>se_state := (if failed s then se_state se else n)\<rparr>"
  have "results_ok (eg_sizes eg) ?se" by (rule results_ok_moved [OF r]) simp_all
  moreover have "uses_workspace ?se = uses_workspace se" by (rule workspace_cong) simp
  then have "same_view se ?se" using requests_step_same [of ?se se] by (simp add: same_view_def)
  then have "history_ok ?se" "overview_shape ?se" using view_history [of se ?se] ok by (simp_all add: session_ok_def)
  moreover have "life_ok ?se"
    using ok n by (cases "failed s") (auto simp: session_ok_def life_ok_def known_def apta_consts)
  ultimately have "session_ok (eg_sizes eg) ?se" using ok by (simp add: session_ok_def)
  then have a: "advance (eg_sizes eg) ?se se'" by (rule still_advance [OF t(2)])
  have "moves (se_state se) (se_state ?se)" using t(3) by (auto intro: moves_step)
  moreover have "moves (se_state ?se) (se_state se')" using a unfolding advance_def by (rule conjE) (rule conjunct1)
  ultimately have "moves (se_state se) (se_state se')" by (rule moves_trans)
  then have "advance (eg_sizes eg) se se'" using a by (simp add: advance_def uses_workspace_def se_memory_def)
  then show ?thesis using that t by blast
qed


section \<open>Pushing\<close>

lemma validate_ok:
  assumes "\<not> failed (apta_internal_source_validate_pcm_block sizes se block)"
  shows "pb_frame_count block \<noteq> 0" "unat (pb_first_frame block) + unat (pb_frame_count block) < 18446744073709551616"
    "known se \<Longrightarrow> pb_first_frame block + ucast (pb_frame_count block) \<le> sc_total_frames (se_config se)"
proof -
  have v: "pb_frame_count block \<noteq> 0" "\<not> UINT64_MAX - ucast (pb_frame_count block) < pb_first_frame block"
    "\<not> (sc_total_frames (se_config se) \<noteq> APTA_TOTAL_FRAMES_UNKNOWN \<and>
        sc_total_frames (se_config se) < pb_first_frame block + ucast (pb_frame_count block))"
    using assms by (auto simp: apta_internal_source_validate_pcm_block_def Let_def split: if_splits)
  then show "pb_frame_count block \<noteq> 0" by simp
  show "unat (pb_first_frame block) + unat (pb_frame_count block) < 18446744073709551616"
    using v(2) by (simp add: not_less u64_add_guard)
  show "known se \<Longrightarrow> pb_first_frame block + ucast (pb_frame_count block) \<le> sc_total_frames (se_config se)"
    using v(3) by (auto simp: known_def not_less)
qed


lemma accept_advance:
  assumes eg: "kernels_ok eg" and ok: "session_ok (eg_sizes eg) se" and st: "se_state se \<noteq> SESSION_CREATED"
    and k: "pb_frame_count block \<noteq> 0" "unat (pb_first_frame block) + unat (pb_frame_count block) < 18446744073709551616"
    and total: "known se \<Longrightarrow> pb_first_frame block + ucast (pb_frame_count block) \<le> sc_total_frames (se_config se)"
  obtains s n se' where "apta_internal_waveform_accept_pcm eg se block = Ret (s, n, se')"
    "advance (eg_sizes eg) se se'" "same_life se se'"
    "covered (in_ranges (se_intake se')) \<subseteq>
       covered (in_ranges (se_intake se)) \<union> {pb_first_frame block ..< pb_first_frame block + ucast (pb_frame_count block)}"
proof -
  let ?f = "pb_first_frame block" and ?k = "pb_frame_count block"
  have iok: "intake_ok (se_intake se)" and rok: "results_ok (eg_sizes eg) se" and h: "history_ok se"
    using ok by (simp_all add: session_ok_def)
  obtain s n se' where a: "apta_internal_waveform_accept_pcm eg se block = Ret (s, n, se')"
    "accepted (eg_sizes eg) se ?f ?k se'"
    using waveform_accept [OF eg iok k] by blast
  obtain s0 n0 st' where x: "accept_spec (se_intake se) ?f ?k (s0, n0, st')" "se_intake se' = st'\<lparr>in_memory := se_memory se'\<rparr>"
    using a(2) by (auto simp: accepted_def)
  have life: "same_life se se'" and ov: "se_overview se' = se_overview se" using a(2) by (simp_all add: accepted_def)
  have c: "covered (in_ranges (se_intake se')) = covered (in_ranges (se_intake se)) \<union> {?f ..< ?f + ucast n0}" "intake_ok st'" "n0 \<le> ?k"
    using x by (simp_all add: accept_spec_def)
  have "unat (?f + ucast n0) = unat ?f + unat n0" "unat (?f + ucast ?k) = unat ?f + unat ?k"
    using k(2) c(3) by (simp_all add: unat_plus_u64 word_le_nat_alt)
  then have le: "?f + ucast n0 \<le> ?f + ucast ?k" using c(3) by (simp add: word_le_nat_alt)
  have new: "{?f ..< ?f + ucast n0} \<subseteq> {0 ..< sc_total_frames (se_config se)}" if "known se"
    using total [OF that] le by auto
  have l: "se_state se' = se_state se" "se_config se' = se_config se" "se_end_of_input_signalled se' = se_end_of_input_signalled se"
    "se_final_end_frame se' = se_final_end_frame se" using life by (simp_all add: same_life_def)
  have "life_ok se" using ok by (simp add: session_ok_def)
  have kn: "known se' = known se" by (simp add: known_def l)
  from \<open>life_ok se\<close> have lok: "life_ok se'" using st new c(1) unfolding life_ok_def l kn by auto
  have "intake_ok (se_intake se')" using intake_ok_memory [OF c(2)] x(2) by simp
  moreover have "history_ok se'" by (rule accepted_history [OF a(2) iok h])
  moreover have "overview_shape se'" using overview_cong(1) [OF ov life] ok by (simp add: session_ok_def)
  moreover have "results_ok (eg_sizes eg) se'" using a(2) rok by (simp add: accepted_def)
  ultimately have "session_ok (eg_sizes eg) se'" using lok by (simp add: session_ok_def)
  then have "advance (eg_sizes eg) se se'" using c(1) life by (simp add: advance_def same_life_def)
  moreover have "covered (in_ranges (se_intake se')) \<subseteq> covered (in_ranges (se_intake se)) \<union> {?f ..< ?f + ucast ?k}"
    using c(1) le by auto
  ultimately show ?thesis using that a(1) life by blast
qed


lemma activate:
  assumes eg: "kernels_ok eg" and ok: "session_ok (eg_sizes eg) se"
  obtains s se1 where "(if se_state se = SESSION_CREATED then apta_internal_session_transition eg se SESSION_ACTIVE
                    else Ret (STATUS_OK, se)) = Ret (s, se1)" "advance (eg_sizes eg) se se1"
      "published_still (eg_sizes eg) (se\<lparr>se_state := (if failed s \<or> se_state se \<noteq> SESSION_CREATED then se_state se else SESSION_ACTIVE)\<rparr>) se1"
proof (cases "se_state se = SESSION_CREATED")
  case True
  show ?thesis
  proof (rule transition_advance [OF eg ok, of SESSION_ACTIVE])
    fix s se' assume "apta_internal_session_transition eg se SESSION_ACTIVE = Ret (s, se')"
      "advance (eg_sizes eg) se se'"
      "published_still (eg_sizes eg) (se\<lparr>se_state := (if failed s then se_state se else SESSION_ACTIVE)\<rparr>) se'"
    then show thesis using that True by simp
  qed simp
next
  case False
  then show ?thesis using that ok_advance [OF ok] still_published [OF still_refl] by simp
qed

text \<open>The outcome of an end-of-input signal.\<close>

lemma push_advance:
  assumes eg: "kernels_ok eg" and ok: "session_ok (eg_sizes eg) se"
  shows "\<exists>s n se'. apta_session_push_pcm eg se block = Ret (s, n, se') \<and> advance (eg_sizes eg) se se' \<and>
    se_process_lock se' = se_process_lock se"
proof -
  let ?v = "apta_internal_source_validate_pcm_block (eg_sizes eg) se block"
  show ?thesis
  proof (cases "failed ?v \<or> se_state se = SESSION_DRAINING \<or> se_state se = SESSION_COMPLETED \<or> se_state se = SESSION_FAILED \<or>
      se_state se = SESSION_CANCELLED \<or> sc_input_mode (se_config se) \<noteq> INPUT_MODE_PUSH")
    case True
    then have "\<exists>s. apta_session_push_pcm eg se block = Ret (s, 0, se)"
      unfolding apta_session_push_pcm_def Let_def by (auto simp del: obind.simps)
    then show ?thesis using ok_advance [OF ok] by auto
  next
    case False
    then have go: "\<not> failed ?v" "se_state se \<noteq> SESSION_DRAINING" "se_state se \<noteq> SESSION_COMPLETED" "se_state se \<noteq> SESSION_FAILED"
      "se_state se \<noteq> SESSION_CANCELLED" "sc_input_mode (se_config se) = INPUT_MODE_PUSH" by simp_all
    obtain s1 se1 where t: "(if se_state se = SESSION_CREATED then apta_internal_session_transition eg se SESSION_ACTIVE
                    else Ret (STATUS_OK, se)) = Ret (s1, se1)" "advance (eg_sizes eg) se se1"
      "published_still (eg_sizes eg) (se\<lparr>se_state := (if failed s1 \<or> se_state se \<noteq> SESSION_CREATED then se_state se else SESSION_ACTIVE)\<rparr>) se1"
      using activate [OF eg ok] .
    have ok1: "session_ok (eg_sizes eg) se1" using t(2) by (simp add: advance_def)
    have lock: "se_process_lock se1 = se_process_lock se" and cfg: "se_config se1 = se_config se"
      using t(3) by (simp_all add: published_still_def same_life_def)
    show ?thesis
    proof (cases "failed s1 \<or> \<not> has_feature (se_config se1) FEATURE_WAVEFORM_OVERVIEW")
      case True
      then show ?thesis using go t lock by (auto simp: apta_session_push_pcm_def Let_def)
    next
      case False
      have st: "se_state se1 \<noteq> SESSION_CREATED" using t(3) False by (auto simp: published_still_def same_life_def apta_consts split: if_splits)
      have tot: "pb_first_frame block + ucast (pb_frame_count block) \<le> sc_total_frames (se_config se1)" if "known se1"
        using validate_ok(3) [OF go(1)] that cfg by (simp add: known_def)
      obtain s n se2 where a: "apta_internal_waveform_accept_pcm eg se1 block = Ret (s, n, se2)"
        "advance (eg_sizes eg) se1 se2" "same_life se1 se2"
        "covered (in_ranges (se_intake se2)) \<subseteq>
          covered (in_ranges (se_intake se1)) \<union> {pb_first_frame block ..< pb_first_frame block + ucast (pb_frame_count block)}"
        by (rule accept_advance [OF eg ok1 st validate_ok(1,2) [OF go(1)] tot])
      then have "apta_session_push_pcm eg se block = Ret (s, n, se2)"
        using go t(1) False by (simp add: apta_session_push_pcm_def Let_def)
      moreover have "se_process_lock se2 = se_process_lock se" using a(3) lock by (simp add: same_life_def)
      ultimately show ?thesis using advance_trans [OF t(2) a(2)] by blast
    qed
  qed
qed

section \<open>End of input\<close>


definition eoi_spec :: "engine \<Rightarrow> apta_session \<Rightarrow> u64 \<Rightarrow> apta_status \<times> apta_session \<Rightarrow> bool" where
  "eoi_spec eg se f r \<longleftrightarrow> (case r of (s, se') \<Rightarrow>
     advance (eg_sizes eg) se se' \<and> se_process_lock se' = se_process_lock se \<and>
     se_reads se' = se_reads se \<and> se_releases se' = se_releases se \<and> in_ranges (se_intake se') = in_ranges (se_intake se) \<and>
     (if failed s
      then se_config se' = se_config se \<and> se_final_end_frame se' = se_final_end_frame se \<and>
        se_end_of_input_signalled se' = se_end_of_input_signalled se \<and>
        (se_state se' = se_state se \<or> se_state se = SESSION_CREATED \<and> se_state se' = SESSION_ACTIVE)
      else se_end_of_input_signalled se' \<and> se_final_end_frame se' = f \<and> sc_total_frames (se_config se') = f \<and>
        (\<not> se_end_of_input_signalled se \<longrightarrow> se_state se' = SESSION_DRAINING)))"

text \<open>The session with its length fixed, and back.\<close>

lemma fixed_length_ok:
  assumes ok: "session_ok sizes se" and st: "se_state se \<noteq> SESSION_CREATED" and f: "f \<noteq> APTA_TOTAL_FRAMES_UNKNOWN"
    and below: "covered (in_ranges (se_intake se)) \<subseteq> {0 ..< f}" and open_end: "\<not> se_end_of_input_signalled se"
  shows "session_ok sizes (se\<lparr>se_config := (se_config se)\<lparr>sc_total_frames := f\<rparr>,
    se_final_end_frame := f, se_end_of_input_signalled := True\<rparr>)"
proof -
  let ?se = "se\<lparr>se_config := (se_config se)\<lparr>sc_total_frames := f\<rparr>,
    se_final_end_frame := f, se_end_of_input_signalled := True\<rparr>"
  have m: "se_memory ?se = se_memory se" by simp
  have r: "results_ok sizes ?se"
    by (rule results_ok_moved [of sizes se]) (use ok m in \<open>simp_all add: session_ok_def\<close>)
  have w: "uses_workspace ?se = uses_workspace se" by (rule workspace_cong [OF m])
  have P: "processed_frames ?se = processed_frames se" by (simp add: processed_frames_def accepted_frames_def)
  have "overview_exact ?se" if "overview_exact se"
    using that open_end
    by (auto simp: overview_exact_def P overview_table_def accumulators_def completed_def column_frames_def)
  moreover have "request_true ?se r" if "request_true se r" for r
    using that open_end by (auto simp: request_true_def range_frames_def P)
  ultimately have h: "history_ok ?se" using ok by (auto simp: session_ok_def history_ok_def w requests_true_def)
  have "life_ok ?se" using st f below by (simp add: life_ok_def known_def)
  moreover have "overview_shape ?se" using ok by (simp add: session_ok_def overview_shape_def Let_def w)
  ultimately show ?thesis using ok r h by (simp add: session_ok_def)
qed

lemma restored_length_ok:
  assumes ok: "session_ok sizes se" and old: "session_ok sizes se0"
    and same: "sc_flags (se_config se) = sc_flags (se_config se0)" "se_end_of_input_signalled se0 = False"
      "se_state se \<noteq> SESSION_DRAINING" "se_state se \<noteq> SESSION_COMPLETED"
      "in_ranges (se_intake se) = in_ranges (se_intake se0)" "in_queue (se_intake se) = in_queue (se_intake se0)"
      "se_overview se = se_overview se0 \<or> se_overview se = unmarked (se_overview se0)" "se_requests se = se_requests se0" "uses_workspace se = uses_workspace se0"
      "se_overview_frames_per_column se = se_overview_frames_per_column se0" "se_final_end_frame se0 = g"
  shows "session_ok sizes (se\<lparr>se_config := (se_config se)\<lparr>sc_total_frames := sc_total_frames (se_config se0)\<rparr>,
    se_final_end_frame := g, se_end_of_input_signalled := False\<rparr>)"
proof -
  let ?se = "se\<lparr>se_config := (se_config se)\<lparr>sc_total_frames := sc_total_frames (se_config se0)\<rparr>,
    se_final_end_frame := g, se_end_of_input_signalled := False\<rparr>"
  have m: "se_memory ?se = se_memory se" by simp
  have r: "results_ok sizes ?se"
    by (rule results_ok_moved [of sizes se]) (use ok m in \<open>simp_all add: session_ok_def\<close>)
  have w: "uses_workspace ?se = uses_workspace se" by (rule workspace_cong [OF m])
  have "same_view se0 ?se" using same w requests_step_same [of ?se se0] by (simp add: same_view_def)
  then have v: "overview_shape ?se" "history_ok ?se" using view_history [of se0 ?se] old by (simp_all add: session_ok_def)
  have "life_ok ?se" using ok old same(2-5) by (auto simp: session_ok_def life_ok_def known_def)
  then show ?thesis using ok r v by (simp add: session_ok_def)
qed

lemma config_total_restore:
  "c\<lparr>sc_total_frames := f, sc_total_frames := sc_total_frames c\<rparr> = c"
  by simp

lemma signal_advance:
  assumes eg: "kernels_ok eg" and ok: "session_ok (eg_sizes eg) se"
  shows "\<exists>r. apta_internal_session_signal_end_of_input eg se f = Ret r \<and> eoi_spec eg se f r"
proof -
  have same: "eoi_spec eg se f (s, se)" if "failed s" for s
    using that ok_advance [OF ok] by (simp add: eoi_spec_def)
  have iok: "intake_ok (se_intake se)" using ok by (simp add: session_ok_def)
  show ?thesis
  proof (cases "f = APTA_TOTAL_FRAMES_UNKNOWN \<or> se_end_of_input_signalled se \<or> known se \<and> sc_total_frames (se_config se) \<noteq> f \<or>
      f < in_maximum_accepted_end (se_intake se) \<or> se_state se = SESSION_COMPLETED \<or> se_state se = SESSION_CANCELLED \<or>
      se_state se = SESSION_FAILED \<or> se_state se = SESSION_DRAINING")
    case True
    have "eoi_spec eg se f (STATUS_OK, se)" if "se_end_of_input_signalled se" "se_final_end_frame se = f"
      using that ok ok_advance [OF ok] by (simp add: eoi_spec_def session_ok_def life_ok_def)
    then show ?thesis using True same
      unfolding apta_internal_session_signal_end_of_input_def known_def by auto
  next
    case False
    obtain s1 se1 where t: "(if se_state se = SESSION_CREATED then apta_internal_session_transition eg se SESSION_ACTIVE
                    else Ret (STATUS_OK, se)) = Ret (s1, se1)" "advance (eg_sizes eg) se se1"
      "published_still (eg_sizes eg) (se\<lparr>se_state := (if failed s1 \<or> se_state se \<noteq> SESSION_CREATED then se_state se else SESSION_ACTIVE)\<rparr>) se1"
      using activate [OF eg ok] .
    have q: "se_config se1 = se_config se" "se_final_end_frame se1 = se_final_end_frame se"
      "se_end_of_input_signalled se1 = False" "se_process_lock se1 = se_process_lock se" "se_reads se1 = se_reads se"
      "se_releases se1 = se_releases se" "in_ranges (se_intake se1) = in_ranges (se_intake se)"
      "se_state se1 = (if failed s1 \<or> se_state se \<noteq> SESSION_CREATED then se_state se else SESSION_ACTIVE)"
      and v: "in_queue (se_intake se1) = in_queue (se_intake se)" "se_overview se1 = se_overview se \<or> se_overview se1 = unmarked (se_overview se)" "se_requests se1 = se_requests se"
      "uses_workspace se1 = uses_workspace se" "se_overview_frames_per_column se1 = se_overview_frames_per_column se"
      using t(3) False workspace_cong [of "se\<lparr>se_state := (if failed s1 \<or> se_state se \<noteq> SESSION_CREATED then se_state se else SESSION_ACTIVE)\<rparr>" se]
      by (simp_all add: published_still_def same_life_def)
    have ok1: "session_ok (eg_sizes eg) se1" using t(2) by (simp add: advance_def)
    show ?thesis
    proof (cases "failed s1")
      case True
      then have "apta_internal_session_signal_end_of_input eg se f = Ret (s1, se1)"
        using False t(1) unfolding apta_internal_session_signal_end_of_input_def known_def by auto
      then show ?thesis using True t(2) q False by (simp add: eoi_spec_def)
    next
      case nf: False
      define se2 where "se2 = se1\<lparr>se_config := (se_config se1)\<lparr>sc_total_frames := f\<rparr>,
                        se_final_end_frame := f, se_end_of_input_signalled := True\<rparr>"
      have "covered (in_ranges (se_intake se1)) \<subseteq> {0 ..< f}"
        using intake_below_maximum [OF iok] False q(7) by (auto simp: not_less)
      moreover have st1: "se_state se1 \<noteq> SESSION_CREATED" "se_state se1 \<noteq> SESSION_DRAINING" "se_state se1 \<noteq> SESSION_COMPLETED"
        using q(8) nf False by (auto simp: apta_consts split: if_splits)
      ultimately have ok2: "session_ok (eg_sizes eg) se2"
        unfolding se2_def using False q(3) by (intro fixed_length_ok [OF ok1]) auto
      have adv2: "advance (eg_sizes eg) se1 se2" using ok2 by (simp add: advance_def se2_def uses_workspace_def se_memory_def)
      have n: "SESSION_DRAINING = SESSION_ACTIVE \<or> SESSION_DRAINING = SESSION_CANCELLED \<or> SESSION_DRAINING = SESSION_FAILED \<or>
          (SESSION_DRAINING = SESSION_DRAINING \<or> SESSION_DRAINING = SESSION_COMPLETED) \<and> se_end_of_input_signalled se2"
        by (simp add: se2_def)
      obtain s3 se3 where t3: "apta_internal_session_transition eg se2 SESSION_DRAINING = Ret (s3, se3)"
        "advance (eg_sizes eg) se2 se3"
        "published_still (eg_sizes eg) (se2\<lparr>se_state := (if failed s3 then se_state se2 else SESSION_DRAINING)\<rparr>) se3"
        using transition_advance [OF eg ok2 n] by blast
      have ok3: "session_ok (eg_sizes eg) se3" using t3(2) by (simp add: advance_def)
      have q3: "se_config se3 = (se_config se)\<lparr>sc_total_frames := f\<rparr>" "se_final_end_frame se3 = f"
        "se_end_of_input_signalled se3" "se_process_lock se3 = se_process_lock se" "se_reads se3 = se_reads se"
        "se_releases se3 = se_releases se" "in_ranges (se_intake se3) = in_ranges (se_intake se)"
        "se_state se3 = (if failed s3 then se_state se1 else SESSION_DRAINING)"
        and v3: "in_queue (se_intake se3) = in_queue (se_intake se)" "se_requests se3 = se_requests se"
        "uses_workspace se3 = uses_workspace se" "se_overview_frames_per_column se3 = se_overview_frames_per_column se"
        using t3(3) q v workspace_cong [of "se2\<lparr>se_state := (if failed s3 then se_state se2 else SESSION_DRAINING)\<rparr>" se1]
        by (simp_all add: published_still_def same_life_def se2_def)
      have "se_overview se3 = se_overview se1 \<or> se_overview se3 = unmarked (se_overview se1)"
        using t3(3) by (simp add: published_still_def se2_def)
      then have o3: "se_overview se3 = se_overview se \<or> se_overview se3 = unmarked (se_overview se)" using v(2) by auto
      have run: "apta_internal_session_signal_end_of_input eg se f = Ret (s3,
          if failed s3 then se3\<lparr>se_config := (se_config se3)\<lparr>sc_total_frames := sc_total_frames (se_config se1)\<rparr>,
              se_final_end_frame := se_final_end_frame se1, se_end_of_input_signalled := se_end_of_input_signalled se1\<rparr>
          else se3)"
        using False nf t(1) t3(1) unfolding apta_internal_session_signal_end_of_input_def known_def se2_def by (simp add: Let_def) blast
      show ?thesis
      proof (cases "failed s3")
        case False
        then show ?thesis using run q3 advance_trans [OF advance_trans [OF t(2) adv2] t3(2)]
          by (simp add: eoi_spec_def)
      next
        case True
        let ?se = "se3\<lparr>se_config := (se_config se3)\<lparr>sc_total_frames := sc_total_frames (se_config se)\<rparr>,
              se_final_end_frame := se_final_end_frame se, se_end_of_input_signalled := False\<rparr>"
        have "session_ok (eg_sizes eg) ?se"
          by (rule restored_length_ok [OF ok3 ok]) (use q3 v3 o3 True st1 \<open>\<not> (_ \<or> _)\<close> in auto)
        then have "advance (eg_sizes eg) se ?se"
          using t(2) q3(7,8) v3(3) True by (simp add: advance_def uses_workspace_def se_memory_def)
        then show ?thesis using run q q3 True nf \<open>\<not> (_ \<or> _)\<close> by (auto simp: eoi_spec_def)
      qed
    qed
  qed
qed

section \<open>Pulling\<close>

text \<open>Counters and lock as before.\<close>

definition same_counts :: "apta_session \<Rightarrow> apta_session \<Rightarrow> bool" where
  "same_counts se se' \<longleftrightarrow> se_process_lock se' = se_process_lock se \<and> se_reads se' = se_reads se \<and>
     se_releases se' = se_releases se"

lemma still_counts: "published_still sizes (se\<lparr>se_state := n\<rparr>) se' \<Longrightarrow> same_counts se se'"
  by (simp add: published_still_def same_life_def same_counts_def)

lemma failure_advance:
  assumes eg: "kernels_ok eg" and ok: "session_ok (eg_sizes eg) se"
  shows "\<exists>s se'. no_frames (apta_pull_source_failure eg se) = Ret (s, 0, se') \<and> failed s \<and>
    advance (eg_sizes eg) se se' \<and> same_counts se se' \<and> in_ranges (se_intake se') = in_ranges (se_intake se)"
proof (rule transition_advance [OF eg ok, of SESSION_FAILED])
  fix s se' assume t: "apta_internal_session_transition eg se SESSION_FAILED = Ret (s, se')"
    "advance (eg_sizes eg) se se'"
    "published_still (eg_sizes eg) (se\<lparr>se_state := (if failed s then se_state se else SESSION_FAILED)\<rparr>) se'"
  have "in_ranges (se_intake se') = in_ranges (se_intake se)" using t(3) by (simp add: published_still_def same_life_def)
  then show ?thesis using t still_counts [OF t(3)]
    by (cases "failed s") (simp_all add: no_frames_def apta_pull_source_failure_def)
qed simp

lemma pull_accept_advance:
  assumes eg: "kernels_ok eg" and ok: "session_ok (eg_sizes eg) se"
  shows "\<exists>s n se'. pull_accept eg se q k block = Ret (s, n, se') \<and> advance (eg_sizes eg) se se' \<and> same_counts se se' \<and>
    covered (in_ranges (se_intake se')) \<subseteq> covered (in_ranges (se_intake se)) \<union> {pq_first_frame q ..< pq_end_frame q}"
proof -
  let ?v = "apta_internal_source_validate_pcm_block (eg_sizes eg) se block"
  define v where "v = (if \<not> failed ?v \<and>
                (pb_first_frame block \<noteq> pq_first_frame q \<or> k < pb_frame_count block \<or>
                 UINT64_MAX - ucast (pb_frame_count block) < pb_first_frame block \<or>
                 pq_end_frame q < pb_first_frame block + ucast (pb_frame_count block))
             then ERROR_SOURCE else ?v)"
  show ?thesis
  proof (cases "failed v")
    case True
    then have "pull_accept eg se q k block = Ret (v, 0, se)"
      unfolding pull_accept_def v_def [symmetric] Let_def by simp
    then show ?thesis using ok_advance [OF ok] by (auto simp: same_counts_def)
  next
    case nf: False
    then have v: "\<not> failed ?v" "pb_first_frame block = pq_first_frame q"
      "pb_first_frame block + ucast (pb_frame_count block) \<le> pq_end_frame q"
      by (auto simp: v_def not_less split: if_splits)
    obtain s1 se1 where t: "(if se_state se = SESSION_CREATED then apta_internal_session_transition eg se SESSION_ACTIVE
                    else Ret (STATUS_OK, se)) = Ret (s1, se1)" "advance (eg_sizes eg) se se1"
      "published_still (eg_sizes eg) (se\<lparr>se_state := (if failed s1 \<or> se_state se \<noteq> SESSION_CREATED then se_state se else SESSION_ACTIVE)\<rparr>) se1"
      using activate [OF eg ok] .
    obtain s2 where t2: "(if \<not> failed v \<and> se_state se = SESSION_CREATED
             then apta_internal_session_transition eg se SESSION_ACTIVE else Ret (v, se)) = Ret (s2, se1)"
      "failed s2 \<longleftrightarrow> failed s1"
      using t(1) nf by (cases "se_state se = SESSION_CREATED") auto
    have q: "se_config se1 = se_config se" "in_ranges (se_intake se1) = in_ranges (se_intake se)" using t(3) by (simp_all add: published_still_def same_life_def)
    note c1 = still_counts [OF t(3)]
    have ok1: "session_ok (eg_sizes eg) se1" using t(2) by (simp add: advance_def)
    show ?thesis
    proof (cases "failed s2 \<or> \<not> has_feature (se_config se1) FEATURE_WAVEFORM_OVERVIEW")
      case True
      then have "pull_accept eg se q k block = Ret (s2, 0, se1)"
        using t2(1) unfolding pull_accept_def v_def [symmetric] Let_def by auto
      then show ?thesis using t(2) c1 q by auto
    next
      case False
      then have run: "pull_accept eg se q k block = apta_internal_waveform_accept_pcm eg se1 block"
        using t2(1) unfolding pull_accept_def v_def [symmetric] Let_def by auto
      have st: "se_state se1 \<noteq> SESSION_CREATED" using t(3) t2(2) False by (auto simp: published_still_def same_life_def apta_consts split: if_splits)
      have tot: "pb_first_frame block + ucast (pb_frame_count block) \<le> sc_total_frames (se_config se1)" if "known se1"
        using validate_ok(3) [OF v(1)] that q(1) by (simp add: known_def)
      obtain s n se2 where a: "apta_internal_waveform_accept_pcm eg se1 block = Ret (s, n, se2)"
        "advance (eg_sizes eg) se1 se2" "same_life se1 se2"
        "covered (in_ranges (se_intake se2)) \<subseteq>
          covered (in_ranges (se_intake se1)) \<union> {pb_first_frame block ..< pb_first_frame block + ucast (pb_frame_count block)}"
        by (rule accept_advance [OF eg ok1 st validate_ok(1,2) [OF v(1)] tot])
      have "covered (in_ranges (se_intake se2)) \<subseteq> covered (in_ranges (se_intake se)) \<union> {pq_first_frame q ..< pq_end_frame q}"
      proof -
        have "{pb_first_frame block ..< pb_first_frame block + ucast (pb_frame_count block)} \<subseteq> {pq_first_frame q ..< pq_end_frame q}"
          using v(2,3) by auto
        then show ?thesis using a(4) unfolding q(2) by blast
      qed
      moreover have "same_counts se se2" using c1 a(3) by (simp add: same_counts_def same_life_def)
      ultimately show ?thesis using run a(1) advance_trans [OF t(2) a(2)] by auto
    qed
  qed
qed

lemma next_request_only_requests:
  "apta_internal_waveform_next_pcm_request se = (s, out, se') \<Longrightarrow> \<exists>rs. se' = se\<lparr>se_requests := rs\<rparr>"
  by (auto simp: apta_internal_waveform_next_pcm_request_def Let_def apta_internal_scheduler_note_choice_def
      split: prod.splits if_splits intro: exI [of _ "se_requests se"])

lemma next_request_step: "apta_internal_waveform_next_pcm_request se = (s, out, se') \<Longrightarrow> requests_step se se'"
  using note_choice_step requests_step_same [of se se]
  by (auto simp: apta_internal_waveform_next_pcm_request_def Let_def split: prod.splits if_splits)

lemma internal_demand:
  assumes "ranges_ok (in_ranges (se_intake se))" "apta_internal_waveform_next_pcm_request se = (s, out, se')"
  shows "s = STATUS_OK \<and> (\<exists>q. out = Some q \<and> demand_ok se q) \<or> s = STATUS_NOT_AVAILABLE \<and> out = None"
proof -
  let ?staged = "se\<lparr>se_requests := apta_scheduler_stage_requests FEATURE_WAVEFORM_OVERVIEW (se_requests se)\<rparr>"
  obtain b o' where base: "apta_internal_waveform_next_pcm_request_base ?staged = (b, o')" by fastforce
  have "b = s" "o' = out" using assms(2) base by (simp_all add: apta_internal_waveform_next_pcm_request_def Let_def)
  moreover have "ranges_ok (in_ranges (se_intake ?staged))" using assms(1) by simp
  ultimately show ?thesis using next_demand [OF _ base] by (auto simp: demand_ok_def)
qed

text \<open>The outcome of a pull: no callback, or one callback for frames nobody has delivered, whose block
  is given back exactly if there is one.\<close>

definition one_read :: "reader \<Rightarrow> work_budget \<Rightarrow> apta_session \<Rightarrow> apta_session \<Rightarrow> bool" where
  "one_read rd budget se se' \<longleftrightarrow> se_reads se' = se_reads se + 1 \<and>
     (\<exists>f k. k \<noteq> 0 \<and> unat k \<le> 4096 \<and> (wb_maximum_input_frames budget \<noteq> 0 \<longrightarrow> k \<le> wb_maximum_input_frames budget) \<and>
        {f ..< f + ucast k} \<inter> covered (in_ranges (se_intake se)) = {} \<and>
        (known se \<longrightarrow> unat f + unat k \<le> unat (sc_total_frames (se_config se))) \<and>
        se_releases se' = se_releases se + (if fst (rd (se_reads se) f k) = STATUS_OK then 1 else 0))"

definition pull_spec :: "engine \<Rightarrow> reader \<Rightarrow> work_budget \<Rightarrow> apta_session \<Rightarrow> apta_status \<times> u32 \<times> apta_session \<Rightarrow> bool" where
  "pull_spec eg rd budget se r \<longleftrightarrow> (case r of (s, n, se') \<Rightarrow>
     advance (eg_sizes eg) se se' \<and> se_process_lock se' = se_process_lock se \<and>
     (se_reads se' = se_reads se \<and> se_releases se' = se_releases se \<or> one_read rd budget se se'))"

lemma pull_spec_quiet:
  "advance (eg_sizes eg) se se' \<Longrightarrow> same_counts se se' \<Longrightarrow> pull_spec eg rd budget se (s, n, se')"
  by (simp add: pull_spec_def same_counts_def)

lemma requested_frames_ok:
  fixes budget :: work_budget
  assumes "demand_ok se q"
  defines "k \<equiv> requested_frames budget q"
  shows "k \<noteq> 0" "unat k \<le> 4096" "wb_maximum_input_frames budget \<noteq> 0 \<longrightarrow> k \<le> wb_maximum_input_frames budget"
    "{pq_first_frame q ..< pq_first_frame q + ucast k} \<inter> covered (in_ranges (se_intake se)) = {}"
    "known se \<longrightarrow> unat (pq_first_frame q) + unat k \<le> unat (sc_total_frames (se_config se))"
    "\<not> pq_end_frame q \<le> pq_first_frame q" "\<not> ucast UINT32_MAX < pq_end_frame q - pq_first_frame q"
proof -
  let ?d = "ucast (pq_end_frame q - pq_first_frame q) :: u32"
  note f = demand_frames [OF assms(1)]
  have le: "k \<le> ?d" by (auto simp: k_def requested_frames_def apta_min_u32_def)
  show "k \<noteq> 0" using f(1) by (auto simp: k_def requested_frames_def apta_min_u32_def)
  show "unat k \<le> 4096" using le f(4) by (simp add: word_le_nat_alt)
  show "wb_maximum_input_frames budget \<noteq> 0 \<longrightarrow> k \<le> wb_maximum_input_frames budget"
    by (auto simp: k_def requested_frames_def apta_min_u32_def)
  have lt: "pq_first_frame q < pq_end_frame q" and small: "pq_end_frame q - pq_first_frame q \<le> MAX_PUSH_FRAMES"
    and dis: "{pq_first_frame q ..< pq_end_frame q} \<inter> covered (in_ranges (se_intake se)) = {}"
    and tot: "known se \<Longrightarrow> pq_end_frame q \<le> sc_total_frames (se_config se)"
    using assms(1) by (auto simp: demand_ok_def known_def)
  show "\<not> pq_end_frame q \<le> pq_first_frame q" using lt by simp
  have s: "unat (pq_end_frame q - pq_first_frame q) \<le> 4096" using small by (simp add: word_le_nat_alt MAX_PUSH_FRAMES_def)
  then show "\<not> ucast UINT32_MAX < pq_end_frame q - pq_first_frame q"
    by (simp add: not_less word_le_nat_alt)
  have "unat ?d = unat (pq_end_frame q - pq_first_frame q)" using s by (simp add: unsigned_ucast_eq take_bit_nat_eq_self)
  moreover have "unat (pq_end_frame q - pq_first_frame q) = unat (pq_end_frame q) - unat (pq_first_frame q)"
    using lt by (simp add: unat_sub)
  ultimately have e: "unat (pq_first_frame q) + unat k \<le> unat (pq_end_frame q)"
    using le lt by (simp add: word_le_nat_alt word_less_nat_alt)
  then show "known se \<longrightarrow> unat (pq_first_frame q) + unat k \<le> unat (sc_total_frames (se_config se))"
    using tot by (auto simp: word_le_nat_alt)
  have "unat (pq_first_frame q + ucast k) = unat (pq_first_frame q) + unat k"
    using e unat_u64_bound [of "pq_end_frame q"] by (simp add: unat_plus_u64)
  then have "pq_first_frame q + ucast k \<le> pq_end_frame q" using e by (simp add: word_le_nat_alt)
  then have "{pq_first_frame q ..< pq_first_frame q + ucast k} \<subseteq> {pq_first_frame q ..< pq_end_frame q}" by auto
  then show "{pq_first_frame q ..< pq_first_frame q + ucast k} \<inter> covered (in_ranges (se_intake se)) = {}" using dis by blast
qed

lemma after_read_advance:
  assumes eg: "kernels_ok eg" and ok: "session_ok (eg_sizes eg) se"
  shows "\<exists>s n se'. after_read eg se q k r = Ret (s, n, se') \<and> advance (eg_sizes eg) se se' \<and>
    se_process_lock se' = se_process_lock se \<and> se_reads se' = se_reads se \<and>
    se_releases se' = se_releases se + (if fst r = STATUS_OK then 1 else 0)"
proof -
  obtain rs block where r: "r = (rs, block)" by fastforce
  have fail: "\<exists>s n se'. no_frames (apta_pull_source_failure eg se) = Ret (s, n, se') \<and> advance (eg_sizes eg) se se' \<and>
      se_process_lock se' = se_process_lock se \<and> se_reads se' = se_reads se \<and> se_releases se' = se_releases se"
    using failure_advance [OF eg ok] by (auto simp: same_counts_def)
  consider (block) "rs = STATUS_WOULD_BLOCK" | (eoi) "rs = STATUS_END_OF_INPUT"
    | (other) "rs \<noteq> STATUS_WOULD_BLOCK" "rs \<noteq> STATUS_END_OF_INPUT" "rs \<noteq> STATUS_OK" | (ok) "rs = STATUS_OK" by blast
  then show ?thesis
  proof cases
    case block
    then show ?thesis using ok_advance [OF ok] by (simp add: after_read_def r)
  next
    case eoi
    obtain s se' where "apta_internal_session_signal_end_of_input eg se (pq_first_frame q) = Ret (s, se')"
        "eoi_spec eg se (pq_first_frame q) (s, se')"
      using signal_advance [OF eg ok] by (metis prod.exhaust)
    then have "\<exists>s n se'. no_frames (apta_internal_session_signal_end_of_input eg se (pq_first_frame q)) = Ret (s, n, se') \<and>
      advance (eg_sizes eg) se se' \<and> se_process_lock se' = se_process_lock se \<and> se_reads se' = se_reads se \<and>
      se_releases se' = se_releases se"
      by (simp add: no_frames_def eoi_spec_def)
    then show ?thesis using eoi fail by (simp add: after_read_def r)
  next
    case other
    then show ?thesis using fail by (simp add: after_read_def r)
  next
    case ok: ok
    obtain s n se3 where a: "pull_accept eg se q k block = Ret (s, n, se3)" "advance (eg_sizes eg) se se3" "same_counts se se3"
      using pull_accept_advance [OF eg assms(2)] by blast
    let ?se4 = "se3\<lparr>se_releases := se_releases se3 + 1\<rparr>"
    have "session_ok (eg_sizes eg) se3" using a(2) by (simp add: advance_def)
    then have adv: "advance (eg_sizes eg) se3 ?se4" by (rule advance_cong) simp_all
    then have ok4: "session_ok (eg_sizes eg) ?se4" by (simp add: advance_def)
    note adv4 = advance_trans [OF a(2) adv]
    obtain s5 se5 where f: "no_frames (apta_pull_source_failure eg ?se4) = Ret (s5, 0, se5)" "advance (eg_sizes eg) ?se4 se5"
      "same_counts ?se4 se5"
      using failure_advance [OF eg ok4] by blast
    show ?thesis using a(1,3) f(1,3) adv4 advance_trans [OF adv4 f(2)] ok
      by (simp add: after_read_def r Let_def same_counts_def)
  qed
qed

lemma pull_advance:
  assumes eg: "kernels_ok eg" and ok: "session_ok (eg_sizes eg) se"
  shows "\<exists>r. apta_internal_pull_pcm_before_process eg rd se budget = Ret r \<and> pull_spec eg rd budget se r"
proof -
  have same: "pull_spec eg rd budget se (s, n, se)" for s n
    using ok_advance [OF ok] by (simp add: pull_spec_def)
  show ?thesis
  proof (cases "sc_input_mode (se_config se) \<noteq> INPUT_MODE_PULL \<or> \<not> se_has_pull_source se \<or> se_state se = SESSION_DRAINING \<or>
      se_state se = SESSION_COMPLETED \<or> se_state se = SESSION_CANCELLED \<or> se_state se = SESSION_FAILED \<or>
      in_queue (se_intake se) \<noteq> []")
    case True
    then have "\<exists>s n. apta_internal_pull_pcm_before_process eg rd se budget = Ret (s, n, se)"
      unfolding apta_internal_pull_pcm_before_process_def by auto
    then show ?thesis using same by auto
  next
    case False
    obtain s out se1 where d: "apta_internal_waveform_next_pcm_request se = (s, out, se1)" by (metis prod_cases3)
    obtain rqs where se1: "se1 = se\<lparr>se_requests := rqs\<rparr>" using next_request_only_requests [OF d] by blast
    have "requests_step se se1" by (rule next_request_step [OF d])
    moreover have "uses_workspace se1 = uses_workspace se" by (rule workspace_cong) (simp add: se1)
    ultimately have "same_view se se1" by (simp add: same_view_def se1)
    then have adv1: "advance (eg_sizes eg) se se1" by (rule advance_requests [OF ok]) (simp_all add: se1)
    then have ok1: "session_ok (eg_sizes eg) se1" by (simp add: advance_def)
    have c1: "same_counts se se1" by (simp add: se1 same_counts_def)
    have "ranges_ok (in_ranges (se_intake se))" using ok by (simp add: session_ok_def intake_ok_def)
    from internal_demand [OF this d]
    consider (demand) q where "s = STATUS_OK" "out = Some q" "demand_ok se q" | (none) "s = STATUS_NOT_AVAILABLE" by blast
    then show ?thesis
    proof cases
      case none
      obtain s2 se2 where sg: "apta_internal_session_signal_end_of_input eg se1 (sc_total_frames (se_config se1)) = Ret (s2, se2)"
        "eoi_spec eg se1 (sc_total_frames (se_config se1)) (s2, se2)"
        using signal_advance [OF eg ok1] by (metis prod.exhaust)
      have "pull_spec eg rd budget se (s2, 0, se2)"
        using sg(2) advance_trans [OF adv1, of se2] c1 by (simp add: pull_spec_def eoi_spec_def same_counts_def)
      moreover have "pull_spec eg rd budget se (STATUS_WOULD_BLOCK, 0, se1)" by (rule pull_spec_quiet [OF adv1 c1])
      ultimately show ?thesis using False d none sg(1)
        by (simp add: apta_internal_pull_pcm_before_process_def no_frames_def)
    next
      case demand
      define k where "k = requested_frames budget q"
      note k = requested_frames_ok(1-5) [OF demand(3), of budget, folded k_def] requested_frames_ok(6,7) [OF demand(3)]
      let ?se2 = "se1\<lparr>se_reads := se_reads se1 + 1\<rparr>"
      have run: "apta_internal_pull_pcm_before_process eg rd se budget =
          after_read eg ?se2 q k (rd (se_reads se) (pq_first_frame q) k)"
        using False d demand(1,2) k(1,6,7)
        by (simp add: apta_internal_pull_pcm_before_process_def k_def [symmetric] se1 Let_def)
      have adv2: "advance (eg_sizes eg) se1 ?se2" by (rule advance_cong [OF ok1]) simp_all
      then have ok2: "session_ok (eg_sizes eg) ?se2" by (simp add: advance_def)
      obtain s3 n3 se3 where r: "after_read eg ?se2 q k (rd (se_reads se) (pq_first_frame q) k) = Ret (s3, n3, se3)"
        "advance (eg_sizes eg) ?se2 se3" "se_process_lock se3 = se_process_lock ?se2" "se_reads se3 = se_reads ?se2"
        "se_releases se3 = se_releases ?se2 + (if fst (rd (se_reads se) (pq_first_frame q) k) = STATUS_OK then 1 else 0)"
        using after_read_advance [OF eg ok2] by blast
      have "one_read rd budget se se3" unfolding one_read_def
        using r(4,5) k(1-5) by (intro conjI exI [of _ "pq_first_frame q"] exI [of _ k]) (simp_all add: se1)
      moreover have "se_process_lock se3 = se_process_lock se" using r(3) by (simp add: se1)
      ultimately have "pull_spec eg rd budget se (s3, n3, se3)"
        using advance_trans [OF advance_trans [OF adv1 adv2] r(2)] by (simp add: pull_spec_def)
      then show ?thesis using run r(1) by simp
    qed
  qed
qed

section \<open>Processing\<close>

lemma unlock_advance: "advance sizes se se' \<Longrightarrow> advance sizes se (unlock se')"
proof -
  assume a: "advance sizes se se'"
  then have "session_ok sizes se'" by (simp add: advance_def)
  then have "advance sizes se' (unlock se')" by (rule advance_cong) (simp_all add: unlock_def)
  with a show ?thesis by (rule advance_trans)
qed

lemma unlock_fields [simp]:
  "se_reads (unlock se) = se_reads se" "se_releases (unlock se) = se_releases se" "\<not> se_process_lock (unlock se)"
  by (simp_all add: unlock_def)

definition process_spec :: "engine \<Rightarrow> apta_session \<Rightarrow> apta_session \<Rightarrow> bool" where
  "process_spec eg se se' \<longleftrightarrow> advance (eg_sizes eg) se se' \<and> \<not> se_process_lock se' \<and>
     se_reads se' = se_reads se \<and> se_releases se' = se_releases se"

lemma process_spec_unlock: "advance (eg_sizes eg) se se' \<Longrightarrow> same_counts se se' \<Longrightarrow> process_spec eg se (unlock se')"
  by (simp add: process_spec_def unlock_advance same_counts_def)

text \<open>The waveform step inside the call, which a session without the overview leaves out.\<close>

lemma worked_advance:
  assumes w: "worked sizes se se'" and ok: "session_ok sizes se"
    and h: "overview_exact se \<and> uses_workspace se \<longrightarrow> overview_exact se'" "overview_exact se \<longrightarrow> requests_step se se'"
  shows "advance sizes se se'" "same_counts se se'"
proof -
  have l: "same_life se se'" "in_ranges (se_intake se') = in_ranges (se_intake se)" "work_ok sizes se'"
    using w by (simp_all add: worked_def)
  have "history_ok se" using ok by (simp add: session_ok_def)
  then have "history_ok se'" using h requests_step_true [OF _ _ w] l(1) by (auto simp: history_ok_def same_life_def)
  moreover have "life_ok se' = life_ok se" by (rule life_ok_cong) (use l in \<open>simp_all add: same_life_def\<close>)
  ultimately have "session_ok sizes se'" using l(3) ok by (simp add: session_ok_def work_ok_def)
  then show "advance sizes se se'" using l by (simp add: advance_def same_life_def)
  show "same_counts se se'" using l(1) by (simp add: same_counts_def same_life_def)
qed

lemma waveform_step:
  assumes eg: "kernels_ok eg" and ok: "session_ok (eg_sizes eg) se"
  shows "\<exists>w dw po pg1 se1. (if has_feature (se_config se) FEATURE_WAVEFORM_OVERVIEW
          then apta_internal_waveform_process eg se budget pg
          else Ret (STATUS_WOULD_BLOCK, False, False, pg, se)) = Ret (w, dw, po, pg1, se1) \<and>
      advance (eg_sizes eg) se se1 \<and> same_counts se se1"
proof (cases "has_feature (se_config se) FEATURE_WAVEFORM_OVERVIEW")
  case True
  obtain w dw po pg1 se1 where p: "apta_internal_waveform_process eg se budget pg = Ret (w, dw, po, pg1, se1)"
    "layer_spec (eg_sizes eg) se (w, dw, po, pg1, se1)"
    using waveform_process_spec [OF eg session_work [OF ok], of budget pg] by (metis prod_cases5)
  have "worked (eg_sizes eg) se se1" "overview_exact se \<and> uses_workspace se \<longrightarrow> overview_exact se1"
    "overview_exact se \<longrightarrow> requests_step se se1" using p(2) by (simp_all add: layer_spec_def)
  from worked_advance [OF this(1) ok this(2,3)] show ?thesis using True p(1) by simp
next
  case False
  then show ?thesis using ok_advance [OF ok] by (simp add: same_counts_def) blast
qed

lemma process_locked_advance:
  assumes eg: "kernels_ok eg" and ok: "session_ok (eg_sizes eg) se"
  shows "\<exists>s g se'. process_locked eg se budget = Ret (s, g, se') \<and> process_spec eg se se'"
proof -
  have same: "process_spec eg se (unlock se)"
    by (rule process_spec_unlock [OF ok_advance [OF ok]]) (simp add: same_counts_def)
  show ?thesis
  proof (cases "se_cancel_requested se")
    case True
    obtain s se' where t: "apta_internal_session_transition eg se SESSION_CANCELLED = Ret (s, se')"
      "advance (eg_sizes eg) se se'"
      "published_still (eg_sizes eg) (se\<lparr>se_state := (if failed s then se_state se else SESSION_CANCELLED)\<rparr>) se'"
      using transition_advance [OF eg ok, of SESSION_CANCELLED] by blast
    then show ?thesis using True process_spec_unlock [OF t(2) still_counts [OF t(3)]]
      by (simp add: process_locked_def Let_def)
  next
    case nc: False
    show ?thesis
    proof (cases "se_state se = SESSION_COMPLETED \<or> se_state se = SESSION_CANCELLED \<or> se_state se = SESSION_FAILED")
      case True
      then show ?thesis using nc same by (auto simp: process_locked_def Let_def)
    next
      case False
      obtain w dw po pg se1 where w: "(if has_feature (se_config se) FEATURE_WAVEFORM_OVERVIEW
          then apta_internal_waveform_process eg se budget (cleared_progress (se_generation se))
          else Ret (STATUS_WOULD_BLOCK, False, False, cleared_progress (se_generation se), se)) = Ret (w, dw, po, pg, se1)"
        and a1: "advance (eg_sizes eg) se se1" and c1: "same_counts se se1"
        using waveform_step [OF eg ok, of budget] by blast
      have ok1: "session_ok (eg_sizes eg) se1" using a1 by (simp add: advance_def)
      note s1 = process_spec_unlock [OF a1 c1]
      show ?thesis
      proof (cases "failed w \<or> \<not> (se_state se1 = SESSION_DRAINING \<and> in_queue (se_intake se1) = [] \<and>
          \<not> apta_internal_analysis_pending se1)")
        case True
        then have "\<exists>s g. process_locked eg se budget = Ret (s, g, unlock se1)"
          using nc False w unfolding process_locked_def Let_def by auto
        then show ?thesis using s1 by blast
      next
        case nt: False
        then have n: "SESSION_COMPLETED = SESSION_ACTIVE \<or> SESSION_COMPLETED = SESSION_CANCELLED \<or>
          SESSION_COMPLETED = SESSION_FAILED \<or>
          (SESSION_COMPLETED = SESSION_DRAINING \<or> SESSION_COMPLETED = SESSION_COMPLETED) \<and> se_end_of_input_signalled se1"
          using ok1 by (simp add: session_ok_def life_ok_def)
        obtain s se2 where t: "apta_internal_session_transition eg se1 SESSION_COMPLETED = Ret (s, se2)"
          "advance (eg_sizes eg) se1 se2"
          "published_still (eg_sizes eg) (se1\<lparr>se_state := (if failed s then se_state se1 else SESSION_COMPLETED)\<rparr>) se2"
          using transition_advance [OF eg ok1 n] by blast
        have "same_counts se se2" using c1 still_counts [OF t(3)] by (simp add: same_counts_def)
        then have "process_spec eg se (unlock se2)"
          using process_spec_unlock [OF advance_trans [OF a1 t(2)]] by simp
        moreover have "\<exists>g. process_locked eg se budget = Ret (if failed s then s else STATUS_END_OF_INPUT, g, unlock se2)"
          using nc False w nt t(1) unfolding process_locked_def Let_def by auto
        ultimately show ?thesis by blast
      qed
    qed
  qed
qed

lemma process_impl_advance:
  assumes eg: "kernels_ok eg" and ok: "session_ok (eg_sizes eg) se"
    and "\<not> failed (validate_process (eg_sizes eg) budget progress)" "held \<or> \<not> se_process_lock se"
  shows "\<exists>s g se'. apta_session_process_impl eg se budget progress held = Ret (s, g, se') \<and> process_spec eg se se'"
proof -
  obtain deadline se1 where d: "process_deadline eg (se\<lparr>se_process_lock := True\<rparr>) budget = (deadline, se1)" by fastforce
  obtain n where n: "se1 = se\<lparr>se_process_lock := True, se_clock_reads := n\<rparr>"
  proof (cases "wb_soft_time_budget_us budget = 0 \<or> eg_clock eg = None")
    case True
    then have "se1 = se\<lparr>se_process_lock := True\<rparr>"
      using d by (elim disjE) (simp_all add: process_deadline_def read_clock_def split: if_splits)
    then show ?thesis using that [of "se_clock_reads se"] by simp
  next
    case False
    then show ?thesis using d that by (auto simp: process_deadline_def read_clock_def Let_def)
  qed
  let ?se = "se1\<lparr>se_process_deadline_ns := deadline\<rparr>"
  have a: "advance (eg_sizes eg) se ?se" by (rule advance_cong [OF ok]) (simp_all add: n)
  then have "session_ok (eg_sizes eg) ?se" by (simp add: advance_def)
  from process_locked_advance [OF eg this, of budget] obtain s g se' where
    p: "process_locked eg ?se budget = Ret (s, g, se')" "process_spec eg ?se se'" by blast
  have "process_spec eg se se'" using p(2) advance_trans [OF a] by (simp add: process_spec_def n)
  then show ?thesis using p(1) d assms(3,4) by (auto simp: apta_session_process_impl_def Let_def)
qed

text \<open>A processing call in its entirety.\<close>

definition process_call_spec :: "engine \<Rightarrow> reader \<Rightarrow> work_budget \<Rightarrow> apta_session \<Rightarrow> apta_session \<Rightarrow> bool" where
  "process_call_spec eg rd budget se se' \<longleftrightarrow>
     advance (eg_sizes eg) se se' \<and> (\<not> se_process_lock se \<longrightarrow> \<not> se_process_lock se') \<and>
     (se_reads se' = se_reads se \<and> se_releases se' = se_releases se \<or> one_read rd budget se se')"

lemma process_advance:
  assumes eg: "kernels_ok eg" and ok: "session_ok (eg_sizes eg) se"
  shows "\<exists>s g se'. apta_session_process eg rd se budget progress = Ret (s, g, se') \<and> process_call_spec eg rd budget se se'"
proof -
  let ?v = "validate_process (eg_sizes eg) budget progress"
  have same: "process_call_spec eg rd budget se se" using ok_advance [OF ok] by (simp add: process_call_spec_def)
  have lift: "process_call_spec eg rd budget se se'" if "process_spec eg se se'" for se'
    using that by (simp add: process_call_spec_def process_spec_def)
  consider (bad) "failed ?v \<or> se_process_lock se"
    | (push) "\<not> failed ?v" "\<not> se_process_lock se" "sc_input_mode (se_config se) \<noteq> INPUT_MODE_PULL \<or> se_cancel_requested se"
    | (pull) "\<not> failed ?v" "\<not> se_process_lock se" "sc_input_mode (se_config se) = INPUT_MODE_PULL" "\<not> se_cancel_requested se"
    by blast
  then show ?thesis
  proof cases
    case bad
    then have "\<exists>s g. apta_session_process eg rd se budget progress = Ret (s, g, se)"
      by (auto simp: apta_session_process_def apta_session_process_activation_base_def apta_session_process_impl_def Let_def)
    then show ?thesis using same by blast
  next
    case push
    then show ?thesis using process_impl_advance [OF eg ok push(1), of False] lift
      by (auto simp: apta_session_process_def apta_session_process_activation_base_def Let_def)
  next
    case pull
    let ?se = "se\<lparr>se_process_lock := True\<rparr>"
    have a: "advance (eg_sizes eg) se ?se" by (rule advance_cong [OF ok]) simp_all
    then have ok1: "session_ok (eg_sizes eg) ?se" by (simp add: advance_def)
    obtain s n se1 where p: "apta_internal_pull_pcm_before_process eg rd ?se budget = Ret (s, n, se1)"
      "pull_spec eg rd budget ?se (s, n, se1)"
      using pull_advance [OF eg ok1] by (metis prod_cases3)
    have a1: "advance (eg_sizes eg) se se1" using p(2) advance_trans [OF a] by (simp add: pull_spec_def)
    have ok2: "session_ok (eg_sizes eg) se1" using a1 by (simp add: advance_def)
    have reads: "se_reads se1 = se_reads se \<and> se_releases se1 = se_releases se \<or> one_read rd budget se se1"
      using p(2) by (simp add: pull_spec_def one_read_def known_def)
    show ?thesis
    proof (cases "failed s")
      case True
      let ?se1 = "se1\<lparr>se_process_lock := False\<rparr>"
      have "advance (eg_sizes eg) se1 ?se1" by (rule advance_cong [OF ok2]) simp_all
      from advance_trans [OF a1 this] have "process_call_spec eg rd budget se ?se1"
        using reads by (simp add: process_call_spec_def one_read_def)
      then show ?thesis using True pull p(1) by (simp add: apta_session_process_def Let_def)
    next
      case False
      obtain s2 g se2 where i: "apta_session_process_impl eg se1 budget progress True = Ret (s2, g, se2)" "process_spec eg se1 se2"
        using process_impl_advance [OF eg ok2 pull(1), of True] by blast
      have "process_call_spec eg rd budget se se2"
        using i(2) reads advance_trans [OF a1, of se2] by (simp add: process_call_spec_def process_spec_def one_read_def)
      then show ?thesis using False pull p(1) i(1) by (simp add: apta_session_process_def Let_def)
    qed
  qed
qed

end
