(* ===== verification/Apta_Session_Run.thy ===== *)
theory Apta_Session_Run
  imports Apta_Session_Ok
begin

text \<open>
  A session as its user sees it: the operations of a run are pushing a block, signalling the end of
  input, setting the pull source, requesting cancellation, processing, requesting a region and
  withdrawing the request, setting the focus, and asking for the next PCM request.  The properties hold of every
  sequence of these calls.  Not among them are \<^verbatim>\<open>apta_session_seed_from_result\<close>,
  \<^verbatim>\<open>apta_session_set_metadata\<close>, \<^verbatim>\<open>apta_session_lock_grid_range\<close> and \<^verbatim>\<open>apta_session_apply_grid_revision\<close>: nothing
  is claimed of a session on which one of them has been called.  (Seeding takes over
  columns of a result whose samples the session has not seen.)  The calls that only read a session are left out.
\<close>

section \<open>Sequences of calls\<close>

datatype session_op =
    Push pcm_block
  | End_of_input u64
  | Set_source pcm_source
  | Request_cancel
  | Process reader work_budget "(u32 \<times> u32) option"
  | Request_region region_request
  | Cancel_region u32
  | Set_focus focus
  | Next_pcm_request u32 u32

fun session_step :: "engine \<Rightarrow> apta_session \<Rightarrow> session_op \<Rightarrow> apta_session outcome" where
  "session_step eg se (Push block) = obind (apta_session_push_pcm eg se block) (\<lambda>(s, n, se'). Ret se')"
| "session_step eg se (End_of_input f) = obind (apta_session_signal_end_of_input eg se f) (\<lambda>(s, se'). Ret se')"
| "session_step eg se (Set_source src) = Ret (snd (apta_session_set_source (eg_sizes eg) se src))"
| "session_step eg se Request_cancel = Ret (apta_session_request_cancel se)"
| "session_step eg se (Process rd budget progress) =
     obind (apta_session_process eg rd se budget progress) (\<lambda>(s, g, se'). Ret se')"
| "session_step eg se (Request_region req) = Ret (snd (snd (apta_session_request_region (eg_sizes eg) se req)))"
| "session_step eg se (Cancel_region i) = Ret (snd (apta_session_cancel_region_request se i))"
| "session_step eg se (Set_focus fo) = Ret (snd (apta_session_set_focus (eg_sizes eg) se fo))"
| "session_step eg se (Next_pcm_request sz v) = Ret (snd (snd (apta_session_next_pcm_request (eg_sizes eg) se sz v)))"

fun session_run :: "engine \<Rightarrow> apta_session \<Rightarrow> session_op list \<Rightarrow> apta_session outcome" where
  "session_run eg se [] = Ret se"
| "session_run eg se (opn # ops) = obind (session_step eg se opn) (\<lambda>se'. session_run eg se' ops)"

lemma set_source_cases:
  "snd (apta_session_set_source sizes se src) = se \<or>
   se_state se = SESSION_CREATED \<and>
     (snd (apta_session_set_source sizes se src) = se\<lparr>se_has_pull_source := True\<rparr> \<or>
      (\<exists>n. n \<noteq> APTA_TOTAL_FRAMES_UNKNOWN \<and> (known se \<longrightarrow> sc_total_frames (se_config se) = n) \<and>
        snd (apta_session_set_source sizes se src) =
          se\<lparr>se_config := (se_config se)\<lparr>sc_total_frames := n\<rparr>, se_has_pull_source := True\<rparr>))"
proof -
  define n where "n = (case ps_total_frames src of None \<Rightarrow> APTA_TOTAL_FRAMES_UNKNOWN | Some n \<Rightarrow> n)"
  show ?thesis
  proof (cases "sc_input_mode (se_config se) \<noteq> INPUT_MODE_PULL \<or> se_state se \<noteq> SESSION_CREATED \<or>
      \<not> apta_internal_validate_struct True (sizeof_pcm_source sizes) (ps_struct_size src) (ps_api_version src) \<or>
      (\<not> ps_has_read_frames src \<or> \<not> ps_has_release_frames src) \<or>
      n \<noteq> APTA_TOTAL_FRAMES_UNKNOWN \<and> known se \<and> sc_total_frames (se_config se) \<noteq> n")
    case True
    then have "snd (apta_session_set_source sizes se src) = se"
      unfolding apta_session_set_source_def Let_def n_def [symmetric] known_def by (elim disjE) simp_all
    then show ?thesis ..
  next
    case False
    then have "apta_session_set_source sizes se src =
        (STATUS_OK, (if n \<noteq> APTA_TOTAL_FRAMES_UNKNOWN
            then se\<lparr>se_config := (se_config se)\<lparr>sc_total_frames := n\<rparr>\<rparr> else se)\<lparr>se_has_pull_source := True\<rparr>)"
      unfolding apta_session_set_source_def Let_def n_def [symmetric] known_def by (simp del: if_split_asm)
    then show ?thesis using False by (cases "n = APTA_TOTAL_FRAMES_UNKNOWN") auto
  qed
qed

lemma set_source_advance:
  assumes ok: "session_ok sizes se"
  shows "advance sizes se (snd (apta_session_set_source sizes se src))"
  using set_source_cases [of sizes se src]
proof (elim disjE conjE exE)
  assume "snd (apta_session_set_source sizes se src) = se"
  then show ?thesis using ok_advance [OF ok] by simp
next
  assume e: "snd (apta_session_set_source sizes se src) = se\<lparr>se_has_pull_source := True\<rparr>"
  have "advance sizes se (se\<lparr>se_has_pull_source := True\<rparr>)" by (rule advance_cong [OF ok]) simp_all
  then show ?thesis using e by simp
next
  fix n assume n: "se_state se = SESSION_CREATED" "n \<noteq> APTA_TOTAL_FRAMES_UNKNOWN" "known se \<longrightarrow> sc_total_frames (se_config se) = n"
    "snd (apta_session_set_source sizes se src) =
       se\<lparr>se_config := (se_config se)\<lparr>sc_total_frames := n\<rparr>, se_has_pull_source := True\<rparr>"
  let ?se = "se\<lparr>se_config := (se_config se)\<lparr>sc_total_frames := n\<rparr>, se_has_pull_source := True\<rparr>"
  have m: "se_memory ?se = se_memory se" by simp
  have "results_ok sizes ?se"
    by (rule results_ok_moved [of sizes se]) (use ok m in \<open>simp_all add: session_ok_def\<close>)
  moreover have "same_view se ?se" using workspace_cong [OF m] requests_step_same [of ?se se] by (simp add: same_view_def)
  then have "overview_shape ?se" "history_ok ?se" using view_history [of se ?se] ok by (simp_all add: session_ok_def)
  moreover have "life_ok ?se" using ok n(1-3) by (auto simp: session_ok_def life_ok_def known_def)
  ultimately have "session_ok sizes ?se" using ok by (simp add: session_ok_def)
  then show ?thesis using n(4) by (simp add: advance_def uses_workspace_def se_memory_def)
qed

lemma set_source_lock: "se_process_lock (snd (apta_session_set_source sizes se src)) = se_process_lock se"
  by (simp add: apta_session_set_source_def Let_def)

text \<open>The request table: a new request is not satisfied, and an existing one only moves on.\<close>

lemma advance_table:
  assumes ok: "session_ok sizes se" and rs: "\<forall>r\<in>set rs. r \<in> set (se_requests se) \<or> rq_state r \<noteq> REQUEST_SATISFIED"
  shows "advance sizes se (se\<lparr>se_next_request_id := n, se_next_enqueue_serial := m, se_requests := rs\<rparr>)"
proof -
  let ?se1 = "se\<lparr>se_next_request_id := n, se_next_enqueue_serial := m\<rparr>"
  let ?se = "se\<lparr>se_next_request_id := n, se_next_enqueue_serial := m, se_requests := rs\<rparr>"
  have a: "advance sizes se ?se1" by (rule advance_cong [OF ok]) simp_all
  then have ok1: "session_ok sizes ?se1" by (simp add: advance_def)
  have u: "uses_workspace ?se = uses_workspace ?se1" by (rule workspace_cong) simp
  have h1: "history_ok ?se1" using ok1 by (simp add: session_ok_def)
  have P: "processed_frames ?se = processed_frames ?se1" by (simp add: processed_frames_def accepted_frames_def)
  have "overview_exact ?se = overview_exact ?se1"
    by (simp add: overview_exact_def P overview_table_def accumulators_def column_frames_def completed_def)
  moreover have "requests_true ?se1 \<Longrightarrow> requests_true ?se"
    using rs by (auto simp: requests_true_def request_true_def range_frames_def P)
  ultimately have "history_ok ?se" using h1 by (simp add: history_ok_def u)
  moreover have "life_ok ?se = life_ok ?se1" by (rule life_ok_cong) simp_all
  moreover have "results_ok sizes ?se"
    by (rule results_ok_moved [of sizes se]) (use ok in \<open>simp_all add: session_ok_def\<close>)
  moreover have "overview_shape ?se = overview_shape ?se1" by (simp add: overview_shape_def u)
  ultimately have "session_ok sizes ?se" using ok1 by (simp add: session_ok_def)
  then show ?thesis by (simp add: advance_def uses_workspace_def se_memory_def)
qed

lemma request_region_fields:
  "\<exists>n m rs. snd (snd (apta_session_request_region_base sizes se req)) =
     se\<lparr>se_next_request_id := n, se_next_enqueue_serial := m, se_requests := rs\<rparr> \<and>
     (\<forall>r\<in>set rs. r \<in> set (se_requests se) \<or> rq_state r \<noteq> REQUEST_SATISFIED)"
proof -
  obtain i se1 where a: "(if rr_request_id req \<noteq> 0 then (rr_request_id req, se) else apta_scheduler_allocate_request_id se) = (i, se1)"
    by fastforce
  obtain n where n: "se1 = se\<lparr>se_next_request_id := n\<rparr>"
  proof (cases "rr_request_id req = 0")
    case True
    then have "allocate_id 0 se = (i, se1)" using a by (simp add: apta_scheduler_allocate_request_id_def)
    then show ?thesis using that allocate_id_props by blast
  next
    case False
    then show ?thesis using a that [of "se_next_request_id se"] by simp
  qed
  define P where "P x \<longleftrightarrow> (\<exists>n m rs. x = se\<lparr>se_next_request_id := n, se_next_enqueue_serial := m, se_requests := rs\<rparr> \<and>
     (\<forall>r\<in>set rs. r \<in> set (se_requests se) \<or> rq_state r \<noteq> REQUEST_SATISFIED))" for x
  have P: "P se"
    unfolding P_def by (intro exI [of _ "se_next_request_id se"] exI [of _ "se_next_enqueue_serial se"] exI [of _ "se_requests se"]) simp
  have P1: "P se1"
    unfolding n P_def by (intro exI [of _ n] exI [of _ "se_next_enqueue_serial se"] exI [of _ "se_requests se"]) simp
  have upd: "r \<in> set (se_requests se) \<or> rq_state r \<noteq> REQUEST_SATISFIED"
    if "r \<in> set ((se_requests se)[slot := x])" "rq_state x \<noteq> REQUEST_SATISFIED" for r x slot
    using that set_update_subset_insert [of "se_requests se" slot x] by auto
  have P2: "P (se1\<lparr>se_requests := (se_requests se1)[slot := x]\<rparr>)" if "rq_state x \<noteq> REQUEST_SATISFIED" for x slot
    unfolding n P_def using upd [OF _ that]
    by (intro exI [of _ n] exI [of _ "se_next_enqueue_serial se"] exI [of _ "(se_requests se)[slot := x]"]) auto
  have P3: "P (se1\<lparr>se_next_enqueue_serial := y, se_requests := (se_requests se1)[slot := x]\<rparr>)"
    if "rq_state x \<noteq> REQUEST_SATISFIED" for x y slot
    unfolding n P_def using upd [OF _ that]
    by (intro exI [of _ n] exI [of _ y] exI [of _ "(se_requests se)[slot := x]"]) auto
  have s: "rq_state zero_request \<noteq> REQUEST_SATISFIED"
    "rq_state ((queued_request req i)\<lparr>rq_enqueue_serial := y, rq_skip_count := 0\<rparr>) \<noteq> REQUEST_SATISFIED" for y
    by (simp_all add: zero_request_def queued_request_def apta_consts)
  have "P (snd (snd (apta_session_request_region_base sizes se req)))"
    unfolding apta_session_request_region_base_def a prod.case
    using P P1 P2 [OF s(1)] P3 [OF s(2)] by (simp add: register_request split: option.split)
  then show ?thesis by (simp add: P_def)
qed

lemma cancel_region_fields:
  "\<exists>rs. snd (apta_session_cancel_region_request se i) = se\<lparr>se_requests := rs\<rparr> \<and>
     (\<forall>r\<in>set rs. r \<in> set (se_requests se) \<or> rq_state r \<noteq> REQUEST_SATISFIED)"
proof -
  let ?rs = "\<lambda>slot. (se_requests se)[slot := (se_requests se ! slot)\<lparr>rq_state := REQUEST_CANCELLED\<rparr>]"
  have "r \<in> set (se_requests se) \<or> rq_state r \<noteq> REQUEST_SATISFIED" if "r \<in> set (?rs slot)" for r slot
    using that set_update_subset_insert [of "se_requests se" slot "(se_requests se ! slot)\<lparr>rq_state := REQUEST_CANCELLED\<rparr>"]
    by (auto simp: apta_consts)
  moreover have "snd (apta_session_cancel_region_request se i) = se\<lparr>se_requests := se_requests se\<rparr> \<or>
      (\<exists>slot. snd (apta_session_cancel_region_request se i) = se\<lparr>se_requests := ?rs slot\<rparr>)"
    by (auto simp: apta_session_cancel_region_request_def split: option.split)
  ultimately show ?thesis by blast
qed

text \<open>The demand changes the requests' skip counts only.\<close>

lemma next_request_step_fields:
  assumes "apta_session_next_pcm_request sizes se sz v = (s, out, se')"
  shows "(\<exists>rs. se' = se\<lparr>se_requests := rs\<rparr>) \<and> requests_step se se'"
proof (cases "apta_internal_validate_struct True (sizeof_pcm_request sizes) sz v")
  case False
  then show ?thesis using assms requests_step_same [of se se] by (auto simp: apta_session_next_pcm_request_def intro: exI [of _ "se_requests se"])
next
  case True
  obtain s1 out1 se1 where d: "apta_internal_detail_next_pcm_request se = (s1, out1, se1)" by (metis prod_cases3)
  have c: "se1 = se \<or> (\<exists>k. se1 = apta_internal_scheduler_note_choice se k)"
    using d by (auto simp: apta_internal_detail_next_pcm_request_def split: prod.splits if_splits)
  then have f1: "\<exists>rs. se1 = se\<lparr>se_requests := rs\<rparr>" and r1: "requests_step se se1"
    using note_choice_step requests_step_same [of se se]
    by (auto simp: apta_internal_scheduler_note_choice_def intro: exI [of _ "se_requests se"])
  show ?thesis
  proof (cases "s1 = STATUS_OK \<or> failed s1")
    case True
    then show ?thesis using assms d f1 r1 \<open>apta_internal_validate_struct _ _ _ _\<close>
      by (auto simp: apta_session_next_pcm_request_def)
  next
    case False
    let ?l = "lift_masks (S4_FEATURES OR S6_FEATURES) se1"
    obtain s2 out2 se2 where b: "apta_session_next_pcm_request_base sizes ?l sz v = (s2, out2, se2)" by (metis prod_cases3)
    have se': "se' = restore_masks se1 se2"
      using assms d b False True by (simp add: apta_session_next_pcm_request_def)
    have c2: "se2 = ?l \<or> (\<exists>k. se2 = apta_internal_scheduler_note_choice ?l k)"
      using b by (auto simp: apta_session_next_pcm_request_base_def apta_internal_waveform_next_pcm_request_def Let_def
          split: prod.splits if_splits)
    obtain g where g: "se_requests se2 = map (\<lambda>r. g (lift_request (S4_FEATURES OR S6_FEATURES) r)) (se_requests se1)"
      "\<And>r. rq_request (g r) = rq_request r" "\<And>r. rq_state (g r) = rq_state r" "\<And>r. rq_request_id (g r) = rq_request_id r"
      "\<exists>rs. se2 = ?l\<lparr>se_requests := rs\<rparr>"
    proof -
      from c2 show ?thesis
      proof (elim disjE exE)
        assume "se2 = ?l"
        then show ?thesis by (intro that [of id]) (auto simp: lift_masks_def intro: exI [of _ "se_requests ?l"])
      next
        fix k assume "se2 = apta_internal_scheduler_note_choice ?l k"
        then show ?thesis
          by (intro that [of "note_choice_slot k"]) (auto simp: lift_masks_def apta_internal_scheduler_note_choice_def)
      qed
    qed
    have "list_all2 (request_step se') (se_requests se1) (se_requests se')"
      unfolding se' by (simp add: restore_masks_def g(1) list_all2_conv_all_nth request_step_def restore_mask_def g(2-4) lift_request_def)
    then have r2: "requests_step se1 se'" by (simp add: requests_step_def)
    have "se' = se1\<lparr>se_requests := se_requests se'\<rparr>"
      using g(5) unfolding se' by (auto simp: restore_masks_def lift_masks_def lift_focus_def)
    then have f2: "\<exists>rs. se' = se\<lparr>se_requests := rs\<rparr>" using f1 by auto
    then have "se_requests se' = se_requests se' \<and> list_all2 (request_step se') (se_requests se) (se_requests se1)"
    proof -
      have e: "request_step se' = request_step se1" using f1 f2
        by (auto simp: fun_eq_iff request_step_def range_frames_def processed_frames_def accepted_frames_def)
      show ?thesis using r1 by (simp add: requests_step_def e)
    qed
    then have "requests_step se se'"
      using list_all2_trans [of "request_step se'" "request_step se'" "request_step se'"] request_step_trans r2
      by (simp add: requests_step_def)
    then show ?thesis using f2 by blast
  qed
qed

lemma step_advance:
  assumes eg: "kernels_ok eg" and ok: "session_ok (eg_sizes eg) se"
  shows "\<exists>se'. session_step eg se opn = Ret se' \<and> advance (eg_sizes eg) se se' \<and>
    (\<not> se_process_lock se \<longrightarrow> \<not> se_process_lock se')"
proof (cases opn)
  case (Push block)
  then show ?thesis using push_advance [OF eg ok, of block] by auto
next
  case (End_of_input f)
  obtain s se' where "apta_internal_session_signal_end_of_input eg se f = Ret (s, se')" "eoi_spec eg se f (s, se')"
    using signal_advance [OF eg ok] by (metis prod.exhaust)
  then show ?thesis using End_of_input ok_advance [OF ok]
    by (simp add: apta_session_signal_end_of_input_def eoi_spec_def)
next
  case (Set_source src)
  then show ?thesis using set_source_advance [OF ok] set_source_lock by simp
next
  case Request_cancel
  have "advance (eg_sizes eg) se (apta_session_request_cancel se)"
    by (rule advance_cong [OF ok]) (simp_all add: apta_session_request_cancel_def)
  then show ?thesis using Request_cancel by (simp add: apta_session_request_cancel_def)
next
  case (Process rd budget progress)
  obtain s g se' where "apta_session_process eg rd se budget progress = Ret (s, g, se')" "process_call_spec eg rd budget se se'"
    using process_advance [OF eg ok] by blast
  then show ?thesis using Process by (simp add: process_call_spec_def)
next
  case (Request_region req)
  obtain n m rs where r: "snd (snd (apta_session_request_region_base (eg_sizes eg) se req)) =
     se\<lparr>se_next_request_id := n, se_next_enqueue_serial := m, se_requests := rs\<rparr>"
    "\<forall>r\<in>set rs. r \<in> set (se_requests se) \<or> rq_state r \<noteq> REQUEST_SATISFIED" using request_region_fields by blast
  have "advance (eg_sizes eg) se (se\<lparr>se_next_request_id := n, se_next_enqueue_serial := m, se_requests := rs\<rparr>)"
    by (rule advance_table [OF ok r(2)])
  then show ?thesis using Request_region r(1) ok_advance [OF ok] by (simp add: apta_session_request_region_def)
next
  case (Cancel_region i)
  obtain rs where r: "snd (apta_session_cancel_region_request se i) = se\<lparr>se_requests := rs\<rparr>"
    "\<forall>r\<in>set rs. r \<in> set (se_requests se) \<or> rq_state r \<noteq> REQUEST_SATISFIED" using cancel_region_fields by blast
  have "advance (eg_sizes eg) se (se\<lparr>se_next_request_id := se_next_request_id se,
      se_next_enqueue_serial := se_next_enqueue_serial se, se_requests := rs\<rparr>)"
    by (rule advance_table [OF ok r(2)])
  then show ?thesis using Cancel_region r(1) by simp
next
  case (Set_focus fo)
  have "advance (eg_sizes eg) se (se\<lparr>se_focus := fo, se_has_focus := True\<rparr>)"
    by (rule advance_cong [OF ok]) simp_all
  then show ?thesis using Set_focus ok_advance [OF ok]
    by (simp add: apta_session_set_focus_def apta_session_set_focus_base_def)
next
  case (Next_pcm_request sz v)
  obtain s out se' where n: "apta_session_next_pcm_request (eg_sizes eg) se sz v = (s, out, se')" by (metis prod_cases3)
  obtain rs where rs: "se' = se\<lparr>se_requests := rs\<rparr>" and st: "requests_step se se'" using next_request_step_fields [OF n] by blast
  have "uses_workspace se' = uses_workspace se" by (rule workspace_cong) (simp add: rs)
  then have "same_view se se'" using st by (simp add: same_view_def rs)
  then have "advance (eg_sizes eg) se se'" by (rule advance_requests [OF ok]) (simp_all add: rs)
  then show ?thesis using Next_pcm_request n rs by simp
qed

lemma run_advance:
  assumes "kernels_ok eg" "session_ok (eg_sizes eg) se"
  shows "\<exists>se'. session_run eg se ops = Ret se' \<and> advance (eg_sizes eg) se se' \<and>
    (\<not> se_process_lock se \<longrightarrow> \<not> se_process_lock se')"
  using assms(2)
proof (induction ops arbitrary: se)
  case Nil
  then show ?case by (simp add: ok_advance)
next
  case (Cons opn ops)
  obtain se1 where s: "session_step eg se opn = Ret se1" "advance (eg_sizes eg) se se1"
    "\<not> se_process_lock se \<longrightarrow> \<not> se_process_lock se1" using step_advance [OF assms(1) Cons.prems] by blast
  then have "session_ok (eg_sizes eg) se1" by (simp add: advance_def)
  from Cons.IH [OF this] show ?case using s advance_trans [OF s(2)] by auto
qed

lemma terminal_moves:
  assumes "moves s t" "s = SESSION_COMPLETED \<or> s = SESSION_CANCELLED \<or> s = SESSION_FAILED"
  shows "t = s"
  using assms unfolding moves_def
proof (induction rule: rtranclp_induct)
  case (step y z)
  then show ?case by (auto simp: apta_session_transition_is_allowed_def apta_consts split: if_splits)
qed simp


section \<open>A target without missing frames\<close>

lemma find_missing_covered:
  assumes "ranges_ok rs" "{a ..< e} \<subseteq> covered rs"
  shows "find_missing rs a e = None"
proof (rule ccontr)
  assume "find_missing rs a e \<noteq> None"
  then obtain x y where "find_missing rs a e = Some (x, y)" by auto
  then have "a \<le> x" "x < y" "y \<le> e" "{x ..< y} \<inter> covered rs = {}"
    using find_missing_correct [OF assms(1), of a e] by auto
  then have "x \<in> {a ..< e}" "x \<notin> covered rs" by auto
  then show False using assms(2) by blast
qed

lemma covered_focus_no_demand:
  assumes "ranges_ok (in_ranges (se_intake se))" "\<forall>r\<in>set (se_requests se). \<not> demand_candidate r"
    and "se_has_focus se" "fo_feature_mask (se_focus se) AND FEATURE_WAVEFORM_OVERVIEW \<noteq> 0"
    and w: "focus_window (se_focus se) = (a, b)" "a < b" "{a ..< b} \<subseteq> covered (in_ranges (se_intake se))"
  shows "apta_internal_waveform_next_pcm_request se = (STATUS_NOT_AVAILABLE, None, se)"
proof -
  let ?total = "sc_total_frames (se_config se)"
  let ?e = "if ?total \<noteq> APTA_TOTAL_FRAMES_UNKNOWN then apta_min_frame b ?total else b"
  have sel: "select_target (apta_scheduler_stage_requests FEATURE_WAVEFORM_OVERVIEW (se_requests se))
      (0, 0, PRIORITY_BACKGROUND, 0) = (0, 0, PRIORITY_BACKGROUND, 0)"
    using select_staged [of "se_requests se" 0 0 PRIORITY_BACKGROUND] assms(2) by auto
  have "{a ..< ?e} \<subseteq> {a ..< b}" by (auto simp: apta_min_frame_def)
  then have "{a ..< ?e} \<subseteq> covered (in_ranges (se_intake se))" using w(3) by blast
  note missing = find_missing_covered [OF assms(1) this]
  have "\<not> b \<le> a" using w(2) by simp
  with sel assms(3,4) w(1) missing show ?thesis
    by (cases "?total = APTA_TOTAL_FRAMES_UNKNOWN")
      (simp_all add: apta_internal_waveform_next_pcm_request_def apta_internal_waveform_next_pcm_request_base_def Let_def)
qed

section \<open>Properties\<close>

text \<open>
  C5: under the assumption on the engine, every sequence of calls that push blocks, signal the end of
  input, set the source, request cancellation, process, request a region or withdraw such a
  request, set the focus, or ask for the next PCM request runs, on a sound session, without
  a memory fault and ends in a sound session (seeding, metadata and the beat-grid calls are not
  covered): the state moves only along the documented
  transitions, a terminal state is never left, no frame outside a known track is ever accepted,
  draining and completion come only after an end of input, and the process lock is free again.
\<close>
theorem session_lifecycle_sound:
  assumes "kernels_ok eg" "session_ok (eg_sizes eg) se" "\<not> se_process_lock se"
  shows "\<exists>se'. session_run eg se ops = Ret se' \<and> session_ok (eg_sizes eg) se' \<and> \<not> se_process_lock se' \<and>
    apta_session_transition_is_allowed\<^sup>*\<^sup>* (se_state se) (se_state se') \<and>
    (se_state se \<in> {SESSION_COMPLETED, SESSION_CANCELLED, SESSION_FAILED} \<longrightarrow> se_state se' = se_state se) \<and>
    covered (in_ranges (se_intake se)) \<subseteq> covered (in_ranges (se_intake se')) \<and>
    (sc_total_frames (se_config se') \<noteq> APTA_TOTAL_FRAMES_UNKNOWN \<longrightarrow>
       covered (in_ranges (se_intake se')) \<subseteq> {0 ..< sc_total_frames (se_config se')})"
proof -
  obtain se' where r: "session_run eg se ops = Ret se'" "advance (eg_sizes eg) se se'" "\<not> se_process_lock se'"
    using run_advance [OF assms(1,2)] assms(3) by blast
  then show ?thesis
    using terminal_moves [of "se_state se" "se_state se'"]
    by (auto simp: advance_def moves_def [symmetric] session_ok_def life_ok_def known_def)
qed

text \<open>
  C12: the end of input is all or nothing: on success the length is fixed to the signalled frame
  and the session drains; on failure length, final frame and the signalled flag are as before, and at
  most the step from created to active has been taken; accepted frames are untouched either way.
\<close>
theorem end_of_input_exact:
  assumes "kernels_ok eg" "session_ok (eg_sizes eg) se"
  shows "\<exists>s se'. apta_internal_session_signal_end_of_input eg se f = Ret (s, se') \<and>
    in_ranges (se_intake se') = in_ranges (se_intake se) \<and>
    (if failed s
     then se_config se' = se_config se \<and> se_final_end_frame se' = se_final_end_frame se \<and>
       se_end_of_input_signalled se' = se_end_of_input_signalled se \<and>
       (se_state se' = se_state se \<or> se_state se = SESSION_CREATED \<and> se_state se' = SESSION_ACTIVE)
     else se_end_of_input_signalled se' \<and> se_final_end_frame se' = f \<and> sc_total_frames (se_config se') = f \<and>
       covered (in_ranges (se_intake se')) \<subseteq> {0 ..< f} \<and>
       (\<not> se_end_of_input_signalled se \<longrightarrow> se_state se' = SESSION_DRAINING))"
proof -
  obtain s se' where r: "apta_internal_session_signal_end_of_input eg se f = Ret (s, se')" "eoi_spec eg se f (s, se')"
    using signal_advance [OF assms] by (metis prod.exhaust)
  have "session_ok (eg_sizes eg) se'" using r(2) by (simp add: eoi_spec_def advance_def)
  then have "covered (in_ranges (se_intake se')) \<subseteq> {0 ..< f}"
    if "se_end_of_input_signalled se'" "sc_total_frames (se_config se') = f"
    using that by (auto simp: session_ok_def life_ok_def known_def)
  then show ?thesis using r by (auto simp: eoi_spec_def)
qed

text \<open>
  C9: one processing call invokes the pull callback at most once, for a non-empty range of at most
  4096 frames within the budget and the track, none of which has been accepted; the callback's
  block is given back exactly once if the callback succeeded and not at all otherwise.
\<close>
theorem pull_reads_released:
  assumes "kernels_ok eg" "session_ok (eg_sizes eg) se"
  shows "\<exists>s g se'. apta_session_process eg rd se budget progress = Ret (s, g, se') \<and>
    (se_reads se' = se_reads se \<and> se_releases se' = se_releases se \<or>
     se_reads se' = se_reads se + 1 \<and>
     (\<exists>f k. k \<noteq> 0 \<and> unat k \<le> 4096 \<and> (wb_maximum_input_frames budget \<noteq> 0 \<longrightarrow> k \<le> wb_maximum_input_frames budget) \<and>
        {f ..< f + ucast k} \<inter> covered (in_ranges (se_intake se)) = {} \<and>
        (sc_total_frames (se_config se) \<noteq> APTA_TOTAL_FRAMES_UNKNOWN \<longrightarrow>
           unat f + unat k \<le> unat (sc_total_frames (se_config se))) \<and>
        se_releases se' = se_releases se + (if fst (rd (se_reads se) f k) = STATUS_OK then 1 else 0)))"
proof -
  obtain s g se' where r: "apta_session_process eg rd se budget progress = Ret (s, g, se')"
    "process_call_spec eg rd budget se se'" using process_advance [OF assms] by blast
  show ?thesis
    by (intro exI [of _ s] exI [of _ g] exI [of _ se'])
      (use r in \<open>simp add: process_call_spec_def one_read_def known_def\<close>)
qed

text \<open>
  C37: an active pull session of known length, with an empty queue and no open region request,
  whose focus asks for the overview and whose focus window has been accepted, does not read on:
  although the rest of the track is missing, the pull step signals the end of input, and if
  that succeeds (the publication of the new state may fail) the session drains.
\<close>
theorem pull_ends_at_covered_focus:
  assumes "kernels_ok eg" "session_ok (eg_sizes eg) se"
    and "sc_input_mode (se_config se) = INPUT_MODE_PULL" "se_has_pull_source se" "se_state se = SESSION_ACTIVE"
    and "in_queue (se_intake se) = []" "sc_total_frames (se_config se) \<noteq> APTA_TOTAL_FRAMES_UNKNOWN"
    and "\<forall>r\<in>set (se_requests se). \<not> demand_candidate r"
    and "se_has_focus se" "fo_feature_mask (se_focus se) AND FEATURE_WAVEFORM_OVERVIEW \<noteq> 0"
    and "focus_window (se_focus se) = (a, b)" "a < b" "{a ..< b} \<subseteq> covered (in_ranges (se_intake se))"
  shows "\<exists>s se'. apta_internal_pull_pcm_before_process eg rd se budget = Ret (s, 0, se') \<and>
    apta_internal_session_signal_end_of_input eg se (sc_total_frames (se_config se)) = Ret (s, se') \<and>
    se_reads se' = se_reads se \<and> in_ranges (se_intake se') = in_ranges (se_intake se) \<and>
    sc_total_frames (se_config se') = sc_total_frames (se_config se) \<and>
    (\<not> failed s \<longrightarrow> se_end_of_input_signalled se' \<and> (\<not> se_end_of_input_signalled se \<longrightarrow> se_state se' = SESSION_DRAINING))"
proof -
  have "ranges_ok (in_ranges (se_intake se))" using assms(2) by (simp add: session_ok_def intake_ok_def)
  from covered_focus_no_demand [OF this assms(8-13)]
  have n: "apta_internal_waveform_next_pcm_request se = (STATUS_NOT_AVAILABLE, None, se)" .
  obtain s se' where r: "apta_internal_session_signal_end_of_input eg se (sc_total_frames (se_config se)) = Ret (s, se')"
    "eoi_spec eg se (sc_total_frames (se_config se)) (s, se')"
    using signal_advance [OF assms(1,2)] by (metis prod.exhaust)
  have st: "SESSION_ACTIVE \<noteq> SESSION_DRAINING" "SESSION_ACTIVE \<noteq> SESSION_COMPLETED" "SESSION_ACTIVE \<noteq> SESSION_CANCELLED"
    "SESSION_ACTIVE \<noteq> SESSION_FAILED" by (simp_all add: apta_consts)
  have "apta_internal_pull_pcm_before_process eg rd se budget = Ret (s, 0, se')"
    using assms(3-7) n r(1) st by (simp add: apta_internal_pull_pcm_before_process_def no_frames_def)
  moreover have "sc_total_frames (se_config se') = sc_total_frames (se_config se)"
    using r(2) by (cases "failed s") (simp_all add: eoi_spec_def)
  ultimately show ?thesis using r by (auto simp: eoi_spec_def)
qed

section \<open>A concrete engine\<close>

definition demo_engine :: engine where
  "demo_engine = \<lparr>eg_host = demo_host, eg_sizes = demo_sizes, eg_clock = None, eg_fill = (\<lambda>se r. (STATUS_OK, r)),
     eg_publish_base = (\<lambda>se changed. (STATUS_OK, se\<lparr>se_generation := se_generation se + 1\<rparr>)),
     eg_copy = (\<lambda>se block n. se_signal se), eg_absorb = (\<lambda>se frame. se_signal se),
     eg_detail_absorb = (\<lambda>se block frame. se_signal se),
     eg_s4_sample = (\<lambda>se frame. (STATUS_OK, se)), eg_s6_sample = (\<lambda>se frame. (STATUS_OK, se)),
     eg_s4_refresh = (\<lambda>se steps. (STATUS_OK, 0, se)), eg_s6_refresh = (\<lambda>se steps. (STATUS_OK, 0, se))\<rparr>"

lemma demo_engine_ok: "kernels_ok demo_engine"
proof -
  have "results_ok sizes (se\<lparr>se_generation := g\<rparr>)" if "results_ok sizes se" for sizes se g
    by (rule results_ok_moved [OF that]) simp_all
  moreover have "uses_workspace (se\<lparr>se_generation := g\<rparr>) = uses_workspace se" for se g by (rule workspace_cong) simp
  ultimately show ?thesis by (simp add: kernels_ok_def demo_engine_def still_def same_life_def se_memory_def)
qed

lemma demo_parts_ok: "overview_shape demo_session" "history_ok demo_session" "\<not> uses_workspace demo_session"
  by (simp_all add: overview_shape_def history_ok_def uses_workspace_def se_memory_def demo_session_def demo_intake_def
      empty_intake_def empty_overview_def capacity_ok_def Let_def)

lemma demo_session_ok: "session_ok demo_sizes demo_session"
proof -
  have "results_ok demo_sizes demo_session" by (simp add: results_ok_def demo_session_def demo_config_def apta_session_config_init_def apta_consts)
  moreover have "life_ok demo_session"
    by (simp add: life_ok_def known_def demo_session_def demo_config_def demo_intake_def apta_session_config_init_def apta_consts)
      (simp add: empty_intake_def)
  moreover have "intake_ok (se_intake demo_session)" by (simp add: demo_session_def demo_intake_def empty_intake_ok)
  ultimately show ?thesis by (simp add: session_ok_def demo_parts_ok)
qed

definition demo_block :: pcm_block where
  "demo_block = \<lparr>pb_struct_size = 96, pb_api_version = APTA_API_VERSION, pb_has_data = True,
     pb_planes = replicate 8 False, pb_first_frame = 0, pb_frame_count = 1000, pb_samples = []\<rparr>"

definition demo_budget :: work_budget where
  "demo_budget = \<lparr>wb_struct_size = 32, wb_api_version = APTA_API_VERSION, wb_maximum_input_frames = 0,
     wb_maximum_steps = 0, wb_soft_time_budget_us = 0\<rparr>"

definition demo_reader :: reader where
  "demo_reader n f k = (STATUS_OK, demo_block\<lparr>pb_first_frame := f, pb_frame_count := k\<rparr>)"

theorem session_lifecycle_sound_witness:
  "\<exists>se'. session_run demo_engine demo_session
       [Push demo_block, Process demo_reader demo_budget None, End_of_input 44100] = Ret se' \<and>
     covered (in_ranges (se_intake se')) \<subseteq> {0 ..< sc_total_frames (se_config se')} \<or>
     sc_total_frames (se_config se') = APTA_TOTAL_FRAMES_UNKNOWN"
proof -
  have "\<not> se_process_lock demo_session" "eg_sizes demo_engine = demo_sizes"
    by (simp_all add: demo_session_def demo_engine_def)
  then show ?thesis
    using session_lifecycle_sound [OF demo_engine_ok, of demo_session
        "[Push demo_block, Process demo_reader demo_budget None, End_of_input 44100]"] demo_session_ok by auto
qed

theorem end_of_input_exact_witness:
  "\<exists>s se'. apta_internal_session_signal_end_of_input demo_engine demo_session 44100 = Ret (s, se') \<and>
     in_ranges (se_intake se') = in_ranges (se_intake demo_session)"
  using end_of_input_exact [OF demo_engine_ok, of demo_session 44100] demo_session_ok
  by (auto simp: demo_engine_def)

definition demo_pull_session :: apta_session where
  "demo_pull_session = demo_session\<lparr>se_config := demo_config\<lparr>sc_input_mode := INPUT_MODE_PULL\<rparr>,
     se_has_pull_source := True, se_state := SESSION_ACTIVE, se_requests := replicate 16 zero_request,
     se_has_focus := True, se_focus := demo_focus\<lparr>fo_lookahead_frames := 1000, fo_feature_mask := 1\<rparr>\<rparr>"

lemma demo_pull_session_ok: "session_ok demo_sizes demo_pull_session"
proof -
  have w: "\<not> uses_workspace demo_pull_session"
    using demo_parts_ok(3) by (simp add: uses_workspace_def se_memory_def demo_pull_session_def)
  have "overview_shape demo_pull_session"
    using demo_parts_ok(1) by (simp add: overview_shape_def Let_def w demo_parts_ok(3)) (simp add: demo_pull_session_def)
  moreover have "results_ok demo_sizes demo_pull_session"
    by (simp add: results_ok_def demo_pull_session_def demo_config_def apta_session_config_init_def apta_consts)
  moreover have "life_ok demo_pull_session"
    by (simp add: life_ok_def known_def demo_pull_session_def demo_session_def demo_config_def demo_intake_def
        apta_session_config_init_def apta_consts) (simp add: empty_intake_def)
  moreover have "intake_ok (se_intake demo_pull_session)"
    by (simp add: demo_pull_session_def demo_session_def demo_intake_def empty_intake_ok)
  ultimately show ?thesis by (simp add: session_ok_def history_ok_def w)
qed

theorem pull_reads_released_witness:
  "\<exists>s g se'. apta_session_process demo_engine demo_reader demo_pull_session demo_budget None = Ret (s, g, se') \<and>
     (se_reads se' = 0 \<and> se_releases se' = 0 \<or> se_reads se' = 1 \<and> se_releases se' = 1)"
  using pull_reads_released [OF demo_engine_ok, of demo_pull_session demo_reader demo_budget None] demo_pull_session_ok
  by (auto simp: demo_engine_def demo_reader_def demo_pull_session_def demo_session_def)

definition demo_covered_session :: apta_session where
  "demo_covered_session = demo_pull_session\<lparr>se_intake := demo_intake\<lparr>in_ranges := [\<lparr>rg_first = 0, rg_end = 1000\<rparr>],
     in_range_capacity := 8, in_greatest_accepted_end := 1000, in_maximum_accepted_end := 1000\<rparr>\<rparr>"

lemma demo_covered_session_ok: "session_ok demo_sizes demo_covered_session"
proof -
  have w: "\<not> uses_workspace demo_covered_session"
    by (simp add: uses_workspace_def se_memory_def demo_covered_session_def demo_intake_def empty_intake_def)
  have "intake_ok (se_intake demo_covered_session)"
    by (simp add: demo_covered_session_def intake_ok_def demo_intake_def empty_intake_def ranges_ok_def capacity_ok_def
        apta_refresh_accepted_ends_def)
  moreover have "overview_shape demo_covered_session"
    using demo_parts_ok(1) by (simp add: overview_shape_def Let_def w demo_parts_ok(3))
      (simp add: demo_covered_session_def demo_pull_session_def)
  moreover have "results_ok demo_sizes demo_covered_session"
    by (simp add: results_ok_def demo_covered_session_def demo_pull_session_def demo_config_def apta_session_config_init_def apta_consts)
  moreover have "{0 ..< 1000} \<subseteq> {0 ..< (44100 :: u64)}" by auto
  then have "life_ok demo_covered_session"
    by (simp add: life_ok_def demo_covered_session_def demo_pull_session_def known_def demo_session_def
        demo_config_def apta_session_config_init_def apta_consts range_set_def)
  ultimately show ?thesis by (simp add: session_ok_def history_ok_def w)
qed

theorem pull_ends_at_covered_focus_witness:
  "\<exists>se'. apta_internal_pull_pcm_before_process demo_engine demo_reader demo_covered_session demo_budget = Ret (STATUS_OK, 0, se') \<and>
     se_state se' = SESSION_DRAINING \<and> 1000 \<notin> covered (in_ranges (se_intake se')) \<and> 1000 < sc_total_frames (se_config se')"
proof -
  have c: "se_config demo_covered_session = demo_config\<lparr>sc_input_mode := INPUT_MODE_PULL\<rparr>"
    "se_intake demo_covered_session = demo_intake\<lparr>in_ranges := [\<lparr>rg_first = 0, rg_end = 1000\<rparr>],
     in_range_capacity := 8, in_greatest_accepted_end := 1000, in_maximum_accepted_end := 1000\<rparr>"
    "se_requests demo_covered_session = replicate 16 zero_request" "se_state demo_covered_session = SESSION_ACTIVE"
    "se_has_pull_source demo_covered_session" "se_has_focus demo_covered_session"
    "se_focus demo_covered_session = demo_focus\<lparr>fo_lookahead_frames := 1000, fo_feature_mask := 1\<rparr>"
    "\<not> se_end_of_input_signalled demo_covered_session" "eg_sizes demo_engine = demo_sizes"
    by (simp_all add: demo_covered_session_def demo_pull_session_def demo_session_def demo_engine_def)
  have t: "sc_total_frames demo_config = 44100" "sc_flags demo_config = 0"
    by (simp_all add: demo_config_def apta_session_config_init_def apta_consts)
  have w: "focus_window (se_focus demo_covered_session) = (0, 1000)"
    by (simp add: c focus_window_def demo_focus_def UINT64_MAX_def)
  have ok: "session_ok (eg_sizes demo_engine) demo_covered_session" using demo_covered_session_ok c by simp
  have g: "se_generation demo_covered_session = 0"
    by (simp add: demo_covered_session_def demo_pull_session_def demo_session_def)
  have e: "\<exists>se'. apta_internal_session_signal_end_of_input demo_engine demo_covered_session 44100 = Ret (STATUS_OK, se')"
    by (simp add: apta_internal_session_signal_end_of_input_def c t Let_def apta_internal_session_transition_def
        apta_session_transition_is_allowed_def apta_internal_publish_result_def apta_internal_publish_result_base_def
        g UINT64_MAX_def demo_engine_def apta_consts)
  show ?thesis
    using pull_ends_at_covered_focus [OF demo_engine_ok ok _ _ _ _ _ _ _ _ w, of demo_reader demo_budget] e
    by (auto simp: c t demand_candidate_def zero_request_def apta_consts range_set_def demo_intake_def empty_intake_def)
qed

end
