(* ===== verification/Apta_Session_Create.thy ===== *)
theory Apta_Session_Create
  imports Apta_Session_Run
begin

text \<open>
  The creation of a session, through its six layers: the feature checks of
  \<^verbatim>\<open>src/beatgrid/apta_s6_session_guard.c\<close>, the pull mode of \<^verbatim>\<open>src/core/apta_session_pull_activation.c\<close>,
  the bounded results of \<^verbatim>\<open>apta_session_result_pool_activation.c\<close>, the workspace of
  \<^verbatim>\<open>apta_session_workspace_lifecycle.c\<close>, the coherence of the features in
  \<^verbatim>\<open>apta_session_detail_contract.c\<close>, and the heap session of \<^verbatim>\<open>apta_session_lifecycle.c\<close>; with the
  release of a session's memory.  A created session satisfies the invariant of the runs.
\<close>

section \<open>Validation\<close>

definition apta_session_sample_format_is_valid :: "u32 \<Rightarrow> bool" where
  "apta_session_sample_format_is_valid format \<longleftrightarrow>
     format = 1 \<or> format = 2 \<or> format = 3 \<or> format = 4 \<or> format = SAMPLE_F32_NATIVE_PLANAR"

definition known_flags :: "session_config \<Rightarrow> bool" where
  "known_flags config \<longleftrightarrow>
     sc_flags config AND NOT (SESSION_FLAG_BOUNDED_RESULT_SLOTS OR SESSION_FLAG_REQUIRE_SOURCE_IDENTITY_FOR_SEEDING) = 0 \<and>
     apta_internal_source_identity_is_valid config"

definition apta_session_config_is_valid :: "apta_context \<Rightarrow> session_config \<Rightarrow> bool" where
  "apta_session_config_is_valid ctx config \<longleftrightarrow>
     (if sc_input_mode config \<noteq> INPUT_MODE_PUSH \<and> sc_input_mode config \<noteq> INPUT_MODE_PULL then False
      else if \<not> known_flags config then False
      else if sc_source_sample_rate config = 0 \<or> sc_channel_count config = 0 \<or> 8 < sc_channel_count config \<or>
              \<not> apta_session_sample_format_is_valid (sc_sample_format config) then False
      else if sc_channel_layout config = 1 \<and> sc_channel_count config \<noteq> 1 then False
      else if sc_channel_layout config = 2 \<and> sc_channel_count config \<noteq> 2 then False
      else if sc_requested_features config AND NOT (capabilities ctx) \<noteq> 0 then False
      else if \<not> apta_internal_overview_resolution_is_valid config then False
      else \<not> (has_feature config FEATURE_WAVEFORM_OVERVIEW \<and> 2 < sc_channel_count config))"

definition apta_session_mask_is_coherent :: "u64 \<Rightarrow> bool" where
  "apta_session_mask_is_coherent m \<longleftrightarrow>
     (let waveform_dependency = FEATURE_WAVEFORM_DETAIL OR FEATURE_WAVEFORM_3BAND OR FEATURE_CONFIDENCE OR
            S4_FEATURES OR S6_FEATURES
      in if m AND waveform_dependency \<noteq> 0 \<and> m AND FEATURE_WAVEFORM_OVERVIEW = 0 then False
         else if m AND FEATURE_LOCAL_BEATGRID \<noteq> 0 \<and> m AND FEATURE_BPM = 0 then False
         else if m AND FEATURE_GLOBAL_BEATGRID \<noteq> 0 \<and> m AND FEATURE_BPM = 0 then False
         else if m AND FEATURE_DYNAMIC_TEMPO \<noteq> 0 \<and> m AND FEATURE_GLOBAL_BEATGRID = 0 then False
         else if m AND FEATURE_CONFIDENCE \<noteq> 0 \<and>
                 m AND (FEATURE_WAVEFORM_OVERVIEW OR FEATURE_BPM OR FEATURE_LOCAL_BEATGRID OR FEATURE_GLOBAL_BEATGRID) = 0
         then False
         else \<not> (m AND FEATURE_GRID_LOCKING \<noteq> 0 \<and> m AND FEATURE_LOCAL_BEATGRID = 0))"

definition apta_s6_feature_mask_is_coherent :: "u64 \<Rightarrow> bool" where
  "apta_s6_feature_mask_is_coherent m \<longleftrightarrow>
     (if m AND S6_FEATURES \<noteq> 0 \<and> m AND FEATURE_WAVEFORM_OVERVIEW = 0 then False
      else if m AND FEATURE_GLOBAL_BEATGRID \<noteq> 0 \<and> m AND FEATURE_BPM = 0 then False
      else \<not> (m AND FEATURE_DYNAMIC_TEMPO \<noteq> 0 \<and> m AND FEATURE_GLOBAL_BEATGRID = 0))"

definition apta_workspace_feature_mask_is_coherent :: "u64 \<Rightarrow> bool" where
  "apta_workspace_feature_mask_is_coherent m \<longleftrightarrow>
     m AND FEATURE_WAVEFORM_DETAIL = 0 \<or> m AND FEATURE_WAVEFORM_OVERVIEW \<noteq> 0"

definition apta_workspace_config_is_valid :: "apta_context \<Rightarrow> session_config \<Rightarrow> bool" where
  "apta_workspace_config_is_valid ctx config \<longleftrightarrow>
     (if sc_input_mode config \<noteq> INPUT_MODE_PUSH \<and> sc_input_mode config \<noteq> INPUT_MODE_PULL then False
      else if \<not> known_flags config then False
      else if sc_source_sample_rate config = 0 \<or> sc_channel_count config = 0 \<or> 8 < sc_channel_count config \<or>
              \<not> apta_session_sample_format_is_valid (sc_sample_format config) then False
      else if \<not> apta_internal_overview_resolution_is_valid config then False
      else if sc_channel_layout config = 1 \<and> sc_channel_count config \<noteq> 1 then False
      else if sc_channel_layout config = 2 \<and> sc_channel_count config \<noteq> 2 then False
      else if \<not> apta_workspace_feature_mask_is_coherent (sc_requested_features config) then False
      else if sc_requested_features config AND NOT (capabilities ctx) \<noteq> 0 then False
      else \<not> (has_feature config FEATURE_WAVEFORM_OVERVIEW \<and> 2 < sc_channel_count config))"

definition valid_config_struct :: "struct_sizes \<Rightarrow> session_config \<Rightarrow> bool" where
  "valid_config_struct sizes config \<longleftrightarrow>
     apta_internal_validate_struct True (sizeof_session_config sizes) (sc_struct_size config) (sc_api_version config)"

definition apta_workspace_validate_config :: "struct_sizes \<Rightarrow> apta_context \<Rightarrow> session_config \<Rightarrow> apta_status" where
  "apta_workspace_validate_config sizes ctx config =
     (if \<not> valid_config_struct sizes config then ERROR_INCOMPATIBLE_VERSION
      else if sc_requested_features config AND NOT (capabilities ctx) \<noteq> 0 then ERROR_UNSUPPORTED
      else if sc_input_mode config = INPUT_MODE_PULL \<and> has_feature config FEATURE_WAVEFORM_OVERVIEW then ERROR_UNSUPPORTED
      else if \<not> apta_workspace_config_is_valid ctx config then ERROR_INVALID_ARGUMENT
      else if sc_static_workspace config AND (MAX_ALIGNMENT - 1) \<noteq> 0 then ERROR_INVALID_ARGUMENT
      else if sc_static_workspace_size config < apta_internal_session_workspace_minimum_size (sizeof_session sizes)
      then ERROR_OUT_OF_MEMORY
      else
        let required = apta_internal_session_workspace_requirement sizes config
        in if required = SIZE_MAX then ERROR_LIMIT_EXCEEDED
           else if sc_static_workspace_size config < required then ERROR_OUT_OF_MEMORY
           else STATUS_OK)"

section \<open>The new session\<close>

text \<open>The structure as \<open>memset\<close> and the assignments behind it leave it; the filter coefficients belong to
  the sample data, which are not interpreted.\<close>

definition zero_focus :: focus where
  "zero_focus = \<lparr>fo_struct_size = 0, fo_api_version = 0, fo_playhead_frame = 0, fo_lookbehind_frames = 0,
     fo_lookahead_frames = 0, fo_feature_mask = 0, fo_priority = 0\<rparr>"

definition fresh_session :: "session_config \<Rightarrow> u64 \<Rightarrow> session_memory \<Rightarrow> apta_session" where
  "fresh_session config lineage sm =
     \<lparr>se_config = config, se_state = SESSION_CREATED, se_cancel_requested = False, se_process_lock = False,
      se_process_deadline_ns = 0, se_generation = 0, se_has_focus = False, se_focus = zero_focus,
      se_end_of_input_signalled = False, se_final_end_frame = APTA_TOTAL_FRAMES_UNKNOWN, se_next_request_id = 1,
      se_next_enqueue_serial = 0, se_requests = replicate (unat MAX_REGION_REQUESTS) zero_request,
      se_intake = \<lparr>in_memory = sm, in_ranges = [], in_ranges_memory = None, in_range_capacity = 0,
        in_greatest_accepted_end = 0, in_maximum_accepted_end = 0, in_queue = [], in_queued_frames = 0\<rparr>,
      se_has_pull_source = False, se_reads = 0, se_releases = 0, se_result_pool = None, se_current_result = None,
      se_lineage_id_high = 0, se_lineage_id_low = lineage,
      se_overview_frames_per_column = resolved_frames_per_column config, se_overview = empty_overview,
      se_detail = empty_detail, se_s4 = empty_s4, se_s6 = None, se_clock_reads = 0, se_signal = []\<rparr>"

definition next_lineage :: "apta_context \<Rightarrow> u64 \<times> apta_context" where
  "next_lineage ctx = (lineage_counter ctx + 1, ctx\<lparr>lineage_counter := lineage_counter ctx + 1\<rparr>)"

definition commit :: "apta_session \<Rightarrow> apta_session" where
  "commit se = with_memory se ((se_memory se)\<lparr>sm_context := (se_context se)\<lparr>session_count := session_count (se_context se) + 1\<rparr>\<rparr>)"

text \<open>A creation gives the status, the session with its address, and the context.\<close>

type_synonym creation = "(apta_status \<times> (u64 \<times> apta_session) option \<times> apta_context) outcome"

definition no_session :: "apta_status \<Rightarrow> apta_context \<Rightarrow> creation" where
  "no_session status ctx = Ret (status, None, ctx)"

definition created :: "u64 \<Rightarrow> apta_session \<Rightarrow> creation" where
  "created address se = Ret (STATUS_OK, Some (address, se), se_context se)"

section \<open>Releasing the session's memory\<close>

definition apta_internal_s4_cleanup_session :: "apta_session \<Rightarrow> apta_session" where
  "apta_internal_s4_cleanup_session se =
     (let s4 = se_s4 se;
          sm = apta_internal_session_deallocate (apta_internal_session_deallocate (se_memory se) (s4_onset_bins s4))
                 (s4_onset_flux s4)
      in with_memory (se\<lparr>se_s4 := s4\<lparr>s4_onset_bins := None, s4_onset_bin_capacity := 0, s4_onset_flux := None,
           s4_onset_flux_capacity := 0\<rparr>\<rparr>) sm)"

definition apta_internal_s6_cleanup_session :: "apta_session \<Rightarrow> apta_session" where
  "apta_internal_s6_cleanup_session se =
     (case se_s6 se of
        None \<Rightarrow> se
      | Some s6 \<Rightarrow>
          with_memory (se\<lparr>se_s6 := None\<rparr>)
            (foldl (\<lambda>sm a. apta_internal_session_deallocate sm (Some a)) (se_memory se)
               [s6_beats s6, s6_global_flux s6, s6_global_bins s6, s6_address s6]))"

definition apta_internal_waveform_cleanup_session_base :: "apta_session \<Rightarrow> apta_session" where
  "apta_internal_waveform_cleanup_session_base se =
     (let st = se_intake se; ov = se_overview se;
          sm1 = foldl (\<lambda>sm node. apta_internal_session_deallocate sm (Some (pn_address node))) (se_memory se) (in_queue st);
          sm2 = apta_internal_session_deallocate sm1 (in_ranges_memory st);
          sm3 = free_block sm2 (ov_memory ov);
          sm4 = apta_internal_session_deallocate sm3 (ov_band_memory ov)
      in with_memory (se\<lparr>se_intake := st\<lparr>in_queue := [], in_ranges_memory := None\<rparr>,
           se_overview := ov\<lparr>ov_memory := None, ov_band_memory := None\<rparr>\<rparr>) sm4)"

definition apta_internal_waveform_cleanup_session_s6_base :: "apta_session \<Rightarrow> apta_session" where
  "apta_internal_waveform_cleanup_session_s6_base se =
     apta_internal_waveform_cleanup_session_base (apta_internal_s4_cleanup_session se)"

definition apta_internal_waveform_cleanup_session :: "apta_session \<Rightarrow> apta_session" where
  "apta_internal_waveform_cleanup_session se =
     apta_internal_waveform_cleanup_session_s6_base (apta_internal_s6_cleanup_session se)"

section \<open>Creation on the heap\<close>

definition apta_session_create_base :: "engine \<Rightarrow> apta_context \<Rightarrow> session_config \<Rightarrow> creation" where
  "apta_session_create_base eg ctx config =
     (if \<not> valid_config_struct (eg_sizes eg) config then no_session ERROR_INCOMPATIBLE_VERSION ctx
      else if sc_requested_features config AND NOT (capabilities ctx) \<noteq> 0 then no_session ERROR_UNSUPPORTED ctx
      else if sc_input_mode config = INPUT_MODE_PULL \<and> has_feature config FEATURE_WAVEFORM_OVERVIEW
      then no_session ERROR_UNSUPPORTED ctx
      else if sc_static_workspace config \<noteq> 0 \<or> sc_static_workspace_size config \<noteq> 0 then no_session ERROR_UNSUPPORTED ctx
      else if \<not> apta_session_config_is_valid ctx config then no_session ERROR_INVALID_ARGUMENT ctx
      else
        (case apta_internal_context_allocate (eg_host eg) ctx (sizeof_session (eg_sizes eg)) 8 of
           (None, ctx1) \<Rightarrow> no_session ERROR_OUT_OF_MEMORY ctx1
         | (Some p, ctx1) \<Rightarrow>
             (case next_lineage ctx1 of
                (lineage, ctx2) \<Rightarrow>
                  obind (apta_internal_publish_result eg
                           (fresh_session config lineage \<lparr>sm_context = ctx2, sm_workspace = None\<rparr>) 0) (\<lambda>(status, se).
                  if failed status then no_session status (apta_internal_context_deallocate (se_context se) (Some p))
                  else created p (commit se)))))"

definition apta_session_create_contract_base :: "engine \<Rightarrow> apta_context \<Rightarrow> session_config \<Rightarrow> creation" where
  "apta_session_create_contract_base eg ctx config =
     (if \<not> valid_config_struct (eg_sizes eg) config then no_session ERROR_INCOMPATIBLE_VERSION ctx
      else if \<not> apta_session_mask_is_coherent (sc_requested_features config) then no_session ERROR_INVALID_ARGUMENT ctx
      else apta_session_create_base eg ctx config)"

section \<open>Creation in a workspace\<close>

definition apta_internal_workspace_session_prepare ::
    "struct_sizes \<Rightarrow> apta_context \<Rightarrow> session_config \<Rightarrow> (apta_status \<times> apta_session option \<times> apta_context) outcome" where
  "apta_internal_workspace_session_prepare sizes ctx config =
     (let status = apta_workspace_validate_config sizes ctx config
      in if sc_static_workspace config = 0 \<or> sc_static_workspace_size config = 0
         then Ret (ERROR_INVALID_ARGUMENT, None, ctx)
         else if failed status then Ret (status, None, ctx)
         else
           (case next_lineage ctx of
              (lineage, ctx1) \<Rightarrow>
                (case apta_internal_session_workspace_initialize (sizeof_session sizes) (sc_static_workspace config)
                        (sc_static_workspace_size config) of
                   Fault \<Rightarrow> Fault
                 | Fail e \<Rightarrow> Ret (e, None, ctx1)
                 | Ret blocks \<Rightarrow>
                     Ret (STATUS_OK,
                       Some (fresh_session config lineage \<lparr>sm_context = ctx1, sm_workspace = Some blocks\<rparr>), ctx1))))"

text \<open>Giving a prepared session up; its structure in the workspace is cleared.\<close>

definition apta_internal_workspace_session_abandon :: "apta_session \<Rightarrow> apta_context" where
  "apta_internal_workspace_session_abandon se = se_context (apta_internal_waveform_cleanup_session se)"

definition apta_session_create_workspace_base :: "engine \<Rightarrow> apta_context \<Rightarrow> session_config \<Rightarrow> creation" where
  "apta_session_create_workspace_base eg ctx config =
     (if sc_static_workspace config = 0 \<and> sc_static_workspace_size config = 0
      then apta_session_create_contract_base eg ctx config
      else if sc_static_workspace config = 0 \<or> sc_static_workspace_size config = 0 then no_session ERROR_INVALID_ARGUMENT ctx
      else
        obind (apta_internal_workspace_session_prepare (eg_sizes eg) ctx config) (\<lambda>(status, prepared, ctx1).
        case prepared of
          None \<Rightarrow> no_session status ctx1
        | Some se \<Rightarrow>
            obind (apta_internal_publish_result eg se 0) (\<lambda>(status, se1).
            if failed status then no_session status (apta_internal_workspace_session_abandon se1)
            else created (sc_static_workspace config) (commit se1))))"

definition apta_session_create_activation_base ::
    "engine \<Rightarrow> struct_alignments \<Rightarrow> apta_context \<Rightarrow> session_config \<Rightarrow> creation" where
  "apta_session_create_activation_base eg al ctx config =
     (if \<not> valid_config_struct (eg_sizes eg) config then no_session ERROR_INCOMPATIBLE_VERSION ctx
      else if \<not> known_flags config then no_session ERROR_INVALID_ARGUMENT ctx
      else if sc_flags config AND SESSION_FLAG_BOUNDED_RESULT_SLOTS = 0 then apta_session_create_workspace_base eg ctx config
      else if sc_static_workspace config = 0 \<or> sc_static_workspace_size config = 0 then no_session ERROR_INVALID_ARGUMENT ctx
      else
        obind (apta_internal_workspace_session_prepare (eg_sizes eg) ctx config) (\<lambda>(status, prepared, ctx1).
        case prepared of
          None \<Rightarrow> no_session status ctx1
        | Some se \<Rightarrow>
            obind (create_results (eg_host eg) (eg_sizes eg) al ctx1 config (se_lineage_id_high se) (se_lineage_id_low se))
              (\<lambda>(status, st).
            if failed status
            then no_session status (apta_internal_workspace_session_abandon (with_results se (st\<lparr>rs_current := None\<rparr>)))
            else created (sc_static_workspace config) (with_results se st))))"

section \<open>The outer layers\<close>

definition apta_session_create_s6_guard_base ::
    "engine \<Rightarrow> struct_alignments \<Rightarrow> apta_context \<Rightarrow> session_config \<Rightarrow> creation" where
  "apta_session_create_s6_guard_base eg al ctx config =
     (if \<not> valid_config_struct (eg_sizes eg) config then no_session ERROR_INCOMPATIBLE_VERSION ctx
      else if sc_input_mode config \<noteq> INPUT_MODE_PULL then apta_session_create_activation_base eg al ctx config
      else
        obind (apta_session_create_activation_base eg al ctx (config\<lparr>sc_input_mode := INPUT_MODE_PUSH\<rparr>))
          (\<lambda>(status, out, ctx1).
        case out of
          None \<Rightarrow> no_session status ctx1
        | Some (p, se) \<Rightarrow> created p (se\<lparr>se_config := (se_config se)\<lparr>sc_input_mode := INPUT_MODE_PULL\<rparr>\<rparr>)))"

definition apta_session_create ::
    "engine \<Rightarrow> struct_alignments \<Rightarrow> apta_context \<Rightarrow> session_config \<Rightarrow> creation" where
  "apta_session_create eg al ctx config =
     (if \<not> valid_config_struct (eg_sizes eg) config then no_session ERROR_INCOMPATIBLE_VERSION ctx
      else if \<not> apta_s6_feature_mask_is_coherent (sc_requested_features config) then no_session ERROR_INVALID_ARGUMENT ctx
      else apta_session_create_s6_guard_base eg al ctx config)"

section \<open>A created session is in order\<close>

definition bounded :: "session_config \<Rightarrow> bool" where
  "bounded config \<longleftrightarrow> sc_flags config AND SESSION_FLAG_BOUNDED_RESULT_SLOTS \<noteq> 0"

text \<open>A session nothing has happened to.\<close>

definition blank :: "session_config \<Rightarrow> apta_session \<Rightarrow> bool" where
  "blank config se \<longleftrightarrow> se_config se = config \<and> se_state se = SESSION_CREATED \<and> \<not> se_cancel_requested se \<and>
     \<not> se_process_lock se \<and> \<not> se_has_focus se \<and> \<not> se_end_of_input_signalled se \<and>
     se_requests se = replicate 16 zero_request \<and> (\<exists>sm. se_intake se = empty_intake sm) \<and>
     se_overview se = empty_overview \<and> se_overview_frames_per_column se = resolved_frames_per_column config \<and>
     se_detail se = empty_detail \<and> uses_workspace se = (sc_static_workspace config \<noteq> 0)"

definition new_session :: "struct_sizes \<Rightarrow> session_config \<Rightarrow> apta_session \<Rightarrow> bool" where
  "new_session sizes config se \<longleftrightarrow> blank config se \<and> session_ok sizes se"

definition creation_ok :: "struct_sizes \<Rightarrow> session_config \<Rightarrow> creation \<Rightarrow> bool" where
  "creation_ok sizes config r \<longleftrightarrow>
     (\<exists>s out ctx. r = Ret (s, out, ctx) \<and>
        (case out of
           None \<Rightarrow> failed s
         | Some (p, se) \<Rightarrow> s = STATUS_OK \<and> ctx = se_context se \<and> new_session sizes config se))"

lemma blank_ok:
  assumes b: "blank config se" and r: "results_ok sizes se" shows "session_ok sizes se"
proof -
  note b' = b [unfolded blank_def]
  have i: "in_ranges (se_intake se) = []" "in_queue (se_intake se) = []" "intake_ok (se_intake se)"
    using b' empty_intake_ok by (auto simp: empty_intake_def)
  have "resolved_frames_per_column config \<noteq> 0" by (simp add: resolved_frames_per_column_def OVERVIEW_FRAMES_PER_COLUMN_def)
  then have o: "overview_shape se"
    using b' by (simp add: overview_shape_def empty_overview_def capacity_ok_def Let_def)
  have "processed_frames se = {}" by (simp add: processed_frames_def accepted_frames_def i)
  then have "overview_exact se"
    using b' by (simp add: overview_exact_def tallies_def frames_of_def overview_table_def accumulators_def completed_def
        empty_overview_def column_table_def)
  moreover have "requests_true se" using b' by (simp add: requests_true_def request_true_def zero_request_def REQUEST_SATISFIED_def)
  ultimately have "history_ok se" by (simp add: history_ok_def)
  moreover have "life_ok se" using b' i(1) by (simp add: life_ok_def apta_consts)
  ultimately show ?thesis using o i(3) r by (simp add: session_ok_def)
qed

lemma blank_still: "blank config se \<Longrightarrow> published_still sizes se se' \<Longrightarrow> se_cancel_requested se' = se_cancel_requested se \<Longrightarrow> blank config se'"
proof -
  assume b: "blank config se" and s: "published_still sizes se se'" "se_cancel_requested se' = se_cancel_requested se"
  obtain sm where "se_intake se = empty_intake sm" using b by (auto simp: blank_def)
  then have "\<exists>sm. se_intake se' = empty_intake sm" using s(1) by (auto simp: published_still_def empty_intake_def)
  moreover have "unmarked empty_overview = empty_overview" by (simp add: unmarked_def empty_overview_def)
  then have "se_overview se' = empty_overview" using b s(1) by (auto simp: blank_def published_still_def)
  ultimately show "blank config se'" using b s unfolding blank_def published_still_def same_life_def by metis
qed

lemma unbounded_results: "\<not> bounded (se_config se) \<Longrightarrow> results_ok sizes se"
  by (simp add: bounded_def results_ok_def)

lemma fresh_blank:
  "(sm_workspace sm \<noteq> None) = (sc_static_workspace config \<noteq> 0) \<Longrightarrow> blank config (fresh_session config lineage sm)"
  by (auto simp: blank_def fresh_session_def empty_intake_def se_memory_def uses_workspace_def MAX_REGION_REQUESTS_def)

lemma fresh_context: "se_context (fresh_session config lineage sm) = sm_context sm"
  by (simp add: fresh_session_def se_context_def)

lemma commit_blank: "blank config se \<Longrightarrow> blank config (commit se)"
  by (auto simp: blank_def commit_def with_memory_def empty_intake_def se_memory_def uses_workspace_def)

lemma with_results_blank: "blank config se \<Longrightarrow> blank config (with_results se st)"
  by (auto simp: blank_def with_results_def empty_intake_def se_memory_def uses_workspace_def)

lemma no_session_ok: "failed s \<Longrightarrow> creation_ok sizes config (no_session s ctx)"
  by (simp add: creation_ok_def no_session_def)

lemma created_ok: "blank config se \<Longrightarrow> results_ok sizes se \<Longrightarrow> creation_ok sizes config (created p se)"
  using blank_ok by (simp add: creation_ok_def created_def new_session_def)

lemmas refused = no_session_ok [of ERROR_INCOMPATIBLE_VERSION] no_session_ok [of ERROR_UNSUPPORTED]
  no_session_ok [of ERROR_INVALID_ARGUMENT] no_session_ok [of ERROR_OUT_OF_MEMORY] no_session_ok [of ERROR_LIMIT_EXCEEDED]

lemma error_failed [simp]:
  "failed ERROR_INCOMPATIBLE_VERSION" "failed ERROR_UNSUPPORTED" "failed ERROR_INVALID_ARGUMENT"
  "failed ERROR_OUT_OF_MEMORY" "failed ERROR_LIMIT_EXCEEDED" "\<not> failed STATUS_OK"
  by (simp_all add: apta_consts)

text \<open>The first publication, and what is made of its status.\<close>

lemma publish_created:
  assumes eg: "kernels_ok eg" and b: "blank config se" "\<not> bounded config"
  shows "creation_ok (eg_sizes eg) config
    (obind (apta_internal_publish_result eg se 0) (\<lambda>(status, se1).
       if failed status then no_session status (undo se1) else created p (commit se1)))"
proof -
  have cfg: "se_config se = config" using b(1) by (simp add: blank_def)
  then have "results_ok (eg_sizes eg) se" using b(2) by (simp add: unbounded_results)
  from publish_still [OF eg this, of 0] obtain s se1 where p: "apta_internal_publish_result eg se 0 = Ret (s, se1)"
    "published_still (eg_sizes eg) se se1" by blast
  have "blank config se1" using blank_still [OF b(1) p(2)] p(2) by (simp add: published_still_def same_life_def)
  then have b1: "blank config (commit se1)" by (rule commit_blank)
  then have "results_ok (eg_sizes eg) (commit se1)" using b(2) by (simp add: unbounded_results blank_def)
  then show ?thesis using p(1) created_ok [OF b1] no_session_ok [of s] by simp
qed

lemma create_base_ok:
  assumes eg: "kernels_ok eg" and n: "\<not> bounded config"
  shows "creation_ok (eg_sizes eg) config (apta_session_create_base eg ctx config)"
proof (cases "sc_static_workspace config = 0")
  case True
  then have b: "blank config (fresh_session config l \<lparr>sm_context = c, sm_workspace = None\<rparr>)" for l c
    by (simp add: fresh_blank)
  show ?thesis using publish_created [OF eg b n]
    by (auto simp: apta_session_create_base_def no_session_ok next_lineage_def split: prod.split option.split)
next
  case False
  then show ?thesis by (simp add: apta_session_create_base_def no_session_ok)
qed

lemma create_contract_ok:
  "kernels_ok eg \<Longrightarrow> \<not> bounded config \<Longrightarrow> creation_ok (eg_sizes eg) config (apta_session_create_contract_base eg ctx config)"
  using create_base_ok [of eg config ctx] by (simp add: apta_session_create_contract_base_def no_session_ok)

lemma initialize_cases:
  "(\<exists>blocks. apta_internal_session_workspace_initialize sz base wsize = Ret blocks) \<or>
   (\<exists>e. apta_internal_session_workspace_initialize sz base wsize = Fail e \<and> failed e)"
  by (auto simp: apta_internal_session_workspace_initialize_def Let_def check_def split: option.split)

lemma prepare_cases:
  obtains (refused) s ctx' where "apta_internal_workspace_session_prepare sizes ctx config = Ret (s, None, ctx')" "failed s"
  | (prepared) se ctx' where "apta_internal_workspace_session_prepare sizes ctx config = Ret (STATUS_OK, Some se, ctx')"
      "blank config se" "ctx' = se_context se"
proof (cases "sc_static_workspace config = 0 \<or> sc_static_workspace_size config = 0 \<or> failed (apta_workspace_validate_config sizes ctx config)")
  case True
  then have "\<exists>s. apta_internal_workspace_session_prepare sizes ctx config = Ret (s, None, ctx) \<and> failed s"
    by (auto simp: apta_internal_workspace_session_prepare_def Let_def)
  then show ?thesis using refused by blast
next
  case False
  show ?thesis
    using initialize_cases [of "sizeof_session sizes" "sc_static_workspace config" "sc_static_workspace_size config"]
  proof (elim disjE exE conjE)
    fix blocks
    assume i: "apta_internal_session_workspace_initialize (sizeof_session sizes) (sc_static_workspace config)
      (sc_static_workspace_size config) = Ret blocks"
    show ?thesis using False i
      by (intro prepared) (auto simp: apta_internal_workspace_session_prepare_def Let_def next_lineage_def fresh_context
          intro: fresh_blank)
  next
    fix e
    assume i: "apta_internal_session_workspace_initialize (sizeof_session sizes) (sc_static_workspace config)
      (sc_static_workspace_size config) = Fail e" "failed e"
    show ?thesis using False i by (intro refused) (auto simp: apta_internal_workspace_session_prepare_def Let_def next_lineage_def)
  qed
qed

lemma create_workspace_ok:
  assumes eg: "kernels_ok eg" and n: "\<not> bounded config"
  shows "creation_ok (eg_sizes eg) config (apta_session_create_workspace_base eg ctx config)"
proof (cases rule: prepare_cases [of "eg_sizes eg" ctx config])
  case (refused s ctx')
  then show ?thesis using create_contract_ok [OF eg n, of ctx]
    by (simp add: apta_session_create_workspace_base_def no_session_ok)
next
  case (prepared se ctx')
  then show ?thesis using create_contract_ok [OF eg n, of ctx] publish_created [OF eg prepared(2) n]
    by (simp add: apta_session_create_workspace_base_def no_session_ok)
qed

text \<open>The results of a bounded session are in order from the first on.\<close>

lemma bounded_results:
  assumes c: "create_results host sizes al ctx config lh ll = Ret (STATUS_OK, st)" and u: "uses_workspace se"
  shows "results_ok sizes (with_results se st)"
proof -
  have w: "world_ok sizes ctx (initial_world st)" by (rule create_results_ok [OF c])
  then obtain k where k: "k < 2" "rs_current st = Some (of_nat k)"
    and ok: "store_ok sizes ctx True (world_refs (initial_world st)) st"
    by (auto simp: world_ok_def initial_world_def)
  have "0 < world_refs (initial_world st) k" using k by (simp add: world_refs_def initial_world_def)
  moreover have "results_of (with_results se st) = st" "uses_workspace (with_results se st)"
    using u by (simp_all add: results_of_def with_results_def se_context_def uses_workspace_def se_memory_def)
  moreover have "se_current_result (with_results se st) = rs_current st" by (simp add: with_results_def)
  ultimately show ?thesis using ok k unfolding results_ok_def by metis
qed

lemma create_results_cases:
  obtains (refused) s st where "create_results host sizes al ctx config lh ll = Ret (s, st)" "failed s"
  | (created) st where "create_results host sizes al ctx config lh ll = Ret (STATUS_OK, st)"
proof -
  obtain s pool ctx' where c: "apta_internal_result_pool_create host sizes al ctx config = (s, pool, ctx')"
    by (metis prod_cases3)
  show ?thesis
  proof (cases "failed s")
    case True
    then show ?thesis by (intro refused) (simp_all add: create_results_def c)
  next
    case False
    then show ?thesis using create_results_created [OF c False, of lh ll] created by blast
  qed
qed

lemma create_activation_ok:
  assumes eg: "kernels_ok eg"
  shows "creation_ok (eg_sizes eg) config (apta_session_create_activation_base eg al ctx config)"
proof (cases "bounded config")
  case False
  then show ?thesis using create_workspace_ok [OF eg False, of ctx]
    by (simp add: apta_session_create_activation_base_def no_session_ok bounded_def)
next
  case True
  show ?thesis
  proof (cases rule: prepare_cases [of "eg_sizes eg" ctx config])
    case (refused s ctx')
    then show ?thesis using True by (simp add: apta_session_create_activation_base_def no_session_ok bounded_def)
  next
    case (prepared se ctx')
    let ?lh = "se_lineage_id_high se" and ?ll = "se_lineage_id_low se"
    show ?thesis
    proof (cases rule: create_results_cases [of "eg_host eg" "eg_sizes eg" al ctx' config ?lh ?ll])
      case (refused s st)
      then show ?thesis using True prepared
        by (simp add: apta_session_create_activation_base_def no_session_ok bounded_def)
    next
      case (created st)
      have "creation_ok (eg_sizes eg) config (created (sc_static_workspace config) (with_results se st))"
        if "sc_static_workspace config \<noteq> 0"
        using created_ok [OF with_results_blank [OF prepared(2)] bounded_results [OF created]] prepared(2) that
        by (simp add: blank_def)
      then show ?thesis using True prepared created
        by (simp add: apta_session_create_activation_base_def no_session_ok bounded_def)
    qed
  qed
qed

text \<open>The pull mode set on a session created for pushing.\<close>

lemma pull_mode_ok:
  assumes "new_session sizes (config\<lparr>sc_input_mode := INPUT_MODE_PUSH\<rparr>) se" "sc_input_mode config = INPUT_MODE_PULL"
  shows "new_session sizes config (se\<lparr>se_config := (se_config se)\<lparr>sc_input_mode := INPUT_MODE_PULL\<rparr>\<rparr>)"
proof -
  let ?se = "se\<lparr>se_config := (se_config se)\<lparr>sc_input_mode := INPUT_MODE_PULL\<rparr>\<rparr>"
  have "(config\<lparr>sc_input_mode := INPUT_MODE_PUSH\<rparr>)\<lparr>sc_input_mode := INPUT_MODE_PULL\<rparr> = config"
    using assms(2) by simp
  then have b: "blank config ?se"
    using assms(1) by (auto simp: new_session_def blank_def resolved_frames_per_column_def uses_workspace_def se_memory_def)
  have "results_ok sizes se" using assms(1) by (simp add: new_session_def session_ok_def)
  then have "results_ok sizes ?se"
    by (rule results_ok_cong) (simp_all add: uses_workspace_def se_memory_def se_context_def)
  then show ?thesis using b blank_ok by (simp add: new_session_def)
qed

lemma create_guard_ok:
  assumes eg: "kernels_ok eg"
  shows "creation_ok (eg_sizes eg) config (apta_session_create_s6_guard_base eg al ctx config)"
proof (cases "sc_input_mode config = INPUT_MODE_PULL")
  case False
  then show ?thesis using create_activation_ok [OF eg, of config al ctx]
    by (simp add: apta_session_create_s6_guard_base_def no_session_ok)
next
  case True
  obtain s out ctx' where r: "apta_session_create_activation_base eg al ctx (config\<lparr>sc_input_mode := INPUT_MODE_PUSH\<rparr>) = Ret (s, out, ctx')"
    "case out of None \<Rightarrow> failed s | Some (p, se) \<Rightarrow> s = STATUS_OK \<and> ctx' = se_context se \<and>
       new_session (eg_sizes eg) (config\<lparr>sc_input_mode := INPUT_MODE_PUSH\<rparr>) se"
    using create_activation_ok [OF eg, of "config\<lparr>sc_input_mode := INPUT_MODE_PUSH\<rparr>" al ctx] by (auto simp: creation_ok_def)
  show ?thesis
  proof (cases out)
    case None
    then show ?thesis using r True by (simp add: apta_session_create_s6_guard_base_def no_session_ok)
  next
    case (Some q)
    obtain p se where q: "q = (p, se)" by fastforce
    have "new_session (eg_sizes eg) config (se\<lparr>se_config := (se_config se)\<lparr>sc_input_mode := INPUT_MODE_PULL\<rparr>\<rparr>)"
      using r(2) Some q True by (intro pull_mode_ok) simp_all
    then show ?thesis using r(1) Some q True
      by (auto simp: apta_session_create_s6_guard_base_def no_session_ok) (simp add: creation_ok_def created_def)
  qed
qed

lemma create_ok: "kernels_ok eg \<Longrightarrow> creation_ok (eg_sizes eg) config (apta_session_create eg al ctx config)"
  using create_guard_ok [of eg config al ctx] by (simp add: apta_session_create_def no_session_ok)

lemma blank_table: "blank config se \<Longrightarrow> table_ok se"
proof -
  assume "blank config se"
  then have r: "se_requests se = replicate 16 zero_request" by (simp add: blank_def)
  have "slot_ok n zero_request" for n by (simp add: slot_ok_def zero_request_def SCHEDULER_MAX_SKIPS_def)
  then show ?thesis by (simp add: table_ok_def r)
qed

text \<open>
  C13: creating a session returns without a memory fault: either an error and no session, or a session
  that satisfies the invariant of all later calls, with the given configuration, an empty request
  table, no accepted frame and the process lock free; it lives in the caller's workspace exactly if one was given.
\<close>
theorem session_create_sound:
  assumes "kernels_ok eg"
  shows "\<exists>s out ctx'. apta_session_create eg al ctx config = Ret (s, out, ctx') \<and>
    (case out of
       None \<Rightarrow> failed s
     | Some (p, se) \<Rightarrow> s = STATUS_OK \<and> ctx' = se_context se \<and> se_config se = config \<and>
         se_state se = SESSION_CREATED \<and> \<not> se_process_lock se \<and> in_ranges (se_intake se) = [] \<and>
         session_ok (eg_sizes eg) se \<and> table_ok se \<and> uses_workspace se = (sc_static_workspace config \<noteq> 0))"
proof -
  obtain s out ctx' where r: "apta_session_create eg al ctx config = Ret (s, out, ctx')"
    "case out of None \<Rightarrow> failed s | Some (p, se) \<Rightarrow> s = STATUS_OK \<and> ctx' = se_context se \<and> new_session (eg_sizes eg) config se"
    using create_ok [OF assms, of config al ctx] by (auto simp: creation_ok_def)
  have "table_ok se \<and> se_config se = config \<and> se_state se = SESSION_CREATED \<and> \<not> se_process_lock se \<and>
      in_ranges (se_intake se) = [] \<and> uses_workspace se = (sc_static_workspace config \<noteq> 0)"
    if "blank config se" for se
    using that blank_table [OF that] by (auto simp: blank_def empty_intake_def)
  then show ?thesis using r by (auto simp: new_session_def split: option.splits)
qed

section \<open>The overview of a session in a workspace\<close>

lemma overview_table_iff: "overview_shape se \<Longrightarrow>
   overview_table se c = Some a \<longleftrightarrow> a \<in> set (ov_accumulators (se_overview se)) \<and> ac_column_index a = c"
  using column_table_mem [of "ov_accumulators (se_overview se)"] column_table_Some
  by (fastforce simp: overview_table_def accumulators_def overview_shape_def Let_def)

text \<open>
  C4: a session created in a workspace keeps its overview exact under every sequence of calls that
  push blocks, signal the end of input, set the source, request cancellation, process, request a region or
  withdraw such a request, set the focus, or ask for the next PCM request (seeding from a result, metadata
  and the beat-grid calls are not covered), even when a publication fails and takes the completion marks away: the
  accumulators are sorted by column, each has counted exactly the processed frames of its column and
  every processed frame has one, a complete column has been processed in full, the
  counter of complete columns is right, and a satisfied overview request has had every frame of its range processed.
\<close>
theorem workspace_overview_exact:
  assumes "kernels_ok eg" "apta_session_create eg al ctx config = Ret (STATUS_OK, Some (p, se0), ctx')"
    and "sc_static_workspace config \<noteq> 0" "session_run eg se0 ops = Ret se"
  shows "sorted_wrt (<) (map ac_column_index (ov_accumulators (se_overview se))) \<and>
    (\<forall>a\<in>set (ov_accumulators (se_overview se)).
       unat (ac_sample_count a) = card {f \<in> processed_frames se. f div ucast (se_overview_frames_per_column se) = ucast (ac_column_index a)} \<and>
       (ac_complete a \<longrightarrow> {f. f div ucast (se_overview_frames_per_column se) = ucast (ac_column_index a) \<and>
            (se_end_of_input_signalled se \<longrightarrow> f < se_final_end_frame se)} \<subseteq> processed_frames se)) \<and>
    (\<forall>f\<in>processed_frames se. \<exists>a\<in>set (ov_accumulators (se_overview se)).
       f div ucast (se_overview_frames_per_column se) = ucast (ac_column_index a)) \<and>
    unat (ov_complete_count (se_overview se)) = length (filter ac_complete (ov_accumulators (se_overview se))) \<and>
    (\<forall>r\<in>set (se_requests se). rq_state r = REQUEST_SATISFIED \<and> rr_feature_mask (rq_request r) AND FEATURE_WAVEFORM_OVERVIEW \<noteq> 0 \<longrightarrow>
       {f \<in> {rr_first_frame (rq_request r) ..< rr_end_frame (rq_request r)}.
          se_end_of_input_signalled se \<longrightarrow> f < se_final_end_frame se} \<subseteq> processed_frames se)"
proof -
  have "new_session (eg_sizes eg) config se0"
    using create_ok [OF assms(1), of config al ctx] assms(2) by (simp add: creation_ok_def)
  then have se0: "session_ok (eg_sizes eg) se0" "uses_workspace se0"
    using assms(3) by (simp_all add: new_session_def blank_def)
  from run_advance [OF assms(1) se0(1), of ops] have a: "advance (eg_sizes eg) se0 se" using assms(4) by simp
  then have sh: "overview_shape se" and ex: "overview_exact se" "requests_true se"
    using se0(2) by (simp_all add: advance_def session_ok_def history_ok_def)
  have so: "sorted_wrt (<) (map ac_column_index (ov_accumulators (se_overview se)))"
    using sh by (simp add: overview_shape_def Let_def store_sorted_def sorted_wrt_map)
  note e = ex(1) [unfolded overview_exact_def tallies_def frames_of_def]
  have tab: "overview_table se c = Some b \<longleftrightarrow> b \<in> set (ov_accumulators (se_overview se)) \<and> ac_column_index b = c" for c b
    by (rule overview_table_iff [OF sh])
  have cnt: "unat (ac_sample_count b) = card {f \<in> processed_frames se. f div ucast (se_overview_frames_per_column se) = ucast (ac_column_index b)}"
    if "b \<in> set (ov_accumulators (se_overview se))" for b
    using e tab [of "ac_column_index b" b] that by (auto split: option.splits)
  have has: "\<exists>b\<in>set (ov_accumulators (se_overview se)). f div ucast (se_overview_frames_per_column se) = ucast (ac_column_index b)"
    if f: "f \<in> processed_frames se" for f
  proof -
    let ?q = "f div ucast (se_overview_frames_per_column se)"
    have "?q \<le> ucast UINT32_MAX" using e f by blast
    then have c: "ucast (ucast ?q :: u32) = ?q" by (rule ucast_u32_le)
    have "overview_table se (ucast ?q) \<noteq> None"
    proof
      assume "overview_table se (ucast ?q) = None"
      moreover have "case overview_table se (ucast ?q) of None \<Rightarrow>
          {f \<in> processed_frames se. f div ucast (se_overview_frames_per_column se) = ucast (ucast ?q :: u32)} = {}
        | Some a \<Rightarrow> unat (ac_sample_count a) =
            card {f \<in> processed_frames se. f div ucast (se_overview_frames_per_column se) = ucast (ucast ?q :: u32)}"
        using e by blast
      ultimately have "{f \<in> processed_frames se. f div ucast (se_overview_frames_per_column se) = ucast (ucast ?q :: u32)} = {}"
        by simp
      then show False using f c by auto
    qed
    then obtain b where "overview_table se (ucast ?q) = Some b" by blast
    then show ?thesis using tab c by metis
  qed
  show ?thesis
    using so cnt has e ex(2)
    by (auto simp: column_frames_def accumulators_def completed_def requests_true_def request_true_def range_frames_def)
qed

section \<open>A concrete creation\<close>

definition demo_workspace_config :: session_config where
  "demo_workspace_config = demo_config\<lparr>sc_source_sample_rate := 44100, sc_channel_count := 2, sc_sample_format := 1,
     sc_static_workspace := 0x10000, sc_static_workspace_size := 40960\<rparr>"

lemma demo_workspace_valid:
  "valid_config_struct demo_sizes demo_workspace_config" "known_flags demo_workspace_config"
  "apta_workspace_config_is_valid demo_context demo_workspace_config"
  "apta_s6_feature_mask_is_coherent (sc_requested_features demo_workspace_config)"
  by (simp_all add: valid_config_struct_def known_flags_def apta_workspace_config_is_valid_def has_feature_def
      demo_workspace_config_def demo_config_def apta_session_config_init_def apta_internal_validate_struct_def
      apta_internal_api_version_is_compatible_def api_version_get_major_def api_version_get_minor_def
      demo_sizes_def apta_internal_source_identity_is_valid_def apta_internal_source_fingerprint_is_valid_def
      apta_session_sample_format_is_valid_def apta_internal_overview_resolution_is_valid_def demo_context_def
      apta_workspace_feature_mask_is_coherent_def apta_s6_feature_mask_is_coherent_def list_all_iff apta_consts)

lemma demo_workspace_requirement:
  "apta_internal_session_workspace_requirement demo_sizes demo_workspace_config = 40080"
proof -
  have "overview_columns demo_workspace_config = overview_columns demo_config"
    "has_feature demo_workspace_config = has_feature demo_config"
    by (simp_all add: overview_columns_def resolved_frames_per_column_def demo_workspace_config_def has_feature_def fun_eq_iff Let_def)
  then have "apta_internal_session_workspace_requirement demo_sizes demo_workspace_config =
      apta_internal_session_workspace_requirement demo_sizes demo_config"
    by (simp only: apta_internal_session_workspace_requirement_def)
  then show ?thesis using demo_requirement by simp
qed

lemma demo_workspace_created:
  "\<exists>p se ctx. apta_session_create demo_engine al demo_context demo_workspace_config = Ret (STATUS_OK, Some (p, se), ctx)"
proof -
  have c: "sc_static_workspace demo_workspace_config = 0x10000" "sc_static_workspace_size demo_workspace_config = 40960"
    "sc_flags demo_workspace_config = 0" "sc_requested_features demo_workspace_config = 1"
    "sc_input_mode demo_workspace_config = INPUT_MODE_PUSH" "capabilities demo_context = 1"
    "eg_sizes demo_engine = demo_sizes" "sizeof_session demo_sizes = 11000"
    by (simp_all add: demo_workspace_config_def demo_config_def apta_session_config_init_def demo_context_def
        demo_engine_def demo_sizes_def)
  have m: "apta_internal_session_workspace_minimum_size 11000 = 11088"
    by (simp add: apta_internal_session_workspace_minimum_size_def apta_workspace_align_up_def Let_def apta_consts)
  have f: "INPUT_MODE_PUSH \<noteq> INPUT_MODE_PULL" by (simp add: apta_consts)
  have v: "apta_workspace_validate_config demo_sizes demo_context demo_workspace_config = STATUS_OK"
    using f by (simp add: apta_workspace_validate_config_def demo_workspace_valid c m demo_workspace_requirement Let_def
        SIZE_MAX_def MAX_ALIGNMENT_def)
  have "\<exists>blocks. apta_internal_session_workspace_initialize 11000 0x10000 40960 = Ret blocks"
    by (simp add: apta_internal_session_workspace_initialize_def m Let_def check_def apta_workspace_first_block_def
        apta_workspace_align_up_def apta_consts)
  then obtain blocks where i: "apta_internal_session_workspace_initialize 11000 0x10000 40960 = Ret blocks" ..
  show ?thesis
    by (simp add: apta_session_create_def apta_session_create_s6_guard_base_def apta_session_create_activation_base_def
        apta_session_create_workspace_base_def apta_internal_workspace_session_prepare_def demo_workspace_valid
        demo_workspace_valid(4) [unfolded c] c v i f next_lineage_def apta_internal_publish_result_def
        apta_internal_publish_result_base_def UINT64_MAX_def fresh_session_def)
      (simp add: demo_engine_def created_def)
qed

theorem session_create_sound_witness:
  "\<exists>p se ctx. apta_session_create demo_engine demo_alignments demo_context demo_workspace_config = Ret (STATUS_OK, Some (p, se), ctx) \<and>
     uses_workspace se \<and> session_ok demo_sizes se"
  using session_create_sound [OF demo_engine_ok, of demo_alignments demo_context demo_workspace_config]
    demo_workspace_created [of demo_alignments]
  by (auto simp: demo_workspace_config_def demo_engine_def)

theorem workspace_overview_exact_witness:
  "\<exists>p se0 ctx se. apta_session_create demo_engine demo_alignments demo_context demo_workspace_config = Ret (STATUS_OK, Some (p, se0), ctx) \<and>
     session_run demo_engine se0 [Push demo_block, Process demo_reader demo_budget None] = Ret se \<and>
     unat (ov_complete_count (se_overview se)) = length (filter ac_complete (ov_accumulators (se_overview se)))"
proof -
  obtain p se0 ctx where c: "apta_session_create demo_engine demo_alignments demo_context demo_workspace_config = Ret (STATUS_OK, Some (p, se0), ctx)"
    using demo_workspace_created by blast
  then have "session_ok (eg_sizes demo_engine) se0"
    using create_ok [OF demo_engine_ok, of demo_workspace_config demo_alignments demo_context]
    by (simp add: creation_ok_def new_session_def)
  then obtain se where r: "session_run demo_engine se0 [Push demo_block, Process demo_reader demo_budget None] = Ret se"
    using run_advance [OF demo_engine_ok] by blast
  have "sc_static_workspace demo_workspace_config \<noteq> 0" by (simp add: demo_workspace_config_def)
  from workspace_overview_exact [OF demo_engine_ok c this r] show ?thesis using c r by blast
qed

end
