(* ===== verification/Apta_Processing_Theorems.thy ===== *)
theory Apta_Processing_Theorems
  imports Apta_Session_Create
begin

text \<open>
  What the processing of queued samples guarantees: the order of the queue, the loop, a whole processing
  call, and two error paths of the layers around it.
\<close>

section \<open>The processing loop and the processing call\<close>

text \<open>
  C38: sorting the queue in place is the stable sort by score: the same nodes, no node behind one that the
  scheduling order puts later, equal ones in their old order.
\<close>
theorem queue_sort_stable:
  "queue (snd (apta_process_sort_pcm_queue se)) = sort_key (apta_process_score_node se) (queue se) \<and>
   mset (queue (snd (apta_process_sort_pcm_queue se))) = mset (queue se) \<and>
   sorted_wrt (\<lambda>a b. \<not> apta_process_node_better se b a) (queue (snd (apta_process_sort_pcm_queue se)))"
proof -
  have q: "queue (snd (apta_process_sort_pcm_queue se)) = sort_key (apta_process_score_node se) (queue se)"
    by (simp add: sort_queue_eq sorted_queue_sort_key)
  have "sorted (map (apta_process_score_node se) (sort_key (apta_process_score_node se) (queue se)))" by simp
  then have "sorted_wrt (\<lambda>a b. \<not> apta_process_node_better se b a) (sort_key (apta_process_score_node se) (queue se))"
    unfolding sorted_wrt_map
    by (rule sorted_wrt_mono_rel [rotated]) (simp add: apta_process_node_better_def less_schedule_score_def [symmetric] not_less)
  then show ?thesis using q by simp
qed

text \<open>
  C16: the processing loop always returns.  Each round takes frames from the queue, the sum of all rounds
  is the number of newly processed frames, and unless it fails or a deadline passes the loop stops for
  want of work only: the queue is empty or one of the two limits is reached.  A session in a workspace never fails here.
\<close>
theorem process_loop_exhausts:
  assumes "loop_ok C se"
  shows "\<exists>s c st did se'. process_loop eg fl sl 0 0 False se = Ret (s, c, st, did, se') \<and>
    c \<le> fl \<and> unat c = card (processed_frames se' - processed_frames se) \<and> processed_frames se \<subseteq> processed_frames se' \<and>
    (failed s \<longrightarrow> \<not> uses_workspace se) \<and>
    (\<not> failed s \<and> se_process_deadline_ns se = 0 \<longrightarrow> queue se' = [] \<or> c = fl \<or> sl \<le> st)"
proof -
  obtain r where r: "process_loop eg fl sl 0 0 False se = Ret r" "loop_spec C fl sl 0 False se r"
    using process_loop_spec [OF assms, of 0 fl eg sl 0 False] by auto
  obtain s c st did se' where e: "r = (s, c, st, did, se')" by (metis prod_cases5)
  note l = r(2) [unfolded loop_spec_def e]
  have k: "loop_ok C se'" "processed_frames se \<subseteq> processed_frames se'"
    using l by (simp_all add: round_spec_def)
  have "queue se' = [] \<or> c = fl \<or> sl \<le> st" if "\<not> failed s" "se_process_deadline_ns se = 0"
    using next_chunk_None [of fl sl c st se'] that l k(1) by (auto simp: loop_ok_def)
  then show ?thesis using r(1) e l k(2) by auto
qed

text \<open>
  C15: one call of the whole processing chain returns without a memory fault; it accepts nothing and forgets
  nothing, the number of consumed frames it reports is the number of newly processed ones, and it keeps
  the overview exact unless it fails in a session without a workspace.  A call that succeeds leaves every
  column marked complete whose frames have all been processed, also when an earlier publication
  had failed and had taken the marks away.
\<close>
theorem waveform_process_exact:
  assumes "kernels_ok eg" "session_ok (eg_sizes eg) se"
  shows "\<exists>s did published pg' se'. apta_internal_waveform_process eg se budget pg = Ret (s, did, published, pg', se') \<and>
    in_ranges (se_intake se') = in_ranges (se_intake se) \<and> processed_frames se \<subseteq> processed_frames se' \<and>
    se_state se' = se_state se \<and> se_config se' = se_config se \<and>
    (\<not> failed s \<longrightarrow> unat (pg_consumed_input_frames pg') = card (processed_frames se' - processed_frames se) \<and>
       (pg_consumed_input_frames pg' \<noteq> 0 \<longrightarrow> did)) \<and>
    (overview_exact se \<and> (\<not> failed s \<or> uses_workspace se) \<longrightarrow> overview_exact se') \<and>
    (overview_exact se \<and> \<not> failed s \<longrightarrow>
       (\<forall>a\<in>set (ov_accumulators (se_overview se')). column_frames se' (ac_column_index a) \<noteq> {} \<longrightarrow>
          (ac_complete a \<longleftrightarrow> column_frames se' (ac_column_index a) \<subseteq> processed_frames se')))"
proof -
  obtain r where r: "apta_internal_waveform_process eg se budget pg = Ret r" "layer_spec (eg_sizes eg) se r"
    using waveform_process_spec [OF assms(1) session_work [OF assms(2)]] by blast
  obtain s did pub pg' se' where e: "r = (s, did, pub, pg', se')" by (metis prod_cases5)
  show ?thesis using r e by (auto simp: layer_spec_def worked_def same_life_def marked_def accumulators_def)
qed

section \<open>A preparation that failed half-way\<close>

text \<open>
  C40: if the buffer of the onset flux cannot be allocated, the preparation of the tempo analysis fails once
  and has then marked itself done: every later preparation reports success although the buffer is missing.
\<close>
theorem s4_prepare_sticks:
  assumes "apta_internal_s4_prepare eg se = (s, se1)" "failed s" "s4_onset_bins (se_s4 se1) \<noteq> None"
    and "se_s4 se2 = se_s4 se1" "s4_onset_flux (se_s4 se) = None"
  shows "apta_internal_s4_prepare eg se2 = (STATUS_OK, se2) \<and> s4_onset_flux (se_s4 se2) = None"
proof -
  have "s4_onset_flux (se_s4 se1) = None"
    using assms(1,2,5)
    by (auto simp: apta_internal_s4_prepare_def Let_def with_memory_def split: if_splits option.splits prod.splits)
  then show ?thesis using assms(3,4) by (auto simp: apta_internal_s4_prepare_def)
qed

section \<open>A replay the session asked for\<close>

text \<open>A block whose first frame has been accepted is a conflict for the overview.\<close>

lemma covered_conflict:
  assumes "intake_ok (se_intake se)" "pb_frame_count block \<noteq> 0"
    "unat (pb_first_frame block) + unat (pb_frame_count block) < 18446744073709551616"
    "pb_first_frame block \<in> covered (in_ranges (se_intake se))"
  shows "\<exists>st. accept_base eg se block = Ret (ERROR_CONFLICT, 0, se\<lparr>se_intake := st\<rparr>)"
proof -
  obtain s n st where r: "apta_internal_waveform_accept_pcm_base (eg_host eg) (eg_sizes eg) (se_intake se)
      (pb_first_frame block) (pb_frame_count block) = Ret (s, n, st)"
    "accept_spec (se_intake se) (pb_first_frame block) (pb_frame_count block) (s, n, st)"
    using accept_pcm_refines [OF assms(1-3)] by (metis prod_cases3)
  note a = r(2) [unfolded accept_spec_def prod.case]
  have "n = 0"
  proof (rule ccontr)
    assume n: "n \<noteq> 0"
    have "unat n \<le> unat (pb_frame_count block)" using a by (simp add: word_le_nat_alt)
    then have "unat (pb_first_frame block + ucast n) = unat (pb_first_frame block) + unat n"
      using assms(3) by (simp add: unat_word_ariths)
    then have "pb_first_frame block \<in> {pb_first_frame block ..< pb_first_frame block + ucast n}"
      using n by (simp add: word_less_nat_alt unat_gt_0)
    then show False using a assms(4) by blast
  qed
  moreover have "s = ERROR_CONFLICT" using a assms(4) by blast
  ultimately show ?thesis using r(1) by (auto simp: accept_base_def Let_def)
qed

lemma detail_demand_intake:
  "apta_internal_detail_next_pcm_request_base (se\<lparr>se_intake := st\<rparr>) = apta_internal_detail_next_pcm_request_base se"
proof -
  have e: "apta_detail_column_is_empty (se\<lparr>se_intake := st\<rparr>) = apta_detail_column_is_empty se"
    by (simp add: fun_eq_iff apta_detail_column_is_empty_def apta_detail_find_tile_def)
  have f: "first_empty (se\<lparr>se_intake := st\<rparr>) n c = first_empty se n c" "empty_end (se\<lparr>se_intake := st\<rparr>) n c = empty_end se n c" for n c
    by (induction n arbitrary: c) (simp_all add: e)
  have g: "se_focus (se\<lparr>se_intake := st\<rparr>) = se_focus se" "se_has_focus (se\<lparr>se_intake := st\<rparr>) = se_has_focus se"
    "se_config (se\<lparr>se_intake := st\<rparr>) = se_config se" "se_requests (se\<lparr>se_intake := st\<rparr>) = se_requests se" by simp_all
  show ?thesis unfolding apta_internal_detail_next_pcm_request_base_def apta_detail_select_target_def f g ..
qed

text \<open>
  C39: the demand for replayed detail samples is chosen by the aged priorities, the acceptance of a replay
  by the plain ones.  Where the two choices start at different frames, and the first demanded frame has
  been accepted before (as it has for a replay), tempo and beat-grid analysis are off and the block
  lies where the detail cache can hold it, a block with exactly the demanded frames is
  refused with the conflict status, and the detail cache stays as it is.
\<close>
theorem demanded_replay_refused:
  assumes "apta_internal_detail_next_pcm_request se0 = (STATUS_OK, Some q, se)"
    and "apta_internal_detail_next_pcm_request_base se = (s', Some q')" "pq_first_frame q' \<noteq> pq_first_frame q"
    and "intake_ok (se_intake se)" "\<not> apta_s4_enabled se" "\<not> apta_s6_enabled se"
    and "pb_first_frame block = pq_first_frame q" "pb_frame_count block = ucast (pq_end_frame q - pq_first_frame q)"
    and "pb_frame_count block \<noteq> 0" "unat (pb_first_frame block) + unat (pb_frame_count block) < 18446744073709551616"
    and "pq_first_frame q \<in> covered (in_ranges (se_intake se))"
    and "(pb_first_frame block + ucast (pb_frame_count block) - 1) div DETAIL_TILE_FRAMES \<le>
      ucast (UINT32_MAX div DETAIL_COLUMNS_PER_TILE)"
  shows "\<exists>se'. apta_internal_waveform_accept_pcm eg se block = Ret (ERROR_CONFLICT, 0, se') \<and>
    se_detail se' = se_detail se"
proof -
  obtain st where a: "accept_base eg se block = Ret (ERROR_CONFLICT, 0, se\<lparr>se_intake := st\<rparr>)"
    using covered_conflict [of se block eg] assms by auto
  have "apta_internal_detail_accept_replay_base eg (se\<lparr>se_intake := st\<rparr>) block = (STATUS_NOT_AVAILABLE, 0, se\<lparr>se_intake := st\<rparr>)"
    using assms(2,3,7) by (simp add: apta_internal_detail_accept_replay_base_def detail_demand_intake)
  then have "apta_internal_detail_accept_replay eg (se\<lparr>se_intake := st\<rparr>) block = (STATUS_NOT_AVAILABLE, 0, se\<lparr>se_intake := st\<rparr>)"
    by (simp add: apta_internal_detail_accept_replay_def Let_def)
  then show ?thesis using a assms(5,6,12)
    by (auto simp: apta_internal_waveform_accept_pcm_def Let_def not_less [symmetric])
qed

section \<open>Concrete sessions\<close>

definition demo_aged_slot :: "u32 \<Rightarrow> u64 \<Rightarrow> u8 \<Rightarrow> u32 \<Rightarrow> internal_request" where
  "demo_aged_slot i f p skips =
     (queued_request ((demo_region f p)\<lparr>rr_end_frame := f + 4096, rr_feature_mask := FEATURE_WAVEFORM_DETAIL\<rparr>) i)
       \<lparr>rq_enqueue_serial := ucast i, rq_skip_count := skips\<rparr>"

definition demo_aged_session :: apta_session where
  "demo_aged_session = demo_session\<lparr>se_config := demo_config\<lparr>sc_requested_features := 3\<rparr>, se_state := SESSION_ACTIVE,
     se_requests := demo_aged_slot 1 0 100 0 # demo_aged_slot 2 16384 96 4 # replicate 14 zero_request,
     se_intake := demo_intake\<lparr>in_ranges := [\<lparr>rg_first = 0, rg_end = 32768\<rparr>],
       in_range_capacity := 8, in_greatest_accepted_end := 32768, in_maximum_accepted_end := 32768\<rparr>\<rparr>"

lemma demo_aged_demand:
  "(case apta_internal_detail_next_pcm_request demo_aged_session of (s, q, se1) \<Rightarrow> s = STATUS_OK \<and> map_option pq_first_frame q = Some 16384 \<and> map_option pq_end_frame q = Some 20480 \<and> map_option pq_first_frame (snd (apta_internal_detail_next_pcm_request_base se1)) = Some 0)"
  by code_simp

definition demo_replay_block :: pcm_block where
  "demo_replay_block = demo_block\<lparr>pb_first_frame := 16384, pb_frame_count := 4096\<rparr>"

theorem demanded_replay_refused_witness:
  "\<exists>q se se'. apta_internal_detail_next_pcm_request demo_aged_session = (STATUS_OK, Some q, se) \<and>
     pq_first_frame q = 16384 \<and> pq_end_frame q = 20480 \<and>
     apta_internal_waveform_accept_pcm demo_engine se demo_replay_block = Ret (ERROR_CONFLICT, 0, se')"
proof -
  obtain q se s' q' where d: "apta_internal_detail_next_pcm_request demo_aged_session = (STATUS_OK, Some q, se)"
    "pq_first_frame q = 16384" "pq_end_frame q = 20480"
    "apta_internal_detail_next_pcm_request_base se = (s', Some q')" "pq_first_frame q' = 0"
    using demo_aged_demand by (auto simp: prod_eq_iff split: prod.splits)
  have se: "se_intake se = se_intake demo_aged_session" "se_config se = se_config demo_aged_session"
    using d(1) by (auto simp: apta_internal_detail_next_pcm_request_def apta_internal_scheduler_note_choice_def
        split: prod.splits if_splits)
  have i: "intake_ok (se_intake se)"
    by (simp add: se demo_aged_session_def intake_ok_def demo_intake_def empty_intake_def ranges_ok_def capacity_ok_def
        apta_refresh_accepted_ends_def)
  have f: "\<not> apta_s4_enabled se" "\<not> apta_s6_enabled se"
    by (simp_all add: se apta_s4_enabled_def apta_s6_enabled_def has_feature_def demo_aged_session_def demo_config_def apta_consts)
  have c: "pq_first_frame q \<in> covered (in_ranges (se_intake se))"
    by (simp add: se d demo_aged_session_def range_set_def)
  have "pq_first_frame q' \<noteq> pq_first_frame q" using d by simp
  from demanded_replay_refused [OF d(1,4) this i f _ _ _ _ c, of demo_replay_block demo_engine] d
  show ?thesis by (auto simp: demo_replay_block_def apta_consts)
qed

definition demo_queued_session :: apta_session where
  "demo_queued_session = demo_session\<lparr>se_intake := demo_intake\<lparr>in_ranges := [\<lparr>rg_first = 0, rg_end = 1000\<rparr>],
     in_range_capacity := 8, in_greatest_accepted_end := 1000, in_maximum_accepted_end := 1000,
     in_queue := [\<lparr>pn_address = 0x10020, pn_first_frame = 0, pn_frame_count = 1000, pn_processed_frames = 0\<rparr>],
     in_queued_frames := 1000\<rparr>\<rparr>"

lemma demo_queued_ok: "loop_ok (UNIV :: u32 set) demo_queued_session"
proof -
  have w: "\<not> uses_workspace demo_queued_session"
    by (simp add: uses_workspace_def se_memory_def demo_queued_session_def demo_intake_def empty_intake_def)
  have "intake_ok (se_intake demo_queued_session)"
    by (simp add: demo_queued_session_def intake_ok_def demo_intake_def empty_intake_def ranges_ok_def capacity_ok_def
        apta_refresh_accepted_ends_def node_ok_def node_frames_def range_set_def)
  moreover have "overview_shape demo_queued_session"
    using demo_parts_ok(1) by (simp add: overview_shape_def Let_def w demo_parts_ok(3))
      (simp add: demo_queued_session_def)
  moreover have "within_final demo_queued_session"
    by (simp add: within_final_def demo_queued_session_def demo_session_def)
  ultimately show ?thesis using w by (simp add: loop_ok_def room_def)
qed

theorem process_loop_exhausts_witness:
  "\<exists>s c st did se'. process_loop demo_engine 1000 10 0 0 False demo_queued_session = Ret (s, c, st, did, se') \<and> c \<le> 1000 \<and>
     (failed s \<or> queue se' = [] \<or> c = 1000 \<or> 10 \<le> st)"
proof -
  have "se_process_deadline_ns demo_queued_session = 0" by (simp add: demo_queued_session_def demo_session_def)
  then show ?thesis using process_loop_exhausts [OF demo_queued_ok, of demo_engine 1000 10] by auto
qed

theorem waveform_process_exact_witness:
  "\<exists>s did published pg' se'. apta_internal_waveform_process demo_engine demo_covered_session demo_budget (cleared_progress 0) =
       Ret (s, did, published, pg', se') \<and>
     in_ranges (se_intake se') = [\<lparr>rg_first = 0, rg_end = 1000\<rparr>]"
proof -
  have "eg_sizes demo_engine = demo_sizes" by (simp add: demo_engine_def)
  moreover have "in_ranges (se_intake demo_covered_session) = [\<lparr>rg_first = 0, rg_end = 1000\<rparr>]"
    by (simp add: demo_covered_session_def)
  ultimately show ?thesis
    using waveform_process_exact [OF demo_engine_ok, of demo_covered_session demo_budget "cleared_progress 0"] demo_covered_session_ok
    by auto
qed

text \<open>An allocator that gives one block only.\<close>

definition demo_single_engine :: engine where
  "demo_single_engine = demo_engine\<lparr>eg_host := (\<lambda>n sz. if n = 0 then Some 0x10000 else None)\<rparr>"

definition demo_tempo_session :: apta_session where
  "demo_tempo_session = demo_session\<lparr>se_config := demo_config\<lparr>sc_requested_features := 9\<rparr>\<rparr>"

theorem s4_prepare_sticks_witness:
  "\<exists>s se1. apta_internal_s4_prepare demo_single_engine demo_tempo_session = (s, se1) \<and> failed s \<and>
     apta_internal_s4_prepare demo_single_engine se1 = (STATUS_OK, se1) \<and> s4_onset_flux (se_s4 se1) = None"
proof -
  have "\<exists>s se1. apta_internal_s4_prepare demo_single_engine demo_tempo_session = (s, se1) \<and> failed s \<and>
      s4_onset_bins (se_s4 se1) \<noteq> None"
    by (simp add: apta_internal_s4_prepare_def apta_s4_enabled_def has_feature_def demo_tempo_session_def demo_session_def
        demo_config_def demo_single_engine_def demo_engine_def demo_sizes_def empty_s4_def se_memory_def demo_intake_def empty_intake_def
        demo_context_def apta_internal_session_allocate_def apta_internal_context_allocate_def apta_internal_reserve_bytes_def
        apta_internal_is_power_of_two_def with_memory_def Let_def sizeof_allocation_header_def apta_consts)
  then obtain s se1 where p: "apta_internal_s4_prepare demo_single_engine demo_tempo_session = (s, se1)" "failed s"
    "s4_onset_bins (se_s4 se1) \<noteq> None" by blast
  have "s4_onset_flux (se_s4 demo_tempo_session) = None" by (simp add: demo_tempo_session_def demo_session_def empty_s4_def)
  from s4_prepare_sticks [OF p refl this] show ?thesis using p by blast
qed

end
