(* ===== verification/Apta_Detail_Cache.thy ===== *)
theory Apta_Detail_Cache
  imports Apta_Session_Create
begin

text \<open>
  The detail cache in order: every tile's counter and published run agree with its columns, no tile
  is cached twice, and a tile that is asked for is not given up for one that is not.
\<close>

section \<open>Runs of complete columns\<close>

definition complete_run :: "accumulator list \<Rightarrow> nat \<Rightarrow> nat \<Rightarrow> bool" where
  "complete_run as first fin \<longleftrightarrow> first \<le> fin \<and> fin \<le> length as \<and> (\<forall>i\<in>{first ..< fin}. ac_complete (as ! i))"

definition maximal_run :: "accumulator list \<Rightarrow> nat \<Rightarrow> nat \<Rightarrow> bool" where
  "maximal_run as first fin \<longleftrightarrow> complete_run as first fin \<and>
     (0 < first \<longrightarrow> \<not> ac_complete (as ! (first - 1))) \<and> (fin < length as \<longrightarrow> \<not> ac_complete (as ! fin))"

lemma takeWhile_run:
  "i < length (takeWhile P xs) \<Longrightarrow> P (xs ! i)"
  "length (takeWhile P xs) < length xs \<Longrightarrow> \<not> P (xs ! length (takeWhile P xs))"
  by (metis nth_mem set_takeWhileD takeWhile_nth) (rule nth_length_takeWhile)

lemma extend_run_maximal:
  assumes r: "complete_run as first fin" and e: "extend_run as first fin = (first', fin')"
  shows "maximal_run as first' fin'" "first' \<le> first" "fin \<le> fin'"
proof -
  let ?l = "takeWhile ac_complete (rev (take first as))" and ?r = "takeWhile ac_complete (drop fin as)"
  have f: "first \<le> length as" "fin \<le> length as" "first \<le> fin" using r by (simp_all add: complete_run_def)
  have e': "first' = first - length ?l" "fin' = fin + length ?r" using e by (simp_all add: extend_run_def)
  have l: "length ?l \<le> first" using length_takeWhile_le [of ac_complete "rev (take first as)"] f(1) by simp
  have g: "length ?r \<le> length as - fin" using length_takeWhile_le [of ac_complete "drop fin as"] by simp
  have left: "rev (take first as) ! k = as ! (first - Suc k)" if "k < first" for k
    using that f(1) by (simp add: rev_nth)
  have run: "ac_complete (as ! i)" if "first' \<le> i" "i < fin'" for i
  proof -
    consider "i < first" | "first \<le> i" "i < fin" | "fin \<le> i" by linarith
    then show ?thesis
    proof cases
      case 1
      then have "first - Suc i < length ?l" using that e' l by linarith
      from takeWhile_run(1) [OF this] show ?thesis using left [of "first - Suc i"] 1 by (simp add: Suc_diff_Suc)
    next
      case 2
      then show ?thesis using r by (simp add: complete_run_def)
    next
      case 3
      then have "i - fin < length ?r" using that e' by linarith
      from takeWhile_run(1) [OF this] show ?thesis using 3 f(2) by simp
    qed
  qed
  have "\<not> ac_complete (as ! (first' - 1))" if "0 < first'"
  proof -
    have "length ?l < first" using that e' by linarith
    then have "\<not> ac_complete (rev (take first as) ! length ?l)" using f(1) by (intro takeWhile_run(2)) simp
    then show ?thesis using left [OF \<open>length ?l < first\<close>] e' by simp
  qed
  moreover have "\<not> ac_complete (as ! fin')" if "fin' < length as"
  proof -
    have "length ?r < length (drop fin as)" using that e' f(2) by simp
    from takeWhile_run(2) [OF this] show ?thesis using e' f(2) by simp
  qed
  ultimately show "maximal_run as first' fin'"
    using run e' f l g by (auto simp: maximal_run_def complete_run_def)
  show "first' \<le> first" "fin \<le> fin'" using e' by simp_all
qed

text \<open>The search for the longest run; \<open>seen\<close> are the columns already passed.\<close>

definition run_search :: "accumulator list \<Rightarrow> nat \<Rightarrow> nat \<times> nat \<Rightarrow> nat \<times> nat \<Rightarrow> bool" where
  "run_search as c current best \<longleftrightarrow> (case (current, best) of ((cf, cn), (bf, bn)) \<Rightarrow>
     (0 < cn \<longrightarrow> cf + cn = c \<and> complete_run as cf c) \<and> cn \<le> bn \<and>
     (0 < bn \<longrightarrow> bf + bn \<le> c \<and> complete_run as bf (bf + bn)) \<and>
     (\<forall>x. complete_run as x c \<longrightarrow> c - x \<le> cn) \<and>
     (\<forall>x y. y \<le> c \<and> complete_run as x y \<longrightarrow> y - x \<le> bn))"

lemma complete_run_Suc:
  "c < length as \<Longrightarrow> complete_run as x (Suc c) \<longleftrightarrow> x = Suc c \<or> complete_run as x c \<and> ac_complete (as ! c)"
  by (auto simp: complete_run_def less_Suc_eq le_Suc_eq)

lemma longest_run_search:
  assumes "run_search as c current best" "c \<le> length as"
  shows "\<exists>current'. run_search as (length as) current' (longest_run (drop c as) c current best)"
  using assms
proof (induction "length as - c" arbitrary: c current best)
  case 0
  then have "c = length as" by simp
  then show ?case using 0 by (intro exI [of _ current]) simp
next
  case (Suc n)
  obtain cf cn bf bn where e: "current = (cf, cn)" "best = (bf, bn)" by (metis prod.exhaust)
  have c: "c < length as" using Suc.hyps(2) by linarith
  have d: "drop c as = as ! c # drop (Suc c) as" using c by (simp add: Cons_nth_drop_Suc)
  note s = Suc.prems(1) [unfolded run_search_def e prod.case]
  show ?case
  proof (cases "ac_complete (as ! c)")
    case False
    have step: "\<forall>x. complete_run as x (Suc c) \<longleftrightarrow> x = Suc c" using complete_run_Suc [OF c] False by blast
    have "run_search as (Suc c) (cf, 0) (bf, bn)"
      unfolding run_search_def prod.case using s step by (intro conjI allI impI) (auto simp: le_Suc_eq)
    from Suc.hyps(1) [OF _ this] Suc.hyps(2) c show ?thesis using False by (simp add: d e)
  next
    case True
    let ?f = "if cn = 0 then c else cf"
    have step: "complete_run as x (Suc c) \<longleftrightarrow> x = Suc c \<or> complete_run as x c" for x
      using complete_run_Suc [OF c] True by blast
    have cc: "complete_run as c c" using c by (simp add: complete_run_def)
    have f: "?f + (cn + 1) = Suc c" "complete_run as ?f (Suc c)" "complete_run as ?f (?f + (cn + 1))" using s cc by (auto simp: step)
    have last: "Suc c - x \<le> cn + 1" if "complete_run as x (Suc c)" for x
    proof -
      have "c - x \<le> cn" if "complete_run as x c" using s that by blast
      then show ?thesis using \<open>complete_run as x (Suc c)\<close> by (auto simp: step)
    qed
    let ?b = "if bn < cn + 1 then (?f, cn + 1) else (bf, bn)"
    have old: "y - x \<le> bn" if "y \<le> c" "complete_run as x y" for x y using s that by blast
    have "y - x \<le> max bn (cn + 1)" if "y \<le> Suc c" "complete_run as x y" for x y
      using last [of x] old [of y x] that by (cases "y = Suc c") (auto simp: le_Suc_eq)
    moreover have "bn < cn + 1 \<Longrightarrow> max bn (cn + 1) = cn + 1" "\<not> bn < cn + 1 \<Longrightarrow> max bn (cn + 1) = bn" by simp_all
    ultimately have "run_search as (Suc c) (?f, cn + 1) ?b"
      using s f(1,2) last f(3) by (cases "bn < cn + 1") (simp_all add: run_search_def del: One_nat_def split: if_split_asm)
    then have "\<exists>current'. run_search as (length as) current' (longest_run (drop (Suc c) as) (Suc c) (?f, cn + 1) ?b)"
      using Suc.hyps(1) [of "Suc c"] Suc.hyps(2) c by simp
    moreover have "longest_run (drop c as) c current best = longest_run (drop (Suc c) as) (Suc c) (?f, cn + 1) ?b"
      using True by (simp add: d e Let_def)
    ultimately show ?thesis by simp
  qed
qed

lemma longest_run_maximal:
  assumes "longest_run as 0 (0, 0) (0, 0) = (first, n)"
  shows "if n = 0 then \<forall>i<length as. \<not> ac_complete (as ! i) else maximal_run as first (first + n)"
proof -
  have "run_search as 0 (0, 0) (0, 0)" by (auto simp: run_search_def complete_run_def)
  from longest_run_search [OF this] obtain current where "run_search as (length as) current (first, n)"
    using assms by auto
  then have s: "0 < n \<longrightarrow> complete_run as first (first + n)" "\<And>x y. complete_run as x y \<Longrightarrow> y - x \<le> n"
    by (auto simp: run_search_def complete_run_def split: prod.splits)
  show ?thesis
  proof (cases "n = 0")
    case True
    have "\<not> ac_complete (as ! i)" if "i < length as" for i
      using s(2) [of i "Suc i"] that True by (auto simp: complete_run_def)
    then show ?thesis using True by simp
  next
    case False
    then have r: "complete_run as first (first + n)" using s(1) by simp
    have "\<not> ac_complete (as ! (first - 1))" if "0 < first"
    proof
      assume a: "ac_complete (as ! (first - 1))"
      have "ac_complete (as ! i)" if "first - 1 \<le> i" "i < first + n" for i
        using that r a by (cases "i = first - 1") (auto simp: complete_run_def)
      then have "complete_run as (first - 1) (first + n)" using r by (auto simp: complete_run_def)
      then show False using s(2) [of "first - 1" "first + n"] that by simp
    qed
    moreover have "\<not> ac_complete (as ! (first + n))" if "first + n < length as"
    proof
      assume a: "ac_complete (as ! (first + n))"
      then have "complete_run as first (Suc (first + n))" using r that by (auto simp: complete_run_Suc)
      then show False using s(2) [of first "Suc (first + n)"] by simp
    qed
    ultimately show ?thesis using False r by (simp add: maximal_run_def)
  qed
qed

section \<open>Tiles\<close>

definition complete_columns :: "detail_tile \<Rightarrow> nat" where
  "complete_columns tile = length (filter ac_complete (dt_accumulators tile))"

definition tile_ok :: "detail_tile \<Rightarrow> bool" where
  "tile_ok tile \<longleftrightarrow> length (dt_accumulators tile) = 64 \<and> unat (dt_complete_count tile) = complete_columns tile \<and>
     (dt_run_valid tile \<longrightarrow> 0 < dt_run_count tile \<and>
        complete_run (dt_accumulators tile) (unat (dt_run_first tile)) (unat (dt_run_first tile) + unat (dt_run_count tile)))"

text \<open>What a refresh establishes: there is a run if there is a complete column, and it cannot be extended.\<close>

definition run_settled :: "detail_tile \<Rightarrow> bool" where
  "run_settled tile \<longleftrightarrow>
     (if dt_run_valid tile
      then maximal_run (dt_accumulators tile) (unat (dt_run_first tile)) (unat (dt_run_first tile) + unat (dt_run_count tile))
      else \<forall>i<64. \<not> ac_complete (dt_accumulators tile ! i))"

lemma select_or_extend_fields [simp]:
  "dt_accumulators (apta_detail_select_or_extend_run tile) = dt_accumulators tile"
  "dt_complete_count (apta_detail_select_or_extend_run tile) = dt_complete_count tile"
  "dt_occupied (apta_detail_select_or_extend_run tile) = dt_occupied tile"
  "dt_tile_index (apta_detail_select_or_extend_run tile) = dt_tile_index tile"
  "dt_access_serial (apta_detail_select_or_extend_run tile) = dt_access_serial tile"
  by (auto simp: apta_detail_select_or_extend_run_def split: prod.split)

lemma select_or_extend_ok:
  assumes "tile_ok tile"
  shows "tile_ok (apta_detail_select_or_extend_run tile)" "run_settled (apta_detail_select_or_extend_run tile)"
proof -
  let ?as = "dt_accumulators tile"
  have len: "length ?as = 64" using assms by (simp add: tile_ok_def)
  have small: "unat (of_nat n :: u8) = n" if "n \<le> 64" for n using that by (simp add: unat_of_nat)
  have "tile_ok (apta_detail_select_or_extend_run tile) \<and> run_settled (apta_detail_select_or_extend_run tile)"
  proof (cases "dt_run_valid tile")
    case True
    let ?f = "unat (dt_run_first tile)" and ?n = "unat (dt_run_count tile)"
    have r: "complete_run ?as ?f (?f + ?n)" "0 < dt_run_count tile" using assms True by (simp_all add: tile_ok_def)
    obtain f' e' where e: "extend_run ?as ?f (?f + ?n) = (f', e')" by fastforce
    from extend_run_maximal [OF r(1) e] have m: "maximal_run ?as f' e'" "f' \<le> ?f" "?f + ?n \<le> e'" .
    then have b: "f' \<le> 64" "e' \<le> 64" "f' \<le> e'" using len by (auto simp: maximal_run_def complete_run_def)
    have pos: "0 < e' - f'" using m r(2) by (simp add: word_less_nat_alt)
    then have "of_nat (e' - f') \<noteq> (0 :: u8)" using small [of "e' - f'"] b by (metis diff_le_self le_trans less_numeral_extra(3) unat_0)
    then show ?thesis using True e m(1) b assms small [of f'] small [of "e' - f'"]
      by (simp add: apta_detail_select_or_extend_run_def tile_ok_def run_settled_def maximal_run_def complete_columns_def
          word_gt_0)
  next
    case False
    obtain f n where l: "longest_run ?as 0 (0, 0) (0, 0) = (f, n)" by fastforce
    note m = longest_run_maximal [OF l]
    show ?thesis
    proof (cases "n = 0")
      case True
      then show ?thesis using False l m assms len by (simp add: apta_detail_select_or_extend_run_def run_settled_def)
    next
      case n: False
      then have r: "maximal_run ?as f (f + n)" using m by simp
      then have b: "f + n \<le> 64" using len by (simp add: maximal_run_def complete_run_def)
      have "of_nat n \<noteq> (0 :: u8)" using small [of n] b n by (metis add_leD2 unat_0)
      then show ?thesis using False n l r b assms small [of f] small [of n]
        by (simp add: apta_detail_select_or_extend_run_def tile_ok_def run_settled_def maximal_run_def complete_columns_def
            word_gt_0)
    qed
  qed
  then show "tile_ok (apta_detail_select_or_extend_run tile)" "run_settled (apta_detail_select_or_extend_run tile)" by simp_all
qed

text \<open>New complete columns are counted, and no old run loses a column.\<close>

lemma refresh_tile_ok:
  assumes "tile_ok tile"
  shows "tile_ok (refresh_tile se tile)" "dt_occupied tile \<Longrightarrow> run_settled (refresh_tile se tile)"
    "dt_occupied (refresh_tile se tile) = dt_occupied tile" "dt_tile_index (refresh_tile se tile) = dt_tile_index tile"
proof -
  let ?as = "dt_accumulators tile"
  let ?new = "detail_newly_complete se tile"
  let ?bs = "map (\<lambda>c. if ?new c then (?as ! c)\<lparr>ac_complete := True\<rparr> else ?as ! c) [0..<length ?as]"
  let ?k = "length (filter ?new [0..<length ?as])"
  let ?t = "tile\<lparr>dt_complete_count := dt_complete_count tile + of_nat ?k, dt_accumulators := ?bs\<rparr>"
  have len: "length ?as = 64" using assms by (simp add: tile_ok_def)
  have split: "length (filter P (map f xs)) = length (filter Q xs) + length (filter R xs)"
    if "\<And>x. x \<in> set xs \<Longrightarrow> P (f x) = (Q x \<or> R x)" "\<And>x. x \<in> set xs \<Longrightarrow> \<not> (Q x \<and> R x)" for P :: "accumulator \<Rightarrow> bool" and f Q R and xs :: "nat list"
    using that by (induction xs) auto
  have nc: "?new c \<Longrightarrow> \<not> ac_complete (?as ! c)" for c by (simp add: detail_newly_complete_def Let_def)
  have "length (filter ac_complete ?bs) = length (filter (\<lambda>c. ac_complete (?as ! c)) [0..<length ?as]) + ?k"
    by (rule split) (use nc in auto)
  also have "length (filter (\<lambda>c. ac_complete (?as ! c)) [0..<length ?as]) = complete_columns tile"
    unfolding complete_columns_def by (subst map_nth [of ?as, symmetric], subst filter_map) (simp add: comp_def)
  finally have cc: "complete_columns ?t = complete_columns tile + ?k" by (simp add: complete_columns_def)
  moreover have "complete_columns ?t \<le> 64" using length_filter_le [of ac_complete ?bs] len by (simp add: complete_columns_def)
  ultimately have "unat (dt_complete_count tile + of_nat ?k) = complete_columns ?t"
    using assms by (simp add: tile_ok_def unat_word_ariths unat_of_nat)
  moreover have "complete_run ?bs f e" if "complete_run ?as f e" for f e using that by (auto simp: complete_run_def)
  ultimately have t: "tile_ok ?t" using assms len by (simp add: tile_ok_def)
  have r: "refresh_tile se tile = (if dt_occupied tile then apta_detail_select_or_extend_run ?t else tile)"
    by (simp add: refresh_tile_def Let_def)
  show "tile_ok (refresh_tile se tile)" "dt_occupied tile \<Longrightarrow> run_settled (refresh_tile se tile)"
    "dt_occupied (refresh_tile se tile) = dt_occupied tile" "dt_tile_index (refresh_tile se tile) = dt_tile_index tile"
    using select_or_extend_ok [OF t] assms by (simp_all add: r)
qed

section \<open>The cache\<close>

definition cache_ok :: "apta_session \<Rightarrow> bool" where
  "cache_ok se \<longleftrightarrow> (let ts = de_tiles (se_detail se)
     in length ts = 4 \<and> (\<forall>tile\<in>set ts. tile_ok tile) \<and>
        (\<forall>i<4. \<forall>j<4. i \<noteq> j \<and> dt_occupied (ts ! i) \<and> dt_occupied (ts ! j) \<longrightarrow>
           dt_tile_index (ts ! i) \<noteq> dt_tile_index (ts ! j)))"

lemma cache_cong: "se_detail se' = se_detail se \<Longrightarrow> cache_ok se' = cache_ok se"
  by (simp add: cache_ok_def)

lemma zero_tile_ok: "tile_ok zero_tile"
  by (simp add: tile_ok_def zero_tile_def complete_columns_def zero_accumulator_def DETAIL_COLUMNS_PER_TILE_def)

lemma initialize_tile_ok:
  "tile_ok (apta_detail_initialize_tile t serial)" "dt_occupied (apta_detail_initialize_tile t serial)"
  "dt_tile_index (apta_detail_initialize_tile t serial) = t"
  by (simp_all add: tile_ok_def apta_detail_initialize_tile_def zero_tile_def complete_columns_def zero_accumulator_def
      DETAIL_COLUMNS_PER_TILE_def)

lemma find_slot_Some: "find_slot ts t = Some i \<Longrightarrow> i < length ts \<and> dt_occupied (ts ! i) \<and> dt_tile_index (ts ! i) = t"
  by (auto simp: find_slot_def find_Some_iff)

lemma find_slot_None: "find_slot ts t = None \<Longrightarrow> i < length ts \<Longrightarrow> dt_occupied (ts ! i) \<Longrightarrow> dt_tile_index (ts ! i) \<noteq> t"
  by (auto simp: find_slot_def find_None_iff)

lemma oldest_slot_fold:
  "(case fold (\<lambda>i best. if P (ts ! i) \<and> (case best of None \<Rightarrow> True | Some b \<Rightarrow> dt_access_serial (ts ! i) < dt_access_serial (ts ! b))
              then Some i else best) [0..<n] None of
      None \<Rightarrow> \<forall>j<n. \<not> P (ts ! j)
    | Some i \<Rightarrow> i < n \<and> P (ts ! i) \<and> (\<forall>j<n. P (ts ! j) \<longrightarrow> dt_access_serial (ts ! i) \<le> dt_access_serial (ts ! j)))"
  by (induction n) (fastforce split: option.splits simp: less_Suc_eq)+

lemma oldest_slot_Some:
  "oldest_slot P ts = Some i \<Longrightarrow> i < length ts \<and> P (ts ! i) \<and>
     (\<forall>j<length ts. P (ts ! j) \<longrightarrow> dt_access_serial (ts ! i) \<le> dt_access_serial (ts ! j))"
  and oldest_slot_None: "oldest_slot P ts = None \<Longrightarrow> j < length ts \<Longrightarrow> \<not> P (ts ! j)"
  using oldest_slot_fold [where P = P and ts = ts and n = "length ts"] by (auto simp: oldest_slot_def split: option.splits)

text \<open>The slot given up: free, or the oldest unprotected one, or the oldest if all are protected and the new tile is too.\<close>

lemma victim_cases:
  assumes "victim_slot se t = Some i"
  defines "ts \<equiv> de_tiles (se_detail se)" and "protected \<equiv> apta_detail_tile_is_protected se"
  shows "i < length ts \<and>
    (dt_occupied (ts ! i) \<longrightarrow> (\<forall>j<length ts. dt_occupied (ts ! j)) \<and>
       (if protected (dt_tile_index (ts ! i)) then protected t \<and> (\<forall>j<length ts. protected (dt_tile_index (ts ! j)))
        else \<forall>j<length ts. \<not> protected (dt_tile_index (ts ! j)) \<longrightarrow> dt_access_serial (ts ! i) \<le> dt_access_serial (ts ! j)) \<and>
       (\<forall>j<length ts. (\<forall>k<length ts. protected (dt_tile_index (ts ! k))) \<longrightarrow> dt_access_serial (ts ! i) \<le> dt_access_serial (ts ! j)))"
proof (cases "find (\<lambda>i. \<not> dt_occupied (ts ! i)) [0..<length ts]")
  case (Some k)
  then have "i = k" using assms(1) unfolding victim_slot_def Let_def ts_def [symmetric] by simp
  then show ?thesis using Some by (auto simp: find_Some_iff)
next
  case None
  then have occ: "\<forall>j<length ts. dt_occupied (ts ! j)" by (auto simp: find_None_iff)
  show ?thesis
  proof (cases "oldest_slot (\<lambda>tile. dt_occupied tile \<and> \<not> protected (dt_tile_index tile)) ts")
    case (Some k)
    then have "i = k" using assms(1) None unfolding victim_slot_def Let_def ts_def [symmetric] protected_def [symmetric] by simp
    then show ?thesis using oldest_slot_Some [OF Some] occ by auto
  next
    case none: None
    then have i: "protected t" "oldest_slot dt_occupied ts = Some i"
      using assms(1) None unfolding victim_slot_def Let_def ts_def [symmetric] protected_def [symmetric] by (simp_all split: if_splits)
    have "protected (dt_tile_index (ts ! j))" if "j < length ts" for j
      using oldest_slot_None [OF none that] occ that by simp
    then show ?thesis using oldest_slot_Some [OF i(2)] i(1) occ by simp
  qed
qed

lemma with_tile_tiles [simp]: "de_tiles (se_detail (with_tile se i tile)) = (de_tiles (se_detail se))[i := tile]"
  by (simp add: with_tile_def)

lemma replace_tile_ok:
  assumes "cache_ok se" "de_tiles (se_detail se') = (de_tiles (se_detail se))[i := tile]" "tile_ok tile" "i < 4"
    and "\<And>j. j < 4 \<Longrightarrow> j \<noteq> i \<Longrightarrow> dt_occupied tile \<Longrightarrow> dt_occupied (de_tiles (se_detail se) ! j) \<Longrightarrow>
      dt_tile_index (de_tiles (se_detail se) ! j) \<noteq> dt_tile_index tile"
  shows "cache_ok se'"
proof -
  let ?ts = "de_tiles (se_detail se)"
  note ok = assms(1) [unfolded cache_ok_def Let_def]
  have nth: "?ts[i := tile] ! a = (if a = i then tile else ?ts ! a)" if "a < 4" for a using ok that by simp
  have "\<forall>t\<in>set (?ts[i := tile]). tile_ok t" using ok assms(3) set_update_subset_insert [of ?ts i tile] by blast
  moreover have "dt_tile_index (?ts[i := tile] ! a) \<noteq> dt_tile_index (?ts[i := tile] ! b)"
    if "a < 4" "b < 4" "a \<noteq> b" "dt_occupied (?ts[i := tile] ! a)" "dt_occupied (?ts[i := tile] ! b)" for a b
    using ok that assms(5) [of a] assms(5) [of b] by (simp add: nth split: if_split_asm)
  ultimately show ?thesis using ok by (simp add: cache_ok_def Let_def assms(2))
qed

lemma find_or_create_ok:
  assumes ok: "cache_ok se" and f: "apta_detail_find_or_create_tile se t = (out, se')"
  shows "cache_ok se' \<and>
    (case out of
       None \<Rightarrow> se' = se
     | Some i \<Rightarrow> i < 4 \<and> dt_occupied (de_tiles (se_detail se') ! i) \<and> dt_tile_index (de_tiles (se_detail se') ! i) = t)"
proof -
  let ?ts = "de_tiles (se_detail se)"
  have len: "length ?ts = 4" using ok by (simp add: cache_ok_def Let_def)
  have tiles: "tile_ok (?ts ! i)" if "i < 4" for i using ok len that by (simp add: cache_ok_def Let_def)
  show ?thesis
  proof (cases "find_slot ?ts t")
    case (Some i)
    then have i: "i < 4" "dt_occupied (?ts ! i)" "dt_tile_index (?ts ! i) = t" using find_slot_Some [OF Some] len by simp_all
    let ?tile = "(?ts ! i)\<lparr>dt_access_serial := de_access_serial (se_detail se) + 1\<rparr>"
    have r: "out = Some i" "de_tiles (se_detail se') = ?ts[i := ?tile]"
      using f Some by (auto simp: apta_detail_find_or_create_tile_def Let_def)
    have "tile_ok ?tile" using tiles [OF i(1)] by (simp add: tile_ok_def complete_columns_def)
    moreover have "dt_tile_index (?ts ! j) \<noteq> dt_tile_index ?tile" if "j < 4" "j \<noteq> i" "dt_occupied (?ts ! j)" for j
      using ok i that by (auto simp: cache_ok_def Let_def)
    ultimately have "cache_ok se'" using i(1) r(2) by (intro replace_tile_ok [OF ok]) auto
    then show ?thesis using r i len by simp
  next
    case None
    show ?thesis
    proof (cases "victim_slot se t")
      case none: None
      then show ?thesis using f None ok by (auto simp: apta_detail_find_or_create_tile_def Let_def)
    next
      case (Some i)
      let ?tile = "apta_detail_initialize_tile t (de_access_serial (se_detail se) + 1)"
      have i: "i < 4" using victim_cases [OF Some] len by simp
      have r: "out = Some i" "de_tiles (se_detail se') = ?ts[i := ?tile]"
        using f None Some by (auto simp: apta_detail_find_or_create_tile_def Let_def)
      have "cache_ok se'" using i r(2) find_slot_None [OF None] len
        by (intro replace_tile_ok [OF ok]) (auto simp: initialize_tile_ok)
      then show ?thesis using r i len by (simp add: initialize_tile_ok)
    qed
  qed
qed

section \<open>Samples and refreshes\<close>

lemma complete_columns_flags: "complete_columns tile = length (filter id (map ac_complete (dt_accumulators tile)))"
  by (simp add: complete_columns_def filter_map comp_def)

lemma sample_ok: "cache_ok se \<Longrightarrow> cache_ok (snd (apta_internal_detail_process_sample eg se block f))"
proof -
  assume ok: "cache_ok se"
  let ?t = "ucast (f div DETAIL_TILE_FRAMES) :: u32"
  obtain out se1 where r: "apta_detail_find_or_create_tile se ?t = (out, se1)" by fastforce
  note c = find_or_create_ok [OF ok r]
  show ?thesis
  proof (cases out)
    case None
    then show ?thesis using r c ok by (simp add: apta_internal_detail_process_sample_def Let_def)
  next
    case (Some i)
    let ?k = "unat ((f mod DETAIL_TILE_FRAMES) div DETAIL_FRAMES_PER_COLUMN)"
    let ?tile = "de_tiles (se_detail se1) ! i"
    let ?as = "(dt_accumulators ?tile)[?k := (dt_accumulators ?tile ! ?k)\<lparr>ac_sample_count := ac_sample_count (dt_accumulators ?tile ! ?k) + 1\<rparr>]"
    let ?new = "?tile\<lparr>dt_accumulators := ?as\<rparr>"
    have i: "i < 4" "cache_ok se1" using c Some by simp_all
    then have t: "tile_ok ?tile" by (simp add: cache_ok_def Let_def)
    have m: "map ac_complete ?as = map ac_complete (dt_accumulators ?tile)"
      by (simp add: map_update list_update_same_conv) (metis list_update_beyond list_update_id map_update not_less nth_map)
    have "dt_accumulators ?new = ?as" by simp
    then have "complete_columns ?new = complete_columns ?tile" unfolding complete_columns_flags using m by simp
    moreover have "ac_complete (?as ! j) = ac_complete (dt_accumulators ?tile ! j)" if "j < length (dt_accumulators ?tile)" for j
      using arg_cong [OF m, of "\<lambda>xs. xs ! j"] that by simp
    then have "complete_run ?as a b = complete_run (dt_accumulators ?tile) a b" for a b by (auto simp: complete_run_def)
    ultimately have "tile_ok ?new" using t by (simp add: tile_ok_def)
    moreover have "dt_tile_index (de_tiles (se_detail se1) ! j) \<noteq> dt_tile_index ?new"
      if "j < 4" "j \<noteq> i" "dt_occupied ?new" "dt_occupied (de_tiles (se_detail se1) ! j)" for j
      using i that by (simp add: cache_ok_def Let_def)
    ultimately have "cache_ok (with_tile se1 i ?new)" using i(1) by (intro replace_tile_ok [OF i(2)]) auto
    then show ?thesis using r Some ok
      by (simp add: apta_internal_detail_process_sample_def Let_def cache_ok_def)
  qed
qed

lemma refresh_ok: "cache_ok se \<Longrightarrow> cache_ok (apta_internal_detail_refresh_completed se)"
  by (auto simp: apta_internal_detail_refresh_completed_def cache_ok_def Let_def refresh_tile_ok)

lemma replay_samples_ok: "cache_ok se \<Longrightarrow> cache_ok (snd (replay_samples eg block fs se))"
proof (induction fs arbitrary: se)
  case (Cons f fs)
  then show ?case using sample_ok [OF Cons.prems, of eg block f] by (auto split: prod.split)
qed simp

lemma accept_replay_ok: "cache_ok se \<Longrightarrow> cache_ok (snd (snd (apta_internal_detail_accept_replay eg se block)))"
  using replay_samples_ok [of se eg block]
  by (auto simp: apta_internal_detail_accept_replay_def apta_internal_detail_accept_replay_base_def Let_def
      split: prod.splits option.splits intro!: refresh_ok) (metis snd_conv refresh_ok)+

lemma feed_samples_ok: "kernels_ok eg \<Longrightarrow> cache_ok se \<Longrightarrow> cache_ok (feed_samples eg block fs se)"
proof (induction fs arbitrary: se)
  case (Cons f fs)
  have k: "se_detail (snd (eg_s4_sample eg se f)) = se_detail se" "se_detail (snd (eg_s6_sample eg se f)) = se_detail se" for se
    using Cons.prems(1) by (auto simp: kernels_ok_def still_def)
  obtain s1 se1 where 1: "(if has_feature (se_config se) FEATURE_WAVEFORM_DETAIL
            then apta_internal_detail_process_sample eg se block f else (STATUS_OK, se)) = (s1, se1)" by fastforce
  then have ok1: "cache_ok se1" using sample_ok [OF Cons.prems(2), of eg block f] Cons.prems(2) by (auto split: if_splits)
  obtain s2 se2 where 2: "(if apta_s4_enabled se1 then eg_s4_sample eg se1 f else (STATUS_OK, se1)) = (s2, se2)" by fastforce
  then have ok2: "cache_ok se2" using ok1 k(1) [of se1] by (auto simp: cache_ok_def split: if_splits)
  obtain s3 se3 where 3: "(if apta_s6_enabled se2 then eg_s6_sample eg se2 f else (STATUS_OK, se2)) = (s3, se3)" by fastforce
  then have ok3: "cache_ok se3" using ok2 k(2) [of se2] by (auto simp: cache_ok_def split: if_splits)
  show ?case using ok1 ok2 ok3 Cons.IH [OF Cons.prems(1) ok3] by (simp add: 1 2 3)
qed simp

section \<open>The calls of a session\<close>

text \<open>What holds of the result of a call, if it has one.\<close>

definition returns :: "'a outcome \<Rightarrow> ('a \<Rightarrow> bool) \<Rightarrow> bool" where
  "returns m P \<longleftrightarrow> (\<forall>a. m = Ret a \<longrightarrow> P a)"

lemma returns_simps [simp]:
  "returns (Ret a) P = P a" "returns (Fail e) P" "returns Fault P"
  "returns (obind m f) P = returns m (\<lambda>a. returns (f a) P)"
  by (auto simp: returns_def obind_eq_Ret)

lemma returns_mono: "returns m P \<Longrightarrow> (\<And>a. P a \<Longrightarrow> Q a) \<Longrightarrow> returns m Q"
  by (simp add: returns_def)

text \<open>Publication and transitions leave the cache alone.\<close>

lemma publish_detail: "kernels_ok eg \<Longrightarrow> returns (apta_internal_publish_result eg se changed) (\<lambda>r. se_detail (snd r) = se_detail se)"
proof -
  assume "kernels_ok eg"
  then have k: "se_detail (snd (eg_publish_base eg se changed)) = se_detail se" by (simp add: kernels_ok_def still_def)
  then have "se_detail (snd (apta_internal_publish_result_base eg se changed)) = se_detail se"
    by (cases "eg_publish_base eg se changed") (simp add: apta_internal_publish_result_base_def pending_same)
  then show ?thesis by (auto simp: apta_internal_publish_result_def returns_def obind_eq_Ret with_results_def)
qed

lemma transition_detail: "kernels_ok eg \<Longrightarrow> returns (apta_internal_session_transition eg se n) (\<lambda>r. se_detail (snd r) = se_detail se)"
  using publish_detail [of eg "se\<lparr>se_state := n\<rparr>" 0]
  by (auto simp: apta_internal_session_transition_def Let_def elim!: returns_mono)

lemma prepare_detail:
  "se_detail (snd (apta_internal_s4_prepare eg se)) = se_detail se" "se_detail (snd (apta_internal_s6_prepare eg se)) = se_detail se"
  by (auto simp: apta_internal_s4_prepare_def apta_internal_s6_prepare_def with_memory_def Let_def split: prod.split option.split)

lemma accept_base_detail: "returns (accept_base eg se block) (\<lambda>r. se_detail (snd (snd r)) = se_detail se)"
  by (auto simp: accept_base_def Let_def returns_def obind_eq_Ret split: if_splits prod.splits)

lemma feed_accepted_ok: "kernels_ok eg \<Longrightarrow> cache_ok se \<Longrightarrow> cache_ok (feed_accepted eg se block n)"
  using feed_samples_ok [of eg se block] refresh_ok by (auto simp: feed_accepted_def Let_def)

lemma accept_pcm_ok:
  assumes eg: "kernels_ok eg" and ok: "cache_ok se"
  shows "returns (apta_internal_waveform_accept_pcm eg se block) (\<lambda>r. cache_ok (snd (snd r)))"
proof -
  obtain s1 se1 where 1: "(if apta_s4_enabled se then apta_internal_s4_prepare eg se else (STATUS_OK, se)) = (s1, se1)" by fastforce
  then have d1: "se_detail se1 = se_detail se" using prepare_detail(1) [of eg se] by (auto split: if_splits)
  obtain s2 se2 where 2: "(if apta_s6_enabled se1 then apta_internal_s6_prepare eg se1 else (STATUS_OK, se1)) = (s2, se2)" by fastforce
  then have d2: "se_detail se2 = se_detail se" using prepare_detail(2) [of eg se1] d1 by (auto split: if_splits)
  have ok1: "cache_ok se1" "cache_ok se2" using ok d1 d2 by (simp_all add: cache_ok_def)
  have "returns (accept_base eg se2 block) (\<lambda>(s, n, se3). cache_ok se3)"
    using accept_base_detail [of eg se2 block] ok1(2) by (auto simp: cache_ok_def elim!: returns_mono)
  then show ?thesis
    using ok ok1 accept_replay_ok [of _ eg block] feed_accepted_ok [OF eg]
    by (auto simp: apta_internal_waveform_accept_pcm_def Let_def 1 2 elim!: returns_mono split: prod.split)
      (metis snd_conv)+
qed

text \<open>The layers of the processing call.\<close>

lemma grow_bands_detail: "se_detail (snd (apta_internal_waveform_grow_band_sums eg se c)) = se_detail se"
  by (auto simp: apta_internal_waveform_grow_band_sums_def with_memory_def split: prod.split option.split)

lemma replace_detail: "se_detail (snd (replace_accumulators eg se c r w)) = se_detail se"
proof -
  obtain p sm where r: "r = (p, sm)" by fastforce
  show ?thesis
  proof (cases p)
    case (Some q)
    obtain s se1 where 1: "apta_internal_waveform_grow_band_sums eg
        (with_memory (se\<lparr>se_overview := (se_overview se)\<lparr>ov_memory := Some (q, w)\<rparr>\<rparr>)
           (free_block sm (ov_memory (se_overview se)))) c = (s, se1)" by fastforce
    then have "se_detail se1 = se_detail se"
      using grow_bands_detail [of eg "with_memory (se\<lparr>se_overview := (se_overview se)\<lparr>ov_memory := Some (q, w)\<rparr>\<rparr>)
           (free_block sm (ov_memory (se_overview se)))" c] by (simp add: with_memory_def)
    then show ?thesis unfolding replace_accumulators_def r Some prod.case option.case 1 by simp
  qed (simp add: replace_accumulators_def r with_memory_def)
qed

lemma ensure_detail: "se_detail (snd (apta_ensure_accumulator_capacity eg se n)) = se_detail se"
  by (auto simp: apta_ensure_accumulator_capacity_def replace_detail split: option.split)

lemma find_or_insert_detail: "returns (apta_find_or_insert_accumulator eg se c) (\<lambda>r. se_detail (snd (snd r)) = se_detail se)"
proof -
  obtain s se1 where 1: "apta_ensure_accumulator_capacity eg se (of_nat (length (ov_accumulators (se_overview se))) + 1) = (s, se1)"
    by fastforce
  then have "se_detail se1 = se_detail se" using ensure_detail [of eg se] by (metis snd_conv)
  then show ?thesis by (simp add: apta_find_or_insert_accumulator_def Let_def 1 with_accumulators_def)
qed

lemma samples_detail: "returns (apta_process_samples eg node offsets se) (\<lambda>r. se_detail (snd r) = se_detail se)"
proof (induction offsets arbitrary: se)
  case (Cons f fs)
  have step: "returns (obind (apta_find_or_insert_accumulator eg se c) (\<lambda>(s, p, se1).
       if failed s then Ret (s, se1)
       else apta_process_samples eg node fs ((with_accumulators se1 (as se1 p))\<lparr>se_signal := x se1 p\<rparr>)))
     (\<lambda>r. se_detail (snd r) = se_detail se)" for c as x
  proof (cases "apta_find_or_insert_accumulator eg se c")
    case (Ret r)
    obtain s p se1 where r: "r = (s, p, se1)" by (cases r)
    have d: "se_detail se1 = se_detail se" using find_or_insert_detail [of eg se c] Ret r by (simp add: returns_def)
    have "returns (apta_process_samples eg node fs ((with_accumulators se1 (as se1 p))\<lparr>se_signal := x se1 p\<rparr>))
       (\<lambda>r. se_detail (snd r) = se_detail se)"
      using Cons.IH [of "(with_accumulators se1 (as se1 p))\<lparr>se_signal := x se1 p\<rparr>"] d by (simp add: with_accumulators_def)
    then show ?thesis using Ret r d by simp
  qed simp_all
  show ?case unfolding apta_process_samples.simps Let_def
    by (simp del: returns_simps(4) add: step)
qed simp

lemma finish_detail: "se_detail (finish_chunk se i k) = se_detail se"
  by (simp add: finish_chunk_def Let_def apta_remove_pcm_node_def apta_refresh_completed_columns_def advance_node_def with_queue_def)

lemma deadline_detail: "se_detail (snd (deadline_passed eg se)) = se_detail se"
  by (auto simp: deadline_passed_def read_clock_def split: option.split)

lemma loop_detail: "returns (process_loop eg fl sl c st did se) (\<lambda>(s, c', st', did', se'). se_detail se' = se_detail se)"
proof (induction eg fl sl c st did se rule: process_loop.induct)
  case (1 eg fl sl c st did se)
  show ?case
  proof (cases "next_chunk fl sl c st se")
    case None
    then show ?thesis by (simp add: process_loop.simps)
  next
    case (Some q)
    obtain i k where q: "q = (i, k)" by fastforce
    show ?thesis
    proof (cases "apta_process_samples eg (queue se ! i) [0..<unat k] se")
      case (Ret r)
      obtain s se1 where r: "r = (s, se1)" by fastforce
      have d1: "se_detail se1 = se_detail se" using samples_detail [of eg "queue se ! i" "[0..<unat k]" se] Ret r by (simp add: returns_def)
      obtain passed se2 where d: "deadline_passed eg (finish_chunk se1 i k) = (passed, se2)" by fastforce
      then have d2: "se_detail se2 = se_detail se" using deadline_detail [of eg "finish_chunk se1 i k"] d1 by (simp add: finish_detail)
      show ?thesis
      proof (cases "failed s \<or> passed")
        case True
        then show ?thesis using Some q Ret r d d1 d2 by (subst process_loop.simps) auto
      next
        case False
        have "returns (process_loop eg fl sl (c + k) (st + 1) True se2) (\<lambda>(s, c', st', did', se'). se_detail se' = se_detail se2)"
          by (rule 1 [OF Some q [symmetric] Ret r [symmetric] _ d [symmetric]]) (use False in simp_all)
        then show ?thesis using Some q Ret r d d2 False by (subst process_loop.simps) simp
      qed
    next
      case (Fail e)
      then show ?thesis using Some q by (subst process_loop.simps) simp
    next
      case Fault
      then show ?thesis using Some q by (subst process_loop.simps) simp
    qed
  qed
qed

lemma process_base_detail:
  assumes eg: "kernels_ok eg"
  shows "returns (apta_internal_waveform_process_base eg se budget pg) (\<lambda>(s, d, p, pg', se'). se_detail se' = se_detail se)"
proof -
  have l: "returns (process_loop eg fl sl 0 0 False (apta_refresh_completed_columns se)) (\<lambda>(s, c, st, did, se'). se_detail se' = se_detail se)" for fl sl
    using loop_detail [of eg fl sl 0 0 False "apta_refresh_completed_columns se"] by (simp add: apta_refresh_completed_columns_def Let_def)
  show ?thesis unfolding apta_internal_waveform_process_base_def Let_def returns_simps
    by (rule returns_mono [OF l])
      (auto simp: apta_update_request_states_def split: prod.split intro!: returns_mono [OF publish_detail [OF eg]])
qed


lemma base_ok:
  "kernels_ok eg \<Longrightarrow> cache_ok se \<Longrightarrow>
   returns (apta_internal_waveform_process_base eg se budget pg) (\<lambda>(s, d, p, pg', se'). cache_ok se')"
  by (rule returns_mono [OF process_base_detail]) (auto simp: cache_ok_def)

lemma reserve_detail: "returns (apta_process_workspace_reserve_accumulators eg se) (\<lambda>r. se_detail (snd r) = se_detail se)"
  using replace_detail [of eg se]
  by (auto simp: apta_process_workspace_reserve_accumulators_def reserve_columns_def Let_def split: outcome.split option.split)

lemma publish_layer_ok:
  assumes eg: "kernels_ok eg" and ok: "cache_ok se"
    and mark: "\<And>x. de_tiles (se_detail (mark_published x)) = de_tiles (se_detail x)"
  shows "returns (publish_layer eg se features always mark_published s did p pg) (\<lambda>(s, d, p, pg', se'). cache_ok se')"
proof -
  have "returns (if p \<and> \<not> always then Ret (STATUS_OK, se) else apta_internal_publish_result eg se features)
      (\<lambda>r. se_detail (snd r) = se_detail se)"
    using publish_detail [OF eg, of se features] by simp
  then have "returns (if p \<and> \<not> always then Ret (STATUS_OK, se) else apta_internal_publish_result eg se features)
      (\<lambda>r. cache_ok (snd r))"
    by (rule returns_mono) (use ok in \<open>simp add: cache_ok_def\<close>)
  then show ?thesis unfolding publish_layer_def returns_simps
    by (rule returns_mono) (simp add: Let_def case_prod_beta cache_ok_def mark)
qed

lemma analysis_layer_ok:
  assumes eg: "kernels_ok eg" and ok: "cache_ok se"
    and refresh: "\<And>x n. se_detail (snd (snd (refresh x n))) = se_detail x"
    and follow: "\<And>x. se_detail (follow x) = se_detail x" "\<And>x. se_detail (mark_published x) = se_detail x"
  shows "returns (analysis_layer eg refresh follow features mark_published n s did p pg se) (\<lambda>(s, d, p, pg', se'). cache_ok se')"
proof -
  obtain passed se1 where 1: "deadline_passed eg se = (passed, se1)" by fastforce
  obtain rs k se2 where 2: "refresh se1 (if passed then 0 else n) = (rs, k, se2)" by (metis prod_cases3)
  have "se_detail se2 = se_detail se"
    using deadline_detail [of eg se] refresh [of se1 "if passed then 0 else n"] by (simp add: 1 2)
  then have "cache_ok se2" "cache_ok (follow se2)" using ok by (simp_all add: cache_ok_def follow(1))
  then show ?thesis using publish_layer_ok [OF eg, of "follow se2" mark_published] follow(2)
    by (simp add: analysis_layer_def 1 2 Let_def)
qed

lemma detail_marks [simp]:
  "se_detail (restore_requests a se) = se_detail se" "se_detail (restore_masks a se) = se_detail se"
  "se_detail (lift_detail se) = se_detail se" "se_detail (lift_masks f se) = se_detail se"
  "se_detail (apta_internal_scheduler_note_choice se k) = se_detail se"
  "se_detail (apta_internal_detail_update_request_states se) = se_detail se"
  "de_tiles (se_detail (mark_detail_published se)) = de_tiles (se_detail se)"
  "se_detail (snd (apta_process_sort_pcm_queue se)) = se_detail se"
  "se_detail (bump_moved_range old se) = se_detail se"
  "se_detail (apta_internal_s4_mark_published se) = se_detail se"
  "se_detail (apta_internal_s6_mark_published se) = se_detail se"
  by (simp_all add: restore_requests_def restore_masks_def lift_detail_def lift_masks_def apta_internal_scheduler_note_choice_def
      apta_internal_detail_update_request_states_def mark_detail_published_def sort_queue_eq with_queue_def bump_moved_range_def
      apta_internal_s4_mark_published_def apta_internal_s6_mark_published_def)

lemma cache_marks [simp]:
  "cache_ok (restore_requests a se) = cache_ok se" "cache_ok (restore_masks a se) = cache_ok se"
  "cache_ok (lift_detail se) = cache_ok se" "cache_ok (lift_masks f se) = cache_ok se"
  "cache_ok (apta_internal_scheduler_note_choice se k) = cache_ok se"
  "cache_ok (apta_internal_detail_update_request_states se) = cache_ok se"
  by (simp_all add: cache_ok_def)

lemma s4_base_ok:
  assumes eg: "kernels_ok eg" and ok: "cache_ok se"
  shows "returns (apta_internal_waveform_process_s4_base eg se budget pg) (\<lambda>(s, d, p, pg', se'). cache_ok se')"
proof -
  let ?se0 = "apta_internal_detail_refresh_completed se"
  obtain k se1 where 1: "apta_process_sort_pcm_queue (lift_detail ?se0) = (k, se1)" by fastforce
  have "se_detail se1 = se_detail ?se0" using detail_marks(8) [of "lift_detail ?se0"] unfolding 1 by simp
  then have ok1: "cache_ok se1" using refresh_ok [OF ok] by (simp add: cache_ok_def)
  have r: "returns (apta_process_workspace_reserve_accumulators eg se1) (\<lambda>r. cache_ok (snd r))"
    by (rule returns_mono [OF reserve_detail]) (use ok1 in \<open>simp add: cache_ok_def\<close>)
  have "returns (apta_internal_waveform_process_base eg (se2\<lparr>se_requests := map stage_priority (se_requests se2)\<rparr>) budget pg)
      (\<lambda>(s, d, p, pg', se'). cache_ok se')" if "cache_ok se2" for se2
    by (rule base_ok [OF eg]) (use that in \<open>simp add: cache_ok_def\<close>)
  note base = this
  have after: "returns
      (let se4 = restore_requests ?se0 se3
       in if failed s then Ret (s, d, p, pg', se4)
          else
            let se5 = (if d then apta_internal_scheduler_note_choice se4 k else se4);
                se6 = apta_internal_detail_update_request_states se5
            in if has_feature (se_config se6) FEATURE_WAVEFORM_DETAIL \<and> (c \<or> detail_pending se6)
               then publish_layer eg se6 FEATURE_WAVEFORM_DETAIL False mark_detail_published s d p pg'
               else Ret (s, d, p, pg', se6)) (\<lambda>(s, d, p, pg', se'). cache_ok se')"
    if "cache_ok se3" for s d p pg' se3 c
  proof -
    define se5 where "se5 = (if d then apta_internal_scheduler_note_choice (restore_requests ?se0 se3) k else restore_requests ?se0 se3)"
    define se6 where "se6 = apta_internal_detail_update_request_states se5"
    have "cache_ok se6" using that by (simp add: se5_def se6_def)
    then show ?thesis using that publish_layer_ok [where mark_published = mark_detail_published, OF eg]
      by (simp add: Let_def se5_def [symmetric] se6_def [symmetric])
  qed
  show ?thesis unfolding apta_internal_waveform_process_s4_base_def Let_def [of ?se0] Let_def [of "detail_pending ?se0"] 1 prod.case returns_simps
  proof (rule returns_mono [OF r], goal_cases)
    case (1 a)
    note a = this
    obtain s se2 where a2: "a = (s, se2)" by fastforce
    show ?case
    proof (cases "failed s")
      case True
      then show ?thesis using a a2 by simp
    next
      case False
      have "cache_ok se2" using a a2 by simp
      from returns_mono [OF base [OF this]] show ?thesis unfolding a2 prod.case returns_simps if_False
        using False after by (simp add: case_prod_beta)
    qed
  qed
qed

lemma process_ok:
  assumes eg: "kernels_ok eg" and ok: "cache_ok se"
  shows "returns (apta_internal_waveform_process eg se budget pg) (\<lambda>(s, d, p, pg', se'). cache_ok se')"
proof -
  have k: "se_detail (snd (snd (eg_s4_refresh eg x n))) = se_detail x" "se_detail (snd (snd (eg_s6_refresh eg x n))) = se_detail x" for x n
    using eg by (simp_all add: kernels_ok_def still_def)
  have "returns (apta_internal_waveform_process_s4_base eg (lift_masks S4_FEATURES se) budget pg) (\<lambda>(s, d, p, pg', se'). cache_ok se')"
    by (rule s4_base_ok [OF eg]) (simp add: ok)
  then have t: "returns (apta_internal_waveform_process_s6_base eg se budget pg) (\<lambda>(s, d, p, pg', se'). cache_ok se')"
    unfolding apta_internal_waveform_process_s6_base_def returns_simps
    by (rule returns_mono) (auto simp: Let_def intro!: analysis_layer_ok eg k)
  then show ?thesis unfolding apta_internal_waveform_process_def returns_simps
    by (rule returns_mono) (auto intro!: analysis_layer_ok eg k)
qed

section \<open>A session\<close>

lemma cache_fields [simp]:
  "cache_ok (se\<lparr>se_releases := k\<rparr>) = cache_ok se" "cache_ok (se\<lparr>se_reads := k\<rparr>) = cache_ok se"
  "cache_ok (se\<lparr>se_process_lock := b\<rparr>) = cache_ok se" "cache_ok (se\<lparr>se_requests := rs\<rparr>) = cache_ok se"
  by (simp_all add: cache_ok_def)

lemma transition_ok:
  "kernels_ok eg \<Longrightarrow> cache_ok se \<Longrightarrow> returns (apta_internal_session_transition eg se n) (\<lambda>(s, se'). cache_ok se')"
  by (rule returns_mono [OF transition_detail]) (auto simp: cache_ok_def)

lemma activate_ok:
  assumes "kernels_ok eg" "cache_ok se"
  shows "returns (if c then apta_internal_session_transition eg se n else Ret (s, se)) (\<lambda>(s, se'). cache_ok se')"
  using transition_ok [OF assms] assms by simp

lemma accept_ok:
  "kernels_ok eg \<Longrightarrow> cache_ok se \<Longrightarrow> returns (apta_internal_waveform_accept_pcm eg se block) (\<lambda>(s, n, se'). cache_ok se')"
  by (rule returns_mono [OF accept_pcm_ok]) auto

lemma push_ok:
  assumes "kernels_ok eg" "cache_ok se"
  shows "returns (apta_session_push_pcm eg se block) (\<lambda>(s, n, se'). cache_ok se')"
proof -
  have "returns (obind (if c then apta_internal_session_transition eg se SESSION_ACTIVE else Ret (STATUS_OK, se)) (\<lambda>(status, se1).
             if failed status then Ret (status, 0, se1)
             else if has_feature (se_config se1) FEATURE_WAVEFORM_OVERVIEW then apta_internal_waveform_accept_pcm eg se1 block
             else Ret (STATUS_OK, pb_frame_count block, se1))) (\<lambda>(s, n, se'). cache_ok se')" for c
    unfolding returns_simps
    by (rule returns_mono [OF activate_ok [OF assms]]) (auto intro!: accept_ok assms(1))
  then show ?thesis unfolding apta_session_push_pcm_def Let_def
    by (simp del: returns_simps(4) add: assms(2))
qed

lemma end_of_input_ok:
  assumes "kernels_ok eg" "cache_ok se"
  shows "returns (apta_internal_session_signal_end_of_input eg se f) (\<lambda>(s, se'). cache_ok se')"
proof -
  have t: "returns (apta_internal_session_transition eg x SESSION_DRAINING) (\<lambda>(s, se'). cache_ok se')"
    if "cache_ok y" "se_detail x = se_detail y" for x y
    by (rule transition_ok [OF assms(1)]) (use that in \<open>simp add: cache_ok_def\<close>)
  have "returns (obind (if c then apta_internal_session_transition eg se SESSION_ACTIVE else Ret (STATUS_OK, se)) (\<lambda>(status, se1).
        if failed status then Ret (status, se1)
        else
          let old_total = sc_total_frames (se_config se1); old_final = se_final_end_frame se1;
              old_signalled = se_end_of_input_signalled se1;
              se2 = se1\<lparr>se_config := (se_config se1)\<lparr>sc_total_frames := f\<rparr>,
                        se_final_end_frame := f, se_end_of_input_signalled := True\<rparr>
          in
          obind (apta_internal_session_transition eg se2 SESSION_DRAINING) (\<lambda>(status, se3).
          Ret (status,
               if failed status
               then se3\<lparr>se_config := (se_config se3)\<lparr>sc_total_frames := old_total\<rparr>,
                        se_final_end_frame := old_final, se_end_of_input_signalled := old_signalled\<rparr>
               else se3)))) (\<lambda>(s, se'). cache_ok se')" for c
    unfolding returns_simps
    by (rule returns_mono [OF activate_ok [OF assms]])
      (auto simp: Let_def cache_ok_def intro!: returns_mono [OF t] split: prod.split)
  then show ?thesis unfolding apta_internal_session_signal_end_of_input_def
    by (simp del: returns_simps(4) add: assms(2))
qed

lemma clock_detail: "se_detail (snd (process_deadline eg se budget)) = se_detail se"
  by (auto simp: process_deadline_def read_clock_def Let_def split: option.split prod.split)

lemma unlock_ok [simp]: "cache_ok (unlock se) = cache_ok se"
  by (simp add: cache_ok_def unlock_def)

lemma locked_ok:
  assumes eg: "kernels_ok eg" and ok: "cache_ok se"
  shows "returns (process_locked eg se budget) (\<lambda>(s, p, se'). cache_ok se')"
proof -
  have c: "returns (obind (apta_internal_session_transition eg x n) (\<lambda>(status, se1). Ret (f status se1, g status se1, unlock se1)))
      (\<lambda>(s, p, se'). cache_ok se')" if "cache_ok x" for x n f g
    unfolding returns_simps by (rule returns_mono [OF transition_ok [OF eg that]]) auto
  let ?pg = "cleared_progress (se_generation se)"
  have w: "returns (if has_feature (se_config se) FEATURE_WAVEFORM_OVERVIEW then apta_internal_waveform_process eg se budget ?pg
               else Ret (STATUS_WOULD_BLOCK, False, False, ?pg, se)) (\<lambda>(s, d, p, pg', se'). cache_ok se')"
    using process_ok [OF eg ok] ok by simp
  have "returns (obind (if has_feature (se_config se) FEATURE_WAVEFORM_OVERVIEW then apta_internal_waveform_process eg se budget ?pg
               else Ret (STATUS_WOULD_BLOCK, False, False, ?pg, se)) (\<lambda>(work_status, did_work, published_output, pg1, se1).
        if failed work_status then Ret (work_status, pg1, unlock se1)
        else if se_state se1 = SESSION_DRAINING \<and> in_queue (se_intake se1) = [] \<and> \<not> apta_internal_analysis_pending se1
        then
          obind (apta_internal_session_transition eg se1 SESSION_COMPLETED) (\<lambda>(status, se2).
          Ret (if failed status then status else STATUS_END_OF_INPUT,
               if failed status then pg1 else pg1\<lparr>pg_published_generation := se_generation se2\<rparr>, unlock se2))
        else
          Ret (if did_work \<or> published_output then work_status
               else if work_status = STATUS_MORE_WORK then STATUS_MORE_WORK else STATUS_WOULD_BLOCK,
               pg1, unlock se1))) (\<lambda>(s, p, se'). cache_ok se')"
    unfolding returns_simps(4) [of "if has_feature (se_config se) FEATURE_WAVEFORM_OVERVIEW then _ else _"]
    by (rule returns_mono [OF w]) (auto simp del: returns_simps(4) intro!: c)
  then show ?thesis unfolding process_locked_def Let_def
    by (simp del: returns_simps(4) add: c ok)
qed

lemma impl_ok:
  assumes eg: "kernels_ok eg" and ok: "cache_ok se"
  shows "returns (apta_session_process_impl eg se budget progress held) (\<lambda>(s, g, se'). cache_ok se')"
proof -
  obtain d se1 where 1: "process_deadline eg (se\<lparr>se_process_lock := True\<rparr>) budget = (d, se1)" by fastforce
  have "se_detail se1 = se_detail se" using clock_detail [of eg "se\<lparr>se_process_lock := True\<rparr>" budget] by (simp add: 1)
  then have "cache_ok (se1\<lparr>se_process_deadline_ns := d\<rparr>)" using ok by (simp add: cache_ok_def)
  from returns_mono [OF locked_ok [OF eg this]] show ?thesis
    using ok by (auto simp: apta_session_process_impl_def Let_def 1 split: prod.split)
qed

lemma failure_ok:
  "kernels_ok eg \<Longrightarrow> cache_ok se \<Longrightarrow> returns (no_frames (apta_pull_source_failure eg se)) (\<lambda>(s, n, se'). cache_ok se')"
  unfolding no_frames_def apta_pull_source_failure_def returns_simps
  by (rule returns_mono [OF transition_ok]) auto

lemma pull_accept_ok:
  assumes "kernels_ok eg" "cache_ok se"
  shows "returns (pull_accept eg se demand n block) (\<lambda>(s, k, se'). cache_ok se')"
  unfolding pull_accept_def Let_def returns_simps
  by (rule returns_mono [OF activate_ok [OF assms]]) (auto intro!: accept_ok assms(1))

lemma after_read_ok:
  assumes eg: "kernels_ok eg" and ok: "cache_ok se"
  shows "returns (after_read eg se demand n r) (\<lambda>(s, k, se'). cache_ok se')"
proof -
  have e: "returns (no_frames (apta_internal_session_signal_end_of_input eg se f)) (\<lambda>(s, n, se'). cache_ok se')" for f
    unfolding no_frames_def returns_simps by (rule returns_mono [OF end_of_input_ok [OF assms]]) auto
  have f: "returns (no_frames (apta_pull_source_failure eg (x\<lparr>se_releases := k\<rparr>))) (\<lambda>(s, n, se'). cache_ok se')" if "cache_ok x" for x k
    by (rule failure_ok [OF eg]) (use that in \<open>simp add: cache_ok_def\<close>)
  have a: "returns (obind (pull_accept eg se demand n block) (\<lambda>(accept_status, accepted, se3).
          let se4 = se3\<lparr>se_releases := Suc (se_releases se3)\<rparr>
          in if failed accept_status
             then (if accept_status = ERROR_RESULT_SLOTS_EXHAUSTED \<or> accept_status = ERROR_OUT_OF_MEMORY \<or>
                      accept_status = ERROR_LIMIT_EXCEEDED
                   then Ret (accept_status, 0, se4)
                   else no_frames (apta_pull_source_failure eg se4))
             else Ret (STATUS_OK, accepted, se4))) (\<lambda>(s, k, se'). cache_ok se')" for block
    unfolding returns_simps(4) [of "pull_accept eg se demand n block"]
    by (rule returns_mono [OF pull_accept_ok [OF assms]])
      (auto simp: Let_def intro!: f)
  obtain rs block where r: "r = (rs, block)" by fastforce
  show ?thesis unfolding after_read_def r prod.case
    by (simp del: returns_simps(4) add: ok e a failure_ok [OF eg ok])
qed


lemma pull_ok:
  assumes eg: "kernels_ok eg" and ok: "cache_ok se"
  shows "returns (apta_internal_pull_pcm_before_process eg rd se budget) (\<lambda>(s, k, se'). cache_ok se')"
proof -
  obtain s out se1 where 1: "apta_internal_waveform_next_pcm_request se = (s, out, se1)" by (metis prod_cases3)
  have "se_detail se1 = se_detail se"
    using 1 by (auto simp: apta_internal_waveform_next_pcm_request_def Let_def split: prod.splits if_splits)
  then have ok1: "cache_ok se1" using ok by (simp add: cache_ok_def)
  have e: "returns (no_frames (apta_internal_session_signal_end_of_input eg se1 f)) (\<lambda>(s, n, se'). cache_ok se')" for f
    unfolding no_frames_def returns_simps by (rule returns_mono [OF end_of_input_ok [OF eg ok1]]) auto
  have a: "returns (after_read eg (se1\<lparr>se_reads := k\<rparr>) q n r) (\<lambda>(s, k, se'). cache_ok se')" for k q n r
    by (rule after_read_ok [OF eg]) (simp add: ok1)
  show ?thesis unfolding apta_internal_pull_pcm_before_process_def 1 prod.case Let_def
    by (cases out) (simp_all del: returns_simps(4) add: ok ok1 e a failure_ok [OF eg ok1])
qed

lemma session_process_ok:
  assumes eg: "kernels_ok eg" and ok: "cache_ok se"
  shows "returns (apta_session_process eg rd se budget progress) (\<lambda>(s, g, se'). cache_ok se')"
proof -
  have ok1: "cache_ok (se\<lparr>se_process_lock := True\<rparr>)" using ok by simp
  have p: "returns (obind (apta_internal_pull_pcm_before_process eg rd (se\<lparr>se_process_lock := True\<rparr>) budget)
             (\<lambda>(pull_status, pulled_frames, se1).
           if failed pull_status then Ret (pull_status, None, se1\<lparr>se_process_lock := False\<rparr>)
           else apta_session_process_impl eg se1 budget progress True)) (\<lambda>(s, g, se'). cache_ok se')"
    unfolding returns_simps by (rule returns_mono [OF pull_ok [OF eg ok1]]) (auto intro!: impl_ok eg)
  show ?thesis unfolding apta_session_process_def apta_session_process_activation_base_def Let_def
    by (simp del: returns_simps(4) add: p ok impl_ok [OF eg ok])
qed

lemma step_ok:
  assumes eg: "kernels_ok eg" and ok: "cache_ok se"
  shows "returns (session_step eg se opn) cache_ok"
proof (cases opn)
  case (Push block)
  then show ?thesis by (auto intro!: returns_mono [OF push_ok [OF assms]])
next
  case (End_of_input f)
  then show ?thesis using ok
    by (auto simp: apta_session_signal_end_of_input_def intro!: returns_mono [OF end_of_input_ok [OF assms]])
next
  case (Set_source src)
  then show ?thesis using ok by (simp add: apta_session_set_source_def Let_def cache_ok_def)
next
  case Request_cancel
  then show ?thesis using ok by (simp add: apta_session_request_cancel_def cache_ok_def)
next
  case (Process rd budget progress)
  then show ?thesis by (auto intro!: returns_mono [OF session_process_ok [OF assms]])
next
  case (Request_region req)
  obtain n m rs where "snd (snd (apta_session_request_region_base (eg_sizes eg) se req)) =
      se\<lparr>se_next_request_id := n, se_next_enqueue_serial := m, se_requests := rs\<rparr>" using request_region_fields by blast
  then have "cache_ok (snd (snd (apta_session_request_region_base (eg_sizes eg) se req)))" using ok by (simp add: cache_ok_def)
  then show ?thesis using Request_region ok by (simp add: apta_session_request_region_def)
next
  case (Cancel_region i)
  obtain rs where "snd (apta_session_cancel_region_request se i) = se\<lparr>se_requests := rs\<rparr>" using cancel_region_fields by blast
  then show ?thesis using Cancel_region ok by simp
next
  case (Set_focus fo)
  then show ?thesis using ok by (simp add: apta_session_set_focus_def apta_session_set_focus_base_def cache_ok_def)
next
  case (Next_pcm_request sz v)
  obtain s out se' where n: "apta_session_next_pcm_request (eg_sizes eg) se sz v = (s, out, se')" by (metis prod_cases3)
  then obtain rs where "se' = se\<lparr>se_requests := rs\<rparr>" using next_request_step_fields [OF n] by blast
  then show ?thesis using Next_pcm_request n ok by simp
qed

lemma run_ok: "kernels_ok eg \<Longrightarrow> cache_ok se \<Longrightarrow> returns (session_run eg se ops) cache_ok"
proof (induction ops arbitrary: se)
  case (Cons opn ops)
  show ?case unfolding session_run.simps returns_simps
    by (rule returns_mono [OF step_ok [OF Cons.prems]]) (rule Cons.IH [OF Cons.prems(1)])
qed simp


lemma no_victim:
  assumes "victim_slot se t = None"
  defines "ts \<equiv> de_tiles (se_detail se)"
  shows "\<not> apta_detail_tile_is_protected se t \<or> ts = []"
    "\<forall>j<length ts. dt_occupied (ts ! j) \<and> apta_detail_tile_is_protected se (dt_tile_index (ts ! j))"
proof -
  let ?p = "apta_detail_tile_is_protected se"
  have f: "find (\<lambda>i. \<not> dt_occupied (ts ! i)) [0..<length ts] = None"
    using assms(1) unfolding victim_slot_def Let_def ts_def [symmetric] by (simp split: option.splits)
  then have occ: "\<forall>j<length ts. dt_occupied (ts ! j)" by (auto simp: find_None_iff)
  have o: "oldest_slot (\<lambda>tile. dt_occupied tile \<and> \<not> ?p (dt_tile_index tile)) ts = None"
    using assms(1) f unfolding victim_slot_def Let_def ts_def [symmetric] by (simp split: option.splits)
  show "\<forall>j<length ts. dt_occupied (ts ! j) \<and> ?p (dt_tile_index (ts ! j))" using oldest_slot_None [OF o] occ by blast
  have "\<not> ?p t \<or> oldest_slot dt_occupied ts = None"
    using assms(1) f o unfolding victim_slot_def Let_def ts_def [symmetric] by (simp split: if_splits)
  then show "\<not> ?p t \<or> ts = []" using oldest_slot_None [where P = dt_occupied and ts = ts and j = 0] occ by auto
qed

lemma cache_facts:
  assumes "cache_ok se"
  shows "length (de_tiles (se_detail se)) = 4"
    "\<forall>tile\<in>set (de_tiles (se_detail se)). length (dt_accumulators tile) = 64 \<and>
       unat (dt_complete_count tile) = length (filter ac_complete (dt_accumulators tile)) \<and>
       (dt_run_valid tile \<longrightarrow> complete_run (dt_accumulators tile)
          (unat (dt_run_first tile)) (unat (dt_run_first tile) + unat (dt_run_count tile)))"
    "\<forall>i<4. \<forall>j<4. dt_occupied (de_tiles (se_detail se) ! i) \<and> dt_occupied (de_tiles (se_detail se) ! j) \<and>
       dt_tile_index (de_tiles (se_detail se) ! i) = dt_tile_index (de_tiles (se_detail se) ! j) \<longrightarrow> i = j"
  using assms by (auto simp: cache_ok_def Let_def tile_ok_def complete_columns_def)

lemma refreshed_settled:
  assumes "cache_ok se" "has_feature (se_config se) FEATURE_WAVEFORM_DETAIL"
    "tile \<in> set (de_tiles (se_detail (apta_internal_detail_refresh_completed se)))" "dt_occupied tile"
  shows "run_settled tile"
  using assms refresh_tile_ok(2,3)
  by (auto simp: apta_internal_detail_refresh_completed_def cache_ok_def Let_def)

lemma blank_cache: "blank config se \<Longrightarrow> cache_ok se"
proof -
  assume "blank config se"
  then have "de_tiles (se_detail se) = replicate 4 zero_tile" by (simp add: blank_def empty_detail_def MAX_DETAIL_TILES_def)
  then show ?thesis by (simp add: cache_ok_def zero_tile_ok) (simp add: zero_tile_def)
qed

section \<open>What the cache guarantees\<close>

text \<open>
  C14: in every run of a created session (pushing, end of input, source, cancellation, processing, region
  requests and their withdrawal, focus, PCM demands) the detail cache is sound: it has four tiles of 64 columns, no two
  resident ones of the same part of the track; the number of complete columns of each is right, and its run, if
  it has one, consists of complete columns.  A refresh keeps this and leaves no complete column
  without a run and no run with a complete neighbour.
\<close>
theorem detail_cache_sound:
  assumes "kernels_ok eg" "apta_session_create eg al ctx config = Ret (STATUS_OK, Some (p, se0), ctx')"
  shows "\<exists>se. session_run eg se0 ops = Ret se \<and>
    (\<forall>x\<in>{se, apta_internal_detail_refresh_completed se}.
       length (de_tiles (se_detail x)) = 4 \<and>
       (\<forall>tile\<in>set (de_tiles (se_detail x)).
          length (dt_accumulators tile) = 64 \<and>
          unat (dt_complete_count tile) = length (filter ac_complete (dt_accumulators tile)) \<and>
          (dt_run_valid tile \<longrightarrow> complete_run (dt_accumulators tile)
             (unat (dt_run_first tile)) (unat (dt_run_first tile) + unat (dt_run_count tile)))) \<and>
       (\<forall>i<4. \<forall>j<4. dt_occupied (de_tiles (se_detail x) ! i) \<and> dt_occupied (de_tiles (se_detail x) ! j) \<and>
          dt_tile_index (de_tiles (se_detail x) ! i) = dt_tile_index (de_tiles (se_detail x) ! j) \<longrightarrow> i = j)) \<and>
    (has_feature (se_config se) FEATURE_WAVEFORM_DETAIL \<longrightarrow>
      (\<forall>tile\<in>set (de_tiles (se_detail (apta_internal_detail_refresh_completed se))). dt_occupied tile \<longrightarrow>
       (if dt_run_valid tile
        then maximal_run (dt_accumulators tile) (unat (dt_run_first tile)) (unat (dt_run_first tile) + unat (dt_run_count tile))
        else \<forall>i<64. \<not> ac_complete (dt_accumulators tile ! i))))"
proof -
  have "new_session (eg_sizes eg) config se0"
    using create_ok [OF assms(1), of config al ctx] assms(2) by (simp add: creation_ok_def)
  then have s: "session_ok (eg_sizes eg) se0" "cache_ok se0" by (auto simp: new_session_def blank_cache)
  obtain se where r: "session_run eg se0 ops = Ret se" using run_advance [OF assms(1) s(1)] by blast
  then have ok: "cache_ok se" using run_ok [OF assms(1) s(2), of ops] by (simp add: returns_def)
  have "run_settled tile" if "has_feature (se_config se) FEATURE_WAVEFORM_DETAIL" "tile \<in> set (de_tiles (se_detail (apta_internal_detail_refresh_completed se)))" "dt_occupied tile" for tile
    using refreshed_settled [OF ok that] .
  then show ?thesis using r cache_facts [OF ok] cache_facts [OF refresh_ok [OF ok]] by (simp add: run_settled_def)
qed

text \<open>
  C17: looking a tile up makes it resident, or fails only when all four tiles are protected and the wanted
  one is not; no other tile changes.  A tile is given up only if all are resident: the one used
  longest ago among those no focus or request protects, and a protected one, the one used longest ago,
  only if every tile is protected, the wanted one included.
\<close>
theorem eviction_protected:
  assumes "cache_ok se" "apta_detail_find_or_create_tile se t = (out, se')"
  defines "ts \<equiv> de_tiles (se_detail se)" and "guarded \<equiv> apta_detail_tile_is_protected se"
  shows "case out of
      None \<Rightarrow> se' = se \<and> \<not> guarded t \<and> (\<forall>i<4. dt_occupied (ts ! i) \<and> guarded (dt_tile_index (ts ! i)) \<and> dt_tile_index (ts ! i) \<noteq> t)
    | Some i \<Rightarrow>
        i < 4 \<and> dt_occupied (de_tiles (se_detail se') ! i) \<and> dt_tile_index (de_tiles (se_detail se') ! i) = t \<and>
        (\<forall>j<4. j \<noteq> i \<longrightarrow> de_tiles (se_detail se') ! j = ts ! j) \<and>
        (dt_occupied (ts ! i) \<and> dt_tile_index (ts ! i) \<noteq> t \<longrightarrow>
           (\<forall>j<4. dt_occupied (ts ! j) \<and> dt_tile_index (ts ! j) \<noteq> t) \<and>
           (if guarded (dt_tile_index (ts ! i))
            then guarded t \<and> (\<forall>j<4. guarded (dt_tile_index (ts ! j)) \<and> dt_access_serial (ts ! i) \<le> dt_access_serial (ts ! j))
            else \<forall>j<4. \<not> guarded (dt_tile_index (ts ! j)) \<longrightarrow> dt_access_serial (ts ! i) \<le> dt_access_serial (ts ! j)))"
proof -
  have len: "length ts = 4" using assms(1) by (simp add: cache_ok_def Let_def ts_def)
  show ?thesis
  proof (cases "find_slot ts t")
    case (Some i)
    then have i: "i < 4" "dt_occupied (ts ! i)" "dt_tile_index (ts ! i) = t" using find_slot_Some [OF Some] len by simp_all
    moreover have "out = Some i" "de_tiles (se_detail se') = ts[i := (ts ! i)\<lparr>dt_access_serial := de_access_serial (se_detail se) + 1\<rparr>]"
      using assms(2) Some by (auto simp: apta_detail_find_or_create_tile_def Let_def ts_def)
    ultimately show ?thesis by (simp add: len)
  next
    case None
    have absent: "dt_tile_index (ts ! j) \<noteq> t" if "j < 4" "dt_occupied (ts ! j)" for j using find_slot_None [OF None] that len by simp
    show ?thesis
    proof (cases "victim_slot se t")
      case none: None
      then have "out = None" "se' = se" using assms(2) None by (auto simp: apta_detail_find_or_create_tile_def Let_def ts_def)
      then show ?thesis using no_victim [OF none] absent len by (auto simp: ts_def guarded_def)
    next
      case (Some i)
      have r: "out = Some i" "de_tiles (se_detail se') = ts[i := apta_detail_initialize_tile t (de_access_serial (se_detail se) + 1)]"
        using assms(2) None Some by (auto simp: apta_detail_find_or_create_tile_def Let_def ts_def)
      note v = victim_cases [OF Some, folded ts_def guarded_def, unfolded len]
      have "dt_occupied (ts ! i) \<longrightarrow> (\<forall>j<4. dt_occupied (ts ! j) \<and> dt_tile_index (ts ! j) \<noteq> t)" using v absent by blast
      then show ?thesis using r v by (simp add: len initialize_tile_ok split: if_splits)
    qed
  qed
qed


section \<open>Concrete sessions\<close>

theorem detail_cache_sound_witness:
  "\<exists>p se0 ctx se. apta_session_create demo_engine demo_alignments demo_context demo_workspace_config = Ret (STATUS_OK, Some (p, se0), ctx) \<and>
     session_run demo_engine se0 [Push demo_block, Process demo_reader demo_budget None] = Ret se \<and>
     length (de_tiles (se_detail se)) = 4"
proof -
  obtain p se0 ctx where c: "apta_session_create demo_engine demo_alignments demo_context demo_workspace_config = Ret (STATUS_OK, Some (p, se0), ctx)"
    using demo_workspace_created by blast
  show ?thesis using c detail_cache_sound [OF demo_engine_ok c, of "[Push demo_block, Process demo_reader demo_budget None]"] by blast
qed

definition demo_full_session :: apta_session where
  "demo_full_session = demo_session\<lparr>se_detail := empty_detail\<lparr>de_access_serial := 9, de_tiles :=
     map2 apta_detail_initialize_tile [0, 1, 2, 3] [7, 9, 4, 8]\<rparr>\<rparr>"

lemma demo_full_ok: "cache_ok demo_full_session"
proof -
  have "dt_tile_index (map2 apta_detail_initialize_tile [0, 1, 2, 3] [7, 9, 4, 8] ! i) = of_nat i" if "i < 4" for i :: nat
  proof -
    have "i = 0 \<or> i = 1 \<or> i = 2 \<or> i = 3" using that by auto
    then show ?thesis by (auto simp: initialize_tile_ok)
  qed
  moreover have "of_nat i \<noteq> (of_nat j :: u32)" if "i < 4" "j < 4" "i \<noteq> j" for i j
  proof -
    have "i = 0 \<or> i = 1 \<or> i = 2 \<or> i = 3" "j = 0 \<or> j = 1 \<or> j = 2 \<or> j = 3" using that by auto
    then show ?thesis using that by (elim disjE) simp_all
  qed
  ultimately show ?thesis by (simp add: cache_ok_def demo_full_session_def initialize_tile_ok)
qed

theorem eviction_protected_witness:
  "\<exists>se'. apta_detail_find_or_create_tile demo_full_session 40 = (Some 2, se') \<and>
     dt_tile_index (de_tiles (se_detail se') ! 2) = 40 \<and> (\<forall>j<4. j \<noteq> 2 \<longrightarrow>
       de_tiles (se_detail se') ! j = de_tiles (se_detail demo_full_session) ! j)"
proof -
  have "fst (apta_detail_find_or_create_tile demo_full_session 40) = Some 2" by code_simp
  then obtain se' where f: "apta_detail_find_or_create_tile demo_full_session 40 = (Some 2, se')"
    by (metis prod.collapse)
  from eviction_protected [OF demo_full_ok f] show ?thesis using f by simp
qed

end
