(* ===== verification/Apta_Metadata.thy ===== *)
theory Apta_Metadata
  imports Apta_Memory Apta_Bytes
begin

text \<open>
  Metadata of a track (\<^verbatim>\<open>include/apta/apta_metadata.h\<close>, \<^verbatim>\<open>src/core/apta_metadata.c\<close>): six text
  fields with a time, their validation, and the copy into one block of the library's own.  The
  validation of UTF-8 is proved against the definition of the encoding.
\<close>

definition METADATA_SOURCE_ID_NONE :: u32 where [apta_consts]: "METADATA_SOURCE_ID_NONE = 0"
definition METADATA_SOURCE_ID_TEXT :: u32 where [apta_consts]: "METADATA_SOURCE_ID_TEXT = 1"
definition METADATA_SOURCE_ID_BYTES :: u32 where [apta_consts]: "METADATA_SOURCE_ID_BYTES = 2"

definition METADATA_FLAG_PRODUCER_NAME_PRESENT :: u32 where [apta_consts]: "METADATA_FLAG_PRODUCER_NAME_PRESENT = 1"
definition METADATA_FLAG_PRODUCER_VERSION_PRESENT :: u32 where [apta_consts]: "METADATA_FLAG_PRODUCER_VERSION_PRESENT = 2"
definition METADATA_FLAG_BACKEND_NAME_PRESENT :: u32 where [apta_consts]: "METADATA_FLAG_BACKEND_NAME_PRESENT = 4"
definition METADATA_FLAG_BACKEND_VERSION_PRESENT :: u32 where [apta_consts]: "METADATA_FLAG_BACKEND_VERSION_PRESENT = 8"
definition METADATA_FLAG_CREATION_TIME_PRESENT :: u32 where [apta_consts]: "METADATA_FLAG_CREATION_TIME_PRESENT = 16"
definition METADATA_FLAG_COMMENTS_PRESENT :: u32 where [apta_consts]: "METADATA_FLAG_COMMENTS_PRESENT = 32"

definition METADATA_MAX_PRODUCER_NAME_BYTES :: u32 where [apta_consts]: "METADATA_MAX_PRODUCER_NAME_BYTES = 255"
definition METADATA_MAX_VERSION_STRING_BYTES :: u32 where [apta_consts]: "METADATA_MAX_VERSION_STRING_BYTES = 127"
definition METADATA_MAX_BACKEND_NAME_BYTES :: u32 where [apta_consts]: "METADATA_MAX_BACKEND_NAME_BYTES = 255"
definition METADATA_MAX_SOURCE_ID_BYTES :: u32 where [apta_consts]: "METADATA_MAX_SOURCE_ID_BYTES = 1024"
definition METADATA_MAX_COMMENTS_BYTES :: u32 where [apta_consts]: "METADATA_MAX_COMMENTS_BYTES = 4096"
definition MAX_TOTAL_BYTES :: u32 where [apta_consts]: "MAX_TOTAL_BYTES = 8192"

section \<open>Data\<close>

text \<open>A view is a pointer and a size.  The pointer of a caller's view is the memory it leads to; the
  pointer of a stored view is an offset into the block that holds the texts.  The input structure
  \<open>apta_metadata_t\<close> and \<open>apta_metadata_view_t\<close> have the same fields.\<close>

record 'p text_view =
  tx_data :: "'p option"
  tx_size :: u32

record 'p metadata_view =
  mv_struct_size :: u32
  mv_api_version :: u32
  mv_producer_name :: "'p text_view"
  mv_producer_version_string :: "'p text_view"
  mv_backend_name :: "'p text_view"
  mv_backend_version :: "'p text_view"
  mv_creation_unix_time :: u64
  mv_application_source_id :: "'p text_view"
  mv_comments :: "'p text_view"
  mv_application_source_id_kind :: u32
  mv_flags :: u32
  mv_reserved32 :: "u32 list"
  mv_reserved64 :: "u64 list"

record internal_metadata =
  md_view :: "nat metadata_view"
  md_storage :: "(u64 \<times> bytes) option"
  md_storage_size :: usize
  md_present :: bool

definition has_flag :: "'p metadata_view \<Rightarrow> u32 \<Rightarrow> bool" where
  "has_flag v flag \<longleftrightarrow> mv_flags v AND flag \<noteq> 0"

section \<open>UTF-8\<close>

text \<open>A read of the text: its memory ends with its size.  The indices are 32-bit and wrap around as the
  code's do.\<close>

definition text_u8 :: "bytes \<Rightarrow> u32 \<Rightarrow> u32 \<Rightarrow> u8 outcome" where
  "text_u8 bs sz index = (if index < sz then get_u8 bs (unat index) else Fault)"

text \<open>The bytes behind a lead byte, each in its range.\<close>

fun tail_ok :: "bytes \<Rightarrow> u32 \<Rightarrow> u32 \<Rightarrow> (u8 \<times> u8) list \<Rightarrow> bool outcome" where
  "tail_ok bs sz index [] = Ret True"
| "tail_ok bs sz index ((lo, hi) # ranges) =
     obind (text_u8 bs sz index) (\<lambda>b. if b < lo \<or> hi < b then Ret False else tail_ok bs sz (index + 1) ranges)"

definition lead_ranges :: "u8 \<Rightarrow> (u8 \<times> u8) list option" where
  "lead_ranges b =
     (if b \<le> 0x7F then Some []
      else if 0xC2 \<le> b \<and> b \<le> 0xDF then Some [(0x80, 0xBF)]
      else if b = 0xE0 then Some [(0xA0, 0xBF), (0x80, 0xBF)]
      else if (0xE1 \<le> b \<and> b \<le> 0xEC) \<or> (0xEE \<le> b \<and> b \<le> 0xEF) then Some [(0x80, 0xBF), (0x80, 0xBF)]
      else if b = 0xED then Some [(0x80, 0x9F), (0x80, 0xBF)]
      else if b = 0xF0 then Some [(0x90, 0xBF), (0x80, 0xBF), (0x80, 0xBF)]
      else if 0xF1 \<le> b \<and> b \<le> 0xF3 then Some [(0x80, 0xBF), (0x80, 0xBF), (0x80, 0xBF)]
      else if b = 0xF4 then Some [(0x80, 0x8F), (0x80, 0xBF), (0x80, 0xBF)]
      else None)"

lemma obind_cong [fundef_cong]:
  "m = m' \<Longrightarrow> (\<And>a. m' = Ret a \<Longrightarrow> f a = f' a) \<Longrightarrow> obind m f = obind m' f'"
  by (cases m') auto

lemma u32_next: "(i :: u32) < n \<Longrightarrow> unat (i + 1) = unat i + 1"
  using unat_u32_bound [of n] by (simp add: word_less_nat_alt unat_word_ariths)

lemma tail_ok_inside: "index \<le> sz \<Longrightarrow> tail_ok bs sz index rs = Ret True \<Longrightarrow> unat index + length rs \<le> unat sz"
proof (induction bs sz index rs rule: tail_ok.induct)
  case (2 bs sz index lo hi ranges)
  have lt: "index < sz" using 2(3) by (auto simp: text_u8_def split: if_splits)
  then obtain b where b: "text_u8 bs sz index = Ret b" "\<not> (b < lo \<or> hi < b)" "tail_ok bs sz (index + 1) ranges = Ret True"
    using 2(3) by (auto simp: obind_eq_Ret split: if_splits)
  have "index + 1 \<le> sz" using lt u32_next [OF lt] by (simp add: word_le_nat_alt word_less_nat_alt)
  then show ?case using 2(1) [OF b(2) _ b(3)] u32_next [OF lt] by simp
qed (simp add: word_le_nat_alt)

text \<open>A tail that wraps around is not accepted, since it would have a byte behind the text; so the index
  grows with every round.\<close>

lemma loop_progress:
  assumes "\<not> sz \<le> (index :: u32)" "tail_ok bs sz (index + 1) rs = Ret True"
  shows "unat (index + 1 + of_nat (length rs)) = unat index + 1 + length rs" "unat index + 1 + length rs \<le> unat sz"
proof -
  have lt: "index < sz" using assms(1) by simp
  have "index + 1 \<le> sz" using lt u32_next [OF lt] by (simp add: word_le_nat_alt word_less_nat_alt)
  from tail_ok_inside [OF this assms(2)] show le: "unat index + 1 + length rs \<le> unat sz" using u32_next [OF lt] by simp
  have "unat sz < 4294967296" using unat_u32_bound [of sz] by simp
  then show "unat (index + 1 + of_nat (length rs)) = unat index + 1 + length rs"
    using le u32_next [OF lt] by (simp add: unat_word_ariths unat_of_nat)
qed

function utf8_loop :: "bytes \<Rightarrow> u32 \<Rightarrow> u32 \<Rightarrow> bool outcome" where
  "utf8_loop bs sz index =
     (if sz \<le> index then Ret True
      else
        obind (text_u8 bs sz index) (\<lambda>first.
        case lead_ranges first of
          None \<Rightarrow> Ret False
        | Some ranges \<Rightarrow>
            if sz \<le> index + of_nat (length ranges) then Ret False
            else obind (tail_ok bs sz (index + 1) ranges) (\<lambda>ok.
              if ok then utf8_loop bs sz (index + 1 + of_nat (length ranges)) else Ret False)))"
  by pat_completeness auto
termination
proof (relation "measure (\<lambda>(bs, sz, index). unat sz - unat index)")
  fix bs and sz index :: u32 and first ranges ok
  assume "\<not> sz \<le> index" "tail_ok bs sz (index + 1) ranges = Ret ok" "ok"
  then show "((bs, sz, index + 1 + of_nat (length ranges)), bs, sz, index) \<in> measure (\<lambda>(bs, sz, index). unat sz - unat index)"
    using loop_progress [of sz index bs ranges] by simp
qed simp

declare utf8_loop.simps [simp del]

definition apta_metadata_utf8_is_valid :: "bytes option \<Rightarrow> u32 \<Rightarrow> bool outcome" where
  "apta_metadata_utf8_is_valid data sz =
     (case data of
        None \<Rightarrow> Ret (sz = 0)
      | Some bs \<Rightarrow> utf8_loop bs sz 0)"

text \<open>The encoding: the scalar values and their bytes.\<close>

definition scalar :: "nat \<Rightarrow> bool" where
  "scalar c \<longleftrightarrow> c < 0x110000 \<and> \<not> (0xD800 \<le> c \<and> c < 0xE000)"

definition utf8_code :: "nat \<Rightarrow> nat list" where
  "utf8_code c =
     (if c < 0x80 then [c]
      else if c < 0x800 then [0xC0 + c div 64, 0x80 + c mod 64]
      else if c < 0x10000 then [0xE0 + c div 4096, 0x80 + c div 64 mod 64, 0x80 + c mod 64]
      else [0xF0 + c div 262144, 0x80 + c div 4096 mod 64, 0x80 + c div 64 mod 64, 0x80 + c mod 64])"

definition utf8_text :: "bytes \<Rightarrow> bool" where
  "utf8_text bs \<longleftrightarrow> (\<exists>cs. (\<forall>c\<in>set cs. scalar c) \<and> map unat bs = concat (map utf8_code cs))"


definition in_bounds :: "nat \<Rightarrow> u8 \<times> u8 \<Rightarrow> bool" where
  "in_bounds x r \<longleftrightarrow> unat (fst r) \<le> x \<and> x \<le> unat (snd r)"

lemma lead_ranges_unat:
  "lead_ranges b =
     (let x = unat b
      in if x \<le> 127 then Some []
         else if 194 \<le> x \<and> x \<le> 223 then Some [(0x80, 0xBF)]
         else if x = 224 then Some [(0xA0, 0xBF), (0x80, 0xBF)]
         else if (225 \<le> x \<and> x \<le> 236) \<or> (238 \<le> x \<and> x \<le> 239) then Some [(0x80, 0xBF), (0x80, 0xBF)]
         else if x = 237 then Some [(0x80, 0x9F), (0x80, 0xBF)]
         else if x = 240 then Some [(0x90, 0xBF), (0x80, 0xBF), (0x80, 0xBF)]
         else if 241 \<le> x \<and> x \<le> 243 then Some [(0x80, 0xBF), (0x80, 0xBF), (0x80, 0xBF)]
         else if x = 244 then Some [(0x80, 0x8F), (0x80, 0xBF), (0x80, 0xBF)]
         else None)"
  by (simp add: lead_ranges_def Let_def word_le_nat_alt word_unat_eq_iff)

text \<open>A code is a lead byte with a tail in the ranges of the lead byte, and the other way round.\<close>

lemma code_lead:
  assumes "scalar c" "utf8_code c = unat b # xs"
  shows "\<exists>rs. lead_ranges b = Some rs \<and> list_all2 in_bounds xs rs"
proof -
  have m: "x mod 64 \<le> 63" for x :: nat by (simp add: less_Suc_eq_le [symmetric])
  consider "c < 128" | "128 \<le> c" "c < 2048" | "2048 \<le> c" "c < 65536" | "65536 \<le> c" "c < 1114112"
    using assms(1) by (fastforce simp: scalar_def)
  then show ?thesis
  proof cases
    case 1
    then show ?thesis using assms by (auto simp: utf8_code_def lead_ranges_unat Let_def)
  next
    case 2
    then have "unat b = 192 + c div 64" "xs = [128 + c mod 64]" using assms by (auto simp: utf8_code_def)
    moreover have "2 \<le> c div 64" "c div 64 \<le> 31" using 2 by auto
    ultimately show ?thesis using m [of c] by (simp add: lead_ranges_unat Let_def in_bounds_def)
  next
    case 3
    then have b: "unat b = 224 + c div 4096" "xs = [128 + c div 64 mod 64, 128 + c mod 64]" using assms by (auto simp: utf8_code_def)
    have q: "c div 64 mod 64 = c div 64 - 64 * (c div 4096)"
      by (simp add: minus_mult_div_eq_mod [symmetric] div_mult2_eq [symmetric])
    have "c div 4096 = 0 \<Longrightarrow> 32 \<le> c div 64 mod 64" "c div 4096 = 13 \<Longrightarrow> c div 64 mod 64 \<le> 31"
      using 3 assms(1) unfolding q scalar_def by auto
    moreover have "c div 4096 \<le> 15" "c div 4096 = 0 \<Longrightarrow> c div 64 \<le> 63" using 3 by auto
    moreover have "225 \<le> 224 + c div 4096" if "c div 4096 \<noteq> 0" using that by simp
    ultimately show ?thesis using b m [of c] m [of "c div 64"]
      by (simp add: lead_ranges_unat Let_def in_bounds_def)
  next
    case 4
    then have b: "unat b = 240 + c div 262144" "xs = [128 + c div 4096 mod 64, 128 + c div 64 mod 64, 128 + c mod 64]"
      using assms by (auto simp: utf8_code_def)
    have q: "c div 4096 mod 64 = c div 4096 - 64 * (c div 262144)"
      by (simp add: minus_mult_div_eq_mod [symmetric] div_mult2_eq [symmetric])
    have "c div 262144 = 0 \<Longrightarrow> 16 \<le> c div 4096 mod 64" "c div 262144 = 4 \<Longrightarrow> c div 4096 mod 64 \<le> 15"
      using 4 unfolding q by auto
    moreover have "c div 262144 \<le> 4" using 4 by auto
    ultimately show ?thesis using b m [of c] m [of "c div 64"] m [of "c div 4096"]
      by (auto simp: lead_ranges_unat Let_def in_bounds_def)
  qed
qed

lemma lead_code:
  assumes "lead_ranges b = Some rs" "list_all2 in_bounds xs rs"
  shows "\<exists>c. scalar c \<and> utf8_code c = unat b # xs"
proof -
  have m: "(p * 64 + q) mod 64 = q" "(p * 64 + q) div 64 = p" if "q < 64" for p q :: nat using that by simp_all
  have two: "\<exists>c. scalar c \<and> utf8_code c = [x, y]" if "194 \<le> x" "x \<le> 223" "128 \<le> y" "y \<le> 191" for x y
  proof -
    define a b where "a = x - 192" and "b = y - 128"
    then have ab: "x = 192 + a" "y = 128 + b" using that by simp_all
    let ?c = "a * 64 + b"
    have "?c mod 64 = b" "?c div 64 = a" "128 \<le> ?c" "?c < 2048" "scalar ?c" using that by (auto simp: ab scalar_def)
    then have "scalar ?c \<and> utf8_code ?c = [x, y]" using that by (simp add: utf8_code_def ab)
    then show ?thesis by blast
  qed
  have three: "\<exists>c. scalar c \<and> utf8_code c = [x, y, z]"
    if "224 \<le> x" "x \<le> 239" "128 \<le> y" "y \<le> 191" "128 \<le> z" "z \<le> 191" "x = 224 \<longrightarrow> 160 \<le> y" "x = 237 \<longrightarrow> y \<le> 159" for x y z
  proof -
    define a b c where "a = x - 224" and "b = y - 128" and "c = z - 128"
    then have e: "x = 224 + a" "y = 128 + b" "z = 128 + c" using that by simp_all
    let ?c = "(a * 64 + b) * 64 + c"
    have bounds: "b < 64" "c < 64" using that by (simp_all add: e)
    have "?c div 4096 = a" using bounds by simp
    note d = this m [OF bounds(2), of "a * 64 + b"] m(1) [OF bounds(1), of a]
    have "a < 13 \<or> a = 13 \<or> 13 < a" by auto
    then have "2048 \<le> ?c" "?c < 65536" "scalar ?c" using that bounds by (auto simp: e scalar_def)
    then have "scalar ?c \<and> utf8_code ?c = [x, y, z]" using d by (simp add: utf8_code_def e)
    then show ?thesis by blast
  qed
  have four: "\<exists>c. scalar c \<and> utf8_code c = [x, y, z, w]"
    if "240 \<le> x" "x \<le> 244" "128 \<le> y" "y \<le> 191" "128 \<le> z" "z \<le> 191" "128 \<le> w" "w \<le> 191" "x = 240 \<longrightarrow> 144 \<le> y" "x = 244 \<longrightarrow> y \<le> 143" for x y z w
  proof -
    define a b c e where "a = x - 240" and "b = y - 128" and "c = z - 128" and "e = w - 128"
    then have v: "x = 240 + a" "y = 128 + b" "z = 128 + c" "w = 128 + e" using that by simp_all
    let ?c = "((a * 64 + b) * 64 + c) * 64 + e"
    have bounds: "b < 64" "c < 64" "e < 64" using that by (simp_all add: v)
    have "?c div 4096 = a * 64 + b" "?c div 262144 = a" using bounds by simp_all
    note d = this m [OF bounds(3), of "(a * 64 + b) * 64 + c"] m(1) [OF bounds(2), of "a * 64 + b"] m(1) [OF bounds(1), of a]
    have "65536 \<le> ?c" "?c < 1114112" "scalar ?c" using that by (auto simp: v scalar_def)
    then have "scalar ?c \<and> utf8_code ?c = [x, y, z, w]" using d by (simp add: utf8_code_def v)
    then show ?thesis by blast
  qed
  show ?thesis
  proof (cases "unat b \<le> 127")
    case True
    then have "scalar (unat b) \<and> utf8_code (unat b) = unat b # xs" using assms
      by (auto simp: lead_ranges_unat scalar_def utf8_code_def)
    then show ?thesis by blast
  next
    case False
    then show ?thesis using assms
      by (auto simp: lead_ranges_unat Let_def list_all2_Cons2 in_bounds_def split: if_splits intro!: two three four)
  qed
qed


lemma tail_ok_eq:
  "unat index + length rs \<le> unat sz \<Longrightarrow> unat sz \<le> length bs \<Longrightarrow>
   tail_ok bs sz index rs = Ret (list_all2 in_bounds (map unat (take (length rs) (drop (unat index) bs))) rs)"
proof (induction bs sz index rs rule: tail_ok.induct)
  case (2 bs sz index lo hi ranges)
  have lt: "index < sz" using 2(2) by (simp add: word_less_nat_alt)
  have d: "drop (unat index) bs = bs ! unat index # drop (unat index + 1) bs" using 2(2,3) by (simp add: Cons_nth_drop_Suc)
  have g: "text_u8 bs sz index = Ret (bs ! unat index)" using lt 2(2,3) by (simp add: text_u8_def get_u8_def)
  show ?case
  proof (cases "bs ! unat index < lo \<or> hi < bs ! unat index")
    case True
    then show ?thesis by (auto simp: g d in_bounds_def word_le_nat_alt word_less_nat_alt)
  next
    case False
    have "tail_ok bs sz (index + 1) ranges =
        Ret (list_all2 in_bounds (map unat (take (length ranges) (drop (unat index + 1) bs))) ranges)"
      using 2(1) [OF False] 2(2,3) u32_next [OF lt] by simp
    then show ?thesis using False in_bounds_def [of "unat (bs ! unat index)" "(lo, hi)"]
      by (simp add: g d word_le_nat_alt word_less_nat_alt not_less)
  qed
qed simp

lemma utf8_text_Nil [simp]: "utf8_text []"
  by (auto simp: utf8_text_def intro: exI [of _ "[]"])

lemma utf8_text_Cons:
  "utf8_text (b # bs) \<longleftrightarrow>
   (\<exists>rs. lead_ranges b = Some rs \<and> length rs \<le> length bs \<and>
      list_all2 in_bounds (map unat (take (length rs) bs)) rs \<and> utf8_text (drop (length rs) bs))"
proof
  assume "utf8_text (b # bs)"
  then obtain cs where cs: "\<forall>c\<in>set cs. scalar c" "map unat (b # bs) = concat (map utf8_code cs)" by (auto simp: utf8_text_def)
  have ne: "utf8_code c \<noteq> []" for c by (simp add: utf8_code_def)
  then obtain c cs' where c: "cs = c # cs'" using cs(2) by (cases cs) auto
  then obtain xs where xs: "utf8_code c = unat b # xs" using cs(2) ne [of c] by (cases "utf8_code c") auto
  then obtain rs where rs: "lead_ranges b = Some rs" "list_all2 in_bounds xs rs" using code_lead [of c b xs] cs(1) c by auto
  have m: "map unat bs = xs @ concat (map utf8_code cs')" using cs(2) c xs by simp
  have len: "length xs = length rs" using rs(2) by (rule list_all2_lengthD)
  have "map unat (take (length rs) bs) = xs" "map unat (drop (length rs) bs) = concat (map utf8_code cs')"
    using m len by (simp_all add: take_map [symmetric] drop_map [symmetric])
  moreover have "length rs \<le> length bs" using arg_cong [OF m, of length] len by simp
  ultimately show "\<exists>rs. lead_ranges b = Some rs \<and> length rs \<le> length bs \<and>
      list_all2 in_bounds (map unat (take (length rs) bs)) rs \<and> utf8_text (drop (length rs) bs)"
    using rs cs(1) c by (auto simp: utf8_text_def)
next
  assume "\<exists>rs. lead_ranges b = Some rs \<and> length rs \<le> length bs \<and>
      list_all2 in_bounds (map unat (take (length rs) bs)) rs \<and> utf8_text (drop (length rs) bs)"
  then obtain rs cs where r: "lead_ranges b = Some rs" "list_all2 in_bounds (map unat (take (length rs) bs)) rs"
    "\<forall>c\<in>set cs. scalar c" "map unat (drop (length rs) bs) = concat (map utf8_code cs)" by (auto simp: utf8_text_def)
  obtain c where "scalar c" "utf8_code c = unat b # map unat (take (length rs) bs)" using lead_code [OF r(1,2)] by blast
  moreover have "map unat bs = map unat (take (length rs) bs) @ map unat (drop (length rs) bs)"
    by (simp flip: map_append)
  ultimately show "utf8_text (b # bs)" using r(3,4) by (auto simp: utf8_text_def intro!: exI [of _ "c # cs"])
qed

lemma utf8_loop_eq:
  "unat sz \<le> length bs \<Longrightarrow> sz \<le> 0xFFFFFFFD \<Longrightarrow>
   utf8_loop bs sz index = Ret (utf8_text (drop (unat index) (take (unat sz) bs)))"
proof (induction bs sz index rule: utf8_loop.induct)
  case (1 bs sz index)
  show ?case
  proof (cases "sz \<le> index")
    case True
    then show ?thesis by (simp add: utf8_loop.simps [of bs sz index] word_le_nat_alt)
  next
    case False
    then have lt: "unat index < unat sz" by (simp add: word_less_nat_alt not_le)
    let ?b = "bs ! unat index" and ?rest = "drop (unat index + 1) (take (unat sz) bs)"
    have g: "text_u8 bs sz index = Ret ?b" using False lt 1(2) by (simp add: text_u8_def get_u8_def)
    have d: "drop (unat index) (take (unat sz) bs) = ?b # ?rest" using lt 1(2) by (simp add: Cons_nth_drop_Suc [symmetric])
    have n1: "unat (index + 1) = unat index + 1" using False u32_next [of index sz] by simp
    show ?thesis
    proof (cases "lead_ranges ?b")
      case None
      then show ?thesis using False g d by (simp add: utf8_loop.simps [of bs sz index] utf8_text_Cons)
    next
      case (Some rs)
      have len: "length rs \<le> 3" using Some by (auto simp: lead_ranges_def split: if_splits)
      have "unat sz \<le> 4294967293" using 1(3) by (simp add: word_le_nat_alt)
      then have sum: "unat (index + of_nat (length rs)) = unat index + length rs"
        using lt len by (simp add: unat_word_ariths unat_of_nat)
      show ?thesis
      proof (cases "sz \<le> index + of_nat (length rs)")
        case True
        then have "length ?rest < length rs" using sum lt 1(2) by (simp add: word_le_nat_alt)
        then show ?thesis using True False g d Some by (simp add: utf8_loop.simps [of bs sz index] utf8_text_Cons)
      next
        case short: False
        have inside: "unat index + 1 + length rs \<le> unat sz"
          using short sum by (simp add: word_le_nat_alt)
        have t: "tail_ok bs sz (index + 1) rs = Ret (list_all2 in_bounds (map unat (take (length rs) ?rest)) rs)"
          using inside 1(2) n1 by (subst tail_ok_eq) (simp_all add: drop_take min_def)
        have "utf8_loop bs sz (index + 1 + of_nat (length rs)) = Ret (utf8_text (drop (length rs) ?rest))"
          if acc: "list_all2 in_bounds (map unat (take (length rs) ?rest)) rs"
        proof -
          have "unat (index + 1 + of_nat (length rs)) = unat index + 1 + length rs"
            by (rule loop_progress(1) [OF False]) (use t acc in simp)
          then show ?thesis using 1(1) [OF False g Some short t acc 1(2,3)] by (simp add: add.commute add.left_commute)
        qed
        moreover have "length rs \<le> length ?rest" using inside 1(2) by simp
        ultimately show ?thesis using False g d Some short t
          by (simp add: utf8_loop.simps [of bs sz index] utf8_text_Cons)
      qed
    qed
  qed
qed


section \<open>Validation\<close>

text \<open>A conjunction of checks, evaluated from left to right up to the first that fails.\<close>

fun oall :: "bool outcome list \<Rightarrow> bool outcome" where
  "oall [] = Ret True"
| "oall (m # ms) = obind m (\<lambda>ok. if ok then oall ms else Ret False)"

definition METADATA_FLAG_MASK :: u32 where
  "METADATA_FLAG_MASK = METADATA_FLAG_PRODUCER_NAME_PRESENT OR METADATA_FLAG_PRODUCER_VERSION_PRESENT OR
     METADATA_FLAG_BACKEND_NAME_PRESENT OR METADATA_FLAG_BACKEND_VERSION_PRESENT OR
     METADATA_FLAG_CREATION_TIME_PRESENT OR METADATA_FLAG_COMMENTS_PRESENT"

definition apta_metadata_text_field_is_valid :: "bytes text_view \<Rightarrow> u32 \<Rightarrow> bool \<Rightarrow> bool outcome" where
  "apta_metadata_text_field_is_valid field maximum_size present =
     (if \<not> present then Ret (tx_size field = 0)
      else if maximum_size < tx_size field then Ret False
      else apta_metadata_utf8_is_valid (tx_data field) (tx_size field))"

definition source_id_is_valid :: "bytes metadata_view \<Rightarrow> bool outcome" where
  "source_id_is_valid v =
     (let i = mv_application_source_id v
      in if mv_application_source_id_kind v = METADATA_SOURCE_ID_NONE then Ret (tx_size i = 0)
         else if mv_application_source_id_kind v = METADATA_SOURCE_ID_TEXT
         then (if METADATA_MAX_SOURCE_ID_BYTES < tx_size i then Ret False
               else apta_metadata_utf8_is_valid (tx_data i) (tx_size i))
         else if mv_application_source_id_kind v = METADATA_SOURCE_ID_BYTES
         then Ret (\<not> (METADATA_MAX_SOURCE_ID_BYTES < tx_size i \<or> tx_size i \<noteq> 0 \<and> tx_data i = None))
         else Ret False)"

definition metadata_total :: "'p metadata_view \<Rightarrow> u64" where
  "metadata_total v = ucast (tx_size (mv_producer_name v)) + ucast (tx_size (mv_producer_version_string v)) +
     ucast (tx_size (mv_backend_name v)) + ucast (tx_size (mv_backend_version v)) +
     ucast (tx_size (mv_application_source_id v)) + ucast (tx_size (mv_comments v))"

text \<open>The size of the storage, or nothing if the view is not valid.\<close>

definition apta_metadata_view_is_valid :: "bytes metadata_view \<Rightarrow> usize option outcome" where
  "apta_metadata_view_is_valid v =
     obind (oall
       [Ret (mv_flags v AND NOT METADATA_FLAG_MASK = 0),
        Ret (list_all ((=) 0) (mv_reserved32 v)),
        Ret (list_all ((=) 0) (mv_reserved64 v)),
        apta_metadata_text_field_is_valid (mv_producer_name v) METADATA_MAX_PRODUCER_NAME_BYTES
          (has_flag v METADATA_FLAG_PRODUCER_NAME_PRESENT),
        apta_metadata_text_field_is_valid (mv_producer_version_string v) METADATA_MAX_VERSION_STRING_BYTES
          (has_flag v METADATA_FLAG_PRODUCER_VERSION_PRESENT),
        apta_metadata_text_field_is_valid (mv_backend_name v) METADATA_MAX_BACKEND_NAME_BYTES
          (has_flag v METADATA_FLAG_BACKEND_NAME_PRESENT),
        apta_metadata_text_field_is_valid (mv_backend_version v) METADATA_MAX_VERSION_STRING_BYTES
          (has_flag v METADATA_FLAG_BACKEND_VERSION_PRESENT),
        apta_metadata_text_field_is_valid (mv_comments v) METADATA_MAX_COMMENTS_BYTES
          (has_flag v METADATA_FLAG_COMMENTS_PRESENT),
        source_id_is_valid v]) (\<lambda>ok.
     Ret (if \<not> ok then None
          else if ucast MAX_TOTAL_BYTES < metadata_total v \<or> SIZE_MAX < metadata_total v then None
          else Some (metadata_total v)))"

section \<open>The copy\<close>

definition no_text :: "'p text_view" where
  "no_text = \<lparr>tx_data = None, tx_size = 0\<rparr>"

definition zero_view :: "'p metadata_view" where
  "zero_view = \<lparr>mv_struct_size = 0, mv_api_version = 0, mv_producer_name = no_text, mv_producer_version_string = no_text,
     mv_backend_name = no_text, mv_backend_version = no_text, mv_creation_unix_time = 0,
     mv_application_source_id = no_text, mv_comments = no_text, mv_application_source_id_kind = 0, mv_flags = 0,
     mv_reserved32 = [0, 0, 0, 0], mv_reserved64 = [0, 0]\<rparr>"

definition zero_metadata :: internal_metadata where
  "zero_metadata = \<lparr>md_view = zero_view, md_storage = None, md_storage_size = 0, md_present = False\<rparr>"

definition apta_metadata_view_init :: "usize \<Rightarrow> 'p metadata_view" where
  "apta_metadata_view_init sizeof_view = zero_view\<lparr>mv_struct_size := ucast sizeof_view, mv_api_version := APTA_API_VERSION\<rparr>"

text \<open>Also \<open>apta_metadata_copy_bytes\<close>, whose text is the same.\<close>

definition apta_metadata_copy_utf8 :: "bytes text_view \<Rightarrow> bytes \<Rightarrow> nat \<Rightarrow> (nat text_view \<times> bytes \<times> nat) outcome" where
  "apta_metadata_copy_utf8 source storage offset =
     (if tx_size source = 0 then Ret (no_text, storage, offset)
      else
        (case tx_data source of
           None \<Rightarrow> Fault
         | Some bs \<Rightarrow>
             if length bs < unat (tx_size source) then Fault
             else
               obind (put_bytes storage offset (take (unat (tx_size source)) bs)) (\<lambda>storage1.
               Ret (\<lparr>tx_data = Some offset, tx_size = tx_size source\<rparr>, storage1, offset + unat (tx_size source)))))"

fun copy_texts :: "bytes text_view list \<Rightarrow> bytes \<Rightarrow> nat \<Rightarrow> (nat text_view list \<times> bytes) outcome" where
  "copy_texts [] storage offset = Ret ([], storage)"
| "copy_texts (source # sources) storage offset =
     obind (apta_metadata_copy_utf8 source storage offset) (\<lambda>(destination, storage1, offset1).
     obind (copy_texts sources storage1 offset1) (\<lambda>(destinations, storage2).
     Ret (destination # destinations, storage2)))"

text \<open>The texts in the order of the copy.\<close>

definition view_texts :: "'p metadata_view \<Rightarrow> 'p text_view list" where
  "view_texts v = [mv_producer_name v, mv_producer_version_string v, mv_backend_name v, mv_backend_version v,
     mv_application_source_id v, mv_comments v]"

definition with_texts :: "usize \<Rightarrow> 'p metadata_view \<Rightarrow> 'q text_view list \<Rightarrow> 'q metadata_view" where
  "with_texts sizeof_view v ts =
     \<lparr>mv_struct_size = ucast sizeof_view, mv_api_version = APTA_API_VERSION,
      mv_producer_name = ts ! 0, mv_producer_version_string = ts ! 1, mv_backend_name = ts ! 2,
      mv_backend_version = ts ! 3, mv_creation_unix_time = mv_creation_unix_time v,
      mv_application_source_id = ts ! 4, mv_comments = ts ! 5,
      mv_application_source_id_kind = mv_application_source_id_kind v, mv_flags = mv_flags v,
      mv_reserved32 = mv_reserved32 v, mv_reserved64 = mv_reserved64 v\<rparr>"

text \<open>What a fresh block holds does not matter, since the copy fills it; it is shown as zeros.\<close>

definition copied_metadata :: "usize \<Rightarrow> bytes metadata_view \<Rightarrow> usize \<Rightarrow> u64 option \<Rightarrow> internal_metadata outcome" where
  "copied_metadata sizeof_view input storage_size address =
     obind (copy_texts (view_texts input) (replicate (unat storage_size) 0) 0) (\<lambda>(texts, storage).
     Ret \<lparr>md_view = with_texts sizeof_view input texts, md_storage = map_option (\<lambda>p. (p, storage)) address,
          md_storage_size = storage_size, md_present = True\<rparr>)"

text \<open>The metadata that is returned counts only with \<open>STATUS_OK\<close>.\<close>

definition apta_metadata_copy_validated_view ::
    "host_allocator \<Rightarrow> usize \<Rightarrow> apta_context \<Rightarrow> bytes metadata_view \<Rightarrow>
     (apta_status \<times> internal_metadata \<times> apta_context) outcome" where
  "apta_metadata_copy_validated_view host sizeof_view ctx input =
     obind (apta_metadata_view_is_valid input) (\<lambda>valid.
     case valid of
       None \<Rightarrow> Ret (ERROR_INVALID_ARGUMENT, zero_metadata, ctx)
     | Some storage_size \<Rightarrow>
         (case (if storage_size \<noteq> 0 then apta_internal_context_allocate host ctx storage_size 1 else (None, ctx)) of
            (address, ctx1) \<Rightarrow>
              if storage_size \<noteq> 0 \<and> address = None then Ret (ERROR_OUT_OF_MEMORY, zero_metadata, ctx1)
              else obind (copied_metadata sizeof_view input storage_size address) (\<lambda>md. Ret (STATUS_OK, md, ctx1))))"

definition apta_internal_metadata_copy_from_view ::
    "host_allocator \<Rightarrow> usize \<Rightarrow> apta_context \<Rightarrow> bytes metadata_view \<Rightarrow>
     (apta_status \<times> internal_metadata \<times> apta_context) outcome" where
  "apta_internal_metadata_copy_from_view host sizeof_view ctx input =
     (if \<not> apta_internal_validate_struct True sizeof_view (mv_struct_size input) (mv_api_version input)
      then Ret (ERROR_INCOMPATIBLE_VERSION, zero_metadata, ctx)
      else apta_metadata_copy_validated_view host sizeof_view ctx input)"

definition apta_internal_metadata_copy_from_input ::
    "host_allocator \<Rightarrow> usize \<Rightarrow> usize \<Rightarrow> apta_context \<Rightarrow> bytes metadata_view \<Rightarrow>
     (apta_status \<times> internal_metadata \<times> apta_context) outcome" where
  "apta_internal_metadata_copy_from_input host sizeof_metadata sizeof_view ctx input =
     (if \<not> apta_internal_validate_struct True sizeof_metadata (mv_struct_size input) (mv_api_version input)
      then Ret (ERROR_INCOMPATIBLE_VERSION, zero_metadata, ctx)
      else apta_metadata_copy_validated_view host sizeof_view ctx (input\<lparr>mv_struct_size := ucast sizeof_view\<rparr>))"

definition apta_internal_metadata_cleanup :: "apta_context \<Rightarrow> internal_metadata \<Rightarrow> apta_context" where
  "apta_internal_metadata_cleanup ctx md = apta_internal_context_deallocate ctx (map_option fst (md_storage md))"


section \<open>What is accepted\<close>

definition readable :: "bytes text_view \<Rightarrow> bool" where
  "readable t \<longleftrightarrow> (case tx_data t of None \<Rightarrow> True | Some bs \<Rightarrow> unat (tx_size t) \<le> length bs)"

definition text_bytes :: "bytes text_view \<Rightarrow> bytes" where
  "text_bytes t = (case tx_data t of None \<Rightarrow> [] | Some bs \<Rightarrow> take (unat (tx_size t)) bs)"

definition sized :: "bytes text_view \<Rightarrow> bool" where
  "sized t \<longleftrightarrow> (tx_data t = None \<longrightarrow> tx_size t = 0)"

definition valid_text :: "bytes text_view \<Rightarrow> u32 \<Rightarrow> bool \<Rightarrow> bool" where
  "valid_text t maximum present \<longleftrightarrow>
     (if present then tx_size t \<le> maximum \<and> sized t \<and> utf8_text (text_bytes t) else tx_size t = 0)"

text \<open>The valid inputs: known flags, no reserved bits, a text only where its flag is set, of bounded size
  and in UTF-8; an identifier of the source that is absent, a text or bytes.\<close>

definition valid_view :: "bytes metadata_view \<Rightarrow> bool" where
  "valid_view v \<longleftrightarrow> mv_flags v AND NOT METADATA_FLAG_MASK = 0 \<and>
     (\<forall>x\<in>set (mv_reserved32 v). x = 0) \<and> (\<forall>x\<in>set (mv_reserved64 v). x = 0) \<and>
     valid_text (mv_producer_name v) 255 (has_flag v METADATA_FLAG_PRODUCER_NAME_PRESENT) \<and>
     valid_text (mv_producer_version_string v) 127 (has_flag v METADATA_FLAG_PRODUCER_VERSION_PRESENT) \<and>
     valid_text (mv_backend_name v) 255 (has_flag v METADATA_FLAG_BACKEND_NAME_PRESENT) \<and>
     valid_text (mv_backend_version v) 127 (has_flag v METADATA_FLAG_BACKEND_VERSION_PRESENT) \<and>
     valid_text (mv_comments v) 4096 (has_flag v METADATA_FLAG_COMMENTS_PRESENT) \<and>
     (let i = mv_application_source_id v; k = mv_application_source_id_kind v
      in k = METADATA_SOURCE_ID_NONE \<and> tx_size i = 0 \<or>
         k = METADATA_SOURCE_ID_TEXT \<and> valid_text i 1024 True \<or>
         k = METADATA_SOURCE_ID_BYTES \<and> tx_size i \<le> 1024 \<and> sized i)"

lemma utf8_is_valid_eq:
  "readable t \<Longrightarrow> tx_size t \<le> 4096 \<Longrightarrow>
   apta_metadata_utf8_is_valid (tx_data t) (tx_size t) = Ret (sized t \<and> utf8_text (text_bytes t))"
proof -
  assume t: "readable t" "tx_size t \<le> 4096"
  have "(4096 :: u32) \<le> 0xFFFFFFFD" by simp
  with t(2) have "tx_size t \<le> 0xFFFFFFFD" by (rule order_trans)
  then show ?thesis using t(1)
    by (auto simp: apta_metadata_utf8_is_valid_def readable_def utf8_loop_eq text_bytes_def sized_def split: option.split)
qed

lemma field_valid_eq:
  "readable t \<Longrightarrow> maximum \<le> 4096 \<Longrightarrow>
   apta_metadata_text_field_is_valid t maximum present = Ret (valid_text t maximum present)"
  using order_trans [of "tx_size t" maximum 4096]
  by (auto simp: apta_metadata_text_field_is_valid_def valid_text_def utf8_is_valid_eq not_less)

lemma source_id_eq:
  assumes "readable (mv_application_source_id v)"
  shows "source_id_is_valid v = Ret (let i = mv_application_source_id v; k = mv_application_source_id_kind v
      in k = METADATA_SOURCE_ID_NONE \<and> tx_size i = 0 \<or>
         k = METADATA_SOURCE_ID_TEXT \<and> valid_text i 1024 True \<or>
         k = METADATA_SOURCE_ID_BYTES \<and> tx_size i \<le> 1024 \<and> sized i)"
  using assms order_trans [of "tx_size (mv_application_source_id v)" 1024 4096]
  by (auto simp: source_id_is_valid_def Let_def utf8_is_valid_eq valid_text_def sized_def apta_consts not_less)

lemma oall_Ret: "oall (map Ret bs) = Ret (\<forall>b\<in>set bs. b)"
  by (induction bs) auto

lemma total_unat:
  assumes "tx_size (mv_producer_name v) \<le> 255" "tx_size (mv_producer_version_string v) \<le> 127" "tx_size (mv_backend_name v) \<le> 255"
    "tx_size (mv_backend_version v) \<le> 127" "tx_size (mv_application_source_id v) \<le> 1024" "tx_size (mv_comments v) \<le> 4096"
  shows "unat (metadata_total v) = sum_list (map (\<lambda>t. unat (tx_size t)) (view_texts v))"
    and "sum_list (map (\<lambda>t. unat (tx_size t)) (view_texts v)) \<le> 5884"
proof -
  have b: "unat (tx_size (mv_producer_name v)) \<le> 255" "unat (tx_size (mv_producer_version_string v)) \<le> 127"
    "unat (tx_size (mv_backend_name v)) \<le> 255" "unat (tx_size (mv_backend_version v)) \<le> 127"
    "unat (tx_size (mv_application_source_id v)) \<le> 1024" "unat (tx_size (mv_comments v)) \<le> 4096"
    using assms by (simp_all add: word_le_nat_alt)
  then show "unat (metadata_total v) = sum_list (map (\<lambda>t. unat (tx_size t)) (view_texts v))"
    by (simp add: metadata_total_def view_texts_def unat_word_ariths)
  show "sum_list (map (\<lambda>t. unat (tx_size t)) (view_texts v)) \<le> 5884" using b by (simp add: view_texts_def)
qed

lemma valid_sizes:
  assumes "valid_view v"
  shows "tx_size (mv_producer_name v) \<le> 255" "tx_size (mv_producer_version_string v) \<le> 127" "tx_size (mv_backend_name v) \<le> 255"
    "tx_size (mv_backend_version v) \<le> 127" "tx_size (mv_application_source_id v) \<le> 1024" "tx_size (mv_comments v) \<le> 4096"
  using assms by (auto simp: valid_view_def valid_text_def Let_def split: if_splits)

lemma view_is_valid_eq:
  assumes "\<forall>t\<in>set (view_texts v). readable t"
  shows "apta_metadata_view_is_valid v = Ret (if valid_view v then Some (metadata_total v) else None)"
proof -
  have r: "readable (mv_producer_name v)" "readable (mv_producer_version_string v)" "readable (mv_backend_name v)"
    "readable (mv_backend_version v)" "readable (mv_application_source_id v)" "readable (mv_comments v)"
    using assms by (simp_all add: view_texts_def)
  have all: "oall [Ret (mv_flags v AND NOT METADATA_FLAG_MASK = 0),
        Ret (list_all ((=) 0) (mv_reserved32 v)), Ret (list_all ((=) 0) (mv_reserved64 v)),
        apta_metadata_text_field_is_valid (mv_producer_name v) METADATA_MAX_PRODUCER_NAME_BYTES (has_flag v METADATA_FLAG_PRODUCER_NAME_PRESENT),
        apta_metadata_text_field_is_valid (mv_producer_version_string v) METADATA_MAX_VERSION_STRING_BYTES (has_flag v METADATA_FLAG_PRODUCER_VERSION_PRESENT),
        apta_metadata_text_field_is_valid (mv_backend_name v) METADATA_MAX_BACKEND_NAME_BYTES (has_flag v METADATA_FLAG_BACKEND_NAME_PRESENT),
        apta_metadata_text_field_is_valid (mv_backend_version v) METADATA_MAX_VERSION_STRING_BYTES (has_flag v METADATA_FLAG_BACKEND_VERSION_PRESENT),
        apta_metadata_text_field_is_valid (mv_comments v) METADATA_MAX_COMMENTS_BYTES (has_flag v METADATA_FLAG_COMMENTS_PRESENT),
        source_id_is_valid v] = Ret (valid_view v)"
    by (auto simp: field_valid_eq r source_id_eq valid_view_def list_all_iff eq_commute [of 0]
        METADATA_MAX_PRODUCER_NAME_BYTES_def METADATA_MAX_VERSION_STRING_BYTES_def METADATA_MAX_BACKEND_NAME_BYTES_def
        METADATA_MAX_COMMENTS_BYTES_def)
  have "\<not> ucast MAX_TOTAL_BYTES < metadata_total v" if "valid_view v"
    using total_unat [OF valid_sizes [OF that]] by (simp add: word_less_nat_alt MAX_TOTAL_BYTES_def)
  moreover have "\<not> SIZE_MAX < x" for x by (simp add: not_less)
  ultimately show ?thesis unfolding apta_metadata_view_is_valid_def all by simp
qed


section \<open>What is stored\<close>

definition stored_text :: "bytes \<Rightarrow> nat text_view \<Rightarrow> bytes" where
  "stored_text storage t = (case tx_data t of None \<Rightarrow> [] | Some off \<Rightarrow> take (unat (tx_size t)) (drop off storage))"

definition stored_bytes :: "internal_metadata \<Rightarrow> bytes" where
  "stored_bytes md = (case md_storage md of None \<Rightarrow> [] | Some (p, bs) \<Rightarrow> bs)"

lemma text_length: "readable t \<Longrightarrow> sized t \<Longrightarrow> length (text_bytes t) = unat (tx_size t)"
  by (auto simp: readable_def sized_def text_bytes_def split: option.splits)

lemma copy_one:
  assumes "readable t" "sized t" "off + unat (tx_size t) \<le> length st"
  shows "\<exists>d. apta_metadata_copy_utf8 t st off = Ret (d, take off st @ text_bytes t @ drop (off + unat (tx_size t)) st, off + unat (tx_size t)) \<and>
    tx_size d = tx_size t \<and> tx_data d = (if tx_size t = 0 then None else Some off)"
proof (cases "tx_size t = 0")
  case True
  then have "text_bytes t = []" using text_length [OF assms(1,2)] by simp
  then show ?thesis using True assms by (simp add: apta_metadata_copy_utf8_def no_text_def)
next
  case False
  then obtain bs where bs: "tx_data t = Some bs" using assms(2) by (auto simp: sized_def)
  then have "\<not> length bs < unat (tx_size t)" "text_bytes t = take (unat (tx_size t)) bs"
    using assms(1) by (simp_all add: readable_def text_bytes_def)
  then show ?thesis using False bs assms(3) by (simp add: apta_metadata_copy_utf8_def put_bytes_def)
qed

definition placed :: "nat \<Rightarrow> nat text_view \<Rightarrow> bool" where
  "placed n d \<longleftrightarrow> (case tx_data d of None \<Rightarrow> tx_size d = 0 | Some k \<Rightarrow> k + unat (tx_size d) \<le> n)"

lemma copy_texts_eq:
  assumes "\<forall>t\<in>set ts. readable t \<and> sized t" "off + sum_list (map (\<lambda>t. unat (tx_size t)) ts) \<le> length st"
  shows "\<exists>ds st'. copy_texts ts st off = Ret (ds, st') \<and>
    st' = take off st @ concat (map text_bytes ts) @ drop (off + sum_list (map (\<lambda>t. unat (tx_size t)) ts)) st \<and>
    map tx_size ds = map tx_size ts \<and> map (stored_text st') ds = map text_bytes ts \<and> (\<forall>d\<in>set ds. placed (length st) d)"
  using assms
proof (induction ts arbitrary: st off)
  case (Cons t ts)
  let ?n = "unat (tx_size t)"
  define st1 where "st1 = take off st @ text_bytes t @ drop (off + ?n) st"
  obtain d where d: "apta_metadata_copy_utf8 t st off = Ret (d, st1, off + ?n)"
    "tx_size d = tx_size t" "tx_data d = (if tx_size t = 0 then None else Some off)"
    using copy_one [of t off st] Cons.prems by (auto simp: st1_def)
  have len: "length (text_bytes t) = ?n" "length st1 = length st" using text_length [of t] Cons.prems by (auto simp: st1_def)
  let ?m = "sum_list (map (\<lambda>t. unat (tx_size t)) ts)"
  have p: "\<forall>t\<in>set ts. readable t \<and> sized t" "off + ?n + ?m \<le> length st1" using Cons.prems len by simp_all
  obtain ds st2 where r: "copy_texts ts st1 (off + ?n) = Ret (ds, st2)"
    "st2 = take (off + ?n) st1 @ concat (map text_bytes ts) @ drop (off + ?n + ?m) st1"
    "map tx_size ds = map tx_size ts" "map (stored_text st2) ds = map text_bytes ts" "\<forall>d\<in>set ds. placed (length st1) d"
    using Cons.IH [OF p] by blast
  have st2: "st2 = take off st @ concat (map text_bytes (t # ts)) @ drop (off + (?n + ?m)) st"
    using Cons.prems(2) len(1) by (simp add: r(2) st1_def add.assoc add.commute)
  have "stored_text st2 d = text_bytes t"
    using d(2,3) len Cons.prems(2) by (auto simp: stored_text_def st2)
  moreover have "placed (length st) d" using d(2,3) Cons.prems(2) by (simp add: placed_def)
  moreover have "copy_texts (t # ts) st off = Ret (d # ds, st2)" by (simp add: d(1) r(1))
  ultimately show ?case using st2 r(3-5) d(2) len(2) by auto
qed simp

text \<open>The stored metadata say the same as the input.\<close>

definition says_the_same :: "internal_metadata \<Rightarrow> bytes metadata_view \<Rightarrow> bool" where
  "says_the_same md v \<longleftrightarrow> md_present md \<and>
     map (stored_text (stored_bytes md)) (view_texts (md_view md)) = map text_bytes (view_texts v) \<and>
     map tx_size (view_texts (md_view md)) = map tx_size (view_texts v) \<and>
     mv_flags (md_view md) = mv_flags v \<and> mv_creation_unix_time (md_view md) = mv_creation_unix_time v \<and>
     mv_application_source_id_kind (md_view md) = mv_application_source_id_kind v \<and>
     (\<forall>t\<in>set (view_texts (md_view md)). placed (length (stored_bytes md)) t) \<and>
     length (stored_bytes md) = unat (md_storage_size md)"

lemma valid_sized: "valid_view v \<Longrightarrow> t \<in> set (view_texts v) \<Longrightarrow> sized t"
  by (auto simp: valid_view_def view_texts_def valid_text_def sized_def Let_def split: if_splits)

lemma copied_metadata_ok:
  assumes v: "valid_view v" and r: "\<forall>t\<in>set (view_texts v). readable t" and p: "metadata_total v = 0 \<or> p \<noteq> None"
  shows "\<exists>md. copied_metadata sz v (metadata_total v) p = Ret md \<and> says_the_same md v \<and>
    map_option fst (md_storage md) = p \<and> md_storage_size md = metadata_total v"
proof -
  let ?st = "replicate (unat (metadata_total v)) (0 :: u8)"
  have tot: "unat (metadata_total v) = sum_list (map (\<lambda>t. unat (tx_size t)) (view_texts v))"
    by (rule total_unat(1) [OF valid_sizes [OF v]])
  have six: "length (view_texts x) = 6" for x :: "'p metadata_view" by (simp add: view_texts_def)
  have p0: "\<forall>t\<in>set (view_texts v). readable t \<and> sized t" "0 + sum_list (map (\<lambda>t. unat (tx_size t)) (view_texts v)) \<le> length ?st"
    using r valid_sized [OF v] tot by simp_all
  obtain ds st where c: "copy_texts (view_texts v) ?st 0 = Ret (ds, st)" "st = concat (map text_bytes (view_texts v))"
    "map tx_size ds = map tx_size (view_texts v)" "map (stored_text st) ds = map text_bytes (view_texts v)"
    "\<forall>d\<in>set ds. placed (unat (metadata_total v)) d"
    using copy_texts_eq [OF p0] by (auto simp: tot)
  have len: "length st = unat (metadata_total v)"
    using r valid_sized [OF v] by (simp add: c(2) tot length_concat comp_def text_length cong: map_cong)
  let ?md = "\<lparr>md_view = with_texts sz v ds, md_storage = map_option (\<lambda>p. (p, st)) p, md_storage_size = metadata_total v, md_present = True\<rparr>"
  have bytes: "stored_bytes ?md = st" using p len by (auto simp: stored_bytes_def split: option.split)
  have "length ds = 6" using arg_cong [OF c(3), of length] six [of v] by simp
  then have vt: "view_texts (with_texts sz v ds) = ds"
    by (auto simp: view_texts_def with_texts_def numeral_eq_Suc length_Suc_conv)
  have "says_the_same ?md v" unfolding says_the_same_def bytes
    using c(3-5) len by (simp add: vt) (simp add: with_texts_def)
  moreover have "copied_metadata sz v (metadata_total v) p = Ret ?md" by (simp add: copied_metadata_def c(1))
  moreover have "map_option fst (md_storage ?md) = p" by (cases p) simp_all
  ultimately show ?thesis by auto
qed


lemma copy_validated_ok:
  assumes r: "\<forall>t\<in>set (view_texts input). readable t"
  shows "\<exists>s md ctx'. apta_metadata_copy_validated_view host szv ctx input = Ret (s, md, ctx') \<and>
    (if \<not> valid_view input then s = ERROR_INVALID_ARGUMENT \<and> ctx' = ctx
     else s = STATUS_OK \<and> says_the_same md input \<and> md_storage_size md = metadata_total input \<and>
            same_memory ctx (apta_internal_metadata_cleanup ctx' md) \<or>
          s = ERROR_OUT_OF_MEMORY \<and> metadata_total input \<noteq> 0 \<and> md = zero_metadata \<and> same_memory ctx ctx')"
proof (cases "valid_view input")
  case False
  then show ?thesis by (simp add: apta_metadata_copy_validated_view_def view_is_valid_eq [OF r])
next
  case v: True
  let ?n = "metadata_total input"
  obtain p ctx1 where a: "(if ?n \<noteq> 0 then apta_internal_context_allocate host ctx ?n 1 else (None, ctx)) = (p, ctx1)" by fastforce
  show ?thesis
  proof (cases "?n \<noteq> 0 \<and> p = None")
    case True
    then have "same_memory ctx ctx1" using a context_allocate_None by auto
    then show ?thesis using True v a by (simp add: apta_metadata_copy_validated_view_def view_is_valid_eq [OF r])
  next
    case False
    then obtain md where md: "copied_metadata szv input ?n p = Ret md" "says_the_same md input" "map_option fst (md_storage md) = p"
      "md_storage_size md = ?n"
      using copied_metadata_ok [OF v r, of p szv] by auto
    have "same_memory ctx (apta_internal_metadata_cleanup ctx1 md)"
    proof (cases "?n = 0")
      case True
      then show ?thesis using a md(3) by (auto simp: apta_internal_metadata_cleanup_def apta_internal_context_deallocate_def)
    next
      case nz: False
      then obtain q where q: "p = Some q" using False by auto
      then have "apta_internal_context_allocate host ctx ?n 1 = (Some q, ctx1)" using a nz by simp
      then obtain h where h: "block_added q h ctx ctx1" using context_allocate_Some by blast
      show ?thesis using same_memory_free [OF h same_memory_refl] unfolding apta_internal_metadata_cleanup_def md(3) q .
    qed
    then show ?thesis using False v a md by (auto simp: apta_metadata_copy_validated_view_def view_is_valid_eq [OF r])
  qed
qed

section \<open>Properties\<close>

text \<open>
  C20: the loop that validates UTF-8 reads, for a text of at most \<open>2\<^sup>3\<^sup>2 - 3\<close> bytes (the callers' are of at most
  4096, so that no index wraps around), no byte behind the text and accepts exactly the texts that are
  the encoding of a sequence of Unicode scalar values: no overlong form, no surrogate, no value above 0x10FFFF,
  no truncated sequence; and a null pointer only with size 0.
\<close>
theorem utf8_validation_exact:
  assumes "case data of None \<Rightarrow> True | Some bs \<Rightarrow> unat sz \<le> length bs" "sz \<le> 0xFFFFFFFD"
  shows "apta_metadata_utf8_is_valid data sz =
    Ret (case data of
           None \<Rightarrow> sz = 0
         | Some bs \<Rightarrow> \<exists>cs. (\<forall>c\<in>set cs. c < 0x110000 \<and> \<not> (0xD800 \<le> c \<and> c < 0xE000)) \<and>
             map unat (take (unat sz) bs) = concat (map utf8_code cs))"
proof (cases data)
  case (Some bs)
  then have "apta_metadata_utf8_is_valid data sz = Ret (utf8_text (take (unat sz) bs))"
    using assms by (simp add: apta_metadata_utf8_is_valid_def utf8_loop_eq)
  then show ?thesis using Some by (simp add: utf8_text_def scalar_def)
qed (simp add: apta_metadata_utf8_is_valid_def)

text \<open>
  C21: copying the metadata of a caller accepts exactly the valid inputs (known flags, texts of bounded size in
  UTF-8 where their flag is set and empty elsewhere, a source identifier of a known kind) and reads and writes
  in bounds only.  On success the copy says the same as the input and all its views lie in its own storage;
  releasing it gives all memory back, and a failure keeps none.
\<close>
theorem metadata_copy_faithful:
  assumes "\<forall>t\<in>set (view_texts input). readable t"
  shows "\<exists>s md ctx'. apta_internal_metadata_copy_from_input host szm szv ctx input = Ret (s, md, ctx') \<and>
    (if \<not> apta_internal_validate_struct True szm (mv_struct_size input) (mv_api_version input)
     then s = ERROR_INCOMPATIBLE_VERSION \<and> ctx' = ctx
     else if \<not> valid_view input then s = ERROR_INVALID_ARGUMENT \<and> ctx' = ctx
     else s = STATUS_OK \<and> says_the_same md input \<and> same_memory ctx (apta_internal_metadata_cleanup ctx' md) \<or>
          s = ERROR_OUT_OF_MEMORY \<and> same_memory ctx ctx')"
proof -
  let ?v = "input\<lparr>mv_struct_size := ucast szv\<rparr>"
  have t: "view_texts ?v = view_texts input" "valid_view ?v = valid_view input" "says_the_same md ?v = says_the_same md input" for md
    by (simp_all add: view_texts_def valid_view_def has_flag_def says_the_same_def)
  show ?thesis
  proof (cases "apta_internal_validate_struct True szm (mv_struct_size input) (mv_api_version input)")
    case True
    obtain s md ctx' where r: "apta_metadata_copy_validated_view host szv ctx ?v = Ret (s, md, ctx')"
      "if \<not> valid_view ?v then s = ERROR_INVALID_ARGUMENT \<and> ctx' = ctx
       else s = STATUS_OK \<and> says_the_same md ?v \<and> md_storage_size md = metadata_total ?v \<and>
              same_memory ctx (apta_internal_metadata_cleanup ctx' md) \<or>
            s = ERROR_OUT_OF_MEMORY \<and> metadata_total ?v \<noteq> 0 \<and> md = zero_metadata \<and> same_memory ctx ctx'"
      using copy_validated_ok [of ?v host szv ctx] assms unfolding t(1) by blast
    show ?thesis unfolding apta_internal_metadata_copy_from_input_def using True r(1)
      by (intro exI [of _ s] exI [of _ md] exI [of _ ctx']) (use r(2) in \<open>auto simp: t split: if_splits\<close>)
  qed (simp add: apta_internal_metadata_copy_from_input_def)
qed

section \<open>A concrete input\<close>

definition demo_view :: "bytes metadata_view" where
  "demo_view = (apta_metadata_view_init 160)\<lparr>mv_producer_name := \<lparr>tx_data = Some [0x41, 0xC3, 0xA9, 0], tx_size = 3\<rparr>,
     mv_creation_unix_time := 1700000000, mv_comments := \<lparr>tx_data = Some [0xE2, 0x99, 0xAB], tx_size = 3\<rparr>,
     mv_application_source_id := \<lparr>tx_data = Some [0xFF, 0], tx_size = 2\<rparr>, mv_application_source_id_kind := 2, mv_flags := 49\<rparr>"

lemma demo_view_readable: "\<forall>t\<in>set (view_texts demo_view). readable t"
  by (simp add: view_texts_def demo_view_def apta_metadata_view_init_def zero_view_def no_text_def readable_def)

theorem utf8_validation_exact_witness:
  "apta_metadata_utf8_is_valid (Some [0xE2, 0x99, 0xAB]) 3 = Ret True \<and>
   \<not> (\<exists>cs. (\<forall>c\<in>set cs. c < 0x110000 \<and> \<not> (0xD800 \<le> c \<and> c < 0xE000)) \<and> map unat [0xC0 :: u8, 0x80] = concat (map utf8_code cs))"
proof
  show "apta_metadata_utf8_is_valid (Some [0xE2, 0x99, 0xAB]) 3 = Ret True" by code_simp
  have "apta_metadata_utf8_is_valid (Some [0xC0, 0x80]) 2 = Ret False" by code_simp
  then show "\<not> (\<exists>cs. (\<forall>c\<in>set cs. c < 0x110000 \<and> \<not> (0xD800 \<le> c \<and> c < 0xE000)) \<and> map unat [0xC0 :: u8, 0x80] = concat (map utf8_code cs))"
    using utf8_validation_exact [where data = "Some [0xC0, 0x80]" and sz = 2] by simp
qed

theorem metadata_copy_faithful_witness:
  "\<exists>s md ctx'. apta_internal_metadata_copy_from_input demo_host 160 160 demo_context demo_view = Ret (s, md, ctx') \<and>
     (s = STATUS_OK \<and> stored_bytes md = [0x41, 0xC3, 0xA9, 0xFF, 0, 0xE2, 0x99, 0xAB] \<or> s \<noteq> STATUS_OK \<and> same_memory demo_context ctx')"
proof -
  have "case apta_internal_metadata_copy_from_input demo_host 160 160 demo_context demo_view of
     Ret (s, md, ctx') \<Rightarrow> s = STATUS_OK \<and> stored_bytes md = [0x41, 0xC3, 0xA9, 0xFF, 0, 0xE2, 0x99, 0xAB] | _ \<Rightarrow> False" by code_simp
  then show ?thesis using metadata_copy_faithful [OF demo_view_readable, of demo_host 160 160 demo_context] by auto
qed

end
