(* ===== verification/Apta_Meta.thy ===== *)
theory Apta_Meta
  imports Apta_Metadata
begin

text \<open>
  The metadata payload: a map in deterministic CBOR.  The writer of
  \<^verbatim>\<open>src/serialization/apta_meta_writer.c\<close> and the reader of
  \<^verbatim>\<open>src/serialization/apta_meta_reader.c\<close>, on the bytes of one payload.
\<close>

section \<open>Reading\<close>

definition META_MAX_MAP_ITEMS :: u64 where [apta_consts]: "META_MAX_MAP_ITEMS = 64"
definition META_MAX_CBOR_DEPTH :: nat where [apta_consts]: "META_MAX_CBOR_DEPTH = 8"
definition META_MAX_CBOR_ITEMS :: nat where [apta_consts]: "META_MAX_CBOR_ITEMS = 256"

text \<open>A read that finds no acceptable item gives \<open>None\<close> (0 in the code); the next read is then not tried.\<close>

type_synonym 'a parsed = "'a option outcome"

definition otry :: "'a parsed \<Rightarrow> ('a \<Rightarrow> 'b parsed) \<Rightarrow> 'b parsed" where
  "otry m f = obind m (\<lambda>r. case r of None \<Rightarrow> Ret None | Some a \<Rightarrow> f a)"

lemma otry_cong [fundef_cong]:
  "m = m' \<Longrightarrow> (\<And>a. m' = Ret (Some a) \<Longrightarrow> f a = f' a) \<Longrightarrow> otry m f = otry m' f'"
  by (cases m') (auto simp: otry_def split: option.split)

lemma otry_simps [simp]: "otry (Ret (Some a)) f = f a" "otry (Ret None) f = Ret None" "otry Fault f = Fault"
  by (simp_all add: otry_def)

record meta_cursor =
  mc_position :: nat
  mc_visited_items :: nat

text \<open>The cursor is a position in the payload; \<open>take\<close> gives the position of the bytes taken.\<close>

definition apta_meta_take :: "bytes \<Rightarrow> meta_cursor \<Rightarrow> u64 \<Rightarrow> (nat \<times> meta_cursor) option" where
  "apta_meta_take bs c sz =
     (if length bs < mc_position c then None
      else if length bs - mc_position c < unat sz then None
      else Some (mc_position c, c\<lparr>mc_position := mc_position c + unat sz\<rparr>))"

text \<open>A big-endian number, as the shifts and disjunctions of the code build it.\<close>

fun be_value :: "bytes \<Rightarrow> nat \<Rightarrow> nat \<Rightarrow> u64 \<Rightarrow> u64 outcome" where
  "be_value bs off 0 acc = Ret acc"
| "be_value bs off (Suc n) acc = obind (get_u8 bs off) (\<lambda>b. be_value bs (off + 1) n (push_bit 8 acc OR ucast b))"

definition long_argument :: "bytes \<Rightarrow> meta_cursor \<Rightarrow> nat \<Rightarrow> u64 \<Rightarrow> (u64 \<times> meta_cursor) parsed" where
  "long_argument bs c n too_small =
     otry (Ret (apta_meta_take bs c (of_nat n))) (\<lambda>(data, c1).
     obind (be_value bs data n 0) (\<lambda>v. if v \<le> too_small then Ret None else Ret (Some (v, c1))))"

definition apta_meta_read_argument :: "bytes \<Rightarrow> meta_cursor \<Rightarrow> u8 \<Rightarrow> (u64 \<times> meta_cursor) parsed" where
  "apta_meta_read_argument bs c additional =
     (if additional < 24 then Ret (Some (ucast additional, c))
      else if additional = 24 then long_argument bs c 1 23
      else if additional = 25 then long_argument bs c 2 0xFF
      else if additional = 26 then long_argument bs c 4 0xFFFF
      else if additional = 27 then long_argument bs c 8 0xFFFFFFFF
      else Ret None)"

definition apta_meta_read_head :: "bytes \<Rightarrow> meta_cursor \<Rightarrow> (u8 \<times> u64 \<times> meta_cursor) parsed" where
  "apta_meta_read_head bs c =
     (if mc_position c = length bs then Ret None
      else
        obind (get_u8 bs (mc_position c)) (\<lambda>initial.
        otry (apta_meta_read_argument bs (c\<lparr>mc_position := mc_position c + 1\<rparr>) (initial AND 0x1F)) (\<lambda>(v, c1).
        Ret (Some (drop_bit 5 initial, v, c1)))))"

text \<open>One item without the items nested in it, whose number is the result.\<close>

definition item_head :: "bytes \<Rightarrow> nat \<Rightarrow> meta_cursor \<Rightarrow> (nat \<times> meta_cursor) parsed" where
  "item_head bs depth c =
     (if META_MAX_CBOR_DEPTH < depth \<or> mc_position c = length bs \<or> META_MAX_CBOR_ITEMS \<le> mc_visited_items c then Ret None
      else
        obind (get_u8 bs (mc_position c)) (\<lambda>initial.
        let major = drop_bit 5 initial; additional = initial AND 0x1F;
            c1 = c\<lparr>mc_visited_items := mc_visited_items c + 1, mc_position := mc_position c + 1\<rparr>
        in
        if major = 7
        then
          (if additional < 24 then Ret (Some (0, c1))
           else if additional = 24
           then otry (Ret (apta_meta_take bs c1 1)) (\<lambda>(data, c2).
                obind (get_u8 bs data) (\<lambda>b. if 32 \<le> b then Ret (Some (0, c2)) else Ret None))
           else if additional = 25 then Ret (map_option (\<lambda>(_, c2). (0, c2)) (apta_meta_take bs c1 2))
           else if additional = 26 then Ret (map_option (\<lambda>(_, c2). (0, c2)) (apta_meta_take bs c1 4))
           else if additional = 27 then Ret (map_option (\<lambda>(_, c2). (0, c2)) (apta_meta_take bs c1 8))
           else Ret None)
        else
          otry (apta_meta_read_argument bs c1 additional) (\<lambda>(v, c2).
          if major = 0 \<or> major = 1 then Ret (Some (0, c2))
          else if major = 2 \<or> major = 3
          then (if ucast MAX_TOTAL_BYTES < v then Ret None else Ret (map_option (\<lambda>(_, c3). (0, c3)) (apta_meta_take bs c2 v)))
          else if major = 4 then (if 256 < v then Ret None else Ret (Some (unat v, c2)))
          else if major = 5 then (if 128 < v then Ret None else Ret (Some (2 * unat v, c2)))
          else if major = 6 then Ret (Some (1, c2))
          else Ret None)))"

text \<open>A sequence of items at one depth: the loops of arrays and maps; a tag nests one item.\<close>

function skip_items :: "bytes \<Rightarrow> nat \<Rightarrow> nat \<Rightarrow> meta_cursor \<Rightarrow> meta_cursor parsed" where
  "skip_items bs depth n c =
     (if n = 0 then Ret (Some c)
      else if META_MAX_CBOR_DEPTH < depth then Ret None
      else
        otry (item_head bs depth c) (\<lambda>(nested, c1).
        otry (skip_items bs (depth + 1) nested c1) (\<lambda>c2.
        skip_items bs depth (n - 1) c2)))"
  by pat_completeness auto
termination by (relation "measures [\<lambda>(bs, depth, n, c). 9 - depth, \<lambda>(bs, depth, n, c). n]") (auto simp: META_MAX_CBOR_DEPTH_def)

declare skip_items.simps [simp del]

definition apta_meta_skip_item :: "bytes \<Rightarrow> nat \<Rightarrow> meta_cursor \<Rightarrow> meta_cursor parsed" where
  "apta_meta_skip_item bs depth c = skip_items bs depth 1 c"

definition apta_meta_read_text :: "bytes \<Rightarrow> meta_cursor \<Rightarrow> u32 \<Rightarrow> (nat text_view \<times> meta_cursor) parsed" where
  "apta_meta_read_text bs c maximum_size =
     otry (apta_meta_read_head bs c) (\<lambda>(major, sz, c1).
     if major \<noteq> 3 \<or> ucast maximum_size < sz \<or> ucast UINT32_MAX < sz then Ret None
     else
       Ret (map_option (\<lambda>(data, c2). (\<lparr>tx_data = (if sz = 0 then None else Some data), tx_size = ucast sz\<rparr>, c2))
              (apta_meta_take bs c1 sz)))"

definition apta_meta_read_source_id :: "bytes \<Rightarrow> meta_cursor \<Rightarrow> (nat text_view \<times> u32 \<times> meta_cursor) parsed" where
  "apta_meta_read_source_id bs c =
     otry (apta_meta_read_head bs c) (\<lambda>(major, sz, c1).
     if (major \<noteq> 2 \<and> major \<noteq> 3) \<or> ucast METADATA_MAX_SOURCE_ID_BYTES < sz \<or> ucast UINT32_MAX < sz then Ret None
     else
       Ret (map_option (\<lambda>(data, c2). (\<lparr>tx_data = (if sz = 0 then None else Some data), tx_size = ucast sz\<rparr>,
                if major = 3 then METADATA_SOURCE_ID_TEXT else METADATA_SOURCE_ID_BYTES, c2))
              (apta_meta_take bs c1 sz)))"

definition set_flag :: "u32 \<Rightarrow> 'p metadata_view \<Rightarrow> 'p metadata_view" where
  "set_flag flag w = w\<lparr>mv_flags := mv_flags w OR flag\<rparr>"

text \<open>The value of one key: the \<open>switch\<close> of the loop.\<close>

definition read_value :: "bytes \<Rightarrow> u64 \<Rightarrow> meta_cursor \<Rightarrow> nat metadata_view \<Rightarrow> (nat metadata_view \<times> meta_cursor) parsed" where
  "read_value bs key c w =
     (if key = 1
      then otry (apta_meta_read_text bs c METADATA_MAX_PRODUCER_NAME_BYTES) (\<lambda>(t, c1).
           Ret (Some (set_flag METADATA_FLAG_PRODUCER_NAME_PRESENT (w\<lparr>mv_producer_name := t\<rparr>), c1)))
      else if key = 2
      then otry (apta_meta_read_text bs c METADATA_MAX_VERSION_STRING_BYTES) (\<lambda>(t, c1).
           Ret (Some (set_flag METADATA_FLAG_PRODUCER_VERSION_PRESENT (w\<lparr>mv_producer_version_string := t\<rparr>), c1)))
      else if key = 3
      then otry (apta_meta_read_text bs c METADATA_MAX_BACKEND_NAME_BYTES) (\<lambda>(t, c1).
           Ret (Some (set_flag METADATA_FLAG_BACKEND_NAME_PRESENT (w\<lparr>mv_backend_name := t\<rparr>), c1)))
      else if key = 4
      then otry (apta_meta_read_text bs c METADATA_MAX_VERSION_STRING_BYTES) (\<lambda>(t, c1).
           Ret (Some (set_flag METADATA_FLAG_BACKEND_VERSION_PRESENT (w\<lparr>mv_backend_version := t\<rparr>), c1)))
      else if key = 5
      then otry (apta_meta_read_head bs c) (\<lambda>(major, v, c1).
           if major \<noteq> 0 then Ret None
           else Ret (Some (set_flag METADATA_FLAG_CREATION_TIME_PRESENT (w\<lparr>mv_creation_unix_time := v\<rparr>), c1)))
      else if key = 6
      then otry (apta_meta_read_source_id bs c) (\<lambda>(t, kind, c1).
           Ret (Some (w\<lparr>mv_application_source_id := t, mv_application_source_id_kind := kind\<rparr>, c1)))
      else if key = 7
      then otry (apta_meta_read_text bs c METADATA_MAX_COMMENTS_BYTES) (\<lambda>(t, c1).
           Ret (Some (set_flag METADATA_FLAG_COMMENTS_PRESENT (w\<lparr>mv_comments := t\<rparr>), c1)))
      else otry (apta_meta_skip_item bs 1 c) (\<lambda>c1. Ret (Some (w, c1))))"

fun read_entries :: "bytes \<Rightarrow> nat \<Rightarrow> meta_cursor \<Rightarrow> u64 option \<Rightarrow> nat metadata_view \<Rightarrow> (nat metadata_view \<times> meta_cursor) parsed" where
  "read_entries bs 0 c previous_key w = Ret (Some (w, c))"
| "read_entries bs (Suc n) c previous_key w =
     otry (apta_meta_read_head bs c) (\<lambda>(major, key, c1).
     if major \<noteq> 0 \<or> (case previous_key of None \<Rightarrow> False | Some k \<Rightarrow> key \<le> k) then Ret None
     else otry (read_value bs key c1 w) (\<lambda>(w1, c2). read_entries bs n c2 (Some key) w1))"

definition apta_meta_parse_payload :: "usize \<Rightarrow> bytes \<Rightarrow> nat metadata_view parsed" where
  "apta_meta_parse_payload sizeof_view bs =
     otry (apta_meta_read_head bs \<lparr>mc_position = 0, mc_visited_items = 0\<rparr>) (\<lambda>(major, map_count, c).
     if major \<noteq> 5 \<or> META_MAX_MAP_ITEMS < map_count then Ret None
     else
       otry (read_entries bs (unat map_count) c None (apta_metadata_view_init sizeof_view)) (\<lambda>(w, c1).
       Ret (if mc_position c1 = length bs then Some w else None)))"

section \<open>Writing\<close>

definition apta_cbor_head_size :: "u64 \<Rightarrow> u64" where
  "apta_cbor_head_size v = (if v < 24 then 1 else if v \<le> 0xFF then 2 else if v \<le> 0xFFFF then 3 else if v \<le> ucast UINT32_MAX then 5 else 9)"

text \<open>The output so far, and behind it what is written.\<close>

definition apta_cbor_write_head :: "bytes \<Rightarrow> u8 \<Rightarrow> u64 \<Rightarrow> bytes" where
  "apta_cbor_write_head out major v =
     (let initial = push_bit 5 major
      in if v < 24 then out @ [initial OR ucast v]
         else if v \<le> 0xFF then out @ [initial OR 24, ucast v]
         else if v \<le> 0xFFFF then out @ [initial OR 25, ucast (drop_bit 8 v), ucast v]
         else if v \<le> ucast UINT32_MAX
         then out @ [initial OR 26, ucast (drop_bit 24 v), ucast (drop_bit 16 v), ucast (drop_bit 8 v), ucast v]
         else out @ [initial OR 27, ucast (drop_bit 56 v), ucast (drop_bit 48 v), ucast (drop_bit 40 v), ucast (drop_bit 32 v),
                ucast (drop_bit 24 v), ucast (drop_bit 16 v), ucast (drop_bit 8 v), ucast v])"

definition flag_bit :: "'p metadata_view \<Rightarrow> u32 \<Rightarrow> u32" where
  "flag_bit w flag = (if has_flag w flag then 1 else 0)"

definition apta_meta_item_count :: "'p metadata_view \<Rightarrow> u32" where
  "apta_meta_item_count w =
     flag_bit w METADATA_FLAG_PRODUCER_NAME_PRESENT + flag_bit w METADATA_FLAG_PRODUCER_VERSION_PRESENT +
     flag_bit w METADATA_FLAG_BACKEND_NAME_PRESENT + flag_bit w METADATA_FLAG_BACKEND_VERSION_PRESENT +
     flag_bit w METADATA_FLAG_CREATION_TIME_PRESENT +
     (if mv_application_source_id_kind w \<noteq> METADATA_SOURCE_ID_NONE then 1 else 0) +
     flag_bit w METADATA_FLAG_COMMENTS_PRESENT"

definition apta_meta_text_item_size :: "u32 \<Rightarrow> u64" where
  "apta_meta_text_item_size sz = 1 + apta_cbor_head_size (ucast sz) + ucast sz"

definition size_if :: "bool \<Rightarrow> u64 \<Rightarrow> u64" where
  "size_if present sz = (if present then sz else 0)"

definition apta_meta_measure_payload :: "'p metadata_view \<Rightarrow> u64" where
  "apta_meta_measure_payload w =
     apta_cbor_head_size (ucast (apta_meta_item_count w)) +
     size_if (has_flag w METADATA_FLAG_PRODUCER_NAME_PRESENT) (apta_meta_text_item_size (tx_size (mv_producer_name w))) +
     size_if (has_flag w METADATA_FLAG_PRODUCER_VERSION_PRESENT) (apta_meta_text_item_size (tx_size (mv_producer_version_string w))) +
     size_if (has_flag w METADATA_FLAG_BACKEND_NAME_PRESENT) (apta_meta_text_item_size (tx_size (mv_backend_name w))) +
     size_if (has_flag w METADATA_FLAG_BACKEND_VERSION_PRESENT) (apta_meta_text_item_size (tx_size (mv_backend_version w))) +
     size_if (has_flag w METADATA_FLAG_CREATION_TIME_PRESENT) (1 + apta_cbor_head_size (mv_creation_unix_time w)) +
     size_if (mv_application_source_id_kind w \<noteq> METADATA_SOURCE_ID_NONE)
       (apta_meta_text_item_size (tx_size (mv_application_source_id w))) +
     size_if (has_flag w METADATA_FLAG_COMMENTS_PRESENT) (apta_meta_text_item_size (tx_size (mv_comments w)))"

text \<open>Copying a stored text; its bytes must lie in the storage.\<close>

definition write_stored :: "bytes \<Rightarrow> bytes \<Rightarrow> nat text_view \<Rightarrow> bytes outcome" where
  "write_stored storage out t =
     (if tx_size t = 0 then Ret out
      else
        (case tx_data t of
           None \<Rightarrow> Fault
         | Some off \<Rightarrow>
             if off + unat (tx_size t) \<le> length storage then Ret (out @ take (unat (tx_size t)) (drop off storage)) else Fault))"

definition apta_meta_write_text :: "bytes \<Rightarrow> bytes \<Rightarrow> u8 \<Rightarrow> nat text_view \<Rightarrow> bytes outcome" where
  "apta_meta_write_text storage out key t =
     write_stored storage (apta_cbor_write_head (out @ [key]) 3 (ucast (tx_size t))) t"

definition write_if :: "bool \<Rightarrow> (bytes \<Rightarrow> bytes outcome) \<Rightarrow> bytes \<Rightarrow> bytes outcome" where
  "write_if present f out = (if present then f out else Ret out)"

definition apta_meta_write_payload :: "bytes \<Rightarrow> bytes \<Rightarrow> nat metadata_view \<Rightarrow> bytes outcome" where
  "apta_meta_write_payload storage out w =
     obind (write_if (has_flag w METADATA_FLAG_PRODUCER_NAME_PRESENT)
              (\<lambda>out. apta_meta_write_text storage out 1 (mv_producer_name w))
              (apta_cbor_write_head out 5 (ucast (apta_meta_item_count w)))) (\<lambda>out.
     obind (write_if (has_flag w METADATA_FLAG_PRODUCER_VERSION_PRESENT)
              (\<lambda>out. apta_meta_write_text storage out 2 (mv_producer_version_string w)) out) (\<lambda>out.
     obind (write_if (has_flag w METADATA_FLAG_BACKEND_NAME_PRESENT)
              (\<lambda>out. apta_meta_write_text storage out 3 (mv_backend_name w)) out) (\<lambda>out.
     obind (write_if (has_flag w METADATA_FLAG_BACKEND_VERSION_PRESENT)
              (\<lambda>out. apta_meta_write_text storage out 4 (mv_backend_version w)) out) (\<lambda>out.
     obind (write_if (has_flag w METADATA_FLAG_CREATION_TIME_PRESENT)
              (\<lambda>out. Ret (apta_cbor_write_head (out @ [5]) 0 (mv_creation_unix_time w))) out) (\<lambda>out.
     obind (write_if (mv_application_source_id_kind w \<noteq> METADATA_SOURCE_ID_NONE)
              (\<lambda>out. write_stored storage
                (apta_cbor_write_head (out @ [6]) (if mv_application_source_id_kind w = METADATA_SOURCE_ID_TEXT then 3 else 2)
                   (ucast (tx_size (mv_application_source_id w)))) (mv_application_source_id w)) out) (\<lambda>out.
     write_if (has_flag w METADATA_FLAG_COMMENTS_PRESENT)
       (\<lambda>out. apta_meta_write_text storage out 7 (mv_comments w)) out))))))"

end
