(* ===== verification/Apta_Meta_Items.thy ===== *)
theory Apta_Meta_Items
  imports Apta_Meta
begin

text \<open>
  A written metadata payload as a list of items, what the writer puts out for each, and what the
  reader makes of it: reading the payload of a stored view gives a view that says the same.
\<close>

section \<open>Reading what was written\<close>

definition cbor_head :: "u8 \<Rightarrow> u64 \<Rightarrow> bytes" where
  "cbor_head major v = apta_cbor_write_head [] major v"

lemma write_head_append: "apta_cbor_write_head out major v = out @ cbor_head major v"
  by (simp add: cbor_head_def apta_cbor_write_head_def Let_def)

lemma cbor_head_length: "length (cbor_head major v) = unat (apta_cbor_head_size v)"
  by (simp add: cbor_head_def apta_cbor_write_head_def Let_def apta_cbor_head_size_def)

lemma mask5: "(0x1F :: u8) = mask 5"
  by (simp add: mask_eq_exp_minus_1)

lemma initial_byte:
  assumes "major < 8" "x < 32"
  shows "(push_bit 5 major OR x) AND 0x1F = (x :: u8)" "drop_bit 5 (push_bit 5 major OR x) = (major :: u8)"
proof -
  have x: "take_bit 5 x = x" and m: "take_bit 3 major = major" using assms by (simp_all add: take_bit_eq_mask less_mask_eq)
  have "(push_bit 5 major OR take_bit 5 x) AND mask 5 = take_bit 5 x" by (rule bit_word_eqI) (auto simp: bit_simps)
  then show "(push_bit 5 major OR x) AND 0x1F = x" by (simp add: mask5 x)
  have "drop_bit 5 (push_bit 5 major OR take_bit 5 x) = take_bit 3 major" by (rule bit_word_eqI) (auto simp: bit_simps)
  then show "drop_bit 5 (push_bit 5 major OR x) = major" by (simp add: x m)
qed

lemma be_step:
  fixes w :: u64
  shows "push_bit 8 (take_bit k (drop_bit 8 w)) OR ucast (ucast w :: u8) = take_bit (k + 8) w"
proof (rule bit_word_eqI)
  fix n assume "n < LENGTH(64)"
  then show "bit (push_bit 8 (take_bit k (drop_bit 8 w)) OR ucast (ucast w :: u8)) n = bit (take_bit (k + 8) w) n"
    by (cases "n < 8") (auto simp: bit_simps less_diff_conv)
qed

lemma be_join:
  fixes v :: u64
  shows "v \<le> 0xFF \<Longrightarrow> ucast (ucast v :: u8) = v"
    "v \<le> 0xFFFF \<Longrightarrow> push_bit 8 (ucast (ucast (drop_bit 8 v) :: u8)) OR ucast (ucast v :: u8) = v"
    "v \<le> 0xFFFFFFFF \<Longrightarrow> push_bit 8 (push_bit 8 (push_bit 8 (ucast (ucast (drop_bit 24 v) :: u8)) OR ucast (ucast (drop_bit 16 v) :: u8)) OR
       ucast (ucast (drop_bit 8 v) :: u8)) OR ucast (ucast v :: u8) = v"
    "push_bit 8 (push_bit 8 (push_bit 8 (push_bit 8 (push_bit 8 (push_bit 8 (push_bit 8 (ucast (ucast (drop_bit 56 v) :: u8)) OR
       ucast (ucast (drop_bit 48 v) :: u8)) OR ucast (ucast (drop_bit 40 v) :: u8)) OR ucast (ucast (drop_bit 32 v) :: u8)) OR
       ucast (ucast (drop_bit 24 v) :: u8)) OR ucast (ucast (drop_bit 16 v) :: u8)) OR
       ucast (ucast (drop_bit 8 v) :: u8)) OR ucast (ucast v :: u8) = v"
proof -
  have t: "v \<le> 0xFF \<Longrightarrow> take_bit 8 v = v" "v \<le> 0xFFFF \<Longrightarrow> take_bit 16 v = v" "v \<le> 0xFFFFFFFF \<Longrightarrow> take_bit 32 v = v"
    by (simp_all only: take_bit_eq_mask) (rule less_mask_eq, simp add: word_le_nat_alt word_less_nat_alt)+
  have low: "ucast (ucast w :: u8) = take_bit 8 w" for w :: u64 by (rule bit_word_eqI) (auto simp: bit_simps)
  have step: "push_bit 8 (take_bit k (drop_bit (m + 8) v)) OR ucast (ucast (drop_bit m v) :: u8) = take_bit (k + 8) (drop_bit m v)" for k m
    using be_step [of k "drop_bit m v"] by (simp add: add.commute)
  have s0: "push_bit 8 (take_bit k (drop_bit 8 v)) OR ucast (ucast v :: u8) = take_bit (k + 8) v" for k by (rule be_step)
  show "v \<le> 0xFF \<Longrightarrow> ucast (ucast v :: u8) = v" using t low by simp
  show "v \<le> 0xFFFF \<Longrightarrow> push_bit 8 (ucast (ucast (drop_bit 8 v) :: u8)) OR ucast (ucast v :: u8) = v"
    using t s0 [of 8] by (simp add: low)
  have a: "push_bit 8 (ucast (ucast (drop_bit 24 v) :: u8)) OR ucast (ucast (drop_bit 16 v) :: u8) = take_bit 16 (drop_bit 16 v)"
    using step [of 8 16] by (simp only: low [symmetric]) (simp add: low)
  have b: "push_bit 8 (take_bit 16 (drop_bit 16 v)) OR ucast (ucast (drop_bit 8 v) :: u8) = take_bit 24 (drop_bit 8 v)"
    using step [of 16 8] by simp
  show "v \<le> 0xFFFFFFFF \<Longrightarrow> push_bit 8 (push_bit 8 (push_bit 8 (ucast (ucast (drop_bit 24 v) :: u8)) OR ucast (ucast (drop_bit 16 v) :: u8)) OR
       ucast (ucast (drop_bit 8 v) :: u8)) OR ucast (ucast v :: u8) = v"
    unfolding a b using s0 [of 24] t by simp
  have c: "push_bit 8 (ucast (ucast (drop_bit 56 v) :: u8)) OR ucast (ucast (drop_bit 48 v) :: u8) = take_bit 16 (drop_bit 48 v)"
    using step [of 8 48] by (simp only: low [symmetric]) (simp add: low)
  show "push_bit 8 (push_bit 8 (push_bit 8 (push_bit 8 (push_bit 8 (push_bit 8 (push_bit 8 (ucast (ucast (drop_bit 56 v) :: u8)) OR
       ucast (ucast (drop_bit 48 v) :: u8)) OR ucast (ucast (drop_bit 40 v) :: u8)) OR ucast (ucast (drop_bit 32 v) :: u8)) OR
       ucast (ucast (drop_bit 24 v) :: u8)) OR ucast (ucast (drop_bit 16 v) :: u8)) OR
       ucast (ucast (drop_bit 8 v) :: u8)) OR ucast (ucast v :: u8) = v"
    unfolding c using take_bit_word_eq_self [of 64 v] step [of 16 40] step [of 24 32] step [of 32 24] step [of 40 16] step [of 48 8] s0 [of 56] by simp
qed

lemma get_u8_append: "get_u8 (pre @ b # post) (length pre) = Ret b"
  by (simp add: get_u8_def nth_append)

lemma be_value_append:
  "be_value (pre @ ds @ post) (length pre) (length ds) acc = Ret (foldl (\<lambda>acc b. push_bit 8 acc OR ucast b) acc ds)"
proof (induction ds arbitrary: pre acc)
  case (Cons d ds)
  show ?case using Cons.IH [of "pre @ [d]"] by (simp add: get_u8_append)
qed simp

lemma take_append_at:
  "mc_position c = length pre \<Longrightarrow> unat sz = length ds \<Longrightarrow>
   apta_meta_take (pre @ ds @ post) c sz = Some (length pre, c\<lparr>mc_position := length pre + length ds\<rparr>)"
  by (simp add: apta_meta_take_def)

lemma long_argument_at:
  assumes "mc_position c = length pre" "length ds < 9" "\<not> foldl (\<lambda>acc b. push_bit 8 acc OR ucast b) 0 ds \<le> small"
  shows "long_argument (pre @ ds @ post) c (length ds) small =
    Ret (Some (foldl (\<lambda>acc b. push_bit 8 acc OR ucast b) 0 ds, c\<lparr>mc_position := length pre + length ds\<rparr>))"
proof -
  have "unat (of_nat (length ds) :: u64) = length ds" using assms(2) by (simp add: unat_of_nat take_bit_nat_eq_self)
  then show ?thesis using assms
    by (simp add: long_argument_def take_append_at be_value_append)
qed

lemma read_head_at:
  assumes "mc_position c = length pre" "major < 8"
  shows "apta_meta_read_head (pre @ cbor_head major v @ post) c =
    Ret (Some (major, v, c\<lparr>mc_position := length pre + length (cbor_head major v)\<rparr>))"
proof -
  have head: "apta_meta_read_head (pre @ (i # ds) @ post) c =
      Ret (Some (major, v, c\<lparr>mc_position := length pre + length (i # ds)\<rparr>))"
    if i: "i = push_bit 5 major OR x" "x < 32"
      and a: "apta_meta_read_argument ((pre @ [i]) @ ds @ post) (c\<lparr>mc_position := length pre + 1\<rparr>) x =
        Ret (Some (v, c\<lparr>mc_position := length pre + 1 + length ds\<rparr>))" for i ds x
    using a assms(1) initial_byte [OF assms(2) i(2)] i(1)
    by (simp add: apta_meta_read_head_def get_u8_append)
  let ?c1 = "c\<lparr>mc_position := length pre + 1\<rparr>"
  have arg: "long_argument ((pre @ [i]) @ ds @ post) ?c1 (length ds) small = Ret (Some (v, c\<lparr>mc_position := length pre + 1 + length ds\<rparr>))"
    if "length ds < 9" "foldl (\<lambda>acc b. push_bit 8 acc OR ucast b) 0 ds = v" "\<not> v \<le> small" for i ds small
    using long_argument_at [of ?c1 "pre @ [i]" ds small post] that by simp
  consider "v < 24" | "24 \<le> v" "v \<le> 0xFF" | "0xFF < v" "v \<le> 0xFFFF" | "0xFFFF < v" "v \<le> 0xFFFFFFFF" | "0xFFFFFFFF < v" by force
  then show ?thesis
  proof cases
    case 1
    have "ucast (ucast v :: u8) = v" using be_join(1) [of v] 1 by (simp add: word_le_nat_alt word_less_nat_alt)
    moreover have "(ucast v :: u8) < 24" using 1 by (simp add: word_less_nat_alt unsigned_ucast_eq take_bit_nat_eq_self)
    moreover have "(ucast v :: u8) < 32" using 1 by (simp add: word_less_nat_alt unsigned_ucast_eq take_bit_nat_eq_self)
    ultimately show ?thesis using head [of "push_bit 5 major OR ucast v" "ucast v" "[]"] 1
      by (simp add: cbor_head_def apta_cbor_write_head_def Let_def apta_meta_read_argument_def)
  next
    case 2
    have l: "length [ucast v :: u8] = 1" by simp
    have n: "\<not> v \<le> 23" "\<not> v < 24" using 2(1) by (simp_all add: word_le_nat_alt word_less_nat_alt)
    from head [OF refl _, of 24 "[ucast v]"] arg [of "[ucast v]" 23, OF _ _ n(1), unfolded l] 2 n(2) be_join(1) [of v] show ?thesis
      by (simp add: cbor_head_def apta_cbor_write_head_def Let_def apta_meta_read_argument_def)
  next
    case 3
    let ?ds = "[ucast (drop_bit 8 v), ucast v] :: bytes"
    have l: "length ?ds = 2" by simp
    have "\<not> v \<le> 0xFF" "\<not> v < 24" using 3(1) by (simp_all add: word_le_nat_alt word_less_nat_alt)
    then show ?thesis using head [OF refl _, of 25 ?ds] arg [of ?ds "0xFF", unfolded l] 3 be_join(2) [of v]
      by (simp add: cbor_head_def apta_cbor_write_head_def Let_def apta_meta_read_argument_def)
  next
    case 4
    let ?ds = "[ucast (drop_bit 24 v), ucast (drop_bit 16 v), ucast (drop_bit 8 v), ucast v] :: bytes"
    have l: "length ?ds = 4" by simp
    have "\<not> v \<le> 0xFFFF" "\<not> v \<le> 0xFF" "\<not> v < 24" using 4(1) by (simp_all add: word_le_nat_alt word_less_nat_alt)
    then show ?thesis using head [OF refl _, of 26 ?ds] arg [of ?ds "0xFFFF", unfolded l] 4 be_join(3) [of v]
      by (simp add: cbor_head_def apta_cbor_write_head_def Let_def apta_meta_read_argument_def UINT32_MAX_def)
  next
    case 5
    let ?ds = "[ucast (drop_bit 56 v), ucast (drop_bit 48 v), ucast (drop_bit 40 v), ucast (drop_bit 32 v),
      ucast (drop_bit 24 v), ucast (drop_bit 16 v), ucast (drop_bit 8 v), ucast v] :: bytes"
    have l: "length ?ds = 8" by simp
    have "\<not> v \<le> 0xFFFFFFFF" "\<not> v \<le> 0xFFFF" "\<not> v \<le> 0xFF" "\<not> v < 24" using 5(1) by (simp_all add: word_le_nat_alt word_less_nat_alt)
    then show ?thesis using head [OF refl _, of 27 ?ds] arg [of ?ds "0xFFFFFFFF", unfolded l] be_join(4) [of v]
      by (simp add: cbor_head_def apta_cbor_write_head_def Let_def apta_meta_read_argument_def UINT32_MAX_def)
  qed
qed

section \<open>The items of a payload\<close>

text \<open>What the writer puts out, item by item, and what the reader makes of each item.\<close>

datatype meta_item = Text_item u8 bytes | Time_item u64 | Id_item u32 bytes

definition text_item_bytes :: "u8 \<Rightarrow> u8 \<Rightarrow> bytes \<Rightarrow> bytes" where
  "text_item_bytes key major bs = key # cbor_head major (of_nat (length bs)) @ bs"

fun item_bytes :: "meta_item \<Rightarrow> bytes" where
  "item_bytes (Text_item key bs) = text_item_bytes key 3 bs"
| "item_bytes (Time_item v) = 5 # cbor_head 0 v"
| "item_bytes (Id_item kind bs) = text_item_bytes 6 (if kind = METADATA_SOURCE_ID_TEXT then 3 else 2) bs"

fun item_key :: "meta_item \<Rightarrow> nat" where
  "item_key (Text_item key bs) = unat key"
| "item_key (Time_item v) = 5"
| "item_key (Id_item kind bs) = 6"

definition text_limit :: "u8 \<Rightarrow> nat" where
  "text_limit key = (if key = 1 \<or> key = 3 then 255 else if key = 2 \<or> key = 4 then 127 else 4096)"

fun item_ok :: "meta_item \<Rightarrow> bool" where
  "item_ok (Text_item key bs) \<longleftrightarrow> key \<in> {1, 2, 3, 4, 7} \<and> length bs \<le> text_limit key"
| "item_ok (Time_item v) \<longleftrightarrow> True"
| "item_ok (Id_item kind bs) \<longleftrightarrow> (kind = METADATA_SOURCE_ID_TEXT \<or> kind = METADATA_SOURCE_ID_BYTES) \<and> length bs \<le> 1024"

definition key_flag :: "u8 \<Rightarrow> u32" where
  "key_flag key =
     (if key = 1 then METADATA_FLAG_PRODUCER_NAME_PRESENT else if key = 2 then METADATA_FLAG_PRODUCER_VERSION_PRESENT
      else if key = 3 then METADATA_FLAG_BACKEND_NAME_PRESENT else if key = 4 then METADATA_FLAG_BACKEND_VERSION_PRESENT
      else METADATA_FLAG_COMMENTS_PRESENT)"

definition with_key_text :: "u8 \<Rightarrow> 'p text_view \<Rightarrow> 'p metadata_view \<Rightarrow> 'p metadata_view" where
  "with_key_text key t w =
     (if key = 1 then w\<lparr>mv_producer_name := t\<rparr> else if key = 2 then w\<lparr>mv_producer_version_string := t\<rparr>
      else if key = 3 then w\<lparr>mv_backend_name := t\<rparr> else if key = 4 then w\<lparr>mv_backend_version := t\<rparr> else w\<lparr>mv_comments := t\<rparr>)"

definition parsed_text :: "nat \<Rightarrow> bytes \<Rightarrow> nat text_view" where
  "parsed_text position bs = \<lparr>tx_data = (if bs = [] then None else Some position), tx_size = of_nat (length bs)\<rparr>"

fun apply_item :: "nat \<Rightarrow> meta_item \<Rightarrow> nat metadata_view \<Rightarrow> nat metadata_view" where
  "apply_item position (Text_item key bs) w = set_flag (key_flag key) (with_key_text key (parsed_text position bs) w)"
| "apply_item position (Time_item v) w = set_flag METADATA_FLAG_CREATION_TIME_PRESENT (w\<lparr>mv_creation_unix_time := v\<rparr>)"
| "apply_item position (Id_item kind bs) w =
     w\<lparr>mv_application_source_id := parsed_text position bs, mv_application_source_id_kind := kind\<rparr>"

fun item_text :: "meta_item \<Rightarrow> bytes" where
  "item_text (Text_item key bs) = bs"
| "item_text (Time_item v) = []"
| "item_text (Id_item kind bs) = bs"

lemma of_nat_small:
  assumes "n \<le> 4096"
  shows "unat (of_nat n :: u64) = n" "unat (of_nat n :: u32) = n" "(of_nat n :: u64) = 0 \<longleftrightarrow> n = 0"
    "ucast (of_nat n :: u64) = (of_nat n :: u32)"
  using assms by (simp_all add: unat_of_nat take_bit_nat_eq_self word_unat_eq_iff unsigned_ucast_eq)

lemma read_text_at:
  assumes "mc_position c = length pre" "length bs \<le> unat maximum" "length bs \<le> 4096"
  shows "apta_meta_read_text (pre @ cbor_head 3 (of_nat (length bs)) @ bs @ post) c maximum =
    Ret (Some (parsed_text (length pre + length (cbor_head 3 (of_nat (length bs)))) bs,
      c\<lparr>mc_position := length pre + length (cbor_head 3 (of_nat (length bs))) + length bs\<rparr>))"
proof -
  let ?h = "cbor_head 3 (of_nat (length bs))"
  have h: "apta_meta_read_head (pre @ ?h @ bs @ post) c = Ret (Some (3, of_nat (length bs), c\<lparr>mc_position := length pre + length ?h\<rparr>))"
    by (rule read_head_at [OF assms(1)]) simp
  have t: "apta_meta_take ((pre @ ?h) @ bs @ post) (c\<lparr>mc_position := length pre + length ?h\<rparr>) (of_nat (length bs)) =
      Some (length pre + length ?h, c\<lparr>mc_position := length pre + length ?h + length bs\<rparr>)"
    by (subst take_append_at) (simp_all add: of_nat_small [OF assms(3)])
  have "\<not> ucast maximum < (of_nat (length bs) :: u64)" "\<not> ucast UINT32_MAX < (of_nat (length bs) :: u64)"
    using assms(2,3) by (simp_all add: word_less_nat_alt of_nat_small)
  then show ?thesis using h t by (simp add: apta_meta_read_text_def parsed_text_def of_nat_small [OF assms(3)])
qed

lemma read_source_id_at:
  assumes "mc_position c = length pre" "length bs \<le> 1024" "major = 2 \<or> major = 3"
  shows "apta_meta_read_source_id (pre @ cbor_head major (of_nat (length bs)) @ bs @ post) c =
    Ret (Some (parsed_text (length pre + length (cbor_head major (of_nat (length bs)))) bs,
      if major = 3 then METADATA_SOURCE_ID_TEXT else METADATA_SOURCE_ID_BYTES,
      c\<lparr>mc_position := length pre + length (cbor_head major (of_nat (length bs))) + length bs\<rparr>))"
proof -
  let ?h = "cbor_head major (of_nat (length bs))"
  have len: "length bs \<le> 4096" using assms(2) by simp
  have h: "apta_meta_read_head (pre @ ?h @ bs @ post) c = Ret (Some (major, of_nat (length bs), c\<lparr>mc_position := length pre + length ?h\<rparr>))"
    by (rule read_head_at [OF assms(1)]) (use assms(3) in auto)
  have t: "apta_meta_take ((pre @ ?h) @ bs @ post) (c\<lparr>mc_position := length pre + length ?h\<rparr>) (of_nat (length bs)) =
      Some (length pre + length ?h, c\<lparr>mc_position := length pre + length ?h + length bs\<rparr>)"
    by (subst take_append_at) (simp_all add: of_nat_small [OF len])
  have "\<not> ucast METADATA_MAX_SOURCE_ID_BYTES < (of_nat (length bs) :: u64)" "\<not> ucast UINT32_MAX < (of_nat (length bs) :: u64)"
    using assms(2) len by (simp_all add: word_less_nat_alt of_nat_small METADATA_MAX_SOURCE_ID_BYTES_def)
  then show ?thesis using h t assms(3) by (auto simp: apta_meta_read_source_id_def parsed_text_def of_nat_small [OF len])
qed

lemma unat_key: "unat (ucast (key :: u8) :: u64) = unat key"
proof -
  have "unat key < 256" by (rule order_less_le_trans [OF unsigned_less]) simp
  then show ?thesis by (simp add: unsigned_ucast_eq take_bit_nat_eq_self)
qed

lemma key_head: "key < 24 \<Longrightarrow> cbor_head 0 (ucast key) = [key :: u8]"
proof -
  assume "key < 24"
  then have "(ucast key :: u64) < 24" by (simp add: word_less_nat_alt unat_key)
  moreover have "ucast (ucast key :: u64) = key" by (rule bit_word_eqI) (auto simp: bit_simps)
  ultimately show ?thesis by (simp add: cbor_head_def apta_cbor_write_head_def Let_def)
qed

text \<open>Where the text of an item is.\<close>

definition text_position :: "nat \<Rightarrow> meta_item \<Rightarrow> nat" where
  "text_position start it = start + length (item_bytes it) - length (item_text it)"

lemma read_item_at:
  assumes "mc_position c = length pre" "item_ok it" "case previous of None \<Rightarrow> True | Some k \<Rightarrow> unat k < item_key it"
  shows "\<exists>c' key. (otry (apta_meta_read_head (pre @ item_bytes it @ post) c) (\<lambda>(major, key, c1).
       if major \<noteq> 0 \<or> (case previous of None \<Rightarrow> False | Some k \<Rightarrow> key \<le> k) then Ret None
       else otry (read_value (pre @ item_bytes it @ post) key c1 w) (\<lambda>(w1, c2). F key w1 c2))) =
       F key (apply_item (text_position (length pre) it) it w) c' \<and>
     mc_position c' = length pre + length (item_bytes it) \<and> unat key = item_key it"
proof -
  have head: "apta_meta_read_head (pre @ (k # rest)) c = Ret (Some (0, ucast k, c\<lparr>mc_position := Suc (length pre)\<rparr>))"
    if "k < 24" for k rest
    using read_head_at [OF assms(1), of 0 "ucast k" rest] key_head [OF that] by simp
  have new: "\<not> (case previous of None \<Rightarrow> False | Some k \<Rightarrow> ucast key \<le> k)" if "unat key = item_key it" for key :: u8
  proof -
    have "unat (ucast key :: u64) = unat key" by (rule unat_key)
    then show ?thesis using assms(3) that by (auto simp: word_le_nat_alt split: option.splits)
  qed
  have u: "ucast (5 :: u8) = (5 :: u64)" "ucast (6 :: u8) = (6 :: u64)" by simp_all
  let ?c1 = "c\<lparr>mc_position := Suc (length pre)\<rparr>"
  show ?thesis
  proof (cases it)
    case (Text_item key bs)
    have key: "key = 1 \<or> key = 2 \<or> key = 3 \<or> key = 4 \<or> key = 7" and lim: "length bs \<le> text_limit key" "length bs \<le> 4096"
      using assms(2) by (auto simp: Text_item text_limit_def split: if_splits)
    have k24: "key < 24" using key by auto
    let ?h = "cbor_head 3 (of_nat (length bs))"
    let ?all = "pre @ item_bytes it @ post"
    have all: "?all = pre @ (key # ?h @ bs @ post)" by (simp add: Text_item text_item_bytes_def)
    have rt: "apta_meta_read_text ?all ?c1 maximum = Ret (Some (parsed_text (text_position (length pre) it) bs,
        c\<lparr>mc_position := length pre + length (item_bytes it)\<rparr>))" if "length bs \<le> unat maximum" for maximum
      using read_text_at [of ?c1 "pre @ [key]" bs maximum post, OF _ that lim(2)]
      by (simp add: all) (simp add: Text_item text_position_def text_item_bytes_def)
    have rv: "read_value ?all (ucast key) ?c1 w = Ret (Some (apply_item (text_position (length pre) it) it w,
        c\<lparr>mc_position := length pre + length (item_bytes it)\<rparr>))"
      using key lim(1) by (elim disjE) (simp_all add: read_value_def rt text_limit_def apta_consts, simp_all add: Text_item key_flag_def with_key_text_def apta_consts)
    have e: "unat (ucast key :: u64) = unat key" by (rule unat_key)
    show ?thesis
      by (intro exI [of _ "c\<lparr>mc_position := length pre + length (item_bytes it)\<rparr>"] exI [of _ "ucast key"])
        (use head [OF k24, of "?h @ bs @ post"] new [of key] rv e in \<open>simp add: all [symmetric], simp add: Text_item\<close>)
  next
    case (Time_item v)
    let ?all = "pre @ item_bytes it @ post"
    have all: "?all = pre @ (5 # cbor_head 0 v @ post)" by (simp add: Time_item)
    have "apta_meta_read_head ((pre @ [5]) @ cbor_head 0 v @ post) ?c1 =
        Ret (Some (0, v, c\<lparr>mc_position := length pre + length (item_bytes it)\<rparr>))"
      using read_head_at [of ?c1 "pre @ [5]" 0 v post] by (simp add: Time_item)
    then have rv: "read_value ?all 5 ?c1 w = Ret (Some (apply_item (text_position (length pre) it) it w,
        c\<lparr>mc_position := length pre + length (item_bytes it)\<rparr>))"
      by (simp add: read_value_def all) (simp add: Time_item)
    show ?thesis
      by (intro exI [of _ "c\<lparr>mc_position := length pre + length (item_bytes it)\<rparr>"] exI [of _ 5])
        (use head [of 5 "cbor_head 0 v @ post"] new [of 5, unfolded u] rv in \<open>simp add: all [symmetric], simp add: Time_item\<close>)
  next
    case (Id_item kind bs)
    let ?m = "if kind = METADATA_SOURCE_ID_TEXT then 3 else 2 :: u8"
    let ?h = "cbor_head ?m (of_nat (length bs))"
    let ?all = "pre @ item_bytes it @ post"
    have all: "?all = pre @ (6 # ?h @ bs @ post)" by (simp add: Id_item text_item_bytes_def)
    have k: "(if ?m = 3 then METADATA_SOURCE_ID_TEXT else METADATA_SOURCE_ID_BYTES) = kind" using assms(2) by (auto simp: Id_item)
    have lim: "length bs \<le> 1024" using assms(2) by (simp add: Id_item)
    have rs: "apta_meta_read_source_id ?all ?c1 = Ret (Some (parsed_text (text_position (length pre) it) bs, kind,
        c\<lparr>mc_position := length pre + length (item_bytes it)\<rparr>))"
      using read_source_id_at [of ?c1 "pre @ [6]" bs ?m post, OF _ lim] k
      by (simp add: all split del: if_split) (simp add: Id_item text_position_def text_item_bytes_def)
    have rv: "read_value ?all 6 ?c1 w = Ret (Some (apply_item (text_position (length pre) it) it w,
        c\<lparr>mc_position := length pre + length (item_bytes it)\<rparr>))"
      by (simp add: read_value_def rs) (simp add: Id_item)
    show ?thesis
      by (intro exI [of _ "c\<lparr>mc_position := length pre + length (item_bytes it)\<rparr>"] exI [of _ 6])
        (use head [of 6 "?h @ bs @ post"] new [of 6, unfolded u] rv in \<open>simp add: all [symmetric], simp add: Id_item\<close>)
  qed
qed

section \<open>All the items of a payload\<close>

fun apply_items :: "nat \<Rightarrow> meta_item list \<Rightarrow> nat metadata_view \<Rightarrow> nat metadata_view" where
  "apply_items start [] w = w"
| "apply_items start (it # its) w = apply_items (start + length (item_bytes it)) its (apply_item (text_position start it) it w)"

definition items_bytes :: "meta_item list \<Rightarrow> bytes" where
  "items_bytes its = concat (map item_bytes its)"

lemma items_bytes_simps [simp]:
  "items_bytes [] = []" "items_bytes (it # its) = item_bytes it @ items_bytes its" "items_bytes (xs @ ys) = items_bytes xs @ items_bytes ys"
  by (simp_all add: items_bytes_def)

lemma apply_items_append: "apply_items start (xs @ ys) w = apply_items (start + length (items_bytes xs)) ys (apply_items start xs w)"
  by (induction xs arbitrary: start w) (simp_all add: add.assoc)

lemma read_entries_items:
  assumes "mc_position c = length pre" "\<forall>it\<in>set its. item_ok it" "sorted_wrt (<) (map item_key its)"
    "\<forall>it\<in>set its. case previous of None \<Rightarrow> True | Some k \<Rightarrow> unat k < item_key it"
  shows "\<exists>c'. read_entries (pre @ items_bytes its @ post) (length its) c previous w =
      Ret (Some (apply_items (length pre) its w, c')) \<and> mc_position c' = length pre + length (items_bytes its)"
  using assms
proof (induction its arbitrary: pre c previous w)
  case (Cons it its)
  have 1: "case previous of None \<Rightarrow> True | Some k \<Rightarrow> unat k < item_key it" and ok: "item_ok it" using Cons.prems(2,4) by simp_all
  let ?bs = "pre @ item_bytes it @ items_bytes its @ post"
  obtain c1 key where c1: "mc_position c1 = length (pre @ item_bytes it)" "unat key = item_key it"
    "read_entries ?bs (length (it # its)) c previous w =
     read_entries ?bs (length its) c1 (Some key) (apply_item (text_position (length pre) it) it w)"
    using read_item_at [OF Cons.prems(1) ok 1, of "items_bytes its @ post" w "\<lambda>key w1 c2. read_entries ?bs (length its) c2 (Some key) w1"]
    by (auto simp del: append_assoc)
  obtain c' where "read_entries ((pre @ item_bytes it) @ items_bytes its @ post) (length its) c1 (Some key)
        (apply_item (text_position (length pre) it) it w) =
      Ret (Some (apply_items (length (pre @ item_bytes it)) its (apply_item (text_position (length pre) it) it w), c'))"
    "mc_position c' = length (pre @ item_bytes it) + length (items_bytes its)"
    using Cons.IH [OF c1(1), of "Some key" "apply_item (text_position (length pre) it) it w"] Cons.prems(2,3) c1(2) by auto
  then show ?case using c1(3) by auto
qed simp

lemma parse_items:
  assumes "length its \<le> 64" "\<forall>it\<in>set its. item_ok it" "sorted_wrt (<) (map item_key its)"
  shows "apta_meta_parse_payload szv (cbor_head 5 (of_nat (length its)) @ items_bytes its) =
    Ret (Some (apply_items (length (cbor_head 5 (of_nat (length its)))) its (apta_metadata_view_init szv)))"
proof -
  let ?h = "cbor_head 5 (of_nat (length its))" and ?c = "\<lparr>mc_position = 0, mc_visited_items = 0\<rparr>"
  have h: "apta_meta_read_head (?h @ items_bytes its) ?c = Ret (Some (5, of_nat (length its), ?c\<lparr>mc_position := length ?h\<rparr>))"
    using read_head_at [of ?c "[]" 5 "of_nat (length its)" "items_bytes its"] by simp
  obtain c' where "read_entries (?h @ items_bytes its @ []) (length its) (?c\<lparr>mc_position := length ?h\<rparr>) None (apta_metadata_view_init szv) =
      Ret (Some (apply_items (length ?h) its (apta_metadata_view_init szv), c'))" "mc_position c' = length ?h + length (items_bytes its)"
    using read_entries_items [of "?c\<lparr>mc_position := length ?h\<rparr>" ?h its None "[]" "apta_metadata_view_init szv"] assms(2,3) by auto
  moreover have "unat (of_nat (length its) :: u64) = length its" "\<not> META_MAX_MAP_ITEMS < of_nat (length its)"
    using assms(1) by (simp_all add: of_nat_small META_MAX_MAP_ITEMS_def word_less_nat_alt)
  ultimately show ?thesis using h by (simp add: apta_meta_parse_payload_def)
qed

section \<open>The items the writer puts out\<close>

definition opt_item :: "bool \<Rightarrow> meta_item \<Rightarrow> meta_item list" where
  "opt_item present it = (if present then [it] else [])"

definition text_item :: "bytes \<Rightarrow> 'p metadata_view \<Rightarrow> u8 \<Rightarrow> nat text_view \<Rightarrow> meta_item list" where
  "text_item storage w key t = opt_item (has_flag w (key_flag key)) (Text_item key (stored_text storage t))"

definition item_slots :: "bytes \<Rightarrow> nat metadata_view \<Rightarrow> meta_item list list" where
  "item_slots storage w =
     [text_item storage w 1 (mv_producer_name w), text_item storage w 2 (mv_producer_version_string w),
      text_item storage w 3 (mv_backend_name w), text_item storage w 4 (mv_backend_version w),
      opt_item (has_flag w METADATA_FLAG_CREATION_TIME_PRESENT) (Time_item (mv_creation_unix_time w)),
      opt_item (mv_application_source_id_kind w \<noteq> METADATA_SOURCE_ID_NONE)
        (Id_item (mv_application_source_id_kind w) (stored_text storage (mv_application_source_id w))),
      text_item storage w 7 (mv_comments w)]"

definition items_of :: "bytes \<Rightarrow> nat metadata_view \<Rightarrow> meta_item list" where
  "items_of storage w = concat (item_slots storage w)"

text \<open>What a stored view guarantees: everything that is required of an input but the encoding of the texts.\<close>

definition stored_ok :: "bytes \<Rightarrow> nat metadata_view \<Rightarrow> bool" where
  "stored_ok storage w \<longleftrightarrow> mv_flags w AND NOT METADATA_FLAG_MASK = 0 \<and>
     (\<forall>t\<in>set (view_texts w). placed (length storage) t) \<and>
     tx_size (mv_producer_name w) \<le> (if has_flag w METADATA_FLAG_PRODUCER_NAME_PRESENT then 255 else 0) \<and>
     tx_size (mv_producer_version_string w) \<le> (if has_flag w METADATA_FLAG_PRODUCER_VERSION_PRESENT then 127 else 0) \<and>
     tx_size (mv_backend_name w) \<le> (if has_flag w METADATA_FLAG_BACKEND_NAME_PRESENT then 255 else 0) \<and>
     tx_size (mv_backend_version w) \<le> (if has_flag w METADATA_FLAG_BACKEND_VERSION_PRESENT then 127 else 0) \<and>
     tx_size (mv_comments w) \<le> (if has_flag w METADATA_FLAG_COMMENTS_PRESENT then 4096 else 0) \<and>
     tx_size (mv_application_source_id w) \<le> (if mv_application_source_id_kind w = METADATA_SOURCE_ID_NONE then 0 else 1024) \<and>
     mv_application_source_id_kind w \<in> {METADATA_SOURCE_ID_NONE, METADATA_SOURCE_ID_TEXT, METADATA_SOURCE_ID_BYTES}"

lemma stored_length: "placed (length storage) t \<Longrightarrow> length (stored_text storage t) = unat (tx_size t)"
  by (auto simp: placed_def stored_text_def split: option.splits)

lemma stored_le: "placed (length storage) t \<Longrightarrow> tx_size t \<le> (if b then m else 0) \<Longrightarrow> length (stored_text storage t) \<le> unat m"
  by (auto simp: stored_length word_le_nat_alt split: if_splits)

lemma items_ok:
  assumes "stored_ok storage w"
  shows "\<forall>it\<in>set (items_of storage w). item_ok it" "sorted_wrt (<) (map item_key (items_of storage w))" "length (items_of storage w) \<le> 7"
proof -
  have p: "\<forall>t\<in>set (view_texts w). placed (length storage) t" using assms by (simp add: stored_ok_def)
  have "length (stored_text storage (mv_producer_name w)) \<le> 255" "length (stored_text storage (mv_producer_version_string w)) \<le> 127"
    "length (stored_text storage (mv_backend_name w)) \<le> 255" "length (stored_text storage (mv_backend_version w)) \<le> 127"
    "length (stored_text storage (mv_comments w)) \<le> 4096" "length (stored_text storage (mv_application_source_id w)) \<le> 1024"
    using p assms by (auto simp: stored_ok_def view_texts_def stored_length word_le_nat_alt split: if_splits)
  then show "\<forall>it\<in>set (items_of storage w). item_ok it"
    using assms by (auto simp: items_of_def item_slots_def text_item_def opt_item_def text_limit_def stored_ok_def)
  show "sorted_wrt (<) (map item_key (items_of storage w))"
    by (simp add: items_of_def item_slots_def text_item_def opt_item_def)
  show "length (items_of storage w) \<le> 7" by (simp add: items_of_def item_slots_def text_item_def opt_item_def)
qed

lemma write_stored_eq: "placed (length storage) t \<Longrightarrow> write_stored storage out t = Ret (out @ stored_text storage t)"
  by (auto simp: write_stored_def placed_def stored_text_def split: option.splits)

lemma size_of_stored: "placed (length storage) t \<Longrightarrow> ucast (tx_size t) = (of_nat (length (stored_text storage t)) :: u64)"
  by (simp add: stored_length unsigned_of_nat word_unat_eq_iff unsigned_ucast_eq)

lemma write_text_eq:
  "placed (length storage) t \<Longrightarrow>
   apta_meta_write_text storage out key t = Ret (out @ item_bytes (Text_item key (stored_text storage t)))"
  by (simp add: apta_meta_write_text_def write_stored_eq write_head_append text_item_bytes_def size_of_stored)

lemma write_if_item:
  "(present \<Longrightarrow> f out = Ret (out @ item_bytes it)) \<Longrightarrow> write_if present f out = Ret (out @ items_bytes (opt_item present it))"
  by (simp add: write_if_def opt_item_def)

lemma item_count_eq: "apta_meta_item_count w = of_nat (length (items_of storage w))"
  by (simp add: apta_meta_item_count_def items_of_def item_slots_def text_item_def opt_item_def flag_bit_def key_flag_def)

lemma write_payload_eq:
  assumes "\<forall>t\<in>set (view_texts w). placed (length storage) t"
  shows "apta_meta_write_payload storage out w =
    Ret (out @ cbor_head 5 (ucast (apta_meta_item_count w)) @ items_bytes (items_of storage w))"
proof -
  have p: "placed (length storage) (mv_producer_name w)" "placed (length storage) (mv_producer_version_string w)"
    "placed (length storage) (mv_backend_name w)" "placed (length storage) (mv_backend_version w)"
    "placed (length storage) (mv_application_source_id w)" "placed (length storage) (mv_comments w)"
    using assms by (simp_all add: view_texts_def)
  have t: "write_if present (\<lambda>out. apta_meta_write_text storage out key t) out = Ret (out @ items_bytes (opt_item present (Text_item key (stored_text storage t))))"
    if "placed (length storage) t" for present key t out
    by (rule write_if_item) (rule write_text_eq [OF that])
  have c: "write_if present (\<lambda>out. Ret (apta_cbor_write_head (out @ [5]) 0 v)) out = Ret (out @ items_bytes (opt_item present (Time_item v)))" for present v out
    by (rule write_if_item) (simp add: write_head_append)
  have i: "write_if present (\<lambda>out. write_stored storage (apta_cbor_write_head (out @ [6]) (if kind = METADATA_SOURCE_ID_TEXT then 3 else 2)
       (ucast (tx_size t))) t) out = Ret (out @ items_bytes (opt_item present (Id_item kind (stored_text storage t))))"
    if "placed (length storage) t" for present kind t out
    by (rule write_if_item) (simp add: write_stored_eq that write_head_append text_item_bytes_def size_of_stored [OF that])
  show ?thesis
    by (simp add: apta_meta_write_payload_def t [OF p(1)] t [OF p(2)] t [OF p(3)] t [OF p(4)] t [OF p(6)] c i [OF p(5)] write_head_append [of out 5]
        items_of_def item_slots_def text_item_def key_flag_def split del: if_split)
qed

section \<open>What is read back\<close>

lemma parsed_back:
  assumes "payload = pre @ items_bytes (opt_item b it) @ post" b "length (item_text it) \<le> 4096"
  shows "stored_text payload (parsed_text (text_position (length pre) it) (item_text it)) = item_text it"
    "placed (length payload) (parsed_text (text_position (length pre) it) (item_text it))"
proof -
  have "\<exists>h. item_bytes it = h @ item_text it" by (cases it) (auto simp: text_item_bytes_def)
  then obtain h where h: "item_bytes it = h @ item_text it" by blast
  have pos: "text_position (length pre) it = length (pre @ h)" by (simp add: text_position_def h)
  have pl: "payload = (pre @ h) @ item_text it @ post" using assms(1,2) by (simp add: opt_item_def h)
  have d: "drop (length (pre @ h)) payload = item_text it @ post" unfolding pl by simp
  show "stored_text payload (parsed_text (text_position (length pre) it) (item_text it)) = item_text it"
    using d by (simp add: stored_text_def parsed_text_def pos of_nat_small [OF assms(3)] del: length_append)
  show "placed (length payload) (parsed_text (text_position (length pre) it) (item_text it))"
    by (simp add: placed_def parsed_text_def pos of_nat_small [OF assms(3)] pl)
qed

lemma apply_opt: "apply_items p (opt_item b it) w = (if b then apply_item (text_position p it) it w else w)"
  by (simp add: opt_item_def)

lemma flags_rebuilt:
  fixes f :: u32
  assumes "f AND NOT METADATA_FLAG_MASK = 0"
  shows "(if f AND 1 \<noteq> 0 then 1 else 0) OR (if f AND 2 \<noteq> 0 then 2 else 0) OR (if f AND 2 ^ 2 \<noteq> 0 then 2 ^ 2 else 0) OR
    (if f AND 2 ^ 3 \<noteq> 0 then 2 ^ 3 else 0) OR (if f AND 2 ^ 4 \<noteq> 0 then 2 ^ 4 else 0) OR (if f AND 2 ^ 5 \<noteq> 0 then 2 ^ 5 else 0) = f"
proof -
  have m: "METADATA_FLAG_MASK = mask 6" by (simp add: METADATA_FLAG_MASK_def apta_consts mask_eq_exp_minus_1)
  have hi: "\<not> bit f n" if "6 \<le> n" for n
  proof
    assume "bit f n"
    then have "bit (f AND NOT METADATA_FLAG_MASK) n" using that by (auto simp: m bit_simps dest: bit_imp_le_length)
    then show False by (simp add: assms)
  qed
  have e: "(if f AND 2 ^ k \<noteq> 0 then 2 ^ k else 0) = f AND 2 ^ k" for k
    by (rule bit_word_eqI) (auto simp: and_exp_eq_0_iff_not_bit bit_and_iff bit_exp_iff)
  note e = e [of 0, simplified power_0] e [of 1, simplified power_one_right] e [of 2] e [of 3] e [of 4] e [of 5]
  have b1: "bit (2 :: u32) n \<longleftrightarrow> n = 1" for n using bit_exp_iff [where 'a = u32, of 1 n] by auto
  show ?thesis unfolding e
  proof (rule bit_word_eqI)
    fix n assume "n < LENGTH(32)"
    consider "n = 0" | "n = 1" | "n = 2" | "n = 3" | "n = 4" | "n = 5" | "6 \<le> n" by linarith
    then show "bit ((f AND 1) OR (f AND 2) OR (f AND 2 ^ 2) OR (f AND 2 ^ 3) OR (f AND 2 ^ 4) OR (f AND 2 ^ 5)) n = bit f n"
      by cases (simp_all add: bit_or_iff bit_and_iff bit_exp_iff hi bit_1_iff b1)
  qed
qed

lemma apply_flags:
  "mv_flags (apply_items p (opt_item b (Text_item key bs)) w) = mv_flags w OR (if b then key_flag key else 0)"
  "mv_flags (apply_items p (opt_item b (Time_item v)) w) = mv_flags w OR (if b then METADATA_FLAG_CREATION_TIME_PRESENT else 0)"
  "mv_flags (apply_items p (opt_item b (Id_item kind bs)) w) = mv_flags w"
  by (simp_all add: apply_opt set_flag_def with_key_text_def)

text \<open>The view that is read says the same of its payload as the one that was written of its storage.\<close>

definition same_metadata :: "bytes \<Rightarrow> nat metadata_view \<Rightarrow> bytes \<Rightarrow> nat metadata_view \<Rightarrow> bool" where
  "same_metadata payload r storage w \<longleftrightarrow>
     map (stored_text payload) (view_texts r) = map (stored_text storage) (view_texts w) \<and>
     map tx_size (view_texts r) = map tx_size (view_texts w) \<and> mv_flags r = mv_flags w \<and>
     mv_application_source_id_kind r = mv_application_source_id_kind w \<and>
     mv_creation_unix_time r = (if has_flag w METADATA_FLAG_CREATION_TIME_PRESENT then mv_creation_unix_time w else 0) \<and>
     (\<forall>t\<in>set (view_texts r). placed (length payload) t)"

lemma init_simps [simp]:
  "mv_producer_name (apta_metadata_view_init sz) = no_text" "mv_producer_version_string (apta_metadata_view_init sz) = no_text"
  "mv_backend_name (apta_metadata_view_init sz) = no_text" "mv_backend_version (apta_metadata_view_init sz) = no_text"
  "mv_application_source_id (apta_metadata_view_init sz) = no_text" "mv_comments (apta_metadata_view_init sz) = no_text"
  "mv_creation_unix_time (apta_metadata_view_init sz) = 0" "mv_application_source_id_kind (apta_metadata_view_init sz) = 0"
  "mv_flags (apta_metadata_view_init sz) = 0"
  by (simp_all add: apta_metadata_view_init_def zero_view_def)

text \<open>The item at one place of the payload, and the view before and after it.\<close>

definition slot_position :: "bytes \<Rightarrow> bytes \<Rightarrow> nat metadata_view \<Rightarrow> nat \<Rightarrow> nat" where
  "slot_position h storage w n = length (h @ items_bytes (concat (take n (item_slots storage w))))"

lemma slot_bytes:
  assumes "n < 7"
  shows "h @ items_bytes (items_of storage w) =
    (h @ items_bytes (concat (take n (item_slots storage w)))) @ items_bytes (item_slots storage w ! n) @
    items_bytes (concat (drop (Suc n) (item_slots storage w)))"
proof -
  let ?os = "item_slots storage w"
  have "n < length ?os" using assms by (simp add: item_slots_def)
  then have "?os = take n ?os @ ?os ! n # drop (Suc n) ?os" by (rule id_take_nth_drop)
  then have "concat ?os = concat (take n ?os) @ ?os ! n @ concat (drop (Suc n) ?os)" by (metis concat.simps(2) concat_append)
  then show ?thesis by (simp add: items_of_def)
qed

definition text_read :: "nat \<Rightarrow> bool \<Rightarrow> meta_item \<Rightarrow> nat text_view" where
  "text_read start present it = (if present then parsed_text (text_position start it) (item_text it) else no_text)"

lemma parsed_fields:
  fixes h storage szv
  defines "r \<equiv> \<lambda>w. apply_items (length h) (items_of storage w) (apta_metadata_view_init szv)"
    and "p \<equiv> slot_position h storage"
  shows "mv_producer_name (r w) = text_read (p w 0) (has_flag w 1) (Text_item 1 (stored_text storage (mv_producer_name w)))"
    "mv_producer_version_string (r w) = text_read (p w 1) (has_flag w 2) (Text_item 2 (stored_text storage (mv_producer_version_string w)))"
    "mv_backend_name (r w) = text_read (p w 2) (has_flag w 4) (Text_item 3 (stored_text storage (mv_backend_name w)))"
    "mv_backend_version (r w) = text_read (p w 3) (has_flag w 8) (Text_item 4 (stored_text storage (mv_backend_version w)))"
    "mv_application_source_id (r w) = text_read (p w 5) (mv_application_source_id_kind w \<noteq> METADATA_SOURCE_ID_NONE)
       (Id_item (mv_application_source_id_kind w) (stored_text storage (mv_application_source_id w)))"
    "mv_comments (r w) = text_read (p w 6) (has_flag w 32) (Text_item 7 (stored_text storage (mv_comments w)))"
    "mv_application_source_id_kind (r w) = mv_application_source_id_kind w"
    "mv_creation_unix_time (r w) = (if has_flag w METADATA_FLAG_CREATION_TIME_PRESENT then mv_creation_unix_time w else 0)"
    "mv_flags w AND NOT METADATA_FLAG_MASK = 0 \<Longrightarrow> mv_flags (r w) = mv_flags w"
proof -
  have ks: "key_flag 1 = 1" "key_flag 2 = 2" "key_flag 3 = 4" "key_flag 4 = 8" "key_flag 7 = 32"
    by (simp_all add: key_flag_def apta_consts)
  have r: "r w = apply_items (p w 6) (item_slots storage w ! 6) (apply_items (p w 5) (item_slots storage w ! 5)
    (apply_items (p w 4) (item_slots storage w ! 4) (apply_items (p w 3) (item_slots storage w ! 3)
    (apply_items (p w 2) (item_slots storage w ! 2) (apply_items (p w 1) (item_slots storage w ! 1)
    (apply_items (p w 0) (item_slots storage w ! 0) (apta_metadata_view_init szv)))))))"
    by (simp add: r_def p_def items_of_def item_slots_def slot_position_def apply_items_append add.assoc)
  note fields = item_slots_def text_item_def apply_opt set_flag_def with_key_text_def ks text_read_def
  show "mv_producer_name (r w) = text_read (p w 0) (has_flag w 1) (Text_item 1 (stored_text storage (mv_producer_name w)))"
    "mv_producer_version_string (r w) = text_read (p w 1) (has_flag w 2) (Text_item 2 (stored_text storage (mv_producer_version_string w)))"
    "mv_backend_name (r w) = text_read (p w 2) (has_flag w 4) (Text_item 3 (stored_text storage (mv_backend_name w)))"
    "mv_backend_version (r w) = text_read (p w 3) (has_flag w 8) (Text_item 4 (stored_text storage (mv_backend_version w)))"
    "mv_application_source_id (r w) = text_read (p w 5) (mv_application_source_id_kind w \<noteq> METADATA_SOURCE_ID_NONE)
       (Id_item (mv_application_source_id_kind w) (stored_text storage (mv_application_source_id w)))"
    "mv_comments (r w) = text_read (p w 6) (has_flag w 32) (Text_item 7 (stored_text storage (mv_comments w)))"
    "mv_creation_unix_time (r w) = (if has_flag w METADATA_FLAG_CREATION_TIME_PRESENT then mv_creation_unix_time w else 0)"
    unfolding r by (simp_all add: fields)
  show "mv_application_source_id_kind (r w) = mv_application_source_id_kind w"
    unfolding r by (simp add: fields METADATA_SOURCE_ID_NONE_def)
  show "mv_flags (r w) = mv_flags w" if "mv_flags w AND NOT METADATA_FLAG_MASK = 0"
    using flags_rebuilt [OF that] unfolding r
    by (simp add: item_slots_def text_item_def apply_flags ks has_flag_def METADATA_FLAG_CREATION_TIME_PRESENT_def or.assoc
        split del: if_split cong del: if_weak_cong)
qed

text \<open>One text of the written view against the text that is read at its item.\<close>

lemma text_back:
  assumes "n < 7" "item_slots storage w ! n = opt_item b it" "item_text it = stored_text storage t" "placed (length storage) t"
    "tx_size t \<le> (if b then m else 0)" "unat m \<le> 4096" "payload = h @ items_bytes (items_of storage w)"
    "r = text_read (slot_position h storage w n) b it"
  shows "stored_text payload r = stored_text storage t \<and> tx_size r = tx_size t \<and> placed (length payload) r"
proof (cases b)
  case True
  have "length (item_text it) \<le> 4096" using stored_le [OF assms(4,5)] assms(3,6) by simp
  note at = parsed_back [OF slot_bytes [OF assms(1), of h storage w, folded assms(7), unfolded assms(2)] True this]
  have "tx_size r = tx_size t" using True assms(3,8) by (simp add: text_read_def parsed_text_def stored_length [OF assms(4)])
  then show ?thesis using at True assms(3,8) by (simp add: text_read_def slot_position_def)
next
  case False
  then have "tx_size t = 0" using assms(5) by simp
  then have "stored_text storage t = []" by (auto simp: stored_text_def split: option.split)
  then show ?thesis using False \<open>tx_size t = 0\<close> assms(8) by (simp add: text_read_def stored_text_def no_text_def placed_def)
qed

lemma applied_items_same:
  assumes ok: "stored_ok storage w" and payload: "payload = h @ items_bytes (items_of storage w)"
  shows "same_metadata payload (apply_items (length h) (items_of storage w) (apta_metadata_view_init szv)) storage w"
proof -
  have pl: "placed (length storage) (mv_producer_name w)" "placed (length storage) (mv_producer_version_string w)"
    "placed (length storage) (mv_backend_name w)" "placed (length storage) (mv_backend_version w)"
    "placed (length storage) (mv_application_source_id w)" "placed (length storage) (mv_comments w)"
    using ok by (simp_all add: stored_ok_def view_texts_def)
  let ?r = "apply_items (length h) (items_of storage w) (apta_metadata_view_init szv)"
  let ?same = "\<lambda>r t. stored_text payload r = stored_text storage t \<and> tx_size r = tx_size t \<and> placed (length payload) r"
  note slots = item_slots_def text_item_def key_flag_def apta_consts
  note sizes = ok [unfolded stored_ok_def apta_consts]
  have "?same (mv_producer_name ?r) (mv_producer_name w)"
    by (rule text_back [OF _ _ _ pl(1) _ _ payload parsed_fields(1), where m = 255]) (use sizes in \<open>simp_all add: slots\<close>)
  moreover have "?same (mv_producer_version_string ?r) (mv_producer_version_string w)"
    by (rule text_back [OF _ _ _ pl(2) _ _ payload parsed_fields(2), where m = 127]) (use sizes in \<open>simp_all add: slots\<close>)
  moreover have "?same (mv_backend_name ?r) (mv_backend_name w)"
    by (rule text_back [OF _ _ _ pl(3) _ _ payload parsed_fields(3), where m = 255]) (use sizes in \<open>simp_all add: slots\<close>)
  moreover have "?same (mv_backend_version ?r) (mv_backend_version w)"
    by (rule text_back [OF _ _ _ pl(4) _ _ payload parsed_fields(4), where m = 127]) (use sizes in \<open>simp_all add: slots\<close>)
  moreover have "?same (mv_application_source_id ?r) (mv_application_source_id w)"
    by (rule text_back [OF _ _ _ pl(5) _ _ payload parsed_fields(5), where m = 1024]) (use sizes in \<open>simp_all add: slots split: if_splits\<close>)
  moreover have "?same (mv_comments ?r) (mv_comments w)"
    by (rule text_back [OF _ _ _ pl(6) _ _ payload parsed_fields(6), where m = 4096]) (use sizes in \<open>simp_all add: slots\<close>)
  moreover have "mv_flags w AND NOT METADATA_FLAG_MASK = 0" using ok by (simp add: stored_ok_def)
  ultimately show ?thesis
    unfolding same_metadata_def by (simp add: parsed_fields(7-9) view_texts_def)
qed

end
