(* ===== verification/Apta_Meta_Roundtrip.thy ===== *)
theory Apta_Meta_Roundtrip
  imports Apta_Meta_Items
begin

text \<open>
  The metadata reader on arbitrary bytes, and metadata through the file: from a caller's structure
  into the library, out to a payload and back.
\<close>

section \<open>Reading any bytes\<close>

text \<open>A read that stays inside the payload, with what holds of its result if it finds an acceptable item.\<close>

definition parses :: "('a \<Rightarrow> bool) \<Rightarrow> 'a parsed \<Rightarrow> bool" where
  "parses P m \<longleftrightarrow> (\<exists>r. m = Ret r \<and> (\<forall>a. r = Some a \<longrightarrow> P a))"

lemma parses_Ret [simp]: "parses P (Ret (Some a)) \<longleftrightarrow> P a" "parses P (Ret None)" "\<not> parses P Fault"
  by (simp_all add: parses_def)

lemma parses_map_option: "(\<And>a. r = Some a \<Longrightarrow> P (f a)) \<Longrightarrow> parses P (Ret (map_option f r))"
  by (cases r) simp_all

lemma parses_otry:
  "parses Q m \<Longrightarrow> (\<And>a. m = Ret (Some a) \<Longrightarrow> Q a \<Longrightarrow> parses P (f a)) \<Longrightarrow> parses P (otry m f)"
  by (auto simp: parses_def otry_def split: option.splits)

lemma parses_mono: "parses Q m \<Longrightarrow> (\<And>a. Q a \<Longrightarrow> P a) \<Longrightarrow> parses P m"
  by (auto simp: parses_def)

definition inside :: "bytes \<Rightarrow> meta_cursor \<Rightarrow> bool" where
  "inside bs c \<longleftrightarrow> mc_position c \<le> length bs"

lemma take_inside:
  "inside bs c \<Longrightarrow> apta_meta_take bs c sz = Some (data, c1) \<Longrightarrow> inside bs c1 \<and> data + unat sz \<le> length bs"
  by (auto simp: apta_meta_take_def inside_def split: if_splits)

lemma be_value_Ret: "off + n \<le> length bs \<Longrightarrow> \<exists>v. be_value bs off n acc = Ret v"
  by (induction bs off n acc rule: be_value.induct) (auto simp: get_u8_def)

lemma long_argument_inside:
  assumes "inside bs c" "n \<le> 8"
  shows "parses (\<lambda>(v, c1). inside bs c1) (long_argument bs c n small)"
proof -
  have n: "unat (of_nat n :: u64) = n" using assms(2) by (simp add: of_nat_small)
  show ?thesis unfolding long_argument_def
  proof (rule parses_otry [where Q = "\<lambda>(data, c1). inside bs c1 \<and> data + n \<le> length bs"])
    show "parses (\<lambda>(data, c1). inside bs c1 \<and> data + n \<le> length bs) (Ret (apta_meta_take bs c (of_nat n)))"
      using take_inside [OF assms(1), of "of_nat n"] by (cases "apta_meta_take bs c (of_nat n)") (auto simp: n)
  next
    fix a :: "nat \<times> meta_cursor" assume a: "case a of (data, c1) \<Rightarrow> inside bs c1 \<and> data + n \<le> length bs"
    obtain data c1 where [simp]: "a = (data, c1)" by fastforce
    obtain v where "be_value bs data n 0 = Ret v" using be_value_Ret [of data n bs 0] a by auto
    then show "parses (\<lambda>(v, c1). inside bs c1) (case a of (data, c1) \<Rightarrow>
        obind (be_value bs data n 0) (\<lambda>v. if v \<le> small then Ret None else Ret (Some (v, c1))))"
      using a by simp
  qed
qed

lemma argument_inside: "inside bs c \<Longrightarrow> parses (\<lambda>(v, c1). inside bs c1) (apta_meta_read_argument bs c additional)"
  by (simp add: apta_meta_read_argument_def long_argument_inside)

lemma head_inside:
  assumes "inside bs c"
  shows "parses (\<lambda>(major, v, c1). inside bs c1) (apta_meta_read_head bs c)"
proof (cases "mc_position c = length bs")
  case False
  then have "mc_position c < length bs" using assms by (simp add: inside_def)
  moreover from this have "inside bs (c\<lparr>mc_position := mc_position c + 1\<rparr>)" by (simp add: inside_def)
  ultimately show ?thesis using False
    by (auto simp: apta_meta_read_head_def get_u8_def intro!: parses_otry [OF argument_inside])
qed (simp add: apta_meta_read_head_def)

lemma item_head_inside:
  assumes "inside bs c"
  shows "parses (\<lambda>(nested, c1). inside bs c1) (item_head bs depth c)"
proof (cases "META_MAX_CBOR_DEPTH < depth \<or> mc_position c = length bs \<or> META_MAX_CBOR_ITEMS \<le> mc_visited_items c")
  case False
  define c1 where "c1 = c\<lparr>mc_visited_items := mc_visited_items c + 1, mc_position := mc_position c + 1\<rparr>"
  define b where "b = bs ! mc_position c"
  have "mc_position c < length bs" using False assms by (simp add: inside_def)
  then have g: "get_u8 bs (mc_position c) = Ret b" and c1: "inside bs c1" by (simp_all add: get_u8_def b_def inside_def c1_def)
  have t: "parses (\<lambda>(nested, c1). inside bs c1) (Ret (map_option (\<lambda>(_, c2). (0, c2)) (apta_meta_take bs c' sz)))"
    if "inside bs c'" for c' sz
    using take_inside [OF that, of sz] by (auto intro!: parses_map_option)
  have simple: "parses (\<lambda>(nested, c1). inside bs c1) (otry (Ret (apta_meta_take bs c1 1)) (\<lambda>(data, c2).
      obind (get_u8 bs data) (\<lambda>b. if 32 \<le> b then Ret (Some (0 :: nat, c2)) else Ret None)))"
    using take_inside [OF c1, of 1] by (cases "apta_meta_take bs c1 1") (auto simp: get_u8_def)
  have "parses (\<lambda>(nested, c1). inside bs c1) (otry (apta_meta_read_argument bs c1 (b AND 0x1F)) (\<lambda>(v, c2).
          if drop_bit 5 b = 0 \<or> drop_bit 5 b = 1 then Ret (Some (0, c2))
          else if drop_bit 5 b = 2 \<or> drop_bit 5 b = 3
          then (if ucast MAX_TOTAL_BYTES < v then Ret None else Ret (map_option (\<lambda>(_, c3). (0, c3)) (apta_meta_take bs c2 v)))
          else if drop_bit 5 b = 4 then (if 256 < v then Ret None else Ret (Some (unat v, c2)))
          else if drop_bit 5 b = 5 then (if 128 < v then Ret None else Ret (Some (2 * unat v, c2)))
          else if drop_bit 5 b = 6 then Ret (Some (1, c2))
          else Ret None))"
    by (rule parses_otry [OF argument_inside [OF c1]]) (auto intro!: t)
  with simple show ?thesis using False c1
    by (simp add: item_head_def g c1_def [symmetric] Let_def t del: One_nat_def)
qed (simp add: item_head_def)

lemma skip_inside: "inside bs c \<Longrightarrow> parses (inside bs) (skip_items bs depth n c)"
proof (induction bs depth n c rule: skip_items.induct)
  case (1 bs depth n c)
  show ?case
  proof (cases "n = 0 \<or> META_MAX_CBOR_DEPTH < depth")
    case True
    then show ?thesis using 1(3) by (auto simp: skip_items.simps [of bs depth n c])
  next
    case False
    have "parses (inside bs) (otry (item_head bs depth c) (\<lambda>(nested, c1).
        otry (skip_items bs (depth + 1) nested c1) (\<lambda>c2. skip_items bs depth (n - 1) c2)))"
    proof (rule parses_otry [OF item_head_inside [OF 1(3)]], clarify)
      fix nested c1 assume h: "item_head bs depth c = Ret (Some (nested, c1))" "inside bs c1"
      have "parses (inside bs) (skip_items bs (depth + 1) nested c1)" using False 1(1) [OF _ _ h(1) refl h(2)] by blast
      then show "parses (inside bs) (otry (skip_items bs (depth + 1) nested c1) (skip_items bs depth (n - 1)))"
        by (rule parses_otry) (use False 1(2) [OF _ _ h(1) refl] in blast)
    qed
    then show ?thesis using False by (simp add: skip_items.simps [of bs depth n c])
  qed
qed

definition bounded_text :: "bytes \<Rightarrow> u32 \<Rightarrow> nat text_view \<Rightarrow> bool" where
  "bounded_text bs maximum t \<longleftrightarrow> placed (length bs) t \<and> tx_size t \<le> maximum"

lemma size_to_u32:
  fixes maximum :: u32 and v :: u64
  assumes "\<not> ucast maximum < v"
  shows "unat (ucast v :: u32) = unat v" "ucast v \<le> maximum"
proof -
  have "unat (ucast maximum :: u64) = unat maximum" by (simp add: unsigned_ucast_eq take_bit_nat_eq_self)
  then have v: "unat v \<le> unat maximum" using assms by (simp add: word_less_nat_alt not_less)
  also have "unat maximum < 2 ^ 32" by (rule order_less_le_trans [OF unsigned_less]) simp
  finally have "unat v < 2 ^ 32" .
  then show e: "unat (ucast v :: u32) = unat v" by (simp add: unsigned_ucast_eq take_bit_nat_eq_self)
  show "ucast v \<le> maximum" using v by (simp add: word_le_nat_alt e)
qed

lemma taken_text:
  assumes "inside bs c" "\<not> ucast (maximum :: u32) < v" "apta_meta_take bs c v = Some (data, c1)"
  shows "bounded_text bs maximum \<lparr>tx_data = (if v = 0 then None else Some data), tx_size = ucast v\<rparr>" "inside bs c1"
  using take_inside [OF assms(1,3)] size_to_u32 [OF assms(2)] by (auto simp: bounded_text_def placed_def)

lemma read_text_inside:
  assumes "inside bs c"
  shows "parses (\<lambda>(t, c1). inside bs c1 \<and> bounded_text bs maximum t) (apta_meta_read_text bs c maximum)"
  unfolding apta_meta_read_text_def
  by (rule parses_otry [OF head_inside [OF assms]]) (auto intro!: parses_map_option dest: taken_text)

lemma read_source_id_inside:
  assumes "inside bs c"
  shows "parses (\<lambda>(t, kind, c1). inside bs c1 \<and> bounded_text bs METADATA_MAX_SOURCE_ID_BYTES t \<and> kind \<in> {METADATA_SOURCE_ID_TEXT, METADATA_SOURCE_ID_BYTES})
    (apta_meta_read_source_id bs c)"
  unfolding apta_meta_read_source_id_def
  by (rule parses_otry [OF head_inside [OF assms]]) (auto intro!: parses_map_option dest: taken_text)

text \<open>A parsed view is a valid one but for the encoding of its texts.\<close>

definition parsed_ok :: "usize \<Rightarrow> bytes \<Rightarrow> nat metadata_view \<Rightarrow> bool" where
  "parsed_ok szv bs w \<longleftrightarrow> stored_ok bs w \<and> mv_reserved32 w = [0, 0, 0, 0] \<and> mv_reserved64 w = [0, 0] \<and>
     mv_struct_size w = ucast szv \<and> mv_api_version w = APTA_API_VERSION"

lemma parsed_init: "parsed_ok szv bs (apta_metadata_view_init szv)"
  by (simp add: parsed_ok_def stored_ok_def has_flag_def view_texts_def placed_def no_text_def apta_metadata_view_init_def zero_view_def apta_consts)

lemma or_flag: "w AND flag \<noteq> 0 \<Longrightarrow> (w OR g) AND flag \<noteq> (0 :: u32)"
proof
  assume "w AND flag \<noteq> 0" "(w OR g) AND flag = 0"
  have "w AND flag = (w AND flag) AND ((w OR g) AND flag)" by (rule bit_word_eqI) (auto simp: bit_simps)
  then show False using \<open>w AND flag \<noteq> 0\<close> \<open>(w OR g) AND flag = 0\<close> by simp
qed

lemma or_new_flag: "(w OR flag) AND flag = (flag :: u32)"
  by (rule bit_word_eqI) (auto simp: bit_simps)

lemma or_mask: "w AND NOT m = 0 \<Longrightarrow> g AND NOT m = 0 \<Longrightarrow> (w OR g) AND NOT m = (0 :: u32)"
  by (simp add: bit.conj_disj_distrib2)

lemma le_if_mono: "x \<le> (if b then m else 0) \<Longrightarrow> (b \<Longrightarrow> b') \<Longrightarrow> x \<le> (if b' then m else (0 :: u32))"
  by (auto split: if_splits)

lemma keeps_texts:
  assumes "stored_ok bs w"
  shows "tx_size (mv_producer_name w) \<le> (if (mv_flags w OR g) AND 1 \<noteq> 0 then 255 else 0)"
    "tx_size (mv_producer_version_string w) \<le> (if (mv_flags w OR g) AND 2 \<noteq> 0 then 127 else 0)"
    "tx_size (mv_backend_name w) \<le> (if (mv_flags w OR g) AND 4 \<noteq> 0 then 255 else 0)"
    "tx_size (mv_backend_version w) \<le> (if (mv_flags w OR g) AND 8 \<noteq> 0 then 127 else 0)"
    "tx_size (mv_comments w) \<le> (if (mv_flags w OR g) AND 32 \<noteq> 0 then 4096 else 0)"
    "g AND NOT METADATA_FLAG_MASK = 0 \<Longrightarrow> (mv_flags w OR g) AND NOT METADATA_FLAG_MASK = 0"
proof -
  have s: "tx_size (mv_producer_name w) \<le> (if mv_flags w AND 1 \<noteq> 0 then 255 else 0)"
    "tx_size (mv_producer_version_string w) \<le> (if mv_flags w AND 2 \<noteq> 0 then 127 else 0)"
    "tx_size (mv_backend_name w) \<le> (if mv_flags w AND 4 \<noteq> 0 then 255 else 0)"
    "tx_size (mv_backend_version w) \<le> (if mv_flags w AND 8 \<noteq> 0 then 127 else 0)"
    "tx_size (mv_comments w) \<le> (if mv_flags w AND 32 \<noteq> 0 then 4096 else 0)" "mv_flags w AND NOT METADATA_FLAG_MASK = 0"
    using assms by (simp_all add: stored_ok_def has_flag_def apta_consts split del: if_split)
  note keep = le_if_mono [OF _ or_flag]
  show "tx_size (mv_producer_name w) \<le> (if (mv_flags w OR g) AND 1 \<noteq> 0 then 255 else 0)"
    "tx_size (mv_producer_version_string w) \<le> (if (mv_flags w OR g) AND 2 \<noteq> 0 then 127 else 0)"
    "tx_size (mv_backend_name w) \<le> (if (mv_flags w OR g) AND 4 \<noteq> 0 then 255 else 0)"
    "tx_size (mv_backend_version w) \<le> (if (mv_flags w OR g) AND 8 \<noteq> 0 then 127 else 0)"
    "tx_size (mv_comments w) \<le> (if (mv_flags w OR g) AND 32 \<noteq> 0 then 4096 else 0)"
    by (rule keep [OF s(1)] keep [OF s(2)] keep [OF s(3)] keep [OF s(4)] keep [OF s(5)], assumption)+
  show "g AND NOT METADATA_FLAG_MASK = 0 \<Longrightarrow> (mv_flags w OR g) AND NOT METADATA_FLAG_MASK = 0" by (rule or_mask [OF s(6)])
qed

lemma with_text_ok:
  assumes "parsed_ok szv bs w" "bounded_text bs m t" "m = (if key = 1 \<or> key = 3 then 255 else if key = 2 \<or> key = 4 then 127 else 4096)"
  shows "parsed_ok szv bs (set_flag (key_flag key) (with_key_text key t w))"
proof -
  have ok: "stored_ok bs w" using assms(1) by (simp add: parsed_ok_def)
  have p: "\<forall>t\<in>set (view_texts w). placed (length bs) t" "tx_size (mv_application_source_id w) \<le> (if mv_application_source_id_kind w = 0 then 0 else 1024)"
    "mv_application_source_id_kind w = 0 \<or> mv_application_source_id_kind w = 1 \<or> mv_application_source_id_kind w = 2"
    using ok by (simp_all add: stored_ok_def apta_consts)
  have mask: "key_flag key AND NOT METADATA_FLAG_MASK = 0" by (simp add: key_flag_def METADATA_FLAG_MASK_def apta_consts)
  have ks: "key_flag 1 = 1" "key_flag 2 = 2" "key_flag 3 = 4" "key_flag 4 = 8"
    "key \<noteq> 1 \<Longrightarrow> key \<noteq> 2 \<Longrightarrow> key \<noteq> 3 \<Longrightarrow> key \<noteq> 4 \<Longrightarrow> key_flag key = 32"
    by (simp_all add: key_flag_def apta_consts)
  note keeps = keeps_texts [OF ok, of "key_flag key"]
  have "stored_ok bs (set_flag (key_flag key) (with_key_text key t w))"
    using p assms(2,3) keeps(6) [OF mask] keeps(1-5)
    by (cases "key = 1"; cases "key = 2"; cases "key = 3"; cases "key = 4")
      (simp_all add: stored_ok_def set_flag_def with_key_text_def has_flag_def view_texts_def bounded_text_def ks or_new_flag apta_consts)
  then show ?thesis using assms(1) by (simp add: parsed_ok_def set_flag_def with_key_text_def)
qed

lemma with_time_ok:
  assumes "parsed_ok szv bs w"
  shows "parsed_ok szv bs (set_flag METADATA_FLAG_CREATION_TIME_PRESENT (w\<lparr>mv_creation_unix_time := v\<rparr>))"
proof -
  have ok: "stored_ok bs w" using assms by (simp add: parsed_ok_def)
  have mask: "METADATA_FLAG_CREATION_TIME_PRESENT AND NOT METADATA_FLAG_MASK = 0" by (simp add: METADATA_FLAG_MASK_def apta_consts)
  have "stored_ok bs (set_flag METADATA_FLAG_CREATION_TIME_PRESENT (w\<lparr>mv_creation_unix_time := v\<rparr>))"
    using ok keeps_texts [OF ok, of METADATA_FLAG_CREATION_TIME_PRESENT] mask
    by (simp add: stored_ok_def set_flag_def has_flag_def view_texts_def apta_consts)
  then show ?thesis using assms by (simp add: parsed_ok_def set_flag_def)
qed

lemma with_id_ok:
  assumes "parsed_ok szv bs w" "bounded_text bs METADATA_MAX_SOURCE_ID_BYTES t" "kind \<in> {METADATA_SOURCE_ID_TEXT, METADATA_SOURCE_ID_BYTES}"
  shows "parsed_ok szv bs (w\<lparr>mv_application_source_id := t, mv_application_source_id_kind := kind\<rparr>)"
  using assms by (auto simp: parsed_ok_def stored_ok_def has_flag_def view_texts_def bounded_text_def apta_consts)

lemma read_value_inside:
  assumes c: "inside bs c" and w: "parsed_ok szv bs w"
  shows "parses (\<lambda>(w1, c1). parsed_ok szv bs w1 \<and> inside bs c1) (read_value bs key c w)"
proof -
  have t: "parses (\<lambda>(w1, c1). parsed_ok szv bs w1 \<and> inside bs c1) (otry (apta_meta_read_text bs c m) (\<lambda>(t, c1).
      Ret (Some (set_flag (key_flag k) (with_key_text k t w), c1))))"
    if "m = (if k = 1 \<or> k = 3 then 255 else if k = 2 \<or> k = 4 then 127 else 4096)" for m k
    by (rule parses_otry [OF read_text_inside [OF c]]) (auto intro: with_text_ok [OF w _ that])
  have s: "parses (\<lambda>(w1, c1). parsed_ok szv bs w1 \<and> inside bs c1) (otry (apta_meta_skip_item bs 1 c) (\<lambda>c1. Ret (Some (w, c1))))"
    unfolding apta_meta_skip_item_def by (rule parses_otry [OF skip_inside [OF c]]) (simp add: w)
  have h: "parses (\<lambda>(w1, c1). parsed_ok szv bs w1 \<and> inside bs c1) (otry (apta_meta_read_head bs c) (\<lambda>(major, v, c1).
      if major \<noteq> 0 then Ret None
      else Ret (Some (set_flag METADATA_FLAG_CREATION_TIME_PRESENT (w\<lparr>mv_creation_unix_time := v\<rparr>), c1))))"
    by (rule parses_otry [OF head_inside [OF c]]) (auto intro: with_time_ok [OF w])
  have i: "parses (\<lambda>(w1, c1). parsed_ok szv bs w1 \<and> inside bs c1) (otry (apta_meta_read_source_id bs c) (\<lambda>(t, kind, c1).
      Ret (Some (w\<lparr>mv_application_source_id := t, mv_application_source_id_kind := kind\<rparr>, c1))))"
    by (rule parses_otry [OF read_source_id_inside [OF c]]) (auto intro!: with_id_ok [OF w])
  show ?thesis unfolding read_value_def
    using t [of METADATA_MAX_PRODUCER_NAME_BYTES 1] t [of METADATA_MAX_VERSION_STRING_BYTES 2] t [of METADATA_MAX_BACKEND_NAME_BYTES 3]
      t [of METADATA_MAX_VERSION_STRING_BYTES 4] t [of METADATA_MAX_COMMENTS_BYTES 7] s h i
    by (simp add: key_flag_def with_key_text_def METADATA_MAX_PRODUCER_NAME_BYTES_def METADATA_MAX_VERSION_STRING_BYTES_def
        METADATA_MAX_BACKEND_NAME_BYTES_def METADATA_MAX_COMMENTS_BYTES_def)
qed

lemma read_entries_inside:
  "inside bs c \<Longrightarrow> parsed_ok szv bs w \<Longrightarrow>
   parses (\<lambda>(w1, c1). parsed_ok szv bs w1 \<and> inside bs c1) (read_entries bs n c previous w)"
proof (induction n arbitrary: c previous w)
  case (Suc n)
  have "parses (\<lambda>(w1, c1). parsed_ok szv bs w1 \<and> inside bs c1)
      (otry (read_value bs key c1 w) (\<lambda>(w1, c2). read_entries bs n c2 (Some key) w1))" if "inside bs c1" for key c1
    by (rule parses_otry [OF read_value_inside [OF that Suc.prems(2)]]) (auto intro: Suc.IH)
  then show ?case by (auto intro!: parses_otry [OF head_inside [OF Suc.prems(1)]])
qed simp

lemma parse_payload_inside: "parses (parsed_ok szv bs) (apta_meta_parse_payload szv bs)"
proof -
  have "parses (parsed_ok szv bs) (otry (read_entries bs n c None (apta_metadata_view_init szv)) (\<lambda>(w, c1).
       Ret (if mc_position c1 = length bs then Some w else None)))" if "inside bs c" for n c
    by (rule parses_otry [OF read_entries_inside [OF that parsed_init]]) auto
  moreover have "inside bs \<lparr>mc_position = 0, mc_visited_items = 0\<rparr>" by (simp add: inside_def)
  ultimately show ?thesis unfolding apta_meta_parse_payload_def by (auto intro!: parses_otry [OF head_inside])
qed

section \<open>The measured size\<close>

lemma head_size_of_length: "of_nat (length (cbor_head major v)) = apta_cbor_head_size v"
  by (simp add: cbor_head_length)

lemma head_le: "length (cbor_head major v) \<le> 9"
  by (simp add: cbor_head_length apta_cbor_head_size_def)

lemma text_item_size:
  assumes "placed (length storage) t"
  shows "of_nat (length (text_item_bytes key major (stored_text storage t))) = apta_meta_text_item_size (tx_size t)"
  using size_of_stored [OF assms] by (simp add: text_item_bytes_def apta_meta_text_item_size_def head_size_of_length)

lemma opt_size:
  "of_nat (length (item_bytes it)) = sz \<Longrightarrow> of_nat (length (items_bytes (opt_item b it))) = size_if b sz"
  by (simp add: opt_item_def size_if_def)

lemma measure_eq:
  assumes "\<forall>t\<in>set (view_texts w). placed (length storage) t"
  shows "apta_meta_measure_payload w =
    of_nat (length (cbor_head 5 (ucast (apta_meta_item_count w)) @ items_bytes (items_of storage w)))"
proof -
  have p: "placed (length storage) (mv_producer_name w)" "placed (length storage) (mv_producer_version_string w)"
    "placed (length storage) (mv_backend_name w)" "placed (length storage) (mv_backend_version w)"
    "placed (length storage) (mv_application_source_id w)" "placed (length storage) (mv_comments w)"
    using assms by (simp_all add: view_texts_def)
  have t: "of_nat (length (items_bytes (opt_item b (Text_item key (stored_text storage t))))) = size_if b (apta_meta_text_item_size (tx_size t))"
    if "placed (length storage) t" for b key t
    by (rule opt_size) (simp add: text_item_size [OF that])
  have i: "of_nat (length (items_bytes (opt_item b (Id_item kind (stored_text storage t))))) = size_if b (apta_meta_text_item_size (tx_size t))"
    if "placed (length storage) t" for b kind t
    by (rule opt_size) (simp add: text_item_size [OF that])
  have c: "of_nat (length (items_bytes (opt_item b (Time_item v)))) = size_if b (1 + apta_cbor_head_size v)" for b v
    by (rule opt_size) (simp add: head_size_of_length)
  show ?thesis
    by (simp add: apta_meta_measure_payload_def items_of_def item_slots_def text_item_def key_flag_def t p i c head_size_of_length add.assoc)
qed

lemma items_length: "length (items_bytes its) \<le> 10 * length its + sum_list (map (\<lambda>it. length (item_text it)) its)"
proof (induction its)
  case (Cons it its)
  have "length (item_bytes it) \<le> 10 + length (item_text it)"
    using head_le [of 3] head_le [of 2] head_le [of 0] by (cases it) (simp_all add: text_item_bytes_def)
  then show ?case using Cons by simp
qed simp

lemma payload_bound:
  assumes "stored_ok storage w"
  shows "length (cbor_head 5 v @ items_bytes (items_of storage w)) \<le> 8192"
proof -
  let ?n = "\<lambda>t. length (stored_text storage t)"
  have "\<forall>t\<in>set (view_texts w). placed (length storage) t" using assms by (simp add: stored_ok_def)
  then have s: "?n (mv_producer_name w) \<le> 255" "?n (mv_producer_version_string w) \<le> 127" "?n (mv_backend_name w) \<le> 255"
    "?n (mv_backend_version w) \<le> 127" "?n (mv_application_source_id w) \<le> 1024" "?n (mv_comments w) \<le> 4096"
    using assms by (auto simp: stored_ok_def view_texts_def stored_length word_le_nat_alt split: if_splits)
  have "sum_list (map (\<lambda>it. length (item_text it)) (items_of storage w)) \<le>
      ?n (mv_producer_name w) + ?n (mv_producer_version_string w) + ?n (mv_backend_name w) + ?n (mv_backend_version w) +
      ?n (mv_application_source_id w) + ?n (mv_comments w)"
    by (simp add: items_of_def item_slots_def text_item_def opt_item_def)
  then show ?thesis using s items_length [of "items_of storage w"] items_ok(3) [OF assms] head_le [of 5 v] by simp
qed

section \<open>A view into the payload\<close>

text \<open>The parsed view as the copy gets it: its pointers lead into the payload.\<close>

definition pointed :: "bytes \<Rightarrow> nat text_view \<Rightarrow> bytes text_view" where
  "pointed payload t = \<lparr>tx_data = map_option (\<lambda>off. drop off payload) (tx_data t), tx_size = tx_size t\<rparr>"

definition in_payload :: "bytes \<Rightarrow> nat metadata_view \<Rightarrow> bytes metadata_view" where
  "in_payload payload w =
     \<lparr>mv_struct_size = mv_struct_size w, mv_api_version = mv_api_version w,
      mv_producer_name = pointed payload (mv_producer_name w), mv_producer_version_string = pointed payload (mv_producer_version_string w),
      mv_backend_name = pointed payload (mv_backend_name w), mv_backend_version = pointed payload (mv_backend_version w),
      mv_creation_unix_time = mv_creation_unix_time w,
      mv_application_source_id = pointed payload (mv_application_source_id w), mv_comments = pointed payload (mv_comments w),
      mv_application_source_id_kind = mv_application_source_id_kind w, mv_flags = mv_flags w,
      mv_reserved32 = mv_reserved32 w, mv_reserved64 = mv_reserved64 w\<rparr>"

lemma view_texts_in_payload: "view_texts (in_payload payload w) = map (pointed payload) (view_texts w)"
  by (simp add: view_texts_def in_payload_def)

lemma pointed_simps [simp]: "tx_size (pointed payload t) = tx_size t" "text_bytes (pointed payload t) = stored_text payload t"
  by (auto simp: pointed_def text_bytes_def stored_text_def split: option.split)

lemma placed_pointed: "placed (length payload) t \<Longrightarrow> readable (pointed payload t)" "placed (length payload) t \<Longrightarrow> sized (pointed payload t)"
  by (auto simp: placed_def pointed_def readable_def sized_def split: option.splits)

lemma in_payload_readable: "parsed_ok szv payload w \<Longrightarrow> \<forall>t\<in>set (view_texts (in_payload payload w)). readable t"
  by (auto simp: view_texts_in_payload parsed_ok_def stored_ok_def placed_pointed)

text \<open>What remains to be checked of a parsed view: the encoding.\<close>

definition texts_encoded :: "bytes \<Rightarrow> nat metadata_view \<Rightarrow> bool" where
  "texts_encoded payload w \<longleftrightarrow>
     utf8_text (stored_text payload (mv_producer_name w)) \<and> utf8_text (stored_text payload (mv_producer_version_string w)) \<and>
     utf8_text (stored_text payload (mv_backend_name w)) \<and> utf8_text (stored_text payload (mv_backend_version w)) \<and>
     utf8_text (stored_text payload (mv_comments w)) \<and>
     (mv_application_source_id_kind w = METADATA_SOURCE_ID_TEXT \<longrightarrow> utf8_text (stored_text payload (mv_application_source_id w)))"

lemma absent_text: "tx_size t = 0 \<Longrightarrow> utf8_text (stored_text payload t)"
  by (auto simp: stored_text_def split: option.split)

lemma parsed_valid:
  assumes "parsed_ok szv payload w"
  shows "valid_view (in_payload payload w) \<longleftrightarrow> texts_encoded payload w"
proof -
  have ok: "stored_ok payload w" using assms by (simp add: parsed_ok_def)
  have f: "valid_text (pointed payload t) m b \<longleftrightarrow> utf8_text (stored_text payload t)"
    if "placed (length payload) t" "tx_size t \<le> (if b then m else 0)" for t b m
    using that absent_text [of t payload] by (auto simp: valid_text_def placed_pointed split: if_splits)
  have pl: "placed (length payload) (mv_producer_name w)" "placed (length payload) (mv_producer_version_string w)"
    "placed (length payload) (mv_backend_name w)" "placed (length payload) (mv_backend_version w)"
    "placed (length payload) (mv_application_source_id w)" "placed (length payload) (mv_comments w)"
    using ok by (simp_all add: stored_ok_def view_texts_def)
  note sizes = ok [unfolded stored_ok_def]
  have hf: "has_flag (in_payload payload w) flag = has_flag w flag" for flag by (simp add: has_flag_def in_payload_def)
  have fields: "valid_text (pointed payload (mv_producer_name w)) 255 (has_flag w METADATA_FLAG_PRODUCER_NAME_PRESENT) \<longleftrightarrow> utf8_text (stored_text payload (mv_producer_name w))"
    "valid_text (pointed payload (mv_producer_version_string w)) 127 (has_flag w METADATA_FLAG_PRODUCER_VERSION_PRESENT) \<longleftrightarrow> utf8_text (stored_text payload (mv_producer_version_string w))"
    "valid_text (pointed payload (mv_backend_name w)) 255 (has_flag w METADATA_FLAG_BACKEND_NAME_PRESENT) \<longleftrightarrow> utf8_text (stored_text payload (mv_backend_name w))"
    "valid_text (pointed payload (mv_backend_version w)) 127 (has_flag w METADATA_FLAG_BACKEND_VERSION_PRESENT) \<longleftrightarrow> utf8_text (stored_text payload (mv_backend_version w))"
    "valid_text (pointed payload (mv_comments w)) 4096 (has_flag w METADATA_FLAG_COMMENTS_PRESENT) \<longleftrightarrow> utf8_text (stored_text payload (mv_comments w))"
    using sizes by (simp_all add: f pl del: not_le)
  have id: "(let i = pointed payload (mv_application_source_id w); k = mv_application_source_id_kind w
      in k = METADATA_SOURCE_ID_NONE \<and> tx_size i = 0 \<or> k = METADATA_SOURCE_ID_TEXT \<and> valid_text i 1024 True \<or>
         k = METADATA_SOURCE_ID_BYTES \<and> tx_size i \<le> 1024 \<and> sized i) \<longleftrightarrow>
      (mv_application_source_id_kind w = METADATA_SOURCE_ID_TEXT \<longrightarrow> utf8_text (stored_text payload (mv_application_source_id w)))"
    using sizes pl(5) by (auto simp: Let_def valid_text_def placed_pointed apta_consts)
  show ?thesis using assms fields id
    by (simp add: valid_view_def texts_encoded_def hf parsed_ok_def stored_ok_def) (simp add: in_payload_def)
qed

lemma parsed_struct:
  assumes "parsed_ok szv payload w" "unat szv < 2 ^ 32"
  shows "apta_internal_validate_struct True szv (mv_struct_size (in_payload payload w)) (mv_api_version (in_payload payload w))"
proof -
  have "(ucast (ucast szv :: u32) :: u64) = take_bit 32 szv" by (rule bit_word_eqI) (auto simp: bit_simps)
  also have "szv < 2 ^ 32" using assms(2) by (simp add: word_less_nat_alt)
  then have "take_bit 32 szv = szv" by (simp add: take_bit_eq_mask less_mask_eq)
  finally have "(ucast (ucast szv :: u32) :: u64) = szv" .
  moreover have "apta_internal_api_version_is_compatible APTA_API_VERSION" by code_simp
  ultimately show ?thesis using assms(1) by (simp add: apta_internal_validate_struct_def in_payload_def parsed_ok_def)
qed

lemma copy_parsed:
  assumes "parsed_ok szv payload w" "unat szv < 2 ^ 32"
  shows "\<exists>s md ctx'. apta_internal_metadata_copy_from_view host szv ctx (in_payload payload w) = Ret (s, md, ctx') \<and>
    (if \<not> texts_encoded payload w then s = ERROR_INVALID_ARGUMENT \<and> ctx' = ctx
     else s = STATUS_OK \<and> says_the_same md (in_payload payload w) \<and> same_memory ctx (apta_internal_metadata_cleanup ctx' md) \<or>
          s = ERROR_OUT_OF_MEMORY \<and> same_memory ctx ctx')"
  using copy_validated_ok [OF in_payload_readable [OF assms(1)], of host szv ctx] parsed_struct [OF assms] parsed_valid [OF assms(1)]
  by (auto simp: apta_internal_metadata_copy_from_view_def split: if_splits)

lemma stored_from_input:
  assumes "says_the_same md v" "valid_view v"
  shows "stored_ok (stored_bytes md) (md_view md)"
proof -
  have f: "tx_size t \<le> (if b then m else 0)" if "valid_text t m b" for t m b using that by (auto simp: valid_text_def split: if_splits)
  have sz: "tx_size (mv_producer_name (md_view md)) = tx_size (mv_producer_name v)"
    "tx_size (mv_producer_version_string (md_view md)) = tx_size (mv_producer_version_string v)"
    "tx_size (mv_backend_name (md_view md)) = tx_size (mv_backend_name v)"
    "tx_size (mv_backend_version (md_view md)) = tx_size (mv_backend_version v)"
    "tx_size (mv_application_source_id (md_view md)) = tx_size (mv_application_source_id v)"
    "tx_size (mv_comments (md_view md)) = tx_size (mv_comments v)"
    using assms(1) by (simp_all add: says_the_same_def view_texts_def)
  have e: "mv_flags (md_view md) = mv_flags v" "has_flag (md_view md) = has_flag v"
    "mv_application_source_id_kind (md_view md) = mv_application_source_id_kind v"
    "\<forall>t\<in>set (view_texts (md_view md)). placed (length (stored_bytes md)) t"
    using assms(1) by (auto simp: says_the_same_def has_flag_def)
  have id: "tx_size (mv_application_source_id v) \<le> (if mv_application_source_id_kind v = METADATA_SOURCE_ID_NONE then 0 else 1024)"
    "mv_application_source_id_kind v \<in> {METADATA_SOURCE_ID_NONE, METADATA_SOURCE_ID_TEXT, METADATA_SOURCE_ID_BYTES}"
    using assms(2) by (auto simp: valid_view_def Let_def valid_text_def apta_consts)
  show ?thesis using assms(2) e id unfolding stored_ok_def sz valid_view_def by (simp add: f del: word_coorder.extremum_unique)
qed

lemma copied_input:
  assumes "apta_internal_metadata_copy_from_input host szm szv ctx input = Ret (STATUS_OK, md, ctx1)"
    "\<forall>t\<in>set (view_texts input). readable t"
  shows "valid_view input \<and> says_the_same md input"
proof -
  let ?v = "input\<lparr>mv_struct_size := ucast szv\<rparr>"
  have t: "view_texts ?v = view_texts input" "valid_view ?v = valid_view input" "says_the_same md ?v = says_the_same md input" for md
    by (simp_all add: view_texts_def valid_view_def has_flag_def says_the_same_def)
  have "apta_metadata_copy_validated_view host szv ctx ?v = Ret (STATUS_OK, md, ctx1)"
    using assms(1) by (simp add: apta_internal_metadata_copy_from_input_def apta_consts split: if_splits)
  moreover have "STATUS_OK \<noteq> ERROR_INVALID_ARGUMENT" "STATUS_OK \<noteq> ERROR_OUT_OF_MEMORY" by (simp_all add: apta_consts)
  ultimately show ?thesis using copy_validated_ok [of ?v host szv ctx] assms(2) by (auto simp: t split: if_splits)
qed

text \<open>
  C19: reading a metadata payload is memory safe for every byte string and accepts only what the copy can take:
  every text of an accepted view lies in the payload and within its limit, and the copy into the library's memory
  then succeeds (or runs out of memory), except that it refuses, without a trace, a text that is not UTF-8.
\<close>
theorem meta_parse_safe:
  assumes "unat szv < 2 ^ 32"
  shows "\<exists>r. apta_meta_parse_payload szv payload = Ret r \<and>
    (case r of
       None \<Rightarrow> True
     | Some w \<Rightarrow> stored_ok payload w \<and>
         (\<exists>s md ctx'. apta_internal_metadata_copy_from_view host szv ctx (in_payload payload w) = Ret (s, md, ctx') \<and>
            (if \<not> texts_encoded payload w then s = ERROR_INVALID_ARGUMENT \<and> ctx' = ctx
             else s = STATUS_OK \<and> says_the_same md (in_payload payload w) \<and> same_memory ctx (apta_internal_metadata_cleanup ctx' md) \<or>
                  s = ERROR_OUT_OF_MEMORY \<and> same_memory ctx ctx')))"
proof -
  obtain r where r: "apta_meta_parse_payload szv payload = Ret r" "\<forall>w. r = Some w \<longrightarrow> parsed_ok szv payload w"
    using parse_payload_inside [of szv payload] by (auto simp: parses_def)
  then show ?thesis
  proof (cases r)
    case (Some w)
    then have "parsed_ok szv payload w" using r(2) by simp
    then show ?thesis using copy_parsed [OF _ assms, of payload w host ctx] r(1) Some by (simp add: parsed_ok_def)
  qed simp
qed

lemma input_encoded:
  assumes "valid_view v" "map (stored_text payload) (view_texts r) = map text_bytes (view_texts v)"
    "mv_application_source_id_kind r = mv_application_source_id_kind v"
  shows "texts_encoded payload r"
proof -
  have f: "utf8_text (text_bytes t)" if "valid_text t m b" for t m b
    using that by (cases b) (auto simp: valid_text_def text_bytes_def split: option.split)
  have "stored_text payload (mv_producer_name r) = text_bytes (mv_producer_name v)"
    "stored_text payload (mv_producer_version_string r) = text_bytes (mv_producer_version_string v)"
    "stored_text payload (mv_backend_name r) = text_bytes (mv_backend_name v)"
    "stored_text payload (mv_backend_version r) = text_bytes (mv_backend_version v)"
    "stored_text payload (mv_application_source_id r) = text_bytes (mv_application_source_id v)"
    "stored_text payload (mv_comments r) = text_bytes (mv_comments v)"
    using assms(2) by (simp_all add: view_texts_def)
  then show ?thesis using assms(1,3) unfolding texts_encoded_def valid_view_def
    by (auto simp: Let_def apta_consts intro: f)
qed

lemma says_cong:
  assumes "says_the_same md v" "map text_bytes (view_texts v) = map text_bytes (view_texts v')"
    "map tx_size (view_texts v) = map tx_size (view_texts v')" "mv_flags v = mv_flags v'"
    "mv_application_source_id_kind v = mv_application_source_id_kind v'" "mv_creation_unix_time v = mv_creation_unix_time v'"
  shows "says_the_same md v'"
  using assms(1) unfolding says_the_same_def assms(2-6) .

text \<open>The payload that is written, and what is read from it.\<close>

lemma payload_roundtrip:
  assumes ok: "stored_ok storage w"
  shows "\<exists>payload r. apta_meta_write_payload storage out w = Ret (out @ payload) \<and>
    unat (apta_meta_measure_payload w) = length payload \<and> apta_meta_parse_payload szv payload = Ret (Some r) \<and>
    parsed_ok szv payload r \<and> same_metadata payload r storage w"
proof -
  let ?n = "length (items_of storage w)"
  let ?h = "cbor_head 5 (of_nat ?n)"
  let ?p = "?h @ items_bytes (items_of storage w)"
  let ?r = "apply_items (length ?h) (items_of storage w) (apta_metadata_view_init szv)"
  have pl: "\<forall>t\<in>set (view_texts w). placed (length storage) t" using ok by (simp add: stored_ok_def)
  have "ucast (of_nat ?n :: u32) = (of_nat ?n :: u64)"
    using items_ok(3) [OF ok] by (simp add: word_unat_eq_iff unsigned_ucast_eq of_nat_small take_bit_nat_eq_self)
  then have count: "ucast (apta_meta_item_count w) = (of_nat ?n :: u64)" by (simp add: item_count_eq [of w storage])
  have "apta_meta_write_payload storage out w = Ret (out @ ?p)" using write_payload_eq [OF pl] by (simp add: count)
  moreover have "unat (apta_meta_measure_payload w) = length ?p"
    using measure_eq [OF pl] payload_bound [OF ok, of "of_nat ?n"] by (simp add: count unat_of_nat take_bit_nat_eq_self del: of_nat_add length_append)
  moreover have r: "apta_meta_parse_payload szv ?p = Ret (Some ?r)"
    by (rule parse_items) (use items_ok [OF ok] in auto)
  moreover have "parsed_ok szv ?p ?r" using parse_payload_inside [of szv ?p] by (simp add: r)
  moreover have "same_metadata ?p ?r storage w" by (rule applied_items_same [OF ok refl])
  ultimately show ?thesis by blast
qed

text \<open>
  C18: metadata survive the file.  The metadata of a valid input, once copied, are written as a payload of exactly
  the measured size, and reading that payload is accepted; copying what was read gives metadata that say the same as
  the input again, unless memory runs out.  A creation time without its flag is not written and reads as 0.
\<close>
theorem metadata_file_roundtrip:
  assumes "apta_internal_metadata_copy_from_input host szm szv ctx input = Ret (STATUS_OK, md, ctx1)"
    "\<forall>t\<in>set (view_texts input). readable t" "unat szv < 2 ^ 32"
  shows "\<exists>payload w s md' ctx'.
    apta_meta_write_payload (stored_bytes md) out (md_view md) = Ret (out @ payload) \<and>
    unat (apta_meta_measure_payload (md_view md)) = length payload \<and>
    apta_meta_parse_payload szv payload = Ret (Some w) \<and>
    apta_internal_metadata_copy_from_view host' szv ctx2 (in_payload payload w) = Ret (s, md', ctx') \<and>
    (s = STATUS_OK \<and>
       says_the_same md' (if has_flag input METADATA_FLAG_CREATION_TIME_PRESENT then input else input\<lparr>mv_creation_unix_time := 0\<rparr>) \<or>
     s = ERROR_OUT_OF_MEMORY)"
proof -
  have in_ok: "valid_view input" "says_the_same md input" using copied_input [OF assms(1,2)] by simp_all
  note ok = stored_from_input [OF in_ok(2,1)]
  obtain payload w where p: "apta_meta_write_payload (stored_bytes md) out (md_view md) = Ret (out @ payload)"
    "unat (apta_meta_measure_payload (md_view md)) = length payload" "apta_meta_parse_payload szv payload = Ret (Some w)"
    "parsed_ok szv payload w" "same_metadata payload w (stored_bytes md) (md_view md)"
    using payload_roundtrip [OF ok] by blast
  let ?in = "if has_flag input METADATA_FLAG_CREATION_TIME_PRESENT then input else input\<lparr>mv_creation_unix_time := 0\<rparr>"
  have texts: "map (stored_text payload) (view_texts w) = map text_bytes (view_texts input)"
    "mv_application_source_id_kind w = mv_application_source_id_kind input"
    using p(5) in_ok(2) by (simp_all add: same_metadata_def says_the_same_def)
  have same: "says_the_same md' ?in" if "says_the_same md' (in_payload payload w)" for md'
  proof (rule says_cong [OF that])
    have in_texts: "view_texts ?in = view_texts input" "mv_flags ?in = mv_flags input"
      "mv_application_source_id_kind ?in = mv_application_source_id_kind input" by (simp_all add: view_texts_def)
    show "map text_bytes (view_texts (in_payload payload w)) = map text_bytes (view_texts ?in)"
      "map tx_size (view_texts (in_payload payload w)) = map tx_size (view_texts ?in)"
      using texts p(5) in_ok(2) by (simp_all only: in_texts) (simp_all add: view_texts_in_payload comp_def same_metadata_def says_the_same_def)
    show "mv_flags (in_payload payload w) = mv_flags ?in"
      "mv_application_source_id_kind (in_payload payload w) = mv_application_source_id_kind ?in"
      using texts(2) p(5) in_ok(2) by (simp_all only: in_texts) (simp_all add: in_payload_def same_metadata_def says_the_same_def)
    show "mv_creation_unix_time (in_payload payload w) = mv_creation_unix_time ?in"
      using p(5) in_ok(2) by (simp add: in_payload_def same_metadata_def says_the_same_def has_flag_def)
  qed
  have "texts_encoded payload w" by (rule input_encoded [OF in_ok(1) texts])
  then obtain s md' ctx' where "apta_internal_metadata_copy_from_view host' szv ctx2 (in_payload payload w) = Ret (s, md', ctx')"
    "s = STATUS_OK \<and> says_the_same md' (in_payload payload w) \<or> s = ERROR_OUT_OF_MEMORY"
    using copy_parsed [OF p(4) assms(3), of host' ctx2] by auto
  then show ?thesis using p(1-3) same by blast
qed

section \<open>Concrete payloads\<close>

definition broken_payload :: bytes where
  "broken_payload = [0xA1, 0x01, 0x62, 0xC3, 0x28]"

definition demo_payload :: bytes where
  "demo_payload = [0xA4, 0x01, 0x63, 0x41, 0xC3, 0xA9, 0x05, 0x1A, 0x65, 0x53, 0xF1, 0x00, 0x06, 0x42, 0xFF, 0x00,
     0x07, 0x63, 0xE2, 0x99, 0xAB]"

theorem meta_parse_safe_witness:
  "\<exists>w md ctx'. apta_meta_parse_payload 160 broken_payload = Ret (Some w) \<and> stored_ok broken_payload w \<and>
     apta_internal_metadata_copy_from_view demo_host 160 demo_context (in_payload broken_payload w) = Ret (ERROR_INVALID_ARGUMENT, md, ctx')"
proof -
  have "case apta_meta_parse_payload 160 broken_payload of
     Ret (Some w) \<Rightarrow> (case apta_internal_metadata_copy_from_view demo_host 160 demo_context (in_payload broken_payload w) of
       Ret (s, md, ctx') \<Rightarrow> s = ERROR_INVALID_ARGUMENT | _ \<Rightarrow> False) | _ \<Rightarrow> False" by code_simp
  then show ?thesis using meta_parse_safe [of 160 broken_payload demo_host demo_context] by (auto split: outcome.splits option.splits prod.splits)
qed

theorem metadata_file_roundtrip_witness:
  "\<exists>md ctx1 w s md' ctx'. apta_internal_metadata_copy_from_input demo_host 160 160 demo_context demo_view = Ret (STATUS_OK, md, ctx1) \<and>
     apta_meta_write_payload (stored_bytes md) [] (md_view md) = Ret demo_payload \<and>
     apta_meta_parse_payload 160 demo_payload = Ret (Some w) \<and>
     apta_internal_metadata_copy_from_view demo_host 160 demo_context (in_payload demo_payload w) = Ret (s, md', ctx') \<and>
     (s = STATUS_OK \<and> says_the_same md' demo_view \<or> s = ERROR_OUT_OF_MEMORY)"
proof -
  have "case apta_internal_metadata_copy_from_input demo_host 160 160 demo_context demo_view of
     Ret (s, md, ctx1) \<Rightarrow> s = STATUS_OK \<and> apta_meta_write_payload (stored_bytes md) [] (md_view md) = Ret demo_payload | _ \<Rightarrow> False" by code_simp
  then obtain md ctx1 where c: "apta_internal_metadata_copy_from_input demo_host 160 160 demo_context demo_view = Ret (STATUS_OK, md, ctx1)"
    "apta_meta_write_payload (stored_bytes md) [] (md_view md) = Ret demo_payload" by (auto split: outcome.splits prod.splits)
  have flag: "has_flag demo_view METADATA_FLAG_CREATION_TIME_PRESENT" by code_simp
  show ?thesis
    using metadata_file_roundtrip [OF c(1) demo_view_readable, of "[]" demo_host demo_context] c flag by auto
qed

end
