(* ===== verification/Spec2Isabelle.thy ===== *)
theory Spec2Isabelle
  imports Apta_Wovr_Roundtrip Apta_Processing_Theorems Apta_Detail_Cache Apta_Meta_Roundtrip
begin

text \<open>
  \<^bold>\<open>Verification of libapta-audio.\<close>

  libapta-audio analyses audio for players: a host creates a context, creates sessions on it, pushes
  PCM into a session (or lets the session pull it), calls \<open>apta_session_process\<close> until the track is
  done, and reads immutable result snapshots, which can be written to and parsed from a container
  file.  The library is built in layers: several source files define the same function, and
  \<^verbatim>\<open>CMakeLists.txt\<close> renames all but the outermost, so that each layer calls the next.  A layer has
  the name of its function here, with the suffix the build gives it where two layers are modelled.

  \<^bold>\<open>Parts and theories\<close>

  \<^item> \<open>Apta_Prelude\<close>: the integer types (\<open>u32\<close>, \<open>u64\<close>, \<open>usize\<close>, 64-bit \<open>size_t\<close>), the status codes of
    \<^verbatim>\<open>include/apta/apta_errors.h\<close>, and the outcome of a computation: \<open>Ret\<close>, \<open>Fail\<close> with a status, or
    \<open>Fault\<close> for an access the C program must not make (a read or write outside a buffer, a use after
    free).  Every claim of memory safety says that \<open>Fault\<close> does not occur.
  \<^item> \<open>Apta_Bytes\<close>, \<open>Apta_Crc32c\<close>: little-endian codecs and the checksum of \<^verbatim>\<open>src/serialization\<close>.
  \<^item> \<open>Apta_Memory\<close>: the allocator of a context (\<^verbatim>\<open>src/core/apta_memory.c\<close>), with the host's
    allocator as a function from call number and size to an address or nothing.
  \<^item> \<open>Apta_Result\<close>, \<open>Apta_Container\<close>, \<open>Apta_Wovr_Reader\<close>, \<open>Apta_Wovr_Hardening\<close>: the data of a
    waveform overview and the parser of the container, in its two layers.
  \<^item> \<open>Apta_Wovr_Writer\<close>, \<open>Apta_Wovr_Roundtrip\<close>: the writer, and the writer against the parser.
  \<^item> \<open>Apta_Metadata\<close>: the metadata of a track, their validation and their copy into the library's own
    memory (\<^verbatim>\<open>src/core/apta_metadata.c\<close>).
  \<^item> \<open>Apta_Meta\<close>, \<open>Apta_Meta_Items\<close>, \<open>Apta_Meta_Roundtrip\<close>: the metadata payload of the container, a
    CBOR map, its reader and writer (\<^verbatim>\<open>src/serialization/apta_meta_reader.c\<close>,
    \<^verbatim>\<open>apta_meta_writer.c\<close>), and one against the other.
  \<^item> \<open>Apta_Workspace\<close>, \<open>Apta_Config\<close>: the first-fit allocator in a caller's workspace and the
    calculation of the size a configuration needs (\<^verbatim>\<open>src/core/apta_session_workspace.c\<close>,
    \<^verbatim>\<open>src/core/apta_config.c\<close>).
  \<^item> \<open>Apta_Ranges\<close>: the intake of pushed PCM, a table of disjoint frame ranges and a queue of blocks
    (\<^verbatim>\<open>src/waveform/apta_waveform_input.c\<close>).
  \<^item> \<open>Apta_Session\<close>, \<open>Apta_Scheduler\<close>: the session structure, the table of region requests, its
    ageing and the choice of the frames to ask for next (\<^verbatim>\<open>src/core/apta_session_scheduler.c\<close>,
    \<^verbatim>\<open>src/core/apta_scheduler_policy.c\<close>, \<^verbatim>\<open>src/waveform/apta_waveform_scheduler.c\<close>, the demand of
    \<^verbatim>\<open>src/waveform/apta_waveform_process.c\<close>).
  \<^item> \<open>Apta_Pool_Layout\<close>, \<open>Apta_Pool\<close>: the bounded result pool, its layout, reference counts and
    publication (\<^verbatim>\<open>src/core/apta_result_pool*.c\<close>, \<^verbatim>\<open>src/core/apta_result_lifetime.c\<close>).
  \<^item> \<open>Apta_Engine\<close>, \<open>Apta_Publish\<close>: the parameters of the model (clock, host allocator and the
    floating-point kernels, record \<open>engine\<close>), and the publication of results, pooled or not, with
    what a failed one does to the overview's completion marks, under the assumption \<open>kernels_ok\<close> on
    the kernels (\<^verbatim>\<open>src/core/apta_result_pool_publication.c\<close>, \<^verbatim>\<open>src/core/apta_result_lifetime.c\<close>).
  \<^item> \<open>Apta_Overview\<close>, \<open>Apta_Overview_Exact\<close>, \<open>Apta_Process\<close>: the accumulators of the waveform
    overview, what they count, and the innermost processing call
    (\<^verbatim>\<open>src/waveform/apta_waveform_process.c\<close>).
  \<^item> \<open>Apta_Detail\<close>, \<open>Apta_Detail_Replay\<close>, \<open>Apta_Detail_Cache\<close>: the cache of detail tiles, its demand
    for replayed samples and their acceptance, and what the cache guarantees
    (\<^verbatim>\<open>src/waveform/apta_waveform_detail_*.c\<close>, \<^verbatim>\<open>src/core/apta_session_detail_contract.c\<close>).
  \<^item> \<open>Apta_Analysis\<close>, \<open>Apta_Process_Layers\<close>: the session's side of the tempo and grid analysis, the
    layered intake, and the layers around the processing call
    (\<^verbatim>\<open>src/waveform/apta_waveform_input_detail.c\<close>, \<^verbatim>\<open>apta_waveform_process_detail.c\<close>,
    \<^verbatim>\<open>src/tempo/apta_s4_process.c\<close>, \<^verbatim>\<open>src/beatgrid/apta_s6_process.c\<close>).
  \<^item> \<open>Apta_Lifecycle\<close>, \<open>Apta_Session_Ok\<close>, \<open>Apta_Session_Run\<close>: the session's state machine, its input
    side, the pull adapter and the public processing call (\<^verbatim>\<open>src/core/apta_session_lifecycle.c\<close>,
    \<^verbatim>\<open>src/core/apta_session_source.c\<close>, \<^verbatim>\<open>src/core/apta_session_pull*.c\<close>); the invariant
    \<open>session_ok\<close> of a session, and runs of calls.
  \<^item> \<open>Apta_Session_Create\<close>, \<open>Apta_Processing_Theorems\<close>: the six layers of \<open>apta_session_create\<close>, the
    exactness of the overview from creation on, and the properties of the processing call.

  \<^bold>\<open>Conventions\<close>

  A C structure is a record; a pointer is an \<open>option\<close>, and a pointer into a buffer an offset.  An
  operation on a structure takes it and returns it updated; an operation that may read or write
  memory returns an \<open>outcome\<close>.  A session's intake, its results and its lifecycle are parts of one
  record \<open>apta_session\<close>, and the operations of one component are lifted to it where they are called.
  Calls with a null pointer where the interface demands an object return \<open>ERROR_INVALID_ARGUMENT\<close>
  before anything else and are not represented.  Structure sizes and alignments are parameters
  (\<open>struct_sizes\<close>, \<open>struct_alignments\<close>); nothing is assumed of them but what a statement says.  Only
  the parser has the sizes of its result, spans and columns on a 64-bit target written out.
  Atomics are plain fields: an operation is one step, concurrency is the order of the steps.

  \<^bold>\<open>What the lemmas show\<close>

  \<^item> Interfaces are locales with the laws their clients use, interpreted on the model: \<open>le_codec\<close> (a
    codec reads back what it wrote), \<open>comparison\<close> (a C comparison function is a linear order, so the
    library's sort is determined), \<open>block_store\<close> (allocation keeps the live blocks apart), and
    \<open>coverage_table\<close> (an insertion into a range table unites sets of frames).
  \<^item> The parser: for every byte string no access is out of bounds, whatever it accepts is well
    formed, whatever it allocates is given back when it fails, and a written result is accepted and
    read back.  The checksum detects every error burst of up to 32 bits.
  \<^item> Metadata: the validation accepts exactly the well-formed UTF-8 texts, and a copy says the same as
    its input; the reader of the payload is memory safe for every byte string, and metadata that are
    written, read and copied again say the same.
  \<^item> Allocators: accounting, alignment and disjointness; the calculated workspace suffices.
  \<^item> Intake: the accepted frames are exactly those covered, each once.
  \<^item> Scheduler: the request table stays well formed, the selected request is the best one, and the
    frames asked for are missing and can be pushed.
  \<^item> Pool: a published snapshot does not change while anybody holds it, and the memory is returned.
  \<^item> Lifecycle: the transitions, the end of input and its roll-back, the callback discipline of the
    pull adapter, and an invariant of all sequences of the calls of \<open>session_op\<close>, established by creation.
  \<^item> Processing: every accumulator counts exactly the processed frames of its column, the frames
    reported as consumed are those newly processed, the queue is sorted stably by the scheduler's
    order, and the loop ends only for want of work or at a limit.
  \<^item> Detail cache: counters and runs agree with the columns, no tile is cached twice, and eviction
    respects focus and requests.

  \<^bold>\<open>Bounds and fuel\<close>

  All recursions are structural or have a measure, so no fuel is used; the measure of the processing
  loop is the number of unprocessed frames in the queue.  Numbers that decide are the source's own:
  16 request slots, 2 result slots, 4 detail tiles of 64 columns, at most 4096 frames a push.

  \<^bold>\<open>Not modelled\<close>

  The signal processing proper (tempo and beat-grid estimation, sums and extrema of the columns and
  their quantisation) computes with single-precision floats, for which the library used here has no
  theory; where the session calls it, it is a parameter (\<open>engine\<close>) with the assumption \<open>kernels_ok\<close>:
  it leaves lifecycle, requests, accepted frames, accumulators and tiles alone.  (That a publication
  which fails for lack of slots or memory takes the completion marks of the accumulators away is
  modelled, around the parameter.)  The snapshot
  builders, the container sections of detail, tempo and grid, the place of the metadata section in
  the container, the metadata calls of sessions and results, the beat-grid calls
  (\<^verbatim>\<open>apta_session_lock_grid_range\<close>, \<^verbatim>\<open>apta_session_apply_grid_revision\<close>), seeding from a parsed result, the
  destruction of sessions without bounded results, accessors, the desktop and device ports, tools
  and examples are not modelled.  The properties of runs (\<open>session_run\<close>) are about the calls listed in
  \<open>session_op\<close>; they say nothing of a session that has been seeded, given metadata, or revised through
  the beat-grid calls.  Reads of sample values and divisions by the number of frames per column are
  total in the model: the sample memory is not bounds-checked, and the number of frames per column is
  nonzero by the session's invariant.
\<close>

end
